(* ===== verification/Prelude.thy ===== *)
theory Prelude
  imports Main "HOL-Library.Word" "HOL-Library.Monad_Syntax"
begin

text \<open>
  Shared vocabulary of the development: bytes as 8-bit words, bit streams in the order in
  which JTAG shifts them (least significant bit of the first byte first), C byte buffers as
  lists with checked reads and writes, and results of code that may throw.
\<close>

unbundle bit_operations_syntax

type_synonym byte = "8 word"
type_synonym u16 = "16 word"
type_synonym u32 = "32 word"

named_theorems buf_simps \<open>reads and writes of C buffers\<close>
named_theorems bits_simps \<open>bytes against bit streams\<close>

section \<open>Results of code that may throw\<close>

text \<open>
  \<open>IOException\<close> is the exception type of \<^verbatim>\<open>io_exception.h\<close> with its message; \<open>OutOfBounds\<close>
  stands for a read or write outside an allocated object, which C++ leaves undefined and
  which the model reports as an error, with the offending index; \<open>Exit n\<close> is \<^verbatim>\<open>exit(n)\<close>;
  \<open>Abort\<close> is a failed \<^verbatim>\<open>assert\<close>, \<open>Uninit\<close> the use of a variable that was never assigned;
  \<open>NotReturned\<close> is a loop without a bound that has used up the passes it was given.
\<close>

datatype error = IOException string | InvalidArgument string | OutOfBounds nat | NullPointer | Exit int | Abort | Uninit | NotReturned

type_synonym 'a res = "error + 'a"

definition ok :: "'a \<Rightarrow> 'a res" where
  "ok = Inr"

definition rbind :: "'a res \<Rightarrow> ('a \<Rightarrow> 'b res) \<Rightarrow> 'b res" where
  "rbind m f = (case m of Inl e \<Rightarrow> Inl e | Inr x \<Rightarrow> f x)"

lemma rbind_simps [simp]:
  "rbind (Inl e) f = Inl e"
  "rbind (Inr x) f = f x"
  by (simp_all add: rbind_def)

lemma rbind_ok [simp]: "rbind (ok x) f = f x"
  by (simp add: ok_def)

lemma rbind_Inr_iff: "rbind m f = Inr y \<longleftrightarrow> (\<exists>x. m = Inr x \<and> f x = Inr y)"
  by (cases m) auto

lemma rbind_assoc: "rbind (rbind m f) g = rbind m (\<lambda>x. rbind (f x) g)"
  by (cases m) auto

section \<open>Checked buffers\<close>

definition buf_get :: "'a list \<Rightarrow> nat \<Rightarrow> 'a res" where
  "buf_get xs i = (if i < length xs then Inr (xs ! i) else Inl (OutOfBounds i))"

definition buf_set :: "'a list \<Rightarrow> nat \<Rightarrow> 'a \<Rightarrow> 'a list res" where
  "buf_set xs i v = (if i < length xs then Inr (xs[i := v]) else Inl (OutOfBounds i))"

lemma buf_get_in [buf_simps]: "i < length xs \<Longrightarrow> buf_get xs i = Inr (xs ! i)"
  by (simp add: buf_get_def)

lemma buf_set_in [buf_simps]: "i < length xs \<Longrightarrow> buf_set xs i v = Inr (xs[i := v])"
  by (simp add: buf_set_def)

lemma buf_get_out: "\<not> i < length xs \<Longrightarrow> buf_get xs i = Inl (OutOfBounds i)"
  by (simp add: buf_get_def)

lemma buf_set_out: "\<not> i < length xs \<Longrightarrow> buf_set xs i v = Inl (OutOfBounds i)"
  by (simp add: buf_set_def)

section \<open>Bytes and bit streams\<close>

text \<open>
  Bit \<open>k\<close> of a buffer is bit \<open>k mod 8\<close> of byte \<open>k div 8\<close>, as in
  \<^verbatim>\<open>buf[k/8] & (1 << (k%8))\<close>.
\<close>

definition buf_bit :: "byte list \<Rightarrow> nat \<Rightarrow> bool" where
  "buf_bit bs k = bit (bs ! (k div 8)) (k mod 8)"

definition buf_bits :: "byte list \<Rightarrow> nat \<Rightarrow> bool list" where
  "buf_bits bs n = map (buf_bit bs) [0..<n]"

lemma length_buf_bits [simp]: "length (buf_bits bs n) = n"
  by (simp add: buf_bits_def)

lemma nth_buf_bits [simp]: "k < n \<Longrightarrow> buf_bits bs n ! k = buf_bit bs k"
  by (simp add: buf_bits_def)

lemma buf_bits_0 [simp]: "buf_bits bs 0 = []"
  by (simp add: buf_bits_def)

lemma buf_bits_Suc: "buf_bits bs (Suc n) = buf_bits bs n @ [buf_bit bs n]"
  by (simp add: buf_bits_def)

lemma buf_bits_eq_nil [simp]: "buf_bits bs n = [] \<longleftrightarrow> n = 0"
  by (metis length_0_conv length_buf_bits)

text \<open>\<open>nbytes n\<close> is \<^verbatim>\<open>n/8 + ((n%8)?1:0)\<close>, the bytes that hold \<open>n\<close> bits.\<close>

definition nbytes :: "nat \<Rightarrow> nat" where
  "nbytes n = n div 8 + (if n mod 8 \<noteq> 0 then 1 else 0)"

lemma nbytes_0 [simp]: "nbytes 0 = 0"
  by (simp add: nbytes_def)

lemma nbytes_mult8 [simp]: "nbytes (8 * n) = n" "nbytes (n * 8) = n"
  by (simp_all add: nbytes_def)

lemma nbytes_bound: "n \<le> 8 * nbytes n" "8 * nbytes n < n + 8"
  unfolding nbytes_def by (presburger, presburger)

lemma nbytes_index: "k < n \<Longrightarrow> k div 8 < nbytes n"
  using nbytes_bound(1) [of n] by (simp add: div_less_iff_less_mult)

text \<open>Setting and clearing one bit of a byte.\<close>

definition put_bit :: "byte \<Rightarrow> nat \<Rightarrow> bool \<Rightarrow> byte" where
  "put_bit b i v = (if v then b OR push_bit i 1 else b AND NOT (push_bit i 1))"

lemma bit_put_bit [bits_simps]:
  "j < 8 \<Longrightarrow> i < 8 \<Longrightarrow> bit (put_bit b i v) j = (if j = i then v else bit b j)"
  by (auto simp: put_bit_def bit_simps)

lemma byte_eq_iff: "(a :: byte) = b \<longleftrightarrow> (\<forall>i < 8. bit a i = bit b i)"
  by (auto simp: bit_eq_iff)

definition buf_put :: "byte list \<Rightarrow> nat \<Rightarrow> bool \<Rightarrow> byte list" where
  "buf_put bs k v = bs[k div 8 := put_bit (bs ! (k div 8)) (k mod 8) v]"

lemma length_buf_put [simp]: "length (buf_put bs k v) = length bs"
  by (simp add: buf_put_def)

lemma buf_bit_put [bits_simps]:
  assumes "k div 8 < length bs"
  shows "buf_bit (buf_put bs k v) j = (if j = k then v else buf_bit bs j)"
proof (cases "j div 8 = k div 8")
  case True
  have "j = k \<longleftrightarrow> j mod 8 = k mod 8"
    using True by (metis div_mult_mod_eq)
  with True assms show ?thesis
    by (auto simp: buf_put_def buf_bit_def bit_put_bit)
next
  case False
  then show ?thesis using assms by (auto simp: buf_put_def buf_bit_def nth_list_update)
qed

text \<open>Bytes that hold given bits.\<close>

definition bits_bytes :: "nat \<Rightarrow> bool list \<Rightarrow> byte list" where
  "bits_bytes n bs = map (\<lambda>k. horner_sum of_bool 2 (map (\<lambda>j. 8 * k + j < length bs \<and> bs ! (8 * k + j)) [0..<8])) [0..<nbytes n]"

lemma buf_bit_bits_bytes: "k < n \<Longrightarrow> n \<le> length bs \<Longrightarrow> buf_bit (bits_bytes n bs) k = bs ! k"
proof -
  assume k: "k < n" "n \<le> length bs"
  have "k div 8 < nbytes n" using k(1) by (rule nbytes_index)
  moreover have "[0..<8] ! (k mod 8) = k mod 8" by (simp add: nth_upt)
  ultimately show ?thesis
    using k by (simp add: buf_bit_def bits_bytes_def bit_horner_sum_bit_iff del: upt_conv_Cons)
qed

section \<open>List lemmas\<close>

lemma take_last_split: "xs \<noteq> [] \<Longrightarrow> xs = take (length xs - 1) xs @ [last xs]"
  by (metis append_butlast_last_id butlast_conv_take)

lemma replicate_append_Suc: "replicate n x @ [x] = replicate (Suc n) x"
  by (simp add: replicate_append_same)

section \<open>Memories\<close>

text \<open>A memory with a list of bytes put to an address.\<close>

definition put_page :: "nat \<Rightarrow> byte list \<Rightarrow> (nat \<Rightarrow> byte) \<Rightarrow> nat \<Rightarrow> byte" where
  "put_page a bs m = (\<lambda>x. if a \<le> x \<and> x < a + length bs then bs ! (x - a) else m x)"

lemma put_page_Nil [simp]: "put_page a [] m = m"
  by (rule ext) (auto simp: put_page_def)

lemma put_page_snoc: "put_page a (bs @ [b]) m = (put_page a bs m)(a + length bs := b)"
  by (auto simp: put_page_def fun_eq_iff nth_append)

lemma map_put_page: "map (put_page a bs m) [a..<a + length bs] = bs"
  by (rule nth_equalityI) (simp_all add: put_page_def)

end
