(* ===== verification/BitRev.thy ===== *)
theory BitRev
  imports Prelude
begin

text \<open>
  The bit reversal table of \<^verbatim>\<open>bitrev.cpp\<close>: Xilinx files store each byte most significant bit
  first, JTAG shifts least significant bit first, and every reader and writer of
  configuration data goes through this table.
\<close>

definition bitRevTable :: "byte list" where
  "bitRevTable = [
    0, 128, 64, 192, 32, 160, 96, 224, 16, 144, 80, 208, 48, 176, 112, 240,
    8, 136, 72, 200, 40, 168, 104, 232, 24, 152, 88, 216, 56, 184, 120, 248,
    4, 132, 68, 196, 36, 164, 100, 228, 20, 148, 84, 212, 52, 180, 116, 244,
    12, 140, 76, 204, 44, 172, 108, 236, 28, 156, 92, 220, 60, 188, 124, 252,
    2, 130, 66, 194, 34, 162, 98, 226, 18, 146, 82, 210, 50, 178, 114, 242,
    10, 138, 74, 202, 42, 170, 106, 234, 26, 154, 90, 218, 58, 186, 122, 250,
    6, 134, 70, 198, 38, 166, 102, 230, 22, 150, 86, 214, 54, 182, 118, 246,
    14, 142, 78, 206, 46, 174, 110, 238, 30, 158, 94, 222, 62, 190, 126, 254,
    1, 129, 65, 193, 33, 161, 97, 225, 17, 145, 81, 209, 49, 177, 113, 241,
    9, 137, 73, 201, 41, 169, 105, 233, 25, 153, 89, 217, 57, 185, 121, 249,
    5, 133, 69, 197, 37, 165, 101, 229, 21, 149, 85, 213, 53, 181, 117, 245,
    13, 141, 77, 205, 45, 173, 109, 237, 29, 157, 93, 221, 61, 189, 125, 253,
    3, 131, 67, 195, 35, 163, 99, 227, 19, 147, 83, 211, 51, 179, 115, 243,
    11, 139, 75, 203, 43, 171, 107, 235, 27, 155, 91, 219, 59, 187, 123, 251,
    7, 135, 71, 199, 39, 167, 103, 231, 23, 151, 87, 215, 55, 183, 119, 247,
    15, 143, 79, 207, 47, 175, 111, 239, 31, 159, 95, 223, 63, 191, 127, 255]"

definition bitRev :: "byte \<Rightarrow> byte" where
  "bitRev b = bitRevTable ! unat b"

lemma length_bitRevTable [simp]: "length bitRevTable = 256"
  by (simp add: bitRevTable_def)

lemma bitRevTable_checked:
  "list_all (\<lambda>n. list_all (\<lambda>i. bit (bitRevTable ! n) i = bit (word_of_nat n :: byte) (7 - i)) [0..<8]) [0..<256]"
  by code_simp

lemma bit_bitRev [bits_simps]:
  assumes "i < 8"
  shows "bit (bitRev b) i = bit b (7 - i)"
proof -
  have "unat b < 256"
    using unsigned_less [of b] by simp
  then have "unat b \<in> set [0..<256]" by simp
  then have "list_all (\<lambda>i. bit (bitRevTable ! unat b) i = bit (word_of_nat (unat b) :: byte) (7 - i)) [0..<8]"
    using bitRevTable_checked unfolding list_all_iff by blast
  with assms show ?thesis
    by (simp add: list_all_iff bitRev_def)
qed

lemma bitRev_involution [simp]: "bitRev (bitRev b) = b"
  by (simp add: byte_eq_iff bit_bitRev)

lemma bitRev_inject [simp]: "bitRev a = bitRev b \<longleftrightarrow> a = b"
  by (metis bitRev_involution)

lemma map_bitRev_involution [simp]: "map bitRev (map bitRev bs) = bs"
  by (simp add: comp_def)

end
