(* ===== verification/CStdio.thy ===== *)
theory CStdio
  imports Prelude
begin

text \<open>
  The part of C's standard I/O that the file readers and writers use: byte streams with an
  end-of-file flag that is set by a read that comes up short, \<^verbatim>\<open>fgets\<close> into a fixed buffer,
  the hexadecimal and decimal conversions of \<^verbatim>\<open>sscanf\<close> and \<^verbatim>\<open>printf\<close>. Characters are bytes.
\<close>

section \<open>Characters\<close>

definition ascii :: "string \<Rightarrow> byte list" where
  "ascii s = map of_char s"

definition c_isspace :: "byte \<Rightarrow> bool" where
  "c_isspace b \<longleftrightarrow> b = 32 \<or> (9 \<le> b \<and> b \<le> 13)"

definition c_isdigit :: "byte \<Rightarrow> bool" where
  "c_isdigit b \<longleftrightarrow> 48 \<le> b \<and> b \<le> 57"

definition c_tolower :: "byte \<Rightarrow> byte" where
  "c_tolower b = (if 65 \<le> b \<and> b \<le> 90 then b + 32 else b)"

definition hex_value :: "byte \<Rightarrow> nat option" where
  "hex_value b =
     (if 48 \<le> b \<and> b \<le> 57 then Some (unat b - 48)
      else if 65 \<le> b \<and> b \<le> 70 then Some (unat b - 55)
      else if 97 \<le> b \<and> b \<le> 102 then Some (unat b - 87)
      else None)"

text \<open>\<^verbatim>\<open>strncasecmp(s, t, n) == 0\<close> and \<^verbatim>\<open>strcasecmp(s, t) == 0\<close> on strings without their final NUL.\<close>

definition strncasecmp_eq :: "nat \<Rightarrow> byte list \<Rightarrow> byte list \<Rightarrow> bool" where
  "strncasecmp_eq n s t \<longleftrightarrow> map c_tolower (take n s) = map c_tolower (take n t)"

definition strcasecmp_eq :: "byte list \<Rightarrow> byte list \<Rightarrow> bool" where
  "strcasecmp_eq s t \<longleftrightarrow> map c_tolower s = map c_tolower t"

section \<open>Streams\<close>

record cfile =
  fdata :: "byte list"
  fpos :: nat
  feof :: bool

definition fopen :: "byte list \<Rightarrow> cfile" where
  "fopen bs = \<lparr>fdata = bs, fpos = 0, feof = False\<rparr>"

text \<open>\<^verbatim>\<open>fread(&b,1,1,fp)\<close>: the byte stored, if any.\<close>

definition fread1 :: "cfile \<Rightarrow> byte option \<times> cfile" where
  "fread1 f =
     (if fpos f < length (fdata f)
      then (Some (fdata f ! fpos f), f\<lparr>fpos := fpos f + 1\<rparr>)
      else (None, f\<lparr>feof := True\<rparr>))"

text \<open>\<^verbatim>\<open>fread(t,1,n,fp)\<close>: the bytes stored, at most \<open>n\<close>.\<close>

definition fread :: "nat \<Rightarrow> cfile \<Rightarrow> byte list \<times> cfile" where
  "fread n f =
     (let got = take n (drop (fpos f) (fdata f))
      in (got, f\<lparr>fpos := fpos f + length got, feof := (feof f \<or> length got < n)\<rparr>))"

text \<open>A buffer of which the first bytes have been overwritten.\<close>

definition overwrite :: "'a list \<Rightarrow> 'a list \<Rightarrow> 'a list" where
  "overwrite old new = new @ drop (length new) old"

lemma length_overwrite [simp]: "length new \<le> length old \<Longrightarrow> length (overwrite old new) = length old"
  by (simp add: overwrite_def)

text \<open>What a read can still do: the bytes left, and once, set the flag.\<close>

definition fleft :: "cfile \<Rightarrow> nat" where
  "fleft f = length (fdata f) - fpos f + (if feof f then 0 else 1)"

lemma fleft_fread1: "\<not> feof f \<Longrightarrow> fleft (snd (fread1 f)) < fleft f"
  and fleft_fread1_le: "fleft (snd (fread1 f)) \<le> fleft f"
  by (auto simp: fleft_def fread1_def)

lemma fleft_fread: "fleft (snd (fread n f)) \<le> fleft f"
  by (auto simp: fleft_def fread_def Let_def)

text \<open>
  \<^verbatim>\<open>fgets(buf, size, fp)\<close> on the bytes left: the line with its newline, at most
  \<^verbatim>\<open>size - 1\<close> bytes, and the rest; \<open>None\<close> is the null result at the end of the file.
\<close>

fun fgets_take :: "nat \<Rightarrow> byte list \<Rightarrow> byte list \<times> byte list" where
  "fgets_take 0 bs = ([], bs)"
| "fgets_take (Suc n) [] = ([], [])"
| "fgets_take (Suc n) (b # bs) =
     (if b = 10 then ([b], bs) else (case fgets_take n bs of (l, r) \<Rightarrow> (b # l, r)))"

definition fgets :: "nat \<Rightarrow> byte list \<Rightarrow> (byte list \<times> byte list) option" where
  "fgets sz bs = (if bs = [] then None else Some (fgets_take (sz - 1) bs))"

lemma fgets_take_append: "fgets_take n bs = (l, r) \<Longrightarrow> bs = l @ r"
  by (induction n bs arbitrary: l r rule: fgets_take.induct) (auto split: if_splits prod.splits)

lemma fgets_take_length: "length (fst (fgets_take n bs)) \<le> n"
  by (induction n bs rule: fgets_take.induct) (auto split: prod.splits)

lemma fgets_take_progress: "0 < n \<Longrightarrow> bs \<noteq> [] \<Longrightarrow> length (snd (fgets_take n bs)) < length bs"
proof -
  assume "0 < n" "bs \<noteq> []"
  then obtain m b cs where "n = Suc m" "bs = b # cs" by (cases n; cases bs) auto
  then show ?thesis
    using fgets_take_append [of m cs] by (auto split: prod.splits)
qed

lemma fgets_line:
  assumes "10 \<notin> set l" and "length l < n"
  shows "fgets_take n (l @ 10 # r) = (l @ [10], r)"
  using assms
proof (induction l arbitrary: n)
  case Nil
  then show ?case by (cases n) auto
next
  case (Cons b l)
  then show ?case by (cases n) auto
qed

text \<open>The string that starts at an index of a buffer, as the string functions see it.\<close>

definition c_string :: "byte list \<Rightarrow> nat \<Rightarrow> byte list" where
  "c_string buf i = takeWhile (\<lambda>b. b \<noteq> 0) (drop i buf)"

lemma takeWhile_nul: "0 \<notin> set s \<Longrightarrow> takeWhile (\<lambda>b. b \<noteq> 0) (s @ 0 # r) = s"
  by (induction s) auto

text \<open>A terminated string at an index of a buffer.\<close>

definition has_string :: "byte list \<Rightarrow> nat \<Rightarrow> byte list \<Rightarrow> bool" where
  "has_string buf i s \<longleftrightarrow> take (length s + 1) (drop i buf) = s @ [0] \<and> 0 \<notin> set s"

lemma c_string_has_string: "has_string buf i s \<Longrightarrow> c_string buf i = s"
proof -
  assume s: "has_string buf i s"
  then have "drop i buf = (s @ [0]) @ drop (length s + 1) (drop i buf)"
    unfolding has_string_def by (metis append_take_drop_id)
  then have "drop i buf = s @ 0 # drop (length s + 1) (drop i buf)" by simp
  then show "c_string buf i = s"
    using s unfolding c_string_def has_string_def by (metis takeWhile_nul)
qed

section \<open>Conversions of sscanf\<close>

text \<open>
  \<^verbatim>\<open>%wx\<close>: leading white space, an optional sign, an optional \<^verbatim>\<open>0x\<close>, at most \<open>w\<close> characters;
  the value and the rest of the string, or \<open>None\<close> when no digit matches.
\<close>

fun hex_num :: "nat \<Rightarrow> byte list \<Rightarrow> nat" where
  "hex_num acc [] = acc"
| "hex_num acc (b # bs) = (case hex_value b of None \<Rightarrow> acc | Some d \<Rightarrow> hex_num (16 * acc + d) bs)"

definition scan_hex :: "nat \<Rightarrow> byte list \<Rightarrow> (int \<times> byte list) option" where
  "scan_hex w s0 =
     (let s = dropWhile c_isspace s0;
          sgn = (if 0 < w \<and> s \<noteq> [] \<and> (hd s = 43 \<or> hd s = 45) then Some (hd s = 45) else None);
          (s, w) = (if sgn = None then (s, w) else (tl s, w - 1));
          (s, w) = (if 2 \<le> w \<and> 2 \<le> length s \<and> hd s = 48 \<and> c_tolower (s ! 1) = 120
                    then (drop 2 s, w - 2) else (s, w));
          ds = takeWhile (\<lambda>b. hex_value b \<noteq> None) (take w s)
      in if ds = [] then None
         else Some (if sgn = Some True then - int (hex_num 0 ds) else int (hex_num 0 ds), drop (length ds) s))"

section \<open>Conversions of printf\<close>

definition hex_digit :: "bool \<Rightarrow> nat \<Rightarrow> byte" where
  "hex_digit upper n = (if n < 10 then of_nat (48 + n) else of_nat ((if upper then 55 else 87) + n))"

fun hex_string :: "bool \<Rightarrow> nat \<Rightarrow> byte list" where
  "hex_string upper n =
     (if n < 16 then [hex_digit upper n] else hex_string upper (n div 16) @ [hex_digit upper (n mod 16)])"

declare hex_string.simps [simp del]

fun dec_string :: "nat \<Rightarrow> byte list" where
  "dec_string n =
     (if n < 10 then [of_nat (48 + n)] else dec_string (n div 10) @ [of_nat (48 + n mod 10)])"

declare dec_string.simps [simp del]

text \<open>Padding to a minimal width with zeros or spaces: \<^verbatim>\<open>%02X\<close>, \<^verbatim>\<open>%7d\<close>.\<close>

definition pad :: "byte \<Rightarrow> nat \<Rightarrow> byte list \<Rightarrow> byte list" where
  "pad c w s = replicate (w - length s) c @ s"

definition print_hex :: "bool \<Rightarrow> nat \<Rightarrow> nat \<Rightarrow> byte list" where
  "print_hex upper w n = pad 48 w (hex_string upper n)"

lemma hex_value_digit [simp]: "n < 16 \<Longrightarrow> hex_value (hex_digit upper n) = Some n"
proof -
  have "list_all (\<lambda>u. list_all (\<lambda>n. hex_value (hex_digit u n) = Some n) [0..<16]) [True, False]"
    by code_simp
  then show "n < 16 \<Longrightarrow> ?thesis" by (cases upper) (auto simp: list_all_iff)
qed

lemma hex_digit_plain:
  "n < 16 \<Longrightarrow> hex_digit upper n \<notin> {0, 10, 13, 32, 47, 43, 45, 58} \<and> \<not> c_isspace (hex_digit upper n) \<and>
     c_tolower (hex_digit upper n) \<noteq> 120"
proof -
  have "list_all (\<lambda>u. list_all (\<lambda>n. hex_digit u n \<notin> {0, 10, 13, 32, 47, 43, 45, 58} \<and>
      \<not> c_isspace (hex_digit u n) \<and> c_tolower (hex_digit u n) \<noteq> 120) [0..<16]) [True, False]"
    by code_simp
  then show "n < 16 \<Longrightarrow> ?thesis" by (cases upper) (auto simp: list_all_iff)
qed

lemma print_hex_2: "n < 256 \<Longrightarrow> print_hex upper 2 n = [hex_digit upper (n div 16), hex_digit upper (n mod 16)]"
proof (cases "n < 16")
  case True
  then show ?thesis
    by (simp add: print_hex_def pad_def hex_string.simps [of _ n] hex_digit_def)
next
  case False
  assume "n < 256"
  then have "n div 16 < 16" by simp
  with False show ?thesis
    by (simp add: print_hex_def pad_def hex_string.simps [of _ n] hex_string.simps [of _ "n div 16"])
qed

lemma hex_string_snoc:
  "d < 16 \<Longrightarrow> hex_string upper (16 * m + d) = (if m = 0 then [] else hex_string upper m) @ [hex_digit upper d]"
  by (cases "m = 0") (simp_all add: hex_string.simps [of _ d] hex_string.simps [of _ "16 * m + d"])

lemma hex_digit_0: "hex_digit upper 0 = 48"
  by (simp add: hex_digit_def)

lemma print_hex_4_digits:
  assumes "a < 16" "b < 16" "c < 16" "d < 16"
  shows "print_hex upper 4 (16 * (16 * (16 * a + b) + c) + d) =
    [hex_digit upper a, hex_digit upper b, hex_digit upper c, hex_digit upper d]"
proof -
  note snoc = hex_string_snoc [OF assms(4)] hex_string_snoc [OF assms(3)] hex_string_snoc [OF assms(2)]
  have h: "hex_string upper (16 * (16 * (16 * a + b) + c) + d) =
     (if a = 0 then [] else [hex_digit upper a]) @
     (if a = 0 \<and> b = 0 then [] else [hex_digit upper b]) @
     (if a = 0 \<and> b = 0 \<and> c = 0 then [] else [hex_digit upper c]) @ [hex_digit upper d]"
    unfolding snoc using assms(1) by (auto simp: hex_string.simps [of _ a])
  show ?thesis
    unfolding print_hex_def pad_def h by (auto simp: hex_digit_0 numeral_eq_Suc)
qed

lemma hex_split_4:
  fixes n :: nat
  assumes "n < 65536"
  obtains a b c d where "a < 16" "b < 16" "c < 16" "d < 16" "n = 16 * (16 * (16 * a + b) + c) + d"
    "n div 256 = 16 * a + b" "n mod 256 = 16 * c + d"
proof (rule that [of "n div 4096" "n div 256 mod 16" "n div 16 mod 16" "n mod 16"])
  show "n div 4096 < 16" using assms by simp
  have e: "n div 4096 = n div 16 div 16 div 16" "n div 256 = n div 16 div 16"
    by (simp_all flip: div_mult2_eq)
  have m: "16 * (m div 16) + m mod 16 = m" for m :: nat by simp
  have "16 * (n div 4096) + n div 256 mod 16 = n div 16 div 16" unfolding e by (rule m)
  then show "n = 16 * (16 * (16 * (n div 4096) + n div 256 mod 16) + n div 16 mod 16) + n mod 16"
    by simp
  show "n div 256 = 16 * (n div 4096) + n div 256 mod 16" unfolding e by (rule m [symmetric])
  have "n mod 256 = 16 * (n div 16 mod 16) + n mod 16"
    using mod_mult2_eq [of n 16 16] by simp
  then show "n mod 256 = 16 * (n div 16 mod 16) + n mod 16" .
qed simp_all

lemma print_hex_4:
  assumes "n < 65536"
  shows "print_hex upper 4 n = print_hex upper 2 (n div 256) @ print_hex upper 2 (n mod 256)"
proof -
  obtain a b c d where abcd: "a < 16" "b < 16" "c < 16" "d < 16" "n = 16 * (16 * (16 * a + b) + c) + d"
    "n div 256 = 16 * a + b" "n mod 256 = 16 * c + d"
    using hex_split_4 [OF assms] .
  have "16 * a + b < 256" "16 * c + d < 256" using abcd by simp_all
  then show ?thesis
    unfolding abcd(6,7) unfolding abcd(5) print_hex_4_digits [OF abcd(1-4)]
    using abcd(1-4) by (simp add: print_hex_2)
qed

lemma scan_hex_2:
  assumes "n < 256"
  shows "scan_hex 2 (print_hex upper 2 n @ r) = Some (int n, r)"
proof -
  have "n div 16 < 16" "n mod 16 < 16" using assms by simp_all
  note p = hex_digit_plain [OF this(1), of upper] hex_digit_plain [OF this(2), of upper]
  have "16 * (n div 16) + n mod 16 = n" by simp
  with p \<open>n div 16 < 16\<close> \<open>n mod 16 < 16\<close> show ?thesis
    by (simp add: print_hex_2 assms scan_hex_def Let_def)
qed

lemma scan_hex_4:
  assumes "n < 65536"
  shows "scan_hex 4 (print_hex upper 4 n @ r) = Some (int n, r)"
proof -
  obtain a b c d where abcd: "a < 16" "b < 16" "c < 16" "d < 16" "n = 16 * (16 * (16 * a + b) + c) + d"
    using hex_split_4 [OF assms] by metis
  note p = hex_digit_plain [OF abcd(1), of upper] hex_digit_plain [OF abcd(2), of upper]
  have "scan_hex 4 ([hex_digit upper a, hex_digit upper b, hex_digit upper c, hex_digit upper d] @ r) =
      Some (int (16 * (16 * (16 * a + b) + c) + d), r)"
    using p abcd(1-4) by (simp add: scan_hex_def Let_def del: of_nat_add of_nat_mult)
  then show ?thesis
    unfolding abcd(5) print_hex_4_digits [OF abcd(1-4)] .
qed

lemma digit_byte:
  assumes "d < 10"
  shows "ucast (of_nat (48 + d) - 48 :: byte) = (of_nat d :: u32)"
    and "c_isdigit (of_nat (48 + d))" "\<not> c_isspace (of_nat (48 + d))"
proof -
  have "list_all (\<lambda>d. ucast (of_nat (48 + d) - 48 :: byte) = (of_nat d :: u32) \<and> c_isdigit (of_nat (48 + d)) \<and>
      \<not> c_isspace (of_nat (48 + d))) [0..<10]"
    by code_simp
  then show "ucast (of_nat (48 + d) - 48 :: byte) = (of_nat d :: u32)"
    "c_isdigit (of_nat (48 + d))" "\<not> c_isspace (of_nat (48 + d))"
    using assms by (simp_all add: list_all_iff)
qed

lemma dec_string_digits: "list_all (\<lambda>b. c_isdigit b \<and> \<not> c_isspace b) (dec_string n)"
proof (induction n rule: dec_string.induct)
  case (1 n)
  then show ?case
    using digit_byte [of n] digit_byte [of "n mod 10"] by (subst dec_string.simps) simp
qed

end
