(* ===== verification/BitFile.thy ===== *)
theory BitFile
  imports BitRev CStdio
begin

text \<open>
  \<^verbatim>\<open>bitfile.cpp\<close>: readers for Xilinx bit files, raw binary, raw hexadecimal and Intel
  hex/MCS files, and the writer \<^verbatim>\<open>saveAs\<close>. The buffer is the allocated array, \<open>blength\<close>
  the member \<^verbatim>\<open>length\<close>, which need not be the size of the array. What \<^verbatim>\<open>new byte[n]\<close> and
  uninitialised locals hold is the argument \<open>junk\<close>.
\<close>

datatype FILE_STYLE = STYLE_BIT | STYLE_BIN | STYLE_BPI | STYLE_HEX | STYLE_HEX_RAW
  | STYLE_MCS | STYLE_IHEX | STYLE_JEDEC | STYLE_AUTO

record bitfile =
  ncdFilename :: "byte list"
  partName :: "byte list"
  date :: "byte list"
  dtime :: "byte list"
  blength :: nat
  buffer :: "byte list"
  boffset :: nat
  rlength :: nat
  bError :: bool

definition bitfile_init :: bitfile where
  "bitfile_init = \<lparr>ncdFilename = [], partName = [], date = [], dtime = [], blength = 0,
     buffer = [], boffset = 0, rlength = 0, bError = False\<rparr>"

definition alloc :: "(nat \<Rightarrow> byte) \<Rightarrow> nat \<Rightarrow> byte list" where
  "alloc junk n = map junk [0..<n]"

lemma length_alloc [simp]: "length (alloc junk n) = n"
  by (simp add: alloc_def)

section \<open>Xilinx bit files\<close>

text \<open>\<^verbatim>\<open>for(i=0; i<length&&!feof(fp); i++)\<close> of \<^verbatim>\<open>processData\<close>, with \<open>k\<close> passes left.\<close>

fun process_loop :: "byte \<Rightarrow> nat \<Rightarrow> nat \<Rightarrow> byte list \<Rightarrow> cfile \<Rightarrow> byte list \<times> cfile" where
  "process_loop junk i 0 buf f = (buf, f)"
| "process_loop junk i (Suc k) buf f =
     (if feof f then (buf, f)
      else let (got, f) = fread1 f;
               b = (case got of None \<Rightarrow> junk | Some b \<Rightarrow> b)
           in process_loop junk (i + 1) k (buf[i := bitRev b]) f)"

definition be32 :: "byte list \<Rightarrow> u32" where
  "be32 t = push_bit 24 (ucast (t ! 0)) + push_bit 16 (ucast (t ! 1)) + push_bit 8 (ucast (t ! 2)) + ucast (t ! 3)"

definition processData :: "(nat \<Rightarrow> byte) \<Rightarrow> bitfile \<Rightarrow> cfile \<Rightarrow> unit res \<times> bitfile \<times> cfile" where
  "processData junk bf f =
     (let (got, f) = fread 4 f;
          t = overwrite (alloc junk 4) got;
          n = unat (be32 t);
          (buf, f) = process_loop (junk 0) 0 n (alloc junk n) f;
          bf = bf\<lparr>blength := n, buffer := buf\<rparr>
      in if feof f then (Inl (IOException ''Unexpected end of file''), bf, f)
         else let (got, f) = fread 1 f
              in (Inr (), bf\<lparr>bError := (if feof f then bError bf else True)\<rparr>, f))"

fun field_loop :: "byte \<Rightarrow> nat \<Rightarrow> byte list \<Rightarrow> cfile \<Rightarrow> byte list \<times> cfile" where
  "field_loop junk 0 field f = (field, f)"
| "field_loop junk (Suc k) field f =
     (let (got, f) = fread1 f
      in field_loop junk k (field @ [case got of None \<Rightarrow> junk | Some b \<Rightarrow> b]) f)"

definition readField :: "(nat \<Rightarrow> byte) \<Rightarrow> byte list \<Rightarrow> cfile \<Rightarrow> byte list \<times> cfile" where
  "readField junk field f =
     (let (got, f) = fread 2 f;
          t = overwrite (alloc junk 2) got;
          n = unat (push_bit 8 (ucast (t ! 0)) + ucast (t ! 1) :: u16)
      in field_loop (junk 0) n field f)"

lemma fleft_field_loop: "fleft (snd (field_loop junk k field f)) \<le> fleft f"
proof (induction k arbitrary: field f)
  case (Suc k)
  obtain got f' where r: "fread1 f = (got, f')" by (cases "fread1 f")
  then have "fleft f' \<le> fleft f" using fleft_fread1_le [of f] by simp
  with Suc [of "field @ [case got of None \<Rightarrow> junk | Some b \<Rightarrow> b]" f'] r show ?case by simp
qed simp

lemma fleft_readField: "fleft (snd (readField junk field f)) \<le> fleft f"
proof -
  obtain got f' where r: "fread 2 f = (got, f')" by (cases "fread 2 f")
  then have "fleft f' \<le> fleft f" using fleft_fread [of 2 f] by simp
  with r show ?thesis
    using order_trans [OF fleft_field_loop \<open>fleft f' \<le> fleft f\<close>] by (simp add: readField_def Let_def)
qed

text \<open>
  The loop over the fields: \<open>key\<close> is the variable of that name, which keeps its value when
  \<^verbatim>\<open>fread\<close> finds no byte. The result is the return code.
\<close>

function bitfile_loop :: "(nat \<Rightarrow> byte) \<Rightarrow> byte \<Rightarrow> bitfile \<Rightarrow> cfile \<Rightarrow> nat \<times> bitfile" where
  "bitfile_loop junk key bf f =
     (if feof f then (2, bf)
      else let (got, f1) = fread1 f;
               key = (case got of None \<Rightarrow> key | Some b \<Rightarrow> b)
           in if key = 101
              then case processData junk bf f1 of
                     (Inl e, bf, _) \<Rightarrow> (2, bf)
                   | (Inr _, bf, _) \<Rightarrow> (0, bf)
              else let field = (if key = 97 then ncdFilename bf else if key = 98 then partName bf
                                else if key = 99 then date bf else if key = 100 then dtime bf else []);
                       (s, f2) = readField junk field f1;
                       bf = (if key = 97 then bf\<lparr>ncdFilename := s\<rparr>
                             else if key = 98 then bf\<lparr>partName := s\<rparr>
                             else if key = 99 then bf\<lparr>date := s\<rparr>
                             else if key = 100 then bf\<lparr>dtime := s\<rparr> else bf)
                   in bitfile_loop junk key bf f2)"
  by pat_completeness auto
termination
proof (relation "measure (\<lambda>(junk, key, bf, f). fleft f)", goal_cases)
  case (2 junk key bf f p got f1 k field q s f2 bf')
  have "fleft f1 < fleft f"
    using fleft_fread1 [OF 2(1)] 2(2,3) by (metis snd_conv)
  moreover have "fleft f2 \<le> fleft f1"
    using fleft_readField [of junk field f1] 2(7,8) by (metis snd_conv)
  ultimately show ?case by simp
qed simp

declare bitfile_loop.simps [simp del]

definition readBitfile :: "(nat \<Rightarrow> byte) \<Rightarrow> bitfile \<Rightarrow> cfile \<Rightarrow> nat \<times> bitfile" where
  "readBitfile junk bf f = (let (_, f) = fread 13 f in bitfile_loop junk (junk 0) bf f)"

section \<open>Raw binary and raw hexadecimal files\<close>

definition readBIN :: "bool \<Rightarrow> bitfile \<Rightarrow> byte list \<Rightarrow> nat \<times> bitfile" where
  "readBIN do_bitrev bf file =
     (0, bf\<lparr>blength := length file,
            buffer := (if do_bitrev then map bitRev file else file)\<rparr>)"

text \<open>
  One line of \<^verbatim>\<open>readHEXRAW\<close> from index \<open>pos\<close> of the line buffer: the loop has no other exit
  than a terminator character at a position it looks at.
\<close>

function hexraw_line ::
  "byte list \<Rightarrow> nat \<Rightarrow> byte \<Rightarrow> nat \<Rightarrow> byte list \<Rightarrow> (nat \<times> byte list) res" where
  "hexraw_line buf pos v cnt out =
     (if \<not> pos < length buf then Inl (OutOfBounds pos)
      else if buf ! pos = 10 \<or> buf ! pos = 13 \<or> buf ! pos = 32 \<or> buf ! pos = 47 then Inr (cnt, out)
      else let v = (case scan_hex 2 (c_string buf pos) of None \<Rightarrow> v | Some (x, _) \<Rightarrow> word_of_int x)
           in rbind (buf_set out cnt (bitRev v)) (\<lambda>out. hexraw_line buf (pos + 2) v (cnt + 1) out))"
  by pat_completeness auto
termination
  by (relation "measure (\<lambda>(buf, pos, v, cnt, out). length buf - pos)") auto

declare hexraw_line.simps [simp del]

function hexraw_lines :: "byte \<Rightarrow> byte list \<Rightarrow> nat \<Rightarrow> byte list \<Rightarrow> byte list \<Rightarrow> (nat \<times> byte list) res" where
  "hexraw_lines junk buf cnt out rest =
     (case fgets 1024 rest of
        None \<Rightarrow> Inr (cnt, out)
      | Some (line, rest') \<Rightarrow>
          let buf = overwrite buf (line @ [0])
          in case hexraw_line buf 0 junk cnt out of
               Inl e \<Rightarrow> Inl e
             | Inr (cnt, out) \<Rightarrow> hexraw_lines junk buf cnt out rest')"
  by pat_completeness auto
termination
proof (relation "measure (\<lambda>(junk, buf, cnt, out, rest). length rest)", goal_cases)
  case (2 junk buf cnt out rest p line rest')
  then have "rest \<noteq> []" "fgets_take 1023 rest = (line, rest')"
    by (auto simp: fgets_def split: if_splits)
  then show ?case using fgets_take_progress [of 1023 rest] by simp
qed simp

declare hexraw_lines.simps [simp del]

definition readHEXRAW :: "(nat \<Rightarrow> byte) \<Rightarrow> bitfile \<Rightarrow> byte list \<Rightarrow> (nat \<times> bitfile) res" where
  "readHEXRAW junk bf file =
     rbind (hexraw_lines (junk 0) (alloc junk 1024) 0 (alloc junk (length file div 2)) file)
       (\<lambda>(cnt, out). Inr (0, bf\<lparr>blength := cnt, buffer := out\<rparr>))"

section \<open>Intel hex and MCS files\<close>

text \<open>\<^verbatim>\<open>sscanf(&buf[pos], "%wx", &v)\<close>; an unmatched conversion leaves \<open>old\<close> in the variable.\<close>

definition mcs_scan :: "byte list \<Rightarrow> nat \<Rightarrow> nat \<Rightarrow> u32 \<Rightarrow> u32 res" where
  "mcs_scan buf pos w old =
     (if \<not> pos < length buf then Inl (OutOfBounds pos)
      else Inr (case scan_hex w (c_string buf pos) of None \<Rightarrow> old | Some (x, _) \<Rightarrow> word_of_int x))"

fun mcs_data :: "u32 \<Rightarrow> byte list \<Rightarrow> nat \<Rightarrow> nat \<Rightarrow> u32 \<Rightarrow> byte \<Rightarrow> byte list \<Rightarrow> (nat \<times> u32 \<times> byte \<times> byte list) res" where
  "mcs_data junk buf 0 pos fa cal out = Inr (pos, fa, cal, out)"
| "mcs_data junk buf (Suc k) pos fa cal out =
     rbind (mcs_scan buf pos 2 junk) (\<lambda>v.
     rbind (buf_set out (unat fa) (ucast v)) (\<lambda>out.
       mcs_data junk buf k (pos + 2) (fa + 1) (cal + ucast v) out))"

fun mcs_skip :: "u32 \<Rightarrow> byte list \<Rightarrow> nat \<Rightarrow> nat \<Rightarrow> byte \<Rightarrow> (nat \<times> byte) res" where
  "mcs_skip dummy buf 0 pos cal = Inr (pos, cal)"
| "mcs_skip dummy buf (Suc k) pos cal =
     rbind (mcs_scan buf pos 2 dummy) (\<lambda>v. mcs_skip v buf k (pos + 2) (cal + ucast v))"

text \<open>The record header \<^verbatim>\<open>":%2x%4x%2x"\<close>: count, address and type, if all three match.\<close>

definition mcs_header :: "byte list \<Rightarrow> (u32 \<times> u32 \<times> u32) option" where
  "mcs_header s =
     (if s = [] \<or> hd s \<noteq> 58 then None
      else do {
        (c, s) \<leftarrow> scan_hex 2 (tl s);
        (a, s) \<leftarrow> scan_hex 4 s;
        (t, s) \<leftarrow> scan_hex 2 s;
        Some (word_of_int c, word_of_int a, word_of_int t)
      })"

text \<open>
  One record. \<open>Inl code\<close> in the result is a return of the function with that code (0 at the
  end-of-file record), \<open>Inr\<close> continues with the next line.
\<close>

definition mcs_check :: "u32 \<Rightarrow> byte list \<Rightarrow> nat \<Rightarrow> byte \<Rightarrow> u32 \<Rightarrow> byte list \<Rightarrow> ((nat + unit) \<times> u32 \<times> byte list) res" where
  "mcs_check junk buf pos cal fa out =
     rbind (mcs_scan buf pos 2 junk) (\<lambda>c.
       Inr (if (ucast c :: byte) \<noteq> NOT cal + 1 then Inl 3 else Inr (), fa, out))"

definition mcs_record :: "u32 \<Rightarrow> byte list \<Rightarrow> u32 \<Rightarrow> byte list \<Rightarrow> ((nat + unit) \<times> u32 \<times> byte list) res" where
  "mcs_record junk buf fa out =
     (case mcs_header (c_string buf 0) of
        None \<Rightarrow> Inr (Inl 1, fa, out)
      | Some (count, address, record_type) \<Rightarrow>
          let cal = ucast count + ucast (drop_bit 8 address) + ucast address + ucast record_type :: byte
          in if record_type = 0 then
               let fa = (if fa AND 0xffff \<noteq> address then (fa AND 0xffff0000) OR address else fa)
               in rbind (mcs_data junk buf (unat count) 9 fa cal out)
                    (\<lambda>(pos, fa, cal, out). mcs_check junk buf pos cal fa out)
             else if record_type = 1 then Inr (Inl 0, fa, out)
             else if record_type = 2 then
               rbind (mcs_scan buf 9 4 junk) (\<lambda>v.
                 let upper = ucast (ucast v :: u16) :: u32;
                     cal = cal + ucast (drop_bit 8 upper) + ucast upper;
                     fa = (if drop_bit 4 fa \<noteq> upper then (fa AND 0xffff) OR push_bit 4 upper else fa)
                 in mcs_check junk buf 13 cal fa out)
             else if record_type = 3 then
               rbind (mcs_skip junk buf (unat count) 9 cal) (\<lambda>(pos, cal). mcs_check junk buf pos cal fa out)
             else if record_type = 4 then
               rbind (mcs_scan buf 9 4 junk) (\<lambda>v.
                 let upper = ucast (ucast v :: u16) :: u32;
                     cal = cal + ucast (drop_bit 8 upper) + ucast upper;
                     fa = (if drop_bit 16 fa \<noteq> upper then (fa AND 0xffff) OR push_bit 16 upper else fa)
                 in mcs_check junk buf 13 cal fa out)
             else if record_type = 5 then
               rbind (mcs_scan buf 9 8 junk) (\<lambda>v.
                 let cal = cal + ucast (drop_bit 24 v) + ucast (drop_bit 16 v) + ucast (drop_bit 8 v) + ucast v
                 in mcs_check junk buf 17 cal fa out)
             else Inr (Inl 2, fa, out))"

text \<open>The loop over the lines: the return code, \<^verbatim>\<open>full_address\<close> and the buffer.\<close>

function mcs_lines :: "u32 \<Rightarrow> byte list \<Rightarrow> u32 \<Rightarrow> byte list \<Rightarrow> byte list \<Rightarrow> (nat \<times> u32 \<times> byte list) res" where
  "mcs_lines junk buf fa out rest =
     (case fgets 1024 rest of
        None \<Rightarrow> Inr (4, fa, out)
      | Some (line, rest') \<Rightarrow>
          let buf = overwrite buf (line @ [0])
          in case mcs_record junk buf fa out of
               Inl e \<Rightarrow> Inl e
             | Inr (Inl code, fa, out) \<Rightarrow> Inr (code, fa, out)
             | Inr (Inr _, fa, out) \<Rightarrow> mcs_lines junk buf fa out rest')"
  by pat_completeness auto
termination
proof (relation "measure (\<lambda>(junk, buf, fa, out, rest). length rest)", goal_cases)
  case (2 junk buf fa out rest p line rest')
  then have "rest \<noteq> []" "fgets_take 1023 rest = (line, rest')"
    by (auto simp: fgets_def split: if_splits)
  then show ?case using fgets_take_progress [of 1023 rest] by simp
qed simp

declare mcs_lines.simps [simp del]

definition readMCSfile :: "(nat \<Rightarrow> byte) \<Rightarrow> bitfile \<Rightarrow> byte list \<Rightarrow> (nat \<times> bitfile) res" where
  "readMCSfile junk bf file =
     rbind (mcs_lines (ucast (junk 0)) (alloc junk 1024) 0 (alloc junk (length file div 2)) file)
       (\<lambda>(code, fa, out). Inr (code,
          bf\<lparr>blength := (if code = 0 then unat fa else length file div 2), buffer := out\<rparr>))"

section \<open>Reading by style\<close>

definition styleToString :: "FILE_STYLE \<Rightarrow> string option" where
  "styleToString style = (case style of
     STYLE_BIT \<Rightarrow> Some ''BIT'' | STYLE_BIN \<Rightarrow> Some ''BIN'' | STYLE_HEX \<Rightarrow> Some ''HEX''
   | STYLE_HEX_RAW \<Rightarrow> Some ''HEXRAW'' | STYLE_MCS \<Rightarrow> Some ''MCS'' | STYLE_IHEX \<Rightarrow> Some ''IHEX''
   | STYLE_JEDEC \<Rightarrow> Some ''JEDEC'' | STYLE_AUTO \<Rightarrow> Some ''AUTO'' | _ \<Rightarrow> None)"

text \<open>The style named by the characters in front of a colon; \<open>None\<close> is the return code 1.\<close>

definition styleFromString :: "byte list \<Rightarrow> FILE_STYLE option" where
  "styleFromString s =
     (let n = length (takeWhile (\<lambda>b. b \<noteq> 58) s);
          is = (\<lambda>t. strncasecmp_eq n s (ascii t))
      in if is ''BIT'' then Some STYLE_BIT
         else if is ''BIN'' then Some STYLE_BIN
         else if is ''BPI'' then Some STYLE_BPI
         else if is ''HEX'' then Some STYLE_HEX
         else if is ''HEXRAW'' then Some STYLE_HEX_RAW
         else if is ''MCS'' then Some STYLE_MCS
         else if is ''IHEX'' then Some STYLE_IHEX
         else if is ''JEDEC'' then Some STYLE_JEDEC
         else if is ''AUTO'' then Some STYLE_AUTO
         else None)"

definition bitrev_buffer :: "bitfile \<Rightarrow> bitfile" where
  "bitrev_buffer bf =
     bf\<lparr>buffer := map bitRev (take (blength bf) (buffer bf)) @ drop (blength bf) (buffer bf)\<rparr>"

text \<open>\<^verbatim>\<open>readFile\<close>; a null stream is \<open>None\<close>.\<close>

definition readFile ::
  "(nat \<Rightarrow> byte) \<Rightarrow> bitfile \<Rightarrow> byte list option \<Rightarrow> FILE_STYLE \<Rightarrow> (nat \<times> bitfile) res" where
  "readFile junk bf fp in_style =
     (case fp of None \<Rightarrow> Inr (1, bf)
      | Some file \<Rightarrow>
         (case in_style of
            STYLE_BIT \<Rightarrow> Inr (readBitfile junk bf (fopen file))
          | STYLE_MCS \<Rightarrow> rbind (readMCSfile junk bf file)
              (\<lambda>(res, bf). if res \<noteq> 0 then Inr (res, bf)
                 else if blength bf \<le> length (buffer bf) then Inr (res, bitrev_buffer bf)
                 else Inl (OutOfBounds (length (buffer bf))))
          | STYLE_IHEX \<Rightarrow> readMCSfile junk bf file
          | STYLE_HEX_RAW \<Rightarrow> readHEXRAW junk bf file
          | STYLE_BIN \<Rightarrow> Inr (readBIN True bf file)
          | STYLE_BPI \<Rightarrow> Inr (readBIN False bf file)
          | _ \<Rightarrow> Inr (1, bf)))"

section \<open>Changing the contents\<close>

text \<open>
  \<^verbatim>\<open>append(val, cnt)\<close>: \<open>cnt\<close> copies of a 32-bit word, most significant byte first, each byte
  bit-reversed. The old part is copied from the buffer, which must hold it.
\<close>

definition append_val :: "u32 \<Rightarrow> nat \<Rightarrow> bitfile \<Rightarrow> bitfile res" where
  "append_val v cnt bf =
     (if blength bf \<le> length (buffer bf)
      then let word = [bitRev (ucast (drop_bit 24 v AND 255)), bitRev (ucast (drop_bit 16 v AND 255)),
                       bitRev (ucast (drop_bit 8 v AND 255)), bitRev (ucast (v AND 255))]
           in Inr (bf\<lparr>buffer := take (blength bf) (buffer bf) @ concat (replicate cnt word),
                      blength := blength bf + 4 * cnt\<rparr>)
      else Inl (OutOfBounds (length (buffer bf))))"

text \<open>The copying loop of \<^verbatim>\<open>append(fname)\<close>, \<open>k\<close> bytes to go.\<close>

fun append_loop :: "byte \<Rightarrow> nat \<Rightarrow> byte list \<Rightarrow> cfile \<Rightarrow> byte list res" where
  "append_loop junk 0 buf f = Inr buf"
| "append_loop junk (Suc k) buf f =
     (if feof f then Inl (IOException ''Unexpected end of file'')
      else let (got, f) = fread1 f
           in append_loop junk k (buf @ [bitRev (case got of None \<Rightarrow> junk | Some b \<Rightarrow> b)]) f)"

text \<open>\<open>st_size\<close> is what \<^verbatim>\<open>stat\<close> reports for the file, \<open>None\<close> a file that cannot be opened.\<close>

definition append_file :: "(nat \<Rightarrow> byte) \<Rightarrow> nat \<Rightarrow> byte list option \<Rightarrow> bitfile \<Rightarrow> bitfile res" where
  "append_file junk st_size file bf =
     (case file of None \<Rightarrow> Inl (IOException ''Cannot open file'')
      | Some bs \<Rightarrow>
          if blength bf \<le> length (buffer bf)
          then rbind (append_loop (junk 0) st_size (take (blength bf) (buffer bf)) (fopen bs))
                 (\<lambda>buf. Inr (bf\<lparr>buffer := buf, blength := blength bf + st_size\<rparr>))
          else Inl (OutOfBounds (length (buffer bf))))"

definition setLength :: "nat \<Rightarrow> bitfile \<Rightarrow> bitfile" where
  "setLength sz bf = bf\<lparr>blength := nbytes sz, buffer := replicate (nbytes sz) 0xff\<rparr>"

definition set_bit_bf :: "nat \<Rightarrow> bool \<Rightarrow> bitfile \<Rightarrow> bitfile res" where
  "set_bit_bf idx blow bf =
     (let bval = idx div 8
      in if bval \<ge> blength bf then Inl (IOException ''bit_set_fuse'')
         else rbind (buf_get (buffer bf) bval) (\<lambda>b.
              rbind (buf_set (buffer bf) bval (put_bit b (idx mod 8) blow)) (\<lambda>buf.
                Inr (bf\<lparr>buffer := buf\<rparr>))))"

definition get_bit_bf :: "nat \<Rightarrow> bitfile \<Rightarrow> bool res" where
  "get_bit_bf idx bf =
     (let bval = idx div 8
      in if bval \<ge> blength bf then Inl (IOException ''bit_get_fuse'')
         else rbind (buf_get (buffer bf) bval) (\<lambda>b. Inr (bit b (idx mod 8))))"

section \<open>Writing\<close>

text \<open>
  \<open>now\<close> holds the texts \<^verbatim>\<open>strftime\<close> makes of the local time, \<open>None\<close> if there is none. The date
  is guarded by the size of \<^verbatim>\<open>dtime\<close>, as in the code.
\<close>

definition setNCDFields :: "(byte list \<times> byte list) option \<Rightarrow> byte list \<Rightarrow> bitfile \<Rightarrow> bitfile" where
  "setNCDFields now partname bf =
     (let bf = (if ncdFilename bf = [] then bf\<lparr>ncdFilename := ascii ''XC3SPROG'' @ [0]\<rparr> else bf);
          bf = (if partName bf = [] then bf\<lparr>partName := partname @ [0]\<rparr> else bf)
      in case now of None \<Rightarrow> bf
         | Some (d, t) \<Rightarrow>
             let bf = (if dtime bf = [] \<and> d \<noteq> [] then bf\<lparr>date := d @ [0]\<rparr> else bf)
             in if dtime bf = [] \<and> t \<noteq> [] then bf\<lparr>dtime := t @ [0]\<rparr> else bf)"

function mcs_checksum :: "byte \<Rightarrow> byte list \<Rightarrow> byte" where
  "mcs_checksum acc s =
     (if s = [] then (acc XOR 0xff) + 1
      else case scan_hex 2 s of None \<Rightarrow> (acc XOR 0xff) + 1
           | Some (v, _) \<Rightarrow> mcs_checksum (acc + word_of_int v) (drop 2 s))"
  by pat_completeness auto
termination
  by (relation "measure (\<lambda>(acc, s). length s)") auto

declare mcs_checksum.simps [simp del]

text \<open>\<^verbatim>\<open>for(clip=length-1; (buffer[clip] == 0xff) && clip>0; clip--)\<close>.\<close>

fun clip_loop :: "byte list \<Rightarrow> nat \<Rightarrow> nat res" where
  "clip_loop buf 0 = rbind (buf_get buf 0) (\<lambda>b. Inr 0)"
| "clip_loop buf (Suc c) =
     rbind (buf_get buf (Suc c)) (\<lambda>b. if b = 0xff then clip_loop buf c else Inr (Suc c))"

text \<open>A loop \<^verbatim>\<open>for(i=0; i<clip; i++)\<close> that prints something for every byte.\<close>

fun for_bytes :: "(nat \<Rightarrow> byte \<Rightarrow> byte list) \<Rightarrow> byte list \<Rightarrow> nat \<Rightarrow> nat \<Rightarrow> byte list res" where
  "for_bytes g buf i 0 = Inr []"
| "for_bytes g buf i (Suc k) =
     rbind (buf_get buf i) (\<lambda>b. rbind (for_bytes g buf (i + 1) k) (\<lambda>out. Inr (g i b @ out)))"

definition bit_field :: "byte \<Rightarrow> byte list \<Rightarrow> byte list" where
  "bit_field key s = [key, of_nat (length s div 256), of_nat (length s mod 256)] @ s"

definition bit_header :: "bitfile \<Rightarrow> nat \<Rightarrow> byte list" where
  "bit_header bf clip =
     [0x00, 0x09, 0x0f, 0xf0, 0x0f, 0xf0, 0x0f, 0xf0, 0x0f, 0xf0, 0x00, 0x00, 0x01] @
     bit_field 97 (ncdFilename bf) @ bit_field 98 (partName bf) @
     bit_field 99 (date bf) @ bit_field 100 (dtime bf) @
     [101, of_nat (clip div 2 ^ 24), of_nat (clip div 2 ^ 16), of_nat (clip div 2 ^ 8), of_nat clip]"

definition hex_byte_out :: "nat \<Rightarrow> byte \<Rightarrow> byte list" where
  "hex_byte_out i b =
     (if i mod 16 = 0 then pad 32 7 (dec_string i) @ [58, 32, 32] else []) @
     print_hex False 2 (unat (bitRev b)) @ [32] @
     (if i mod 16 = 7 then [32] else []) @ (if i mod 16 = 15 then [10] else [])"

definition hexraw_byte_out :: "nat \<Rightarrow> byte \<Rightarrow> byte list" where
  "hexraw_byte_out i b = print_hex False 2 (unat (bitRev b)) @ (if i mod 4 = 3 then [10] else [])"

text \<open>
  The record loop of the Intel hex styles: \<open>base\<close> is the upper address last announced and
  \<open>line\<close> the text of \<^verbatim>\<open>buf\<close> up to \<^verbatim>\<open>len\<close>.
\<close>

definition mcs_end :: "byte list \<Rightarrow> byte list" where
  "mcs_end line = line @ print_hex True 2 (unat (mcs_checksum 0 line)) @ [13, 10]"

definition mcs_line_start :: "nat \<Rightarrow> nat \<Rightarrow> byte list" where
  "mcs_line_start clip i =
     (if clip - i < 0xf then print_hex True 2 (clip - i) else ascii ''10'') @
     print_hex True 4 (i mod 0x10000) @ ascii ''00''"

fun mcs_out :: "bool \<Rightarrow> byte list \<Rightarrow> nat \<Rightarrow> nat \<Rightarrow> nat \<Rightarrow> nat \<Rightarrow> byte list \<Rightarrow> byte list res" where
  "mcs_out rv buf clip i 0 base line = Inr []"
| "mcs_out rv buf clip i (Suc k) base line =
     rbind (buf_get buf i) (\<lambda>b0.
       let b = (if rv then bitRev b0 else b0);
           ext = (if base \<noteq> i div 0x10000
                  then [58] @ mcs_end (ascii ''02000004'' @ print_hex True 4 (i div 0x10000)) else []);
           start = (if i mod 16 = 0 then [58] else []);
           line = (if i mod 16 = 0 then mcs_line_start clip i else line) @ print_hex True 2 (unat b);
           rec = (if i mod 16 = 15 \<or> i = clip - 1 then mcs_end line else [])
       in rbind (mcs_out rv buf clip (i + 1) k (i div 0x10000) line)
            (\<lambda>out. Inr (ext @ start @ rec @ out)))"

text \<open>\<^verbatim>\<open>saveAs\<close>: the value returned, the bytes written, and the object after it.\<close>

definition saveAs ::
  "(byte list \<times> byte list) option \<Rightarrow> FILE_STYLE \<Rightarrow> byte list \<Rightarrow> bitfile \<Rightarrow> (nat \<times> byte list \<times> bitfile) res" where
  "saveAs now style device bf =
     (if blength bf = 0 then Inr (0, [], bf)
      else let bf = setNCDFields now device bf
           in rbind (clip_loop (buffer bf) (blength bf - 1)) (\<lambda>c.
              let clip = (if rlength bf \<noteq> 0 then rlength bf else c + 1)
              in rbind (case style of
                   STYLE_BIT \<Rightarrow> rbind (for_bytes (\<lambda>i b. [bitRev b]) (buffer bf) 0 clip)
                                  (\<lambda>out. Inr (bit_header bf clip @ out))
                 | STYLE_BIN \<Rightarrow> for_bytes (\<lambda>i b. [bitRev b]) (buffer bf) 0 clip
                 | STYLE_BPI \<Rightarrow> for_bytes (\<lambda>i b. [b]) (buffer bf) 0 clip
                 | STYLE_HEX \<Rightarrow> for_bytes hex_byte_out (buffer bf) 0 clip
                 | STYLE_HEX_RAW \<Rightarrow> rbind (for_bytes hexraw_byte_out (buffer bf) 0 clip)
                                  (\<lambda>out. Inr (out @ (if clip mod 4 \<noteq> 3 then [10] else [])))
                 | STYLE_MCS \<Rightarrow> rbind (mcs_out True (buffer bf) clip 0 clip 0xffffffff [])
                                  (\<lambda>out. Inr (out @ [58] @ mcs_end (ascii ''00000001'')))
                 | STYLE_IHEX \<Rightarrow> rbind (mcs_out False (buffer bf) clip 0 clip 0xffffffff [])
                                  (\<lambda>out. Inr (out @ [58] @ mcs_end (ascii ''00000001'')))
                 | _ \<Rightarrow> Inr [])
                 (\<lambda>out. Inr (clip, out, bf))))"

section \<open>Sizes in bits\<close>

text \<open>Bytes to bits in \<^verbatim>\<open>uint32_t\<close> arithmetic, as in \<^verbatim>\<open>getLength\<close> and the callers of \<^verbatim>\<open>getOffset\<close>.\<close>

definition bits_of :: "nat \<Rightarrow> nat" where
  "bits_of n = n * 8 mod 2 ^ 32"

definition getLength :: "bitfile \<Rightarrow> nat" where
  "getLength bf = bits_of (blength bf)"

lemma bits_of_dvd [simp]: "8 dvd bits_of n"
  by (simp add: bits_of_def dvd_mod)

lemma bits_of_small: "n < 2 ^ 29 \<Longrightarrow> bits_of n = 8 * n"
  by (simp add: bits_of_def)

end
