(* ===== verification/BitFileProps.thy ===== *)
theory BitFileProps
  imports BitFile
begin

text \<open>
  Round trips and error paths of \<^verbatim>\<open>bitfile.cpp\<close>.
\<close>

section \<open>Reading from a stream whose contents are known\<close>

definition unread :: "cfile \<Rightarrow> byte list" where
  "unread f = drop (fpos f) (fdata f)"

lemma unread_fopen [simp]: "unread (fopen bs) = bs" "feof (fopen bs) = False"
  by (simp_all add: unread_def fopen_def)

definition fskip :: "nat \<Rightarrow> cfile \<Rightarrow> cfile" where
  "fskip n f = f\<lparr>fpos := fpos f + n\<rparr>"

lemma fskip_simps [simp]:
  "unread (fskip n f) = drop n (unread f)" "feof (fskip n f) = feof f"
  "fskip m (fskip n f) = fskip (n + m) f" "fskip 0 f = f"
  by (simp_all add: unread_def fskip_def add.commute)

lemma fread1_unread:
  "unread f = b # r \<Longrightarrow> fread1 f = (Some b, fskip 1 f)"
  by (auto simp: fread1_def unread_def fskip_def) (metis nth_via_drop, metis drop_all linorder_not_le list.distinct(1))

lemma fread1_end: "unread f = [] \<Longrightarrow> fread1 f = (None, f\<lparr>feof := True\<rparr>)"
  by (simp add: fread1_def unread_def)

lemma fread_unread:
  "n \<le> length (unread f) \<Longrightarrow> \<not> feof f \<Longrightarrow> fread n f = (take n (unread f), fskip n f)"
  by (cases f) (simp add: fread_def Let_def unread_def fskip_def)

lemma fread_end: "unread f = [] \<Longrightarrow> 0 < n \<Longrightarrow> fread n f = ([], f\<lparr>feof := True\<rparr>)"
  by (cases f) (simp add: fread_def Let_def unread_def)

lemma field_loop_unread:
  assumes "unread f = xs @ r"
  shows "field_loop junk (length xs) field f = (field @ xs, fskip (length xs) f)"
  using assms
proof (induction xs arbitrary: field f)
  case (Cons x xs)
  then show ?case
    using Cons.IH [of "fskip 1 f" "field @ [x]"]
    by (simp add: fread1_unread add.assoc)
qed simp

lemma readField_unread:
  assumes "unread f = of_nat (length xs div 256) # of_nat (length xs mod 256) # xs @ r"
    and "length xs < 65536" and "\<not> feof f"
  shows "readField junk field f = (field @ xs, fskip (2 + length xs) f)"
proof -
  let ?f = "fskip 2 f"
  have t: "fread 2 f = ([of_nat (length xs div 256), of_nat (length xs mod 256)], ?f)"
    using assms(1,3) by (subst fread_unread) simp_all
  have "unat (push_bit 8 (ucast (of_nat (length xs div 256) :: byte)) + ucast (of_nat (length xs mod 256) :: byte) :: u16)
      = length xs"
  proof -
    have "(push_bit 8 (ucast (of_nat (length xs div 256) :: byte)) + ucast (of_nat (length xs mod 256) :: byte) :: u16)
       = of_nat (256 * (length xs div 256) + length xs mod 256)"
      using assms(2) unfolding of_nat_add of_nat_mult
      by (simp add: push_bit_eq_mult unsigned_of_nat take_bit_eq_mod)
    then show ?thesis
      using assms(2) by (simp add: unsigned_of_nat take_bit_eq_mod)
  qed
  moreover have "unread ?f = xs @ r" using assms(1) by simp
  ultimately show ?thesis
    using t field_loop_unread [of ?f xs r "junk 0" field]
    by (simp add: readField_def overwrite_def Let_def add.assoc)
qed

lemma process_loop_unread:
  assumes "unread f = xs @ r" and "\<not> feof f" and "i + length xs \<le> length buf"
  shows "process_loop junk i (length xs) buf f =
    (take i buf @ map bitRev xs @ drop (i + length xs) buf, fskip (length xs) f)"
  using assms
proof (induction xs arbitrary: i buf f)
  case (Cons x xs)
  let ?f = "fskip 1 f" and ?buf = "buf[i := bitRev x]"
  have "process_loop junk (i + 1) (length xs) ?buf ?f =
      (take (i + 1) ?buf @ map bitRev xs @ drop (i + 1 + length xs) ?buf, fskip (length xs) ?f)"
    using Cons.prems by (intro Cons.IH) (simp_all add: add.commute)
  moreover have "take (i + 1) ?buf = take i buf @ [bitRev x]"
    using Cons.prems(3) by (simp add: take_Suc_conv_app_nth)
  moreover have "drop (i + 1 + length xs) ?buf = drop (i + length (x # xs)) buf"
    by simp
  ultimately show ?case
    using Cons.prems by (simp add: fread1_unread add.assoc)
qed simp

lemma radix256:
  fixes n :: nat
  assumes "x = a" "y = 256 * x + b" "z = 256 * y + c" "n = 256 * z + d"
  shows "n = 2 ^ 24 * a + 2 ^ 16 * b + 2 ^ 8 * c + d"
  using assms by simp

lemma be32_of_nat:
  "be32 [of_nat a, of_nat b, of_nat c, of_nat d]
    = of_nat (2 ^ 24 * (a mod 256) + 2 ^ 16 * (b mod 256) + 2 ^ 8 * (c mod 256) + d mod 256)"
proof -
  have b: "ucast (of_nat m :: byte) = (of_nat (m mod 256) :: u32)" for m
    by (simp add: unsigned_of_nat take_bit_eq_mod)
  show ?thesis unfolding be32_def nth_Cons_0 nth_Cons_numeral
    by (simp add: b push_bit_eq_mult mult.commute)
qed

lemma be32_bytes:
  assumes "n < 2 ^ 32"
  shows "unat (be32 [of_nat (n div 2 ^ 24), of_nat (n div 2 ^ 16), of_nat (n div 2 ^ 8), of_nat n]) = n"
proof -
  let ?d = "\<lambda>k. n div 2 ^ k mod 256"
  have m: "256 * (m div 256) + m mod 256 = m" for m :: nat by simp
  have e: "n div 2 ^ 16 = n div 2 ^ 8 div 256" "n div 2 ^ 24 = n div 2 ^ 16 div 256"
    by (simp_all flip: div_mult2_eq)
  have "n div 2 ^ 24 < 256" using assms by simp
  then have "n div 2 ^ 24 = ?d 24" by simp
  moreover have "n div 2 ^ 16 = 256 * (n div 2 ^ 24) + ?d 16" unfolding e(2) by (rule m [symmetric])
  moreover have "n div 2 ^ 8 = 256 * (n div 2 ^ 16) + ?d 8" unfolding e(1) by (rule m [symmetric])
  moreover have "n = 256 * (n div 2 ^ 8) + n mod 256" by simp
  ultimately have n: "n = 2 ^ 24 * ?d 24 + 2 ^ 16 * ?d 16 + 2 ^ 8 * ?d 8 + n mod 256"
    by (rule radix256)
  have "be32 [of_nat (n div 2 ^ 24), of_nat (n div 2 ^ 16), of_nat (n div 2 ^ 8), of_nat n] = of_nat n"
    unfolding be32_of_nat n [symmetric] ..
  then show ?thesis using assms by (simp add: unsigned_of_nat take_bit_eq_mod)
qed

lemma processData_unread:
  assumes "unread f = [of_nat (length xs div 2 ^ 24), of_nat (length xs div 2 ^ 16), of_nat (length xs div 2 ^ 8),
      of_nat (length xs)] @ xs" and "\<not> feof f" and "length xs < 2 ^ 32"
  obtains f' where "processData junk bf f = (Inr (), bf\<lparr>blength := length xs, buffer := map bitRev xs\<rparr>, f')"
proof -
  let ?t = "[of_nat (length xs div 2 ^ 24), of_nat (length xs div 2 ^ 16), of_nat (length xs div 2 ^ 8), of_nat (length xs)] :: byte list"
  let ?f = "fskip 4 f"
  let ?g = "fskip (length xs) ?f"
  have t: "fread 4 f = (?t, ?f)"
    using assms(1,2) by (subst fread_unread) simp_all
  have n: "unat (be32 (overwrite (alloc junk 4) ?t)) = length xs"
    using be32_bytes [OF assms(3)] by (simp add: overwrite_def)
  have p: "process_loop (junk 0) 0 (length xs) (alloc junk (length xs)) ?f = (map bitRev xs, ?g)"
    using assms(1,2) process_loop_unread [of ?f xs "[]" 0 "alloc junk (length xs)" "junk 0"] by simp
  have "unread ?g = drop (length xs) (drop 4 (unread f))"
    by (simp add: add.commute)
  then have "unread ?g = []" using assms(1) by simp
  then have e: "fread 1 ?g = ([], ?g\<lparr>feof := True\<rparr>)" by (rule fread_end) simp
  have "processData junk bf f = (Inr (), bf\<lparr>blength := length xs, buffer := map bitRev xs\<rparr>, ?g\<lparr>feof := True\<rparr>)"
    using assms(2) unfolding processData_def t Let_def prod.case n p e by simp
  then show ?thesis by (rule that)
qed

section \<open>The loops of the writer\<close>

lemma for_bytes_concat:
  "i + k \<le> length buf \<Longrightarrow> for_bytes g buf i k = Inr (concat (map (\<lambda>j. g j (buf ! j)) [i..<i + k]))"
  by (induction k arbitrary: i) (simp_all add: buf_get_in upt_rec)

lemma for_bytes_map:
  "n \<le> length buf \<Longrightarrow> for_bytes (\<lambda>i b. [h b]) buf 0 n = Inr (map h (take n buf))"
  by (simp add: for_bytes_concat map_concat comp_def) (auto intro!: nth_equalityI simp: concat_map_singleton)

lemma clip_loop_result:
  assumes "c < length buf"
  obtains d where "clip_loop buf c = Inr d" "d \<le> c" "\<And>j. d < j \<Longrightarrow> j \<le> c \<Longrightarrow> buf ! j = 0xff"
    "buf ! d \<noteq> 0xff \<or> d = 0"
  using assms
proof (induction c arbitrary: thesis)
  case 0
  then show ?case by (simp add: buf_get_in)
next
  case (Suc c)
  show ?case
  proof (cases "buf ! Suc c = 0xff")
    case True
    obtain d where d: "clip_loop buf c = Inr d" "d \<le> c" "\<And>j. d < j \<Longrightarrow> j \<le> c \<Longrightarrow> buf ! j = 0xff"
      "buf ! d \<noteq> 0xff \<or> d = 0"
      using Suc.IH Suc.prems(2) by (metis Suc_lessD)
    with True Suc.prems show ?thesis by (intro Suc.prems(1) [of d]) (auto simp: buf_get_in le_Suc_eq)
  next
    case False
    with Suc.prems show ?thesis by (intro Suc.prems(1) [of "Suc c"]) (auto simp: buf_get_in)
  qed
qed

section \<open>Bit files\<close>

definition put_field :: "byte \<Rightarrow> byte list \<Rightarrow> bitfile \<Rightarrow> bitfile" where
  "put_field key s bf =
     (if key = 97 then bf\<lparr>ncdFilename := s\<rparr> else if key = 98 then bf\<lparr>partName := s\<rparr>
      else if key = 99 then bf\<lparr>date := s\<rparr> else if key = 100 then bf\<lparr>dtime := s\<rparr> else bf)"

definition field_of :: "byte \<Rightarrow> bitfile \<Rightarrow> byte list" where
  "field_of key bf = (if key = 97 then ncdFilename bf else if key = 98 then partName bf
     else if key = 99 then date bf else if key = 100 then dtime bf else [])"

lemma bitfile_loop_field:
  assumes "unread f = bit_field key s @ r" and "key \<noteq> 101" and "length s < 65536" and "\<not> feof f"
  shows "bitfile_loop junk key0 bf f =
    bitfile_loop junk key (put_field key (field_of key bf @ s) bf) (fskip (length (bit_field key s)) f)"
proof -
  have 1: "fread1 f = (Some key, fskip 1 f)"
    using assms(1) by (intro fread1_unread) (simp add: bit_field_def)
  have "readField junk (field_of key bf) (fskip 1 f) = (field_of key bf @ s, fskip (2 + length s) (fskip 1 f))"
    using assms by (intro readField_unread [where r = r]) (simp_all add: bit_field_def)
  then show ?thesis
    using assms(2,4) unfolding bitfile_loop.simps [of junk key0] 1 field_of_def
    by (simp add: put_field_def bit_field_def)
qed

lemma bitfile_loop_data:
  assumes "unread f = [101, of_nat (length xs div 2 ^ 24), of_nat (length xs div 2 ^ 16), of_nat (length xs div 2 ^ 8),
      of_nat (length xs)] @ xs" and "\<not> feof f" and "length xs < 2 ^ 32"
  shows "bitfile_loop junk key0 bf f = (0, bf\<lparr>blength := length xs, buffer := map bitRev xs\<rparr>)"
proof -
  have 1: "fread1 f = (Some 101, fskip 1 f)"
    using assms(1) by (intro fread1_unread) simp
  obtain f' where "processData junk bf (fskip 1 f) =
      (Inr (), bf\<lparr>blength := length xs, buffer := map bitRev xs\<rparr>, f')"
    using assms processData_unread [of "fskip 1 f" xs] by auto
  then show ?thesis
    using assms(2) unfolding bitfile_loop.simps [of junk key0] 1 by simp
qed

definition fields_fit :: "bitfile \<Rightarrow> bool" where
  "fields_fit bf \<longleftrightarrow> length (ncdFilename bf) < 65536 \<and> length (partName bf) < 65536 \<and>
     length (date bf) < 65536 \<and> length (dtime bf) < 65536"

lemma readBitfile_header:
  assumes "fields_fit bf" and "length xs < 2 ^ 32"
  shows "readBitfile junk bitfile_init (fopen (bit_header bf (length xs) @ xs)) =
    (0, bitfile_init\<lparr>ncdFilename := ncdFilename bf, partName := partName bf, date := date bf,
        dtime := dtime bf, blength := length xs, buffer := map bitRev xs\<rparr>)"
proof -
  let ?bits = "[101, of_nat (length xs div 2 ^ 24), of_nat (length xs div 2 ^ 16), of_nat (length xs div 2 ^ 8),
      of_nat (length xs)] @ xs :: byte list"
  let ?d = "bit_field 100 (dtime bf) @ ?bits"
  let ?c = "bit_field 99 (date bf) @ ?d"
  let ?b = "bit_field 98 (partName bf) @ ?c"
  let ?a = "bit_field 97 (ncdFilename bf) @ ?b"
  let ?f = "fopen (bit_header bf (length xs) @ xs)"
  note fit = assms(1)[unfolded fields_fit_def]
  have u: "unread ?f = [0x00, 0x09, 0x0f, 0xf0, 0x0f, 0xf0, 0x0f, 0xf0, 0x0f, 0xf0, 0x00, 0x00, 0x01] @ ?a"
    by (simp add: bit_header_def)
  then have r: "fread 13 ?f = ([0x00, 0x09, 0x0f, 0xf0, 0x0f, 0xf0, 0x0f, 0xf0, 0x0f, 0xf0, 0x00, 0x00, 0x01], fskip 13 ?f)"
    by (subst fread_unread) simp_all
  define f0 where "f0 = fskip 13 ?f"
  define f1 where "f1 = fskip (length (bit_field 97 (ncdFilename bf))) f0"
  define f2 where "f2 = fskip (length (bit_field 98 (partName bf))) f1"
  define f3 where "f3 = fskip (length (bit_field 99 (date bf))) f2"
  define f4 where "f4 = fskip (length (bit_field 100 (dtime bf))) f3"
  have 0: "unread f0 = ?a" "\<not> feof f0" using u by (simp_all add: f0_def)
  have 1: "unread f1 = ?b" "\<not> feof f1" using 0 by (simp_all add: f1_def)
  have 2: "unread f2 = ?c" "\<not> feof f2" using 1 by (simp_all add: f2_def)
  have 3: "unread f3 = ?d" "\<not> feof f3" using 2 by (simp_all add: f3_def)
  have 4: "unread f4 = ?bits" "\<not> feof f4" using 3 by (simp_all add: f4_def)
  note steps = bitfile_loop_field [OF 0(1) _ _ 0(2), folded f1_def] bitfile_loop_field [OF 1(1) _ _ 1(2), folded f2_def]
    bitfile_loop_field [OF 2(1) _ _ 2(2), folded f3_def] bitfile_loop_field [OF 3(1) _ _ 3(2), folded f4_def]
    bitfile_loop_data [OF 4 assms(2)]
  show ?thesis
    unfolding readBitfile_def r Let_def prod.case f0_def [symmetric]
    using fit by (simp add: steps put_field_def field_of_def) (simp add: bitfile_init_def)
qed

text \<open>The part of the buffer that the writers drop: trailing bytes all \<^verbatim>\<open>0xff\<close>.\<close>

definition clipped :: "bitfile \<Rightarrow> nat \<Rightarrow> bool" where
  "clipped bf clip \<longleftrightarrow> 0 < clip \<and> clip \<le> blength bf \<and> (\<forall>j. clip \<le> j \<longrightarrow> j < blength bf \<longrightarrow> buffer bf ! j = 0xff)"

lemma setNCDFields_simps [simp]:
  "blength (setNCDFields now dev bf) = blength bf" "buffer (setNCDFields now dev bf) = buffer bf"
  "rlength (setNCDFields now dev bf) = rlength bf"
  by (simp_all add: setNCDFields_def Let_def split: option.split)

lemma saveAs_clip:
  assumes "0 < blength bf" and "blength bf \<le> length (buffer bf)" and "rlength bf = 0"
  obtains clip where "clipped bf clip" "clip_loop (buffer bf) (blength bf - 1) = Inr (clip - 1)"
proof -
  have "blength bf - 1 < length (buffer bf)" using assms by simp
  from clip_loop_result [OF this] obtain d where
    "clip_loop (buffer bf) (blength bf - 1) = Inr d" "d \<le> blength bf - 1"
    "\<And>j. d < j \<Longrightarrow> j \<le> blength bf - 1 \<Longrightarrow> buffer bf ! j = 0xff"
    by metis
  with assms show ?thesis by (intro that [of "d + 1"]) (auto simp: clipped_def)
qed

text \<open>
  C7. Saving an object in BIT style and reading the file back gives the header fields and the
  buffer up to the clipped tail of 0xff bytes.\<close>

theorem bit_roundtrip:
  assumes "0 < blength bf" and "blength bf \<le> length (buffer bf)" and "rlength bf = 0" and "blength bf < 2 ^ 32"
    and "fields_fit (setNCDFields now dev bf)"
  shows "\<exists>clip out. saveAs now STYLE_BIT dev bf = Inr (clip, out, setNCDFields now dev bf) \<and> clipped bf clip \<and>
    readFile junk bitfile_init (Some out) STYLE_BIT =
      Inr (0, (setNCDFields now dev bf)\<lparr>blength := clip, buffer := take clip (buffer bf), boffset := 0, bError := False\<rparr>)"
proof -
  obtain clip where c: "clipped bf clip" "clip_loop (buffer bf) (blength bf - 1) = Inr (clip - 1)"
    using saveAs_clip [OF assms(1-3)] .
  then have b: "0 < clip" "clip \<le> length (buffer bf)" "clip < 2 ^ 32"
    using assms by (auto simp: clipped_def)
  define bf' where "bf' = setNCDFields now dev bf"
  define xs where "xs = map bitRev (take clip (buffer bf))"
  have l: "length xs = clip" using b by (simp add: xs_def)
  have s: "saveAs now STYLE_BIT dev bf = Inr (clip, bit_header bf' clip @ xs, bf')"
    using assms(1,3) b c(2) by (simp add: saveAs_def Let_def for_bytes_map bf'_def xs_def del: for_bytes.simps)
  have "readFile junk bitfile_init (Some (bit_header bf' clip @ xs)) STYLE_BIT =
      Inr (0, bf'\<lparr>blength := clip, buffer := take clip (buffer bf), boffset := 0, bError := False\<rparr>)"
    using readBitfile_header [of bf' xs junk] assms(3,5) b l
    by (simp add: readFile_def bf'_def [symmetric] xs_def comp_def bitRev_involution)
       (simp add: bitfile_init_def bf'_def)
  with s c(1) show ?thesis unfolding bf'_def by blast
qed

theorem bit_roundtrip_witness:
  "\<exists>clip out. saveAs None STYLE_BIT [65] (bitfile_init\<lparr>blength := 3, buffer := [1, 2, 0xff]\<rparr>) =
      Inr (clip, out, setNCDFields None [65] (bitfile_init\<lparr>blength := 3, buffer := [1, 2, 0xff]\<rparr>)) \<and>
    clipped (bitfile_init\<lparr>blength := 3, buffer := [1, 2, 0xff]\<rparr>) clip \<and>
    readFile (\<lambda>_. 7) bitfile_init (Some out) STYLE_BIT =
      Inr (0, (setNCDFields None [65] (bitfile_init\<lparr>blength := 3, buffer := [1, 2, 0xff]\<rparr>))
        \<lparr>blength := clip, buffer := take clip [1, 2, 0xff], boffset := 0, bError := False\<rparr>)"
proof -
  have "fields_fit (setNCDFields None [65] (bitfile_init\<lparr>blength := 3, buffer := [1, 2, 0xff]\<rparr>))"
    by (simp add: fields_fit_def setNCDFields_def bitfile_init_def ascii_def)
  then show ?thesis
    using bit_roundtrip [of "bitfile_init\<lparr>blength := 3, buffer := [1, 2, 0xff]\<rparr>" None "[65]" "\<lambda>_. 7"]
    by (simp add: bitfile_init_def)
qed

section \<open>Binary files\<close>

text \<open>
  Saving in BIN or BPI style and reading the file back in the same style gives the buffer
  up to the clipped tail of 0xff bytes.\<close>

theorem bin_roundtrip:
  assumes "0 < blength bf" and "blength bf \<le> length (buffer bf)" and "rlength bf = 0"
    and "style = STYLE_BIN \<or> style = STYLE_BPI"
  shows "\<exists>clip out. saveAs now style dev bf = Inr (clip, out, setNCDFields now dev bf) \<and> clipped bf clip \<and>
    readFile junk bf' (Some out) style = Inr (0, bf'\<lparr>blength := clip, buffer := take clip (buffer bf)\<rparr>)"
proof -
  obtain clip where c: "clipped bf clip" "clip_loop (buffer bf) (blength bf - 1) = Inr (clip - 1)"
    using saveAs_clip [OF assms(1-3)] .
  then have b: "0 < clip" "clip \<le> length (buffer bf)"
    using assms by (auto simp: clipped_def)
  define out where "out = (if style = STYLE_BIN then map bitRev (take clip (buffer bf)) else take clip (buffer bf))"
  have f: "for_bytes (\<lambda>i b. [bitRev b]) (buffer bf) 0 clip = Inr (map bitRev (take clip (buffer bf)))"
    "for_bytes (\<lambda>i b. [b]) (buffer bf) 0 clip = Inr (take clip (buffer bf))"
    using for_bytes_map [OF b(2), of bitRev] for_bytes_map [OF b(2), of "\<lambda>b. b"] by simp_all
  have s: "saveAs now style dev bf = Inr (clip, out, setNCDFields now dev bf)"
    if "(case style of STYLE_BIN \<Rightarrow> for_bytes (\<lambda>i b. [bitRev b]) (buffer bf) 0 clip
        | _ \<Rightarrow> for_bytes (\<lambda>i b. [b]) (buffer bf) 0 clip) = Inr out"
    using that assms(1,3,4) b c(2)
    by (elim disjE) (simp_all add: saveAs_def Let_def del: for_bytes.simps)
  have "saveAs now style dev bf = Inr (clip, out, setNCDFields now dev bf)"
    using assms(4) by (intro s; elim disjE) (simp_all add: f out_def del: for_bytes.simps)
  moreover have "readFile junk bf' (Some out) style = Inr (0, bf'\<lparr>blength := clip, buffer := take clip (buffer bf)\<rparr>)"
    using assms(4) b(2) by (auto simp: readFile_def readBIN_def out_def comp_def bitRev_involution)
  ultimately show ?thesis using c(1) by blast
qed

theorem bin_roundtrip_witness:
  "\<exists>clip out. saveAs None STYLE_BPI [] (bitfile_init\<lparr>blength := 3, buffer := [1, 2, 0xff]\<rparr>) =
      Inr (clip, out, setNCDFields None [] (bitfile_init\<lparr>blength := 3, buffer := [1, 2, 0xff]\<rparr>)) \<and>
    clipped (bitfile_init\<lparr>blength := 3, buffer := [1, 2, 0xff]\<rparr>) clip \<and>
    readFile (\<lambda>_. 7) bitfile_init (Some out) STYLE_BPI =
      Inr (0, bitfile_init\<lparr>blength := clip, buffer := take clip [1, 2, 0xff]\<rparr>)"
  using bin_roundtrip [of "bitfile_init\<lparr>blength := 3, buffer := [1, 2, 0xff]\<rparr>" STYLE_BPI None "[]" "\<lambda>_. 7" bitfile_init]
  by (simp add: bitfile_init_def)

section \<open>Single bits\<close>

lemma set_bit_effect:
  assumes "blength bf \<le> length (buffer bf)" and "idx div 8 < blength bf"
  shows "set_bit_bf idx v bf = Inr (bf\<lparr>buffer := buf_put (buffer bf) idx v\<rparr>)"
    and "get_bit_bf k (bf\<lparr>buffer := buf_put (buffer bf) idx v\<rparr>) = (if k = idx then Inr v else get_bit_bf k bf)"
proof -
  show "set_bit_bf idx v bf = Inr (bf\<lparr>buffer := buf_put (buffer bf) idx v\<rparr>)"
    using assms by (simp add: set_bit_bf_def Let_def buf_get_in buf_set_in buf_put_def)
  show "get_bit_bf k (bf\<lparr>buffer := buf_put (buffer bf) idx v\<rparr>) = (if k = idx then Inr v else get_bit_bf k bf)"
    using assms buf_bit_put [of idx "buffer bf" v k]
    by (auto simp: get_bit_bf_def Let_def buf_get_in buf_bit_def [symmetric])
qed

text \<open>
  \<^verbatim>\<open>set_bit\<close> changes exactly the bit it is asked for, as \<^verbatim>\<open>get_bit\<close> sees it, keeps the
  length, and both report an index past the end by an exception.\<close>

theorem get_set_bit:
  assumes "blength bf \<le> length (buffer bf)"
  shows "if idx div 8 < blength bf
    then \<exists>bf'. set_bit_bf idx v bf = Inr bf' \<and> blength bf' = blength bf \<and> length (buffer bf') = length (buffer bf) \<and>
      (\<forall>k. get_bit_bf k bf' = (if k = idx then Inr v else get_bit_bf k bf))
    else set_bit_bf idx v bf = Inl (IOException ''bit_set_fuse'') \<and>
      get_bit_bf idx bf = Inl (IOException ''bit_get_fuse'')"
proof (cases "idx div 8 < blength bf")
  case True
  let ?bf = "bf\<lparr>buffer := buf_put (buffer bf) idx v\<rparr>"
  have "set_bit_bf idx v bf = Inr ?bf" "\<forall>k. get_bit_bf k ?bf = (if k = idx then Inr v else get_bit_bf k bf)"
    "blength ?bf = blength bf" "length (buffer ?bf) = length (buffer bf)"
    using set_bit_effect [OF assms True] by simp_all
  then show ?thesis unfolding if_P [OF True] by blast
qed (simp add: set_bit_bf_def get_bit_bf_def Let_def)

theorem get_set_bit_witness:
  "\<exists>bf'. set_bit_bf 9 True (bitfile_init\<lparr>blength := 2, buffer := [0, 0]\<rparr>) = Inr bf' \<and> blength bf' = 2 \<and>
     length (buffer bf') = 2 \<and>
     (\<forall>k. get_bit_bf k bf' = (if k = 9 then Inr True else get_bit_bf k (bitfile_init\<lparr>blength := 2, buffer := [0, 0]\<rparr>)))"
  using get_set_bit [of "bitfile_init\<lparr>blength := 2, buffer := [0, 0]\<rparr>" 9 True]
  by (simp add: numeral_2_eq_2)

section \<open>Styles by name\<close>

text \<open>
  Every style that \<^verbatim>\<open>styleToString\<close> names is found again by \<^verbatim>\<open>styleFromString\<close>, also with
  options after a colon; BPI is the one style that has no name.\<close>

theorem style_names:
  "(case styleToString style of
      Some s \<Rightarrow> styleFromString (ascii s) = Some style \<and> styleFromString (ascii s @ 58 # r) = Some style
    | None \<Rightarrow> style = STYLE_BPI)"
proof -
  have "ascii ''BIT'' = [66, 73, 84]" "ascii ''BIN'' = [66, 73, 78]" "ascii ''BPI'' = [66, 80, 73]"
    "ascii ''HEX'' = [72, 69, 88]" "ascii ''HEXRAW'' = [72, 69, 88, 82, 65, 87]" "ascii ''MCS'' = [77, 67, 83]"
    "ascii ''IHEX'' = [73, 72, 69, 88]" "ascii ''JEDEC'' = [74, 69, 68, 69, 67]" "ascii ''AUTO'' = [65, 85, 84, 79]"
    by code_simp+
  note a = this
  show ?thesis
    by (cases style) (simp_all add: styleToString_def styleFromString_def Let_def strncasecmp_eq_def c_tolower_def a)
qed

end
