(* ===== verification/BitFileMcs.thy ===== *)
theory BitFileMcs
  imports BitFileProps
begin

text \<open>
  Intel hex records: what \<^verbatim>\<open>saveAs\<close> writes in the MCS and IHEX styles and what
  \<^verbatim>\<open>readMCSfile\<close> makes of it.
\<close>

section \<open>Lines of bytes in hexadecimal\<close>

definition hex2 :: "byte \<Rightarrow> byte list" where
  "hex2 b = print_hex True 2 (unat b)"

definition hex_line :: "byte list \<Rightarrow> byte list" where
  "hex_line bs = concat (map hex2 bs)"

lemma unat_byte [simp]: "unat (b :: byte) < 256"
  using unsigned_less [of b] by simp

lemma hex2_digits: "hex2 b = [hex_digit True (unat b div 16), hex_digit True (unat b mod 16)]"
  by (simp add: hex2_def print_hex_2)

lemma length_hex2 [simp]: "length (hex2 b) = 2"
  by (simp add: hex2_digits)

lemma hex2_plain: "set (hex2 b) \<inter> {0, 10, 13, 58} = {}"
proof -
  have "unat b div 16 < 16" using unat_byte [of b] by linarith
  then show ?thesis
    using hex_digit_plain [of "unat b div 16" True] hex_digit_plain [of "unat b mod 16" True]
    by (auto simp: hex2_digits)
qed

lemma hex_line_simps [simp]:
  "hex_line [] = []" "hex_line (b # bs) = hex2 b @ hex_line bs" "hex_line (as @ bs) = hex_line as @ hex_line bs"
  by (simp_all add: hex_line_def)

lemma length_hex_line [simp]: "length (hex_line bs) = 2 * length bs"
  by (induction bs) simp_all

lemma hex_line_plain: "set (hex_line bs) \<inter> {0, 10, 13, 58} = {}"
proof (induction bs)
  case (Cons b bs)
  then show ?case using hex2_plain [of b] by auto
qed simp

lemma drop_hex_line: "drop (2 * k) (hex_line bs) = hex_line (drop k bs)"
proof (induction bs arbitrary: k)
  case (Cons b bs)
  then show ?case by (cases k) simp_all
qed simp

lemma scan_hex2: "scan_hex 2 (hex2 b @ r) = Some (int (unat b), r)"
  by (simp add: hex2_def scan_hex_2)

lemma hex4_bytes: "n < 65536 \<Longrightarrow> print_hex True 4 n = hex2 (of_nat (n div 256)) @ hex2 (of_nat n)"
  by (simp add: print_hex_4 hex2_def unsigned_of_nat take_bit_eq_mod)

lemma scan_hex4: "scan_hex 4 (hex2 a @ hex2 b @ r) = Some (int (256 * unat a + unat b), r)"
proof -
  have "256 * unat a + unat b < 65536"
    using unat_byte [of a] unat_byte [of b] by linarith
  moreover have "(256 * unat a + unat b) div 256 = unat a"
    using unat_byte [of b] by simp
  moreover have "(of_nat (256 * unat a + unat b) :: byte) = b"
  proof -
    have z: "(256 :: byte) = 0" by simp
    show ?thesis unfolding of_nat_add of_nat_mult of_nat_numeral z by simp
  qed
  ultimately show ?thesis
    using scan_hex_4 [of "256 * unat a + unat b" True r] hex4_bytes [of "256 * unat a + unat b"] by simp
qed

text \<open>The checksum byte makes the bytes of a record add up to zero.\<close>

lemma mcs_checksum_line: "mcs_checksum acc (hex_line bs) = - (acc + sum_list bs)"
proof (induction bs arbitrary: acc)
  case Nil
  have "(acc XOR 0xff) + 1 = - acc" for acc :: byte
  proof -
    have f: "(0xff :: byte) = - 1" by simp
    show ?thesis unfolding f bit.xor_one_right by (rule minus_eq_not_plus_1 [symmetric])
  qed
  then show ?case by (simp add: mcs_checksum.simps)
next
  case (Cons b bs)
  have "hex2 b \<noteq> []" by (simp add: hex2_digits)
  then show ?case
    using Cons by (simp add: mcs_checksum.simps [of acc] scan_hex2 add.assoc)
qed

text \<open>A complete record with its checksum, without the line end.\<close>

definition hex_record :: "byte list \<Rightarrow> byte list" where
  "hex_record bs = 58 # hex_line (bs @ [- sum_list bs])"

lemma mcs_end_line: "58 # mcs_end (hex_line bs) = hex_record bs @ [13, 10]"
  by (simp add: mcs_end_def hex_record_def mcs_checksum_line hex2_def)

lemma hex_record_plain: "0 \<notin> set (hex_record bs @ [13, 10])" "10 \<notin> set (hex_record bs)"
  using hex_line_plain [of "bs @ [- sum_list bs]"] by (auto simp: hex_record_def)

section \<open>Reading one record\<close>

definition line_buf :: "byte list \<Rightarrow> byte list \<Rightarrow> byte list" where
  "line_buf buf bs = overwrite buf ((hex_record bs @ [13, 10]) @ [0])"

lemma c_string_line:
  assumes "pos \<le> length (hex_record bs) + 2"
  shows "c_string (line_buf buf bs) pos = drop pos (hex_record bs @ [13, 10])"
proof -
  let ?l = "hex_record bs @ [13, 10]"
  have e: "drop pos (l @ r) = drop pos l @ r" if "pos \<le> length l" for l r :: "byte list"
    using that by simp
  have l: "line_buf buf bs = ?l @ 0 # drop (length ?l + 1) buf"
    by (simp add: line_buf_def overwrite_def)
  have n: "0 \<notin> set (drop pos ?l)"
    using hex_record_plain(1) [of bs] in_set_dropD by metis
  have "pos \<le> length ?l" using assms by simp
  from e [OF this] show ?thesis
    unfolding c_string_def l by (simp only: takeWhile_nul [OF n])
qed

lemma length_line_buf: "2 * length bs + 5 \<le> length (line_buf buf bs)"
  by (simp add: line_buf_def overwrite_def hex_record_def)

lemma mcs_scan_record:
  assumes "k \<le> length bs"
  shows "mcs_scan (line_buf buf bs) (1 + 2 * k) 2 junk = Inr (ucast ((bs @ [- sum_list bs]) ! k))"
proof -
  let ?bs = "bs @ [- sum_list bs]"
  have k: "k < length ?bs" using assms by simp
  have "c_string (line_buf buf bs) (1 + 2 * k) = hex_line (drop k ?bs) @ [13, 10]"
    using assms by (subst c_string_line) (simp_all add: hex_record_def drop_hex_line del: hex_line_simps(3))
  also have "\<dots> = hex2 (?bs ! k) @ hex_line (drop (Suc k) ?bs) @ [13, 10]"
    by (simp only: Cons_nth_drop_Suc [OF k, symmetric] hex_line_simps append_assoc)
  finally have "c_string (line_buf buf bs) (1 + 2 * k) = hex2 (?bs ! k) @ hex_line (drop (Suc k) ?bs) @ [13, 10]" .
  moreover have "1 + 2 * k < length (line_buf buf bs)"
    using assms length_line_buf [of bs buf] by simp
  ultimately show ?thesis
    by (simp add: mcs_scan_def scan_hex2 del: hex_line_simps drop_append)
qed

lemma ucast_byte_u32 [simp]: "ucast (ucast (b :: byte) :: u32) = b"
  by (rule bit_word_eqI) (simp add: bit_simps)

lemma mcs_data_record:
  assumes "take (length data) (drop k (bs @ [- sum_list bs])) = data" "k + length data \<le> length bs + 1"
    and "unat fa + length data \<le> length out" and "unat fa + length data < 2 ^ 32"
  shows "mcs_data junk (line_buf buf bs) (length data) (1 + 2 * k) fa cal out =
    Inr (1 + 2 * (k + length data), fa + of_nat (length data), cal + sum_list data,
      take (unat fa) out @ data @ drop (unat fa + length data) out)"
  using assms
proof (induction data arbitrary: k fa cal out)
  case (Cons b data)
  let ?bs = "bs @ [- sum_list bs]"
  have lt: "k < length ?bs" using Cons.prems(2) by simp
  have "drop k ?bs = ?bs ! k # drop (Suc k) ?bs" by (rule Cons_nth_drop_Suc [OF lt, symmetric])
  with Cons.prems(1) have k: "?bs ! k = b" "take (length data) (drop (Suc k) ?bs) = data"
    by (simp_all del: drop_append)
  have fa: "unat (fa + 1) = unat fa + 1"
    using Cons.prems(4) by (simp add: unat_word_ariths)
  let ?out = "out[unat fa := b]"
  have "mcs_data junk (line_buf buf bs) (length data) (1 + 2 * Suc k) (fa + 1) (cal + b) ?out =
    Inr (1 + 2 * (Suc k + length data), fa + 1 + of_nat (length data), cal + b + sum_list data,
      take (unat (fa + 1)) ?out @ data @ drop (unat (fa + 1) + length data) ?out)"
    using k(2) Cons.prems fa by (intro Cons.IH) (simp_all del: drop_append)
  moreover have "take (unat fa + 1) ?out = take (unat fa) out @ [b]"
    using Cons.prems(3) by (simp add: take_Suc_conv_app_nth)
  moreover have "mcs_scan (line_buf buf bs) (1 + 2 * k) 2 junk = Inr (ucast b)"
    using k(1) lt mcs_scan_record [of k bs buf junk] by simp
  ultimately show ?case
    using Cons.prems(3) fa by (simp add: buf_set_in add.assoc)
qed simp

lemma mcs_header_record:
  "mcs_header (c_string (line_buf buf (c # hi # lo # t # bs)) 0) =
     Some (ucast c, of_nat (256 * unat hi + unat lo), ucast t)"
  by (subst c_string_line)
     (simp_all add: hex_record_def mcs_header_def scan_hex2 scan_hex4 del: of_nat_add of_nat_mult)

lemma mcs_check_record:
  assumes "bs = h @ data" and "cal = sum_list bs"
  shows "mcs_check junk (line_buf buf bs) (1 + 2 * length bs) cal fa out = Inr (Inr (), fa, out)"
  using mcs_scan_record [of "length bs" bs buf junk] assms(2)
  by (simp add: mcs_check_def minus_eq_not_plus_1 del: mult_Suc_right)

section \<open>Reading a sequence of records\<close>

lemma mcs_lines_record:
  assumes "length bs \<le> 300"
  shows "mcs_lines junk buf fa out (hex_record bs @ [13, 10] @ r) =
    (case mcs_record junk (line_buf buf bs) fa out of
       Inl e \<Rightarrow> Inl e
     | Inr (Inl code, fa, out) \<Rightarrow> Inr (code, fa, out)
     | Inr (Inr _, fa, out) \<Rightarrow> mcs_lines junk (line_buf buf bs) fa out r)"
proof -
  have "fgets_take 1023 ((hex_record bs @ [13]) @ 10 # r) = ((hex_record bs @ [13]) @ [10], r)"
    using assms hex_record_plain(2) [of bs] by (intro fgets_line) (simp_all add: hex_record_def)
  then have "fgets 1024 (hex_record bs @ [13, 10] @ r) = Some (hex_record bs @ [13, 10], r)"
    by (simp add: fgets_def)
  then show ?thesis
    unfolding mcs_lines.simps [of junk buf] by (simp only: line_buf_def Let_def option.case prod.case)
qed

lemma and_ffff: "(of_nat i :: u32) AND 0xffff = of_nat (i mod 65536)"
proof -
  have "(0xffff :: u32) = mask 16" by (simp add: mask_eq_exp_minus_1)
  then have "(of_nat i :: u32) AND 0xffff = take_bit 16 (of_nat i)" by (simp only: take_bit_eq_mask)
  also have "\<dots> = of_nat (take_bit 16 i)" by (rule bit_word_eqI) (auto simp: bit_simps)
  finally show ?thesis by (simp add: take_bit_eq_mod)
qed

lemma addr_bytes:
  "256 * unat (of_nat (i div 256) :: byte) + unat (of_nat i :: byte) = i mod 65536"
  using mod_mult2_eq [of i 256 256] by (simp add: unsigned_of_nat take_bit_eq_mod)

lemma addr_sum:
  "(ucast (drop_bit 8 (of_nat (i mod 65536) :: u32)) :: byte) + ucast (of_nat (i mod 65536) :: u32)
    = of_nat (i div 256) + of_nat i"
proof -
  have "(ucast (drop_bit 8 (of_nat (i mod 65536) :: u32)) :: byte) = of_nat (i div 256)"
  proof -
    have m: "i mod 65536 = take_bit 16 i" "i div 256 = drop_bit 8 i"
      by (simp_all add: take_bit_eq_mod drop_bit_eq_div)
    show ?thesis unfolding m by (rule bit_word_eqI) (auto simp: bit_simps ac_simps)
  qed
  moreover have "(ucast (of_nat (i mod 65536) :: u32) :: byte) = of_nat i"
  proof -
    have m: "i mod 65536 = take_bit 16 i" by (simp add: take_bit_eq_mod)
    show ?thesis unfolding m by (rule bit_word_eqI) (auto simp: bit_simps)
  qed
  ultimately show ?thesis by simp
qed

text \<open>The three kinds of records that the writer makes.\<close>

definition data_record :: "nat \<Rightarrow> nat \<Rightarrow> byte list \<Rightarrow> byte list" where
  "data_record c i data = [of_nat c, of_nat (i div 256), of_nat i, 0] @ data"

definition address_record :: "nat \<Rightarrow> byte list" where
  "address_record u = [2, 0, 0, 4, of_nat (u div 256), of_nat u]"

definition end_record :: "byte list" where
  "end_record = [0, 0, 0, 1]"

text \<open>The checksum over the header of a data record.\<close>

lemma data_record_header:
  fixes c i
  defines "count \<equiv> of_nat c :: byte" and "addr \<equiv> of_nat (i mod 65536) :: u32"
  assumes "c < 256"
  shows "mcs_header (c_string (line_buf buf (data_record c i data)) 0) = Some (ucast count, addr, 0)"
    and "unat (ucast count :: u32) = c"
    and "ucast (ucast count :: u32) + ucast (drop_bit 8 addr) + ucast addr + ucast (0 :: u32) + sum_list data =
      sum_list (data_record c i data)"
    and "(of_nat i :: u32) AND 0xffff = addr"
proof -
  show "mcs_header (c_string (line_buf buf (data_record c i data)) 0) = Some (ucast count, addr, 0)"
    unfolding data_record_def append_Cons append_Nil mcs_header_record addr_bytes count_def addr_def by simp
  show "unat (ucast count :: u32) = c"
    using assms(3) by (simp add: count_def unsigned_of_nat take_bit_eq_mod)
  show "ucast (ucast count :: u32) + ucast (drop_bit 8 addr) + ucast addr + ucast (0 :: u32) + sum_list data =
      sum_list (data_record c i data)"
    unfolding count_def addr_def
    by (simp add: data_record_def addr_sum add.assoc [symmetric] add.commute [of "of_nat c"])
qed (simp add: addr_def and_ffff)

lemma mcs_record_data:
  assumes "length data < 256" and "i + length data \<le> length out" and "i + length data < 2 ^ 32"
  shows "mcs_record junk (line_buf buf (data_record (length data) i data)) (of_nat i) out =
    Inr (Inr (), of_nat (i + length data), take i out @ data @ drop (i + length data) out)"
proof -
  let ?bs = "data_record (length data) i data"
  let ?out = "take i out @ data @ drop (i + length data) out"
  note header = data_record_header [OF assms(1)]
  have i: "unat (of_nat i :: u32) = i"
    using assms(3) by (simp add: unsigned_of_nat take_bit_eq_mod)
  have d: "mcs_data junk (line_buf buf ?bs) (length data) (1 + 2 * 4) (of_nat i) cal out =
     Inr (1 + 2 * length ?bs, of_nat i + of_nat (length data), cal + sum_list data, ?out)" for cal
    using assms(2,3) i mcs_data_record [where k = 4 and bs = ?bs and data = data and fa = "of_nat i" and out = out]
    by (simp add: data_record_def)
  have k: "mcs_check junk (line_buf buf ?bs) (1 + 2 * length ?bs) (sum_list ?bs) fa out' = Inr (Inr (), fa, out')"
    for fa out'
    by (rule mcs_check_record [where h = "take 4 ?bs" and data = data]) (simp_all add: data_record_def)
  show ?thesis
    unfolding mcs_record_def header(1) option.case prod.case Let_def header(2,4)
    using d k header(3) by simp
qed

text \<open>
  A record that declares one byte more than it has: the checksum is taken for the last byte,
  and the checksum is compared with what the variable happens to hold.
\<close>

lemma mcs_record_short:
  assumes "length data < 255" and "i + length data < length out" and "i + length data + 1 < 2 ^ 32"
  shows "\<exists>out'. length out' = length out \<and>
    mcs_record junk (line_buf buf (data_record (length data + 1) i data)) (of_nat i) out =
      Inr (if (ucast junk :: byte) = 0 then Inr () else Inl 3, of_nat (i + length data + 1), out')"
proof -
  let ?bs = "data_record (length data + 1) i data"
  let ?data = "data @ [- sum_list ?bs]"
  let ?out = "take i out @ ?data @ drop (i + length ?data) out"
  have "length data + 1 < 256" using assms(1) by simp
  note header = data_record_header [OF this]
  have i: "unat (of_nat i :: u32) = i"
    using assms(3) by (simp add: unsigned_of_nat take_bit_eq_mod)
  have d: "mcs_data junk (line_buf buf ?bs) (length data + 1) 9 (of_nat i) cal out =
     Inr (1 + 2 * (length ?bs + 1), of_nat i + of_nat (length data + 1), cal + sum_list data - sum_list ?bs, ?out)" for cal
    using assms(2,3) i mcs_data_record [where k = 4 and bs = ?bs and data = ?data and fa = "of_nat i" and out = out]
    by (simp add: data_record_def add.assoc)
  have "c_string (line_buf buf ?bs) (1 + 2 * (length ?bs + 1)) = [13, 10]"
    by (subst c_string_line) (simp_all add: hex_record_def)
  moreover have "scan_hex 2 [13, 10] = None" by code_simp
  ultimately have k: "mcs_check junk (line_buf buf ?bs) (1 + 2 * (length ?bs + 1)) 0 fa out' =
      Inr (if (ucast junk :: byte) = 0 then Inr () else Inl 3, fa, out')" for fa out'
    using length_line_buf [of ?bs buf] by (simp add: mcs_check_def mcs_scan_def)
  have "length ?out = length out" using assms(2) by simp
  moreover have "mcs_record junk (line_buf buf ?bs) (of_nat i) out =
      Inr (if (ucast junk :: byte) = 0 then Inr () else Inl 3, of_nat i + of_nat (length data + 1), ?out)"
    unfolding mcs_record_def header(1) option.case prod.case Let_def header(2,4)
    by (simp only: refl if_True d not_True_eq_False if_False simp_thms rbind_simps prod.case header(3) diff_self k)
  ultimately show ?thesis
    by (intro exI [of _ ?out]) (simp add: add.assoc)
qed

lemma mcs_record_address:
  assumes "u < 65536" and "i div 65536 = u" and "i < 2 ^ 32"
  shows "mcs_record junk (line_buf buf (address_record u)) (of_nat i) out = Inr (Inr (), of_nat i, out)"
proof -
  let ?hi = "of_nat (u div 256) :: byte" and ?lo = "of_nat u :: byte" and ?bs = "address_record u"
  have h: "mcs_header (c_string (line_buf buf ?bs) 0) = Some (2, 0, 4)"
    unfolding address_record_def mcs_header_record by simp
  have "i = take_bit 32 i" using assms(3) by (simp add: take_bit_eq_mod)
  moreover have "drop_bit 16 (of_nat (take_bit 32 i) :: u32) = of_nat (drop_bit 16 (take_bit 32 i))"
    by (rule bit_word_eqI) (auto simp: bit_simps ac_simps)
  ultimately have d: "drop_bit 16 (of_nat i :: u32) = of_nat u"
    using assms(2) by (simp add: drop_bit_eq_div)
  have a: "256 * unat ?hi + unat ?lo = u" using addr_bytes [of u] assms(1) by simp
  have "c_string (line_buf buf ?bs) 9 = hex2 ?hi @ hex2 ?lo @ hex2 (- sum_list ?bs) @ [13, 10]"
    by (subst c_string_line) (simp_all add: hex_record_def address_record_def hex2_digits)
  then have v: "mcs_scan (line_buf buf ?bs) 9 4 junk = Inr (of_nat u)"
    using length_line_buf [of ?bs buf] a
    by (simp add: mcs_scan_def scan_hex4 address_record_def del: of_nat_add of_nat_mult)
  have u: "ucast (ucast (of_nat u :: u32) :: u16) = (of_nat u :: u32)"
    using assms(1) by (simp add: unsigned_of_nat take_bit_eq_mod)
  have k: "mcs_check junk (line_buf buf ?bs) 13
      (ucast (2 :: u32) + ucast (drop_bit 8 (0 :: u32)) + ucast (0 :: u32) + ucast (4 :: u32) +
        ucast (drop_bit 8 (of_nat u :: u32)) + ucast (of_nat u :: u32)) fa out = Inr (Inr (), fa, out)" for fa
    using addr_sum [of u] assms(1)
      mcs_check_record [of ?bs "take 4 ?bs" "drop 4 ?bs" _ junk buf fa out, OF _ refl]
    by (simp add: address_record_def add.assoc)
  show ?thesis
    unfolding mcs_record_def h option.case prod.case Let_def v
    using k d by (simp add: u)
qed

lemma mcs_record_end: "mcs_record junk (line_buf buf end_record) fa out = Inr (Inl 0, fa, out)"
  using mcs_header_record [of buf 0 0 0 1 "[]"] by (simp add: mcs_record_def end_record_def Let_def)

section \<open>What the writer prints\<close>

definition mcs_byte :: "bool \<Rightarrow> byte list \<Rightarrow> nat \<Rightarrow> byte" where
  "mcs_byte rv buf i = (if rv then bitRev (buf ! i) else buf ! i)"

lemma rbind_Inr_id: "rbind m (\<lambda>x. Inr ([] @ [] @ [] @ x)) = m"
  by (cases m) simp_all

lemma mcs_out_byte:
  assumes "i < length buf" "i mod 16 \<noteq> 0" "i mod 16 \<noteq> 15" "i \<noteq> clip - 1"
  shows "mcs_out rv buf clip i (Suc k) (i div 0x10000) line =
    mcs_out rv buf clip (i + 1) k (i div 0x10000) (line @ hex2 (mcs_byte rv buf i))"
  using assms
  by (simp only: mcs_out.simps buf_get_in rbind_simps Let_def if_False if_True not_True_eq_False
      simp_thms rbind_Inr_id mcs_byte_def hex2_def)

lemma mcs_out_last:
  assumes "i < length buf" "i mod 16 \<noteq> 0" "i mod 16 = 15 \<or> i = clip - 1"
  shows "mcs_out rv buf clip i (Suc k) (i div 0x10000) line =
    (let line = line @ hex2 (mcs_byte rv buf i) in
     rbind (mcs_out rv buf clip (i + 1) k (i div 0x10000) line) (\<lambda>out. Inr (mcs_end line @ out)))"
  using assms
  by (simp only: mcs_out.simps buf_get_in rbind_simps Let_def if_False if_True not_True_eq_False
      simp_thms mcs_byte_def hex2_def append_Nil)

lemma next_in_block:
  fixes i :: nat
  assumes "i mod 16 + n \<le> 16" and "2 \<le> n"
  shows "Suc i mod 16 = i mod 16 + 1" "Suc i div 0x10000 = i div 0x10000"
proof -
  show m: "Suc i mod 16 = i mod 16 + 1" using assms by (simp add: mod_Suc)
  have "Suc i mod 0x10000 mod 16 \<noteq> 0" using m by (simp add: mod_mod_cancel)
  then have "Suc i mod 0x10000 \<noteq> 0" by (metis mod_0)
  then show "Suc i div 0x10000 = i div 0x10000" by (simp add: div_Suc)
qed

declare mcs_out.simps(2) [simp del]

text \<open>The bytes of a record after the first one.\<close>

lemma mcs_out_rest:
  assumes "i + n \<le> clip" "clip \<le> length buf" "i mod 16 \<noteq> 0" "i mod 16 + n \<le> 16" "n \<le> k" "0 < n"
    and "i mod 16 + n = 16 \<or> i + n = clip"
  shows "\<exists>line'. mcs_out rv buf clip i k (i div 0x10000) line =
    rbind (mcs_out rv buf clip (i + n) (k - n) (i div 0x10000) line')
      (\<lambda>out. Inr (mcs_end (line @ hex_line (map (mcs_byte rv buf) [i..<i + n])) @ out))"
  using assms
proof (induction n arbitrary: i k line)
  case (Suc n)
  obtain k' where k: "k = Suc k'" using Suc.prems(5) by (cases k) auto
  let ?line = "line @ hex2 (mcs_byte rv buf i)"
  have r: "[i..<i + Suc n] = i # [Suc i..<Suc i + n]" by (simp add: upt_rec)
  show ?case
  proof (cases "n = 0")
    case True
    with Suc.prems have "i < length buf" "i mod 16 = 15 \<or> i = clip - 1" by auto
    from mcs_out_last [OF this(1) Suc.prems(3) this(2)] show ?thesis
      unfolding k r by (intro exI [of _ ?line]) (simp add: True Let_def)
  next
    case False
    have d: "Suc i div 0x10000 = i div 0x10000" "Suc i mod 16 = i mod 16 + 1"
      using next_in_block [of i "Suc n"] Suc.prems(4) False by simp_all
    obtain line' where "mcs_out rv buf clip (Suc i) k' (Suc i div 0x10000) ?line =
      rbind (mcs_out rv buf clip (Suc i + n) (k' - n) (Suc i div 0x10000) line')
        (\<lambda>out. Inr (mcs_end (?line @ hex_line (map (mcs_byte rv buf) [Suc i..<Suc i + n])) @ out))"
      using Suc.IH [of "Suc i" k' ?line] Suc.prems k d False by auto
    moreover have "mcs_out rv buf clip i (Suc k') (i div 0x10000) line =
        mcs_out rv buf clip (Suc i) k' (Suc i div 0x10000) ?line"
      using mcs_out_byte [of i buf clip rv k' line] Suc.prems False d(1) by simp
    ultimately show ?thesis
      unfolding k r by (intro exI [of _ line']) (simp add: d(1))
  qed
qed simp

text \<open>A whole record from its first byte on.\<close>

definition declared :: "nat \<Rightarrow> nat" where
  "declared n = (if n < 15 then n else 16)"

lemma mcs_line_start_block:
  assumes "n = declared (clip - i)"
  shows "mcs_line_start clip i = hex_line [of_nat n, of_nat (i div 256), of_nat i, 0]"
proof -
  have n: "(if clip - i < 0xf then print_hex True 2 (clip - i) else ascii ''10'') = hex2 (of_nat n)"
  proof (cases "clip - i < 0xf")
    case True
    then have "n = clip - i" "unat (of_nat n :: byte) = n"
      using assms by (simp_all add: declared_def unsigned_of_nat take_bit_eq_mod del: of_nat_diff)
    with True show ?thesis by (simp only: if_True hex2_def)
  next
    case False
    then have "n = 16" using assms by (simp add: declared_def)
    moreover have "ascii ''10'' = hex2 16" by code_simp
    ultimately show ?thesis using False by simp
  qed
  have "print_hex True 4 (i mod 0x10000) = hex2 (of_nat (i mod 0x10000 div 256)) @ hex2 (of_nat (i mod 0x10000))"
    by (rule hex4_bytes) simp
  moreover have "(of_nat (i mod 0x10000) :: byte) = of_nat i" "(of_nat (i mod 0x10000 div 256) :: byte) = of_nat (i div 256)"
  proof -
    have m: "i mod 0x10000 = take_bit 16 i" "j div 256 = drop_bit 8 j" for j :: nat
      by (simp_all add: take_bit_eq_mod drop_bit_eq_div)
    show "(of_nat (i mod 0x10000) :: byte) = of_nat i" "(of_nat (i mod 0x10000 div 256) :: byte) = of_nat (i div 256)"
      unfolding m by (rule bit_word_eqI; auto simp: bit_simps)+
  qed
  moreover have "ascii ''00'' = hex2 0" by code_simp
  ultimately show ?thesis unfolding mcs_line_start_def n by simp
qed

lemma mcs_out_block:
  assumes "i mod 16 = 0" "n = min 16 (clip - i)" "0 < n" "clip \<le> length buf" "n \<le> k" "i < 2 ^ 32"
  shows "\<exists>line'. mcs_out rv buf clip i k base line =
    rbind (mcs_out rv buf clip (i + n) (k - n) (i div 0x10000) line')
      (\<lambda>out. Inr ((if base \<noteq> i div 0x10000 then hex_record (address_record (i div 0x10000)) @ [13, 10] else []) @
         hex_record (data_record (declared (clip - i)) i (map (mcs_byte rv buf) [i..<i + n])) @ [13, 10] @ out))"
proof -
  define b where "b = mcs_byte rv buf i"
  define ext where "ext = (if base \<noteq> i div 0x10000 then hex_record (address_record (i div 0x10000)) @ [13, 10] else [])"
  obtain k' where k: "k = Suc k'" using assms(3,5) by (cases k) auto
  have i: "i < clip" "i < length buf" using assms by auto
  have start: "mcs_line_start clip i = hex_line [of_nat (declared (clip - i)), of_nat (i div 256), of_nat i, 0]"
    by (rule mcs_line_start_block [OF refl])
  let ?line = "hex_line [of_nat (declared (clip - i)), of_nat (i div 256), of_nat i, 0, b]"
  have "i div 0x10000 < 65536" using assms(6) by simp
  moreover have "ascii ''02000004'' = hex_line [2, 0, 0, 4]" by code_simp
  ultimately have ext: "(if base \<noteq> i div 0x10000
       then [58] @ mcs_end (ascii ''02000004'' @ print_hex True 4 (i div 0x10000)) else []) = ext"
    using mcs_end_line [of "address_record (i div 0x10000)"]
    by (simp add: ext_def hex4_bytes address_record_def)
  have first: "mcs_out rv buf clip i k base line =
    rbind (mcs_out rv buf clip (i + 1) k' (i div 0x10000) ?line)
      (\<lambda>out. Inr (ext @ [58] @ (if i = clip - 1 then mcs_end ?line else []) @ out))"
  proof -
    have z: "(i mod 16 = 0) = True" "(i mod 16 = 15) = False" using assms(1) by simp_all
    show ?thesis
      unfolding k mcs_out.simps buf_get_in [OF i(2)] rbind_simps Let_def ext z if_True simp_thms start
      by (simp add: b_def mcs_byte_def hex2_def)
  qed
  have rec: "58 # mcs_end (?line @ hex_line (map (mcs_byte rv buf) [Suc i..<i + n])) @ out =
      hex_record (data_record (declared (clip - i)) i (map (mcs_byte rv buf) [i..<i + n])) @ [13, 10] @ out" for out
  proof -
    have "[i..<i + n] = i # [Suc i..<i + n]" using assms(3) by (simp add: upt_rec)
    then have "?line @ hex_line (map (mcs_byte rv buf) [Suc i..<i + n]) =
        hex_line (data_record (declared (clip - i)) i (map (mcs_byte rv buf) [i..<i + n]))"
      using assms(3) by (simp add: data_record_def b_def)
    then show ?thesis
      using mcs_end_line [of "data_record (declared (clip - i)) i (map (mcs_byte rv buf) [i..<i + n])"] by simp
  qed
  show ?thesis
  proof (cases "n = 1")
    case True
    then have l: "i = clip - 1" using assms(2) i(1) by (simp add: min_def split: if_splits)
    have r: "[58] @ mcs_end ?line @ out = hex_record (data_record (declared (clip - i)) i (map (mcs_byte rv buf) [i..<i + n])) @ [13, 10] @ out"
      for out using rec [of out] True by simp
    have "k' = k - n" "i + 1 = i + n" using True k by simp_all
    then show ?thesis
      unfolding first ext_def [symmetric] if_P [OF l] r by metis
  next
    case False
    then have n: "2 \<le> n" "n \<le> 16" "i + n \<le> clip" "n = 16 \<or> i + n = clip" "clip \<le> length buf" "n \<le> k"
      using assms by auto
    then have d: "Suc i mod 16 = 1" "Suc i div 0x10000 = i div 0x10000" "i \<noteq> clip - 1"
      using next_in_block [of i n] assms(1) by auto
    obtain line' where "mcs_out rv buf clip (Suc i) k' (Suc i div 0x10000) ?line =
      rbind (mcs_out rv buf clip (Suc i + (n - 1)) (k' - (n - 1)) (Suc i div 0x10000) line')
        (\<lambda>out. Inr (mcs_end (?line @ hex_line (map (mcs_byte rv buf) [Suc i..<Suc i + (n - 1)])) @ out))"
    proof -
      have "Suc i + (n - 1) \<le> clip" "Suc i mod 16 \<noteq> 0" "Suc i mod 16 + (n - 1) \<le> 16" "n - 1 \<le> k'" "0 < n - 1"
        "Suc i mod 16 + (n - 1) = 16 \<or> Suc i + (n - 1) = clip"
        using n(1-4,6) d(1) k by auto
      from mcs_out_rest [OF this(1) n(5) this(2-6)] show thesis by (rule exE) (rule that)
    qed
    then have e: "mcs_out rv buf clip (i + 1) k' (i div 0x10000) ?line =
      rbind (mcs_out rv buf clip (i + n) (k - n) (i div 0x10000) line')
        (\<lambda>out. Inr (mcs_end (?line @ hex_line (map (mcs_byte rv buf) [Suc i..<i + n])) @ out))"
      using assms(3) d(2) k by simp
    have r: "[58] @ mcs_end (?line @ hex_line (map (mcs_byte rv buf) [Suc i..<i + n])) @ out =
        hex_record (data_record (declared (clip - i)) i (map (mcs_byte rv buf) [i..<i + n])) @ [13, 10] @ out" for out
      using rec [of out] by simp
    show ?thesis
      unfolding first ext_def [symmetric] if_not_P [OF d(3)] e
      by (intro exI [of _ line']) (simp only: rbind_assoc rbind_simps append_Nil r)
  qed
qed

section \<open>The file as a whole\<close>

definition end_line :: "byte list" where
  "end_line = hex_record end_record @ [13, 10]"

lemma end_line_code: "[58] @ mcs_end (ascii ''00000001'') = end_line"
proof -
  have "ascii ''00000001'' = hex_line end_record" by code_simp
  then show ?thesis using mcs_end_line [of end_record] by (simp add: end_line_def)
qed

lemma block_step:
  fixes i :: nat
  assumes "i mod 16 = 0" and "i + n \<le> clip" and "n = 16 \<or> i + n = clip"
  shows "(i + n) mod 16 = 0 \<or> i + n = clip"
    and "n = 16 \<Longrightarrow> i div 0x10000 \<noteq> (i + n) div 0x10000 \<Longrightarrow> (i + n) mod 0x10000 = 0"
proof -
  show "(i + n) mod 16 = 0 \<or> i + n = clip" using assms by auto
  assume n: "n = 16" and d: "i div 0x10000 \<noteq> (i + n) div 0x10000"
  obtain q where q: "i = 16 * q" using assms(1) by (metis mod_0_imp_dvd dvdE)
  have q': "i + n = 16 * Suc q" using q n by simp
  have "i div 0x10000 = q div 4096" "(i + n) div 0x10000 = Suc q div 4096" "(i + n) mod 0x10000 = 16 * (Suc q mod 4096)"
    unfolding q' unfolding q
    using div_mult2_eq [of "16 * q" 16 4096] div_mult2_eq [of "16 * Suc q" 16 4096]
      mult_mod_right [of 16 "Suc q" 4096] by (simp_all del: mult_Suc_right)
  with d show "(i + n) mod 0x10000 = 0" by (simp add: div_Suc split: if_splits)
qed

lemma mcs_lines_end: "mcs_lines junk rbuf fa out end_line = Inr (0, fa, out)"
proof -
  have "length end_record \<le> 300" by (simp add: end_record_def)
  from mcs_lines_record [OF this, where r = "[]"] show ?thesis
    by (simp add: end_line_def mcs_record_end)
qed

text \<open>The address record in front of a block leaves the address and the buffer as they are.\<close>

lemma mcs_lines_address:
  assumes "i < 2 ^ 32"
  shows "mcs_lines junk rbuf (of_nat i) out (hex_record (address_record (i div 0x10000)) @ [13, 10] @ r) =
    mcs_lines junk (line_buf rbuf (address_record (i div 0x10000))) (of_nat i) out r"
proof -
  have l: "length (address_record (i div 0x10000)) \<le> 300" by (simp add: address_record_def)
  have "i div 0x10000 < 65536" using assms by simp
  from mcs_record_address [OF this refl assms] show ?thesis
    unfolding mcs_lines_record [OF l] by simp
qed

text \<open>
  What reading makes of a written file: \<open>written junk clip out i h\<close> says of a result that it is
  right when no record is short, and otherwise an error or one byte too long.
\<close>

definition written ::
  "u32 \<Rightarrow> nat \<Rightarrow> byte list \<Rightarrow> nat \<Rightarrow> (nat \<Rightarrow> byte) \<Rightarrow> (nat \<times> u32 \<times> byte list) res \<Rightarrow> bool" where
  "written junk clip out i h r =
     (if clip mod 16 = 15
      then \<exists>out'. length out' = length out \<and>
             r = Inr (if (ucast junk :: byte) = 0 then 0 else 3, of_nat (clip + 1), out')
      else r = Inr (0, of_nat clip, take i out @ map h [i..<clip] @ drop clip out))"

lemma mcs_lines_written:
  assumes "clip + 1 < 2 ^ 32" "clip \<le> length buf"
    and "i mod 16 = 0 \<or> i = clip \<and> clip mod 16 \<noteq> 15" "i \<le> clip"
    and "base = i div 0x10000 \<or> i mod 0x10000 = 0 \<or> i = clip"
  shows "\<exists>tx. mcs_out rv buf clip i (clip - i) base line = Inr tx \<and> 2 * (clip - i) \<le> length tx \<and>
    (\<forall>rbuf out. clip < length out \<longrightarrow>
      written junk clip out i (mcs_byte rv buf) (mcs_lines junk rbuf (of_nat i) out (tx @ end_line)))"
  using assms(3-5)
proof (induction "clip - i" arbitrary: i base line rule: less_induct)
  case less
  show ?case
  proof (cases "i = clip")
    case True
    then have "clip mod 16 \<noteq> 15" using less.prems(1) by auto
    with True show ?thesis by (simp add: mcs_lines_end written_def)
  next
    case False
    define n where "n = min 16 (clip - i)"
    define ext where "ext = (if base \<noteq> i div 0x10000 then hex_record (address_record (i div 0x10000)) @ [13, 10] else [])"
    define data where "data = map (mcs_byte rv buf) [i..<i + n]"
    define drec where "drec = data_record (declared (clip - i)) i data"
    have i: "i mod 16 = 0" "i < clip" "i < 2 ^ 32" using less.prems False assms(1) by auto
    have n: "n = min 16 (clip - i)" "0 < n" "i + n \<le> clip" "n = 16 \<or> i + n = clip" "n \<le> 16" "n \<le> clip - i"
      using i(2) by (auto simp: n_def)
    have ld: "length data = n" "length drec \<le> 300"
      using n(5) by (simp_all add: drec_def data_record_def data_def)
    obtain line' where out: "mcs_out rv buf clip i (clip - i) base line =
      rbind (mcs_out rv buf clip (i + n) (clip - i - n) (i div 0x10000) line')
        (\<lambda>out. Inr (ext @ hex_record drec @ [13, 10] @ out))"
      using mcs_out_block [OF i(1) n(1,2) assms(2) n(6) i(3), of rv base line]
      unfolding ext_def data_def drec_def by blast
    have ext: "mcs_lines junk rbuf (of_nat i) out (ext @ r) =
        mcs_lines junk (if ext = [] then rbuf else line_buf rbuf (address_record (i div 0x10000))) (of_nat i) out r" for rbuf out r
      using mcs_lines_address [OF i(3)] by (simp add: ext_def)
    show ?thesis
    proof (cases "clip - i = 15")
      case True
      then have c: "i + n = clip" "clip = i + 15" "n = 15" using n i(2) by auto
      have m: "clip mod 16 = 15" using i(1) c(2) by (simp add: mod_add_eq [of i 16 15, symmetric])
      have "written junk clip out i (mcs_byte rv buf)
          (mcs_lines junk rbuf (of_nat i) out (ext @ hex_record drec @ [13, 10] @ end_line))" if "clip < length out" for rbuf out
      proof -
        have "drec = data_record (length data + 1) i data" using ld(1) c by (simp add: drec_def declared_def)
        then have short: "\<exists>out'. length out' = length out \<and> mcs_record junk (line_buf rb drec) (of_nat i) out =
            Inr (if (ucast junk :: byte) = 0 then Inr () else Inl 3, of_nat (clip + 1), out')" for rb
          using mcs_record_short [of data i out junk rb] that c ld(1) assms(1) by simp
        obtain rb where rb: "mcs_lines junk rbuf (of_nat i) out (ext @ r) = mcs_lines junk rb (of_nat i) out r" for r
          using ext by blast
        from short [of rb] m show ?thesis
          unfolding rb mcs_lines_record [OF ld(2)] written_def by (elim exE conjE) (simp add: mcs_lines_end)
      qed
      moreover have "2 * (clip - i) \<le> length (ext @ hex_record drec @ [13, 10])"
        using c ld(1) by (simp add: hex_record_def drec_def data_record_def)
      ultimately show ?thesis using out c(1) by simp
    next
      case False
      then have "declared (clip - i) = n" by (simp add: n_def declared_def)
      then have drec: "drec = data_record (length data) i data" by (simp add: drec_def ld(1))
      have m: "i + n = clip \<Longrightarrow> clip mod 16 \<noteq> 15"
      proof
        assume "i + n = clip" "clip mod 16 = 15"
        then have "n mod 16 = 15" using i(1) mod_add_left_eq [of i 16 n] by simp
        then show False using n(5) False \<open>i + n = clip\<close> by (cases "n = 16") auto
      qed
      have nx: "clip - (i + n) < clip - i" "(i + n) mod 16 = 0 \<or> i + n = clip \<and> clip mod 16 \<noteq> 15"
        "i div 0x10000 = (i + n) div 0x10000 \<or> (i + n) mod 0x10000 = 0 \<or> i + n = clip"
        using block_step [OF i(1) n(3,4)] n i m by auto
      obtain tx where tx: "mcs_out rv buf clip (i + n) (clip - (i + n)) (i div 0x10000) line' = Inr tx"
        "2 * (clip - (i + n)) \<le> length tx"
        "\<And>rbuf out. clip < length out \<Longrightarrow> written junk clip out (i + n) (mcs_byte rv buf)
           (mcs_lines junk rbuf (of_nat (i + n)) out (tx @ end_line))"
        using less.hyps [OF nx(1,2) n(3) nx(3)] by metis
      have "written junk clip out i (mcs_byte rv buf)
          (mcs_lines junk rbuf (of_nat i) out (ext @ hex_record drec @ [13, 10] @ tx @ end_line))"
        if "clip < length out" for rbuf out
      proof -
        let ?out = "take i out @ data @ drop (i + n) out"
        have r: "mcs_record junk (line_buf rbuf drec) (of_nat i) out = Inr (Inr (), of_nat (i + n), ?out)" for rbuf
          using mcs_record_data [of data i out junk rbuf] ld that n assms(1) by (simp add: drec)
        have "[i..<clip] = [i..<i + n] @ [i + n..<clip]" using n(3) upt_add_eq_append [of i "i + n" "clip - (i + n)"] by simp
        then have "written junk clip ?out (i + n) (mcs_byte rv buf) res = written junk clip out i (mcs_byte rv buf) res" for res
          using that n(3) ld(1) by (simp add: written_def data_def)
        then show ?thesis
          unfolding ext mcs_lines_record [OF ld(2)] r sum.case prod.case using tx(3) [of ?out] that n(3) ld(1)
          by simp
      qed
      moreover have "2 * (clip - i) \<le> length (ext @ hex_record drec @ [13, 10] @ tx)"
        using tx(2) n(3) ld(1) by (simp add: hex_record_def drec_def data_record_def)
      ultimately show ?thesis using out tx(1) by simp
    qed
  qed
qed

lemma map_mcs_byte:
  assumes "clip \<le> length buf"
  shows "map (mcs_byte False buf) [0..<clip] = take clip buf"
    and "map bitRev (map (mcs_byte True buf) [0..<clip]) = take clip buf"
  using assms by (auto intro!: nth_equalityI simp: mcs_byte_def bitRev_involution)

lemma mcs_written_read:
  assumes "0 < blength bf" and "blength bf \<le> length (buffer bf)" and "rlength bf = 0" and "blength bf + 1 < 2 ^ 32"
    and "style = STYLE_MCS \<or> style = STYLE_IHEX"
  shows "\<exists>clip out code r. saveAs now style dev bf = Inr (clip, out, setNCDFields now dev bf) \<and> clipped bf clip \<and>
    readFile junk bf' (Some out) style = Inr (code, r) \<and>
    (if clip mod 16 = 15 then code = 3 \<or> blength r = clip + 1
     else code = 0 \<and> blength r = clip \<and> take clip (buffer r) = take clip (buffer bf))"
proof -
  obtain clip where c: "clipped bf clip" "clip_loop (buffer bf) (blength bf - 1) = Inr (clip - 1)"
    using saveAs_clip [OF assms(1-3)] .
  then have b: "0 < clip" "clip \<le> length (buffer bf)" "clip + 1 < 2 ^ 32"
    using assms(2,4) by (simp_all add: clipped_def)
  have u: "unat (of_nat n :: u32) = n" if "n < 2 ^ 32" for n
    using that by (simp add: unsigned_of_nat take_bit_eq_mod)
  have b45: "unat (of_nat clip :: u32) = clip" "unat (of_nat (clip + 1) :: u32) = clip + 1"
    using b(3) u [of clip] u [of "clip + 1"] by simp_all
  define rv where "rv = (style = STYLE_MCS)"
  define junk' :: u32 where "junk' = ucast (junk 0)"
  obtain tx where tx: "mcs_out rv (buffer bf) clip 0 clip 0xffffffff [] = Inr tx" "2 * clip \<le> length tx"
    "\<And>rbuf out. clip < length out \<Longrightarrow>
      written junk' clip out 0 (mcs_byte rv (buffer bf)) (mcs_lines junk' rbuf 0 out (tx @ end_line))"
    using mcs_lines_written [OF b(3,2), of 0 "0xffffffff" rv "[]" junk'] by auto
  define fl where "fl = tx @ end_line"
  let ?out = "alloc junk (length fl div 2)"
  let ?r = "mcs_lines junk' (alloc junk 1024) 0 ?out fl"
  have s: "saveAs now style dev bf = Inr (clip, fl, setNCDFields now dev bf)"
    using assms(1,3,5) b c(2) tx(1)
    by (auto simp: fl_def saveAs_def Let_def rv_def end_line_code [symmetric])
  have "2 \<le> length end_line" by (simp add: end_line_def)
  then have l: "clip < length ?out" using tx(2) by (simp add: fl_def)
  then have w: "written junk' clip ?out 0 (mcs_byte rv (buffer bf)) ?r"
    using tx(3) by (simp add: fl_def)
  have read: "readMCSfile junk bf' fl = rbind ?r (\<lambda>(code, fa, out). Inr (code,
      bf'\<lparr>blength := (if code = 0 then unat fa else length fl div 2), buffer := out\<rparr>))"
    by (simp add: readMCSfile_def junk'_def)
  have "\<exists>code r. readFile junk bf' (Some fl) style = Inr (code, r) \<and>
    (if clip mod 16 = 15 then code = 3 \<or> blength r = clip + 1
     else code = 0 \<and> blength r = clip \<and> take clip (buffer r) = take clip (buffer bf))"
  proof (cases "clip mod 16 = 15")
    case True
    then obtain out' where out': "length out' = length ?out"
      "?r = Inr (if (ucast junk' :: byte) = 0 then 0 else 3, of_nat (clip + 1), out')"
      using w by (auto simp: written_def)
    with True l assms(5) show ?thesis
      unfolding readFile_def by (auto simp: read b45(2) [unfolded Suc_eq_plus1 [symmetric]] bitrev_buffer_def simp del: of_nat_Suc of_nat_add)
  next
    case False
    then have "?r = Inr (0, of_nat clip, map (mcs_byte rv (buffer bf)) [0..<clip] @ drop clip ?out)"
      using w by (simp add: written_def)
    with False l b(2) assms(5) map_mcs_byte [OF b(2)] show ?thesis
      unfolding readFile_def by (auto simp: read b45(1) bitrev_buffer_def rv_def)
  qed
  with s c(1) show ?thesis by blast
qed

definition example_bf :: "byte list \<Rightarrow> bitfile" where
  "example_bf buf = bitfile_init\<lparr>blength := length buf, buffer := buf\<rparr>"

text \<open>
  C8. Saving in MCS or IHEX style and reading the file back gives the buffer up to the clipped
  tail of 0xff bytes, whenever the number of bytes is not 15 modulo 16.\<close>

theorem mcs_roundtrip:
  assumes "0 < blength bf" and "blength bf \<le> length (buffer bf)" and "rlength bf = 0" and "blength bf + 1 < 2 ^ 32"
    and "style = STYLE_MCS \<or> style = STYLE_IHEX"
  shows "\<exists>clip out code r. saveAs now style dev bf = Inr (clip, out, setNCDFields now dev bf) \<and> clipped bf clip \<and>
    readFile junk bf' (Some out) style = Inr (code, r) \<and>
    (clip mod 16 \<noteq> 15 \<longrightarrow> code = 0 \<and> blength r = clip \<and> take clip (buffer r) = take clip (buffer bf))"
  using mcs_written_read [OF assms, of now dev junk bf'] by (auto split: if_splits)

theorem mcs_roundtrip_witness:
  "\<exists>clip out code r. saveAs None STYLE_MCS [] (example_bf [1, 2, 3, 0xff]) =
       Inr (clip, out, setNCDFields None [] (example_bf [1, 2, 3, 0xff])) \<and> clipped (example_bf [1, 2, 3, 0xff]) clip \<and>
    readFile (\<lambda>_. 0) bitfile_init (Some out) STYLE_MCS = Inr (code, r) \<and>
    (clip mod 16 \<noteq> 15 \<longrightarrow> code = 0 \<and> blength r = clip \<and> take clip (buffer r) = take clip [1, 2, 3, 0xff])"
  using mcs_roundtrip [of "example_bf [1, 2, 3, 0xff]" STYLE_MCS None "[]" "\<lambda>_. 0" bitfile_init]
  by (simp add: example_bf_def bitfile_init_def)

text \<open>
  A last record of fifteen bytes is written with the count \<^verbatim>\<open>10\<close>: reading the file back
  takes the checksum for a sixteenth byte, and either fails with the checksum error 3 or
  delivers one byte too many.\<close>

theorem mcs_fifteen_bytes_unreadable:
  assumes "0 < blength bf" and "blength bf \<le> length (buffer bf)" and "rlength bf = 0" and "blength bf + 1 < 2 ^ 32"
    and "style = STYLE_MCS \<or> style = STYLE_IHEX" and "blength bf mod 16 = 15" and "buffer bf ! (blength bf - 1) \<noteq> 0xff"
  shows "\<exists>out code r. saveAs now style dev bf = Inr (blength bf, out, setNCDFields now dev bf) \<and>
    readFile junk bf' (Some out) style = Inr (code, r) \<and> (code = 3 \<or> blength r = blength bf + 1)"
proof -
  obtain clip out code r where r: "saveAs now style dev bf = Inr (clip, out, setNCDFields now dev bf)" "clipped bf clip"
    "readFile junk bf' (Some out) style = Inr (code, r)" "clip mod 16 = 15 \<longrightarrow> code = 3 \<or> blength r = clip + 1"
    using mcs_written_read [OF assms(1-5), of now dev junk bf'] by (auto split: if_splits)
  have "clip = blength bf"
  proof (rule ccontr)
    assume "clip \<noteq> blength bf"
    then have "clip \<le> blength bf - 1" "blength bf - 1 < blength bf" using r(2) by (auto simp: clipped_def)
    then show False using r(2) assms(7) by (auto simp: clipped_def)
  qed
  with r assms(6) show ?thesis by blast
qed

theorem mcs_fifteen_bytes_unreadable_witness:
  "\<exists>out code r. saveAs None STYLE_IHEX [] (example_bf (replicate 15 5)) =
      Inr (15, out, setNCDFields None [] (example_bf (replicate 15 5))) \<and>
    readFile (\<lambda>_. 0) bitfile_init (Some out) STYLE_IHEX = Inr (code, r) \<and> (code = 3 \<or> blength r = 16)"
  using mcs_fifteen_bytes_unreadable [of "example_bf (replicate 15 5)" STYLE_IHEX None "[]" "\<lambda>_. 0" bitfile_init]
  by (simp add: example_bf_def bitfile_init_def)

end
