(* ===== verification/Jedec.thy ===== *)
theory Jedec
  imports CStdio
begin

text \<open>
  \<^verbatim>\<open>jedecfile.cpp\<close>: the character-driven state machine that reads JEDEC fuse files, the
  access to single fuses, and the writer \<^verbatim>\<open>saveAsJed\<close>. The static variables of the file are
  the record \<open>jed_globals\<close>; they outlive a call of \<^verbatim>\<open>readFile\<close>. The two-dimensional array
  \<^verbatim>\<open>m_N_strings\<close> is one block of \<open>8 * 256\<close> bytes, in which row \<open>i\<close> starts at \<open>256 * i\<close>.
\<close>

definition MAX_ITEM :: int where "MAX_ITEM = 8"
definition MAX_SIZE :: nat where "MAX_SIZE = 256"

record jed_data =
  jdevice :: "byte list"
  jversion :: "byte list"
  jdate :: "byte list"
  fuse_count :: u32
  pin_count :: u32
  jchecksum :: u32
  fuse_list :: "byte list option"

record jed_globals =
  m_N_item :: int
  m_N_pos :: nat
  m_H_pos :: nat
  m_H_string :: "byte list"
  m_N_strings :: "byte list"

text \<open>The static variables as the program starts.\<close>

definition jed_globals_init :: jed_globals where
  "jed_globals_init = \<lparr>m_N_item = 0, m_N_pos = 0, m_H_pos = 0,
     m_H_string = replicate MAX_SIZE 0, m_N_strings = replicate (8 * MAX_SIZE) 0\<rparr>"

text \<open>The constructor terminates the three strings and leaves the rest of the arrays as it is.\<close>

definition jed_init :: "(nat \<Rightarrow> byte) \<Rightarrow> jed_data" where
  "jed_init junk =
     (let s = map (\<lambda>i. if i = 0 then 0 else junk i) [0..<MAX_SIZE]
      in \<lparr>jdevice = s, jversion = s, jdate = s, fuse_count = 0, pin_count = 0, jchecksum = 0, fuse_list = None\<rparr>)"

definition allocate_fusemap :: "u32 \<Rightarrow> byte list" where
  "allocate_fusemap sz = replicate (nbytes (unat sz)) 0"

text \<open>\<^verbatim>\<open>strncpy(dst, src, n)\<close> into an array of \<open>n\<close> bytes, \<open>src\<close> up to its NUL.\<close>

definition strncpy :: "nat \<Rightarrow> byte list \<Rightarrow> byte list" where
  "strncpy n src = take n src @ replicate (n - length src) 0"

section \<open>Single fuses\<close>

definition jedec_get_fuse :: "jed_data \<Rightarrow> u32 \<Rightarrow> bool res" where
  "jedec_get_fuse jed idx =
     (if fuse_count jed \<le> idx then Inl (IOException ''jedec_get_fuse'')
      else case fuse_list jed of None \<Rightarrow> Inl NullPointer
           | Some fl \<Rightarrow> rbind (buf_get fl (unat idx div 8)) (\<lambda>b. Inr (bit b (unat idx mod 8))))"

definition jedec_set_fuse :: "jed_data \<Rightarrow> u32 \<Rightarrow> bool \<Rightarrow> jed_data res" where
  "jedec_set_fuse jed idx blow =
     (if fuse_count jed \<le> idx then Inl (IOException ''jedec_set_fuse'')
      else case fuse_list jed of None \<Rightarrow> Inl NullPointer
           | Some fl \<Rightarrow> rbind (buf_get fl (unat idx div 8)) (\<lambda>b.
               rbind (buf_set fl (unat idx div 8) (put_bit b (unat idx mod 8) blow)) (\<lambda>fl.
                 Inr (jed\<lparr>fuse_list := Some fl\<rparr>))))"

section \<open>The states of the reader\<close>

text \<open>The value of the function pointer \<^verbatim>\<open>state\<close>; \<open>M_null\<close> is the null pointer.\<close>

datatype jstate = M_startup | M_header | M_base | M_C | M_L | M_Lfuse | M_Q | M_QF | M_QP | M_skip | M_N | M_null

record state_mach =
  mjed :: jed_data
  mstate :: jstate
  cur_fuse :: u32
  mglob :: jed_globals

definition goto :: "jstate \<Rightarrow> state_mach \<Rightarrow> state_mach" where
  "goto s m = m\<lparr>mstate := s\<rparr>"

definition m_startup :: "byte \<Rightarrow> state_mach \<Rightarrow> state_mach res" where
  "m_startup ch m =
     (if ch = 2 then Inr (goto M_base m) else if ch = 68 then Inr (goto M_header m) else Inr m)"

text \<open>\<^verbatim>\<open>strchr\<close> finds the first colon of the header string.\<close>

definition m_header :: "byte \<Rightarrow> state_mach \<Rightarrow> state_mach res" where
  "m_header ch m =
     (let g = mglob m
      in if ch = 10 \<or> ch = 13 then
           let ptr = dropWhile (\<lambda>b. b \<noteq> 58) (c_string (m_H_string g) 0);
               m = (if m_H_pos g \<noteq> 0 \<and> ptr \<noteq> [] then m\<lparr>mjed := (mjed m)\<lparr>jdate := strncpy MAX_SIZE ptr\<rparr>\<rparr> else m)
           in Inr (goto M_startup m)
         else rbind (buf_set (m_H_string g) (m_H_pos g) ch) (\<lambda>h.
           Inr (m\<lparr>mglob := g\<lparr>m_H_string := h, m_H_pos := m_H_pos g + 1\<rparr>\<rparr>)))"

definition m_base :: "byte \<Rightarrow> state_mach \<Rightarrow> state_mach res" where
  "m_base ch m =
     (if c_isspace ch then Inr m
      else if ch = 76 then Inr (goto M_L (m\<lparr>cur_fuse := 0\<rparr>))
      else if ch = 81 then Inr (goto M_Q m)
      else if ch = 67 then Inr (goto M_C (m\<lparr>mjed := (mjed m)\<lparr>jchecksum := 0\<rparr>\<rparr>))
      else if ch = 78 then Inr (goto M_N (m\<lparr>mglob := (mglob m)\<lparr>m_N_item := - 1\<rparr>\<rparr>))
      else Inr (goto M_skip m))"

definition m_C :: "byte \<Rightarrow> state_mach \<Rightarrow> state_mach res" where
  "m_C ch m =
     (if c_isspace ch then Inr m
      else if ch = 42 then Inr (goto M_base m)
      else if 48 \<le> ch \<and> ch \<le> 57
        then Inr (m\<lparr>mjed := (mjed m)\<lparr>jchecksum := push_bit 4 (jchecksum (mjed m)) + ucast (ch - 48)\<rparr>\<rparr>)
      else let ch = ch AND 0x5f
           in if 65 \<le> ch \<and> ch \<le> 70
              then Inr (m\<lparr>mjed := (mjed m)\<lparr>jchecksum := push_bit 4 (jchecksum (mjed m)) + ucast (ch - 55)\<rparr>\<rparr>)
              else Inl (IOException ''m_C''))"

definition m_L :: "byte \<Rightarrow> state_mach \<Rightarrow> state_mach res" where
  "m_L ch m =
     (if c_isdigit ch then Inr (m\<lparr>cur_fuse := 10 * cur_fuse m + ucast (ch - 48)\<rparr>)
      else if c_isspace ch then Inr (goto M_Lfuse m)
      else if ch = 42 then Inr (goto M_base m)
      else Inr (goto M_null m))"

definition m_Lfuse :: "byte \<Rightarrow> state_mach \<Rightarrow> state_mach res" where
  "m_Lfuse ch m =
     (if ch = 42 then Inr (goto M_base m)
      else if ch = 48 \<or> ch = 49
        then rbind (jedec_set_fuse (mjed m) (cur_fuse m) (ch = 49)) (\<lambda>jed.
               Inr (m\<lparr>mjed := jed, cur_fuse := cur_fuse m + 1\<rparr>))
      else if ch = 32 \<or> ch = 10 \<or> ch = 13 then Inr m
      else Inr (goto M_null m))"

text \<open>A write to \<^verbatim>\<open>m_N_strings[item][pos]\<close>.\<close>

definition N_store :: "jed_globals \<Rightarrow> byte \<Rightarrow> jed_globals res" where
  "N_store g ch =
     (if m_N_item g < 0 then Inl (OutOfBounds 0)
      else rbind (buf_set (m_N_strings g) (nat (m_N_item g) * MAX_SIZE + m_N_pos g) ch) (\<lambda>s.
        Inr (g\<lparr>m_N_strings := s\<rparr>)))"

definition N_row :: "jed_globals \<Rightarrow> nat \<Rightarrow> byte list" where
  "N_row g i = c_string (m_N_strings g) (i * MAX_SIZE)"

definition m_N :: "byte \<Rightarrow> state_mach \<Rightarrow> state_mach res" where
  "m_N ch m =
     (let g = mglob m
      in if ch = 42 then
           rbind (if strcasecmp_eq (N_row g 0) (ascii ''DEVICE'')
                  then rbind (N_store g 0) (\<lambda>g.
                    Inr (g, (mjed m)\<lparr>jdevice := strncpy MAX_SIZE (N_row g 1)\<rparr>))
                  else Inr (g, mjed m)) (\<lambda>(g, jed).
           rbind (if strcasecmp_eq (N_row g 0) (ascii ''VERSION'')
                  then rbind (N_store g 0) (\<lambda>g.
                    Inr (g, jed\<lparr>jversion := strncpy MAX_SIZE (N_row g 1)\<rparr>))
                  else Inr (g, jed)) (\<lambda>(g, jed).
             Inr (goto M_base (m\<lparr>mjed := jed, mglob := g\<lparr>m_N_item := - 1\<rparr>\<rparr>))))
         else if ch = 32 then
           rbind (if 0 \<le> m_N_item g then N_store g 0 else Inr g) (\<lambda>g.
             Inr (m\<lparr>mglob := g\<lparr>m_N_item := (if m_N_item g < MAX_ITEM then m_N_item g + 1 else m_N_item g),
                              m_N_pos := 0\<rparr>\<rparr>))
         else if ch = 10 \<or> ch = 13 then Inr m
         else
           rbind (if 0 \<le> m_N_item g \<and> m_N_item g < MAX_ITEM \<and> m_N_pos g < MAX_SIZE - 1
                  then N_store g ch else Inr g) (\<lambda>g.
             Inr (m\<lparr>mglob := g\<lparr>m_N_pos := m_N_pos g + 1\<rparr>\<rparr>)))"

definition m_Q :: "byte \<Rightarrow> state_mach \<Rightarrow> state_mach res" where
  "m_Q ch m =
     (if ch = 70 then
        if fuse_count (mjed m) \<noteq> 0 then Inr (goto M_null m) else Inr (goto M_QF m)
      else if ch = 80 then
        if pin_count (mjed m) \<noteq> 0 then Inr (goto M_null m) else Inr (goto M_QP m)
      else Inr (goto M_skip m))"

definition m_QF :: "byte \<Rightarrow> state_mach \<Rightarrow> state_mach res" where
  "m_QF ch m =
     (if c_isspace ch then Inr m
      else if c_isdigit ch
        then Inr (m\<lparr>mjed := (mjed m)\<lparr>fuse_count := 10 * fuse_count (mjed m) + ucast (ch - 48)\<rparr>\<rparr>)
      else if ch = 42
        then Inr (goto M_base (m\<lparr>mjed := (mjed m)\<lparr>fuse_list := Some (allocate_fusemap (fuse_count (mjed m)))\<rparr>\<rparr>))
      else Inl (IOException ''m_QF''))"

definition m_QP :: "byte \<Rightarrow> state_mach \<Rightarrow> state_mach res" where
  "m_QP ch m =
     (if c_isspace ch then Inr m
      else if c_isdigit ch
        then Inr (m\<lparr>mjed := (mjed m)\<lparr>pin_count := 10 * pin_count (mjed m) + ucast (ch - 48)\<rparr>\<rparr>)
      else if ch = 42 then Inr (goto M_base m)
      else Inl (IOException ''m_QP''))"

definition m_skip :: "byte \<Rightarrow> state_mach \<Rightarrow> state_mach res" where
  "m_skip ch m = (if ch = 42 then Inr (goto M_base m) else Inr m)"

text \<open>The call \<^verbatim>\<open>m.state(ch, &m)\<close>.\<close>

definition jed_step :: "byte \<Rightarrow> state_mach \<Rightarrow> state_mach res" where
  "jed_step ch m =
     (case mstate m of
        M_startup \<Rightarrow> m_startup ch m | M_header \<Rightarrow> m_header ch m | M_base \<Rightarrow> m_base ch m
      | M_C \<Rightarrow> m_C ch m | M_L \<Rightarrow> m_L ch m | M_Lfuse \<Rightarrow> m_Lfuse ch m | M_Q \<Rightarrow> m_Q ch m
      | M_QF \<Rightarrow> m_QF ch m | M_QP \<Rightarrow> m_QP ch m | M_skip \<Rightarrow> m_skip ch m | M_N \<Rightarrow> m_N ch m
      | M_null \<Rightarrow> Inl NullPointer)"

text \<open>The loop of \<^verbatim>\<open>readFile\<close>: the machine after the last character or at the first null state.\<close>

fun jed_run :: "state_mach \<Rightarrow> byte list \<Rightarrow> state_mach res" where
  "jed_run m [] = Inr m"
| "jed_run m (ch # s) =
     rbind (jed_step ch m) (\<lambda>m. if mstate m = M_null then Inr m else jed_run m s)"

definition jed_start :: "u32 \<Rightarrow> jed_globals \<Rightarrow> jed_data \<Rightarrow> state_mach" where
  "jed_start junk g jed = \<lparr>mjed = jed, mstate = M_startup, cur_fuse = junk, mglob = g\<rparr>"

text \<open>\<^verbatim>\<open>readFile\<close>: the value returned, the object and the static variables after it.\<close>

definition jed_readFile ::
  "u32 \<Rightarrow> jed_globals \<Rightarrow> jed_data \<Rightarrow> byte list option \<Rightarrow> (nat \<times> jed_data \<times> jed_globals) res" where
  "jed_readFile junk g jed fp =
     (case fp of None \<Rightarrow> Inr (1, jed, g)
      | Some s \<Rightarrow> rbind (jed_run (jed_start junk g jed) s) (\<lambda>m.
          Inr (if mstate m = M_null then 2 else if fuse_count (mjed m) = 0 then 3 else 0, mjed m, mglob m)))"

section \<open>Length and checksum\<close>

text \<open>\<^verbatim>\<open>for (i = f_count; i < fuse_count; i++) set_fuse(i, 0)\<close> with \<open>k\<close> passes left.\<close>

fun clear_fuses :: "nat \<Rightarrow> u32 \<Rightarrow> jed_data \<Rightarrow> jed_data res" where
  "clear_fuses 0 i jed = Inr jed"
| "clear_fuses (Suc k) i jed = rbind (jedec_set_fuse jed i False) (clear_fuses k (i + 1))"

definition jed_setLength :: "u32 \<Rightarrow> jed_data \<Rightarrow> jed_data res" where
  "jed_setLength f_count jed =
     (if fuse_count jed < f_count
      then Inr (jed\<lparr>fuse_list := Some (replicate (nbytes (unat f_count)) 0xff), fuse_count := f_count\<rparr>)
      else rbind (clear_fuses (unat (fuse_count jed) - unat f_count) f_count jed) (\<lambda>jed.
             Inr (jed\<lparr>fuse_count := f_count\<rparr>)))"

text \<open>The sum of the bytes of the fuse list in 16 bits, over \<open>k\<close> bytes from \<open>i\<close>.\<close>

fun sum_bytes :: "byte list \<Rightarrow> nat \<Rightarrow> nat \<Rightarrow> u16 \<Rightarrow> u16 res" where
  "sum_bytes fl i 0 cc = Inr cc"
| "sum_bytes fl i (Suc k) cc = rbind (buf_get fl i) (\<lambda>b. sum_bytes fl (i + 1) k (cc + ucast b))"

definition calcChecksum :: "jed_data \<Rightarrow> u16 res" where
  "calcChecksum jed =
     (let n = nbytes (unat (fuse_count jed))
      in case fuse_list jed of
           None \<Rightarrow> if n = 0 then Inr 0 else Inl NullPointer
         | Some fl \<Rightarrow> sum_bytes fl 0 n 0)"

definition getChecksum :: "jed_data \<Rightarrow> u16" where
  "getChecksum jed = ucast (jchecksum jed)"

section \<open>Writing\<close>

datatype jed_type = JED_XC95X nat | JED_XC2C | JED_XC95

text \<open>The type by device name, with \<^verbatim>\<open>DRegLength\<close> for the XC95X family; \<open>None\<close> is the initial \<open>-1\<close>.\<close>

definition jed_type_of :: "byte list \<Rightarrow> jed_type option" where
  "jed_type_of device =
     (let is = (\<lambda>s n. strncasecmp_eq n (ascii s) device)
      in if is ''XC9536'' 7 then Some JED_XC95
         else if is ''XC9572'' 7 then Some JED_XC95
         else if is ''XC95108'' 8 then Some JED_XC95
         else if is ''XC95144'' 8 then Some JED_XC95
         else if is ''XC95216'' 8 then Some JED_XC95
         else if is ''XC95288'' 8 then Some JED_XC95
         else if is ''XC9536X'' 7 then Some (JED_XC95X 2)
         else if is ''XC9572X'' 7 then Some (JED_XC95X 4)
         else if is ''XC95144X'' 8 then Some (JED_XC95X 8)
         else if is ''XC95288X'' 8 then Some (JED_XC95X 16)
         else if is ''XC2C'' 4 then Some JED_XC2C
         else None)"

definition fuse_char :: "bool \<Rightarrow> byte" where
  "fuse_char v = (if v then 49 else 48)"

definition L_label :: "nat \<Rightarrow> byte list" where
  "L_label i = 76 # pad 48 7 (dec_string i)"

text \<open>The three loops over the fuses, with \<open>k\<close> fuses left.\<close>

fun save_xc95x :: "jed_data \<Rightarrow> nat \<Rightarrow> nat \<Rightarrow> nat \<Rightarrow> nat \<Rightarrow> nat \<Rightarrow> nat \<Rightarrow> byte list res" where
  "save_xc95x jed dreg i 0 b l w = Inr []"
| "save_xc95x jed dreg i (Suc k) b l w =
     rbind (jedec_get_fuse jed (of_nat i)) (\<lambda>v.
       let pre = (if w = 0 \<and> b = 0 then L_label i else []) @ (if b = 0 then [32] else []) @ [fuse_char v];
           b = (if l < 9 then if b = 7 then 0 else b + 1 else if b = 5 then 0 else b + 1);
           post = (if b = 0 \<and> w = dreg - 1 then [42, 10] else []);
           l = (if b = 0 \<and> w = dreg - 1 then l + 1 else l);
           w = (if b = 0 then if w = dreg - 1 then 0 else w + 1 else w);
           l = (if l = 15 then 0 else l)
       in rbind (save_xc95x jed dreg (i + 1) k b l w) (\<lambda>out. Inr (pre @ post @ out)))"

fun save_xc95 :: "jed_data \<Rightarrow> nat \<Rightarrow> nat \<Rightarrow> nat \<Rightarrow> nat \<Rightarrow> byte list res" where
  "save_xc95 jed i 0 b w = Inr []"
| "save_xc95 jed i (Suc k) b w =
     rbind (jedec_get_fuse jed (of_nat i)) (\<lambda>v.
       let pre = (if b = 0 \<and> w mod 5 = 0 then L_label i else []) @ (if b = 0 then [32] else []) @ [fuse_char v];
           last_bit = (if i mod 9072 < 7776 then if w mod 15 < 9 then 7 else 5 else if w mod 5 = 0 then 7 else 6);
           (b, w) = (if b = last_bit then (0, w + 1) else (b + 1, w));
           post = (if b = 0 \<and> w mod 5 = 0 then [42, 10] else [])
       in rbind (save_xc95 jed (i + 1) k b w) (\<lambda>out. Inr (pre @ post @ out)))"

fun save_xc2c :: "jed_data \<Rightarrow> nat \<Rightarrow> nat \<Rightarrow> byte list res" where
  "save_xc2c jed i 0 = Inr []"
| "save_xc2c jed i (Suc k) =
     rbind (jedec_get_fuse jed (of_nat i)) (\<lambda>v.
     rbind (save_xc2c jed (i + 1) k) (\<lambda>out.
       Inr ((if i mod 64 = 0 then L_label i @ [32] else []) @ [fuse_char v] @
            (if i mod 64 = 63 then [42, 10] else []) @ out)))"

definition save_fuses :: "jed_type option \<Rightarrow> jed_data \<Rightarrow> byte list res" where
  "save_fuses type jed =
     (let n = unat (fuse_count jed)
      in case type of
           None \<Rightarrow> Inr []
         | Some (JED_XC95X dreg) \<Rightarrow> save_xc95x jed dreg 0 n 0 0 0
         | Some JED_XC95 \<Rightarrow> save_xc95 jed 0 n 0 0
         | Some JED_XC2C \<Rightarrow> rbind (save_xc2c jed 0 n) (\<lambda>out. Inr (out @ [42, 10])))"

text \<open>
  The lines in front of the fuses; \<open>now\<close> is the text of \<^verbatim>\<open>strftime\<close>, \<open>None\<close> when there is none.
\<close>

definition jed_date_line :: "byte list option \<Rightarrow> jed_data \<Rightarrow> byte list" where
  "jed_date_line now jed =
     (if c_string (jdate jed) 0 = []
      then case now of None \<Rightarrow> [] | Some t \<Rightarrow> ascii ''Date Extracted: '' @ t @ [10, 10]
      else ascii ''Date Extracted'' @ c_string (jdate jed) 0 @ [10, 10])"

definition jed_head :: "byte list \<Rightarrow> jed_data \<Rightarrow> byte list" where
  "jed_head device jed =
     2 # ascii ''QF'' @ dec_string (unat (fuse_count jed)) @ [42, 10] @
     ascii ''QV0*'' @ [10] @ ascii ''F0*'' @ [10] @ ascii ''X0*'' @ [10] @ ascii ''J0 0*'' @ [10] @
     ascii ''N VERSION '' @ (if c_string (jversion jed) 0 = [] then ascii ''XC3SPROG'' else c_string (jversion jed) 0) @ [42, 10] @
     ascii ''N DEVICE '' @ device @ [42, 10]"

definition saveAsJed :: "byte list option \<Rightarrow> byte list \<Rightarrow> jed_data \<Rightarrow> byte list res" where
  "saveAsJed now device jed =
     rbind (save_fuses (jed_type_of device) jed) (\<lambda>fuses.
     rbind (calcChecksum jed) (\<lambda>chksum.
       Inr (jed_date_line now jed @ jed_head device jed @ fuses @
            67 # print_hex True 4 (unat chksum) @ [42, 10, 3] @ ascii ''0000'' @ [10])))"

end
