(* ===== verification/JedecFuses.thy ===== *)
theory JedecFuses
  imports Jedec
begin

text \<open>
  Single fuses and sequences of fuses of a JEDEC file: what \<^verbatim>\<open>set_fuse\<close>, \<^verbatim>\<open>get_fuse\<close> and
  \<^verbatim>\<open>setLength\<close> do to the fuse map.
\<close>

lemma set_fuse_ok:
  assumes "fuse_list jed = Some fl" and "i < unat (fuse_count jed)" and "nbytes (unat (fuse_count jed)) \<le> length fl"
  shows "jedec_set_fuse jed (of_nat i) v = Inr (jed\<lparr>fuse_list := Some (buf_put fl i v)\<rparr>)"
    and "jedec_get_fuse jed (of_nat i) = Inr (buf_bit fl i)"
proof -
  have "unat (fuse_count jed) < 2 ^ LENGTH(32)" by (rule unsigned_less)
  then have "i < 2 ^ 32" using assms(2) by simp
  then have i: "unat (of_nat i :: u32) = i" by (simp add: unsigned_of_nat take_bit_eq_mod)
  then have lt: "\<not> fuse_count jed \<le> of_nat i" using assms(2) by (simp add: word_le_nat_alt)
  have b: "i div 8 < length fl" using assms(3) nbytes_index [OF assms(2)] by simp
  show "jedec_set_fuse jed (of_nat i) v = Inr (jed\<lparr>fuse_list := Some (buf_put fl i v)\<rparr>)"
    using assms(1) i lt b by (simp add: jedec_set_fuse_def buf_get_in buf_set_in buf_put_def)
  show "jedec_get_fuse jed (of_nat i) = Inr (buf_bit fl i)"
    using assms(1) i lt b by (simp add: jedec_get_fuse_def buf_get_in buf_bit_def)
qed

definition jed_ok :: "nat \<Rightarrow> jed_data \<Rightarrow> bool" where
  "jed_ok n jed \<longleftrightarrow> unat (fuse_count jed) = n \<and> (\<exists>fl. fuse_list jed = Some fl \<and> nbytes n \<le> length fl)"

lemma set_fuse_effect:
  assumes "jed_ok n jed" "i < n"
  shows "\<exists>jed'. jedec_set_fuse jed (of_nat i) v = Inr jed' \<and> jed_ok n jed' \<and>
    (\<forall>k < n. jedec_get_fuse jed' (of_nat k) = (if k = i then Inr v else jedec_get_fuse jed (of_nat k)))"
proof -
  obtain fl where fl: "fuse_list jed = Some fl" "nbytes n \<le> length fl" "unat (fuse_count jed) = n"
    using assms(1) by (auto simp: jed_ok_def)
  let ?jed = "jed\<lparr>fuse_list := Some (buf_put fl i v)\<rparr>"
  have "jedec_set_fuse jed (of_nat i) v = Inr ?jed"
    using set_fuse_ok(1) [of jed fl i v] fl assms(2) by simp
  moreover have "jed_ok n ?jed" using fl by (simp add: jed_ok_def)
  moreover have "jedec_get_fuse ?jed (of_nat k) = (if k = i then Inr v else jedec_get_fuse jed (of_nat k))" if "k < n" for k
  proof -
    have "i div 8 < length fl" using nbytes_index [OF assms(2)] fl(2) by simp
    then show ?thesis
      using set_fuse_ok(2) [of ?jed "buf_put fl i v" k] set_fuse_ok(2) [of jed fl k] fl that
      by (simp add: buf_bit_put)
  qed
  ultimately show ?thesis by blast
qed

lemma clear_fuses_effect:
  assumes "jed_ok n jed" "i + k \<le> n"
  shows "\<exists>jed'. clear_fuses k (of_nat i) jed = Inr jed' \<and> jed_ok n jed' \<and>
    (\<forall>j < i. jedec_get_fuse jed' (of_nat j) = jedec_get_fuse jed (of_nat j))"
  using assms
proof (induction k arbitrary: i jed)
  case (Suc k)
  obtain j1 where j1: "jedec_set_fuse jed (of_nat i) False = Inr j1" "jed_ok n j1"
    "\<And>k. k < n \<Longrightarrow> jedec_get_fuse j1 (of_nat k) = (if k = i then Inr False else jedec_get_fuse jed (of_nat k))"
    using set_fuse_effect [OF Suc.prems(1), of i False] Suc.prems(2) by auto
  obtain j2 where j2: "clear_fuses k (of_nat (Suc i)) j1 = Inr j2" "jed_ok n j2"
    "\<And>j. j < Suc i \<Longrightarrow> jedec_get_fuse j2 (of_nat j) = jedec_get_fuse j1 (of_nat j)"
    using Suc.IH [OF j1(2), of "Suc i"] Suc.prems(2) by auto
  have "(of_nat i :: u32) + 1 = of_nat (Suc i)" by simp
  then have "clear_fuses (Suc k) (of_nat i) jed = Inr j2"
    using j1(1) j2(1) by (simp only: clear_fuses.simps rbind_simps)
  then show ?case using j1(3) j2(2,3) Suc.prems(2) by auto
qed auto

lemma get_fuse_shorter:
  assumes "jed_ok n jed" "m \<le> n" "k < m"
  shows "jedec_get_fuse (jed\<lparr>fuse_count := of_nat m\<rparr>) (of_nat k) = jedec_get_fuse jed (of_nat k)"
proof -
  obtain fl where fl: "fuse_list jed = Some fl" "nbytes n \<le> length fl" "unat (fuse_count jed) = n"
    using assms(1) by (auto simp: jed_ok_def)
  have "n < 2 ^ LENGTH(32)" unfolding fl(3) [symmetric] by (rule unsigned_less)
  then have m: "unat (of_nat m :: u32) = m" using assms(2) by (simp add: unsigned_of_nat take_bit_eq_mod)
  have "nbytes m \<le> nbytes n" using assms(2) nbytes_bound [of m] nbytes_bound [of n] by linarith
  then show ?thesis
    using set_fuse_ok(2) [of "jed\<lparr>fuse_count := of_nat m\<rparr>" fl k] set_fuse_ok(2) [of jed fl k] fl assms m
    by simp
qed

lemma setLength_shorter:
  assumes "jed_ok n jed" "m \<le> n"
  shows "\<exists>jed'. jed_setLength (of_nat m) jed = Inr jed' \<and> fuse_count jed' = of_nat m \<and>
    (\<forall>k < m. jedec_get_fuse jed' (of_nat k) = jedec_get_fuse jed (of_nat k))"
proof -
  have n: "unat (fuse_count jed) = n" using assms(1) by (simp add: jed_ok_def)
  have "n < 2 ^ LENGTH(32)" unfolding n [symmetric] by (rule unsigned_less)
  then have m: "unat (of_nat m :: u32) = m" using assms(2) by (simp add: unsigned_of_nat take_bit_eq_mod)
  then have le: "\<not> fuse_count jed < of_nat m" using n assms(2) by (simp add: word_less_nat_alt)
  obtain j where "clear_fuses (n - m) (of_nat m) jed = Inr j" "jed_ok n j"
    "\<And>k. k < m \<Longrightarrow> jedec_get_fuse j (of_nat k) = jedec_get_fuse jed (of_nat k)"
    using clear_fuses_effect [OF assms(1), of m "n - m"] assms(2) by auto
  then show ?thesis
    using get_fuse_shorter [of n j m] assms(2) le n m by (auto simp: jed_setLength_def)
qed

lemma setLength_fresh:
  assumes "0 < n" "n < 2 ^ 32"
  shows "\<exists>jed. jed_setLength (of_nat n) (jed_init junk) = Inr jed \<and> jed_ok n jed \<and>
    map_option length (fuse_list jed) = Some (nbytes n) \<and>
    jversion jed = jversion (jed_init junk) \<and> jdate jed = jdate (jed_init junk)"
proof -
  have n: "unat (of_nat n :: u32) = n" using assms(2) by (simp add: unsigned_of_nat take_bit_eq_mod)
  then have "fuse_count (jed_init junk) < of_nat n"
    using assms(1) by (simp add: word_less_nat_alt jed_init_def Let_def)
  then show ?thesis by (simp add: jed_setLength_def jed_ok_def n)
qed

end
