(* ===== verification/JedecProps.thy ===== *)
theory JedecProps
  imports JedecFuses
begin

text \<open>
  The JEDEC writer and reader together: what the state machine does with the pieces of text
  that \<^verbatim>\<open>saveAsJed\<close> prints, and the round trip.
\<close>

section \<open>Runs of the state machine\<close>

lemma jed_run_step:
  "jed_step ch m = Inr m' \<Longrightarrow> mstate m' \<noteq> M_null \<Longrightarrow> jed_run m (ch # s) = jed_run m' s"
  by simp

lemma goto_simps [simp]:
  "mstate (goto s m) = s" "mjed (goto s m) = mjed m" "mglob (goto s m) = mglob m" "cur_fuse (goto s m) = cur_fuse m"
  by (simp_all add: goto_def)

definition digits_value :: "u32 \<Rightarrow> byte list \<Rightarrow> u32" where
  "digits_value = foldl (\<lambda>a ch. 10 * a + ucast (ch - 48))"

lemma digits_value_dec: "digits_value 0 (dec_string n) = of_nat n"
proof (induction n rule: dec_string.induct)
  case (1 n)
  show ?case
  proof (cases "n < 10")
    case True
    then show ?thesis using digit_byte(1) [of n] by (subst dec_string.simps) (simp add: digits_value_def)
  next
    case False
    have "(of_nat (10 * (n div 10) + n mod 10) :: u32) = 10 * of_nat (n div 10) + of_nat (n mod 10)"
      by (simp only: of_nat_add of_nat_mult of_nat_numeral)
    then have "(of_nat n :: u32) = 10 * of_nat (n div 10) + of_nat (n mod 10)" by simp
    with False 1 digit_byte(1) [of "n mod 10"] show ?thesis
      by (subst dec_string.simps) (simp add: digits_value_def)
  qed
qed

lemma digits_value_pad: "digits_value 0 (pad 48 w s) = digits_value 0 s"
proof -
  have "digits_value 0 (replicate k 48 @ s) = digits_value 0 s" for k
    by (induction k) (simp_all add: digits_value_def)
  then show ?thesis by (simp add: pad_def)
qed

lemma pad_digits: "list_all (\<lambda>b. c_isdigit b \<and> \<not> c_isspace b) (pad 48 w (dec_string n))"
  using dec_string_digits [of n] by (auto simp: pad_def list_all_iff c_isdigit_def c_isspace_def)

lemma run_L_digits:
  assumes "list_all (\<lambda>b. c_isdigit b \<and> \<not> c_isspace b) ds" and "mstate m = M_L"
  shows "jed_run m (ds @ s) = jed_run (m\<lparr>cur_fuse := digits_value (cur_fuse m) ds\<rparr>) s"
  using assms
  by (induction ds arbitrary: m) (simp_all add: digits_value_def jed_step_def m_L_def)

lemma run_QF_digits:
  assumes "list_all (\<lambda>b. c_isdigit b \<and> \<not> c_isspace b) ds" and "mstate m = M_QF"
  shows "jed_run m (ds @ s) =
    jed_run (m\<lparr>mjed := (mjed m)\<lparr>fuse_count := digits_value (fuse_count (mjed m)) ds\<rparr>\<rparr>) s"
  using assms
  by (induction ds arbitrary: m) (simp_all add: digits_value_def jed_step_def m_QF_def)

section \<open>Fuses\<close>

text \<open>
  The reader between two fuses: at the start of a line in the base state, else inside a line
  with the number of the next fuse.
\<close>

definition fuse_ready :: "bool \<Rightarrow> nat \<Rightarrow> state_mach \<Rightarrow> bool" where
  "fuse_ready start i m \<longleftrightarrow> (if start then mstate m = M_base else mstate m = M_Lfuse \<and> cur_fuse m = of_nat i)"

definition after_fuse :: "bool \<Rightarrow> nat \<Rightarrow> byte list \<Rightarrow> state_mach \<Rightarrow> state_mach" where
  "after_fuse fin i fl m = m\<lparr>mjed := (mjed m)\<lparr>fuse_list := Some fl\<rparr>,
     mstate := (if fin then M_base else M_Lfuse), cur_fuse := of_nat (i + 1)\<rparr>"

lemma fuse_ready_after: "fuse_ready fin (i + 1) (after_fuse fin i fl m)"
  by (simp add: fuse_ready_def after_fuse_def)

lemma run_fuse:
  assumes "fuse_ready start i m" and "start \<longrightarrow> space"
    and "fuse_list (mjed m) = Some fl" and "i < unat (fuse_count (mjed m))" and "length fl = nbytes (unat (fuse_count (mjed m)))"
  shows "jed_run m ((if start then L_label i else []) @ (if space then [32] else []) @ [fuse_char v] @
      (if fin then [42, 10] else []) @ r) = jed_run (after_fuse fin i (buf_put fl i v) m) r"
proof -
  define m1 where "m1 = (if start then m\<lparr>mstate := M_L, cur_fuse := of_nat i\<rparr> else m)"
  define m2 where "m2 = m\<lparr>cur_fuse := of_nat i, mstate := M_Lfuse\<rparr>"
  have "jed_run m ((if start then L_label i else []) @ s) = jed_run m1 s" for s
  proof (cases start)
    case True
    then have "mstate m = M_base" using assms(1) by (simp add: fuse_ready_def)
    then have "jed_run m (L_label i @ s) = jed_run (goto M_L (m\<lparr>cur_fuse := 0\<rparr>)) (pad 48 7 (dec_string i) @ s)"
      by (simp add: L_label_def jed_step_def m_base_def c_isspace_def)
    also have "\<dots> = jed_run m1 s"
      by (subst run_L_digits) (simp_all add: pad_digits digits_value_pad digits_value_dec m1_def True goto_def)
    finally show ?thesis using True by simp
  qed (simp add: m1_def)
  moreover have "jed_run m1 ((if space then [32] else []) @ s) = jed_run m2 s" for s
  proof (cases start)
    case True
    then show ?thesis
      using assms(1,2)
      by (simp add: m1_def m2_def fuse_ready_def jed_step_def m_L_def c_isdigit_def c_isspace_def goto_def)
  next
    case False
    then have "m2 = m" "m1 = m" "mstate m = M_Lfuse"
      using assms(1) by (cases m; simp add: m1_def m2_def fuse_ready_def)+
    then show ?thesis by (simp add: jed_step_def m_Lfuse_def)
  qed
  moreover have "jed_run m2 (fuse_char v # s) = jed_run (after_fuse False i (buf_put fl i v) m) s" for s
    using set_fuse_ok(1) [OF assms(3,4) eq_imp_le [OF assms(5) [symmetric]], of v]
    by (cases v; cases m) (simp_all add: m2_def jed_step_def m_Lfuse_def fuse_char_def after_fuse_def add.commute [of "of_nat i" 1])
  moreover have "jed_run (after_fuse False i fl' m) ((if fin then [42, 10] else []) @ r) = jed_run (after_fuse fin i fl' m) r" for fl'
    by (cases m) (simp add: after_fuse_def jed_step_def m_Lfuse_def m_base_def c_isspace_def goto_def)
  ultimately show ?thesis by simp
qed

text \<open>
  The reader after \<open>i\<close> of \<open>n\<close> fuses: \<open>m0\<close> is the machine before the first one, and the fuses read
  so far are those of \<open>fl\<close>, the others zero.
\<close>

definition fuses_read :: "byte list \<Rightarrow> nat \<Rightarrow> nat \<Rightarrow> byte list \<Rightarrow> bool" where
  "fuses_read fl n i fl' \<longleftrightarrow> length fl' = nbytes n \<and> (\<forall>k < 8 * nbytes n. buf_bit fl' k \<longleftrightarrow> k < i \<and> buf_bit fl k)"

definition reading :: "byte list \<Rightarrow> nat \<Rightarrow> bool \<Rightarrow> nat \<Rightarrow> state_mach \<Rightarrow> state_mach \<Rightarrow> bool" where
  "reading fl n start i m0 m \<longleftrightarrow> fuse_ready start i m \<and> mglob m = mglob m0 \<and>
     (\<exists>fl'. mjed m = (mjed m0)\<lparr>fuse_list := Some fl'\<rparr> \<and> fuses_read fl n i fl')"

definition fuse_text :: "bool \<Rightarrow> bool \<Rightarrow> bool \<Rightarrow> nat \<Rightarrow> bool \<Rightarrow> byte list" where
  "fuse_text start space fin i v =
     (if start then L_label i else []) @ (if space then [32] else []) @ [fuse_char v] @ (if fin then [42, 10] else [])"

lemma reading_fuse:
  assumes "reading fl n start i m0 m" and "start \<longrightarrow> space" and "i < n" and "unat (fuse_count (mjed m0)) = n"
  shows "\<exists>m'. reading fl n fin (i + 1) m0 m' \<and>
    (\<forall>r. jed_run m (fuse_text start space fin i (buf_bit fl i) @ r) = jed_run m' r)"
proof -
  obtain fl' where m: "fuse_ready start i m" "mglob m = mglob m0" "mjed m = (mjed m0)\<lparr>fuse_list := Some fl'\<rparr>"
    "fuses_read fl n i fl'"
    using assms(1) by (auto simp: reading_def)
  let ?m = "after_fuse fin i (buf_put fl' i (buf_bit fl i)) m"
  have "i div 8 < length fl'" using assms(3) m(4) nbytes_index by (simp add: fuses_read_def)
  then have "fuses_read fl n (i + 1) (buf_put fl' i (buf_bit fl i))"
    using m(4) by (auto simp: fuses_read_def buf_bit_put)
  then have "reading fl n fin (i + 1) m0 ?m"
    using m(2,3) fuse_ready_after [of fin i _ m] by (auto simp: reading_def after_fuse_def)
  moreover have "\<forall>r. jed_run m (fuse_text start space fin i (buf_bit fl i) @ r) = jed_run ?m r"
    using run_fuse [OF m(1) assms(2), of fl' "buf_bit fl i"] m(3,4) assms(3,4)
    by (simp add: fuse_text_def fuses_read_def)
  ultimately show ?thesis by blast
qed

text \<open>Where the three layouts stand after \<open>k\<close> more fuses: at the start of a line?\<close>

fun xc95x_start :: "nat \<Rightarrow> nat \<Rightarrow> nat \<Rightarrow> nat \<Rightarrow> nat \<Rightarrow> bool" where
  "xc95x_start dreg 0 b l w = (w = 0 \<and> b = 0)"
| "xc95x_start dreg (Suc k) b l w =
     (let b = (if l < 9 then if b = 7 then 0 else b + 1 else if b = 5 then 0 else b + 1);
          l = (if b = 0 \<and> w = dreg - 1 then l + 1 else l);
          w = (if b = 0 then if w = dreg - 1 then 0 else w + 1 else w);
          l = (if l = 15 then 0 else l)
      in xc95x_start dreg k b l w)"

fun xc95_start :: "nat \<Rightarrow> nat \<Rightarrow> nat \<Rightarrow> nat \<Rightarrow> bool" where
  "xc95_start i 0 b w = (b = 0 \<and> w mod 5 = 0)"
| "xc95_start i (Suc k) b w =
     (let last_bit = (if i mod 9072 < 7776 then if w mod 15 < 9 then 7 else 5 else if w mod 5 = 0 then 7 else 6);
          (b, w) = (if b = last_bit then (0, w + 1) else (b + 1, w))
      in xc95_start (i + 1) k b w)"

lemma get_fuse_nth:
  assumes "fuse_list jed = Some fl" "unat (fuse_count jed) = n" "length fl = nbytes n"
  shows "i < n \<Longrightarrow> jedec_get_fuse jed (of_nat i) = Inr (buf_bit fl i)"
  using set_fuse_ok(2) [of jed fl i] assms by simp

lemma run_save_xc2c:
  assumes "fuse_list jed = Some fl" "unat (fuse_count jed) = n" "length fl = nbytes n"
    and "unat (fuse_count (mjed m0)) = n" "i + k = n" "reading fl n (i mod 64 = 0) i m0 m"
  shows "\<exists>out m'. save_xc2c jed i k = Inr out \<and> reading fl n (n mod 64 = 0) n m0 m' \<and>
    (\<forall>r. jed_run m (out @ r) = jed_run m' r)"
  using assms(5,6)
proof (induction k arbitrary: i m)
  case 0
  then show ?case by auto
next
  case (Suc k)
  have i: "i < n" using Suc.prems(1) by simp
  have fin: "(Suc i mod 64 = 0) = (i mod 64 = 63)" by (simp add: mod_Suc)
  obtain m1 where m1: "reading fl n (Suc i mod 64 = 0) (i + 1) m0 m1"
    "\<And>r. jed_run m (fuse_text (i mod 64 = 0) (i mod 64 = 0) (Suc i mod 64 = 0) i (buf_bit fl i) @ r) = jed_run m1 r"
    using reading_fuse [OF Suc.prems(2) _ i assms(4)] by blast
  obtain out m' where "save_xc2c jed (Suc i) k = Inr out" "reading fl n (n mod 64 = 0) n m0 m'"
    "\<And>r. jed_run m1 (out @ r) = jed_run m' r"
    using Suc.IH [of "Suc i" m1] Suc.prems(1) m1(1) by auto
  then show ?case
    using m1(2) get_fuse_nth [OF assms(1-3) i]
    by (intro exI [of _ "fuse_text (i mod 64 = 0) (i mod 64 = 0) (Suc i mod 64 = 0) i (buf_bit fl i) @ out"] exI [of _ m'])
       (simp add: fuse_text_def fin)
qed

lemma run_save_xc95x:
  assumes "fuse_list jed = Some fl" "unat (fuse_count jed) = n" "length fl = nbytes n"
    and "unat (fuse_count (mjed m0)) = n" "i + k = n" "reading fl n (w = 0 \<and> b = 0) i m0 m"
  shows "\<exists>out m'. save_xc95x jed dreg i k b l w = Inr out \<and> reading fl n (xc95x_start dreg k b l w) n m0 m' \<and>
    (\<forall>r. jed_run m (out @ r) = jed_run m' r)"
  using assms(5,6)
proof (induction k arbitrary: i m b l w)
  case 0
  then show ?case by auto
next
  case (Suc k)
  have i: "i < n" using Suc.prems(1) by simp
  define b' where "b' = (if l < 9 then if b = 7 then 0 else b + 1 else if b = 5 then 0 else b + 1)"
  define w' where "w' = (if b' = 0 then if w = dreg - 1 then 0 else w + 1 else w)"
  define l1 where "l1 = (if b' = 0 \<and> w = dreg - 1 then l + 1 else l)"
  define l' where "l' = (if l1 = 15 then 0 else l1)"
  define fin where "fin = (w' = 0 \<and> b' = 0)"
  have fin: "fin = (b' = 0 \<and> w = dreg - 1)" by (auto simp: fin_def w'_def)
  define tx where "tx = fuse_text (w = 0 \<and> b = 0) (b = 0) fin i (buf_bit fl i)"
  obtain m1 where m1: "reading fl n fin (i + 1) m0 m1" "\<And>r. jed_run m (tx @ r) = jed_run m1 r"
    unfolding tx_def using reading_fuse [OF Suc.prems(2) _ i assms(4), of "b = 0" fin] by blast
  obtain out m' where o: "save_xc95x jed dreg (i + 1) k b' l' w' = Inr out"
    "reading fl n (xc95x_start dreg k b' l' w') n m0 m'" "\<And>r. jed_run m1 (out @ r) = jed_run m' r"
    using Suc.IH [of "i + 1" w' b' m1 l'] Suc.prems(1) m1(1) by (auto simp: fin_def)
  have "save_xc95x jed dreg i (Suc k) b l w = Inr (tx @ out)"
    unfolding save_xc95x.simps get_fuse_nth [OF assms(1-3) i] rbind_simps Let_def b'_def [symmetric]
    unfolding w'_def [symmetric] l1_def [symmetric] unfolding l'_def [symmetric] o rbind_simps fin [symmetric]
    by (simp add: tx_def fuse_text_def)
  moreover have "xc95x_start dreg (Suc k) b l w = xc95x_start dreg k b' l' w'"
    unfolding xc95x_start.simps Let_def b'_def [symmetric]
    unfolding w'_def [symmetric] l1_def [symmetric] unfolding l'_def [symmetric] ..
  ultimately show ?case using o(2,3) m1(2) by (intro exI [of _ "tx @ out"] exI [of _ m']) simp
qed

lemma run_save_xc95:
  assumes "fuse_list jed = Some fl" "unat (fuse_count jed) = n" "length fl = nbytes n"
    and "unat (fuse_count (mjed m0)) = n" "i + k = n" "reading fl n (b = 0 \<and> w mod 5 = 0) i m0 m"
  shows "\<exists>out m'. save_xc95 jed i k b w = Inr out \<and> reading fl n (xc95_start i k b w) n m0 m' \<and>
    (\<forall>r. jed_run m (out @ r) = jed_run m' r)"
  using assms(5,6)
proof (induction k arbitrary: i m b w)
  case 0
  then show ?case by auto
next
  case (Suc k)
  have i: "i < n" using Suc.prems(1) by simp
  define e :: nat where "e = (if i mod 9072 < 7776 then if w mod 15 < 9 then 7 else 5 else if w mod 5 = 0 then 7 else 6)"
  obtain b' w' where bw: "(if b = e then (0, w + 1) else (b + 1, w)) = (b', w')" by fastforce
  define tx where "tx = fuse_text (b = 0 \<and> w mod 5 = 0) (b = 0) (b' = 0 \<and> w' mod 5 = 0) i (buf_bit fl i)"
  obtain m1 where m1: "reading fl n (b' = 0 \<and> w' mod 5 = 0) (i + 1) m0 m1" "\<And>r. jed_run m (tx @ r) = jed_run m1 r"
    unfolding tx_def using reading_fuse [OF Suc.prems(2) _ i assms(4), of "b = 0"] by blast
  obtain out m' where o: "save_xc95 jed (i + 1) k b' w' = Inr out"
    "reading fl n (xc95_start (i + 1) k b' w') n m0 m'" "\<And>r. jed_run m1 (out @ r) = jed_run m' r"
    using Suc.IH [of "i + 1" b' w' m1] Suc.prems(1) m1(1) by auto
  have "save_xc95 jed i (Suc k) b w = Inr (tx @ out)"
    unfolding save_xc95.simps get_fuse_nth [OF assms(1-3) i] rbind_simps Let_def e_def [symmetric] bw prod.case o
    by (simp add: tx_def fuse_text_def)
  moreover have "xc95_start i (Suc k) b w = xc95_start (i + 1) k b' w'"
    unfolding xc95_start.simps Let_def e_def [symmetric] bw by simp
  ultimately show ?case using o(2,3) m1(2) by (intro exI [of _ "tx @ out"] exI [of _ m']) simp
qed

section \<open>The lines in front of the fuses\<close>

definition splice :: "byte list \<Rightarrow> nat \<Rightarrow> byte list \<Rightarrow> byte list" where
  "splice xs a s = take a xs @ s @ drop (a + length s) xs"

lemma splice_simps:
  "splice xs a [] = xs"
  "a < length xs \<Longrightarrow> splice xs a (c # s) = splice (xs[a := c]) (Suc a) s"
  by (simp_all add: splice_def take_Suc_conv_app_nth)

lemma length_splice [simp]: "a + length s \<le> length xs \<Longrightarrow> length (splice xs a s) = length xs"
  by (simp add: splice_def)

lemma splice_snoc:
  "a + length s < length xs \<Longrightarrow> (splice xs a s)[a + length s := c] = splice xs a (s @ [c])"
  by (simp add: splice_def list_update_append nth_append Cons_nth_drop_Suc [symmetric])

lemma has_string_splice:
  assumes "a + length s < length xs" "0 \<notin> set s"
  shows "has_string (splice xs a (s @ [0])) a s"
  using assms by (simp add: has_string_def splice_def)

lemma has_string_splice_other:
  assumes "has_string xs a t" "a + length t < b" "b + length s \<le> length xs"
  shows "has_string (splice xs b s) a t"
proof -
  have "take (length t + 1) (drop a (splice xs b s)) = take (length t + 1) (drop a xs)"
    using assms(2,3) by (simp add: splice_def take_drop min_def)
  then show ?thesis using assms(1) by (simp add: has_string_def)
qed

definition note_word :: "byte list \<Rightarrow> bool" where
  "note_word s \<longleftrightarrow> set s \<inter> {0, 10, 13, 32, 42} = {} \<and> length s < 255"

lemma c_string_strncpy_fits: "0 \<notin> set s \<Longrightarrow> length s < MAX_SIZE \<Longrightarrow> c_string (strncpy MAX_SIZE s) 0 = s"
  by (rule c_string_has_string) (auto simp: has_string_def strncpy_def take_Cons' Suc_diff_le)

lemma c_string_strncpy: "note_word s \<Longrightarrow> c_string (strncpy MAX_SIZE s) 0 = s"
  by (rule c_string_strncpy_fits) (auto simp: note_word_def MAX_SIZE_def)

lemma run_N_word:
  assumes "mstate m = M_N" "m_N_item (mglob m) = int it" "it < 8" "length (m_N_strings (mglob m)) = 2048"
    and "m_N_pos (mglob m) + length s \<le> 255" "set s \<inter> {10, 13, 32, 42} = {}"
  shows "jed_run m (s @ r) = jed_run (m\<lparr>mglob := (mglob m)
     \<lparr>m_N_strings := splice (m_N_strings (mglob m)) (it * 256 + m_N_pos (mglob m)) s,
      m_N_pos := m_N_pos (mglob m) + length s\<rparr>\<rparr>) r"
  using assms
proof (induction s arbitrary: m)
  case Nil
  then show ?case by (simp add: splice_simps)
next
  case (Cons c s)
  define g where "g = mglob m"
  define a where "a = it * 256 + m_N_pos g"
  define m' where "m' = m\<lparr>mglob := g\<lparr>m_N_strings := (m_N_strings g)[a := c], m_N_pos := m_N_pos g + 1\<rparr>\<rparr>"
  have a: "a < length (m_N_strings g)" using Cons.prems by (simp add: a_def g_def)
  have "jed_step c m = Inr m'"
    using Cons.prems a
    by (simp add: jed_step_def m_N_def Let_def N_store_def buf_set_in MAX_ITEM_def MAX_SIZE_def m'_def a_def g_def)
  moreover have "mstate m' \<noteq> M_null" using Cons.prems(1) by (simp add: m'_def)
  ultimately have "jed_run m ((c # s) @ r) = jed_run m' (s @ r)"
    using jed_run_step by simp
  also have "\<dots> = jed_run (m'\<lparr>mglob := (mglob m')
     \<lparr>m_N_strings := splice (m_N_strings (mglob m')) (it * 256 + m_N_pos (mglob m')) s,
      m_N_pos := m_N_pos (mglob m') + length s\<rparr>\<rparr>) r"
    using Cons.prems by (intro Cons.IH) (simp_all add: m'_def g_def)
  finally show ?case
    using a by (simp add: m'_def splice_simps(2) [OF a[unfolded a_def]] g_def [symmetric] a_def)
qed

text \<open>A machine in the base state whose string table has its full size.\<close>

definition at_base :: "jed_data \<Rightarrow> state_mach \<Rightarrow> bool" where
  "at_base jed m \<longleftrightarrow> mstate m = M_base \<and> mjed m = jed \<and> length (m_N_strings (mglob m)) = 2048"

lemma N_store_zero:
  assumes "m_N_item g = int it" "it < 8" "m_N_pos g < 256" "length (m_N_strings g) = 2048"
  shows "N_store g 0 = Inr (g\<lparr>m_N_strings := (m_N_strings g)[it * 256 + m_N_pos g := 0]\<rparr>)"
  using assms by (simp add: N_store_def MAX_SIZE_def buf_set_in)

lemma run_note:
  assumes "at_base jed m" "note_word key" "note_word val"
  shows "\<exists>m5. mstate m5 = M_N \<and> mjed m5 = jed \<and> length (m_N_strings (mglob m5)) = 2048 \<and>
    m_N_item (mglob m5) = 1 \<and> m_N_pos (mglob m5) = length val \<and> N_row (mglob m5) 0 = key \<and>
    (\<exists>S. length S = 2048 \<and> has_string S 0 key \<and> m_N_strings (mglob m5) = splice S 256 val) \<and>
    (\<forall>r. jed_run m ([78, 32] @ key @ [32] @ val @ r) = jed_run m5 r)"
proof -
  note m = assms(1)[unfolded at_base_def]
  note w = assms(2,3)[unfolded note_word_def]
  define g where "g = mglob m"
  define S where "S = m_N_strings g"
  define m2 where "m2 = m\<lparr>mstate := M_N, mglob := g\<lparr>m_N_item := 0, m_N_pos := 0\<rparr>\<rparr>"
  define m3 where "m3 = m2\<lparr>mglob := (mglob m2)\<lparr>m_N_strings := splice S 0 key, m_N_pos := length key\<rparr>\<rparr>"
  define S4 where "S4 = splice S 0 (key @ [0])"
  define m4 where "m4 = m3\<lparr>mglob := (mglob m3)\<lparr>m_N_strings := S4, m_N_item := 1, m_N_pos := 0\<rparr>\<rparr>"
  define m5 where "m5 = m4\<lparr>mglob := (mglob m4)\<lparr>m_N_strings := splice S4 256 val, m_N_pos := length val\<rparr>\<rparr>"
  have l: "length S = 2048" using m by (simp add: S_def g_def)
  have 2: "jed_run m ([78, 32] @ s) = jed_run m2 s" for s
    using m by (simp add: jed_step_def m_base_def c_isspace_def m_N_def m2_def g_def goto_def MAX_ITEM_def)
  have 3: "jed_run m2 (key @ s) = jed_run m3 s" for s
    using run_N_word [of m2 0 key s] w(1) l by (simp add: m2_def m3_def S_def g_def) 
  have "(splice S 0 key)[0 + length key := 0] = S4"
    unfolding S4_def using w(1) l by (intro splice_snoc) simp
  moreover have l3: "length (m_N_strings (mglob m3)) = 2048" using w(1) l by (simp add: m3_def)
  ultimately have "jed_step 32 m3 = Inr m4"
    using w(1) N_store_zero [of "mglob m3" 0]
    by (simp add: jed_step_def m_N_def Let_def m3_def m2_def m4_def MAX_ITEM_def)
  then have 4: "jed_run m3 (32 # s) = jed_run m4 s" for s
    by (simp add: m4_def m3_def m2_def)
  have l4: "length S4 = 2048" using w(1) l by (simp add: S4_def)
  have 5: "jed_run m4 (val @ s) = jed_run m5 s" for s
    using run_N_word [of m4 1 val s] w(2) l4 by (simp add: m2_def m3_def m4_def m5_def)
  have h4: "has_string S4 0 key"
    unfolding S4_def using w(1) l by (intro has_string_splice) auto
  then have "has_string (splice S4 256 val) 0 key"
    using w l4 by (intro has_string_splice_other) auto
  then have "N_row (mglob m5) 0 = key"
    by (simp add: N_row_def m5_def c_string_has_string)
  moreover have "mstate m5 = M_N" "mjed m5 = jed" "length (m_N_strings (mglob m5)) = 2048"
    "m_N_item (mglob m5) = 1" "m_N_pos (mglob m5) = length val" "m_N_strings (mglob m5) = splice S4 256 val"
    using m w(2) l4 by (simp_all add: m5_def m4_def m3_def m2_def)
  moreover have "\<forall>r. jed_run m ([78, 32] @ key @ [32] @ val @ r) = jed_run m5 r"
    using 2 3 4 5 by simp
  ultimately show ?thesis using l4 h4 by blast
qed

lemma run_note_value:
  assumes "at_base jed m" "note_word key" "note_word val"
    and "(key, jed') = (ascii ''DEVICE'', jed\<lparr>jdevice := strncpy MAX_SIZE val\<rparr>) \<or>
      (key, jed') = (ascii ''VERSION'', jed\<lparr>jversion := strncpy MAX_SIZE val\<rparr>)"
  shows "\<exists>m'. at_base jed' m' \<and> (\<forall>r. jed_run m ([78, 32] @ key @ [32] @ val @ [42, 10] @ r) = jed_run m' r)"
proof -
  obtain m5 S where m5: "mstate m5 = M_N" "mjed m5 = jed" "length (m_N_strings (mglob m5)) = 2048"
    "m_N_item (mglob m5) = 1" "m_N_pos (mglob m5) = length val" "N_row (mglob m5) 0 = key"
    "length S = 2048" "has_string S 0 key" "m_N_strings (mglob m5) = splice S 256 val"
    "\<And>r. jed_run m ([78, 32] @ key @ [32] @ val @ r) = jed_run m5 r"
    using run_note [OF assms(1-3)] by blast
  note w = assms(2,3)[unfolded note_word_def]
  define g where "g = (mglob m5)\<lparr>m_N_strings := splice S 256 (val @ [0])\<rparr>"
  have "(splice S 256 val)[256 + length val := 0] = splice S 256 (val @ [0])"
    using w(2) m5(7) by (intro splice_snoc) simp
  then have st: "N_store (mglob m5) 0 = Inr g"
    using N_store_zero [of "mglob m5" 1] m5 w(2) by (simp add: g_def)
  have r0: "N_row g 0 = key"
    using w m5(7,8) has_string_splice_other [of S 0 key 256 "val @ [0]"]
    by (simp add: N_row_def g_def c_string_has_string)
  have r1: "N_row g 1 = val"
    using w(2) m5(7) has_string_splice [of 256 val S]
    by (simp add: N_row_def g_def c_string_has_string MAX_SIZE_def)
  have ne: "strcasecmp_eq (ascii ''DEVICE'') (ascii ''DEVICE'')" "\<not> strcasecmp_eq (ascii ''DEVICE'') (ascii ''VERSION'')"
    "strcasecmp_eq (ascii ''VERSION'') (ascii ''VERSION'')" "\<not> strcasecmp_eq (ascii ''VERSION'') (ascii ''DEVICE'')"
    by code_simp+
  let ?m = "goto M_base (m5\<lparr>mjed := jed', mglob := g\<lparr>m_N_item := - 1\<rparr>\<rparr>)"
  have "jed_step 42 m5 = Inr ?m"
    using assms(4)
  proof
    assume "(key, jed') = (ascii ''DEVICE'', jed\<lparr>jdevice := strncpy MAX_SIZE val\<rparr>)"
    then show ?thesis
      using ne r0 r1 m5(1,2,6) st by (simp add: jed_step_def m_N_def)
  next
    assume "(key, jed') = (ascii ''VERSION'', jed\<lparr>jversion := strncpy MAX_SIZE val\<rparr>)"
    then show ?thesis
      using ne r0 r1 m5(1,2,6) st by (simp add: jed_step_def m_N_def)
  qed
  then have "jed_run m5 ([42, 10] @ r) = jed_run ?m r" for r
    by (simp add: jed_step_def [of 10] m_base_def c_isspace_def)
  moreover have "at_base jed' ?m"
    using w(2) m5(7) by (simp add: at_base_def g_def)
  ultimately show ?thesis using m5(10) by (intro exI [of _ ?m]) simp
qed

lemma run_header_chars:
  assumes "mstate m = M_header" "set s \<inter> {10, 13} = {}" "m_H_pos (mglob m) + length s \<le> length (m_H_string (mglob m))"
  shows "jed_run m (s @ r) = jed_run (m\<lparr>mglob := (mglob m)
     \<lparr>m_H_string := splice (m_H_string (mglob m)) (m_H_pos (mglob m)) s, m_H_pos := m_H_pos (mglob m) + length s\<rparr>\<rparr>) r"
  using assms
proof (induction s arbitrary: m)
  case Nil
  then show ?case by (simp add: splice_simps)
next
  case (Cons c s)
  define g where "g = mglob m"
  define m' where "m' = m\<lparr>mglob := g\<lparr>m_H_string := (m_H_string g)[m_H_pos g := c], m_H_pos := m_H_pos g + 1\<rparr>\<rparr>"
  have a: "m_H_pos g < length (m_H_string g)" using Cons.prems by (simp add: g_def)
  have "jed_step c m = Inr m'" "mstate m' \<noteq> M_null"
    using Cons.prems by (simp_all add: jed_step_def m_header_def Let_def buf_set_in m'_def g_def)
  then have "jed_run m ((c # s) @ r) = jed_run m' (s @ r)" by simp
  also have "\<dots> = jed_run (m'\<lparr>mglob := (mglob m')
     \<lparr>m_H_string := splice (m_H_string (mglob m')) (m_H_pos (mglob m')) s, m_H_pos := m_H_pos (mglob m') + length s\<rparr>\<rparr>) r"
    using Cons.prems by (intro Cons.IH) (simp_all add: m'_def g_def)
  finally show ?case
    using a by (simp add: m'_def splice_simps(2) g_def [symmetric])
qed

text \<open>The date that the writer prints, without its fixed beginning.\<close>

definition date_text :: "byte list option \<Rightarrow> jed_data \<Rightarrow> byte list option" where
  "date_text now jed =
     (if c_string (jdate jed) 0 = [] then map_option (\<lambda>t. [58, 32] @ t) now else Some (c_string (jdate jed) 0))"

definition date_fits :: "byte list option \<Rightarrow> bool" where
  "date_fits d \<longleftrightarrow> (case d of None \<Rightarrow> True | Some s \<Rightarrow> set s \<inter> {10, 13} = {} \<and> length s \<le> 240)"

text \<open>What the reader finds in it, a C string: the text from the first colon on.\<close>

definition date_read :: "byte list option \<Rightarrow> byte list" where
  "date_read d = (case d of None \<Rightarrow> [] | Some s \<Rightarrow> dropWhile (\<lambda>b. b \<noteq> 58) (c_string s 0))"

lemma date_read_colon: "0 \<notin> set s \<Longrightarrow> date_read (Some (58 # s)) = 58 # s"
  by (simp add: date_read_def c_string_def) (metis takeWhile_eq_all_conv)

lemma date_kept:
  assumes "c_string (jdate jed) 0 = 58 # s"
  shows "date_read (date_text now jed) = 58 # s"
proof -
  have "0 \<notin> set (c_string (jdate jed) 0)" by (auto simp: c_string_def dest: set_takeWhileD)
  then show ?thesis using assms date_read_colon [of s] by (simp add: date_text_def)
qed

lemma jed_date_line_text:
  "jed_date_line now jed =
     (case date_text now jed of None \<Rightarrow> [] | Some s \<Rightarrow> ascii ''Date Extracted'' @ s @ [10, 10])"
proof -
  have "ascii ''Date Extracted: '' = ascii ''Date Extracted'' @ [58, 32]" by code_simp
  then show ?thesis by (auto simp: jed_date_line_def date_text_def split: option.split)
qed

lemma jed_date_empty: "c_string (jdate (jed_init junk)) 0 = []"
  by (simp add: jed_init_def Let_def c_string_def MAX_SIZE_def upt_rec)

lemma header_colon:
  assumes "set w \<inter> {0, 58} = {}"
  shows "dropWhile (\<lambda>b. b \<noteq> 58) (c_string ((w @ s) @ replicate n 0) 0) = dropWhile (\<lambda>b. b \<noteq> 58) (c_string s 0)"
proof -
  have "takeWhile (\<lambda>b. b \<noteq> (0 :: byte)) (s @ replicate n 0) = takeWhile (\<lambda>b. b \<noteq> 0) s" by (induction s) (auto simp: takeWhile_replicate)
  moreover have "\<forall>b \<in> set w. b \<noteq> 0 \<and> b \<noteq> 58" using assms by blast
  ultimately show ?thesis
    using takeWhile_append2 [of w "\<lambda>b. b \<noteq> 0" "s @ replicate n 0"] by (simp add: c_string_def)
qed

lemma run_date:
  assumes "date_fits (date_text now jed)"
  shows "\<exists>m d. mstate m = M_startup \<and> mjed m = (jed_init junk')\<lparr>jdate := d\<rparr> \<and> c_string d 0 = date_read (date_text now jed) \<and>
    length (m_N_strings (mglob m)) = 2048 \<and>
    (\<forall>r. jed_run (jed_start junk jed_globals_init (jed_init junk')) (jed_date_line now jed @ r) = jed_run m r)"
proof (cases "date_text now jed")
  case None
  have "jed_init junk' = (jed_init junk')\<lparr>jdate := jdate (jed_init junk')\<rparr>" by simp
  with None show ?thesis
    by (intro exI [of _ "jed_start junk jed_globals_init (jed_init junk')"] exI [of _ "jdate (jed_init junk')"])
       (simp add: jed_date_line_text date_read_def jed_date_empty jed_start_def jed_globals_init_def MAX_SIZE_def)
next
  case (Some s)
  let ?m = "jed_start junk jed_globals_init (jed_init junk')" and ?t = "ascii ''ate Extracted'' @ s"
  have a: "ascii ''Date Extracted'' = 68 # ascii ''ate Extracted''" "set (ascii ''ate Extracted'') \<inter> {10, 13} = {}"
    "length (ascii ''ate Extracted'') = 13" "set (ascii ''ate Extracted'') \<inter> {0, 58} = {}"
    by (code_simp, code_simp, code_simp, code_simp)
  have t: "set ?t \<inter> {10, 13} = {}" "length ?t < 256" using assms a(2,3) Some by (auto simp: date_fits_def)
  define h where "h = splice (replicate MAX_SIZE 0) 0 ?t"
  define m2 where "m2 = (goto M_header ?m)\<lparr>mglob := jed_globals_init\<lparr>m_H_string := h, m_H_pos := length ?t\<rparr>\<rparr>"
  let ?ptr = "dropWhile (\<lambda>b. b \<noteq> 58) (c_string h 0)"
  let ?d = "if ?ptr \<noteq> [] then strncpy MAX_SIZE ?ptr else jdate (jed_init junk')"
  define m3 where "m3 = goto M_startup (m2\<lparr>mjed := (jed_init junk')\<lparr>jdate := ?d\<rparr>\<rparr>)"
  have ptr: "?ptr = date_read (date_text now jed)"
    using header_colon [OF a(4), of s "243 - length s"] t(2) Some a(3) by (simp add: h_def splice_def MAX_SIZE_def date_read_def)
  have short: "0 \<notin> set ?ptr" "length ?ptr < MAX_SIZE"
  proof -
    show "0 \<notin> set ?ptr" by (auto simp: c_string_def dest: set_dropWhileD set_takeWhileD)
    have "length (date_read (date_text now jed)) \<le> length s"
      unfolding Some date_read_def c_string_def option.case drop_0
      by (rule le_trans [OF length_dropWhile_le length_takeWhile_le])
    then show "length ?ptr < MAX_SIZE" using t(2) unfolding ptr MAX_SIZE_def by simp
  qed
  have "jed_run ?m (jed_date_line now jed @ r) = jed_run (goto M_header ?m) (?t @ [10, 10] @ r)" for r
    using Some by (simp add: jed_date_line_text a(1) jed_start_def jed_step_def m_startup_def)
  also have "jed_run (goto M_header ?m) (?t @ [10, 10] @ r) = jed_run m2 ([10, 10] @ r)" for r
    using run_header_chars [of "goto M_header ?m" ?t "[10, 10] @ r"] t
    by (simp add: jed_start_def jed_globals_init_def MAX_SIZE_def m2_def h_def)
  also have "jed_run m2 ([10, 10] @ r) = jed_run m3 r" for r
  proof -
    have "jed_step 10 m2 = Inr m3" using a(3)
      by (simp add: m2_def m3_def jed_start_def jed_step_def m_header_def Let_def)
    then show ?thesis by (simp add: m3_def jed_step_def [of 10 "goto _ _"] m_startup_def)
  qed
  finally have "jed_run ?m (jed_date_line now jed @ r) = jed_run m3 r" for r .
  moreover have "c_string ?d 0 = date_read (date_text now jed)"
    using c_string_strncpy_fits [OF short] ptr by (simp add: jed_date_empty)
  moreover have "mstate m3 = M_startup" "mjed m3 = (jed_init junk')\<lparr>jdate := ?d\<rparr>" "length (m_N_strings (mglob m3)) = 2048"
    by (simp_all add: m3_def m2_def jed_globals_init_def MAX_SIZE_def)
  ultimately show ?thesis by blast
qed

lemma run_head:
  assumes "mstate m = M_startup" "mjed m = (jed_init junk)\<lparr>jdate := d\<rparr>" "length (m_N_strings (mglob m)) = 2048"
    and "note_word device" "note_word (c_string (jversion jed) 0)"
  defines "version \<equiv> (if c_string (jversion jed) 0 = [] then ascii ''XC3SPROG'' else c_string (jversion jed) 0)"
  shows "\<exists>m'. at_base ((jed_init junk)\<lparr>jdate := d, fuse_count := fuse_count jed,
        fuse_list := Some (replicate (nbytes (unat (fuse_count jed))) 0),
        jversion := strncpy MAX_SIZE version, jdevice := strncpy MAX_SIZE device\<rparr>) m' \<and>
    (\<forall>r. jed_run m (jed_head device jed @ r) = jed_run m' r)"
proof -
  define j1 where "j1 = (jed_init junk)\<lparr>jdate := d, fuse_count := fuse_count jed,
        fuse_list := Some (replicate (nbytes (unat (fuse_count jed))) 0)\<rparr>"
  define mq where "mq = goto M_QF m"
  define m1 where "m1 = goto M_base (m\<lparr>mjed := j1\<rparr>)"
  define skips where "skips = ascii ''QV0*'' @ [10] @ ascii ''F0*'' @ [10] @ ascii ''X0*'' @ [10] @ ascii ''J0 0*'' @ [10]"
  have a: "ascii ''QF'' = [81, 70]" "ascii ''N VERSION '' = [78, 32] @ ascii ''VERSION'' @ [32]"
    "ascii ''N DEVICE '' = [78, 32] @ ascii ''DEVICE'' @ [32]"
    "skips = [81, 86, 48, 42, 10, 70, 48, 42, 10, 88, 48, 42, 10, 74, 48, 32, 48, 42, 10]"
    unfolding skips_def by code_simp+
  have w: "note_word (ascii ''VERSION'')" "note_word (ascii ''DEVICE'')" "note_word (ascii ''XC3SPROG'')"
    by code_simp+
  then have wv: "note_word version" using assms(5) by (simp add: version_def)
  have z: "fuse_count (jed_init junk) = 0" by (simp add: jed_init_def Let_def)
  have 1: "jed_run m ([2, 81, 70] @ r) = jed_run mq r" for r
    using assms(1,2) z by (simp add: jed_step_def m_startup_def m_base_def m_Q_def c_isspace_def mq_def goto_def)
  have 2: "jed_run mq (dec_string (unat (fuse_count jed)) @ 42 # 10 # r) = jed_run m1 r" for r
    using assms(2) z
    by (subst run_QF_digits [OF dec_string_digits])
       (simp_all add: mq_def m1_def j1_def digits_value_dec jed_step_def m_QF_def m_base_def c_isspace_def
          c_isdigit_def allocate_fusemap_def goto_def)
  have 3: "jed_run m1 (skips @ r) = jed_run m1 r" for r
    unfolding a(4)
    by (simp add: m1_def jed_step_def m_base_def m_Q_def m_skip_def c_isspace_def goto_def)
  have b1: "at_base j1 m1" using assms(3) by (simp add: at_base_def m1_def)
  obtain m2 where 4: "at_base (j1\<lparr>jversion := strncpy MAX_SIZE version\<rparr>) m2"
    "\<And>r. jed_run m1 ([78, 32] @ ascii ''VERSION'' @ [32] @ version @ [42, 10] @ r) = jed_run m2 r"
    using run_note_value [OF b1 w(1) wv] by blast
  obtain m3 where 5: "at_base (j1\<lparr>jversion := strncpy MAX_SIZE version, jdevice := strncpy MAX_SIZE device\<rparr>) m3"
    "\<And>r. jed_run m2 ([78, 32] @ ascii ''DEVICE'' @ [32] @ device @ [42, 10] @ r) = jed_run m3 r"
    using run_note_value [OF 4(1) w(2) assms(4)] by blast
  have "jed_head device jed @ r = [2, 81, 70] @ dec_string (unat (fuse_count jed)) @ 42 # 10 # skips @
      [78, 32] @ ascii ''VERSION'' @ [32] @ version @ [42, 10] @
      [78, 32] @ ascii ''DEVICE'' @ [32] @ device @ [42, 10] @ r" for r
    unfolding jed_head_def a(1-3) skips_def version_def by simp
  then have "\<forall>r. jed_run m (jed_head device jed @ r) = jed_run m3 r"
    using 1 2 3 4(2) 5(2) by simp
  then show ?thesis using 5(1) unfolding j1_def by auto
qed

section \<open>The checksum field\<close>

lemma hex_digit_checksum:
  assumes "d < 16"
  shows "jed_step (hex_digit True d) (m\<lparr>mstate := M_C\<rparr>) =
    Inr (m\<lparr>mstate := M_C, mjed := (mjed m)\<lparr>jchecksum := push_bit 4 (jchecksum (mjed m)) + of_nat d\<rparr>\<rparr>)"
proof -
  let ?c = "hex_digit True d"
  have "list_all (\<lambda>d. let c = hex_digit True d in \<not> c_isspace c \<and> c \<noteq> 42 \<and>
      (if 48 \<le> c \<and> c \<le> 57 then ucast (c - 48) = (of_nat d :: u32)
       else 65 \<le> c AND 0x5f \<and> c AND 0x5f \<le> 70 \<and> ucast ((c AND 0x5f) - 55) = (of_nat d :: u32))) [0..<16]"
    by code_simp
  then have "\<not> c_isspace ?c \<and> ?c \<noteq> 42 \<and> (if 48 \<le> ?c \<and> ?c \<le> 57 then ucast (?c - 48) = (of_nat d :: u32)
       else 65 \<le> ?c AND 0x5f \<and> ?c AND 0x5f \<le> 70 \<and> ucast ((?c AND 0x5f) - 55) = (of_nat d :: u32))"
    using assms by (simp add: list_all_iff Let_def)
  then show ?thesis by (auto simp: jed_step_def m_C_def Let_def split: if_splits)
qed

lemma run_checksum:
  assumes "at_base jed m" "c < 65536"
  shows "\<exists>m'. at_base (jed\<lparr>jchecksum := of_nat c\<rparr>) m' \<and>
    (\<forall>r. jed_run m (67 # print_hex True 4 c @ [42, 10] @ r) = jed_run m' r)"
proof -
  obtain x y z w where h: "x < 16" "y < 16" "z < 16" "w < 16" "c = 16 * (16 * (16 * x + y) + z) + w"
    using hex_split_4 [OF assms(2)] by metis
  define m0 where "m0 = m\<lparr>mjed := jed\<lparr>jchecksum := 0\<rparr>, mstate := M_C\<rparr>"
  define m' where "m' = m\<lparr>mjed := jed\<lparr>jchecksum := of_nat c\<rparr>, mstate := M_base\<rparr>"
  have step: "jed_run (m\<lparr>mjed := jed\<lparr>jchecksum := v\<rparr>, mstate := M_C\<rparr>) (hex_digit True d # r) =
      jed_run (m\<lparr>mjed := jed\<lparr>jchecksum := 16 * v + of_nat d\<rparr>, mstate := M_C\<rparr>) r" if "d < 16" for v d r
    using hex_digit_checksum [OF that, of "m\<lparr>mjed := jed\<lparr>jchecksum := v\<rparr>\<rparr>"]
    by (cases m) (simp add: push_bit_eq_mult mult.commute)
  have "jed_run m (67 # r) = jed_run m0 r" for r
    using assms(1) by (simp add: at_base_def jed_step_def m_base_def c_isspace_def goto_def m0_def)
  moreover have "jed_run m0 (print_hex True 4 c @ r) = jed_run (m\<lparr>mjed := jed\<lparr>jchecksum := of_nat c\<rparr>, mstate := M_C\<rparr>) r" for r
    unfolding h(5) print_hex_4_digits [OF h(1-4)] m0_def
    by (simp add: step h(1-4) del: jed_run.simps)
  moreover have "jed_run (m\<lparr>mjed := jed\<lparr>jchecksum := of_nat c\<rparr>, mstate := M_C\<rparr>) ([42, 10] @ r) = jed_run m' r" for r
    by (simp add: jed_step_def m_C_def m_base_def c_isspace_def goto_def m'_def)
  ultimately have "\<forall>r. jed_run m (67 # print_hex True 4 c @ [42, 10] @ r) = jed_run m' r" by simp
  moreover have "at_base (jed\<lparr>jchecksum := of_nat c\<rparr>) m'"
    using assms(1) by (simp add: at_base_def m'_def)
  ultimately show ?thesis by blast
qed

section \<open>The round trip\<close>

lemma sum_bytes_in: "i + k \<le> length fl \<Longrightarrow> \<exists>c. sum_bytes fl i k cc = Inr c"
  by (induction k arbitrary: i cc) (simp_all add: buf_get_in)

lemma fuses_read_all:
  assumes "fuses_read fl n n fl'" "length fl = nbytes n" "\<forall>k \<ge> n. k < 8 * nbytes n \<longrightarrow> \<not> buf_bit fl k"
  shows "fl' = fl"
proof (rule nth_equalityI)
  show "length fl' = length fl" using assms(1,2) by (simp add: fuses_read_def)
next
  fix j assume "j < length fl'"
  then have j: "j < nbytes n" using assms(1) by (simp add: fuses_read_def)
  have "bit (fl' ! j) b = bit (fl ! j) b" if "b < 8" for b
  proof -
    have k: "8 * j + b < 8 * nbytes n" using j that by simp
    have "buf_bit fl' (8 * j + b) = buf_bit fl (8 * j + b)"
      using assms(1,3) k unfolding fuses_read_def by (metis linorder_not_le)
    then show ?thesis using that by (simp add: buf_bit_def)
  qed
  then show "fl' ! j = fl ! j" by (simp add: byte_eq_iff)
qed

lemma fuses_read_zero: "fuses_read fl n 0 (replicate (nbytes n) 0)"
  by (auto simp: fuses_read_def buf_bit_def nth_replicate)

text \<open>Does the text of the fuses end at the end of a line?\<close>

definition lines_complete :: "jed_type \<Rightarrow> nat \<Rightarrow> bool" where
  "lines_complete type n = (case type of
     JED_XC2C \<Rightarrow> True | JED_XC95X dreg \<Rightarrow> xc95x_start dreg n 0 0 0 | JED_XC95 \<Rightarrow> xc95_start 0 n 0 0)"

text \<open>
  Reading the fuses as written. The stray asterisk after the fuses of the XC2C layout ends an
  unfinished line, or else starts a field of its own, which then swallows the checksum field.
\<close>

lemma run_save_fuses:
  assumes "fuse_list jed = Some fl" "unat (fuse_count jed) = n" "length fl = nbytes n"
    and "at_base j m" "fuse_list j = Some (replicate (nbytes n) 0)" "unat (fuse_count j) = n" "lines_complete type n"
  shows "\<exists>out m' fl'. save_fuses (Some type) jed = Inr out \<and> fuses_read fl n n fl' \<and>
    (\<forall>r. jed_run m (out @ r) = jed_run m' r) \<and>
    (if type = JED_XC2C \<and> n mod 64 = 0
     then mjed m' = j\<lparr>fuse_list := Some fl'\<rparr> \<and> mstate m' = M_skip \<and> length (m_N_strings (mglob m')) = 2048
     else at_base (j\<lparr>fuse_list := Some fl'\<rparr>) m')"
proof -
  have m: "mstate m = M_base" "mjed m = j" "length (m_N_strings (mglob m)) = 2048"
    using assms(4) by (simp_all add: at_base_def)
  have n: "unat (fuse_count (mjed m)) = n" using m(2) assms(6) by simp
  have r0: "reading fl n True 0 m m"
    unfolding reading_def using m assms(5) fuses_read_zero [of fl n]
    by (auto simp: fuse_ready_def intro!: exI [of _ "replicate (nbytes n) 0"])
  have base: "\<exists>fl'. fuses_read fl n n fl' \<and> at_base (j\<lparr>fuse_list := Some fl'\<rparr>) m'" if "reading fl n True n m m'" for m'
    using that m by (auto simp: reading_def at_base_def fuse_ready_def)
  show ?thesis
  proof (cases type)
    case (JED_XC95X dreg)
    then have "reading fl n (xc95x_start dreg n 0 0 0) n m m' \<Longrightarrow> reading fl n True n m m'" for m'
      using assms(7) by (simp add: lines_complete_def)
    then show ?thesis
      using run_save_xc95x [OF assms(1-3) n, of 0 n 0 0 m dreg 0] r0 base assms(2) JED_XC95X
      by (simp add: save_fuses_def) blast
  next
    case JED_XC95
    then have "reading fl n (xc95_start 0 n 0 0) n m m' \<Longrightarrow> reading fl n True n m m'" for m'
      using assms(7) by (simp add: lines_complete_def)
    then show ?thesis
      using run_save_xc95 [OF assms(1-3) n, of 0 n 0 0 m] r0 base assms(2) JED_XC95
      by (simp add: save_fuses_def) blast
  next
    case JED_XC2C
    obtain out m1 where o: "save_xc2c jed 0 n = Inr out" "reading fl n (n mod 64 = 0) n m m1"
      "\<And>r. jed_run m (out @ r) = jed_run m1 r"
      using run_save_xc2c [OF assms(1-3) n, of 0 n m] r0 by auto
    obtain fl' where fl': "fuse_ready (n mod 64 = 0) n m1" "mglob m1 = mglob m" "mjed m1 = j\<lparr>fuse_list := Some fl'\<rparr>"
      "fuses_read fl n n fl'"
      using o(2) m(2) by (auto simp: reading_def)
    define m' where "m' = goto (if n mod 64 = 0 then M_skip else M_base) m1"
    have "jed_run m1 ([42, 10] @ r) = jed_run m' r" for r
      using fl'(1)
      by (auto simp: fuse_ready_def jed_step_def m_base_def m_Lfuse_def m_skip_def c_isspace_def goto_def m'_def
          split: if_splits)
    then have "\<forall>r. jed_run m ((out @ [42, 10]) @ r) = jed_run m' r" using o(3) by simp
    moreover have "save_fuses (Some type) jed = Inr (out @ [42, 10])"
      using o(1) assms(2) JED_XC2C by (simp add: save_fuses_def)
    ultimately show ?thesis
      using fl' m(3) JED_XC2C
      by (intro exI [of _ "out @ [42, 10]"] exI [of _ m'] exI [of _ fl']) (simp add: m'_def at_base_def)
  qed
qed

text \<open>An object whose fuse list has the size of its fuse count, with clear bits after the last fuse.\<close>

definition jed_fuses :: "jed_data \<Rightarrow> byte list \<Rightarrow> bool" where
  "jed_fuses jed fl \<longleftrightarrow> fuse_list jed = Some fl \<and> fuse_count jed \<noteq> 0 \<and> length fl = nbytes (unat (fuse_count jed)) \<and>
     (\<forall>k \<ge> unat (fuse_count jed). k < 8 * length fl \<longrightarrow> \<not> buf_bit fl k)"

lemma jed_save_read:
  assumes "jed_fuses jed fl" "jed_type_of device = Some type" "lines_complete type (unat (fuse_count jed))"
    and "note_word device" "note_word (c_string (jversion jed) 0)" "date_fits (date_text now jed)"
  shows "\<exists>bs jed' g'. saveAsJed now device jed = Inr bs \<and>
    jed_readFile junk jed_globals_init (jed_init junk') (Some bs) = Inr (0, jed', g') \<and>
    fuse_count jed' = fuse_count jed \<and> fuse_list jed' = fuse_list jed \<and> c_string (jdevice jed') 0 = device \<and>
    c_string (jversion jed') 0 = (if c_string (jversion jed) 0 = [] then ascii ''XC3SPROG'' else c_string (jversion jed) 0) \<and>
    c_string (jdate jed') 0 = date_read (date_text now jed) \<and>
    (if type = JED_XC2C \<and> unat (fuse_count jed) mod 64 = 0 then jchecksum jed' = 0
     else calcChecksum jed = Inr (getChecksum jed'))"
proof -
  let ?n = "unat (fuse_count jed)"
  let ?version = "if c_string (jversion jed) 0 = [] then ascii ''XC3SPROG'' else c_string (jversion jed) 0"
  have "note_word (ascii ''XC3SPROG'')" by code_simp
  then have version: "note_word ?version" using assms(5) by simp
  have jf: "fuse_list jed = Some fl" "fuse_count jed \<noteq> 0" "length fl = nbytes ?n"
    "\<forall>k \<ge> ?n. k < 8 * nbytes ?n \<longrightarrow> \<not> buf_bit fl k"
    using assms(1) by (auto simp: jed_fuses_def)
  obtain m d where 1: "mstate m = M_startup" "mjed m = (jed_init junk')\<lparr>jdate := d\<rparr>" "length (m_N_strings (mglob m)) = 2048"
    and date: "c_string d 0 = date_read (date_text now jed)" and start:
    "\<And>r. jed_run (jed_start junk jed_globals_init (jed_init junk')) (jed_date_line now jed @ r) = jed_run m r"
    using run_date [OF assms(6)] by blast
  obtain j m2 where 2: "at_base j m2" "fuse_count j = fuse_count jed" "fuse_list j = Some (replicate (nbytes ?n) 0)"
    "c_string (jdevice j) 0 = device" "jchecksum j = 0"
    and 21: "c_string (jversion j) 0 = ?version" "c_string (jdate j) 0 = date_read (date_text now jed)" and head:
    "\<And>r. jed_run m (jed_head device jed @ r) = jed_run m2 r"
    using run_head [OF 1 assms(4,5)] c_string_strncpy [OF assms(4)] c_string_strncpy [OF version] date
    by (auto simp: jed_init_def Let_def)
  have "unat (fuse_count j) = ?n" using 2(2) by simp
  from run_save_fuses [OF jf(1) refl jf(3) 2(1,3) this assms(3)]
  obtain out m3 fl' where 3: "save_fuses (Some type) jed = Inr out" "fuses_read fl ?n ?n fl'"
    "\<And>r. jed_run m2 (out @ r) = jed_run m3 r"
    "if type = JED_XC2C \<and> ?n mod 64 = 0
     then mjed m3 = j\<lparr>fuse_list := Some fl'\<rparr> \<and> mstate m3 = M_skip \<and> length (m_N_strings (mglob m3)) = 2048
     else at_base (j\<lparr>fuse_list := Some fl'\<rparr>) m3"
    by blast
  have fl': "fl' = fl" using fuses_read_all [OF 3(2) jf(3,4)] .
  obtain c where c: "calcChecksum jed = Inr c"
    using sum_bytes_in [of 0 "nbytes ?n" fl 0] jf by (auto simp: calcChecksum_def Let_def)
  have c16: "unat c < 65536" using unsigned_less [of c] by simp
  define tail where "tail = 67 # print_hex True 4 (unat c) @ [42, 10, 3] @ ascii ''0000'' @ [10]"
  have t: "ascii ''0000'' = [48, 48, 48, 48]" by code_simp
  have ends: "jed_run m' ([3] @ ascii ''0000'' @ [10]) = Inr (goto M_skip m')" if "mstate m' = M_base" for m'
    using that by (simp add: t jed_step_def m_base_def m_skip_def c_isspace_def)
  have "\<exists>m4. jed_run m3 tail = Inr m4 \<and> mstate m4 = M_skip \<and> mjed m4 =
      (j\<lparr>fuse_list := Some fl\<rparr>)\<lparr>jchecksum := (if type = JED_XC2C \<and> ?n mod 64 = 0 then 0 else of_nat (unat c))\<rparr>"
  proof (cases "type = JED_XC2C \<and> ?n mod 64 = 0")
    case True
    then have m3: "mjed m3 = j\<lparr>fuse_list := Some fl\<rparr>" "mstate m3 = M_skip" using 3(4) fl' by auto
    have sk: "jed_run m3 (s @ r) = jed_run m3 r" if "42 \<notin> set s" for s r
      using that m3(2) by (induction s) (simp_all add: jed_step_def m_skip_def)
    have "list_all (\<lambda>d. hex_digit True d \<noteq> 42) [0..<16]" by code_simp
    then have d: "hex_digit True d \<noteq> 42" if "d < 16" for d using that by (simp add: list_all_iff)
    obtain x y z w where h: "x < 16" "y < 16" "z < 16" "w < 16" "unat c = 16 * (16 * (16 * x + y) + z) + w"
      using hex_split_4 [OF c16] by metis
    have "42 \<notin> set (67 # print_hex True 4 (unat c))"
      unfolding h(5) print_hex_4_digits [OF h(1-4)] using d [OF h(1)] d [OF h(2)] d [OF h(3)] d [OF h(4)] by auto
    from sk [OF this, of "[42, 10, 3] @ ascii ''0000'' @ [10]"]
    have "jed_run m3 tail = jed_run m3 ([42, 10, 3] @ ascii ''0000'' @ [10])" by (simp add: tail_def)
    also have "\<dots> = Inr (goto M_skip (goto M_base m3))"
      using m3(2) ends [of "goto M_base m3"] by (simp add: jed_step_def [of 42] jed_step_def [of 10] m_skip_def [of 42] m_base_def [of 10] c_isspace_def)
    finally show ?thesis
      using True m3(1) 2(5) by (simp add: goto_def)
  next
    case False
    then have "at_base (j\<lparr>fuse_list := Some fl\<rparr>) m3" using 3(4) fl' by auto
    from run_checksum [OF this c16] obtain m4 where m4: "at_base (j\<lparr>fuse_list := Some fl, jchecksum := of_nat (unat c)\<rparr>) m4"
      "\<And>r. jed_run m3 (67 # print_hex True 4 (unat c) @ [42, 10] @ r) = jed_run m4 r"
      by blast
    then show ?thesis
      using ends [of m4] m4(2) [of "[3] @ ascii ''0000'' @ [10]"]
      unfolding if_not_P [OF False] by (simp add: tail_def at_base_def)
  qed
  then obtain m4 where 4: "jed_run m3 tail = Inr m4" "mstate m4 = M_skip" "mjed m4 =
      (j\<lparr>fuse_list := Some fl\<rparr>)\<lparr>jchecksum := (if type = JED_XC2C \<and> ?n mod 64 = 0 then 0 else of_nat (unat c))\<rparr>"
    by blast
  have save: "saveAsJed now device jed = Inr (jed_date_line now jed @ jed_head device jed @ out @ tail)"
    using 3(1) c by (simp add: saveAsJed_def assms(2) tail_def)
  have "jed_run (jed_start junk jed_globals_init (jed_init junk')) (jed_date_line now jed @ jed_head device jed @ out @ tail) = Inr m4"
    unfolding start head 3(3) by (rule 4(1))
  then have read: "jed_readFile junk jed_globals_init (jed_init junk')
      (Some (jed_date_line now jed @ jed_head device jed @ out @ tail)) = Inr (0, mjed m4, mglob m4)"
    using 4(2,3) 2(2) jf(2) by (simp add: jed_readFile_def)
  have "ucast (of_nat (unat c) :: u32) = c"
  proof -
    have u: "(of_nat (unat c) :: u32) = ucast c" by simp
    show ?thesis unfolding u by (rule bit_word_eqI) (auto simp: bit_simps)
  qed
  then show ?thesis
    using save read 4(3) 2(2,4,5) 21 c jf(1) by (auto simp: getChecksum_def)
qed

text \<open>
  C9. Reading back a file that \<^verbatim>\<open>saveAsJed\<close> wrote, for any of the three device families, gives
  the fuses, the device name and the version, which is \<^verbatim>\<open>XC3SPROG\<close> when there was none. The date is the
  date line's text from its first colon on, so that a date that begins with a colon, as every
  date that the reader stores does, comes back as it was, and without one the text of the clock comes back.
  The stored checksum is that of the fuses, unless the fuse count of an XC2C device is a
  multiple of 64.\<close>

theorem jedec_roundtrip:
  assumes "jed_fuses jed fl" "jed_type_of device = Some type" "lines_complete type (unat (fuse_count jed))"
    and "note_word device" "note_word (c_string (jversion jed) 0)" "date_fits (date_text now jed)"
  shows "\<exists>bs jed' g'. saveAsJed now device jed = Inr bs \<and>
    jed_readFile junk jed_globals_init (jed_init junk') (Some bs) = Inr (0, jed', g') \<and>
    fuse_count jed' = fuse_count jed \<and> fuse_list jed' = fuse_list jed \<and> c_string (jdevice jed') 0 = device \<and>
    c_string (jversion jed') 0 = (if c_string (jversion jed) 0 = [] then ascii ''XC3SPROG'' else c_string (jversion jed) 0) \<and>
    c_string (jdate jed') 0 = date_read (date_text now jed) \<and>
    (\<forall>s. c_string (jdate jed) 0 = 58 # s \<longrightarrow> c_string (jdate jed') 0 = c_string (jdate jed) 0) \<and>
    (\<forall>t. c_string (jdate jed) 0 = [] \<longrightarrow> now = Some t \<longrightarrow> 0 \<notin> set t \<longrightarrow> c_string (jdate jed') 0 = [58, 32] @ t) \<and>
    (type = JED_XC2C \<longrightarrow> unat (fuse_count jed) mod 64 \<noteq> 0 \<longrightarrow> calcChecksum jed = Inr (getChecksum jed')) \<and>
    (type \<noteq> JED_XC2C \<longrightarrow> calcChecksum jed = Inr (getChecksum jed'))"
proof -
  obtain bs jed' g' where saved: "saveAsJed now device jed = Inr bs"
    "jed_readFile junk jed_globals_init (jed_init junk') (Some bs) = Inr (0, jed', g')"
    "fuse_count jed' = fuse_count jed" "fuse_list jed' = fuse_list jed" "c_string (jdevice jed') 0 = device"
    "c_string (jversion jed') 0 = (if c_string (jversion jed) 0 = [] then ascii ''XC3SPROG'' else c_string (jversion jed) 0)"
    "c_string (jdate jed') 0 = date_read (date_text now jed)"
    and checksum: "if type = JED_XC2C \<and> unat (fuse_count jed) mod 64 = 0 then jchecksum jed' = 0
      else calcChecksum jed = Inr (getChecksum jed')"
    using jed_save_read [OF assms, of junk junk'] by blast
  have "c_string (jdate jed') 0 = [58, 32] @ t" if "c_string (jdate jed) 0 = []" "now = Some t" "0 \<notin> set t" for t
    using that saved(7) date_read_colon [of "32 # t"] by (simp add: date_text_def)
  then show ?thesis using saved checksum date_kept [of jed] by (intro exI [of _ bs] exI [of _ jed'] exI [of _ g']) auto
qed

definition example_jed :: "nat \<Rightarrow> byte list \<Rightarrow> jed_data" where
  "example_jed n fl = (jed_init (\<lambda>_. 0))\<lparr>fuse_count := of_nat n, fuse_list := Some fl\<rparr>"

lemma example_jed_fuses: "jed_fuses (example_jed 12 [5, 3]) [5, 3]" "jed_fuses (example_jed 64 (replicate 8 7)) (replicate 8 7)"
proof -
  have "list_all (\<lambda>k. \<not> buf_bit [5, 3] k) [12..<16]" by code_simp
  then have "\<forall>k \<ge> 12. k < 16 \<longrightarrow> \<not> buf_bit [5, 3] k"
    unfolding list_all_iff set_upt Ball_def atLeastLessThan_iff by blast
  then show "jed_fuses (example_jed 12 [5, 3]) [5, 3]"
    by (simp add: jed_fuses_def example_jed_def nbytes_def)
qed (simp add: jed_fuses_def example_jed_def nbytes_def)

lemma example_jed_texts:
  "jed_type_of (ascii ''XC2C32A'') = Some JED_XC2C" "note_word (ascii ''XC2C32A'')"
  "c_string (jversion (example_jed n fl)) 0 = []" "note_word []"
  "c_string (jdate (example_jed n fl)) 0 = []"
  by (code_simp, code_simp, simp_all add: example_jed_def jed_init_def c_string_def note_word_def MAX_SIZE_def upt_rec Let_def)

theorem jedec_roundtrip_witness:
  "\<exists>bs jed' g'. saveAsJed (Some (ascii ''Mon 1'')) (ascii ''XC2C32A'') (example_jed 12 [5, 3]) = Inr bs \<and>
    jed_readFile 0 jed_globals_init (jed_init (\<lambda>_. 9)) (Some bs) = Inr (0, jed', g') \<and>
    fuse_count jed' = 12 \<and> fuse_list jed' = Some [5, 3] \<and> c_string (jdevice jed') 0 = ascii ''XC2C32A'' \<and>
    c_string (jversion jed') 0 = ascii ''XC3SPROG'' \<and> c_string (jdate jed') 0 = [58, 32] @ ascii ''Mon 1'' \<and>
    calcChecksum (example_jed 12 [5, 3]) = Inr (getChecksum jed')"
proof -
  have t: "0 \<notin> set (ascii ''Mon 1'')" "set (ascii ''Mon 1'') \<inter> {10, 13} = {}" "length (ascii ''Mon 1'') = 5"
    by (code_simp, code_simp, code_simp)
  have n: "fuse_count (example_jed 12 [5, 3]) = 12" "fuse_list (example_jed 12 [5, 3]) = Some [5, 3]"
    by (simp_all add: example_jed_def)
  have l: "lines_complete JED_XC2C (unat (fuse_count (example_jed 12 [5, 3])))" by (simp add: lines_complete_def)
  have w: "note_word (c_string (jversion (example_jed 12 [5, 3])) 0)" using example_jed_texts(3,4) by simp
  have d: "date_fits (date_text (Some (ascii ''Mon 1'')) (example_jed 12 [5, 3]))"
    using t(2,3) example_jed_texts(5) by (simp add: date_text_def date_fits_def)
  show ?thesis
    using jedec_roundtrip [OF example_jed_fuses(1) example_jed_texts(1) l example_jed_texts(2) w d, of 0 "\<lambda>_. 9"]
      example_jed_texts(3,5) t(1) n by auto
qed

text \<open>
  C11. For an XC2C device whose fuse count is a multiple of 64 the asterisk after the fuses opens
  a field of its own, so that reading the file back skips the checksum field: the stored
  checksum is zero.\<close>

theorem jedec_xc2c_checksum_lost:
  assumes "jed_fuses jed fl" "jed_type_of device = Some JED_XC2C" "unat (fuse_count jed) mod 64 = 0"
    and "note_word device" "note_word (c_string (jversion jed) 0)" "date_fits (date_text now jed)"
  shows "\<exists>bs jed' g'. saveAsJed now device jed = Inr bs \<and>
    jed_readFile junk jed_globals_init (jed_init junk') (Some bs) = Inr (0, jed', g') \<and>
    fuse_list jed' = fuse_list jed \<and> getChecksum jed' = 0"
proof -
  have "lines_complete JED_XC2C (unat (fuse_count jed))" by (simp add: lines_complete_def)
  from jed_save_read [OF assms(1,2) this assms(4-6), of junk junk'] show ?thesis
    using assms(3) by (auto simp: getChecksum_def)
qed

theorem jedec_xc2c_checksum_lost_witness:
  "\<exists>bs jed' g'. saveAsJed None (ascii ''XC2C32A'') (example_jed 64 (replicate 8 7)) = Inr bs \<and>
    jed_readFile 0 jed_globals_init (jed_init (\<lambda>_. 9)) (Some bs) = Inr (0, jed', g') \<and>
    fuse_list jed' = Some (replicate 8 7) \<and> getChecksum jed' = 0"
  using jedec_xc2c_checksum_lost [of "example_jed 64 (replicate 8 7)" "replicate 8 7" "ascii ''XC2C32A''" None 0 "\<lambda>_. 9"]
    example_jed_fuses(2) example_jed_texts
  by (simp add: date_text_def date_fits_def) (simp add: example_jed_def)

end
