(* ===== verification/MapXC2C.thy ===== *)
theory MapXC2C
  imports JedecProps BitFileProps
begin

text \<open>
  \<^verbatim>\<open>mapfile_xc2c.cpp\<close>: the table that places the fuses of a CoolRunner-II JEDEC file in the
  programming bit stream, its reader, and the two conversions.
\<close>

record mapfile =
  block_size :: nat
  block_num :: nat
  fmap :: "int list"

section \<open>Reading the table\<close>

record map_reader =
  mi :: nat
  mj :: nat
  num :: int
  transferline :: bool
  cells :: "int list"

text \<open>
  One character of \<^verbatim>\<open>readmap\<close>: a tab or a newline ends a cell. The \<^verbatim>\<open>switch\<close> has no default,
  other characters are skipped.
\<close>

definition readmap_step :: "nat \<Rightarrow> byte \<Rightarrow> map_reader \<Rightarrow> map_reader res" where
  "readmap_step bnum x r =
     (if x = 9 \<or> x = 10 then
        let n = (if num r = - 2 then - 1 else num r);
            n = (if n = - 1 \<and> \<not> transferline r then - 2 else n)
        in rbind (buf_set (cells r) (mi r * bnum + mj r) n) (\<lambda>c.
             Inr (if x = 10
                  then r\<lparr>cells := c, num := - 1, mj := 0, mi := mi r + 1, transferline := True\<rparr>
                  else r\<lparr>cells := c, num := - 1, mj := mj r + 1\<rparr>))
      else if 48 \<le> x \<and> x \<le> 57 then
        let d = int (unat x) - 48
        in Inr (r\<lparr>num := (if num r = - 1 then d else if 0 \<le> num r then 10 * num r + d else num r),
                  transferline := False\<rparr>)
      else if 97 \<le> x \<and> x \<le> 122 then Inr (r\<lparr>transferline := False, num := - 2\<rparr>)
      else Inr r)"

fun readmap_loop :: "nat \<Rightarrow> byte list \<Rightarrow> map_reader \<Rightarrow> map_reader res" where
  "readmap_loop bnum [] r = Inr r"
| "readmap_loop bnum (x # s) r = rbind (readmap_step bnum x r) (readmap_loop bnum s)"

definition readmap :: "byte list \<Rightarrow> mapfile \<Rightarrow> mapfile res" where
  "readmap s mf =
     rbind (readmap_loop (block_num mf) s \<lparr>mi = 0, mj = 0, num = - 1, transferline = True, cells = fmap mf\<rparr>)
       (\<lambda>r. Inr (mf\<lparr>fmap := cells r\<rparr>))"

text \<open>Block size, number of blocks and map file by device name.\<close>

definition map_params :: "byte list \<Rightarrow> (nat \<times> nat \<times> string) option" where
  "map_params device =
     (let is = (\<lambda>s n. strncasecmp_eq n device (ascii s))
      in if is ''XC2C32'' 6 then Some (260, 48, if is ''XC2C32A'' 7 then ''xc2c32a'' else ''xc2c32'')
         else if is ''XC2C64'' 6 then Some (274, 96, if is ''XC2C64A'' 7 then ''xc2c64a'' else ''xc2c64'')
         else if is ''XC2C128'' 7 then Some (752, 80, ''xc2c128'')
         else if is ''XC2C256'' 7 then Some (1364, 96, ''xc2c256'')
         else if is ''XC2C384'' 7 then Some (1868, 120, ''xc2c384'')
         else if is ''XC2C512'' 7 then Some (1980, 160, ''xc2c1512'')
         else None)"

definition MAPDIR :: "byte list" where
  "MAPDIR = ascii ''/opt/Xilinx/12.4/ISE_DS/ISE/xbr/data''"

text \<open>
  \<open>files\<close> is what \<^verbatim>\<open>fopen\<close> finds under a name and \<open>env\<close> the variable \<^verbatim>\<open>XC_MAPDIR\<close>. For a
  device that none of the comparisons accepts the code goes on with an uninitialised name.
\<close>

definition loadmapfile ::
  "(byte list \<Rightarrow> byte list option) \<Rightarrow> byte list option \<Rightarrow> byte list option \<Rightarrow> byte list \<Rightarrow> mapfile \<Rightarrow> (nat \<times> mapfile) res" where
  "loadmapfile files env mapdir device mf =
     (case map_params device of
        None \<Rightarrow> Inl NullPointer
      | Some (bs, bn, name) \<Rightarrow>
          let mf = mf\<lparr>block_size := bs, block_num := bn\<rparr>;
              dir = (case mapdir of Some d \<Rightarrow> d | None \<Rightarrow> (case env of Some d \<Rightarrow> d | None \<Rightarrow> MAPDIR))
          in case files (dir @ [47] @ ascii name @ ascii ''.map'') of
               None \<Rightarrow> Inr (1, mf)
             | Some s \<Rightarrow> rbind (readmap s (mf\<lparr>fmap := replicate (bs * (bn + 2)) 0\<rparr>)) (\<lambda>mf. Inr (0, mf)))"

section \<open>The conversions\<close>

text \<open>The pairs \<open>(i, j)\<close> in the order of the two nested loops.\<close>

definition map_cells :: "mapfile \<Rightarrow> (nat \<times> nat) list" where
  "map_cells mf = List.product [0..<block_num mf] [0..<block_size mf]"

definition bitnum :: "mapfile \<Rightarrow> nat \<times> nat \<Rightarrow> nat" where
  "bitnum mf = (\<lambda>(i, j). (i + 1) * block_size mf - j - 1)"

definition fuse_idx :: "mapfile \<Rightarrow> nat \<times> nat \<Rightarrow> int res" where
  "fuse_idx mf = (\<lambda>(i, j). buf_get (fmap mf) (j * block_num mf + i))"

definition fuse_value :: "jed_data \<Rightarrow> int \<Rightarrow> bool res" where
  "fuse_value fuses idx =
     (if 0 \<le> idx \<and> idx < sint (fuse_count fuses) then jedec_get_fuse fuses (word_of_int idx)
      else Inr (idx \<noteq> - 1))"

fun jed2bit_loop :: "mapfile \<Rightarrow> jed_data \<Rightarrow> (nat \<times> nat) list \<Rightarrow> bitfile \<Rightarrow> bitfile res" where
  "jed2bit_loop mf fuses [] bits = Inr bits"
| "jed2bit_loop mf fuses (c # cs) bits =
     rbind (fuse_idx mf c) (\<lambda>idx.
     rbind (fuse_value fuses idx) (\<lambda>v.
     rbind (set_bit_bf (bitnum mf c) v bits) (jed2bit_loop mf fuses cs)))"

definition jedecfile2bitfile :: "mapfile \<Rightarrow> jed_data \<Rightarrow> bitfile \<Rightarrow> bitfile res" where
  "jedecfile2bitfile mf fuses bits =
     jed2bit_loop mf fuses (map_cells mf) (setLength (block_size mf * block_num mf) bits)"

fun bit2jed_loop :: "mapfile \<Rightarrow> bitfile \<Rightarrow> (nat \<times> nat) list \<Rightarrow> int \<Rightarrow> jed_data \<Rightarrow> (int \<times> jed_data) res" where
  "bit2jed_loop mf bits [] maxnum fuses = Inr (maxnum, fuses)"
| "bit2jed_loop mf bits (c # cs) maxnum fuses =
     rbind (fuse_idx mf c) (\<lambda>idx.
     rbind (get_bit_bf (bitnum mf c) bits) (\<lambda>b.
       if 0 \<le> idx
       then rbind (jedec_set_fuse fuses (word_of_int idx) b) (bit2jed_loop mf bits cs (max idx maxnum))
       else bit2jed_loop mf bits cs maxnum fuses))"

definition bitfile2jedecfile :: "mapfile \<Rightarrow> bitfile \<Rightarrow> jed_data \<Rightarrow> jed_data res" where
  "bitfile2jedecfile mf bits fuses =
     rbind (jed_setLength (of_nat (block_size mf * block_num mf)) fuses) (\<lambda>fuses.
     rbind (bit2jed_loop mf bits (map_cells mf) 0 fuses) (\<lambda>(maxnum, fuses).
       jed_setLength (word_of_int (maxnum + 1)) fuses))"

section \<open>The loops of the conversions\<close>

definition cell_idx :: "mapfile \<Rightarrow> nat \<times> nat \<Rightarrow> int" where
  "cell_idx mf = (\<lambda>(i, j). fmap mf ! (j * block_num mf + i))"

text \<open>The table covers all cells, and no fuse number occurs in two of them.\<close>

definition map_ok :: "mapfile \<Rightarrow> bool" where
  "map_ok mf \<longleftrightarrow> 0 < block_size mf * block_num mf \<and> block_size mf * block_num mf < 2 ^ 31 \<and>
     block_size mf * block_num mf \<le> length (fmap mf) \<and>
     distinct (filter (\<lambda>x. 0 \<le> x) (map (cell_idx mf) (map_cells mf))) \<and>
     list_all (\<lambda>c. cell_idx mf c < int (block_size mf * block_num mf)) (map_cells mf)"

lemma map_cells_iff: "(i, j) \<in> set (map_cells mf) \<longleftrightarrow> i < block_num mf \<and> j < block_size mf"
  by (auto simp: map_cells_def)

lemma cell_bound:
  assumes "i < bn" "j < (bs :: nat)"
  shows "j * bn + i < bs * bn"
proof -
  have "j * bn + i < j * bn + bn" using assms(1) by simp
  also have "\<dots> = Suc j * bn" by simp
  also have "\<dots> \<le> bs * bn" using assms(2) by (intro mult_le_mono1) simp
  finally show ?thesis .
qed

lemma fuse_idx_cell:
  assumes "map_ok mf" "c \<in> set (map_cells mf)"
  shows "fuse_idx mf c = Inr (cell_idx mf c)"
proof -
  obtain i j where c: "c = (i, j)" by (cases c)
  then have "i < block_num mf" "j < block_size mf" using assms(2) by (simp_all add: map_cells_iff)
  then have "j * block_num mf + i < length (fmap mf)"
    using cell_bound [of i "block_num mf" j "block_size mf"] assms(1) by (simp add: map_ok_def)
  then show ?thesis by (simp add: c fuse_idx_def cell_idx_def buf_get_in)
qed

lemma bitnum_cell:
  assumes "(i, j) \<in> set (map_cells mf)"
  shows "bitnum mf (i, j) = i * block_size mf + (block_size mf - 1 - j)"
    and "bitnum mf (i, j) < block_size mf * block_num mf"
proof -
  have l: "i < block_num mf" "j < block_size mf" using assms by (auto simp: map_cells_iff)
  then show e: "bitnum mf (i, j) = i * block_size mf + (block_size mf - 1 - j)"
    by (simp add: bitnum_def)
  show "bitnum mf (i, j) < block_size mf * block_num mf"
    using cell_bound [of "block_size mf - 1 - j" "block_size mf" i "block_num mf"] l
    unfolding e by (simp add: mult.commute)
qed

lemma inj_bitnum: "inj_on (bitnum mf) (set (map_cells mf))"
proof (rule inj_onI, clarify)
  fix i j i' j'
  assume c: "(i, j) \<in> set (map_cells mf)" "(i', j') \<in> set (map_cells mf)" "bitnum mf (i, j) = bitnum mf (i', j')"
  let ?b = "block_size mf"
  have l: "j < ?b" "j' < ?b" using c(1,2) by (auto simp: map_cells_iff)
  have e: "i * ?b + (?b - 1 - j) = i' * ?b + (?b - 1 - j')"
    using c bitnum_cell(1) by metis
  have q: "(a * ?b + x) div ?b = a" if "x < ?b" for a x using that by simp
  have d: "(i * ?b + (?b - 1 - j)) div ?b = i" "(i' * ?b + (?b - 1 - j')) div ?b = i'"
    by (rule q; use l in simp)+
  with e have "i = i'" by metis
  with e l show "i = i' \<and> j = j'" by auto
qed

lemma distinct_map_cells: "distinct (map_cells mf)"
  by (simp add: map_cells_def distinct_product)

lemma distinct_filter_map:
  "distinct (map f cs) \<Longrightarrow> distinct cs" and
  distinct_filter_map_eq: "distinct (filter P (map f cs)) \<Longrightarrow> distinct cs \<Longrightarrow> a \<in> set cs \<Longrightarrow> b \<in> set cs \<Longrightarrow>
    f a = f b \<Longrightarrow> P (f a) \<Longrightarrow> a = b"
proof -
  show "distinct (map f cs) \<Longrightarrow> distinct cs" by (simp add: distinct_map)
  show "distinct (filter P (map f cs)) \<Longrightarrow> distinct cs \<Longrightarrow> a \<in> set cs \<Longrightarrow> b \<in> set cs \<Longrightarrow>
    f a = f b \<Longrightarrow> P (f a) \<Longrightarrow> a = b"
    by (induction cs) (auto split: if_splits simp: rev_image_eqI)
qed

lemma jed2bit_loop_effect:
  assumes "map_ok mf" "set cs \<subseteq> set (map_cells mf)" "distinct cs"
    and "\<And>c. c \<in> set cs \<Longrightarrow> fuse_value fuses (cell_idx mf c) = Inr (v c)"
    and "nbytes (block_size mf * block_num mf) \<le> blength bits" "blength bits \<le> length (buffer bits)"
  shows "\<exists>bits'. jed2bit_loop mf fuses cs bits = Inr bits' \<and> blength bits' = blength bits \<and>
    (\<forall>c \<in> set cs. get_bit_bf (bitnum mf c) bits' = Inr (v c)) \<and>
    (\<forall>k. k \<notin> bitnum mf ` set cs \<longrightarrow> get_bit_bf k bits' = get_bit_bf k bits)"
  using assms(2-6)
proof (induction cs arbitrary: bits)
  case (Cons c cs)
  have c: "c \<in> set (map_cells mf)" using Cons.prems(1) by simp
  have lt: "bitnum mf c < block_size mf * block_num mf" using bitnum_cell(2) c by (cases c) auto
  have b: "bitnum mf c div 8 < blength bits" using nbytes_index [OF lt] Cons.prems(4) by simp
  let ?b = "bits\<lparr>buffer := buf_put (buffer bits) (bitnum mf c) (v c)\<rparr>"
  note eff = set_bit_effect [OF Cons.prems(5) b]
  have "\<exists>bits'. jed2bit_loop mf fuses cs ?b = Inr bits' \<and> blength bits' = blength ?b \<and>
    (\<forall>c \<in> set cs. get_bit_bf (bitnum mf c) bits' = Inr (v c)) \<and>
    (\<forall>k. k \<notin> bitnum mf ` set cs \<longrightarrow> get_bit_bf k bits' = get_bit_bf k ?b)"
    using Cons.prems by (intro Cons.IH) auto
  then obtain bits' where bits': "jed2bit_loop mf fuses cs ?b = Inr bits'" "blength bits' = blength ?b"
    "\<And>c. c \<in> set cs \<Longrightarrow> get_bit_bf (bitnum mf c) bits' = Inr (v c)"
    "\<And>k. k \<notin> bitnum mf ` set cs \<Longrightarrow> get_bit_bf k bits' = get_bit_bf k ?b"
    by blast
  have "bitnum mf c \<notin> bitnum mf ` set cs"
    using inj_bitnum [of mf] Cons.prems(1,2) c by (auto dest: inj_onD)
  then have "get_bit_bf (bitnum mf c) bits' = Inr (v c)" using bits'(4) eff(2) by simp
  moreover have "jed2bit_loop mf fuses (c # cs) bits = Inr bits'"
    using fuse_idx_cell [OF assms(1) c] Cons.prems(3) [of c] eff(1) bits'(1) by simp
  ultimately show ?case using bits'(2,3,4) eff(2) by auto
qed auto

lemma bit2jed_loop_effect:
  assumes "map_ok mf" "n = block_size mf * block_num mf" "set cs \<subseteq> set (map_cells mf)" "distinct cs"
    and "\<And>c. c \<in> set cs \<Longrightarrow> get_bit_bf (bitnum mf c) bits = Inr (w c)"
    and "jed_ok n fuses" "0 \<le> mx" "mx < int n"
  shows "\<exists>mx' fuses'. bit2jed_loop mf bits cs mx fuses = Inr (mx', fuses') \<and> jed_ok n fuses' \<and> mx \<le> mx' \<and> mx' < int n \<and>
    (\<forall>c \<in> set cs. 0 \<le> cell_idx mf c \<longrightarrow> cell_idx mf c \<le> mx' \<and>
       jedec_get_fuse fuses' (of_nat (nat (cell_idx mf c))) = Inr (w c)) \<and>
    (\<forall>k < n. int k \<notin> cell_idx mf ` set cs \<longrightarrow> jedec_get_fuse fuses' (of_nat k) = jedec_get_fuse fuses (of_nat k))"
  using assms(3-8)
proof (induction cs arbitrary: mx fuses)
  case (Cons c cs)
  have c: "c \<in> set (map_cells mf)" using Cons.prems(1) by simp
  have prems: "set cs \<subseteq> set (map_cells mf)" "distinct cs"
    "\<And>c. c \<in> set cs \<Longrightarrow> get_bit_bf (bitnum mf c) bits = Inr (w c)"
    using Cons.prems by auto
  have idx: "fuse_idx mf c = Inr (cell_idx mf c)" "get_bit_bf (bitnum mf c) bits = Inr (w c)"
    using fuse_idx_cell [OF assms(1) c] Cons.prems(3) by auto
  show ?case
  proof (cases "0 \<le> cell_idx mf c")
    case True
    define i where "i = nat (cell_idx mf c)"
    have "cell_idx mf c < int n"
      using assms(1) c unfolding map_ok_def list_all_iff assms(2) by blast
    then have i: "i < n" "cell_idx mf c = int i" "(word_of_int (cell_idx mf c) :: u32) = of_nat i"
      using True by (simp_all add: i_def)
    have ne: "int i \<notin> cell_idx mf ` set cs"
    proof
      assume "int i \<in> cell_idx mf ` set cs"
      then obtain c' where c': "c' \<in> set cs" "cell_idx mf c' = int i" by auto
      have "c' = c"
        using distinct_filter_map_eq [of "\<lambda>x. 0 \<le> x" "cell_idx mf" "map_cells mf" c' c]
          assms(1) distinct_map_cells c prems(1) c' i(2) by (auto simp: map_ok_def)
      with c'(1) Cons.prems(2) show False by simp
    qed
    obtain f1 where f1: "jedec_set_fuse fuses (of_nat i) (w c) = Inr f1" "jed_ok n f1"
      "\<And>k. k < n \<Longrightarrow> jedec_get_fuse f1 (of_nat k) = (if k = i then Inr (w c) else jedec_get_fuse fuses (of_nat k))"
      using set_fuse_effect [OF Cons.prems(4) i(1)] by blast
    have "0 \<le> max (int i) mx" "max (int i) mx < int n" using i(1) Cons.prems(5,6) by auto
    from Cons.IH [OF prems f1(2) this]
    obtain mx' f' where r: "bit2jed_loop mf bits cs (max (int i) mx) f1 = Inr (mx', f')" "jed_ok n f'"
      "max (int i) mx \<le> mx'" "mx' < int n"
      "\<And>c. c \<in> set cs \<Longrightarrow> 0 \<le> cell_idx mf c \<Longrightarrow> cell_idx mf c \<le> mx' \<and>
         jedec_get_fuse f' (of_nat (nat (cell_idx mf c))) = Inr (w c)"
      "\<And>k. k < n \<Longrightarrow> int k \<notin> cell_idx mf ` set cs \<Longrightarrow> jedec_get_fuse f' (of_nat k) = jedec_get_fuse f1 (of_nat k)"
      by blast
    have "bit2jed_loop mf bits (c # cs) mx fuses = Inr (mx', f')"
      using idx f1(1) r(1) i(2,3) by simp
    moreover have set_c: "jedec_get_fuse f' (of_nat i) = Inr (w c)" using r(6) [OF i(1) ne] f1(3) [OF i(1)] by simp
    moreover have "\<forall>k < n. int k \<notin> cell_idx mf ` set (c # cs) \<longrightarrow> jedec_get_fuse f' (of_nat k) = jedec_get_fuse fuses (of_nat k)"
      using r(6) f1(3) i(2) by auto
    moreover have "\<forall>d \<in> set (c # cs). 0 \<le> cell_idx mf d \<longrightarrow> cell_idx mf d \<le> mx' \<and>
       jedec_get_fuse f' (of_nat (nat (cell_idx mf d))) = Inr (w d)"
    proof (intro ballI impI)
      fix d assume d: "d \<in> set (c # cs)" "0 \<le> cell_idx mf d"
      show "cell_idx mf d \<le> mx' \<and> jedec_get_fuse f' (of_nat (nat (cell_idx mf d))) = Inr (w d)"
      proof (cases "d = c")
        case True
        then show ?thesis using r(3) i(2) set_c by simp
      next
        case False
        then show ?thesis using r(5) d by simp
      qed
    qed
    ultimately show ?thesis using r(2-4) by (intro exI [of _ mx'] exI [of _ f']) simp
  next
    case False
    from Cons.IH [OF prems Cons.prems(4-6)]
    obtain mx' f' where r: "bit2jed_loop mf bits cs mx fuses = Inr (mx', f')" "jed_ok n f'" "mx \<le> mx'" "mx' < int n"
      "\<forall>c \<in> set cs. 0 \<le> cell_idx mf c \<longrightarrow> cell_idx mf c \<le> mx' \<and>
         jedec_get_fuse f' (of_nat (nat (cell_idx mf c))) = Inr (w c)"
      "\<forall>k < n. int k \<notin> cell_idx mf ` set cs \<longrightarrow> jedec_get_fuse f' (of_nat k) = jedec_get_fuse fuses (of_nat k)"
      by blast
    have "bit2jed_loop mf bits (c # cs) mx fuses = Inr (mx', f')" using idx r(1) False by simp
    moreover have "\<forall>d \<in> set (c # cs). 0 \<le> cell_idx mf d \<longrightarrow> cell_idx mf d \<le> mx' \<and>
       jedec_get_fuse f' (of_nat (nat (cell_idx mf d))) = Inr (w d)"
      using r(5) False by simp
    moreover have "\<forall>k < n. int k \<notin> cell_idx mf ` set (c # cs) \<longrightarrow> jedec_get_fuse f' (of_nat k) = jedec_get_fuse fuses (of_nat k)"
      using r(6) by simp
    ultimately show ?thesis using r(2-4) by (intro exI [of _ mx'] exI [of _ f']) simp
  qed
qed auto

text \<open>
  C10. Converting fuses to a programming bit stream and back through a table in which no fuse
  occurs twice gives every fuse of the table its value again, and as many fuses as the highest
  fuse number of the table needs.\<close>

theorem map_roundtrip:
  assumes "map_ok mf" "jed_ok k fuses" "k < 2 ^ 31" "\<forall>c \<in> set (map_cells mf). cell_idx mf c < int k"
  shows "\<exists>bits' fuses' mx. jedecfile2bitfile mf fuses bits = Inr bits' \<and>
    bitfile2jedecfile mf bits' (jed_init junk) = Inr fuses' \<and> fuse_count fuses' = of_nat (mx + 1) \<and>
    (\<forall>c \<in> set (map_cells mf). 0 \<le> cell_idx mf c \<longrightarrow> nat (cell_idx mf c) \<le> mx \<and>
       jedec_get_fuse fuses' (of_nat (nat (cell_idx mf c))) = jedec_get_fuse fuses (of_nat (nat (cell_idx mf c))))"
proof -
  define n where "n = block_size mf * block_num mf"
  have n: "0 < n" "n < 2 ^ 31" using assms(1) by (simp_all add: map_ok_def n_def)
  obtain fl where fl: "fuse_list fuses = Some fl" "nbytes k \<le> length fl" "unat (fuse_count fuses) = k"
    using assms(2) by (auto simp: jed_ok_def)
  have sint: "sint (fuse_count fuses) = int k"
  proof -
    have w: "fuse_count fuses = word_of_int (int k)" unfolding fl(3) [symmetric] by simp
    have "sint (word_of_int (int k) :: u32) = signed_take_bit 31 (int k)"
      unfolding sint_sbintrunc' by simp
    also have "\<dots> = int k" using assms(3) by (intro signed_take_bit_int_eq_self) auto
    finally show ?thesis unfolding w .
  qed
  define v where "v c = (if 0 \<le> cell_idx mf c then buf_bit fl (nat (cell_idx mf c)) else cell_idx mf c \<noteq> - 1)" for c
  have v: "jedec_get_fuse fuses (of_nat (nat (cell_idx mf c))) = Inr (v c)"
    if "c \<in> set (map_cells mf)" "0 \<le> cell_idx mf c" for c
  proof -
    have lt: "nat (cell_idx mf c) < unat (fuse_count fuses)"
      using assms(4) that unfolding fl(3) by (simp add: nat_less_iff)
    then show ?thesis
      using set_fuse_ok(2) [OF fl(1) lt] fl(2,3) that(2) by (simp add: v_def)
  qed
  have "(word_of_int i :: u32) = of_nat (nat i)" if "0 \<le> i" for i using that by simp
  then have fv: "fuse_value fuses (cell_idx mf c) = Inr (v c)" if "c \<in> set (map_cells mf)" for c
    using v [OF that] assms(4) that by (auto simp: fuse_value_def sint v_def)
  obtain b where b: "jedecfile2bitfile mf fuses bits = Inr b"
    "\<And>c. c \<in> set (map_cells mf) \<Longrightarrow> get_bit_bf (bitnum mf c) b = Inr (v c)"
    using jed2bit_loop_effect [OF assms(1) subset_refl distinct_map_cells, of fuses v "setLength n bits"] fv
    by (auto simp: jedecfile2bitfile_def setLength_def n_def)
  obtain j0 where j0: "jed_setLength (of_nat n) (jed_init junk) = Inr j0" "jed_ok n j0"
    using setLength_fresh [of n junk] n by auto
  obtain mx' f1 where f1: "bit2jed_loop mf b (map_cells mf) 0 j0 = Inr (mx', f1)" "jed_ok n f1" "0 \<le> mx'" "mx' < int n"
    "\<forall>c \<in> set (map_cells mf). 0 \<le> cell_idx mf c \<longrightarrow> cell_idx mf c \<le> mx' \<and>
       jedec_get_fuse f1 (of_nat (nat (cell_idx mf c))) = Inr (v c)"
    using bit2jed_loop_effect [OF assms(1) n_def subset_refl distinct_map_cells b(2) j0(2), of 0] n(1) by auto
  define mx where "mx = nat mx'"
  have mx: "mx' = int mx" "mx + 1 \<le> n" using f1(3,4) by (simp_all add: mx_def)
  obtain f2 where f2: "jed_setLength (of_nat (mx + 1)) f1 = Inr f2" "fuse_count f2 = of_nat (mx + 1)"
    "\<And>k. k < mx + 1 \<Longrightarrow> jedec_get_fuse f2 (of_nat k) = jedec_get_fuse f1 (of_nat k)"
    using setLength_shorter [OF f1(2) mx(2)] by blast
  have "(word_of_int (mx' + 1) :: u32) = of_nat (mx + 1)" using mx(1) by simp
  then have "bitfile2jedecfile mf b (jed_init junk) = Inr f2"
    using j0(1) f1(1) f2(1) by (simp only: bitfile2jedecfile_def n_def rbind_simps prod.case)
  moreover have "nat (cell_idx mf c) \<le> mx \<and>
       jedec_get_fuse f2 (of_nat (nat (cell_idx mf c))) = jedec_get_fuse fuses (of_nat (nat (cell_idx mf c)))"
    if "c \<in> set (map_cells mf)" "0 \<le> cell_idx mf c" for c
  proof -
    have "cell_idx mf c \<le> int mx" using f1(5) that mx(1) by auto
    then have lt: "nat (cell_idx mf c) < mx + 1" by linarith
    have "jedec_get_fuse f1 (of_nat (nat (cell_idx mf c))) = Inr (v c)" using f1(5) that by blast
    then have "jedec_get_fuse f2 (of_nat (nat (cell_idx mf c))) = jedec_get_fuse fuses (of_nat (nat (cell_idx mf c)))"
      using f2(3) [OF lt] v [OF that] by (simp only:)
    then show ?thesis using lt by simp
  qed
  ultimately show ?thesis using b(1) f2(2) by blast
qed

definition example_map :: mapfile where
  "example_map = \<lparr>block_size = 2, block_num = 2, fmap = [0, 2, - 1, 1]\<rparr>"

theorem map_roundtrip_witness:
  "\<exists>bits' fuses' mx. jedecfile2bitfile example_map (example_jed 12 [5, 3]) bitfile_init = Inr bits' \<and>
    bitfile2jedecfile example_map bits' (jed_init (\<lambda>_. 7)) = Inr fuses' \<and> fuse_count fuses' = of_nat (mx + 1) \<and>
    (\<forall>c \<in> set (map_cells example_map). 0 \<le> cell_idx example_map c \<longrightarrow> nat (cell_idx example_map c) \<le> mx \<and>
       jedec_get_fuse fuses' (of_nat (nat (cell_idx example_map c))) =
       jedec_get_fuse (example_jed 12 [5, 3]) (of_nat (nat (cell_idx example_map c))))"
proof -
  have c: "map_cells example_map = [(0, 0), (0, 1), (1, 0), (1, 1)]" by (simp add: map_cells_def example_map_def upt_rec)
  then have "map_ok example_map" by (simp add: map_ok_def) (simp add: example_map_def cell_idx_def)
  moreover have "jed_ok 12 (example_jed 12 [5, 3])" by (simp add: jed_ok_def example_jed_def nbytes_def)
  moreover have "\<forall>c \<in> set (map_cells example_map). cell_idx example_map c < int 12"
    unfolding c by (simp add: example_map_def cell_idx_def)
  ultimately show ?thesis
    using map_roundtrip [of example_map 12 "example_jed 12 [5, 3]" bitfile_init "\<lambda>_. 7"] by simp
qed

text \<open>
  A tab or newline that ends an empty cell stores \<open>-1\<close>, the mark of a transfer bit, when no
  earlier cell of the line had contents, also when a later one has; only after the first
  contents does an empty cell count as a plain one.\<close>

theorem readmap_leading_empty_cells:
  "readmap [9, 53, 9, 9, 10] \<lparr>block_size = 1, block_num = 4, fmap = replicate 6 0\<rparr>
    = Inr \<lparr>block_size = 1, block_num = 4, fmap = [- 1, 5, - 2, - 2, 0, 0]\<rparr>"
  by code_simp

end
