(* ===== verification/Srec.thy ===== *)
theory Srec
  imports CStdio
begin

text \<open>
  \<^verbatim>\<open>srecfile.cpp\<close>: the reader of Motorola S-record files. \<open>junk\<close> stands for what uninitialised
  memory holds. The line buffer is not terminated by \<^verbatim>\<open>ReadOneLine\<close> and keeps what earlier, longer
  lines left in it.
\<close>

record S_Record =
  Type :: int
  Address :: int
  Length :: int
  DataLength :: int

record SrecFile =
  StartAddr :: u32
  EndAddr :: u32
  Bytes_Read :: u32
  sbuffer :: "byte list option"

definition srec_init :: "u32 \<Rightarrow> SrecFile" where
  "srec_init junk = \<lparr>StartAddr = junk, EndAddr = junk, Bytes_Read = junk, sbuffer = None\<rparr>"

text \<open>\<^verbatim>\<open>sscanf(ptr, "%lX", &tmp)\<close> of a terminated string; nothing matched leaves \<open>tmp\<close> as it is.\<close>

definition Hex2Bin :: "int \<Rightarrow> byte list \<Rightarrow> int" where
  "Hex2Bin junk chars =
     (let s = takeWhile (\<lambda>b. b \<noteq> 0) chars
      in case scan_hex (length s) s of None \<Rightarrow> junk | Some (v, _) \<Rightarrow> v)"

text \<open>Reading \<open>n\<close> characters through \<^verbatim>\<open>source\<close>, which stands at index \<open>pos\<close> of the line buffer.\<close>

fun src_chars :: "byte list \<Rightarrow> nat \<Rightarrow> nat \<Rightarrow> byte list res" where
  "src_chars source pos 0 = Inr []"
| "src_chars source pos (Suc n) =
     rbind (buf_get source pos) (\<lambda>c. rbind (src_chars source (pos + 1) n) (\<lambda>cs. Inr (c # cs)))"

text \<open>The data bytes of a record, \<open>l\<close> of them, stored through \<^verbatim>\<open>dest\<close> from index \<open>d\<close>.\<close>

fun src_data :: "int \<Rightarrow> byte list \<Rightarrow> nat \<Rightarrow> nat \<Rightarrow> nat \<Rightarrow> byte list \<Rightarrow> byte list res" where
  "src_data junk source pos 0 d dest = Inr dest"
| "src_data junk source pos (Suc l) d dest =
     rbind (src_chars source pos 2) (\<lambda>cs.
     rbind (buf_set dest d (word_of_int (Hex2Bin junk cs))) (\<lambda>dest.
       src_data junk source (pos + 2) l (d + 1) dest))"

text \<open>
  The record types with an address of \<open>n\<close> characters; \<open>data\<close> says whether data bytes follow
  and \<open>term\<close> whether they are terminated by a zero.
\<close>

definition src_record ::
  "int \<Rightarrow> byte list \<Rightarrow> nat \<Rightarrow> bool \<Rightarrow> bool \<Rightarrow> byte list \<Rightarrow> S_Record \<Rightarrow> (S_Record \<times> byte list) res" where
  "src_record junk source n data term dest r =
     rbind (src_chars source 4 n) (\<lambda>a.
       let r = r\<lparr>Address := Hex2Bin junk a\<rparr>;
           l = Length r - int (n div 2) - 1
       in if data then
            rbind (src_data junk source (4 + n) (nat l) 0 dest) (\<lambda>dest.
            rbind (if term then buf_set dest (nat l) 0 else Inr dest) (\<lambda>dest.
              Inr (r\<lparr>DataLength := l\<rparr>, dest)))
          else Inr (r\<lparr>DataLength := 0\<rparr>, dest))"

text \<open>
  \<^verbatim>\<open>DecodeSRecordLine\<close>: every path through the function ends in a return of \<open>-1\<close>, the last
  statement of the function included.
\<close>

definition DecodeSRecordLine ::
  "int \<Rightarrow> byte list \<Rightarrow> byte list \<Rightarrow> S_Record \<Rightarrow> (int \<times> S_Record \<times> byte list) res" where
  "DecodeSRecordLine junk source dest r =
     rbind (buf_get source 0) (\<lambda>s.
       if s \<noteq> 83 then Inr (- 1, r, dest)
       else
         rbind (src_chars source 1 3) (\<lambda>t.
           let r = r\<lparr>Type := sint (hd t) - 48, Length := sint (word_of_int (Hex2Bin junk (tl t)) :: byte)\<rparr>
           in rbind (if Type r = 0 then src_record junk source 4 True True dest r
                     else if Type r = 1 then src_record junk source 4 True False dest r
                     else if Type r = 2 then src_record junk source 6 True False dest r
                     else if Type r = 3 then src_record junk source 8 True False dest r
                     else if Type r = 9 then src_record junk source 4 False False dest r
                     else if Type r = 8 then src_record junk source 6 False False dest r
                     else if Type r = 7 then src_record junk source 8 False False dest r
                     else Inr (r\<lparr>Type := 255, Address := 0, Length := 0, DataLength := 0\<rparr>, dest))
                (\<lambda>(r, dest). Inr (- 1, r, dest))))"

definition STARTRECORD :: int where "STARTRECORD = 0"
definition DATARECORD :: int where "DATARECORD = 1"
definition ENDRECORD :: int where "ENDRECORD = 2"

definition RecordType :: "byte \<Rightarrow> int" where
  "RecordType t =
     (if t = 0 then STARTRECORD
      else if t = 1 \<or> t = 2 \<or> t = 3 then DATARECORD
      else if t = 7 \<or> t = 8 \<or> t = 9 then ENDRECORD
      else 3)"

text \<open>\<^verbatim>\<open>ReadOneLine\<close>: a short read stores the byte \<^verbatim>\<open>0xff\<close> of \<^verbatim>\<open>EOF\<close>. \<open>n\<close> counts the buffer down.\<close>

function ReadOneLine :: "cfile \<Rightarrow> byte list \<Rightarrow> nat \<Rightarrow> nat \<Rightarrow> nat \<times> byte list \<times> cfile" where
  "ReadOneLine f dest len count =
     (if feof f \<or> len \<le> count then (count, dest, f)
      else let (got, f) = fread1 f;
               c = (case got of None \<Rightarrow> 0xff | Some b \<Rightarrow> b)
           in if c = 13 \<or> c = 10
              then if count \<noteq> 0 then (count, dest, f) else ReadOneLine f dest len count
              else ReadOneLine f (dest[count := c]) len (count + 1))"
  by pat_completeness auto
termination
proof (relation "measure (\<lambda>(f, dest, len, count). fleft f)", goal_cases)
  case (2 f dest len count p got f1 c)
  then show ?case using fleft_fread1 [of f] by (metis (no_types, lifting) case_prod_conv in_measure snd_conv)
next
  case (3 f dest len count p got f1 c)
  then show ?case using fleft_fread1 [of f] by (metis (no_types, lifting) case_prod_conv in_measure snd_conv)
qed simp

declare ReadOneLine.simps [simp del]

text \<open>Storing the bytes of a data record: \<open>start\<close>, \<open>bytes\<close> and \<open>maxa\<close> are the running totals.\<close>

fun srec_store ::
  "64 word \<Rightarrow> byte list \<Rightarrow> 64 word \<Rightarrow> nat \<Rightarrow> nat \<Rightarrow> 64 word \<times> 64 word \<times> 64 word \<times> byte list \<Rightarrow>
   (bool \<times> 64 word \<times> 64 word \<times> 64 word \<times> byte list) res" where
  "srec_store bufsize lbuf addr i 0 (start, bytes, maxa, buf) = Inr (True, start, bytes, maxa, buf)"
| "srec_store bufsize lbuf addr i (Suc k) (start, bytes, maxa, buf) =
     (let a = addr + of_nat i;
          start = (if a < start then a else start)
      in if bufsize \<le> a then Inr (False, start, bytes, maxa, buf)
         else rbind (buf_get lbuf i) (\<lambda>b.
              rbind (buf_set buf (unat a) b) (\<lambda>buf.
                srec_store bufsize lbuf addr (i + 1) k (start, bytes + 1, if maxa < a then a else maxa, buf))))"

text \<open>
  The loop over the lines with the code it returns, \<open>fuel\<close> lines at most; no file has more lines
  than it has bytes left to read and one.
\<close>

fun srec_lines ::
  "nat \<Rightarrow> (nat \<Rightarrow> int) \<Rightarrow> 64 word \<Rightarrow> byte list \<Rightarrow> byte list \<Rightarrow> S_Record \<Rightarrow> cfile \<Rightarrow>
   64 word \<times> 64 word \<times> 64 word \<times> byte list \<Rightarrow> (int \<times> 64 word \<times> 64 word \<times> 64 word \<times> byte list) res" where
  "srec_lines 0 junk bufsize line lbuf r f t = Inr (0, t)"
| "srec_lines (Suc fuel) junk bufsize line lbuf r f t =
     (if feof f then Inr (0, t)
      else let (i, line, f) = ReadOneLine f line 256 0
           in if i \<le> 2 then Inr (0, t)
              else rbind (DecodeSRecordLine (junk 0) line lbuf r) (\<lambda>(code, r, lbuf).
                if code < 0 then Inr (- 3, t)
                else if RecordType (word_of_int (Type r)) = DATARECORD
                then rbind (srec_store bufsize lbuf (word_of_int (Address r)) 0 (nat (DataLength r)) t) (\<lambda>(go, t).
                       if go then srec_lines fuel junk bufsize line lbuf r f t else Inr (- 3, t))
                else srec_lines fuel junk bufsize line lbuf r f t))"

text \<open>
  \<open>files\<close> is what \<^verbatim>\<open>fopen\<close> finds under a name; \<open>mem\<close> says whether \<^verbatim>\<open>malloc\<close> has the memory.
\<close>

definition srec_open :: "(byte list \<Rightarrow> byte list option) \<Rightarrow> byte list \<Rightarrow> byte list option" where
  "srec_open files fname =
     (case files fname of
        Some s \<Rightarrow> Some s
      | None \<Rightarrow> if 46 \<in> set fname then None else files (take 252 fname @ ascii ''.rom''))"

definition readSrecFile ::
  "(nat \<Rightarrow> int) \<Rightarrow> bool \<Rightarrow> (byte list \<Rightarrow> byte list option) \<Rightarrow> byte list \<Rightarrow> u32 \<Rightarrow> SrecFile \<Rightarrow> (int \<times> SrecFile) res" where
  "readSrecFile junk mem files fname sz srec =
     (let srec = srec\<lparr>StartAddr := 0, Bytes_Read := 0, EndAddr := 0\<rparr>
      in case srec_open files fname of
           None \<Rightarrow> Inr (- 1, srec)
         | Some s \<Rightarrow>
             let bufsize = (if sz = 0 then 1024 * 1024 else sz);
                 bytes = map (\<lambda>i. word_of_int (junk i))
             in if \<not> mem then Inr (- 2, srec\<lparr>sbuffer := None\<rparr>)
                else rbind (srec_lines (length s + 1) junk (ucast bufsize) (bytes [0..<256]) (bytes [0..<256])
                       \<lparr>Type = junk 1, Address = junk 2, Length = junk 3, DataLength = junk 4\<rparr> (fopen s)
                       (0xffffffff, 0, 0, bytes [0..<unat bufsize]))
                  (\<lambda>(code, start, n, maxa, buf).
                     if code = 0
                     then Inr (0, srec\<lparr>StartAddr := ucast start, Bytes_Read := ucast n, EndAddr := ucast maxa,
                                       sbuffer := Some buf\<rparr>)
                     else Inr (code, srec\<lparr>Bytes_Read := 0, sbuffer := Some buf\<rparr>)))"

section \<open>The reader never succeeds on a record\<close>

lemma DecodeSRecordLine_code: "DecodeSRecordLine junk source dest r = Inr (code, r', dest') \<Longrightarrow> code = - 1"
  by (auto simp: DecodeSRecordLine_def rbind_def Let_def split: sum.splits if_splits prod.splits)

lemma srec_lines_no_data:
  "srec_lines fuel junk bufsize line lbuf r f t = Inr (code, t') \<Longrightarrow> t' = t"
proof (cases fuel)
  case (Suc n)
  obtain i l f1 where "ReadOneLine f line 256 0 = (i, l, f1)" by (cases "ReadOneLine f line 256 0")
  moreover assume "srec_lines fuel junk bufsize line lbuf r f t = Inr (code, t')"
  ultimately show ?thesis
    unfolding Suc using DecodeSRecordLine_code [of "junk 0" l lbuf r]
    by (cases "DecodeSRecordLine (junk 0) l lbuf r") (auto split: if_splits prod.splits)
qed simp

text \<open>
  C12. \<^verbatim>\<open>readSrecFile\<close> never delivers a data byte: \<^verbatim>\<open>DecodeSRecordLine\<close> returns \<open>-1\<close> for every
  record, a well-formed one too, so whatever the file is the reader ends without having read
  a byte.\<close>

theorem readSrecFile_reads_nothing:
  assumes "readSrecFile junk mem files fname sz srec = Inr (code, srec')"
  shows "Bytes_Read srec' = 0 \<and> EndAddr srec' = 0"
proof (cases "srec_open files fname")
  case None
  then show ?thesis using assms by (auto simp: readSrecFile_def Let_def)
next
  case (Some s)
  show ?thesis
  proof (cases mem)
    case True
    let ?bytes = "map (\<lambda>i. word_of_int (junk i))"
    let ?lines = "srec_lines (length s + 1) junk (ucast (if sz = 0 then 1024 * 1024 else sz))
        (?bytes [0..<256]) (?bytes [0..<256]) \<lparr>Type = junk 1, Address = junk 2, Length = junk 3, DataLength = junk 4\<rparr>
        (fopen s) (0xffffffff, 0, 0, ?bytes [0..<unat (if sz = 0 then 1024 * 1024 else sz)])"
    show ?thesis
    proof (cases ?lines)
      case (Inr r)
      obtain c start n maxa buf where r: "r = (c, start, n, maxa, buf)" by (cases r)
      with Inr have "n = 0" "maxa = 0" using srec_lines_no_data by blast+
      with assms Some True Inr r show ?thesis
        unfolding readSrecFile_def Let_def by (auto split: if_splits)
    next
      case (Inl e)
      with assms Some True show ?thesis
        unfolding readSrecFile_def Let_def by (auto split: if_splits)
    qed
  next
    case False
    with assms Some show ?thesis by (auto simp: readSrecFile_def Let_def)
  qed
qed

text \<open>A well-formed record with the two data bytes 1 and 2.\<close>

definition example_srec :: "byte list" where
  "example_srec = ascii ''S10500000102F7'' @ [10]"

theorem readSrecFile_reads_nothing_witness:
  "\<exists>srec'. readSrecFile (\<lambda>_. 0) True (\<lambda>_. Some example_srec) [65] 4 (srec_init 0) = Inr (- 3, srec') \<and>
    Bytes_Read srec' = 0 \<and> EndAddr srec' = 0"
proof -
  have "case readSrecFile (\<lambda>_. 0) True (\<lambda>_. Some example_srec) [65] 4 (srec_init 0) of
    Inl _ \<Rightarrow> False | Inr (c, _) \<Rightarrow> c = - 3"
    by code_simp
  then obtain srec' where "readSrecFile (\<lambda>_. 0) True (\<lambda>_. Some example_srec) [65] 4 (srec_init 0) = Inr (- 3, srec')"
    by (auto split: sum.splits)
  then show ?thesis using readSrecFile_reads_nothing by blast
qed

end
