(* ===== verification/Tap.thy ===== *)
theory Tap
  imports Prelude
begin

text \<open>
  The TAP states of \<^verbatim>\<open>Jtag::tapState_t\<close> (\<^verbatim>\<open>jtag.h\<close>) and, as the abstract specification the
  software is checked against, the sixteen-state TAP controller of IEEE 1149.1 that every
  device of the chain runs: its next state at each rising edge of TCK, given TMS.
\<close>

datatype tapState =
    TEST_LOGIC_RESET | RUN_TEST_IDLE
  | SELECT_DR_SCAN | CAPTURE_DR | SHIFT_DR | EXIT1_DR | PAUSE_DR | EXIT2_DR | UPDATE_DR
  | SELECT_IR_SCAN | CAPTURE_IR | SHIFT_IR | EXIT1_IR | PAUSE_IR | EXIT2_IR | UPDATE_IR
  | UNKNOWN

text \<open>The controller; \<open>UNKNOWN\<close> is the software's word for "not known", never a state of a device.\<close>

fun tap_next :: "tapState \<Rightarrow> bool \<Rightarrow> tapState" where
  "tap_next TEST_LOGIC_RESET tms = (if tms then TEST_LOGIC_RESET else RUN_TEST_IDLE)"
| "tap_next RUN_TEST_IDLE tms = (if tms then SELECT_DR_SCAN else RUN_TEST_IDLE)"
| "tap_next SELECT_DR_SCAN tms = (if tms then SELECT_IR_SCAN else CAPTURE_DR)"
| "tap_next CAPTURE_DR tms = (if tms then EXIT1_DR else SHIFT_DR)"
| "tap_next SHIFT_DR tms = (if tms then EXIT1_DR else SHIFT_DR)"
| "tap_next EXIT1_DR tms = (if tms then UPDATE_DR else PAUSE_DR)"
| "tap_next PAUSE_DR tms = (if tms then EXIT2_DR else PAUSE_DR)"
| "tap_next EXIT2_DR tms = (if tms then UPDATE_DR else SHIFT_DR)"
| "tap_next UPDATE_DR tms = (if tms then SELECT_DR_SCAN else RUN_TEST_IDLE)"
| "tap_next SELECT_IR_SCAN tms = (if tms then TEST_LOGIC_RESET else CAPTURE_IR)"
| "tap_next CAPTURE_IR tms = (if tms then EXIT1_IR else SHIFT_IR)"
| "tap_next SHIFT_IR tms = (if tms then EXIT1_IR else SHIFT_IR)"
| "tap_next EXIT1_IR tms = (if tms then UPDATE_IR else PAUSE_IR)"
| "tap_next PAUSE_IR tms = (if tms then EXIT2_IR else PAUSE_IR)"
| "tap_next EXIT2_IR tms = (if tms then UPDATE_IR else SHIFT_IR)"
| "tap_next UPDATE_IR tms = (if tms then SELECT_DR_SCAN else RUN_TEST_IDLE)"
| "tap_next UNKNOWN tms = UNKNOWN"

definition tap_run :: "tapState \<Rightarrow> bool list \<Rightarrow> tapState" where
  "tap_run = foldl tap_next"

lemma tap_run_simps [simp]:
  "tap_run s [] = s"
  "tap_run s (b # bs) = tap_run (tap_next s b) bs"
  "tap_run s (bs @ cs) = tap_run (tap_run s bs) cs"
  by (simp_all add: tap_run_def)

text \<open>The states that a TCK cycle with TMS low does not leave.\<close>

definition tap_stable :: "tapState \<Rightarrow> bool" where
  "tap_stable s \<longleftrightarrow> s \<in> {RUN_TEST_IDLE, SHIFT_DR, PAUSE_DR, SHIFT_IR, PAUSE_IR}"

lemma tap_stable_iff: "s \<noteq> UNKNOWN \<Longrightarrow> tap_stable s \<longleftrightarrow> tap_next s False = s"
  by (cases s) (simp_all add: tap_stable_def)

lemma tap_run_replicate_stable [simp]:
  "tap_stable s \<Longrightarrow> tap_run s (replicate n False) = s"
proof (induction n)
  case (Suc n)
  then have "s \<noteq> UNKNOWN" by (auto simp: tap_stable_def)
  with Suc show ?case using tap_stable_iff [of s] by simp
qed simp

lemma tap_next_known: "s \<noteq> UNKNOWN \<Longrightarrow> tap_next s b \<noteq> UNKNOWN"
  by (cases s) auto

lemma tap_run_known: "s \<noteq> UNKNOWN \<Longrightarrow> tap_run s bs \<noteq> UNKNOWN"
  by (induction bs arbitrary: s) (auto simp: tap_next_known)

text \<open>Five cycles with TMS high reset the controller from wherever it is.\<close>

lemma tap_run_reset: "s \<noteq> UNKNOWN \<Longrightarrow> tap_run s (replicate 5 True) = TEST_LOGIC_RESET"
  by (cases s) (simp_all add: numeral_eq_Suc)

lemma tap_run_TLR [simp]: "tap_run TEST_LOGIC_RESET (replicate n True) = TEST_LOGIC_RESET"
  by (induction n) simp_all

section \<open>What the selected data register sees\<close>

text \<open>
  The TDI bits a data register shifts in: one for every rising edge of TCK in Shift-DR, the
  edge that leaves the state included.
\<close>

fun dr_bits :: "tapState \<Rightarrow> (bool \<times> bool) list \<Rightarrow> bool list" where
  "dr_bits s [] = []"
| "dr_bits s ((tms, tdi) # w) =
     (if s = SHIFT_DR then tdi # dr_bits (tap_next s tms) w else dr_bits (tap_next s tms) w)"

text \<open>Their number is decided by TMS alone.\<close>

fun dr_count :: "tapState \<Rightarrow> bool list \<Rightarrow> nat" where
  "dr_count s [] = 0"
| "dr_count s (tms # w) = (if s = SHIFT_DR then 1 else 0) + dr_count (tap_next s tms) w"

lemma length_dr_bits: "length (dr_bits s w) = dr_count s (map fst w)"
  by (induction s w rule: dr_bits.induct) auto

lemma dr_bits_append: "dr_bits s (v @ w) = dr_bits s v @ dr_bits (tap_run s (map fst v)) w"
  by (induction s v rule: dr_bits.induct) auto

lemma dr_count_append: "dr_count s (v @ w) = dr_count s v + dr_count (tap_run s v) w"
  by (induction s v rule: dr_count.induct) auto

lemma dr_count_stay [simp]: "dr_count SHIFT_DR (replicate n False) = n"
  by (induction n) auto

lemma dr_bits_block:
  assumes "length bs = n"
  shows "dr_bits SHIFT_DR (zip (replicate n False) bs) = bs"
  using assms by (induction n arbitrary: bs) (auto simp: length_Suc_conv)

lemma dr_bits_block_last:
  assumes "length bs = n" and "0 < n"
  shows "dr_bits SHIFT_DR (zip (replicate (n - 1) False @ [b]) bs) = bs"
  using assms
proof (induction n arbitrary: bs)
  case (Suc n)
  then show ?case by (cases n) (auto simp: length_Suc_conv)
qed simp

end
