(* ===== verification/IOBase.thy ===== *)
theory IOBase
  imports Tap
begin

text \<open>
  \<^verbatim>\<open>iobase.cpp\<close>: the base class of all cables. It collects TMS bits in a 128 byte buffer and
  hands whole blocks to the two virtual methods of the cable driver. The driver's methods
  are the fields of a record, its own state is the type parameter; what a driver owes its
  caller is the locale \<open>tms_cable\<close> and, for the data bits, \<open>data_cable\<close>.
\<close>

text \<open>
  The virtual methods of \<^verbatim>\<open>IOBase\<close>. \<open>txrx_block tdi want n lastb\<close> gets \<open>None\<close> for a null
  \<^verbatim>\<open>tdi\<close> pointer; \<open>want\<close> says whether the \<^verbatim>\<open>tdo\<close> pointer is non-null, and the bytes stored
  through it are returned. Lengths are bit counts; no caller passes a negative one.
\<close>

record 'w io_driver =
  txrx_block :: "byte list option \<Rightarrow> bool \<Rightarrow> nat \<Rightarrow> bool \<Rightarrow> 'w \<Rightarrow> byte list \<times> 'w"
  tx_tms :: "byte list \<Rightarrow> nat \<Rightarrow> bool \<Rightarrow> 'w \<Rightarrow> 'w"

record 'w iobase =
  tms_buf :: "byte list"
  tms_len :: nat
  dev :: 'w

definition CHUNK_SIZE :: nat where
  "CHUNK_SIZE = 128"

definition iobase_init :: "'w \<Rightarrow> 'w iobase" where
  "iobase_init w = \<lparr>tms_buf = replicate CHUNK_SIZE 0, tms_len = 0, dev = w\<rparr>"

definition flush_tms :: "'w io_driver \<Rightarrow> bool \<Rightarrow> 'w iobase \<Rightarrow> 'w iobase" where
  "flush_tms drv force io =
     (let io = (if tms_len io \<noteq> 0
                then io\<lparr>dev := tx_tms drv (tms_buf io) (tms_len io) force (dev io)\<rparr>
                else io)
      in io\<lparr>tms_buf := replicate CHUNK_SIZE 0, tms_len := 0\<rparr>)"

definition set_tms :: "'w io_driver \<Rightarrow> bool \<Rightarrow> 'w iobase \<Rightarrow> 'w iobase" where
  "set_tms drv val io =
     (let io = (if tms_len io + 1 > CHUNK_SIZE * 8 then flush_tms drv False io else io);
          i = tms_len io div 8;
          io = (if val
                then io\<lparr>tms_buf := (tms_buf io)[i := tms_buf io ! i OR push_bit (tms_len io mod 8) 1]\<rparr>
                else io)
      in io\<lparr>tms_len := tms_len io + 1\<rparr>)"

definition shiftTDITDO ::
  "'w io_driver \<Rightarrow> byte list option \<Rightarrow> bool \<Rightarrow> nat \<Rightarrow> bool \<Rightarrow> 'w iobase \<Rightarrow> byte list \<times> 'w iobase" where
  "shiftTDITDO drv tdi want n lastb io =
     (if n = 0 then ([], io)
      else let io = flush_tms drv False io;
               (tdo, w) = txrx_block drv tdi want n lastb (dev io)
           in (tdo, io\<lparr>dev := w\<rparr>))"

definition shiftTDI :: "'w io_driver \<Rightarrow> byte list \<Rightarrow> nat \<Rightarrow> bool \<Rightarrow> 'w iobase \<Rightarrow> 'w iobase" where
  "shiftTDI drv tdi n lastb io = snd (shiftTDITDO drv (Some tdi) False n lastb io)"

definition shiftTDO :: "'w io_driver \<Rightarrow> nat \<Rightarrow> bool \<Rightarrow> 'w iobase \<Rightarrow> byte list \<times> 'w iobase" where
  "shiftTDO drv n lastb io = shiftTDITDO drv None True n lastb io"

function shift_loop :: "'w io_driver \<Rightarrow> byte list \<Rightarrow> nat \<Rightarrow> bool \<Rightarrow> 'w iobase \<Rightarrow> 'w iobase" where
  "shift_loop drv block n lastb io =
     (if n > CHUNK_SIZE * 8
      then shift_loop drv block (n - CHUNK_SIZE * 8) lastb
             (io\<lparr>dev := snd (txrx_block drv (Some block) False (CHUNK_SIZE * 8) False (dev io))\<rparr>)
      else snd (shiftTDITDO drv (Some block) False n lastb io))"
  by pat_completeness auto
termination
  by (relation "measure (\<lambda>(drv, block, n, lastb, io). n)") (auto simp: CHUNK_SIZE_def)

declare shift_loop.simps [simp del]

definition shift :: "'w io_driver \<Rightarrow> bool \<Rightarrow> nat \<Rightarrow> bool \<Rightarrow> 'w iobase \<Rightarrow> 'w iobase" where
  "shift drv tdi n lastb io =
     shift_loop drv (replicate CHUNK_SIZE (if tdi then 255 else 0)) n lastb (flush_tms drv False io)"

section \<open>The TMS buffer\<close>

text \<open>
  The bits collected and not yet sent, and the buffer's invariant: it never overflows and
  the bits beyond \<^verbatim>\<open>tms_len\<close> are zero, which is what lets \<^verbatim>\<open>set_tms\<close> only ever set bits.
\<close>

definition pending :: "'w iobase \<Rightarrow> bool list" where
  "pending io = buf_bits (tms_buf io) (tms_len io)"

definition io_inv :: "'w iobase \<Rightarrow> bool" where
  "io_inv io \<longleftrightarrow> length (tms_buf io) = CHUNK_SIZE \<and> tms_len io \<le> CHUNK_SIZE * 8 \<and>
     (\<forall>k < CHUNK_SIZE * 8. tms_len io \<le> k \<longrightarrow> \<not> buf_bit (tms_buf io) k)"

lemma zero_buf_bit [simp]: "k < 8 * n \<Longrightarrow> \<not> buf_bit (replicate n 0) k"
  by (simp add: buf_bit_def)

lemma io_inv_init: "io_inv (iobase_init w)" and pending_init: "pending (iobase_init w) = []"
  by (simp_all add: io_inv_def iobase_init_def pending_def)

lemma flush_tms_state [simp]:
  "tms_len (flush_tms drv f io) = 0"
  "tms_buf (flush_tms drv f io) = replicate CHUNK_SIZE 0"
  by (simp_all add: flush_tms_def Let_def)

lemma flush_tms_dev:
  "dev (flush_tms drv f io) =
     (if tms_len io = 0 then dev io else tx_tms drv (tms_buf io) (tms_len io) f (dev io))"
  by (simp add: flush_tms_def Let_def)

lemma length_pending [simp]: "length (pending io) = tms_len io"
  by (simp add: pending_def)

lemma flush_tms_inv [simp]: "io_inv (flush_tms drv f io)"
  and pending_flush [simp]: "pending (flush_tms drv f io) = []"
  by (simp_all add: io_inv_def pending_def)

lemma io_inv_dev [simp]: "io_inv (io\<lparr>dev := w\<rparr>) = io_inv io"
  and pending_dev [simp]: "pending (io\<lparr>dev := w\<rparr>) = pending io"
  by (simp_all add: io_inv_def pending_def)

lemma shiftTDITDO_inv: "io_inv io \<Longrightarrow> io_inv (snd (shiftTDITDO drv tdi want n lastb io))"
  by (simp add: shiftTDITDO_def Let_def split: prod.splits)

lemma shift_loop_inv: "io_inv io \<Longrightarrow> io_inv (shift_loop drv block n lastb io)"
  by (induction drv block n lastb io rule: shift_loop.induct)
     (subst shift_loop.simps, simp add: shiftTDITDO_inv)

lemma shiftTDITDO_empty: "pending io = [] \<Longrightarrow> pending (snd (shiftTDITDO drv tdi want n lastb io)) = []"
  by (simp add: shiftTDITDO_def Let_def split: prod.splits)

lemma shift_loop_empty: "pending io = [] \<Longrightarrow> pending (shift_loop drv block n lastb io) = []"
  by (induction drv block n lastb io rule: shift_loop.induct)
     (subst shift_loop.simps, simp add: shiftTDITDO_empty)

lemma shift_empty: "pending (shift drv tdi n lastb io) = []"
  by (simp add: shift_def shift_loop_empty)

lemma shift_inv: "io_inv (shift drv tdi n lastb io)"
  by (simp add: shift_def shift_loop_inv)

text \<open>One bit more, on a buffer with room for it.\<close>

lemma set_tms_room:
  assumes "io_inv io" and "tms_len io < CHUNK_SIZE * 8"
  shows "io_inv (set_tms drv val io)"
    and "pending (set_tms drv val io) = pending io @ [val]"
    and "dev (set_tms drv val io) = dev io"
proof -
  let ?n = "tms_len io" and ?b = "tms_buf io"
  have buf: "tms_buf (set_tms drv val io) = (if val then buf_put ?b ?n True else ?b)"
    and len: "tms_len (set_tms drv val io) = Suc ?n"
    using assms by (simp_all add: set_tms_def Let_def buf_put_def put_bit_def)
  have idx: "?n div 8 < length ?b"
    using assms by (simp add: io_inv_def CHUNK_SIZE_def)
  have old: "\<not> buf_bit ?b ?n"
    using assms by (simp add: io_inv_def)
  have bit: "buf_bit (tms_buf (set_tms drv val io)) k = (if k = ?n then val else buf_bit ?b k)" for k
    using buf_bit_put [OF idx] old by (simp add: buf)
  show "io_inv (set_tms drv val io)"
    using assms by (auto simp: io_inv_def len bit) (simp_all add: buf)
  show "pending (set_tms drv val io) = pending io @ [val]"
    by (simp add: pending_def len buf_bits_Suc bit) (simp add: buf_bits_def bit)
  show "dev (set_tms drv val io) = dev io"
    using assms by (simp add: set_tms_def Let_def)
qed

lemma set_tms_full:
  assumes "\<not> tms_len io < CHUNK_SIZE * 8"
  shows "set_tms drv val io = set_tms drv val (flush_tms drv False io)"
  using assms by (simp add: set_tms_def Let_def CHUNK_SIZE_def)

lemma set_tms_inv:
  assumes "io_inv io"
  shows "io_inv (set_tms drv val io)"
proof (cases "tms_len io < CHUNK_SIZE * 8")
  case False
  then show ?thesis
    using set_tms_room(1) [of "flush_tms drv False io" drv val]
    by (simp add: set_tms_full CHUNK_SIZE_def)
qed (simp add: assms set_tms_room(1))

section \<open>What a cable driver owes its caller\<close>

text \<open>
  \<open>wire\<close> reads off the driver's state the (TMS, TDI) pairs the chain has sampled so far, one
  per rising edge of TCK. A driver clocks out exactly the TMS pattern it is given, and
  clocks a block with TMS low, but for the last bit if it is to leave the shift state.
  \<open>tms_seen\<close> are the TMS bits sent so far and, after them, those still in the buffer.
\<close>

definition tms_seen :: "('w \<Rightarrow> (bool \<times> bool) list) \<Rightarrow> 'w iobase \<Rightarrow> bool list" where
  "tms_seen wire io = map fst (wire (dev io)) @ pending io"

locale tms_cable =
  fixes drv :: "'w io_driver" and wire :: "'w \<Rightarrow> (bool \<times> bool) list"
  assumes wire_tx_tms:
    "n \<le> 8 * length pat \<Longrightarrow>
     map fst (wire (tx_tms drv pat n force w)) = map fst (wire w) @ buf_bits pat n"
  and wire_txrx_tms:
    "0 < n \<Longrightarrow> (\<And>bs. tdi = Some bs \<Longrightarrow> n \<le> 8 * length bs) \<Longrightarrow>
     map fst (wire (snd (txrx_block drv tdi want n lastb w)))
       = map fst (wire w) @ replicate (n - 1) False @ [lastb]"
begin

lemma tms_seen_flush:
  assumes "io_inv io"
  shows "tms_seen wire (flush_tms drv f io) = tms_seen wire io"
    and "map fst (wire (dev (flush_tms drv f io))) = tms_seen wire io"
proof -
  have "tms_len io \<le> 8 * length (tms_buf io)"
    using assms by (simp add: io_inv_def CHUNK_SIZE_def)
  then show "map fst (wire (dev (flush_tms drv f io))) = tms_seen wire io"
    by (simp add: flush_tms_dev wire_tx_tms tms_seen_def pending_def)
  then show "tms_seen wire (flush_tms drv f io) = tms_seen wire io"
    by (simp add: tms_seen_def)
qed

lemma tms_seen_set_tms:
  assumes "io_inv io"
  shows "tms_seen wire (set_tms drv val io) = tms_seen wire io @ [val]"
proof (cases "tms_len io < CHUNK_SIZE * 8")
  case True
  with assms show ?thesis by (simp add: tms_seen_def set_tms_room)
next
  case False
  have "tms_seen wire (set_tms drv val (flush_tms drv False io)) = tms_seen wire (flush_tms drv False io) @ [val]"
    using set_tms_room [of "flush_tms drv False io" drv val]
    by (simp add: tms_seen_def CHUNK_SIZE_def)
  with False assms show ?thesis by (simp add: set_tms_full tms_seen_flush(1))
qed

lemma tms_seen_shiftTDITDO:
  assumes "io_inv io" and "\<And>bs. tdi = Some bs \<Longrightarrow> n \<le> 8 * length bs"
  shows "tms_seen wire (snd (shiftTDITDO drv tdi want n lastb io)) =
     tms_seen wire io @ (if n = 0 then [] else replicate (n - 1) False @ [lastb])"
  using assms wire_txrx_tms [of n tdi want lastb "dev (flush_tms drv False io)"]
  by (auto simp: shiftTDITDO_def Let_def tms_seen_def tms_seen_flush split: prod.splits)

lemma tms_seen_shift_loop:
  assumes "pending io = []" and "io_inv io" and "length block = CHUNK_SIZE" and "0 < n"
  shows "tms_seen wire (shift_loop drv block n lastb io) = tms_seen wire io @ replicate (n - 1) False @ [lastb]"
  using assms
proof (induction n arbitrary: io rule: less_induct)
  case (less n)
  show ?case
  proof (cases "n > CHUNK_SIZE * 8")
    case True
    let ?io = "io\<lparr>dev := snd (txrx_block drv (Some block) False (CHUNK_SIZE * 8) False (dev io))\<rparr>"
    have "tms_seen wire ?io = tms_seen wire io @ replicate (CHUNK_SIZE * 8) False"
      using less.prems wire_txrx_tms [of "CHUNK_SIZE * 8" "Some block" False False "dev io"]
      by (simp add: tms_seen_def CHUNK_SIZE_def replicate_append_Suc)
    moreover have "tms_seen wire (shift_loop drv block (n - CHUNK_SIZE * 8) lastb ?io)
        = tms_seen wire ?io @ replicate (n - CHUNK_SIZE * 8 - 1) False @ [lastb]"
      using less.prems True by (intro less.IH) (simp_all add: CHUNK_SIZE_def)
    moreover have "shift_loop drv block n lastb io = shift_loop drv block (n - CHUNK_SIZE * 8) lastb ?io"
      using True by (subst shift_loop.simps) simp
    moreover have "replicate (n - 1) False =
        replicate (CHUNK_SIZE * 8) False @ replicate (n - CHUNK_SIZE * 8 - 1) False"
      using True by (simp flip: replicate_add)
    ultimately show ?thesis by simp
  next
    case False
    then show ?thesis
      using less.prems tms_seen_shiftTDITDO [of io "Some block" n False lastb]
      by (subst shift_loop.simps) auto
  qed
qed

lemma shift_loop_0: "shift_loop drv block 0 lastb io = io"
  by (simp add: shift_loop.simps [of _ _ 0] shiftTDITDO_def)

lemma tms_seen_shift:
  assumes "io_inv io"
  shows "tms_seen wire (shift drv tdi n lastb io) =
     tms_seen wire io @ (if n = 0 then [] else replicate (n - 1) False @ [lastb])"
proof (cases "n = 0")
  case True
  with assms show ?thesis
    by (simp add: shift_def shift_loop_0 tms_seen_flush)
next
  case False
  with assms show ?thesis
    by (simp add: shift_def tms_seen_shift_loop tms_seen_flush)
qed

lemmas tms_seen_ops = tms_seen_flush(1) tms_seen_set_tms tms_seen_shiftTDITDO tms_seen_shift

end

text \<open>
  A driver that also delivers the data: block bit \<open>k\<close> is on TDI at the \<open>k\<close>-th cycle.
\<close>

locale data_cable = tms_cable +
  assumes wire_txrx_tdi:
    "0 < n \<Longrightarrow> n \<le> 8 * length bs \<Longrightarrow>
     map snd (wire (snd (txrx_block drv (Some bs) want n lastb w)))
       = map snd (wire w) @ buf_bits bs n"
begin

lemma wire_txrx:
  assumes "0 < n" and "n \<le> 8 * length bs"
  shows "wire (snd (txrx_block drv (Some bs) want n lastb w))
       = wire w @ zip (replicate (n - 1) False @ [lastb]) (buf_bits bs n)"
proof (rule nth_equalityI)
  let ?w = "wire (snd (txrx_block drv (Some bs) want n lastb w))"
  let ?r = "wire w @ zip (replicate (n - 1) False @ [lastb]) (buf_bits bs n)"
  have f: "map fst ?w = map fst ?r" and s: "map snd ?w = map snd ?r"
    using assms wire_txrx_tms [of n "Some bs" want lastb w] wire_txrx_tdi [of n bs want lastb w]
    by simp_all
  from f show "length ?w = length ?r" by (rule map_eq_imp_length_eq)
  fix i assume "i < length ?w"
  then have i: "i < length ?w" "i < length ?r"
    using \<open>length ?w = length ?r\<close> by simp_all
  have "fst (?w ! i) = fst (?r ! i)"
    using arg_cong [OF f, of "\<lambda>l. l ! i"] by (simp only: nth_map i)
  moreover have "snd (?w ! i) = snd (?r ! i)"
    using arg_cong [OF s, of "\<lambda>l. l ! i"] by (simp only: nth_map i)
  ultimately show "?w ! i = ?r ! i" by (rule prod_eqI)
qed

lemma wire_shiftTDITDO:
  assumes "n \<le> 8 * length bs"
  shows "wire (dev (snd (shiftTDITDO drv (Some bs) want n lastb io))) =
     (if n = 0 then wire (dev io)
      else wire (dev (flush_tms drv False io)) @ zip (replicate (n - 1) False @ [lastb]) (buf_bits bs n))"
  using assms wire_txrx [of n bs want lastb "dev (flush_tms drv False io)"]
  by (auto simp: shiftTDITDO_def Let_def split: prod.splits)

lemma wire_shift_loop:
  assumes "tms_len io = 0" and "tms_buf io = replicate CHUNK_SIZE 0" and "0 < n"
  shows "wire (dev (shift_loop drv (replicate CHUNK_SIZE (if tdi then 255 else 0)) n lastb io)) =
     wire (dev io) @ zip (replicate (n - 1) False @ [lastb]) (replicate n tdi)"
  using assms
proof (induction n arbitrary: io rule: less_induct)
  case (less n)
  let ?block = "replicate CHUNK_SIZE (if tdi then 255 else 0) :: byte list"
  have bits: "buf_bits ?block k = replicate k tdi" if "k \<le> CHUNK_SIZE * 8" for k
  proof (rule nth_equalityI)
    fix i assume "i < length (buf_bits ?block k)"
    then have "i < k" "i div 8 < CHUNK_SIZE" "i mod 8 < 8" using that by simp_all
    moreover have "bit (255 :: byte) m" if "m < 8" for m
      using that by (auto simp: less_Suc_eq numeral_eq_Suc bit_Suc)
    ultimately show "buf_bits ?block k ! i = replicate k tdi ! i"
      by (cases tdi) (simp_all add: buf_bit_def)
  qed simp
  show ?case
  proof (cases "n > CHUNK_SIZE * 8")
    case True
    let ?m = "n - CHUNK_SIZE * 8"
    let ?io = "io\<lparr>dev := snd (txrx_block drv (Some ?block) False (CHUNK_SIZE * 8) False (dev io))\<rparr>"
    have "wire (dev ?io) = wire (dev io) @ zip (replicate (CHUNK_SIZE * 8) False) (replicate (CHUNK_SIZE * 8) tdi)"
      using wire_txrx [of "CHUNK_SIZE * 8" ?block False False "dev io"] bits [of "CHUNK_SIZE * 8"]
      by (simp add: CHUNK_SIZE_def replicate_append_Suc)
    moreover have "wire (dev (shift_loop drv ?block ?m lastb ?io))
        = wire (dev ?io) @ zip (replicate (?m - 1) False @ [lastb]) (replicate ?m tdi)"
      using less.prems True by (intro less.IH) (simp_all add: CHUNK_SIZE_def)
    moreover have "shift_loop drv ?block n lastb io = shift_loop drv ?block ?m lastb ?io"
      using True by (subst shift_loop.simps) simp
    moreover have "replicate (n - 1) False @ [lastb] =
        replicate (CHUNK_SIZE * 8) False @ replicate (?m - 1) False @ [lastb]"
      using True by (simp flip: replicate_add append_assoc)
    moreover have "replicate n tdi = replicate (CHUNK_SIZE * 8) tdi @ replicate ?m tdi"
      using True by (simp flip: replicate_add)
    ultimately show ?thesis by simp
  next
    case False
    then show ?thesis
      using less.prems wire_shiftTDITDO [of n ?block False lastb io] bits [of n]
      by (subst shift_loop.simps) (simp add: flush_tms_dev)
  qed
qed

lemma wire_shift:
  "wire (dev (shift drv tdi n lastb io)) = wire (dev (flush_tms drv False io)) @
     (if n = 0 then [] else zip (replicate (n - 1) False @ [lastb]) (replicate n tdi))"
  using wire_shift_loop [of "flush_tms drv False io" n tdi lastb]
  by (simp add: shift_def shift_loop_0)

end

end
