(* ===== verification/Jtag.thy ===== *)
theory Jtag
  imports IOBase
begin

text \<open>
  \<^verbatim>\<open>jtag.cpp\<close> and \<^verbatim>\<open>jtag.h\<close>: navigation of the TAP controller, chain detection, instruction
  and data scans with the bypass padding for the other devices of the chain. Operations
  that may not return (the navigation loop has no exit for the target \<open>UNKNOWN\<close>) have
  results of type \<open>option\<close>.
\<close>

record chainParam =
  idcode :: u32
  irlen :: nat

record 'w jtag =
  current_state :: tapState
  devices :: "chainParam list"
  jio :: "'w iobase"
  numDevices :: int
  postDRState :: tapState
  postIRState :: tapState
  deviceIndex :: int
  shiftDRincomplete :: bool

definition jtag_init :: "'w iobase \<Rightarrow> 'w jtag" where
  "jtag_init io = \<lparr>current_state = UNKNOWN, devices = [], jio = io, numDevices = - 1,
     postDRState = RUN_TEST_IDLE, postIRState = RUN_TEST_IDLE, deviceIndex = - 1,
     shiftDRincomplete = False\<rparr>"

definition MAXNUMDEVICES :: nat where
  "MAXNUMDEVICES = 1000"

section \<open>Integers to byte buffers and back\<close>

definition longToByteArray :: "u32 \<Rightarrow> byte list" where
  "longToByteArray l =
     [ucast (l AND 255), ucast (drop_bit 8 l AND 255),
      ucast (drop_bit 16 l AND 255), ucast (drop_bit 24 l AND 255)]"

definition longToByteArrayRev :: "(byte \<Rightarrow> byte) \<Rightarrow> u32 \<Rightarrow> byte list" where
  "longToByteArrayRev rv l = map rv
     [ucast (l AND 255), ucast (drop_bit 8 l AND 255),
      ucast (drop_bit 16 l AND 255), ucast (drop_bit 24 l AND 255)]"

definition shortToByteArray :: "u16 \<Rightarrow> byte list" where
  "shortToByteArray l = [ucast (l AND 255), ucast (drop_bit 8 l AND 255)]"

definition byteArrayToLong :: "byte list \<Rightarrow> u32" where
  "byteArrayToLong b =
     push_bit 24 (ucast (b ! 3)) + push_bit 16 (ucast (b ! 2)) + push_bit 8 (ucast (b ! 1)) + ucast (b ! 0)"

definition byteArrayToShort :: "byte list \<Rightarrow> u16" where
  "byteArrayToShort b = ucast (b ! 0) OR push_bit 8 (ucast (b ! 1))"

section \<open>Navigation\<close>

text \<open>
  The switch of \<^verbatim>\<open>setTapState\<close>: from a current state, with the target \<open>t\<close>, the TMS bit to
  send and the state it leads to.
\<close>

fun tap_route :: "tapState \<Rightarrow> tapState \<Rightarrow> bool \<times> tapState" where
  "tap_route t TEST_LOGIC_RESET =
     (if t = TEST_LOGIC_RESET then (True, TEST_LOGIC_RESET) else (False, RUN_TEST_IDLE))"
| "tap_route t RUN_TEST_IDLE =
     (if t = RUN_TEST_IDLE then (False, RUN_TEST_IDLE) else (True, SELECT_DR_SCAN))"
| "tap_route t SELECT_DR_SCAN =
     (if t \<in> {CAPTURE_DR, SHIFT_DR, EXIT1_DR, PAUSE_DR, EXIT2_DR, UPDATE_DR}
      then (False, CAPTURE_DR) else (True, SELECT_IR_SCAN))"
| "tap_route t CAPTURE_DR = (if t = SHIFT_DR then (False, SHIFT_DR) else (True, EXIT1_DR))"
| "tap_route t SHIFT_DR = (if t = SHIFT_DR then (False, SHIFT_DR) else (True, EXIT1_DR))"
| "tap_route t EXIT1_DR =
     (if t \<in> {PAUSE_DR, EXIT2_DR, SHIFT_DR, EXIT1_DR} then (False, PAUSE_DR) else (True, UPDATE_DR))"
| "tap_route t PAUSE_DR = (if t = PAUSE_DR then (False, PAUSE_DR) else (True, EXIT2_DR))"
| "tap_route t EXIT2_DR =
     (if t \<in> {SHIFT_DR, EXIT1_DR, PAUSE_DR} then (False, SHIFT_DR) else (True, UPDATE_DR))"
| "tap_route t UPDATE_DR =
     (if t = RUN_TEST_IDLE then (False, RUN_TEST_IDLE) else (True, SELECT_DR_SCAN))"
| "tap_route t SELECT_IR_SCAN =
     (if t \<in> {CAPTURE_IR, SHIFT_IR, EXIT1_IR, PAUSE_IR, EXIT2_IR, UPDATE_IR}
      then (False, CAPTURE_IR) else (True, TEST_LOGIC_RESET))"
| "tap_route t CAPTURE_IR = (if t = SHIFT_IR then (False, SHIFT_IR) else (True, EXIT1_IR))"
| "tap_route t SHIFT_IR = (if t = SHIFT_IR then (False, SHIFT_IR) else (True, EXIT1_IR))"
| "tap_route t EXIT1_IR =
     (if t \<in> {PAUSE_IR, EXIT2_IR, SHIFT_IR, EXIT1_IR} then (False, PAUSE_IR) else (True, UPDATE_IR))"
| "tap_route t PAUSE_IR = (if t = PAUSE_IR then (False, PAUSE_IR) else (True, EXIT2_IR))"
| "tap_route t EXIT2_IR =
     (if t \<in> {SHIFT_IR, EXIT1_IR, PAUSE_IR} then (False, SHIFT_IR) else (True, UPDATE_IR))"
| "tap_route t UPDATE_IR =
     (if t = RUN_TEST_IDLE then (False, RUN_TEST_IDLE) else (True, SELECT_DR_SCAN))"
| "tap_route t UNKNOWN = (True, TEST_LOGIC_RESET)"

fun set_tms_n :: "'w io_driver \<Rightarrow> bool \<Rightarrow> nat \<Rightarrow> 'w iobase \<Rightarrow> 'w iobase" where
  "set_tms_n drv v 0 io = io"
| "set_tms_n drv v (Suc n) io = set_tms_n drv v n (set_tms drv v io)"

definition tapTestLogicReset :: "'w io_driver \<Rightarrow> 'w jtag \<Rightarrow> 'w jtag" where
  "tapTestLogicReset drv j =
     j\<lparr>current_state := TEST_LOGIC_RESET,
       jio := flush_tms drv True (set_tms_n drv True 5 (jio j))\<rparr>"

text \<open>One pass of the loop; the default case resets the controller and then sends TMS once more.\<close>

definition tap_step :: "'w io_driver \<Rightarrow> tapState \<Rightarrow> 'w jtag \<Rightarrow> 'w jtag" where
  "tap_step drv t j =
     (if current_state j = UNKNOWN
      then let j = tapTestLogicReset drv j in j\<lparr>jio := set_tms drv True (jio j)\<rparr>
      else let (tms, s) = tap_route t (current_state j)
           in j\<lparr>current_state := s, jio := set_tms drv tms (jio j)\<rparr>)"

partial_function (option) tap_loop :: "'w io_driver \<Rightarrow> tapState \<Rightarrow> 'w jtag \<Rightarrow> 'w jtag option" where
  "tap_loop drv t j =
     (if current_state j = t then Some j else tap_loop drv t (tap_step drv t j))"

definition setTapState :: "'w io_driver \<Rightarrow> tapState \<Rightarrow> nat \<Rightarrow> 'w jtag \<Rightarrow> 'w jtag option" where
  "setTapState drv t pre j =
     do { j \<leftarrow> tap_loop drv t j; Some (j\<lparr>jio := set_tms_n drv False pre (jio j)\<rparr>) }"

definition nextTapState :: "'w io_driver \<Rightarrow> bool \<Rightarrow> 'w jtag \<Rightarrow> 'w jtag" where
  "nextTapState drv tms j =
     (if current_state j = SHIFT_DR then (if tms then j\<lparr>current_state := EXIT1_DR\<rparr> else j)
      else if current_state j = SHIFT_IR then (if tms then j\<lparr>current_state := EXIT1_IR\<rparr> else j)
      else tapTestLogicReset drv j)"

section \<open>Scans\<close>

definition cycleTCK :: "'w io_driver \<Rightarrow> nat \<Rightarrow> bool \<Rightarrow> 'w jtag \<Rightarrow> 'w jtag" where
  "cycleTCK drv n tdi j = j\<lparr>jio := shift drv tdi n False (jio j)\<rparr>"

definition selectDevice :: "int \<Rightarrow> 'w jtag \<Rightarrow> int \<times> 'w jtag" where
  "selectDevice d j =
     (let j = j\<lparr>deviceIndex := (if d \<ge> numDevices j then - 1 else d)\<rparr> in (deviceIndex j, j))"

definition setDeviceIRLength :: "int \<Rightarrow> nat \<Rightarrow> 'w jtag \<Rightarrow> int \<times> 'w jtag" where
  "setDeviceIRLength d n j =
     (if d \<ge> numDevices j \<or> d < 0 then (- 1, j)
      else (d, j\<lparr>devices := (devices j)[nat d := (devices j ! nat d)\<lparr>irlen := n\<rparr>]\<rparr>))"

definition getDeviceID :: "nat \<Rightarrow> 'w jtag \<Rightarrow> u32" where
  "getDeviceID d j = (if d \<ge> length (devices j) then 0 else idcode (devices j ! d))"

text \<open>
  The loop of \<^verbatim>\<open>getChain\<close>; \<open>left\<close> is \<^verbatim>\<open>MAXNUMDEVICES - numDevices\<close>. The \<^verbatim>\<open>irlen\<close> of a new
  entry is not initialised by the code: \<open>junk\<close> stands for it.
\<close>

fun getChain_loop :: "'w io_driver \<Rightarrow> nat \<Rightarrow> nat \<Rightarrow> 'w jtag \<Rightarrow> 'w jtag" where
  "getChain_loop drv junk 0 j = j"
| "getChain_loop drv junk (Suc left) j =
     (let (idx, io) = shiftTDITDO drv (Some [0, 0, 0, 0]) True 32 False (jio j);
          j = j\<lparr>jio := io\<rparr>;
          id = byteArrayToLong idx
      in if id \<noteq> 0 \<and> id \<noteq> 0xffffffff
         then getChain_loop drv junk left
                (j\<lparr>numDevices := numDevices j + 1,
                   devices := \<lparr>idcode = id, irlen = junk\<rparr> # devices j\<rparr>)
         else j)"

definition getChain :: "'w io_driver \<Rightarrow> nat \<Rightarrow> bool \<Rightarrow> 'w jtag \<Rightarrow> (int \<times> 'w jtag) option" where
  "getChain drv junk detect j =
     (if numDevices j = - 1 \<or> detect
      then do {
        j \<leftarrow> setTapState drv SHIFT_DR 0 (tapTestLogicReset drv j);
        let j = getChain_loop drv junk MAXNUMDEVICES (j\<lparr>numDevices := 0\<rparr>);
        j \<leftarrow> setTapState drv TEST_LOGIC_RESET 0 j;
        Some (numDevices j, j)
      }
      else Some (numDevices j, j))"

text \<open>\<^verbatim>\<open>pre=-post; while(pre<=0)pre+=align;\<close> for a positive \<^verbatim>\<open>align\<close>.\<close>

function align_pre :: "int \<Rightarrow> int \<Rightarrow> int" where
  "align_pre align pre = (if pre \<le> 0 \<and> 0 < align then align_pre align (pre + align) else pre)"
  by pat_completeness auto
termination
  by (relation "measure (\<lambda>(align, pre). nat (1 - pre))") auto

declare align_pre.simps [simp del]

text \<open>\<^verbatim>\<open>tdi\<close> is \<open>None\<close> for a null pointer; the bytes stored through a non-null \<^verbatim>\<open>tdo\<close> are returned.\<close>

definition shiftDR_data ::
  "'w io_driver \<Rightarrow> byte list option \<Rightarrow> bool \<Rightarrow> nat \<Rightarrow> bool \<Rightarrow> 'w iobase \<Rightarrow> byte list \<times> 'w iobase" where
  "shiftDR_data drv tdi want n lastb io =
     (case (tdi, want) of
        (Some bs, True) \<Rightarrow> shiftTDITDO drv (Some bs) True n lastb io
      | (Some bs, False) \<Rightarrow> ([], shiftTDI drv bs n lastb io)
      | (None, True) \<Rightarrow> shiftTDO drv n lastb io
      | (None, False) \<Rightarrow> ([], shift drv False n lastb io))"

text \<open>Entering Shift-DR with the bits for the devices behind the target, unless a scan was left open.\<close>

definition shiftDR_enter :: "'w io_driver \<Rightarrow> nat \<Rightarrow> 'w jtag \<Rightarrow> 'w jtag option" where
  "shiftDR_enter drv align j =
     (if \<not> shiftDRincomplete j
      then let pre = numDevices j - deviceIndex j - 1;
               pre = (if align \<noteq> 0 then align_pre (int align) (- deviceIndex j) else pre)
           in setTapState drv SHIFT_DR (nat pre) j
      else Some j)"

text \<open>The bits for the devices in front of the target, and the way to \<^verbatim>\<open>postDRState\<close>.\<close>

definition shiftDR_leave :: "'w io_driver \<Rightarrow> int \<Rightarrow> bool \<Rightarrow> 'w jtag \<Rightarrow> 'w jtag option" where
  "shiftDR_leave drv post exit j =
     (if exit
      then do {
        let j = j\<lparr>jio := shift drv False (nat post) True (jio j)\<rparr>;
        let j = (if \<not> (post = 0 \<and> exit) then nextTapState drv True j else j);
        j \<leftarrow> setTapState drv (postDRState j) 0 j;
        Some (j\<lparr>shiftDRincomplete := False\<rparr>)
      }
      else Some (j\<lparr>shiftDRincomplete := True\<rparr>))"

definition shiftDR ::
  "'w io_driver \<Rightarrow> byte list option \<Rightarrow> bool \<Rightarrow> nat \<Rightarrow> nat \<Rightarrow> bool \<Rightarrow> 'w jtag \<Rightarrow> (byte list \<times> 'w jtag) option" where
  "shiftDR drv tdi want n align exit j =
     (if deviceIndex j < 0 then Some ([], j)
      else do {
        let post = deviceIndex j;
        j \<leftarrow> shiftDR_enter drv align j;
        let (tdo, io) = shiftDR_data drv tdi want n (post = 0 \<and> exit) (jio j);
        let j = nextTapState drv (post = 0 \<and> exit) (j\<lparr>jio := io\<rparr>);
        j \<leftarrow> shiftDR_leave drv post exit j;
        Some (tdo, j)
      })"

definition ir_pre :: "'w jtag \<Rightarrow> nat" where
  "ir_pre j = sum_list (map (\<lambda>d. irlen (devices j ! d)) [nat (deviceIndex j + 1)..<nat (numDevices j)])"

definition ir_post :: "'w jtag \<Rightarrow> nat" where
  "ir_post j = sum_list (map (\<lambda>d. irlen (devices j ! d)) [0..<nat (deviceIndex j)])"

text \<open>Bypass bits (ones) for the devices behind, the instruction, bypass bits for those in front.\<close>

definition shiftIR_data ::
  "'w io_driver \<Rightarrow> byte list \<Rightarrow> bool \<Rightarrow> nat \<Rightarrow> nat \<Rightarrow> nat \<Rightarrow> 'w iobase \<Rightarrow> byte list \<times> 'w iobase" where
  "shiftIR_data drv tdi want pre n post io =
     (let io = shift drv True pre False io;
          (tdo, io) =
            (if want then shiftTDITDO drv (Some tdi) True n (post = 0) io
             else ([], shiftTDI drv tdi n (post = 0) io))
      in (tdo, shift drv True post True io))"

definition shiftIR :: "'w io_driver \<Rightarrow> byte list \<Rightarrow> bool \<Rightarrow> 'w jtag \<Rightarrow> (byte list \<times> 'w jtag) option" where
  "shiftIR drv tdi want j =
     (if deviceIndex j < 0 then Some ([], j)
      else do {
        j \<leftarrow> setTapState drv SHIFT_IR 0 j;
        let n = irlen (devices j ! nat (deviceIndex j));
        let (tdo, io) = shiftIR_data drv tdi want (ir_pre j) n (ir_post j) (jio j);
        let j = nextTapState drv True (j\<lparr>jio := io\<rparr>);
        j \<leftarrow> setTapState drv (postIRState j) 0 j;
        Some (tdo, j)
      })"

end
