(* ===== verification/Bitbang.thy ===== *)
theory Bitbang
  imports IOBase
begin

text \<open>
  Cables that move one line level at a time: \<^verbatim>\<open>iogpiodpi.cpp\<close> and \<^verbatim>\<open>ioparport.cpp\<close>
  share their loops word for word, over a virtual \<^verbatim>\<open>txrx\<close> and \<^verbatim>\<open>tx\<close> of one cycle. What one
  cycle owes the loops is the locale \<open>bitbang\<close>; a driver that meets it is a \<open>data_cable\<close>.
\<close>

section \<open>The loops\<close>

text \<open>
  The loop of \<^verbatim>\<open>txrx_block\<close>. \<open>tdo\<close> collects the bytes stored through the pointer in the
  order \<^verbatim>\<open>tdo[0]\<close>, \<^verbatim>\<open>tdo[1]\<close>, \dots; a null \<^verbatim>\<open>tdi\<close> leaves \<^verbatim>\<open>tdi_byte\<close> at its initial value.
  \<open>low\<close> is the last statement, which takes TCK down.
\<close>

function bang_loop ::
  "(bool \<Rightarrow> bool \<Rightarrow> 'h \<Rightarrow> bool \<times> 'h) \<Rightarrow> ('h \<Rightarrow> 'h) \<Rightarrow> byte list option \<Rightarrow> bool \<Rightarrow> nat \<Rightarrow> bool \<Rightarrow>
   nat \<Rightarrow> nat \<Rightarrow> byte \<Rightarrow> byte \<Rightarrow> byte list \<Rightarrow> 'h \<Rightarrow> byte list \<times> 'h" where
  "bang_loop txrx low tdi want n lastb i j tdo_byte tdi_byte tdo h =
     (if i + 1 < n
      then let (b, h) = txrx False (bit tdi_byte 0) h;
               tdo_byte = tdo_byte + push_bit (i mod 8) (of_bool b);
               tdi_byte = (case tdi of None \<Rightarrow> tdi_byte | Some _ \<Rightarrow> drop_bit 1 tdi_byte)
           in if (i + 1) mod 8 = 0
              then bang_loop txrx low tdi want n lastb (i + 1) (j + 1) 0
                     (case tdi of None \<Rightarrow> tdi_byte | Some bs \<Rightarrow> bs ! (j + 1))
                     (if want then tdo @ [tdo_byte] else tdo) h
              else bang_loop txrx low tdi want n lastb (i + 1) j tdo_byte tdi_byte tdo h
      else let (b, h) = txrx lastb (bit tdi_byte 0) h;
               tdo_byte = tdo_byte + push_bit (i mod 8) (of_bool b)
           in (if want then tdo @ [tdo_byte] else tdo, low h))"
  by pat_completeness auto
termination
  by (relation "measure (\<lambda>(txrx, low, tdi, want, n, lastb, i, j, tdo_byte, tdi_byte, tdo, h). n - i)") auto

declare bang_loop.simps [simp del]

text \<open>\<open>junk\<close> is the indeterminate value of the uninitialised \<^verbatim>\<open>tdi_byte\<close>.\<close>

definition bang_block ::
  "(bool \<Rightarrow> bool \<Rightarrow> 'h \<Rightarrow> bool \<times> 'h) \<Rightarrow> ('h \<Rightarrow> 'h) \<Rightarrow> byte \<Rightarrow> byte list option \<Rightarrow> bool \<Rightarrow> nat \<Rightarrow> bool \<Rightarrow> 'h \<Rightarrow>
   byte list \<times> 'h" where
  "bang_block txrx low junk tdi want n lastb h =
     bang_loop txrx low tdi want n lastb 0 0 0 (case tdi of None \<Rightarrow> junk | Some bs \<Rightarrow> bs ! 0) [] h"

fun bang_tms :: "(bool \<Rightarrow> bool \<Rightarrow> 'h \<Rightarrow> 'h) \<Rightarrow> byte list \<Rightarrow> nat \<Rightarrow> nat \<Rightarrow> byte \<Rightarrow> 'h \<Rightarrow> 'h" where
  "bang_tms tx pat i 0 tms h = h"
| "bang_tms tx pat i (Suc k) tms h =
     (let tms = (if i AND 7 = 0 then pat ! drop_bit 3 i else tms)
      in bang_tms tx pat (i + 1) k (drop_bit 1 tms) (tx (bit tms 0) True h))"

section \<open>A driver made of cycles\<close>

definition bang_driver ::
  "(bool \<Rightarrow> bool \<Rightarrow> 'h \<Rightarrow> bool \<times> 'h) \<Rightarrow> (bool \<Rightarrow> bool \<Rightarrow> 'h \<Rightarrow> 'h) \<Rightarrow> ('h \<Rightarrow> 'h) \<Rightarrow> byte \<Rightarrow> 'h io_driver" where
  "bang_driver txrx tx low junk =
     \<lparr>txrx_block = bang_block txrx low junk, tx_tms = (\<lambda>pat n force h. low (bang_tms tx pat 0 n 0 h))\<rparr>"

section \<open>Bits and bytes of a block\<close>

text \<open>The level of TDI at cycle \<open>k\<close> of a block.\<close>

definition tdi_bit :: "byte list option \<Rightarrow> byte \<Rightarrow> nat \<Rightarrow> bool" where
  "tdi_bit tdi junk k = (case tdi of None \<Rightarrow> bit junk 0 | Some bs \<Rightarrow> buf_bit bs k)"

definition tdi_byte_at :: "byte list option \<Rightarrow> byte \<Rightarrow> nat \<Rightarrow> byte" where
  "tdi_byte_at tdi junk i =
     (case tdi of None \<Rightarrow> junk | Some bs \<Rightarrow> drop_bit (i mod 8) (bs ! (i div 8)))"

lemma bit_tdi_byte_at [simp]: "bit (tdi_byte_at tdi junk i) 0 = tdi_bit tdi junk i"
  by (simp add: tdi_byte_at_def tdi_bit_def buf_bit_def bit_drop_bit_eq split: option.splits)

lemma tdi_byte_at_Suc:
  "(case tdi of None \<Rightarrow> tdi_byte_at tdi junk i | Some _ \<Rightarrow> drop_bit 1 (tdi_byte_at tdi junk i)) =
     tdi_byte_at tdi junk (Suc i)" if "Suc i mod 8 \<noteq> 0"
proof -
  from that have "Suc i mod 8 = Suc (i mod 8)" "Suc i div 8 = i div 8"
    by (simp_all add: mod_Suc div_Suc split: if_splits)
  then show ?thesis
    by (simp add: tdi_byte_at_def drop_bit_drop_bit add.commute split: option.splits del: drop_bit_Suc)
qed

lemma tdi_byte_at_next:
  assumes "Suc i mod 8 = 0"
  shows "(case tdi of None \<Rightarrow> (case tdi of None \<Rightarrow> tdi_byte_at tdi junk i | Some _ \<Rightarrow> x)
          | Some bs \<Rightarrow> bs ! (i div 8 + 1)) = tdi_byte_at tdi junk (Suc i)"
proof -
  have "Suc i div 8 = i div 8 + 1" using assms by (simp add: div_Suc)
  with assms show ?thesis
    by (simp add: tdi_byte_at_def split: option.splits)
qed

lemma byte_add_bit:
  fixes b :: byte
  assumes "i < 8" and "\<forall>k < 8. i \<le> k \<longrightarrow> \<not> bit b k"
  shows "k < 8 \<Longrightarrow> bit (b + push_bit i (of_bool v)) k = (if k = i then v else bit b k)"
proof -
  have "b + push_bit i (of_bool v) = b OR push_bit i (of_bool v)"
    using assms by (intro disjunctive_add_eq_or bit_eqI) (auto simp: bit_simps)
  then show "k < 8 \<Longrightarrow> bit (b + push_bit i (of_bool v)) k = (if k = i then v else bit b k)"
    using assms by (auto simp: bit_simps)
qed

text \<open>
  The partial result after \<open>i\<close> cycles: full bytes are stored, the current byte holds the
  bits read since the last byte boundary.
\<close>

definition tdo_part :: "nat \<Rightarrow> byte list \<Rightarrow> byte \<Rightarrow> bool list \<Rightarrow> bool" where
  "tdo_part i tdo tb got \<longleftrightarrow> length tdo = i div 8 \<and> length got = i \<and>
     (\<forall>k < i. buf_bit (tdo @ [tb]) k = got ! k) \<and> (\<forall>k < 8. i mod 8 \<le> k \<longrightarrow> \<not> bit tb k)"

lemma tdo_part_bit:
  assumes "tdo_part i tdo tb got"
  shows "\<forall>k < Suc i. buf_bit (tdo @ [tb + push_bit (i mod 8) (of_bool v)]) k = (got @ [v]) ! k"
proof (intro allI impI)
  define t where "t = tb + push_bit (i mod 8) (of_bool v)"
  fix k assume "k < Suc i"
  have bits: "j < 8 \<Longrightarrow> bit t j = (if j = i mod 8 then v else bit tb j)" for j
    unfolding t_def using assms by (intro byte_add_bit) (auto simp: tdo_part_def)
  have len: "length tdo = i div 8" "length got = i"
    using assms by (auto simp: tdo_part_def)
  have old: "k < i \<Longrightarrow> buf_bit (tdo @ [tb]) k = got ! k"
    using assms by (auto simp: tdo_part_def)
  consider "k = i" | "k < i" "k div 8 < i div 8" | "k < i" "k div 8 = i div 8"
    using \<open>k < Suc i\<close> by (metis div_le_mono less_SucE less_imp_le_nat le_neq_implies_less)
  then have "buf_bit (tdo @ [t]) k = (got @ [v]) ! k"
  proof cases
    case 1
    then show ?thesis by (simp add: buf_bit_def nth_append len bits)
  next
    case 2
    then show ?thesis using old by (simp add: buf_bit_def len nth_append)
  next
    case 3
    then have "k mod 8 \<noteq> i mod 8" by (metis div_mult_mod_eq less_irrefl)
    with 3 show ?thesis using old by (simp add: buf_bit_def len nth_append bits)
  qed
  then show "buf_bit (tdo @ [tb + push_bit (i mod 8) (of_bool v)]) k = (got @ [v]) ! k"
    by (simp only: t_def)
qed

lemma tdo_part_Suc:
  assumes "tdo_part i tdo tb got" and "Suc i mod 8 \<noteq> 0"
  shows "tdo_part (Suc i) tdo (tb + push_bit (i mod 8) (of_bool v)) (got @ [v])"
proof -
  have "Suc i mod 8 = Suc (i mod 8)" "Suc i div 8 = i div 8"
    using assms(2) by (simp_all add: mod_Suc div_Suc split: if_splits)
  moreover have "\<forall>k < 8. Suc (i mod 8) \<le> k \<longrightarrow> \<not> bit (tb + push_bit (i mod 8) (of_bool v)) k"
    using assms(1) byte_add_bit [of "i mod 8" tb _ v] by (auto simp: tdo_part_def)
  ultimately show ?thesis
    using assms(1) tdo_part_bit [OF assms(1), of v] by (simp add: tdo_part_def)
qed

lemma tdo_part_store:
  assumes "tdo_part i tdo tb got" and "Suc i mod 8 = 0"
  shows "tdo_part (Suc i) (tdo @ [tb + push_bit (i mod 8) (of_bool v)]) 0 (got @ [v])"
proof -
  let ?s = "tdo @ [tb + push_bit (i mod 8) (of_bool v)]"
  have len: "length tdo = i div 8" "length got = i" and d: "Suc i div 8 = Suc (i div 8)"
    using assms by (auto simp: tdo_part_def div_Suc)
  have "buf_bit (?s @ [0]) k = buf_bit ?s k" if "k < Suc i" for k
  proof -
    have "k div 8 \<le> i div 8" using that by (simp add: div_le_mono)
    then show ?thesis by (simp add: buf_bit_def nth_append len)
  qed
  then show ?thesis
    using tdo_part_bit [OF assms(1), of v] by (simp add: tdo_part_def len d)
qed

section \<open>What a cycle owes the loops\<close>

text \<open>
  \<open>wire\<close> are the levels (TMS, TDI) at the rising edges of TCK, \<open>replies\<close> the levels of TDO
  that have been read.
\<close>

locale bitbang =
  fixes txrx :: "bool \<Rightarrow> bool \<Rightarrow> 'h \<Rightarrow> bool \<times> 'h" and tx :: "bool \<Rightarrow> bool \<Rightarrow> 'h \<Rightarrow> 'h" and low :: "'h \<Rightarrow> 'h"
    and wire :: "'h \<Rightarrow> (bool \<times> bool) list" and replies :: "'h \<Rightarrow> bool list"
  assumes wire_txrx [simp]: "wire (snd (txrx tms tdi h)) = wire h @ [(tms, tdi)]"
    and replies_txrx [simp]: "replies (snd (txrx tms tdi h)) = replies h @ [fst (txrx tms tdi h)]"
    and wire_tx [simp]: "wire (tx tms tdi h) = wire h @ [(tms, tdi)]"
    and wire_low [simp]: "wire (low h) = wire h"
    and replies_low [simp]: "replies (low h) = replies h"
begin

lemma loop_wire:
  assumes "i < n"
  shows "wire (snd (bang_loop txrx low tdi want n lastb i (i div 8) tb (tdi_byte_at tdi junk i) tdo h))
    = wire h @ zip (replicate (n - 1 - i) False @ [lastb]) (map (tdi_bit tdi junk) [i..<n])"
  using assms
proof (induction "n - i" arbitrary: i tb tdo h)
  case (Suc d)
  show ?case
  proof (cases "i + 1 < n")
    case False
    with Suc.prems have "n = Suc i" by simp
    then show ?thesis
      by (subst bang_loop.simps) (simp add: Let_def split_beta)
  next
    case True
    let ?h = "snd (txrx False (tdi_bit tdi junk i) h)"
    have IH: "wire (snd (bang_loop txrx low tdi want n lastb (Suc i) (Suc i div 8) tb'
        (tdi_byte_at tdi junk (Suc i)) tdo' ?h)) =
        wire ?h @ zip (replicate (n - 1 - Suc i) False @ [lastb]) (map (tdi_bit tdi junk) [Suc i..<n])"
      for tb' tdo'
      using Suc True by (intro Suc.hyps(1)) auto
    have "zip (replicate (n - 1 - i) False @ [lastb]) (map (tdi_bit tdi junk) [i..<n]) =
       (False, tdi_bit tdi junk i) # zip (replicate (n - 1 - Suc i) False @ [lastb])
          (map (tdi_bit tdi junk) [Suc i..<n])"
      using True by (simp add: upt_conv_Cons flip: Suc_diff_Suc)
    moreover have "\<exists>tb' tdo'. bang_loop txrx low tdi want n lastb i (i div 8) tb (tdi_byte_at tdi junk i) tdo h =
        bang_loop txrx low tdi want n lastb (Suc i) (Suc i div 8) tb' (tdi_byte_at tdi junk (Suc i)) tdo' ?h"
    proof (cases "Suc i mod 8 = 0")
      case s: True
      then have "Suc i div 8 = i div 8 + 1" by (simp add: div_Suc)
      with True s tdi_byte_at_next [OF s, of tdi junk] show ?thesis
        by (subst bang_loop.simps) (auto simp: Let_def split_beta)
    next
      case s: False
      then have "Suc i div 8 = i div 8" by (simp add: div_Suc)
      with True s tdi_byte_at_Suc [OF s, of tdi junk] show ?thesis
        by (subst bang_loop.simps) (auto simp: Let_def split_beta)
    qed
    ultimately show ?thesis
      by (elim exE) (simp add: IH)
  qed
qed simp

lemma loop_tdo:
  assumes "i < n" and "tdo_part i tdo tb got"
  obtains new where "length new = n - i"
    and "replies (snd (bang_loop txrx low tdi True n lastb i j tb tdib tdo h)) = replies h @ new"
    and "length (fst (bang_loop txrx low tdi True n lastb i j tb tdib tdo h)) = nbytes n"
    and "\<forall>k < n. buf_bit (fst (bang_loop txrx low tdi True n lastb i j tb tdib tdo h)) k = (got @ new) ! k"
  using assms
proof (induction "n - i" arbitrary: i j tb tdib tdo h got thesis)
  case (Suc d)
  let ?loop = "\<lambda>i j tb tdib tdo h. bang_loop txrx low tdi True n lastb i j tb tdib tdo h"
  show ?case
  proof (cases "i + 1 < n")
    case False
    with Suc.prems have n: "n = Suc i" by simp
    let ?v = "fst (txrx lastb (bit tdib 0) h)"
    have res: "?loop i j tb tdib tdo h = (tdo @ [tb + push_bit (i mod 8) (of_bool ?v)],
        low (snd (txrx lastb (bit tdib 0) h)))"
      using n by (subst bang_loop.simps) (simp add: Let_def split_beta)
    have "length tdo + 1 = nbytes n"
      using Suc.prems(3) n by (auto simp: tdo_part_def nbytes_def div_Suc mod_Suc)
    then have "length (fst (?loop i j tb tdib tdo h)) = nbytes n"
      unfolding res by simp
    moreover have "replies (snd (?loop i j tb tdib tdo h)) = replies h @ [?v]"
      unfolding res by simp
    moreover have "\<forall>k < n. buf_bit (fst (?loop i j tb tdib tdo h)) k = (got @ [?v]) ! k"
      unfolding res using tdo_part_bit [OF Suc.prems(3), of ?v] n by simp
    moreover have "length [?v] = n - i" using n by simp
    ultimately show ?thesis using Suc.prems(1) [of "[?v]"] by blast
  next
    case True
    let ?v = "fst (txrx False (bit tdib 0) h)"
    let ?tb = "tb + push_bit (i mod 8) (of_bool ?v)"
    let ?h = "snd (txrx False (bit tdib 0) h)"
    obtain j' tb' tdib' tdo' where step: "?loop i j tb tdib tdo h = ?loop (Suc i) j' tb' tdib' tdo' ?h"
      and part: "tdo_part (Suc i) tdo' tb' (got @ [?v])"
    proof (cases "Suc i mod 8 = 0")
      case s: True
      have "?loop i j tb tdib tdo h = ?loop (Suc i) (Suc j) 0
          (case tdi of None \<Rightarrow> (case tdi of None \<Rightarrow> tdib | Some _ \<Rightarrow> drop_bit 1 tdib) | Some bs \<Rightarrow> bs ! (j + 1))
          (tdo @ [?tb]) ?h"
        using True s by (subst bang_loop.simps) (simp add: Let_def split_beta)
      then show ?thesis
        using that tdo_part_store [OF Suc.prems(3) s, of ?v] by blast
    next
      case s: False
      have "?loop i j tb tdib tdo h = ?loop (Suc i) j ?tb
          (case tdi of None \<Rightarrow> tdib | Some _ \<Rightarrow> drop_bit 1 tdib) tdo ?h"
        using True s by (subst bang_loop.simps) (simp add: Let_def split_beta)
      then show ?thesis
        using that tdo_part_Suc [OF Suc.prems(3) s, of ?v] by blast
    qed
    obtain new where new: "length new = n - Suc i"
      "replies (snd (?loop (Suc i) j' tb' tdib' tdo' ?h)) = replies ?h @ new"
      "length (fst (?loop (Suc i) j' tb' tdib' tdo' ?h)) = nbytes n"
      "\<forall>k < n. buf_bit (fst (?loop (Suc i) j' tb' tdib' tdo' ?h)) k = ((got @ [?v]) @ new) ! k"
      by (rule Suc.hyps(1) [where i = "Suc i" and got = "got @ [?v]" and tdo = tdo' and tb = tb'
            and j = j' and tdib = tdib' and h = ?h])
         (use Suc.hyps(2) True part in simp_all)
    show ?thesis
      using True new by (intro Suc.prems(1) [of "?v # new"]) (simp_all add: step)
  qed
qed simp

lemma block_wire:
  assumes "0 < n"
  shows "wire (snd (bang_block txrx low junk tdi want n lastb h)) =
    wire h @ zip (replicate (n - 1) False @ [lastb]) (map (tdi_bit tdi junk) [0..<n])"
proof -
  have "(case tdi of None \<Rightarrow> junk | Some bs \<Rightarrow> bs ! 0) = tdi_byte_at tdi junk 0"
    by (simp add: tdi_byte_at_def split: option.splits)
  then show ?thesis
    using loop_wire [OF assms, of tdi want lastb 0 junk "[]" h]
    by (simp add: bang_block_def)
qed

lemma block_tdo:
  assumes "0 < n"
  obtains new where "replies (snd (bang_block txrx low junk tdi True n lastb h)) = replies h @ new"
    and "length (fst (bang_block txrx low junk tdi True n lastb h)) = nbytes n"
    and "buf_bits (fst (bang_block txrx low junk tdi True n lastb h)) n = new"
proof -
  have "tdo_part 0 [] 0 []" by (simp add: tdo_part_def)
  from loop_tdo [OF assms this] obtain new where "length new = n"
    "replies (snd (bang_block txrx low junk tdi True n lastb h)) = replies h @ new"
    "length (fst (bang_block txrx low junk tdi True n lastb h)) = nbytes n"
    "\<forall>k < n. buf_bit (fst (bang_block txrx low junk tdi True n lastb h)) k = new ! k"
    unfolding bang_block_def by (metis append_Nil diff_zero)
  then show ?thesis by (intro that [of new]) (auto intro: nth_equalityI)
qed

lemma tms_loop_wire:
  assumes "i mod 8 \<noteq> 0 \<Longrightarrow> tms = drop_bit (i mod 8) (pat ! (i div 8))"
  shows "wire (bang_tms tx pat i k tms h) =
    wire h @ map (\<lambda>j. (buf_bit pat j, True)) [i..<i + k]"
  using assms
proof (induction k arbitrary: i tms h)
  case (Suc k)
  define t where "t = (if i AND 7 = 0 then pat ! drop_bit 3 i else tms)"
  have i7: "i AND 7 = i mod 8" and i3: "drop_bit 3 i = i div 8"
    using take_bit_eq_mask [of 3 i] by (simp_all add: take_bit_eq_mod drop_bit_eq_div mask_eq_exp_minus_1)
  have t: "t = drop_bit (i mod 8) (pat ! (i div 8))"
    using Suc.prems by (auto simp: t_def i7 i3)
  have "Suc i mod 8 \<noteq> 0 \<Longrightarrow> drop_bit 1 t = drop_bit (Suc i mod 8) (pat ! (Suc i div 8))"
    by (auto simp: t drop_bit_drop_bit mod_Suc div_Suc split: if_splits)
  from Suc.IH [OF this] have "wire (bang_tms tx pat (Suc i) k (drop_bit 1 t) (tx (bit t 0) True h))
      = wire (tx (bit t 0) True h) @ map (\<lambda>j. (buf_bit pat j, True)) [Suc i..<Suc i + k]" .
  moreover have "[i..<i + Suc k] = i # [Suc i..<Suc i + k]"
    by (simp add: upt_rec)
  moreover have "bit t 0 = buf_bit pat i"
    by (simp add: t buf_bit_def bit_drop_bit_eq)
  ultimately show ?case
    by (simp add: t_def [symmetric])
qed simp

text \<open>The contract of a cable.\<close>

lemma is_data_cable: "data_cable (bang_driver txrx tx low junk) wire"
proof
  fix n pat force w
  show "map fst (wire (tx_tms (bang_driver txrx tx low junk) pat n force w)) = map fst (wire w) @ buf_bits pat n"
    by (simp add: bang_driver_def tms_loop_wire buf_bits_def comp_def)
next
  fix n tdi want lastb w
  assume "0 < (n :: nat)"
  then show "map fst (wire (snd (txrx_block (bang_driver txrx tx low junk) tdi want n lastb w))) =
      map fst (wire w) @ replicate (n - 1) False @ [lastb]"
    by (simp add: bang_driver_def block_wire)
next
  fix n bs want lastb w
  assume "0 < (n :: nat)"
  then show "map snd (wire (snd (txrx_block (bang_driver txrx tx low junk) (Some bs) want n lastb w))) =
      map snd (wire w) @ buf_bits bs n"
    by (simp add: bang_driver_def block_wire buf_bits_def) (simp add: tdi_bit_def)
qed

end

end
