(* ===== verification/Gpio.thy ===== *)
theory Gpio
  imports Bitbang
begin

text \<open>
  \<^verbatim>\<open>iogpiodpi.cpp\<close>: the bit-banging driver for GPIO lines. The library behind it (libgpiod)
  is not in the repository: the driver's state is the history of the calls it has made, and
  the level read from the TDO line is an arbitrary function \<open>env\<close> of that history. The
  driver meets the contracts \<open>tms_cable\<close> and \<open>data_cable\<close> of \<open>IOBase\<close> for every \<open>env\<close>.
\<close>

datatype gpio_line = TMSline | TCKline | TDIline

datatype gpio_ev = SetLine gpio_line bool | GetTDO

type_synonym gpio_hist = "gpio_ev list"
type_synonym gpio_env = "gpio_hist \<Rightarrow> bool"

definition gpio_tx :: "bool \<Rightarrow> bool \<Rightarrow> gpio_hist \<Rightarrow> gpio_hist" where
  "gpio_tx tms tdi h =
     h @ [SetLine TCKline False, SetLine TDIline tdi, SetLine TMSline tms, SetLine TCKline True]"

definition gpio_txrx :: "gpio_env \<Rightarrow> bool \<Rightarrow> bool \<Rightarrow> gpio_hist \<Rightarrow> bool \<times> gpio_hist" where
  "gpio_txrx env tms tdi h = (let h = gpio_tx tms tdi h in (env h, h @ [GetTDO]))"

definition gpio_low :: "gpio_hist \<Rightarrow> gpio_hist" where
  "gpio_low h = h @ [SetLine TCKline False]"

definition gpio_txrx_block ::
  "gpio_env \<Rightarrow> byte \<Rightarrow> byte list option \<Rightarrow> bool \<Rightarrow> nat \<Rightarrow> bool \<Rightarrow> gpio_hist \<Rightarrow> byte list \<times> gpio_hist" where
  "gpio_txrx_block env = bang_block (gpio_txrx env) gpio_low"

definition gpio_tx_tms :: "byte list \<Rightarrow> nat \<Rightarrow> bool \<Rightarrow> gpio_hist \<Rightarrow> gpio_hist" where
  "gpio_tx_tms pat n force h = gpio_low (bang_tms gpio_tx pat 0 n 0 h)"

definition gpio_driver :: "gpio_env \<Rightarrow> byte \<Rightarrow> gpio_hist io_driver" where
  "gpio_driver env junk = \<lparr>txrx_block = gpio_txrx_block env junk, tx_tms = gpio_tx_tms\<rparr>"

section \<open>What the lines show\<close>

text \<open>
  The chain samples TMS and TDI when TCK goes from low to high; all lines are requested as
  outputs at level 0.
\<close>

fun edges_from :: "bool \<Rightarrow> bool \<Rightarrow> bool \<Rightarrow> gpio_hist \<Rightarrow> (bool \<times> bool) list" where
  "edges_from tms tdi tck [] = []"
| "edges_from tms tdi tck (SetLine TMSline v # h) = edges_from v tdi tck h"
| "edges_from tms tdi tck (SetLine TDIline v # h) = edges_from tms v tck h"
| "edges_from tms tdi tck (SetLine TCKline v # h) =
     (if v \<and> \<not> tck then (tms, tdi) # edges_from tms tdi v h else edges_from tms tdi v h)"
| "edges_from tms tdi tck (GetTDO # h) = edges_from tms tdi tck h"

definition gpio_wire :: "gpio_hist \<Rightarrow> (bool \<times> bool) list" where
  "gpio_wire h = edges_from False False False h"

text \<open>The levels the driver has read so far, oldest first.\<close>

fun replies_from :: "gpio_env \<Rightarrow> gpio_hist \<Rightarrow> gpio_hist \<Rightarrow> bool list" where
  "replies_from env past [] = []"
| "replies_from env past (GetTDO # h) = env past # replies_from env (past @ [GetTDO]) h"
| "replies_from env past (SetLine l v # h) = replies_from env (past @ [SetLine l v]) h"

definition replies :: "gpio_env \<Rightarrow> gpio_hist \<Rightarrow> bool list" where
  "replies env h = replies_from env [] h"

lemma edges_from_append_low:
  "edges_from a b c (h @ SetLine TCKline False # t) =
     edges_from a b c h @ edges_from (foldl (\<lambda>v e. case e of SetLine TMSline x \<Rightarrow> x | _ \<Rightarrow> v) a h)
       (foldl (\<lambda>v e. case e of SetLine TDIline x \<Rightarrow> x | _ \<Rightarrow> v) b h) False t"
  by (induction a b c h rule: edges_from.induct) auto

lemma edges_from_GetTDO: "edges_from a b c (h @ [GetTDO]) = edges_from a b c h"
  by (induction a b c h rule: edges_from.induct) auto

lemma gpio_wire_low [simp]: "gpio_wire (h @ [SetLine TCKline False]) = gpio_wire h"
  by (simp add: gpio_wire_def edges_from_append_low)

lemma gpio_wire_tx [simp]: "gpio_wire (gpio_tx tms tdi h) = gpio_wire h @ [(tms, tdi)]"
  by (simp add: gpio_wire_def gpio_tx_def edges_from_append_low)

lemma gpio_wire_GetTDO [simp]: "gpio_wire (h @ [GetTDO]) = gpio_wire h"
  by (simp add: gpio_wire_def edges_from_GetTDO)

lemma gpio_wire_end [simp]: "gpio_wire (h @ [GetTDO, SetLine TCKline False]) = gpio_wire h"
  using gpio_wire_low [of "h @ [GetTDO]"] by simp

lemma replies_from_append:
  "replies_from env past (h @ t) = replies_from env past h @ replies_from env (past @ h) t"
  by (induction env past h rule: replies_from.induct) auto

lemma replies_simps [simp]:
  "replies env (h @ [GetTDO]) = replies env h @ [env h]"
  "replies env (h @ [SetLine l v]) = replies env h"
  "replies env (gpio_tx tms tdi h) = replies env h"
  by (simp_all add: replies_def replies_from_append gpio_tx_def)

lemma replies_end [simp]:
  "replies env (h @ [GetTDO, SetLine TCKline False]) = replies env h @ [env h]"
  using replies_simps(2) [of env "h @ [GetTDO]"] by simp

section \<open>The driver meets the contracts\<close>

interpretation gpio_cycle: bitbang "gpio_txrx env" gpio_tx gpio_low gpio_wire "replies env" for env
  by unfold_locales (simp_all add: gpio_txrx_def gpio_low_def Let_def)

lemma gpio_driver_bang: "gpio_driver env junk = bang_driver (gpio_txrx env) gpio_tx gpio_low junk"
  by (simp add: gpio_driver_def bang_driver_def gpio_txrx_block_def gpio_tx_tms_def fun_eq_iff)

interpretation gpio: data_cable "gpio_driver env junk" gpio_wire for env junk
  unfolding gpio_driver_bang by (rule gpio_cycle.is_data_cable)

end
