(* ===== verification/JtagScan.thy ===== *)
theory JtagScan
  imports JtagSync
begin

text \<open>
  What a data scan of \<^verbatim>\<open>jtag.cpp\<close> delivers to the chain, and chain detection.
\<close>

section \<open>A data scan delivers the caller's bits, framed by bypass bits\<close>

lemma route_quiet_checked:
  "list_all (\<lambda>t. list_all (\<lambda>c. case route_path 12 t c of None \<Rightarrow> False
      | Some bs \<Rightarrow> dr_count c bs = 0) tap_states) [SHIFT_DR]"
  "list_all (\<lambda>t. case route_path 12 t EXIT1_DR of None \<Rightarrow> False
      | Some bs \<Rightarrow> dr_count EXIT1_DR bs = 0) tap_states"
  by code_simp+

lemma tap_loop_to_shift:
  assumes "current_state j \<noteq> UNKNOWN"
  obtains bs where "tap_loop drv SHIFT_DR j = Some (j\<lparr>current_state := SHIFT_DR, jio := set_tms_list drv bs (jio j)\<rparr>)"
    and "tap_run (current_state j) bs = SHIFT_DR" and "dr_count (current_state j) bs = 0"
proof -
  have "current_state j \<in> set tap_states" using assms by (simp add: in_tap_states)
  then obtain bs where bs: "route_path 12 SHIFT_DR (current_state j) = Some bs" "dr_count (current_state j) bs = 0"
    using route_quiet_checked(1) unfolding list_all_iff by (auto split: option.splits)
  from that [OF tap_loop_path [OF bs(1) assms] route_path_run [OF bs(1) assms] bs(2)] show ?thesis .
qed

lemma set_tms_list_room:
  assumes "io_inv io" and "tms_len io + length bs \<le> CHUNK_SIZE * 8"
  shows "dev (set_tms_list drv bs io) = dev io"
  using assms
proof (induction bs arbitrary: io)
  case (Cons b bs)
  then have "tms_len io < CHUNK_SIZE * 8" by simp
  note room = set_tms_room [OF Cons.prems(1) this, of drv b]
  have "tms_len (set_tms drv b io) = Suc (tms_len io)"
    using room(2) by (metis length_pending length_append_singleton)
  with Cons room show ?case by simp
qed simp

lemma setTapState_dev:
  assumes "pending (jio j) = []" and "io_inv (jio j)" and "current_state j \<noteq> UNKNOWN"
    and "setTapState drv t 0 j = Some j'" and "t \<noteq> UNKNOWN"
  shows "dev (jio j') = dev (jio j)"
proof -
  obtain bs where bs: "tap_loop drv t j = Some (j\<lparr>current_state := t, jio := set_tms_list drv bs (jio j)\<rparr>)"
    "length bs \<le> 10"
    using tap_loop_known [OF assms(5,3)] by metis
  have "tms_len (jio j) = 0" using assms(1) by (metis length_pending list.size(3))
  with bs(2) have "dev (set_tms_list drv bs (jio j)) = dev (jio j)"
    by (intro set_tms_list_room assms(2)) (simp add: CHUNK_SIZE_def)
  with bs(1) assms(4) show ?thesis by (auto simp: setTapState_def)
qed

text \<open>How many cycles precede the data: none when an earlier scan was left open.\<close>

definition dr_pre :: "nat \<Rightarrow> 'w jtag \<Rightarrow> nat" where
  "dr_pre align j =
     (if shiftDRincomplete j then 0
      else nat (if align \<noteq> 0 then align_pre (int align) (- deviceIndex j)
                else numDevices j - deviceIndex j - 1))"

context tms_cable
begin

lemma enter_count:
  assumes "jtag_sync wire s0 j" and "shiftDRincomplete j \<Longrightarrow> current_state j = SHIFT_DR"
    and "shiftDR_enter drv align j = Some j1"
  shows "dr_count s0 (tms_seen wire (jio j1)) = dr_count s0 (tms_seen wire (jio j)) + dr_pre align j"
proof (cases "shiftDRincomplete j")
  case True
  with assms(3) show ?thesis by (simp add: shiftDR_enter_def dr_pre_def)
next
  case False
  obtain bs where bs: "tap_loop drv SHIFT_DR j = Some (j\<lparr>current_state := SHIFT_DR, jio := set_tms_list drv bs (jio j)\<rparr>)"
    "tap_run (current_state j) bs = SHIFT_DR" "dr_count (current_state j) bs = 0"
    using tap_loop_to_shift [OF sync_known [OF assms(1)]] .
  let ?io = "set_tms_list drv bs (jio j)"
  have "setTapState drv SHIFT_DR (dr_pre align j) j = Some j1"
    using False assms(3) by (simp add: shiftDR_enter_def dr_pre_def Let_def)
  then have "jio j1 = set_tms_n drv False (dr_pre align j) ?io"
    using bs(1) by (auto simp: setTapState_def)
  moreover have "io_inv (jio j)" "tap_run s0 (tms_seen wire (jio j)) = current_state j"
    using assms(1) by (simp_all add: jtag_sync_def)
  ultimately show ?thesis
    using bs(2,3) by (simp add: set_tms_n_list tms_seen_list set_tms_list_inv dr_count_append)
qed

end

context data_cable
begin

lemma shiftDR_data_wire:
  fixes want lastb
  assumes "io_inv io" and "0 < n" and "n \<le> 8 * length bs" and "tap_run s0 (tms_seen wire io) = SHIFT_DR"
  defines "io' \<equiv> snd (shiftDR_data drv (Some bs) want n lastb io)"
  shows "\<exists>X. dr_bits s0 (wire (dev io')) = X @ buf_bits bs n \<and> length X = dr_count s0 (tms_seen wire io)"
    and "pending io' = []"
proof -
  let ?f = "flush_tms drv False io"
  have "snd (shiftTDITDO drv (Some bs) want n lastb io) = io'"
    by (cases want) (simp_all add: io'_def shiftDR_data_def shiftTDI_def)
  then have w: "wire (dev io') = wire (dev ?f) @ zip (replicate (n - 1) False @ [lastb]) (buf_bits bs n)"
    and p: "pending io' = []"
    using wire_shiftTDITDO [OF assms(3), of want lastb io] assms(2)
    by (auto simp: shiftTDITDO_def Let_def split: prod.splits)
  have f: "map fst (wire (dev ?f)) = tms_seen wire io"
    by (rule tms_seen_flush(2) [OF assms(1)])
  then have "dr_bits s0 (wire (dev io')) = dr_bits s0 (wire (dev ?f)) @ buf_bits bs n"
    using assms(2,4) dr_bits_block_last [of "buf_bits bs n" n lastb] by (simp add: w dr_bits_append)
  moreover have "length (dr_bits s0 (wire (dev ?f))) = dr_count s0 (tms_seen wire io)"
    by (simp add: length_dr_bits f)
  ultimately show "\<exists>X. dr_bits s0 (wire (dev io')) = X @ buf_bits bs n \<and> length X = dr_count s0 (tms_seen wire io)"
    by blast
  show "pending io' = []" by (rule p)
qed

lemma shift_wire_dr:
  assumes "pending io = []" and "tap_run s0 (map fst (wire (dev io))) = SHIFT_DR"
  shows "dr_bits s0 (wire (dev (shift drv tdi n True io))) = dr_bits s0 (wire (dev io)) @ replicate n tdi"
proof -
  have "tms_len io = 0" using assms(1) by (metis length_pending list.size(3))
  then have "dev (flush_tms drv False io) = dev io" by (simp add: flush_tms_dev)
  with assms(2) show ?thesis
    using dr_bits_block_last [of "replicate n tdi" n True] by (simp add: wire_shift dr_bits_append)
qed

lemma leave_dr_bits:
  assumes "jtag_sync wire s0 j" and "current_state j = (if post = 0 then EXIT1_DR else SHIFT_DR)"
    and "0 \<le> post" and "postDRState j \<noteq> UNKNOWN" and "pending (jio j) = []"
    and "shiftDR_leave drv post True j = Some j'"
  shows "dr_bits s0 (wire (dev (jio j'))) = dr_bits s0 (wire (dev (jio j))) @ replicate (nat post) False"
proof -
  define j3 where "j3 = j\<lparr>jio := shift drv False (nat post) True (jio j)\<rparr>"
  define j4 where "j4 = (if nat post \<noteq> 0 then nextTapState drv True j3 else j3)"
  have cs: "current_state j = (if nat post = 0 then EXIT1_DR else SHIFT_DR)"
    using assms(2,3) by auto
  have j4: "jtag_sync wire s0 j4" "current_state j4 = EXIT1_DR" "same_conf j4 j"
    unfolding j4_def j3_def using sync_dr_exit [OF assms(1) cs] .
  have "(if \<not> (post = 0 \<and> True) then nextTapState drv True j3 else j3) = j4"
    using assms(3) by (auto simp: j4_def)
  with assms(6) obtain j5 where j5: "setTapState drv (postDRState j4) 0 j4 = Some j5"
    "j' = j5\<lparr>shiftDRincomplete := False\<rparr>"
    by (auto simp: shiftDR_leave_def Let_def j3_def [symmetric] bind_eq_Some_conv simp del: not_None_eq)
  have io4: "jio j4 = shift drv False (nat post) True (jio j)"
    using assms(2,3) by (simp add: j4_def j3_def nextTapState_def)
  have "dev (jio j5) = dev (jio j4)"
    using j5(1) j4 assms(4) by (intro setTapState_dev [of j4 drv "postDRState j4"])
      (simp_all add: io4 shift_empty shift_inv same_conf_def)
  moreover have "dr_bits s0 (wire (dev (jio j4))) = dr_bits s0 (wire (dev (jio j))) @ replicate (nat post) False"
  proof (cases "post = 0")
    case True
    have "tms_len (jio j) = 0" using assms(5) by (metis length_pending list.size(3))
    with True show ?thesis by (simp add: io4 wire_shift flush_tms_dev)
  next
    case False
    have "tap_run s0 (map fst (wire (dev (jio j)))) = SHIFT_DR"
      using assms(1,2,5) False by (simp add: jtag_sync_def tms_seen_def)
    with assms(5) show ?thesis by (simp add: io4 shift_wire_dr)
  qed
  ultimately show ?thesis by (simp add: j5(2))
qed

lemma shiftDR_delivers:
  assumes sync: "jtag_sync wire s0 j" and ready: "dr_ready (Some bs) n j" and "0 \<le> deviceIndex j"
  obtains tdo j' X where "shiftDR drv (Some bs) want n align True j = Some (tdo, j')"
    and "dr_bits s0 (wire (dev (jio j'))) = X @ buf_bits bs n @ replicate (nat (deviceIndex j)) False"
    and "length X = dr_count s0 (tms_seen wire (jio j)) + dr_pre align j"
proof -
  define post where "post = deviceIndex j"
  have n: "0 < n" "n \<le> 8 * length bs" "postDRState j \<noteq> UNKNOWN"
    and inc: "shiftDRincomplete j \<Longrightarrow> current_state j = SHIFT_DR"
    using ready by (auto simp: dr_ready_def)
  obtain j1 where j1: "shiftDR_enter drv align j = Some j1" "jtag_sync wire s0 j1"
      "current_state j1 = SHIFT_DR" "same_conf j1 j"
    using sync_enter [OF sync inc, of align] by auto
  obtain tdo io where d: "shiftDR_data drv (Some bs) want n (post = 0) (jio j1) = (tdo, io)"
    by (cases "shiftDR_data drv (Some bs) want n (post = 0) (jio j1)")
  have inv1: "io_inv (jio j1)" and st1: "tap_run s0 (tms_seen wire (jio j1)) = SHIFT_DR"
    using j1(2,3) by (simp_all add: jtag_sync_def)
  obtain X where X: "dr_bits s0 (wire (dev io)) = X @ buf_bits bs n"
      "length X = dr_count s0 (tms_seen wire (jio j1))"
    using shiftDR_data_wire(1) [OF inv1 n(1,2) st1, of want "post = 0"] by (auto simp: d)
  have p: "pending io = []"
    using shiftDR_data_wire(2) [OF inv1 n(1,2) st1, of want "post = 0"] by (simp add: d)
  define j2 where "j2 = nextTapState drv (post = 0) (j1\<lparr>jio := io\<rparr>)"
  have bsn: "\<And>xs. Some bs = Some xs \<Longrightarrow> n \<le> 8 * length xs" using n(2) by simp
  have j2: "jtag_sync wire s0 j2" "current_state j2 = (if post = 0 then EXIT1_DR else SHIFT_DR)"
    "same_conf j2 j1"
    using sync_dr_data [where tdi = "Some bs" and lastb = "post = 0" and want = want, OF j1(2,3) n(1) bsn] by (simp_all add: j2_def d)
  have io2: "jio j2 = io" using j1(3) by (simp add: j2_def nextTapState_def)
  have "same_conf j2 j" by (rule same_conf_trans [OF j2(3) j1(4)])
  then have post2: "postDRState j2 \<noteq> UNKNOWN" using n(3) by (simp add: same_conf_def)
  have post: "0 \<le> post" using assms(3) by (simp add: post_def)
  have cs: "current_state j2 = (if post = 0 \<and> True then EXIT1_DR else SHIFT_DR)" using j2(2) by simp
  obtain j3 where j3: "shiftDR_leave drv post True j2 = Some j3"
    using sync_leave [OF j2(1) cs post post2] by metis
  have "dr_bits s0 (wire (dev (jio j3))) = X @ buf_bits bs n @ replicate (nat post) False"
    using leave_dr_bits [OF j2(1,2) post post2 _ j3] by (simp add: io2 p X(1))
  moreover have "length X = dr_count s0 (tms_seen wire (jio j)) + dr_pre align j"
    using X(2) enter_count [OF sync inc j1(1)] by simp
  moreover have "shiftDR drv (Some bs) want n align True j = Some (tdo, j3)"
    using assms(3) j1(1) d j3 by (simp add: shiftDR_def Let_def post_def j2_def)
  ultimately show ?thesis by (intro that) (simp_all add: post_def)
qed

end

section \<open>Chain detection\<close>

context tms_cable
begin

lemma getChain_loop_sync:
  assumes "jtag_sync wire s0 j" and "current_state j = SHIFT_DR"
  obtains new where "jtag_sync wire s0 (getChain_loop drv junk left j)"
    and "current_state (getChain_loop drv junk left j) = SHIFT_DR"
    and "numDevices (getChain_loop drv junk left j) = numDevices j + int (length new)"
    and "devices (getChain_loop drv junk left j) = new @ devices j" and "length new \<le> left"
    and "\<forall>d \<in> set new. idcode d \<noteq> 0 \<and> idcode d \<noteq> 0xffffffff"
  using assms
proof (induction left arbitrary: j thesis)
  case 0
  then show ?case by simp
next
  case (Suc left)
  obtain idx io where r: "shiftTDITDO drv (Some [0, 0, 0, 0]) True 32 False (jio j) = (idx, io)"
    by (cases "shiftTDITDO drv (Some [0, 0, 0, 0]) True 32 False (jio j)")
  have inv: "io_inv (jio j)" and st: "tap_run s0 (tms_seen wire (jio j)) = SHIFT_DR" and s0: "s0 \<noteq> UNKNOWN"
    using Suc.prems(2,3) by (simp_all add: jtag_sync_def)
  have io: "io_inv io" "tms_seen wire io = tms_seen wire (jio j) @ replicate 31 False @ [False]"
    using shiftTDITDO_inv [OF inv, of drv "Some [0, 0, 0, 0]" True 32 False]
      tms_seen_shiftTDITDO [OF inv, of "Some [0, 0, 0, 0]" 32 True False]
    by (simp_all add: r)
  have "tap_stable SHIFT_DR" by (simp add: tap_stable_def)
  then have io3: "tap_run s0 (tms_seen wire io) = SHIFT_DR"
    by (simp only: io(2) tap_run_simps st tap_run_replicate_stable) simp
  define id where "id = byteArrayToLong idx"
  define j1 where "j1 = j\<lparr>jio := io\<rparr>"
  have j1: "jtag_sync wire s0 j1" "current_state j1 = SHIFT_DR"
    using Suc.prems(2,3) io(1) io3 s0 by (simp_all add: j1_def jtag_sync_def)
  define j2 where "j2 = j1\<lparr>numDevices := numDevices j1 + 1,
      devices := \<lparr>idcode = id, irlen = junk\<rparr> # devices j1\<rparr>"
  have step: "getChain_loop drv junk (Suc left) j =
      (if id \<noteq> 0 \<and> id \<noteq> 0xffffffff then getChain_loop drv junk left j2 else j1)"
    by (simp add: r Let_def id_def j1_def j2_def)
  show ?case
  proof (cases "id \<noteq> 0 \<and> id \<noteq> 0xffffffff")
    case True
    have "jtag_sync wire s0 j2" "current_state j2 = SHIFT_DR"
      using j1 by (simp_all add: j2_def jtag_sync_def)
    then obtain new where new: "jtag_sync wire s0 (getChain_loop drv junk left j2)"
      "current_state (getChain_loop drv junk left j2) = SHIFT_DR"
      "numDevices (getChain_loop drv junk left j2) = numDevices j2 + int (length new)"
      "devices (getChain_loop drv junk left j2) = new @ devices j2" "length new \<le> left"
      "\<forall>d \<in> set new. idcode d \<noteq> 0 \<and> idcode d \<noteq> 0xffffffff"
      by (rule Suc.IH [rotated])
    have eq: "getChain_loop drv junk (Suc left) j = getChain_loop drv junk left j2"
      using True step by (simp del: getChain_loop.simps)
    show ?thesis
      by (rule Suc.prems(1) [of "new @ [\<lparr>idcode = id, irlen = junk\<rparr>]"], unfold eq)
         (use new True in \<open>simp_all add: j2_def j1_def\<close>)
  next
    case False
    then have eq: "getChain_loop drv junk (Suc left) j = j1"
      using step by (auto simp del: getChain_loop.simps)
    show ?thesis
      by (rule Suc.prems(1) [of "[]"], unfold eq) (use j1 in \<open>simp_all add: j1_def\<close>)
  qed
qed

lemma getChain_loop_keeps:
  "postDRState (getChain_loop drv junk left j) = postDRState j \<and> postIRState (getChain_loop drv junk left j) = postIRState j \<and>
   shiftDRincomplete (getChain_loop drv junk left j) = shiftDRincomplete j"
  by (induction left arbitrary: j) (simp_all add: Let_def split: prod.split)

lemma getChain_detects:
  assumes "io_inv (jio j)" and "s0 \<noteq> UNKNOWN" and "numDevices j = - 1 \<or> detect"
  obtains new j' where "getChain drv junk detect j = Some (int (length new), j')"
    and "jtag_sync wire s0 j'" and "current_state j' = TEST_LOGIC_RESET"
    and "numDevices j' = int (length new)" and "devices j' = new @ devices j"
    and "length new \<le> MAXNUMDEVICES"
    and "\<forall>d \<in> set new. idcode d \<noteq> 0 \<and> idcode d \<noteq> 0xffffffff"
    and "postDRState j' = postDRState j" "postIRState j' = postIRState j" "shiftDRincomplete j' = shiftDRincomplete j"
proof -
  let ?r = "tapTestLogicReset drv j"
  have r: "jtag_sync wire s0 ?r" by (rule sync_reset [OF assms(1,2)])
  obtain j1 where j1: "setTapState drv SHIFT_DR 0 ?r = Some j1" "jtag_sync wire s0 j1"
    "current_state j1 = SHIFT_DR" "same_conf j1 ?r" "shiftDRincomplete j1 = shiftDRincomplete ?r"
    using sync_setTapState [OF r, of SHIFT_DR 0] by auto
  let ?j1 = "j1\<lparr>numDevices := 0\<rparr>"
  let ?j2 = "getChain_loop drv junk MAXNUMDEVICES ?j1"
  have "jtag_sync wire s0 ?j1" "current_state ?j1 = SHIFT_DR"
    using j1(2,3) by (simp_all add: jtag_sync_def)
  then obtain new where new: "jtag_sync wire s0 ?j2" "current_state ?j2 = SHIFT_DR"
    "numDevices ?j2 = numDevices ?j1 + int (length new)" "devices ?j2 = new @ devices ?j1"
    "length new \<le> MAXNUMDEVICES" "\<forall>d \<in> set new. idcode d \<noteq> 0 \<and> idcode d \<noteq> 0xffffffff"
    by (rule getChain_loop_sync)
  obtain j3 where j3: "setTapState drv TEST_LOGIC_RESET 0 ?j2 = Some j3" "jtag_sync wire s0 j3"
    "current_state j3 = TEST_LOGIC_RESET" "same_conf j3 ?j2" "shiftDRincomplete j3 = shiftDRincomplete ?j2"
    using sync_setTapState [OF new(1), of TEST_LOGIC_RESET 0] by auto
  have "getChain drv junk detect j = Some (numDevices j3, j3)"
    using assms(3) j1(1) j3(1) by (simp add: getChain_def Let_def)
  moreover have "devices j3 = new @ devices j" "numDevices j3 = int (length new)"
    using new(3,4) j3(4) j1(4) by (simp_all add: same_conf_def tapTestLogicReset_def)
  moreover have "postDRState j3 = postDRState j" "postIRState j3 = postIRState j" "shiftDRincomplete j3 = shiftDRincomplete j"
    using j3(4,5) j1(4,5) by (simp_all add: same_conf_def tapTestLogicReset_def getChain_loop_keeps)
  ultimately show ?thesis using j3(2,3) new(5,6) by (intro that [of new j3]) simp_all
qed

end

section \<open>An open scan that an instruction scan interrupts\<close>

text \<open>
  \<^verbatim>\<open>shiftIR\<close> does not close a data scan that was left open, and a later \<^verbatim>\<open>shiftDR\<close> then does
  not navigate: its bits are clocked outside Shift-DR.
\<close>

context tms_cable
begin

lemma stale_scan_count:
  assumes "jtag_sync wire s0 j" and "shiftDRincomplete j" and "current_state j = RUN_TEST_IDLE"
    and "deviceIndex j = 0" and "postDRState j = RUN_TEST_IDLE"
    and "0 < n" and "\<And>bs. tdi = Some bs \<Longrightarrow> n \<le> 8 * length bs"
  obtains tdo j' where "shiftDR drv tdi want n align True j = Some (tdo, j')"
    and "dr_count s0 (tms_seen wire (jio j')) = dr_count s0 (tms_seen wire (jio j))"
proof -
  have inv: "io_inv (jio j)" and st: "tap_run s0 (tms_seen wire (jio j)) = RUN_TEST_IDLE" and s0: "s0 \<noteq> UNKNOWN"
    using assms(1,3) by (simp_all add: jtag_sync_def)
  obtain tdo io where d: "shiftDR_data drv tdi want n True (jio j) = (tdo, io)"
    by (cases "shiftDR_data drv tdi want n True (jio j)")
  have io: "io_inv io" "tms_seen wire io = tms_seen wire (jio j) @ replicate (n - 1) False @ [True]"
    using tms_seen_shiftDR_data [where tdi = tdi and want = want and lastb = True, OF inv assms(7,6)]
    by (simp_all add: d)
  define j2 where "j2 = tapTestLogicReset drv (j\<lparr>jio := io\<rparr>)"
  have seen2: "tms_seen wire (jio j2) = tms_seen wire io @ replicate 5 True"
    by (simp add: j2_def tapTestLogicReset_def set_tms_n_list tms_seen_flush tms_seen_list set_tms_list_inv io(1))
  have inv2: "io_inv (jio j2)" by (simp add: j2_def tapTestLogicReset_def)
  define j3 where "j3 = j2\<lparr>jio := shift drv False 0 True (jio j2)\<rparr>"
  have seen3: "tms_seen wire (jio j3) = tms_seen wire (jio j2)" and inv3: "io_inv (jio j3)"
    using tms_seen_shift [OF inv2, of False 0 True] by (simp_all add: j3_def shift_inv)
  have c3: "current_state j3 = TEST_LOGIC_RESET" "postDRState j3 = RUN_TEST_IDLE"
    using assms(5) by (simp_all add: j3_def j2_def tapTestLogicReset_def)
  define j4 where "j4 = j3\<lparr>current_state := RUN_TEST_IDLE, jio := set_tms_list drv [False] (jio j3)\<rparr>"
  have "tap_loop drv RUN_TEST_IDLE j3 = Some j4"
    unfolding j4_def using c3(1)
    by (intro tap_loop_path [of 12]) (simp_all add: route_path.simps numeral_eq_Suc)
  then have leave: "shiftDR_leave drv 0 True j2 = Some (j4\<lparr>shiftDRincomplete := False\<rparr>)"
    using c3(2) by (simp add: shiftDR_leave_def Let_def j3_def [symmetric] setTapState_def j4_def)
  have "shiftDR drv tdi want n align True j = Some (tdo, j4\<lparr>shiftDRincomplete := False\<rparr>)"
    using assms(2,3,4) leave by (simp add: shiftDR_def shiftDR_enter_def d nextTapState_def j2_def Let_def)
  moreover have "dr_count RUN_TEST_IDLE (replicate k False @ [True]) = 0" for k
    by (induction k) auto
  moreover have "tap_run RUN_TEST_IDLE (replicate k False) = RUN_TEST_IDLE" for k
    by (simp add: tap_stable_def)
  ultimately show ?thesis
    using seen2 seen3 io(2) st inv3
    by (intro that [of tdo "j4\<lparr>shiftDRincomplete := False\<rparr>"])
       (simp_all add: j4_def tms_seen_set_tms dr_count_append numeral_eq_Suc)
qed

end

section \<open>Properties\<close>

text \<open>
  C1. From every state of the software, \<open>UNKNOWN\<close> included, navigation to any target but
  \<open>UNKNOWN\<close> returns and arrives there.
\<close>

theorem setTapState_reaches:
  assumes "t \<noteq> UNKNOWN"
  shows "\<exists>j'. setTapState drv t pre j = Some j' \<and> current_state j' = t"
proof -
  obtain j' where j': "tap_loop drv t j = Some j'" using tap_loop_returns [OF assms] by blast
  have "current_state j' = t"
    by (rule tap_loop.raw_induct [where P = "\<lambda>drv t j r. current_state r = t", OF _ j']) (auto split: if_splits)
  with j' show ?thesis by (simp add: setTapState_def)
qed

theorem setTapState_reaches_witness:
  "\<exists>j'. setTapState (gpio_driver (\<lambda>_. False) 0) PAUSE_IR 3 (jtag_init (iobase_init [])) = Some j' \<and>
     current_state j' = PAUSE_IR"
  by (rule setTapState_reaches) simp

text \<open>
  C2. A data scan through the GPIO driver keeps the software's TAP state equal to the state
  of the chain's controllers, whatever state they powered up in, and ends in
  \<^verbatim>\<open>postDRState\<close>, or stays in Shift-DR when the caller leaves the scan open.
\<close>

theorem shiftDR_tracks_tap:
  assumes "jtag_sync gpio_wire s0 j" and "dr_ready tdi n j" and "0 \<le> deviceIndex j"
  shows "\<exists>tdo j'. shiftDR (gpio_driver env junk) tdi want n align exit j = Some (tdo, j') \<and>
     jtag_sync gpio_wire s0 j' \<and> current_state j' = (if exit then postDRState j else SHIFT_DR)"
  by (rule gpio.sync_shiftDR [OF assms]) blast

text \<open>
  A concrete chain: the software has reset the controller, three devices are known and the
  second one is selected.
\<close>

definition example_jtag :: "gpio_hist jtag" where
  "example_jtag = (tapTestLogicReset (gpio_driver (\<lambda>_. True) 0) (jtag_init (iobase_init [])))
     \<lparr>devices := [\<lparr>idcode = 0x11, irlen = 6\<rparr>, \<lparr>idcode = 0x12, irlen = 8\<rparr>, \<lparr>idcode = 0x13, irlen = 5\<rparr>],
      numDevices := 3, deviceIndex := 1\<rparr>"

lemma example_jtag_sync: "jtag_sync gpio_wire PAUSE_DR example_jtag"
proof -
  have "jtag_sync gpio_wire PAUSE_DR
      (tapTestLogicReset (gpio_driver (\<lambda>_. True) 0) (jtag_init (iobase_init [])))"
    by (rule gpio.sync_reset) (simp_all add: jtag_init_def io_inv_init)
  then show ?thesis by (simp add: example_jtag_def jtag_sync_def)
qed

lemma example_jtag_conf [simp]:
  "deviceIndex example_jtag = 1" "numDevices example_jtag = 3" "shiftDRincomplete example_jtag = False"
  "postDRState example_jtag = RUN_TEST_IDLE" "postIRState example_jtag = RUN_TEST_IDLE"
  "devices example_jtag = [\<lparr>idcode = 0x11, irlen = 6\<rparr>, \<lparr>idcode = 0x12, irlen = 8\<rparr>, \<lparr>idcode = 0x13, irlen = 5\<rparr>]"
  by (simp_all add: example_jtag_def tapTestLogicReset_def jtag_init_def)

theorem shiftDR_tracks_tap_witness:
  "\<exists>tdo j'. shiftDR (gpio_driver (\<lambda>_. True) 0) (Some [0x5a, 0x03]) True 10 0 False example_jtag = Some (tdo, j') \<and>
     jtag_sync gpio_wire PAUSE_DR j' \<and> current_state j' = SHIFT_DR"
  using shiftDR_tracks_tap [OF example_jtag_sync, of "Some [0x5a, 0x03]" 10 "\<lambda>_. True" 0 True 0 False]
  by (simp add: dr_ready_def)

text \<open>
  C3. An instruction scan keeps the software and the chain in step and ends in
  \<^verbatim>\<open>postIRState\<close>; it leaves \<^verbatim>\<open>shiftDRincomplete\<close> as it was.
\<close>

theorem shiftIR_tracks_tap:
  assumes "jtag_sync gpio_wire s0 j" and "ir_ready tdi j" and "0 \<le> deviceIndex j"
  shows "\<exists>tdo j'. shiftIR (gpio_driver env junk) tdi want j = Some (tdo, j') \<and>
     jtag_sync gpio_wire s0 j' \<and> current_state j' = postIRState j \<and>
     shiftDRincomplete j' = shiftDRincomplete j"
  by (rule gpio.sync_shiftIR [OF assms]) blast

theorem shiftIR_tracks_tap_witness:
  "\<exists>tdo j'. shiftIR (gpio_driver (\<lambda>_. True) 0) [0xe8] True example_jtag = Some (tdo, j') \<and>
     jtag_sync gpio_wire PAUSE_DR j' \<and> current_state j' = RUN_TEST_IDLE \<and> \<not> shiftDRincomplete j'"
  using shiftIR_tracks_tap [OF example_jtag_sync, of "[0xe8]" "\<lambda>_. True" 0 True]
  by (simp add: ir_ready_def)

text \<open>
  C4. A complete data scan delivers the caller's bits: of the bits the chain's data registers
  shift in while in Shift-DR, the last are the caller's \<open>n\<close> bits in order and then one zero
  for each device in front of the selected one; exactly \<open>dr_pre\<close> cycles of the scan, one per
  device behind it or the alignment the caller asked for, come before them.
\<close>

theorem shiftDR_delivers_bits:
  assumes "jtag_sync gpio_wire s0 j" and "dr_ready (Some bs) n j" and "0 \<le> deviceIndex j"
  shows "\<exists>tdo j' X. shiftDR (gpio_driver env junk) (Some bs) want n align True j = Some (tdo, j') \<and>
     dr_bits s0 (gpio_wire (dev (jio j'))) = X @ buf_bits bs n @ replicate (nat (deviceIndex j)) False \<and>
     length X = dr_count s0 (tms_seen gpio_wire (jio j)) + dr_pre align j"
  by (rule gpio.shiftDR_delivers [OF assms]) blast

theorem shiftDR_delivers_bits_witness:
  "\<exists>tdo j' X. shiftDR (gpio_driver (\<lambda>_. True) 0) (Some [0x05]) False 4 0 True example_jtag = Some (tdo, j') \<and>
     dr_bits PAUSE_DR (gpio_wire (dev (jio j'))) = X @ [True, False, True, False] @ [False] \<and>
     length X = dr_count PAUSE_DR (tms_seen gpio_wire (jio example_jtag)) + 1"
proof -
  have "buf_bits [0x05] 4 = [True, False, True, False]" by code_simp
  moreover have "dr_pre 0 example_jtag = 1" by (simp add: dr_pre_def)
  moreover have "dr_ready (Some [0x05]) 4 example_jtag" by (simp add: dr_ready_def)
  ultimately show ?thesis
    using shiftDR_delivers_bits [OF example_jtag_sync, of "[0x05]" 4 "\<lambda>_. True" 0 False 0]
    by simp
qed

text \<open>
  C5. Chain detection returns, leaves the controllers in Test-Logic-Reset and in step with
  the software, and reports at most \<open>MAXNUMDEVICES\<close> devices, each entered in front of the
  list with an IDCODE that is neither all zeros nor all ones.
\<close>

theorem getChain_reports:
  assumes "io_inv (jio j)" and "s0 \<noteq> UNKNOWN" and "numDevices j = - 1 \<or> detect"
  shows "\<exists>new j'. getChain (gpio_driver env junk) len detect j = Some (int (length new), j') \<and>
     jtag_sync gpio_wire s0 j' \<and> current_state j' = TEST_LOGIC_RESET \<and>
     numDevices j' = int (length new) \<and> devices j' = new @ devices j \<and> length new \<le> MAXNUMDEVICES \<and>
     (\<forall>d \<in> set new. idcode d \<noteq> 0 \<and> idcode d \<noteq> 0xffffffff)"
  by (rule gpio.getChain_detects [OF assms]) blast

theorem getChain_reports_witness:
  "\<exists>new j'. getChain (gpio_driver (\<lambda>_. True) 0) 0 False (jtag_init (iobase_init [])) = Some (int (length new), j') \<and>
     current_state j' = TEST_LOGIC_RESET \<and> devices j' = new"
proof -
  have "\<exists>new j'. getChain (gpio_driver (\<lambda>_. True) 0) 0 False (jtag_init (iobase_init [])) = Some (int (length new), j') \<and>
     jtag_sync gpio_wire SHIFT_IR j' \<and> current_state j' = TEST_LOGIC_RESET \<and>
     numDevices j' = int (length new) \<and> devices j' = new @ devices (jtag_init (iobase_init ([] :: gpio_hist))) \<and>
     length new \<le> MAXNUMDEVICES \<and> (\<forall>d \<in> set new. idcode d \<noteq> 0 \<and> idcode d \<noteq> 0xffffffff)"
    by (rule getChain_reports) (simp_all add: jtag_init_def io_inv_init)
  then show ?thesis by (auto simp: jtag_init_def)
qed

text \<open>
  C6. After a data scan that was left open, an instruction scan and a second data scan: the
  second data scan clocks none of its bits into a data register, because the flag of the
  first one is still set and the software does not navigate to Shift-DR.
\<close>

theorem open_scan_then_shiftIR_loses_data:
  assumes "jtag_sync gpio_wire s0 j" and "dr_ready tdi n j" and "deviceIndex j = 0"
    and "ir_ready ir j" and "postIRState j = RUN_TEST_IDLE" and "postDRState j = RUN_TEST_IDLE"
    and "0 < m" and "m \<le> 8 * length bs"
  shows "\<exists>tdo1 j1 tdo2 j2 tdo3 j3.
     shiftDR (gpio_driver env junk) tdi False n 0 False j = Some (tdo1, j1) \<and>
     shiftIR (gpio_driver env junk) ir False j1 = Some (tdo2, j2) \<and>
     shiftDR (gpio_driver env junk) (Some bs) False m 0 True j2 = Some (tdo3, j3) \<and>
     dr_count s0 (tms_seen gpio_wire (jio j3)) = dr_count s0 (tms_seen gpio_wire (jio j2))"
proof -
  obtain tdo1 j1 where j1: "shiftDR (gpio_driver env junk) tdi False n 0 False j = Some (tdo1, j1)"
    "jtag_sync gpio_wire s0 j1" "shiftDRincomplete j1" "same_conf j1 j"
    by (rule gpio.sync_shiftDR [OF assms(1,2), of env junk False 0 False]) (use assms(3) in simp_all)
  then have "ir_ready ir j1" "0 \<le> deviceIndex j1"
    using assms(3,4) by (simp_all add: ir_ready_def same_conf_def)
  with j1(2) obtain tdo2 j2 where j2: "shiftIR (gpio_driver env junk) ir False j1 = Some (tdo2, j2)"
    "jtag_sync gpio_wire s0 j2" "current_state j2 = postIRState j1" "shiftDRincomplete j2" "same_conf j2 j1"
    using gpio.sync_shiftIR [of s0 j1 ir env junk False] j1(3) by metis
  have "current_state j2 = RUN_TEST_IDLE" "deviceIndex j2 = 0" "postDRState j2 = RUN_TEST_IDLE"
    using j1(4) j2(3,5) assms(3,5,6) by (simp_all add: same_conf_def)
  with j2(2,4) obtain tdo3 j3 where
    "shiftDR (gpio_driver env junk) (Some bs) False m 0 True j2 = Some (tdo3, j3)"
    "dr_count s0 (tms_seen gpio_wire (jio j3)) = dr_count s0 (tms_seen gpio_wire (jio j2))"
    using gpio.stale_scan_count [of s0 j2 m "Some bs" env junk False 0] assms(7,8) by auto
  with j1(1) j2(1) show ?thesis by blast
qed

theorem open_scan_then_shiftIR_loses_data_witness:
  "\<exists>tdo1 j1 tdo2 j2 tdo3 j3.
     shiftDR (gpio_driver (\<lambda>_. True) 0) (Some [0xfb]) False 8 0 False (example_jtag\<lparr>deviceIndex := 0\<rparr>) = Some (tdo1, j1) \<and>
     shiftIR (gpio_driver (\<lambda>_. True) 0) [0xc0] False j1 = Some (tdo2, j2) \<and>
     shiftDR (gpio_driver (\<lambda>_. True) 0) (Some [0x01]) False 7 0 True j2 = Some (tdo3, j3) \<and>
     dr_count PAUSE_DR (tms_seen gpio_wire (jio j3)) = dr_count PAUSE_DR (tms_seen gpio_wire (jio j2))"
  by (rule open_scan_then_shiftIR_loses_data)
     (use example_jtag_sync in \<open>simp_all add: dr_ready_def ir_ready_def jtag_sync_def\<close>)

end
