(* ===== verification/JtagOps.thy ===== *)
theory JtagOps
  imports JtagScan
begin

text \<open>
  The programming algorithms as users of the class \<^verbatim>\<open>Jtag\<close>: a program is a function on the
  history of its calls, and what the cable captures is a function \<open>replies\<close> of that history.
  The contract of the class is a protocol on call sequences, \<open>ops_run\<close>; the locale-bound theorem
  below shows that the class keeps its idea of the TAP state right along every sequence that
  obeys it, and \<open>tracks\<close> carries the proof that an algorithm obeys it.
\<close>

section \<open>Calls of the class\<close>

datatype jop =
    OpIR "byte list" bool
  | OpDR "byte list option" bool nat nat bool
  | OpTCK nat bool
  | OpSleep nat
  | OpReset
  | OpState tapState
  | OpIRDR "byte list" "byte list" nat

text \<open>
  The calls \<^verbatim>\<open>shiftIR(tdi, tdo)\<close>, \<^verbatim>\<open>shiftDR(tdi, tdo, length, align, exit)\<close>, \<^verbatim>\<open>cycleTCK(n, tdi)\<close>,
  \<^verbatim>\<open>Usleep\<close>, \<^verbatim>\<open>tapTestLogicReset\<close> and \<^verbatim>\<open>setTapState\<close>; the flags say whether \<^verbatim>\<open>tdo\<close> is given.
  \<open>OpIRDR\<close> is \<^verbatim>\<open>shiftIR\<close> and \<^verbatim>\<open>shiftDR\<close> between \<^verbatim>\<open>setPostIRState(EXIT1_IR)\<close> and
  \<^verbatim>\<open>setPostIRState(RUN_TEST_IDLE)\<close>, for parts that must not pass Run-Test/Idle between the two.
\<close>

definition io_Usleep :: "'w io_driver \<Rightarrow> 'w iobase \<Rightarrow> 'w iobase" where
  "io_Usleep drv io = flush_tms drv False io"

definition exec_op :: "'w io_driver \<Rightarrow> jop \<Rightarrow> 'w jtag \<Rightarrow> (byte list \<times> 'w jtag) option" where
  "exec_op drv c j =
     (case c of
        OpIR tdi want \<Rightarrow> shiftIR drv tdi want j
      | OpDR tdi want n align exit \<Rightarrow> shiftDR drv tdi want n align exit j
      | OpTCK n tdi \<Rightarrow> Some ([], cycleTCK drv n tdi j)
      | OpSleep n \<Rightarrow> Some ([], j\<lparr>jio := io_Usleep drv (jio j)\<rparr>)
      | OpReset \<Rightarrow> Some ([], tapTestLogicReset drv j)
      | OpState t \<Rightarrow> map_option (Pair []) (setTapState drv t 0 j)
      | OpIRDR tdi d n \<Rightarrow>
          (case shiftIR drv tdi False (j\<lparr>postIRState := EXIT1_IR\<rparr>) of None \<Rightarrow> None
           | Some (_, j) \<Rightarrow>
               (case shiftDR drv (Some d) False n 0 True j of None \<Rightarrow> None
                | Some (_, j) \<Rightarrow> Some ([], j\<lparr>postIRState := RUN_TEST_IDLE\<rparr>))))"

fun exec_ops :: "'w io_driver \<Rightarrow> jop list \<Rightarrow> 'w jtag \<Rightarrow> 'w jtag option" where
  "exec_ops drv [] j = Some j"
| "exec_ops drv (c # cs) j = (case exec_op drv c j of None \<Rightarrow> None | Some (_, j) \<Rightarrow> exec_ops drv cs j)"

section \<open>The protocol\<close>

text \<open>
  Where a sequence of calls leaves the link: idle in Run-Test/Idle, after a reset, or inside a
  data scan that was left open.
\<close>

datatype link = Idle | InReset | OpenDR

fun op_next :: "link \<Rightarrow> jop \<Rightarrow> link option" where
  "op_next l (OpIR tdi want) = (if l = OpenDR \<or> tdi = [] then None else Some Idle)"
| "op_next l (OpDR tdi want n align exit) =
     (if 0 < n \<and> (case tdi of None \<Rightarrow> True | Some bs \<Rightarrow> n \<le> 8 * length bs)
      then Some (if exit then Idle else OpenDR) else None)"
| "op_next l (OpTCK n tdi) = (if l = Idle then Some Idle else None)"
| "op_next l (OpSleep n) = Some l"
| "op_next l OpReset = (if l = OpenDR then None else Some InReset)"
| "op_next l (OpState t) = (if l \<noteq> OpenDR \<and> t = TEST_LOGIC_RESET then Some InReset else None)"
| "op_next l (OpIRDR tdi d n) = (if l = OpenDR \<or> tdi = [] \<or> n = 0 \<or> 8 * length d < n then None else Some Idle)"

fun ops_run :: "link \<Rightarrow> jop list \<Rightarrow> link option" where
  "ops_run l [] = Some l"
| "ops_run l (c # cs) = (case op_next l c of None \<Rightarrow> None | Some l \<Rightarrow> ops_run l cs)"

lemma ops_run_append:
  "ops_run l (as @ bs) = (case ops_run l as of None \<Rightarrow> None | Some l \<Rightarrow> ops_run l bs)"
  by (induction as arbitrary: l) (auto split: option.split)

text \<open>
  The state of the class that corresponds to a state of the link. The instruction register of
  the selected device is at most as long as the instructions that the algorithm passes.
\<close>

definition jtag_conf :: "'w jtag \<Rightarrow> bool" where
  "jtag_conf j \<longleftrightarrow> 0 \<le> deviceIndex j \<and> postDRState j = RUN_TEST_IDLE \<and> postIRState j = RUN_TEST_IDLE \<and>
     0 < irlen (devices j ! nat (deviceIndex j))"

definition ir_fits :: "'w jtag \<Rightarrow> jop \<Rightarrow> bool" where
  "ir_fits j c \<longleftrightarrow> (case c of
     OpIR tdi _ \<Rightarrow> irlen (devices j ! nat (deviceIndex j)) \<le> 8 * length tdi
   | OpIRDR tdi _ _ \<Rightarrow> irlen (devices j ! nat (deviceIndex j)) \<le> 8 * length tdi
   | _ \<Rightarrow> True)"

definition link_state :: "link \<Rightarrow> 'w jtag \<Rightarrow> bool" where
  "link_state l j \<longleftrightarrow> (case l of
     Idle \<Rightarrow> current_state j = RUN_TEST_IDLE \<and> \<not> shiftDRincomplete j
   | InReset \<Rightarrow> current_state j = TEST_LOGIC_RESET \<and> \<not> shiftDRincomplete j
   | OpenDR \<Rightarrow> current_state j = SHIFT_DR \<and> shiftDRincomplete j)"

lemma same_conf_conf: "same_conf j' j \<Longrightarrow> jtag_conf j' = jtag_conf j \<and> ir_fits j' c = ir_fits j c"
  by (simp add: same_conf_def jtag_conf_def ir_fits_def split: jop.split)

context tms_cable
begin

lemma sync_usleep:
  assumes "jtag_sync wire s0 j"
  shows "jtag_sync wire s0 (j\<lparr>jio := io_Usleep drv (jio j)\<rparr>)"
  using assms by (simp add: jtag_sync_def io_Usleep_def tms_seen_flush flush_tms_inv)

lemma exec_op_sync:
  assumes "jtag_sync wire s0 j" "jtag_conf j" "link_state l j" "op_next l c = Some l'" "ir_fits j c"
  obtains tdo j' where "exec_op drv c j = Some (tdo, j')" "jtag_sync wire s0 j'" "link_state l' j'" "same_conf j' j"
proof (cases c)
  case (OpIR tdi want)
  then have "ir_ready tdi j" using assms(2,5) by (simp add: ir_ready_def jtag_conf_def ir_fits_def)
  then obtain tdo j' where "shiftIR drv tdi want j = Some (tdo, j')" "jtag_sync wire s0 j'"
    "current_state j' = postIRState j" "shiftDRincomplete j' = shiftDRincomplete j" "same_conf j' j"
    using sync_shiftIR [of s0 j tdi want] assms(1,2) by (auto simp: jtag_conf_def)
  then show thesis
    using assms(2-4) OpIR that
    by (cases l) (auto simp: exec_op_def link_state_def jtag_conf_def split: if_splits)
next
  case (OpDR tdi want n align exit)
  then have "dr_ready tdi n j" "l' = (if exit then Idle else OpenDR)"
    using assms(2-4)
    by (cases l; auto simp: dr_ready_def jtag_conf_def link_state_def split: if_splits option.splits)+
  moreover then obtain tdo j' where "shiftDR drv tdi want n align exit j = Some (tdo, j')" "jtag_sync wire s0 j'"
    "current_state j' = (if exit then postDRState j else SHIFT_DR)" "shiftDRincomplete j' = (\<not> exit)" "same_conf j' j"
    using sync_shiftDR [of s0 j tdi n want align exit] assms(1,2) by (auto simp: jtag_conf_def)
  ultimately show thesis
    using assms(2) OpDR that by (auto simp: exec_op_def link_state_def jtag_conf_def)
next
  case (OpTCK n tdi)
  then have "l = Idle" "l' = Idle" using assms(4) by (auto split: if_splits)
  moreover from this have "jtag_sync wire s0 (cycleTCK drv n tdi j)"
    using assms(1,3) by (intro sync_cycleTCK) (auto simp: link_state_def tap_stable_def)
  ultimately show thesis
    using assms(3) OpTCK that [of "[]" "cycleTCK drv n tdi j"]
    by (simp add: exec_op_def link_state_def cycleTCK_def same_conf_def)
next
  case (OpSleep n)
  then show thesis
    using assms(1,3,4) that [of "[]" "j\<lparr>jio := io_Usleep drv (jio j)\<rparr>"] sync_usleep [of s0 j]
    by (cases l) (simp_all add: exec_op_def link_state_def same_conf_def)
next
  case OpReset
  then have "l \<noteq> OpenDR" "l' = InReset" using assms(4) by (auto split: if_splits)
  moreover have "jtag_sync wire s0 (tapTestLogicReset drv j)"
    using assms(1) by (intro sync_reset) (auto simp: jtag_sync_def)
  ultimately show thesis
    using assms(3) OpReset that [of "[]" "tapTestLogicReset drv j"]
    by (cases l) (simp_all add: exec_op_def link_state_def same_conf_def tapTestLogicReset_def)
next
  case (OpState t)
  then have t: "l \<noteq> OpenDR" "l' = InReset" "t = TEST_LOGIC_RESET" using assms(4) by (auto split: if_splits)
  obtain j' where "setTapState drv t 0 j = Some j'" "jtag_sync wire s0 j'" "current_state j' = t"
    "same_conf j' j" "shiftDRincomplete j' = shiftDRincomplete j"
    using sync_setTapState [OF assms(1), of t 0] t(3) by auto
  then show thesis
    using assms(3) OpState t that by (cases l) (auto simp: exec_op_def link_state_def)
next
  case (OpIRDR tdi d n)
  let ?j = "j\<lparr>postIRState := EXIT1_IR\<rparr>"
  have c: "l \<noteq> OpenDR" "l' = Idle" "0 < n" "n \<le> 8 * length d" "\<not> shiftDRincomplete ?j"
    using assms(3,4) OpIRDR by (cases l; auto simp: link_state_def split: if_splits)+
  have "jtag_sync wire s0 ?j" "ir_ready tdi ?j" "0 \<le> deviceIndex ?j"
    using assms(1,2,5) OpIRDR by (simp_all add: jtag_sync_def ir_ready_def ir_fits_def jtag_conf_def)
  then obtain tdo1 j1 where j1: "shiftIR drv tdi False ?j = Some (tdo1, j1)" "jtag_sync wire s0 j1"
    "shiftDRincomplete j1 = shiftDRincomplete ?j" "same_conf j1 ?j"
    by (rule sync_shiftIR [where want = False])
  have "dr_ready (Some d) n j1" "0 \<le> deviceIndex j1"
    using c j1(3,4) assms(2) by (auto simp: dr_ready_def jtag_conf_def same_conf_def)
  then obtain tdo2 j2 where j2: "shiftDR drv (Some d) False n 0 True j1 = Some (tdo2, j2)" "jtag_sync wire s0 j2"
    "current_state j2 = (if True then postDRState j1 else SHIFT_DR)" "shiftDRincomplete j2 = (\<not> True)" "same_conf j2 j1"
    by (rule sync_shiftDR [OF j1(2)])
  let ?j2 = "j2\<lparr>postIRState := RUN_TEST_IDLE\<rparr>"
  show thesis
  proof (rule that)
    show "exec_op drv c j = Some ([], ?j2)" using OpIRDR j1(1) j2(1) by (simp add: exec_op_def)
    show "jtag_sync wire s0 ?j2" using j2(2) by (simp add: jtag_sync_def)
    show "link_state l' ?j2" "same_conf ?j2 j"
      using c(2) j1(4) j2(3-5) assms(2) by (simp_all add: link_state_def same_conf_def jtag_conf_def)
  qed
qed

lemma exec_ops_sync:
  assumes "jtag_sync wire s0 j" "jtag_conf j" "link_state l j" "ops_run l cs = Some l'" "list_all (ir_fits j) cs"
  obtains j' where "exec_ops drv cs j = Some j'" "jtag_sync wire s0 j'" "link_state l' j'" "same_conf j' j"
  using assms
proof (induction cs arbitrary: l j thesis)
  case Nil
  then show ?case by simp
next
  case (Cons c cs)
  obtain l1 where l1: "op_next l c = Some l1" "ops_run l1 cs = Some l'"
    using Cons.prems(5) by (auto split: option.splits)
  have "ir_fits j c" using Cons.prems(6) by simp
  from exec_op_sync [OF Cons.prems(2-4) l1(1) this]
  obtain tdo j1 where j1: "exec_op drv c j = Some (tdo, j1)" "jtag_sync wire s0 j1" "link_state l1 j1" "same_conf j1 j"
    by metis
  have "jtag_conf j1" "list_all (ir_fits j1) cs"
    using same_conf_conf [OF j1(4)] Cons.prems(3,6) by (auto simp: list_all_iff)
  then obtain j' where "exec_ops drv cs j1 = Some j'" "jtag_sync wire s0 j'" "link_state l' j'" "same_conf j' j1"
    using Cons.IH [OF _ j1(2) _ j1(3) l1(2)] by metis
  then show ?case using Cons.prems(1) j1(1,4) same_conf_trans by auto
qed

end

section \<open>Programs\<close>

record jlink =
  hist :: "jop list"
  replies :: "jop list \<Rightarrow> byte list"

type_synonym 'a jm = "jlink \<Rightarrow> 'a res \<times> jlink"

definition jret :: "'a \<Rightarrow> 'a jm" where
  "jret x l = (Inr x, l)"

definition jlift :: "'a res \<Rightarrow> 'a jm" where
  "jlift r l = (r, l)"

definition jbind :: "'a jm \<Rightarrow> ('a \<Rightarrow> 'b jm) \<Rightarrow> 'b jm" where
  "jbind m f l = (case m l of (Inl e, l) \<Rightarrow> (Inl e, l) | (Inr x, l) \<Rightarrow> f x l)"

text \<open>The first \<open>n\<close> bytes of what the cable answers to the call \<open>c\<close>.\<close>

definition fit :: "nat \<Rightarrow> byte list \<Rightarrow> byte list" where
  "fit n bs = take n bs @ replicate (n - length bs) 0"

definition jcall :: "jop \<Rightarrow> nat \<Rightarrow> byte list jm" where
  "jcall c n l = (Inr (fit n (replies l (hist l @ [c]))), l\<lparr>hist := hist l @ [c]\<rparr>)"

definition jdo :: "jop \<Rightarrow> unit jm" where
  "jdo c = jbind (jcall c 0) (\<lambda>_. jret ())"

text \<open>A sequence of statements, and \<open>n\<close> passes of a loop over \<open>i\<close>.\<close>

fun jseq :: "unit jm list \<Rightarrow> unit jm" where
  "jseq [] = jret ()"
| "jseq (m # ms) = jbind m (\<lambda>_. jseq ms)"

fun jfold :: "nat \<Rightarrow> nat \<Rightarrow> (nat \<Rightarrow> 'a \<Rightarrow> 'a jm) \<Rightarrow> 'a \<Rightarrow> 'a jm" where
  "jfold i 0 f x = jret x"
| "jfold i (Suc n) f x = jbind (f i x) (\<lambda>x. jfold (i + 1) n f x)"

text \<open>A loop of at most \<open>n\<close> passes that ends early with the first value a pass delivers.\<close>

fun jloop :: "nat \<Rightarrow> nat \<Rightarrow> (nat \<Rightarrow> 'a option jm) \<Rightarrow> 'a option jm" where
  "jloop i 0 f = jret None"
| "jloop i (Suc n) f = jbind (f i) (\<lambda>r. case r of None \<Rightarrow> jloop (i + 1) n f | Some x \<Rightarrow> jret (Some x))"

text \<open>A loop with a state that a pass may leave with a result (\<open>Inl\<close>).\<close>

fun jscan :: "nat \<Rightarrow> nat \<Rightarrow> (nat \<Rightarrow> 'a \<Rightarrow> ('e + 'a) jm) \<Rightarrow> 'a \<Rightarrow> ('e + 'a) jm" where
  "jscan i 0 f x = jret (Inr x)"
| "jscan i (Suc n) f x =
     jbind (f i x) (\<lambda>r. case r of Inl e \<Rightarrow> jret (Inl e) | Inr x \<Rightarrow> jscan (i + 1) n f x)"

definition jshiftIR :: "byte list \<Rightarrow> unit jm" where
  "jshiftIR tdi = jdo (OpIR tdi False)"

definition jcaptureIR :: "byte list \<Rightarrow> byte jm" where
  "jcaptureIR tdi = jbind (jcall (OpIR tdi True) 1) (\<lambda>t. jret (hd t))"

definition jshiftDR :: "byte list \<Rightarrow> nat \<Rightarrow> bool \<Rightarrow> unit jm" where
  "jshiftDR tdi n exit = jdo (OpDR (Some tdi) False n 0 exit)"

definition jcaptureDR :: "byte list option \<Rightarrow> nat \<Rightarrow> bool \<Rightarrow> byte list jm" where
  "jcaptureDR tdi n exit = jcall (OpDR tdi True n 0 exit) (nbytes n)"

definition jcycleTCK :: "nat \<Rightarrow> unit jm" where
  "jcycleTCK n = jdo (OpTCK n True)"

definition jUsleep :: "nat \<Rightarrow> unit jm" where
  "jUsleep n = jdo (OpSleep n)"

definition jreset :: "unit jm" where
  "jreset = jdo OpReset"

definition jsetTLR :: "unit jm" where
  "jsetTLR = jdo (OpState TEST_LOGIC_RESET)"

definition jshiftIRDR :: "byte list \<Rightarrow> byte list \<Rightarrow> nat \<Rightarrow> unit jm" where
  "jshiftIRDR tdi d n = jdo (OpIRDR tdi d n)"

text \<open>
  \<open>tracks l m l'\<close>: from the link state \<open>l\<close> the calls of \<open>m\<close> obey the protocol whatever the
  cable answers, and if \<open>m\<close> ends without an exception the link state is \<open>l'\<close>.
\<close>

definition tracks :: "link \<Rightarrow> 'a jm \<Rightarrow> link \<Rightarrow> bool" where
  "tracks l m l' \<longleftrightarrow> (\<forall>k. \<exists>cs l1. hist (snd (m k)) = hist k @ cs \<and> replies (snd (m k)) = replies k \<and>
     ops_run l cs = Some l1 \<and> (\<forall>x. fst (m k) = Inr x \<longrightarrow> l1 = l'))"

named_theorems tracks_intro \<open>rules for \<open>tracks\<close>\<close>

lemma tracks_ret [tracks_intro]: "tracks l (jret x) l"
  by (simp add: tracks_def jret_def)

lemma tracks_lift [tracks_intro]: "tracks l (jlift r) l"
  by (simp add: tracks_def jlift_def)

lemma tracks_bind [tracks_intro]:
  assumes "tracks l m l1" and "\<And>x. tracks l1 (f x) l2"
  shows "tracks l (jbind m f) l2"
  unfolding tracks_def
proof
  fix k
  obtain r k1 where m: "m k = (r, k1)" by (cases "m k")
  obtain cs l' where cs: "hist k1 = hist k @ cs" "replies k1 = replies k" "ops_run l cs = Some l'"
    "\<And>x. r = Inr x \<Longrightarrow> l' = l1"
    using assms(1) m unfolding tracks_def by (metis fst_conv snd_conv)
  show "\<exists>cs l1. hist (snd (jbind m f k)) = hist k @ cs \<and> replies (snd (jbind m f k)) = replies k \<and>
     ops_run l cs = Some l1 \<and> (\<forall>x. fst (jbind m f k) = Inr x \<longrightarrow> l1 = l2)"
  proof (cases r)
    case (Inl e)
    then show ?thesis using m cs by (simp add: jbind_def)
  next
    case (Inr x)
    obtain ds l3 where ds: "hist (snd (f x k1)) = hist k1 @ ds" "replies (snd (f x k1)) = replies k1"
      "ops_run l1 ds = Some l3" "\<And>y. fst (f x k1) = Inr y \<Longrightarrow> l3 = l2"
      using assms(2) [of x] unfolding tracks_def by metis
    then show ?thesis
      using m cs Inr by (intro exI [of _ "cs @ ds"] exI [of _ l3]) (simp add: jbind_def ops_run_append)
  qed
qed

lemma length_long [simp]: "length (longToByteArray w) = 4" "longToByteArray w \<noteq> []"
  by (simp_all add: longToByteArray_def)

lemma tracks_call: "op_next l c = Some l' \<Longrightarrow> tracks l (jcall c n) l'"
  by (simp add: tracks_def jcall_def)

lemma tracks_do: "op_next l c = Some l' \<Longrightarrow> tracks l (jdo c) l'"
  unfolding jdo_def by (rule tracks_bind [OF tracks_call tracks_ret])

lemma tracks_ops [tracks_intro]:
  "l \<noteq> OpenDR \<Longrightarrow> tdi \<noteq> [] \<Longrightarrow> tracks l (jshiftIR tdi) Idle"
  "l \<noteq> OpenDR \<Longrightarrow> tdi \<noteq> [] \<Longrightarrow> tracks l (jcaptureIR tdi) Idle"
  "0 < n \<Longrightarrow> n \<le> 8 * length bs \<Longrightarrow> tracks l (jshiftDR bs n True) Idle"
  "0 < n \<Longrightarrow> n \<le> 8 * length bs \<Longrightarrow> tracks l (jshiftDR bs n False) OpenDR"
  "0 < n \<Longrightarrow> n \<le> 8 * length bs \<Longrightarrow> tracks l (jcaptureDR (Some bs) n True) Idle"
  "0 < n \<Longrightarrow> n \<le> 8 * length bs \<Longrightarrow> tracks l (jcaptureDR (Some bs) n False) OpenDR"
  "0 < n \<Longrightarrow> tracks l (jcaptureDR None n True) Idle"
  "0 < n \<Longrightarrow> tracks l (jcaptureDR None n False) OpenDR"
  "tracks Idle (jcycleTCK n) Idle"
  "tracks l (jUsleep n) l"
  "l \<noteq> OpenDR \<Longrightarrow> tracks l jreset InReset"
  "l \<noteq> OpenDR \<Longrightarrow> tracks l jsetTLR InReset"
  "l \<noteq> OpenDR \<Longrightarrow> tdi \<noteq> [] \<Longrightarrow> 0 < n \<Longrightarrow> n \<le> 8 * length bs \<Longrightarrow> tracks l (jshiftIRDR tdi bs n) Idle"
  unfolding jshiftIR_def jcaptureIR_def jshiftDR_def jcaptureDR_def jcycleTCK_def jUsleep_def jreset_def jsetTLR_def
    jshiftIRDR_def
  by (auto intro!: tracks_do tracks_call tracks_bind [OF tracks_call tracks_ret])

lemma tracks_seq_Nil [tracks_intro]: "tracks l (jseq []) l"
  by (simp add: tracks_ret)

lemma tracks_seq_Cons [tracks_intro]: "tracks l m l1 \<Longrightarrow> tracks l1 (jseq ms) l2 \<Longrightarrow> tracks l (jseq (m # ms)) l2"
  by (simp add: tracks_bind)

lemma tracks_fold [tracks_intro]:
  "(\<And>j x. i \<le> j \<Longrightarrow> j < i + n \<Longrightarrow> tracks l (f j x) l) \<Longrightarrow> tracks l (jfold i n f x) l"
proof (induction n arbitrary: i x)
  case (Suc n)
  have "tracks l (jfold (i + 1) n f x) l" for x
    by (rule Suc.IH) (rule Suc.prems, simp_all)
  then have "tracks l (jbind (f i x) (jfold (i + 1) n f)) l"
    by (intro tracks_bind [OF Suc.prems]) simp_all
  then show ?case by simp
qed (simp add: tracks_ret)

lemma tracks_if [tracks_intro]:
  "(b \<Longrightarrow> tracks l m l') \<Longrightarrow> (\<not> b \<Longrightarrow> tracks l m' l') \<Longrightarrow> tracks l (if b then m else m') l'"
  by simp

lemma tracks_let [tracks_intro]: "(\<And>x. x = v \<Longrightarrow> tracks l (f x) l') \<Longrightarrow> tracks l (let x = v in f x) l'"
  by simp

lemma tracks_case_prod [tracks_intro]:
  "(\<And>a b. p = (a, b) \<Longrightarrow> tracks l (f a b) l') \<Longrightarrow> tracks l (case p of (a, b) \<Rightarrow> f a b) l'"
  by (cases p) simp

lemma tracks_option [tracks_intro]:
  "tracks l m l' \<Longrightarrow> (\<And>x. tracks l (f x) l') \<Longrightarrow> tracks l (case r of None \<Rightarrow> m | Some x \<Rightarrow> f x) l'"
  by (cases r) simp_all

lemma tracks_sum [tracks_intro]:
  "(\<And>x. r = Inl x \<Longrightarrow> tracks l (f x) l') \<Longrightarrow> (\<And>x. r = Inr x \<Longrightarrow> tracks l (g x) l') \<Longrightarrow>
   tracks l (case r of Inl x \<Rightarrow> f x | Inr x \<Rightarrow> g x) l'"
  by (cases r) simp_all

lemma tracks_loop [tracks_intro]:
  "(\<And>j. i \<le> j \<Longrightarrow> j < i + n \<Longrightarrow> tracks l (f j) l) \<Longrightarrow> tracks l (jloop i n f) l"
proof (induction n arbitrary: i)
  case (Suc n)
  have "tracks l (jloop (i + 1) n f) l"
    by (rule Suc.IH) (rule Suc.prems, simp_all)
  then have "tracks l (case r of None \<Rightarrow> jloop (i + 1) n f | Some x \<Rightarrow> jret (Some x)) l" for r
    using tracks_ret by (cases r) simp_all
  then have "tracks l (jbind (f i) (\<lambda>r. case r of None \<Rightarrow> jloop (i + 1) n f | Some x \<Rightarrow> jret (Some x))) l"
    by (intro tracks_bind [OF Suc.prems]) simp_all
  then show ?case by (simp only: jloop.simps)
qed (simp add: tracks_ret)

lemma tracks_scan [tracks_intro]:
  "(\<And>j x. i \<le> j \<Longrightarrow> j < i + n \<Longrightarrow> tracks l (f j x) l) \<Longrightarrow> tracks l (jscan i n f x) l"
proof (induction n arbitrary: i x)
  case (Suc n)
  have "tracks l (jscan (i + 1) n f x) l" for x
    by (rule Suc.IH) (rule Suc.prems, simp_all)
  then have "tracks l (case r of Inl e \<Rightarrow> jret (Inl e) | Inr x \<Rightarrow> jscan (i + 1) n f x) l" for r
    using tracks_ret by (cases r) simp_all
  then have "tracks l (jbind (f i x) (\<lambda>r. case r of Inl e \<Rightarrow> jret (Inl e) | Inr x \<Rightarrow> jscan (i + 1) n f x)) l"
    by (intro tracks_bind [OF Suc.prems]) simp_all
  then show ?case by (simp only: jscan.simps)
qed (simp add: tracks_ret)

text \<open>
  \<open>obeys l m\<close>: the calls of \<open>m\<close> obey the protocol, and a run that ends without an exception
  leaves no data scan open.
\<close>

definition obeys :: "link \<Rightarrow> 'a jm \<Rightarrow> bool" where
  "obeys l m \<longleftrightarrow> (\<forall>k. \<exists>cs l1. hist (snd (m k)) = hist k @ cs \<and> ops_run l cs = Some l1 \<and>
     (\<forall>x. fst (m k) = Inr x \<longrightarrow> l1 \<noteq> OpenDR))"

lemma obeys_tracks: "tracks l m l' \<Longrightarrow> l' \<noteq> OpenDR \<Longrightarrow> obeys l m"
  unfolding tracks_def obeys_def by metis

lemma obeys_ret [tracks_intro]: "l \<noteq> OpenDR \<Longrightarrow> obeys l (jret x)"
  by (rule obeys_tracks [OF tracks_ret])

lemma obeys_bind [tracks_intro]:
  assumes "tracks l m l1" and "\<And>x. obeys l1 (f x)"
  shows "obeys l (jbind m f)"
  unfolding obeys_def
proof
  fix k
  obtain r k1 where m: "m k = (r, k1)" by (cases "m k")
  obtain cs l' where cs: "hist k1 = hist k @ cs" "ops_run l cs = Some l'" "\<And>x. r = Inr x \<Longrightarrow> l' = l1"
    using assms(1) m unfolding tracks_def by (metis fst_conv snd_conv)
  show "\<exists>cs l1. hist (snd (jbind m f k)) = hist k @ cs \<and> ops_run l cs = Some l1 \<and>
     (\<forall>x. fst (jbind m f k) = Inr x \<longrightarrow> l1 \<noteq> OpenDR)"
  proof (cases r)
    case (Inl e)
    then show ?thesis using m cs by (simp add: jbind_def)
  next
    case (Inr x)
    obtain ds l3 where "hist (snd (f x k1)) = hist k1 @ ds" "ops_run l1 ds = Some l3"
      "\<And>y. fst (f x k1) = Inr y \<Longrightarrow> l3 \<noteq> OpenDR"
      using assms(2) [of x] unfolding obeys_def by metis
    then show ?thesis
      using m cs Inr by (intro exI [of _ "cs @ ds"] exI [of _ l3]) (simp add: jbind_def ops_run_append)
  qed
qed

lemma obeys_seq [tracks_intro]:
  "l \<noteq> OpenDR \<Longrightarrow> obeys l (jseq [])"
  "tracks l m l1 \<Longrightarrow> obeys l1 (jseq ms) \<Longrightarrow> obeys l (jseq (m # ms))"
  by (simp_all add: obeys_ret obeys_bind)

lemma obeys_if [tracks_intro]: "(b \<Longrightarrow> obeys l m) \<Longrightarrow> (\<not> b \<Longrightarrow> obeys l m') \<Longrightarrow> obeys l (if b then m else m')"
  by simp

lemma obeys_let [tracks_intro]: "(\<And>x. x = v \<Longrightarrow> obeys l (f x)) \<Longrightarrow> obeys l (let x = v in f x)"
  by simp

lemma obeys_option [tracks_intro]:
  "(r = None \<Longrightarrow> obeys l m) \<Longrightarrow> (\<And>x. r = Some x \<Longrightarrow> obeys l (f x)) \<Longrightarrow> obeys l (case r of None \<Rightarrow> m | Some x \<Rightarrow> f x)"
  by (cases r) simp_all

lemma obeys_sum [tracks_intro]:
  "(\<And>x. r = Inl x \<Longrightarrow> obeys l (f x)) \<Longrightarrow> (\<And>x. r = Inr x \<Longrightarrow> obeys l (g x)) \<Longrightarrow>
   obeys l (case r of Inl x \<Rightarrow> f x | Inr x \<Rightarrow> g x)"
  by (cases r) simp_all

lemma obeys_case_prod [tracks_intro]:
  "(\<And>a b. p = (a, b) \<Longrightarrow> obeys l (f a b)) \<Longrightarrow> obeys l (case p of (a, b) \<Rightarrow> f a b)"
  by (cases p) simp

text \<open>What \<open>obeys\<close> says of a run: its calls, executed by the class, keep it in step with the TAP.\<close>

context tms_cable
begin

lemma obeys_exec:
  assumes "obeys l m" "jtag_sync wire s0 j" "jtag_conf j" "link_state l j"
  obtains cs l1 where "hist (snd (m k)) = hist k @ cs" "ops_run l cs = Some l1"
    and "list_all (ir_fits j) cs \<Longrightarrow> \<exists>j'. exec_ops drv cs j = Some j' \<and> jtag_sync wire s0 j' \<and> link_state l1 j'"
proof -
  obtain cs l1 where cs: "hist (snd (m k)) = hist k @ cs" "ops_run l cs = Some l1"
    using assms(1) unfolding obeys_def by metis
  show thesis
    using that [OF cs] exec_ops_sync [OF assms(2-4) cs(2)] by metis
qed

end

end
