(* ===== verification/JtagSpec.thy ===== *)
theory JtagSpec
  imports JtagOps
begin

text \<open>
  What a program over the calls of \<^verbatim>\<open>Jtag\<close> does to the device behind them. A device is a view of
  the calls made so far, and a relation between the view, the next call and what the cable may
  answer; \<open>wp\<close> is the total-correctness weakest precondition of a program over such a view.
\<close>

section \<open>Devices\<close>

record 'v device =
  dinit :: 'v
  dstep :: "'v \<Rightarrow> jop \<Rightarrow> 'v"
  dans :: "'v \<Rightarrow> jop \<Rightarrow> byte list \<Rightarrow> bool"

definition dview :: "'v device \<Rightarrow> jop list \<Rightarrow> 'v" where
  "dview dd cs = foldl (dstep dd) (dinit dd) cs"

lemma dview_snoc [simp]: "dview dd (cs @ [c]) = dstep dd (dview dd cs) c"
  by (simp add: dview_def)

text \<open>The answers of the cable are those of the device, on every history of calls.\<close>

definition honest :: "'v device \<Rightarrow> (jop list \<Rightarrow> byte list) \<Rightarrow> bool" where
  "honest dd rs \<longleftrightarrow> (\<forall>cs c. dans dd (dview dd cs) c (rs (cs @ [c])))"

definition wp :: "'v device \<Rightarrow> 'a jm \<Rightarrow> ('a \<Rightarrow> 'v \<Rightarrow> bool) \<Rightarrow> 'v \<Rightarrow> bool" where
  "wp dd m Q v \<longleftrightarrow> (\<forall>k. honest dd (replies k) \<longrightarrow> dview dd (hist k) = v \<longrightarrow>
     (\<exists>x k'. m k = (Inr x, k') \<and> replies k' = replies k \<and> Q x (dview dd (hist k'))))"

lemma wp_run:
  assumes "wp dd m Q (dview dd (hist k))" "honest dd (replies k)"
  obtains x k' where "m k = (Inr x, k')" "replies k' = replies k" "Q x (dview dd (hist k'))"
  using assms unfolding wp_def by metis

lemma wpI:
  "(\<And>k. honest dd (replies k) \<Longrightarrow> v = dview dd (hist k) \<Longrightarrow>
      \<exists>x k'. m k = (Inr x, k') \<and> replies k' = replies k \<and> Q x (dview dd (hist k'))) \<Longrightarrow> wp dd m Q v"
  by (simp add: wp_def)

named_theorems wp_intro \<open>rules for \<open>wp\<close>\<close>

lemma wp_ret [wp_intro]: "Q x v \<Longrightarrow> wp dd (jret x) Q v"
  by (simp add: wp_def jret_def)

lemma wp_lift [wp_intro]: "r = Inr x \<Longrightarrow> Q x v \<Longrightarrow> wp dd (jlift r) Q v"
  by (simp add: wp_def jlift_def)

lemma wp_bind [wp_intro]:
  assumes "wp dd m (\<lambda>x. wp dd (f x) Q) v"
  shows "wp dd (jbind m f) Q v"
proof (rule wpI)
  fix k :: jlink assume k: "honest dd (replies k)" "v = dview dd (hist k)"
  obtain x k1 where k1: "m k = (Inr x, k1)" "replies k1 = replies k" "wp dd (f x) Q (dview dd (hist k1))"
    using assms k by (blast elim: wp_run)
  then have "honest dd (replies k1)" using k by simp
  with k1(3) obtain y k2 where "f x k1 = (Inr y, k2)" "replies k2 = replies k1" "Q y (dview dd (hist k2))"
    by (rule wp_run)
  then show "\<exists>x k'. jbind m f k = (Inr x, k') \<and> replies k' = replies k \<and> Q x (dview dd (hist k'))"
    using k1 by (simp add: jbind_def)
qed

lemma wp_mono: "wp dd m Q v \<Longrightarrow> (\<And>x v. Q x v \<Longrightarrow> Q' x v) \<Longrightarrow> wp dd m Q' v"
  unfolding wp_def by blast

lemma wp_call [wp_intro]:
  "(\<And>r. dans dd v c r \<Longrightarrow> Q (fit n r) (dstep dd v c)) \<Longrightarrow> wp dd (jcall c n) Q v"
  by (auto simp: wp_def jcall_def honest_def)

lemma wp_do: "Q () (dstep dd v c) \<Longrightarrow> wp dd (jdo c) Q v"
  unfolding jdo_def by (intro wp_intro)

lemma wp_ops [wp_intro]:
  "Q () (dstep dd v (OpIR tdi False)) \<Longrightarrow> wp dd (jshiftIR tdi) Q v"
  "Q () (dstep dd v (OpDR (Some tdi) False n 0 exit)) \<Longrightarrow> wp dd (jshiftDR tdi n exit) Q v"
  "Q () (dstep dd v (OpTCK m True)) \<Longrightarrow> wp dd (jcycleTCK m) Q v"
  "Q () (dstep dd v (OpSleep m)) \<Longrightarrow> wp dd (jUsleep m) Q v"
  "Q () (dstep dd v OpReset) \<Longrightarrow> wp dd jreset Q v"
  "Q () (dstep dd v (OpState TEST_LOGIC_RESET)) \<Longrightarrow> wp dd jsetTLR Q v"
  "Q () (dstep dd v (OpIRDR tdi d m)) \<Longrightarrow> wp dd (jshiftIRDR tdi d m) Q v"
  unfolding jshiftIR_def jshiftDR_def jcycleTCK_def jUsleep_def jreset_def jsetTLR_def jshiftIRDR_def
  by (rule wp_do, assumption)+

lemma wp_captures [wp_intro]:
  "(\<And>r. dans dd v (OpIR tdi True) r \<Longrightarrow> P (hd (fit 1 r)) (dstep dd v (OpIR tdi True))) \<Longrightarrow>
   wp dd (jcaptureIR tdi) P v"
  "(\<And>r. dans dd v (OpDR t True n 0 exit) r \<Longrightarrow> Q (fit (nbytes n) r) (dstep dd v (OpDR t True n 0 exit))) \<Longrightarrow>
   wp dd (jcaptureDR t n exit) Q v"
  unfolding jcaptureIR_def jcaptureDR_def by (intro wp_intro, simp)+

lemma wp_seq_Nil [wp_intro]: "Q () v \<Longrightarrow> wp dd (jseq []) Q v"
  by (simp add: wp_ret)

lemma wp_seq_Cons [wp_intro]: "wp dd m (\<lambda>_. wp dd (jseq ms) Q) v \<Longrightarrow> wp dd (jseq (m # ms)) Q v"
  by (simp add: wp_bind)

lemma wp_if [wp_intro]:
  "(b \<Longrightarrow> wp dd m Q v) \<Longrightarrow> (\<not> b \<Longrightarrow> wp dd m' Q v) \<Longrightarrow> wp dd (if b then m else m') Q v"
  by simp

lemma wp_let [wp_intro]: "(\<And>x. x = y \<Longrightarrow> wp dd (f x) Q v) \<Longrightarrow> wp dd (let x = y in f x) Q v"
  by simp

lemma wp_option [wp_intro]:
  "(r = None \<Longrightarrow> wp dd m Q v) \<Longrightarrow> (\<And>x. r = Some x \<Longrightarrow> wp dd (f x) Q v) \<Longrightarrow>
   wp dd (case r of None \<Rightarrow> m | Some x \<Rightarrow> f x) Q v"
  by (cases r) simp_all

lemma wp_prod [wp_intro]:
  "(\<And>a b. p = (a, b) \<Longrightarrow> wp dd (f a b) Q v) \<Longrightarrow> wp dd (case p of (a, b) \<Rightarrow> f a b) Q v"
  by (cases p) simp

text \<open>The loops, with an invariant that is indexed by the pass.\<close>

lemma wp_fold:
  assumes "\<And>j x v. i \<le> j \<Longrightarrow> j < i + n \<Longrightarrow> I j x v \<Longrightarrow> wp dd (f j x) (I (Suc j)) v"
    and "\<And>x v. I (i + n) x v \<Longrightarrow> Q x v" and "I i x v"
  shows "wp dd (jfold i n f x) Q v"
  using assms
proof (induction n arbitrary: i x v)
  case 0
  then show ?case by (simp add: wp_ret)
next
  case (Suc n)
  have "wp dd (f i x) (I (Suc i)) v" using Suc.prems(1,3) by simp
  moreover have "wp dd (jfold (Suc i) n f x) Q v" if "I (Suc i) x v" for x v
    using Suc.IH [of "Suc i" x v] Suc.prems that by simp
  ultimately show ?case by (simp add: wp_bind wp_mono)
qed

lemma wp_loop:
  assumes "\<And>j v. i \<le> j \<Longrightarrow> j < i + n \<Longrightarrow> I j v \<Longrightarrow>
      wp dd (f j) (\<lambda>r v. case r of None \<Rightarrow> I (Suc j) v | Some x \<Rightarrow> Q (Some x) v) v"
    and "\<And>v. I (i + n) v \<Longrightarrow> Q None v" and "I i v"
  shows "wp dd (jloop i n f) Q v"
  using assms
proof (induction n arbitrary: i v)
  case 0
  then show ?case by (simp add: wp_ret)
next
  case (Suc n)
  have step: "wp dd (f i) (\<lambda>r v. case r of None \<Rightarrow> I (Suc i) v | Some x \<Rightarrow> Q (Some x) v) v"
    using Suc.prems(1,3) by simp
  have "wp dd (jloop (Suc i) n f) Q v" if "I (Suc i) v" for v
    using Suc.IH [of "Suc i" v] Suc.prems that by simp
  then have "wp dd (case r of None \<Rightarrow> jloop (Suc i) n f | Some x \<Rightarrow> jret (Some x)) Q v"
    if "case r of None \<Rightarrow> I (Suc i) v | Some x \<Rightarrow> Q (Some x) v" for r v
    using that by (cases r) (simp_all add: wp_ret)
  then have "wp dd (f i) (\<lambda>r. wp dd (case r of None \<Rightarrow> jloop (Suc i) n f | Some x \<Rightarrow> jret (Some x)) Q) v"
    by (rule wp_mono [OF step])
  then show ?case by (simp add: wp_bind)
qed

lemma wp_scan:
  assumes "\<And>j x v. i \<le> j \<Longrightarrow> j < i + n \<Longrightarrow> I j x v \<Longrightarrow>
      wp dd (f j x) (\<lambda>r v. case r of Inl e \<Rightarrow> Q (Inl e) v | Inr x \<Rightarrow> I (Suc j) x v) v"
    and "\<And>x v. I (i + n) x v \<Longrightarrow> Q (Inr x) v" and "I i x v"
  shows "wp dd (jscan i n f x) Q v"
  using assms
proof (induction n arbitrary: i x v)
  case 0
  then show ?case by (simp add: wp_ret)
next
  case (Suc n)
  have step: "wp dd (f i x) (\<lambda>r v. case r of Inl e \<Rightarrow> Q (Inl e) v | Inr x \<Rightarrow> I (Suc i) x v) v"
    using Suc.prems(1,3) by simp
  have "wp dd (jscan (Suc i) n f x) Q v" if "I (Suc i) x v" for x v
    using Suc.IH [of "Suc i" x v] Suc.prems that by simp
  then have "wp dd (case r of Inl e \<Rightarrow> jret (Inl e) | Inr x \<Rightarrow> jscan (Suc i) n f x) Q v"
    if "case r of Inl e \<Rightarrow> Q (Inl e) v | Inr x \<Rightarrow> I (Suc i) x v" for r v
    using that by (cases r) (simp_all add: wp_ret)
  then have "wp dd (f i x) (\<lambda>r. wp dd (case r of Inl e \<Rightarrow> jret (Inl e) | Inr x \<Rightarrow> jscan (Suc i) n f x) Q) v"
    by (rule wp_mono [OF step])
  then show ?case by (simp add: wp_bind)
qed

lemma wp_sum [wp_intro]:
  "(\<And>x. r = Inl x \<Longrightarrow> wp dd (f x) Q v) \<Longrightarrow> (\<And>x. r = Inr x \<Longrightarrow> wp dd (g x) Q v) \<Longrightarrow>
   wp dd (case r of Inl x \<Rightarrow> f x | Inr x \<Rightarrow> g x) Q v"
  by (cases r) simp_all

section \<open>Buffers in scans\<close>

text \<open>The bytes \<open>off\<close> to \<open>off + n - 1\<close> that a call reads through a pointer into a buffer.\<close>

definition buf_slice :: "byte list \<Rightarrow> nat \<Rightarrow> nat \<Rightarrow> byte list res" where
  "buf_slice buf off n =
     (if off + n \<le> length buf then Inr (take n (drop off buf)) else Inl (OutOfBounds (off + n)))"

lemma buf_slice_length: "buf_slice buf off n = Inr d \<Longrightarrow> length d = n"
  by (auto simp: buf_slice_def split: if_splits)

text \<open>\<^verbatim>\<open>memcpy\<close> of a list of bytes to the offset \<open>off\<close>.\<close>

definition buf_store :: "byte list \<Rightarrow> nat \<Rightarrow> byte list \<Rightarrow> byte list res" where
  "buf_store buf off bs =
     (if off + length bs \<le> length buf then Inr (take off buf @ bs @ drop (off + length bs) buf)
      else Inl (OutOfBounds (off + length bs)))"

text \<open>The sign of what \<^verbatim>\<open>memcmp\<close> returns.\<close>

fun memcmp :: "byte list \<Rightarrow> byte list \<Rightarrow> int" where
  "memcmp (a # as) (b # bs) = (if a = b then memcmp as bs else if a < b then - 1 else 1)"
| "memcmp _ _ = 0"

lemma memcmp_0: "length as = length bs \<Longrightarrow> memcmp as bs = 0 \<longleftrightarrow> as = bs"
  by (induction as bs rule: list_induct2) auto

text \<open>The number that a scan of a register loads, least significant bit first.\<close>

definition bits_nat :: "bool list \<Rightarrow> nat" where
  "bits_nat bs = horner_sum of_bool 2 bs"

lemma buf_bit_long: "k < 32 \<Longrightarrow> buf_bit (longToByteArray w) k = bit w k"
proof -
  assume "k < 32"
  then have "k div 8 \<in> {0, 1, 2, 3}" by auto
  moreover have "8 * (k div 8) + k mod 8 = k" by simp
  moreover have "k mod 8 < 8" by simp
  moreover have "bit (255 :: 32 word) j \<longleftrightarrow> j < 8" for j
    using bit_mask_iff [of 8 j, where ?'a = "32 word"] by (auto simp: mask_eq_exp_minus_1)
  ultimately show ?thesis
    unfolding buf_bit_def longToByteArray_def
    by (elim insertE) (auto simp: bit_simps)
qed

lemma bits_nat_long: "n \<le> 32 \<Longrightarrow> bits_nat (buf_bits (longToByteArray w) n) = take_bit n (unat w)"
proof -
  assume "n \<le> 32"
  then have "buf_bits (longToByteArray w) n = map (bit (unat w)) [0..<n]"
    by (auto simp: buf_bits_def buf_bit_long bit_unsigned_iff intro: impossible_bit)
  then show ?thesis by (simp add: bits_nat_def horner_sum_bit_eq_take_bit)
qed

lemma bits_nat_long_less: "m < 2 ^ n \<Longrightarrow> n \<le> 32 \<Longrightarrow> bits_nat (buf_bits (longToByteArray (of_nat m)) n) = m"
proof -
  assume m: "m < 2 ^ n" and n: "n \<le> 32"
  have "m < 2 ^ 32" using m power_increasing [OF n, of "2 :: nat"] by simp
  then have "unat (of_nat m :: u32) = m" by (simp add: unsigned_of_nat take_bit_nat_eq_self)
  then show ?thesis using m n by (simp add: bits_nat_long take_bit_nat_eq_self)
qed

lemma buf_bits_append:
  "buf_bits xs (8 * length xs) @ buf_bits ys n = buf_bits (xs @ ys) (8 * length xs + n)"
proof (rule nth_equalityI)
  fix i assume "i < length (buf_bits xs (8 * length xs) @ buf_bits ys n)"
  then have i: "i < 8 * length xs + n" by simp
  show "(buf_bits xs (8 * length xs) @ buf_bits ys n) ! i = buf_bits (xs @ ys) (8 * length xs + n) ! i"
  proof (cases "i < 8 * length xs")
    case True
    then have "i div 8 < length xs" by auto
    then show ?thesis using True by (simp add: nth_append buf_bit_def)
  next
    case False
    then obtain j where "i = 8 * length xs + j" by (metis le_iff_add not_less)
    then show ?thesis using i by (simp add: nth_append buf_bit_def)
  qed
qed simp

lemma buf_bits_take: "n \<le> 8 * m \<Longrightarrow> buf_bits (take m bs) n = buf_bits bs n"
  by (auto simp: buf_bits_def buf_bit_def intro!: nth_take)

lemma buf_bits_inject:
  assumes "length xs = n" "length ys = n" "buf_bits xs (8 * n) = buf_bits ys (8 * n)"
  shows "xs = ys"
proof (rule nth_equalityI)
  fix i assume i: "i < length xs"
  have "bit (xs ! i) j = bit (ys ! i) j" if j: "j < 8" for j
  proof -
    have "8 * i + j < 8 * n" using i j assms(1) by simp
    then have "buf_bit xs (8 * i + j) = buf_bit ys (8 * i + j)"
      using assms(3) by (metis nth_buf_bits)
    then show ?thesis using j by (simp add: buf_bit_def)
  qed
  then show "xs ! i = ys ! i" by (simp add: byte_eq_iff)
qed (simp add: assms)

lemma length_fit [simp]: "length (fit n bs) = n"
  by (simp add: fit_def)

lemma bits_bytes_take: "n \<le> length bs \<Longrightarrow> buf_bits (fit (nbytes n) (bits_bytes n bs)) n = take n bs"
proof (rule nth_equalityI)
  fix k assume n: "n \<le> length bs" and "k < length (buf_bits (fit (nbytes n) (bits_bytes n bs)) n)"
  then have k: "k < n" by simp
  have "fit (nbytes n) (bits_bytes n bs) = bits_bytes n bs" by (simp add: fit_def bits_bytes_def)
  then show "buf_bits (fit (nbytes n) (bits_bytes n bs)) n ! k = take n bs ! k"
    using k n by (simp add: buf_bit_bits_bytes)
qed simp

lemma honest_mono:
  assumes "honest d rs" "dinit d' = dinit d" "dstep d' = dstep d" "\<And>v c r. dans d v c r \<Longrightarrow> dans d' v c r"
  shows "honest d' rs"
  using assms unfolding honest_def dview_def by simp

text \<open>The bits that a scan shifts in; without \<^verbatim>\<open>tdi\<close> they are zeros.\<close>

definition scan_in :: "byte list option \<Rightarrow> nat \<Rightarrow> bool list" where
  "scan_in tdi n = (case tdi of None \<Rightarrow> replicate n False | Some bs \<Rightarrow> buf_bits bs n)"

lemma scan_in_simps [simp]: "scan_in (Some bs) n = buf_bits bs n" "scan_in None n = replicate n False"
  by (simp_all add: scan_in_def)

text \<open>A memory after a list of writes.\<close>

definition mem_after :: "(nat \<Rightarrow> 'v) \<Rightarrow> (nat \<times> 'v) list \<Rightarrow> nat \<Rightarrow> 'v" where
  "mem_after mem ws = fold (\<lambda>(a, d) m. m(a := d)) ws mem"

lemma mem_after_image:
  assumes "inj_on f {..<k}" "u < k"
  shows "mem_after mem (ws @ map (\<lambda>w. (f w, g w)) [0..<k]) (f u) = g u"
  using assms
proof (induction k)
  case (Suc k)
  then have "inj_on f {..<k}" by (auto simp: lessThan_Suc)
  then show ?case
    using Suc.IH Suc.prems by (auto simp: mem_after_def less_Suc_eq dest: inj_onD)
qed simp

lemma mem_after_length:
  "\<forall>a. length (mem a) = n \<Longrightarrow> list_all (\<lambda>w. length (snd w) = n) ws \<Longrightarrow> length (mem_after mem ws a) = n"
  by (induction ws rule: rev_induct) (auto simp: mem_after_def)

lemma jbind_simps:
  "jbind (jret y) f = f y" "jbind (jlift (Inl e)) h = jlift (Inl e)"
  "jbind (jbind m f) g = jbind m (\<lambda>y. jbind (f y) g)"
  by (auto simp: jbind_def jret_def jlift_def fun_eq_iff split: sum.split prod.split)

lemma jbind_option:
  "jbind (case r of None \<Rightarrow> m | Some y \<Rightarrow> f y) g = (case r of None \<Rightarrow> jbind m g | Some y \<Rightarrow> jbind (f y) g)"
  by (cases r) simp_all

text \<open>The protocol rules for a step that may throw.\<close>

lemma tracks_bind_lift:
  "(\<And>x. r = Inr x \<Longrightarrow> tracks l (f x) l') \<Longrightarrow> tracks l (jbind (jlift r) f) l'"
  by (cases r) (auto simp: tracks_def jbind_def jlift_def)

lemma tracks_mono: "tracks l m l' \<Longrightarrow> l' = l'' \<Longrightarrow> tracks l m l''"
  by simp

section \<open>Whatever the part answers\<close>

text \<open>A part of which nothing is known.\<close>

definition any_device :: "unit device" where
  "any_device = \<lparr>dinit = (), dstep = \<lambda>_ _. (), dans = \<lambda>_ _ _. True\<rparr>"

lemma wp_any: "wp any_device m (\<lambda>x _. Q x) () \<Longrightarrow> \<exists>x. fst (m k) = Inr x \<and> Q x"
proof -
  assume "wp any_device m (\<lambda>x _. Q x) ()"
  then have "wp any_device m (\<lambda>x _. Q x) (dview any_device (hist k))" "honest any_device (replies k)"
    by (simp_all add: any_device_def honest_def)
  then obtain x k' where "m k = (Inr x, k')" "Q x" by (rule wp_run)
  then show ?thesis by simp
qed

end
