(* ===== verification/ProgAlg.thy ===== *)
theory ProgAlg
  imports BitFile JtagSpec
begin

text \<open>
  \<^verbatim>\<open>progalg.h\<close>: the interface that the programming algorithms implement, as the table of its
  virtual methods, and the contract that its users rely on: the calls of an algorithm obey the
  protocol of \<^verbatim>\<open>Jtag\<close> and leave no data scan open, whatever the cable answers.
\<close>

record progalg =
  getSize :: nat
  erase :: "int jm"
  program :: "bitfile \<Rightarrow> int jm"
  verify :: "bitfile \<Rightarrow> int jm"
  read :: "bitfile \<Rightarrow> (int \<times> bitfile) jm"
  reconfig :: "unit jm"
  disable :: "unit jm"

datatype prog_call = Erase | Program bitfile | Verify bitfile | Read bitfile | Reconfig | Disable

definition discard :: "'a jm \<Rightarrow> unit jm" where
  "discard m = jbind m (\<lambda>_. jret ())"

definition prog_do :: "progalg \<Rightarrow> prog_call \<Rightarrow> unit jm" where
  "prog_do alg c =
     (case c of
        Erase \<Rightarrow> discard (erase alg)
      | Program bf \<Rightarrow> discard (program alg bf)
      | Verify bf \<Rightarrow> discard (verify alg bf)
      | Read bf \<Rightarrow> discard (read alg bf)
      | Reconfig \<Rightarrow> reconfig alg
      | Disable \<Rightarrow> disable alg)"

text \<open>The calls of \<^verbatim>\<open>Jtag\<close> that a program adds to the history.\<close>

definition calls :: "'a jm \<Rightarrow> jlink \<Rightarrow> jop list" where
  "calls m k = drop (length (hist k)) (hist (snd (m k)))"

lemma obeys_then:
  assumes "obeys l m" and "\<And>x l1. l1 \<noteq> OpenDR \<Longrightarrow> obeys l1 (f x)"
  shows "obeys l (jbind m f)"
  unfolding obeys_def
proof
  fix k
  obtain r k1 where m: "m k = (r, k1)" by (cases "m k")
  obtain cs l1 where cs: "hist k1 = hist k @ cs" "ops_run l cs = Some l1" "\<And>x. r = Inr x \<Longrightarrow> l1 \<noteq> OpenDR"
    using assms(1) m unfolding obeys_def by (metis fst_conv snd_conv)
  show "\<exists>cs l1. hist (snd (jbind m f k)) = hist k @ cs \<and> ops_run l cs = Some l1 \<and>
     (\<forall>x. fst (jbind m f k) = Inr x \<longrightarrow> l1 \<noteq> OpenDR)"
  proof (cases r)
    case (Inl e)
    then show ?thesis using m cs by (simp add: jbind_def)
  next
    case (Inr x)
    obtain ds l3 where "hist (snd (f x k1)) = hist k1 @ ds" "ops_run l1 ds = Some l3"
      "\<And>y. fst (f x k1) = Inr y \<Longrightarrow> l3 \<noteq> OpenDR"
      using assms(2) [of l1 x] cs(3) [OF Inr] unfolding obeys_def by metis
    then show ?thesis
      using m cs Inr by (intro exI [of _ "cs @ ds"] exI [of _ l3]) (simp add: jbind_def ops_run_append)
  qed
qed

lemma obeys_discard: "obeys l m \<Longrightarrow> obeys l (discard m)"
  unfolding discard_def by (rule obeys_then) (simp_all add: obeys_ret)

text \<open>An instruction register of at most eight bits takes every instruction that is not empty.\<close>

lemma ops_run_fits:
  "ops_run l cs = Some l' \<Longrightarrow> irlen (devices j ! nat (deviceIndex j)) \<le> 8 \<Longrightarrow> list_all (ir_fits j) cs"
proof (induction cs arbitrary: l)
  case (Cons c cs)
  then obtain l1 where "op_next l c = Some l1" "ops_run l1 cs = Some l'" by (auto split: option.splits)
  moreover have "8 \<le> 8 * length tdi" if "tdi \<noteq> []" for tdi :: "byte list"
    using that by (cases tdi) auto
  then have "ir_fits j c" if "op_next l c = Some l1"
    using that Cons.prems(2) by (cases c) (auto simp: ir_fits_def split: if_splits intro: order_trans)
  ultimately show ?case using Cons by simp
qed simp

locale prog_protocol =
  fixes alg :: "'c \<Rightarrow> progalg" and good :: "'c \<Rightarrow> bool"
  assumes erase_obeys: "good c \<Longrightarrow> l \<noteq> OpenDR \<Longrightarrow> obeys l (erase (alg c))"
    and program_obeys: "good c \<Longrightarrow> l \<noteq> OpenDR \<Longrightarrow> obeys l (program (alg c) bf)"
    and verify_obeys: "good c \<Longrightarrow> l \<noteq> OpenDR \<Longrightarrow> obeys l (verify (alg c) bf)"
    and read_obeys: "good c \<Longrightarrow> l \<noteq> OpenDR \<Longrightarrow> obeys l (read (alg c) bf)"
    and ends_obey: "good c \<Longrightarrow> l \<noteq> OpenDR \<Longrightarrow> obeys l (reconfig (alg c))"
      "good c \<Longrightarrow> l \<noteq> OpenDR \<Longrightarrow> obeys l (disable (alg c))"
begin

lemma do_obeys: "good c \<Longrightarrow> l \<noteq> OpenDR \<Longrightarrow> obeys l (prog_do (alg c) p)"
  by (cases p)
    (simp_all add: prog_do_def obeys_discard erase_obeys program_obeys verify_obeys read_obeys ends_obey)

lemma session_obeys: "good c \<Longrightarrow> l \<noteq> OpenDR \<Longrightarrow> obeys l (jseq (map (prog_do (alg c)) ps))"
proof (induction ps arbitrary: l)
  case (Cons p ps)
  then show ?case by (simp add: obeys_then do_obeys)
qed (simp add: obeys_ret)

end

text \<open>What the protocol is for: the class executes the calls and stays in step with the TAP.\<close>

context tms_cable
begin

lemma obeys_tracks_tap:
  assumes "obeys l m" "jtag_sync wire s0 j" "jtag_conf j" "link_state l j"
    and "irlen (devices j ! nat (deviceIndex j)) \<le> 8"
  shows "\<exists>j'. exec_ops drv (calls m k) j = Some j' \<and> jtag_sync wire s0 j'"
proof -
  obtain cs l1 where cs: "hist (snd (m k)) = hist k @ cs" "ops_run l cs = Some l1"
    and run: "list_all (ir_fits j) cs \<Longrightarrow> \<exists>j'. exec_ops drv cs j = Some j' \<and> jtag_sync wire s0 j' \<and> link_state l1 j'"
    using obeys_exec [OF assms(1-4)] by metis
  from cs(1) have "calls m k = cs" by (simp add: calls_def)
  with run ops_run_fits [OF cs(2) assms(5)] show ?thesis by auto
qed

end

end
