(* ===== verification/ProgXCF.thy ===== *)
theory ProgXCF
  imports ProgAlg
begin

text \<open>
  \<^verbatim>\<open>progalgxcf.cpp\<close>: erasing, programming, verifying and reading Xilinx Platform Flash PROMs
  (XCF..S) and the older XC18V, as programs over the calls of \<^verbatim>\<open>Jtag\<close>. Messages and timers are
  left out. A scan passes the bytes it reads of \<^verbatim>\<open>data\<close>.
\<close>

section \<open>The class\<close>

definition XCF_SERASE :: byte where "XCF_SERASE = 0x0a"
definition XCF_ISCTESTSTATUS :: byte where "XCF_ISCTESTSTATUS = 0xe3"
definition XCF_ISC_ENABLE :: byte where "XCF_ISC_ENABLE = 0xe8"
definition XCF_ISC_PROGRAM :: byte where "XCF_ISC_PROGRAM = 0xea"
definition XCF_ISC_ADDRESS_SHIFT :: byte where "XCF_ISC_ADDRESS_SHIFT = 0xeb"
definition XCF_ISC_ERASE :: byte where "XCF_ISC_ERASE = 0xec"
definition XCF_ISC_DATA_SHIFT :: byte where "XCF_ISC_DATA_SHIFT = 0xed"
definition XCF_CONFIG :: byte where "XCF_CONFIG = 0xee"
definition XCF_ISC_READ :: byte where "XCF_ISC_READ = 0xef"
definition XCF_ISC_DISABLE :: byte where "XCF_ISC_DISABLE = 0xf0"
definition XCF_BYPASS :: byte where "XCF_BYPASS = 0xff"
definition XCF_BIT3 :: byte where "XCF_BIT3 = 0x08"

lemmas xcf_codes = XCF_SERASE_def XCF_ISCTESTSTATUS_def XCF_ISC_ENABLE_def XCF_ISC_PROGRAM_def
  XCF_ISC_ADDRESS_SHIFT_def XCF_ISC_ERASE_def XCF_ISC_DATA_SHIFT_def XCF_CONFIG_def XCF_ISC_READ_def
  XCF_ISC_DISABLE_def XCF_BYPASS_def XCF_BIT3_def

definition FRAMES_PER_BLOCK :: nat where "FRAMES_PER_BLOCK = 32"

record xcf =
  xblock :: nat
  xsize :: nat
  use_optimized_algs :: bool

definition xcf_init :: "u32 \<Rightarrow> xcf res" where
  "xcf_init size_ind =
     (let c = size_ind AND 0xfffffef;
          x = (\<lambda>s b opt. Inr \<lparr>xblock = b, xsize = s, use_optimized_algs = opt\<rparr>)
      in if c = 0x23 then x (2 ^ 19) 2048 False
         else if c = 0x24 then x (2 ^ 20) 2048 False
         else if c = 0x25 then x (2 * 2 ^ 20) 4096 False
         else if c = 0x26 then x (4 * 2 ^ 20) 4096 False
         else if c = 0x44 then x (2 ^ 20) 2048 True
         else if c = 0x45 then x (2 * 2 ^ 20) 4096 True
         else if c = 0x46 then x (4 * 2 ^ 20) 4096 True
         else Inl (InvalidArgument ''Unknown XCF device size code''))"

definition xcf_mode :: "xcf \<Rightarrow> byte list" where
  "xcf_mode x = [if \<not> use_optimized_algs x then 0x34 else 0x37]"

section \<open>Erasing\<close>

text \<open>One pass of the loop that waits for the end of the erasure; \<open>Some\<close> is the \<^verbatim>\<open>break\<close>.\<close>

definition xcf_erase_poll :: "xcf \<Rightarrow> nat \<Rightarrow> unit option jm" where
  "xcf_erase_poll x i =
     jbind (jUsleep 500000) (\<lambda>_.
       if \<not> use_optimized_algs x then jret (if i = 31 then Some () else None)
       else jbind (jshiftIR [XCF_ISCTESTSTATUS]) (\<lambda>_.
            jbind (jcaptureDR None 8 True) (\<lambda>xcstatus.
              jret (if hd xcstatus AND 0x04 \<noteq> 0 then Some () else None))))"

definition xcf_erase :: "xcf \<Rightarrow> int jm" where
  "xcf_erase x =
     jbind (jseq [jshiftIR [XCF_ISC_DISABLE], jUsleep 110000]) (\<lambda>_.
     jbind (jcaptureIR [XCF_BYPASS]) (\<lambda>ircap.
       if ircap AND XCF_BIT3 = XCF_BIT3 then jret 1
       else
         jbind (jseq [jshiftIR [XCF_ISC_ENABLE], jshiftDR (xcf_mode x) 6 True,
                      jshiftIR [XCF_ISC_ADDRESS_SHIFT], jshiftDR (longToByteArray 1) 16 True,
                      jcycleTCK 1, jshiftIR [XCF_ISC_ERASE]]) (\<lambda>_.
         jbind (jloop 0 32 (xcf_erase_poll x)) (\<lambda>r.
           jret (case r of None \<Rightarrow> 1 | Some _ \<Rightarrow> 0)))))"

section \<open>The range of an operation\<close>

text \<open>
  \<open>xcf_range x bf n e\<close>: the checks that \<^verbatim>\<open>program\<close>, \<^verbatim>\<open>verify\<close> and \<^verbatim>\<open>read\<close> make; \<open>n\<close> is the
  number of bits without \<^verbatim>\<open>getRLength()\<close>, as a function of \<^verbatim>\<open>skipbits\<close>, and \<open>e\<close> the code of the
  first failing check. The result is \<^verbatim>\<open>skipbits\<close> and \<^verbatim>\<open>nbits\<close>; products wrap as \<^verbatim>\<open>unsigned\<close> does.
\<close>

definition xcf_range :: "xcf \<Rightarrow> bitfile \<Rightarrow> (nat \<Rightarrow> nat) \<Rightarrow> int \<Rightarrow> int + nat \<times> nat" where
  "xcf_range x bf n e =
     (let skipbits = bits_of (boffset bf);
          nbits = (if rlength bf \<noteq> 0 then bits_of (rlength bf) else n skipbits)
      in if skipbits mod xblock x \<noteq> 0 then Inl e
         else if xsize x < skipbits then Inl (- 1)
         else Inr (skipbits, if xsize x - skipbits < nbits then xsize x - skipbits else nbits))"

definition xcf_nblocks :: "xcf \<Rightarrow> nat \<Rightarrow> nat" where
  "xcf_nblocks x nbits = (nbits + xblock x - 1) div xblock x"

text \<open>\<^verbatim>\<open>blkbytes\<close>: the bytes of block \<open>i\<close> that belong to the file.\<close>

definition xcf_blkbytes :: "xcf \<Rightarrow> nat \<Rightarrow> nat \<Rightarrow> nat" where
  "xcf_blkbytes x nbits i =
     (if nbits < (i + 1) * xblock x then (nbits - i * xblock x + 7) div 8 else xblock x div 8)"

section \<open>Programming\<close>

definition xcf_program_poll :: "nat \<Rightarrow> unit option jm" where
  "xcf_program_poll j =
     jbind (jseq [jUsleep 500, jshiftIR [XCF_ISCTESTSTATUS]]) (\<lambda>_.
     jbind (jcaptureDR None 8 True) (\<lambda>xcstatus.
       jret (if hd xcstatus AND 0x04 \<noteq> 0 then Some () else None)))"

text \<open>Shifting the data of block \<open>i\<close>; the last one is filled with ones in a second scan.\<close>

definition xcf_shift_block :: "xcf \<Rightarrow> bitfile \<Rightarrow> nat \<Rightarrow> nat \<Rightarrow> unit jm" where
  "xcf_shift_block x bf nbits i =
     (if (i + 1) * xblock x \<le> nbits
      then jbind (jlift (buf_slice (buffer bf) (i * xblock x div 8) (xblock x div 8))) (\<lambda>d.
             jshiftDR d (xblock x) True)
      else let rembytes = (nbits - i * xblock x + 7) div 8;
               padbytes = xblock x div 8 - rembytes
           in jbind (jlift (buf_slice (buffer bf) (i * xblock x div 8) rembytes)) (\<lambda>d.
              jseq [jshiftDR d (rembytes * 8) False,
                    jshiftDR (replicate padbytes 0xff) (padbytes * 8) True]))"

definition xcf_program_block :: "xcf \<Rightarrow> bitfile \<Rightarrow> nat \<Rightarrow> nat \<Rightarrow> nat \<Rightarrow> int option jm" where
  "xcf_program_block x bf nbits skipblocks i =
     (let frame = (skipblocks + i) * FRAMES_PER_BLOCK
      in jbind (jseq [jshiftIR [XCF_ISC_DATA_SHIFT], xcf_shift_block x bf nbits i,
                      jshiftIR [XCF_ISC_ADDRESS_SHIFT], jcycleTCK 1,
                      jshiftDR (longToByteArray (of_nat frame)) 16 True, jcycleTCK 1,
                      jshiftIR [XCF_ISC_PROGRAM]]) (\<lambda>_.
         if \<not> use_optimized_algs x then jbind (jUsleep 14000) (\<lambda>_. jret None)
         else jbind (jloop 0 28 xcf_program_poll) (\<lambda>r.
                jret (case r of None \<Rightarrow> Some 1 | Some _ \<Rightarrow> None))))"

text \<open>\<^verbatim>\<open>SERASE\<close> is sent to the XC18V only.\<close>

definition xcf_serase :: "xcf \<Rightarrow> unit jm" where
  "xcf_serase x =
     (if \<not> use_optimized_algs x
      then jseq [jshiftIR [XCF_ISC_ADDRESS_SHIFT], jcycleTCK 1, jshiftDR (longToByteArray 1) 16 True,
                 jcycleTCK 1, jshiftIR [XCF_SERASE], jUsleep 37000]
      else jret ())"

definition xcf_program :: "xcf \<Rightarrow> bitfile \<Rightarrow> int jm" where
  "xcf_program x bf =
     (case xcf_range x bf (\<lambda>_. getLength bf) (- 1) of
        Inl e \<Rightarrow> jret e
      | Inr (skipbits, nbits) \<Rightarrow>
          jbind (jseq [jshiftIR [XCF_ISC_DISABLE], jUsleep 1000, jsetTLR, jshiftIR [XCF_ISC_ENABLE],
                       jshiftDR (xcf_mode x) 6 True]) (\<lambda>_.
          jbind (jloop 0 (xcf_nblocks x nbits) (xcf_program_block x bf nbits (skipbits div xblock x))) (\<lambda>r.
            case r of
              Some e \<Rightarrow> jret e
            | None \<Rightarrow> jbind (jseq [xcf_serase x, jshiftIR [XCF_BYPASS], jcycleTCK 1, jreset]) (\<lambda>_. jret 0))))"

section \<open>Verifying and reading\<close>

definition xcf_start_read :: "unit jm" where
  "xcf_start_read = jseq [jsetTLR, jshiftIR [XCF_ISC_ENABLE], jshiftDR [0x34] 6 True]"

definition xcf_read_block :: "xcf \<Rightarrow> nat \<Rightarrow> nat \<Rightarrow> byte list jm" where
  "xcf_read_block x skipblocks i =
     (let frame = (skipblocks + i) * FRAMES_PER_BLOCK
      in jbind (jseq [jshiftIR [XCF_ISC_ADDRESS_SHIFT], jshiftDR (longToByteArray (of_nat frame)) 16 True,
                      jcycleTCK 1, jshiftIR [XCF_ISC_READ], jUsleep 50]) (\<lambda>_.
         jcaptureDR None (xblock x) True))"

definition xcf_verify :: "xcf \<Rightarrow> bitfile \<Rightarrow> int jm" where
  "xcf_verify x bf =
     (case xcf_range x bf (\<lambda>_. getLength bf) 1 of
        Inl e \<Rightarrow> jret e
      | Inr (skipbits, nbits) \<Rightarrow>
          jbind xcf_start_read (\<lambda>_.
          jbind (jloop 0 (xcf_nblocks x nbits) (\<lambda>i.
            jbind (xcf_read_block x (skipbits div xblock x) i) (\<lambda>data.
            let n = xcf_blkbytes x nbits i
            in jbind (jlift (buf_slice (buffer bf) (i * xblock x div 8) n)) (\<lambda>d.
               let res = memcmp (take n data) d
               in jret (if res \<noteq> 0 then Some res else None))))) (\<lambda>r.
            case r of Some res \<Rightarrow> jret res
            | None \<Rightarrow> jbind jreset (\<lambda>_. jret 0))))"

text \<open>\<^verbatim>\<open>read\<close> fills the file that it is given.\<close>

definition xcf_read :: "xcf \<Rightarrow> bitfile \<Rightarrow> (int \<times> bitfile) jm" where
  "xcf_read x bf =
     (case xcf_range x bf (\<lambda>skipbits. xsize x - skipbits) (- 1) of
        Inl e \<Rightarrow> jret (e, bf)
      | Inr (skipbits, nbits) \<Rightarrow>
          let bf = setLength nbits bf
          in jbind xcf_start_read (\<lambda>_.
             jbind (jfold 0 (xcf_nblocks x nbits) (\<lambda>i buf.
               jbind (xcf_read_block x (skipbits div xblock x) i) (\<lambda>data.
                 jlift (buf_store buf (i * xblock x div 8) (take (xcf_blkbytes x nbits i) data)))) (buffer bf))
             (\<lambda>buf. jbind jreset (\<lambda>_. jret (0, bf\<lparr>buffer := buf\<rparr>)))))"

definition xcf_disable :: "unit jm" where
  "xcf_disable = jseq [jshiftIR [XCF_ISC_DISABLE], jUsleep 110000, jshiftIR [XCF_BYPASS], jcycleTCK 1, jreset]"

definition xcf_reconfig :: "unit jm" where
  "xcf_reconfig = jseq [jshiftIR [XCF_CONFIG], jcycleTCK 1, jshiftIR [XCF_BYPASS], jcycleTCK 1, jreset]"

definition xcf_alg :: "xcf \<Rightarrow> progalg" where
  "xcf_alg x =
     \<lparr>getSize = xsize x, erase = xcf_erase x, program = xcf_program x, verify = xcf_verify x,
      read = xcf_read x, reconfig = xcf_reconfig, disable = xcf_disable\<rparr>"

end
