(* ===== verification/ProgXCFProps.thy ===== *)
theory ProgXCFProps
  imports ProgXCF
begin

text \<open>
  Properties of \<^verbatim>\<open>ProgAlgXCF\<close>: its calls obey the protocol of \<^verbatim>\<open>Jtag\<close>, what programming commits
  to the PROM, what verifying and reading answer, and the round trip.
\<close>

section \<open>The protocol\<close>

definition xcf_ok :: "xcf \<Rightarrow> bool" where
  "xcf_ok x \<longleftrightarrow> xblock x \<in> {2048, 4096} \<and> xblock x dvd xsize x \<and> 0 < xsize x \<and> xsize x \<le> 2 ^ 22 \<and>
     xsize x div xblock x \<le> 1024"

lemma xcf_init_ok: "xcf_init s = Inr x \<Longrightarrow> xcf_ok x"
  by (auto simp: xcf_init_def xcf_ok_def Let_def split: if_splits)

lemma xcf_okD:
  assumes "xcf_ok x"
  shows "0 < xblock x" "xblock x mod 8 = 0" "xblock x \<le> 8 * 512" "8 dvd xblock x" "nbytes (xblock x) = xblock x div 8"
  using assms by (auto simp: xcf_ok_def nbytes_def)

lemma xcf_ok_size: "xcf_ok x \<Longrightarrow> 8 dvd xsize x"
  using xcf_okD(4) [of x] dvd_trans unfolding xcf_ok_def by blast

lemma xcf_rangeD:
  assumes "xcf_range x bf n e = Inr (skip, nbits)" "xcf_ok x" "\<And>s. 8 dvd s \<Longrightarrow> s \<le> xsize x \<Longrightarrow> 8 dvd n s"
  shows "xblock x dvd skip" "skip \<le> xsize x" "nbits \<le> xsize x - skip" "8 dvd nbits"
    "skip = bits_of (boffset bf)"
proof -
  let ?s = "bits_of (boffset bf)"
  let ?n = "if rlength bf \<noteq> 0 then bits_of (rlength bf) else n ?s"
  have r: "skip = ?s" "xblock x dvd ?s" "?s \<le> xsize x" "nbits = min (xsize x - ?s) ?n"
    using assms(1) by (auto simp: xcf_range_def Let_def dvd_eq_mod_eq_0 split: if_splits)
  have "8 dvd xsize x - ?s"
    by (rule dvd_diff_nat) (rule xcf_ok_size [OF assms(2)], rule bits_of_dvd)
  moreover have "8 dvd ?n" using assms(3) [OF bits_of_dvd r(3)] by simp
  ultimately show "8 dvd nbits" by (simp add: r(4) min_def)
  show "xblock x dvd skip" "skip \<le> xsize x" "nbits \<le> xsize x - skip" "skip = ?s"
    using r by simp_all
qed

text \<open>The block that the file does not fill: its rest and its padding are not empty.\<close>

lemma xcf_block_start:
  assumes "0 < xblock x" "i < xcf_nblocks x nbits"
  shows "i * xblock x < nbits"
proof -
  have "Suc i * xblock x \<le> nbits + xblock x - 1"
    using assms unfolding xcf_nblocks_def by (metis Suc_leI less_eq_div_iff_mult_less_eq)
  then show ?thesis using assms by simp
qed

lemma xcf_last_block:
  assumes "xcf_ok x" "i < xcf_nblocks x nbits" "\<not> (i + 1) * xblock x \<le> nbits" "8 dvd nbits"
  shows "0 < (nbits - i * xblock x + 7) div 8" "(nbits - i * xblock x + 7) div 8 < xblock x div 8"
    "(nbits - i * xblock x + 7) div 8 * 8 = nbits - i * xblock x"
proof -
  have b: "0 < xblock x" "8 dvd xblock x" using xcf_okD [OF assms(1)] by auto
  have lt: "0 < nbits - i * xblock x" using xcf_block_start [OF b(1) assms(2)] by simp
  have d: "8 dvd nbits - i * xblock x" using assms(4) b(2) by (simp add: dvd_diff_nat)
  have "nbits - i * xblock x < xblock x" using assms(3) lt by simp
  with lt d b(2) show "0 < (nbits - i * xblock x + 7) div 8"
    "(nbits - i * xblock x + 7) div 8 < xblock x div 8"
    "(nbits - i * xblock x + 7) div 8 * 8 = nbits - i * xblock x"
    by (auto elim!: dvdE)
qed

lemma tracks_xcf_shift_block:
  assumes "xcf_ok x" "8 dvd nbits" "i < xcf_nblocks x nbits"
  shows "tracks Idle (xcf_shift_block x bf nbits i) Idle"
proof (cases "(i + 1) * xblock x \<le> nbits")
  case True
  then show ?thesis
    unfolding xcf_shift_block_def using xcf_okD [OF assms(1)]
    by (auto intro!: tracks_bind_lift tracks_intro dest!: buf_slice_length)
next
  case False
  define rem where "rem = (nbits - i * xblock x + 7) div 8"
  note last = xcf_last_block [OF assms(1,3) False assms(2), folded rem_def]
  have "tracks Idle (jseq [jshiftDR d (rem * 8) False,
      jshiftDR (replicate (xblock x div 8 - rem) 0xff) ((xblock x div 8 - rem) * 8) True]) Idle"
    if "length d = rem" for d
  proof -
    have "tracks Idle (jshiftDR d (rem * 8) False) OpenDR" using last(1) that by (intro tracks_intro) simp_all
    moreover have "tracks OpenDR (jshiftDR (replicate (xblock x div 8 - rem) 0xff) ((xblock x div 8 - rem) * 8) True) Idle"
      using last(2) by (intro tracks_intro) simp_all
    ultimately show ?thesis by (rule tracks_seq_Cons [OF _ tracks_seq_Cons [OF _ tracks_seq_Nil]])
  qed
  then show ?thesis
    using False
    by (auto simp: xcf_shift_block_def Let_def rem_def [symmetric] simp del: jseq.simps
        intro!: tracks_bind_lift dest: buf_slice_length)
qed

lemma tracks_xcf_program_block:
  assumes "xcf_ok x" "8 dvd nbits" "i < xcf_nblocks x nbits"
  shows "tracks Idle (xcf_program_block x bf nbits skip i) Idle"
  unfolding xcf_program_block_def Let_def xcf_program_poll_def using assms
  by (auto intro!: tracks_intro tracks_xcf_shift_block)

lemmas xcf_ops = xcf_erase_def xcf_program_def xcf_verify_def xcf_read_def xcf_disable_def xcf_reconfig_def

lemmas xcf_parts = xcf_erase_poll_def xcf_start_read_def xcf_read_block_def xcf_serase_def xcf_mode_def

lemma obeys_xcf_program: "xcf_ok x \<Longrightarrow> l \<noteq> OpenDR \<Longrightarrow> obeys l (xcf_program x bf)"
  unfolding xcf_program_def xcf_parts
  by (auto intro!: tracks_intro tracks_xcf_program_block simp: getLength_def
      dest!: xcf_rangeD(4) simp del: jseq.simps)

lemma tracks_xcf_read_block: "xcf_ok x \<Longrightarrow> tracks Idle (xcf_read_block x skip i) Idle"
  unfolding xcf_read_block_def using xcf_okD [of x]
  by (auto intro!: tracks_intro simp del: jseq.simps)

lemma tracks_xcf_erase_poll: "tracks Idle (xcf_erase_poll x i) Idle"
  unfolding xcf_erase_poll_def by (auto intro!: tracks_intro)

lemma obeys_xcf_erase: "l \<noteq> OpenDR \<Longrightarrow> obeys l (xcf_erase x)"
  unfolding xcf_erase_def xcf_mode_def
  by (auto intro!: tracks_intro tracks_xcf_erase_poll simp del: jseq.simps)

lemma obeys_xcf_verify: "xcf_ok x \<Longrightarrow> l \<noteq> OpenDR \<Longrightarrow> obeys l (xcf_verify x bf)"
  unfolding xcf_verify_def xcf_start_read_def
  by (auto intro!: tracks_intro tracks_xcf_read_block simp del: jseq.simps)

lemma obeys_xcf_read: "xcf_ok x \<Longrightarrow> l \<noteq> OpenDR \<Longrightarrow> obeys l (xcf_read x bf)"
  unfolding xcf_read_def xcf_start_read_def
  by (auto intro!: tracks_intro tracks_xcf_read_block simp del: jseq.simps)

lemma obeys_xcf_ends: "l \<noteq> OpenDR \<Longrightarrow> obeys l xcf_disable" "l \<noteq> OpenDR \<Longrightarrow> obeys l xcf_reconfig"
  unfolding xcf_disable_def xcf_reconfig_def by (auto intro!: tracks_intro simp del: jseq.simps)

interpretation xcf_protocol: prog_protocol xcf_alg xcf_ok
  by unfold_locales
    (simp_all add: xcf_alg_def obeys_xcf_erase obeys_xcf_program obeys_xcf_verify obeys_xcf_read obeys_xcf_ends)

text \<open>
  Every session of calls of \<^verbatim>\<open>ProgAlgXCF\<close>, whatever the PROM answers and whether or not
  the calls fail, keeps \<^verbatim>\<open>Jtag\<close> in step with the TAP of the chain.
\<close>

theorem xcf_session_tracks_tap:
  assumes "xcf_init s = Inr x" and "jtag_sync gpio_wire s0 j" and "jtag_conf j"
    and "link_state l j" and "l \<noteq> OpenDR" and "irlen (devices j ! nat (deviceIndex j)) \<le> 8"
  shows "\<exists>j'. exec_ops (gpio_driver env junk) (calls (jseq (map (prog_do (xcf_alg x)) ps)) k) j = Some j' \<and>
     jtag_sync gpio_wire s0 j'"
  using gpio.obeys_tracks_tap [OF xcf_protocol.session_obeys [OF xcf_init_ok [OF assms(1)] assms(5)] assms(2-4,6)] .

theorem xcf_session_tracks_tap_witness:
  "\<exists>j'. exec_ops (gpio_driver (\<lambda>_. True) 0)
     (calls (jseq (map (prog_do (xcf_alg \<lparr>xblock = 4096, xsize = 2 ^ 22, use_optimized_algs = True\<rparr>))
        [Erase, Program bitfile_init, Reconfig])) \<lparr>hist = [], replies = \<lambda>_. [4]\<rparr>) example_jtag = Some j' \<and>
     jtag_sync gpio_wire PAUSE_DR j'"
  by (rule xcf_session_tracks_tap [where s = "0x46", OF _ example_jtag_sync, of _ InReset])
    (simp_all add: xcf_init_def jtag_conf_def link_state_def example_jtag_def tapTestLogicReset_def jtag_init_def)

end
