(* ===== verification/XCFProm.thy ===== *)
theory XCFProm
  imports ProgXCFProps
begin

text \<open>
  What \<^verbatim>\<open>ProgAlgXCF\<close> does to the PROM. The view of the device below follows the instruction
  register, the scan in progress, the data and address registers, and the blocks that
  \<open>ISC_PROGRAM\<close> has committed so far; the PROM answers a scan under \<open>ISC_READ\<close> with the block at
  the address last shifted in.
\<close>

record prom =
  pir :: byte
  popen :: bool
  preg :: "bool list"
  pdata :: "bool list"
  paddr :: nat
  pblocks :: "(nat \<times> bool list) list"

definition scan_bits :: "byte list option \<Rightarrow> nat \<Rightarrow> bool list" where
  "scan_bits tdi n = (case tdi of None \<Rightarrow> replicate n False | Some bs \<Rightarrow> buf_bits bs n)"

lemma scan_bits_Some [simp]: "scan_bits (Some bs) n = buf_bits bs n"
  by (simp add: scan_bits_def)

fun prom_step :: "prom \<Rightarrow> jop \<Rightarrow> prom" where
  "prom_step p (OpIR tdi want) =
     p\<lparr>pir := hd tdi, popen := False,
       pblocks := (if hd tdi = XCF_ISC_PROGRAM then pblocks p @ [(paddr p, pdata p)] else pblocks p)\<rparr>"
| "prom_step p (OpDR tdi want n align exit) =
     (let reg = (if popen p then preg p else []) @ scan_bits tdi n
      in p\<lparr>popen := \<not> exit, preg := reg,
           pdata := (if pir p = XCF_ISC_DATA_SHIFT then reg else pdata p),
           paddr := (if pir p = XCF_ISC_ADDRESS_SHIFT then bits_nat reg else paddr p)\<rparr>)"
| "prom_step p (OpTCK n tdi) = p"
| "prom_step p (OpSleep n) = p"
| "prom_step p OpReset = p\<lparr>popen := False\<rparr>"
| "prom_step p (OpState t) = p\<lparr>popen := False\<rparr>"

definition prom_init :: prom where
  "prom_init = \<lparr>pir = 0, popen = False, preg = [], pdata = [], paddr = 0, pblocks = []\<rparr>"

text \<open>The contents after some blocks have been committed to a PROM that held \<open>mem\<close>.\<close>

definition prom_mem :: "(nat \<Rightarrow> bool list) \<Rightarrow> (nat \<times> bool list) list \<Rightarrow> nat \<Rightarrow> bool list" where
  "prom_mem mem bs = fold (\<lambda>(a, d) m. m(a := d)) bs mem"

definition prom_answer :: "(nat \<Rightarrow> bool list) \<Rightarrow> prom \<Rightarrow> jop \<Rightarrow> byte list \<Rightarrow> bool" where
  "prom_answer mem p c r =
     (case c of
        OpDR tdi True n align exit \<Rightarrow>
          (let m = prom_mem mem (pblocks p) (paddr p)
           in if pir p = XCF_ISC_READ \<and> \<not> popen p \<and> n \<le> length m
              then buf_bits (fit (nbytes n) r) n = take n m else True)
      | _ \<Rightarrow> True)"

definition prom_dev :: "(prom \<Rightarrow> jop \<Rightarrow> byte list \<Rightarrow> bool) \<Rightarrow> prom device" where
  "prom_dev ans = \<lparr>dinit = prom_init, dstep = prom_step, dans = ans\<rparr>"

lemma prom_dev_sel [simp]: "dstep (prom_dev ans) = prom_step" "dans (prom_dev ans) = ans"
  by (simp_all add: prom_dev_def)

definition prom_view :: "jop list \<Rightarrow> prom" where
  "prom_view cs = foldl prom_step prom_init cs"

lemma prom_dview [simp]: "dview (prom_dev ans) cs = prom_view cs"
  by (simp add: dview_def prom_view_def prom_dev_def)

section \<open>Programming\<close>

text \<open>Block \<open>i\<close> of the file, padded with ones, and the frame where it goes.\<close>

definition xcf_file_block :: "xcf \<Rightarrow> bitfile \<Rightarrow> nat \<Rightarrow> nat \<Rightarrow> byte list" where
  "xcf_file_block x bf nbits i =
     take (xblock x div 8)
       (drop (i * xblock x div 8) (take (nbits div 8) (buffer bf)) @ replicate (xblock x div 8) 0xff)"

definition xcf_image :: "xcf \<Rightarrow> bitfile \<Rightarrow> nat \<Rightarrow> nat \<Rightarrow> nat \<Rightarrow> nat \<times> bool list" where
  "xcf_image x bf nbits skipblocks i =
     ((skipblocks + i) * FRAMES_PER_BLOCK, buf_bits (xcf_file_block x bf nbits i) (xblock x))"

lemma xcf_block_bytes:
  assumes "xcf_ok x" "8 dvd nbits" "nbits div 8 \<le> length (buffer bf)" "i < xcf_nblocks x nbits"
  shows "(i + 1) * xblock x \<le> nbits \<Longrightarrow>
      xcf_file_block x bf nbits i = take (xblock x div 8) (drop (i * xblock x div 8) (buffer bf)) \<and>
      i * xblock x div 8 + xblock x div 8 \<le> length (buffer bf)"
    and "\<not> (i + 1) * xblock x \<le> nbits \<Longrightarrow> rem = (nbits - i * xblock x + 7) div 8 \<Longrightarrow>
      xcf_file_block x bf nbits i =
        take rem (drop (i * xblock x div 8) (buffer bf)) @ replicate (xblock x div 8 - rem) 0xff \<and>
      i * xblock x div 8 + rem \<le> length (buffer bf)"
proof -
  obtain b where b: "xblock x = 8 * b" using xcf_okD(4) [OF assms(1)] by (auto elim: dvdE)
  obtain n where n: "nbits = 8 * n" using assms(2) by (auto elim: dvdE)
  have i: "i * b < n" using xcf_block_start [OF xcf_okD(1) [OF assms(1)] assms(4)] b n by simp
  have len: "n \<le> length (buffer bf)" using assms(3) n by simp
  have ib: "i * xblock x div 8 = i * b" by (simp add: b)
  show "xcf_file_block x bf nbits i = take (xblock x div 8) (drop (i * xblock x div 8) (buffer bf)) \<and>
      i * xblock x div 8 + xblock x div 8 \<le> length (buffer bf)" if "(i + 1) * xblock x \<le> nbits"
  proof -
    have "i * b + b \<le> n" using that b n by simp
    then show ?thesis
      unfolding ib using len b n by (simp add: xcf_file_block_def drop_take min_absorb1)
  qed
  show "xcf_file_block x bf nbits i =
        take rem (drop (i * xblock x div 8) (buffer bf)) @ replicate (xblock x div 8 - rem) 0xff \<and>
      i * xblock x div 8 + rem \<le> length (buffer bf)"
    if "\<not> (i + 1) * xblock x \<le> nbits" "rem = (nbits - i * xblock x + 7) div 8"
  proof -
    have lt: "n < i * b + b" using that b n by simp
    have rem: "rem = n - i * b" using that(2) b n i by simp
    have "take (n - i * b) (drop (i * b) (buffer bf)) = drop (i * b) (take n (buffer bf))"
      by (simp add: drop_take)
    then show ?thesis
      unfolding ib rem using len lt i b n by (simp add: xcf_file_block_def)
  qed
qed

lemma wp_xcf_shift_block:
  assumes "xcf_ok x" "8 dvd nbits" "nbits div 8 \<le> length (buffer bf)" "i < xcf_nblocks x nbits"
    and "\<not> popen p" "pir p = XCF_ISC_DATA_SHIFT"
    and "\<And>p'. pir p' = pir p \<Longrightarrow> \<not> popen p' \<Longrightarrow> paddr p' = paddr p \<Longrightarrow> pblocks p' = pblocks p \<Longrightarrow>
      pdata p' = buf_bits (xcf_file_block x bf nbits i) (xblock x) \<Longrightarrow> Q () p'"
  shows "wp (prom_dev ans) (xcf_shift_block x bf nbits i) Q p"
proof (cases "(i + 1) * xblock x \<le> nbits")
  case True
  note blk = xcf_block_bytes(1) [OF assms(1-4) True]
  then have "buf_slice (buffer bf) (i * xblock x div 8) (xblock x div 8) = Inr (xcf_file_block x bf nbits i)"
    by (simp add: buf_slice_def)
  then show ?thesis
    unfolding xcf_shift_block_def using True
    by (auto intro!: wp_intro assms(7) simp: Let_def assms(5,6) XCF_ISC_ADDRESS_SHIFT_def XCF_ISC_DATA_SHIFT_def)
next
  case False
  define rem where "rem = (nbits - i * xblock x + 7) div 8"
  note last = xcf_last_block [OF assms(1,4) False assms(2), folded rem_def]
  note blk = xcf_block_bytes(2) [OF assms(1-4) False rem_def]
  let ?d = "take rem (drop (i * xblock x div 8) (buffer bf))"
  have slice: "buf_slice (buffer bf) (i * xblock x div 8) rem = Inr ?d" "length ?d = rem"
    using blk by (auto simp: buf_slice_def)
  have "8 * rem + 8 * (xblock x div 8 - rem) = xblock x"
    using last(2) xcf_okD(4) [OF assms(1)] by (auto elim!: dvdE)
  then have bits: "buf_bits ?d (rem * 8) @ buf_bits (replicate (xblock x div 8 - rem) 0xff) ((xblock x div 8 - rem) * 8) =
      buf_bits (xcf_file_block x bf nbits i) (xblock x)"
    using buf_bits_append [of ?d "replicate (xblock x div 8 - rem) 0xff" "8 * (xblock x div 8 - rem)"] blk slice(2)
    by (simp add: mult.commute)
  show ?thesis
    unfolding xcf_shift_block_def Let_def rem_def [symmetric] using False
    by (auto intro!: wp_intro assms(7) slice(1)
        simp: Let_def assms(5,6) XCF_ISC_ADDRESS_SHIFT_def XCF_ISC_DATA_SHIFT_def bits simp del: jseq.simps)
qed

text \<open>The frames are within the sixteen bits of the address register.\<close>

lemma xcf_frame_bound:
  assumes "xcf_ok x" "xblock x dvd skip" "nbits \<le> xsize x - skip" "skip \<le> xsize x" "i < xcf_nblocks x nbits"
  shows "(skip div xblock x + i) * FRAMES_PER_BLOCK < 2 ^ 16"
proof -
  have b: "0 < xblock x" using xcf_okD(1) [OF assms(1)] .
  obtain s where s: "skip = xblock x * s" using assms(2) by (rule dvdE)
  obtain t where t: "xsize x = xblock x * t" using assms(1) by (auto simp: xcf_ok_def elim!: dvdE)
  have "xblock x * (s + i) < xblock x * t"
    using xcf_block_start [OF b assms(5)] assms(3,4) s t by (simp add: algebra_simps)
  then have "skip div xblock x + i < xsize x div xblock x"
    using b s t by simp
  then show ?thesis using assms(1) by (simp add: xcf_ok_def FRAMES_PER_BLOCK_def)
qed

lemma hd_single [simp]: "hd [a] = a"
  by simp

text \<open>\<open>quiet p p'\<close>: nothing was committed between two views and no scan is open.\<close>

definition quiet :: "prom \<Rightarrow> prom \<Rightarrow> bool" where
  "quiet p p' \<longleftrightarrow> pblocks p' = pblocks p \<and> \<not> popen p'"

lemma quiet_steps:
  "quiet p q \<Longrightarrow> a \<noteq> XCF_ISC_PROGRAM \<Longrightarrow> quiet p (prom_step q (OpIR [a] w))"
  "quiet p q \<Longrightarrow> quiet p (prom_step q (OpDR t w n al True))"
  "quiet p q \<Longrightarrow> quiet p (prom_step q (OpTCK n b))"
  "quiet p q \<Longrightarrow> quiet p (prom_step q (OpSleep n))"
  "quiet p q \<Longrightarrow> quiet p (prom_step q OpReset)"
  "quiet p q \<Longrightarrow> quiet p (prom_step q (OpState s))"
  by (simp_all add: quiet_def Let_def)

lemma wp_xcf_poll:
  assumes "\<And>r p'. quiet p p' \<Longrightarrow> Q r p'" "\<not> popen p"
  shows "wp (prom_dev ans) (jloop 0 28 xcf_program_poll) Q p"
proof (rule wp_loop [where I = "\<lambda>_. quiet p"])
  fix j q
  assume "quiet p q"
  then show "wp (prom_dev ans) (xcf_program_poll j)
      (\<lambda>r v. case r of None \<Rightarrow> quiet p v | Some x \<Rightarrow> Q (Some x) v) q"
    unfolding xcf_program_poll_def
    by (auto intro!: wp_intro assms(1) quiet_steps simp: xcf_codes simp del: prom_step.simps jseq.simps)
qed (use assms in \<open>auto simp: quiet_def\<close>)

lemma wp_xcf_program_block:
  assumes "xcf_ok x" "8 dvd nbits" "nbits div 8 \<le> length (buffer bf)" "i < xcf_nblocks x nbits"
    and "(skip + i) * FRAMES_PER_BLOCK < 2 ^ 16"
    and "\<And>r p'. \<not> popen p' \<Longrightarrow> pblocks p' = pblocks p @ [xcf_image x bf nbits skip i] \<Longrightarrow>
      r = None \<or> r = Some 1 \<and> use_optimized_algs x \<Longrightarrow> Q r p'"
  shows "wp (prom_dev ans) (xcf_program_block x bf nbits skip i) Q p"
proof -
  let ?frame = "(skip + i) * FRAMES_PER_BLOCK"
  let ?send = "jseq [jshiftIR [XCF_ISC_DATA_SHIFT], xcf_shift_block x bf nbits i,
    jshiftIR [XCF_ISC_ADDRESS_SHIFT], jcycleTCK 1, jshiftDR (longToByteArray (of_nat ?frame)) 16 True, jcycleTCK 1,
    jshiftIR [XCF_ISC_PROGRAM]]"
  have addr: "bits_nat (buf_bits (longToByteArray (of_nat ?frame)) 16) = ?frame"
    using assms(5) by (intro bits_nat_long_less) simp_all
  have send: "wp (prom_dev ans) ?send
      (\<lambda>_ p'. \<not> popen p' \<and> pblocks p' = pblocks p @ [xcf_image x bf nbits skip i]) p"
    by (intro wp_seq_Cons wp_seq_Nil wp_ops wp_xcf_shift_block assms(1-4))
      (simp_all add: Let_def addr xcf_image_def xcf_codes del: of_nat_add of_nat_mult)
  show ?thesis
    unfolding xcf_program_block_def Let_def
  proof (intro wp_bind wp_mono [OF send], elim conjE)
    fix u and p' :: prom assume p': "\<not> popen p'" "pblocks p' = pblocks p @ [xcf_image x bf nbits skip i]"
    show "wp (prom_dev ans) (if \<not> use_optimized_algs x then jbind (jUsleep 14000) (\<lambda>_. jret None)
        else jbind (jloop 0 28 xcf_program_poll) (\<lambda>r. jret (case r of None \<Rightarrow> Some 1 | Some _ \<Rightarrow> None))) Q p'"
      using p' by (auto intro!: wp_intro wp_xcf_poll assms(6) simp: quiet_def split: option.splits)
  qed
qed

lemma wp_xcf_serase:
  assumes "\<And>p'. quiet p p' \<Longrightarrow> Q () p'" "\<not> popen p"
  shows "wp (prom_dev ans) (xcf_serase x) Q p"
  unfolding xcf_serase_def using assms(2)
  by (auto intro!: wp_intro assms(1) quiet_steps simp: xcf_codes simp del: prom_step.simps jseq.simps)
    (simp_all add: quiet_def)

text \<open>
  \<^verbatim>\<open>program\<close> commits the blocks of the file in order, each to its frame. It returns \<open>0\<close> when all
  of them are done, and \<open>1\<close> on the optimised parts when the PROM does not report the end of a
  block; then the blocks up to that one have been committed.
\<close>

lemma wp_xcf_program:
  assumes "xcf_ok x" "xcf_range x bf (\<lambda>_. getLength bf) (- 1) = Inr (skip, nbits)"
    and "nbits div 8 \<le> length (buffer bf)"
  shows "wp (prom_dev ans) (xcf_program x bf)
     (\<lambda>e p'. \<exists>n. pblocks p' = pblocks p @ map (xcf_image x bf nbits (skip div xblock x)) [0..<n] \<and>
        (e = 0 \<and> n = xcf_nblocks x nbits \<or> e = 1 \<and> use_optimized_algs x \<and> n \<le> xcf_nblocks x nbits)) p"
proof -
  let ?img = "xcf_image x bf nbits (skip div xblock x)"
  let ?Q = "\<lambda>e p'. \<exists>n. pblocks p' = pblocks p @ map ?img [0..<n] \<and>
     (e = 0 \<and> n = xcf_nblocks x nbits \<or> e = 1 \<and> use_optimized_algs x \<and> n \<le> xcf_nblocks x nbits)"
  let ?I = "\<lambda>i p'. pblocks p' = pblocks p @ map ?img [0..<i] \<and> \<not> popen p'"
  note range = xcf_rangeD [OF assms(2,1)]
  have d: "8 dvd nbits" "xblock x dvd skip" "skip \<le> xsize x" "nbits \<le> xsize x - skip"
    by (rule range, simp add: getLength_def)+
  have body: "wp (prom_dev ans) (xcf_program_block x bf nbits (skip div xblock x) i)
      (\<lambda>r q. case r of None \<Rightarrow> ?I (Suc i) q | Some e \<Rightarrow> wp (prom_dev ans) (jret e) ?Q q) q"
    if "i < 0 + xcf_nblocks x nbits" "?I i q" for i q
  proof (rule wp_xcf_program_block)
    show "(skip div xblock x + i) * FRAMES_PER_BLOCK < 2 ^ 16"
      using that(1) by (intro xcf_frame_bound [OF assms(1) d(2,4,3)]) simp
  qed (use that assms d in \<open>auto intro!: wp_ret exI [of _ "Suc i"]\<close>)
  have finish: "wp (prom_dev ans) (jbind (jseq [xcf_serase x, jshiftIR [XCF_BYPASS], jcycleTCK 1, jreset]) (\<lambda>_. jret 0)) ?Q q"
    if "?I (0 + xcf_nblocks x nbits) q" for q
    using that
    by (intro wp_bind wp_seq_Cons wp_seq_Nil wp_xcf_serase wp_ops wp_ret)
      (auto simp: quiet_def XCF_BYPASS_def XCF_ISC_PROGRAM_def)
  show ?thesis
    unfolding xcf_program_def assms(2)
  proof (simp only: sum.case prod.case, intro wp_bind wp_seq_Cons wp_seq_Nil wp_ops)
    let ?p0 = "prom_step (prom_step (prom_step (prom_step (prom_step p (OpIR [XCF_ISC_DISABLE] False)) (OpSleep 1000))
        (OpState TEST_LOGIC_RESET)) (OpIR [XCF_ISC_ENABLE] False)) (OpDR (Some (xcf_mode x)) False 6 0 True)"
    have I0: "?I 0 ?p0" by (simp add: Let_def xcf_codes)
    show "wp (prom_dev ans) (jloop 0 (xcf_nblocks x nbits) (xcf_program_block x bf nbits (skip div xblock x)))
      (\<lambda>r. wp (prom_dev ans) (case r of None \<Rightarrow>
          jbind (jseq [xcf_serase x, jshiftIR [XCF_BYPASS], jcycleTCK 1, jreset]) (\<lambda>_. jret 0)
        | Some e \<Rightarrow> jret e) ?Q) (dstep (prom_dev ans) (dstep (prom_dev ans) (dstep (prom_dev ans)
          (dstep (prom_dev ans) (dstep (prom_dev ans) p (OpIR [XCF_ISC_DISABLE] False)) (OpSleep 1000))
          (OpState TEST_LOGIC_RESET)) (OpIR [XCF_ISC_ENABLE] False)) (OpDR (Some (xcf_mode x)) False 6 0 True))"
      unfolding prom_dev_sel
    proof (rule wp_loop [where I = ?I, OF _ _ I0], goal_cases)
      case (1 j v)
      then show ?case by (intro wp_mono [OF body]) (simp_all split: option.splits del: jseq.simps)
    next
      case (2 v)
      then show ?case using finish by (simp only: option.case)
    qed
  qed
qed

section \<open>Reading\<close>

lemma wp_xcf_read_block:
  assumes "xcf_ok x" "(skip + i) * FRAMES_PER_BLOCK < 2 ^ 16" "\<not> popen p"
    and "xblock x \<le> length (prom_mem mem (pblocks p) ((skip + i) * FRAMES_PER_BLOCK))"
    and "\<And>data p'. quiet p p' \<Longrightarrow> length data = xblock x div 8 \<Longrightarrow>
      buf_bits data (xblock x) = take (xblock x) (prom_mem mem (pblocks p) ((skip + i) * FRAMES_PER_BLOCK)) \<Longrightarrow> Q data p'"
  shows "wp (prom_dev (prom_answer mem)) (xcf_read_block x skip i) Q p"
proof -
  let ?frame = "(skip + i) * FRAMES_PER_BLOCK"
  have addr: "bits_nat (buf_bits (longToByteArray (of_nat ?frame)) 16) = ?frame"
    using assms(2) by (intro bits_nat_long_less) simp_all
  show ?thesis
    unfolding xcf_read_block_def Let_def
    by (intro wp_bind wp_seq_Cons wp_seq_Nil wp_ops wp_captures assms(5))
      (use assms(3,4) in \<open>simp_all add: Let_def addr xcf_codes quiet_def prom_answer_def xcf_okD [OF assms(1)]
        del: of_nat_add of_nat_mult\<close>)
qed

text \<open>The bits of the file that block \<open>i\<close> of an operation covers, and those of the PROM.\<close>

definition xcf_file_bits :: "xcf \<Rightarrow> byte list \<Rightarrow> nat \<Rightarrow> nat \<Rightarrow> bool list" where
  "xcf_file_bits x buf nbits i =
     (let n = xcf_blkbytes x nbits i in buf_bits (take n (drop (i * xblock x div 8) buf)) (8 * n))"

definition xcf_prom_bits :: "xcf \<Rightarrow> (nat \<Rightarrow> bool list) \<Rightarrow> nat \<Rightarrow> nat \<Rightarrow> nat \<Rightarrow> bool list" where
  "xcf_prom_bits x mem skipblocks nbits i =
     take (8 * xcf_blkbytes x nbits i) (mem ((skipblocks + i) * FRAMES_PER_BLOCK))"

lemma xcf_blkbytes:
  assumes "xcf_ok x" "8 dvd nbits" "i < xcf_nblocks x nbits"
  shows "0 < xcf_blkbytes x nbits i" "8 * xcf_blkbytes x nbits i \<le> xblock x"
    "xcf_blkbytes x nbits i \<le> xblock x div 8"
    "i * xblock x div 8 + xcf_blkbytes x nbits i \<le> nbits div 8"
proof -
  obtain b where b: "xblock x = 8 * b" "0 < b" using xcf_okD(1,4) [OF assms(1)] by (auto elim: dvdE)
  obtain n where n: "nbits = 8 * n" using assms(2) by (auto elim: dvdE)
  have i: "i * b < n" using xcf_block_start [OF xcf_okD(1) [OF assms(1)] assms(3)] b n by simp
  have "(8 * n - i * (8 * b) + 7) div 8 = n - i * b"
    using i by (simp add: mult.left_commute [of i 8] right_diff_distrib' [symmetric])
  then have "xcf_blkbytes x nbits i = (if n < i * b + b then n - i * b else b)"
    using b n by (simp add: xcf_blkbytes_def)
  moreover have "i * xblock x div 8 = i * b" by (simp add: b)
  ultimately show "0 < xcf_blkbytes x nbits i" "8 * xcf_blkbytes x nbits i \<le> xblock x"
    "xcf_blkbytes x nbits i \<le> xblock x div 8" "i * xblock x div 8 + xcf_blkbytes x nbits i \<le> nbits div 8"
    using i b n by auto
qed

text \<open>Comparing the bytes of a block is comparing its bits.\<close>

lemma xcf_compare:
  assumes "xcf_ok x" "8 dvd nbits" "i < xcf_nblocks x nbits" "nbits div 8 \<le> length buf"
    and "length data = xblock x div 8"
    and "buf_bits data (xblock x) = take (xblock x) (mem ((skip + i) * FRAMES_PER_BLOCK))"
  shows "buf_slice buf (i * xblock x div 8) (xcf_blkbytes x nbits i) =
      Inr (take (xcf_blkbytes x nbits i) (drop (i * xblock x div 8) buf))"
    and "buf_bits (take (xcf_blkbytes x nbits i) data) (8 * xcf_blkbytes x nbits i) = xcf_prom_bits x mem skip nbits i"
    and "memcmp (take (xcf_blkbytes x nbits i) data) (take (xcf_blkbytes x nbits i) (drop (i * xblock x div 8) buf)) = 0 \<longleftrightarrow>
      xcf_file_bits x buf nbits i = xcf_prom_bits x mem skip nbits i"
proof -
  let ?n = "xcf_blkbytes x nbits i" and ?d = "take (xcf_blkbytes x nbits i) (drop (i * xblock x div 8) buf)"
  note n = xcf_blkbytes [OF assms(1-3)]
  show "buf_slice buf (i * xblock x div 8) ?n = Inr ?d"
    using n(4) assms(4) by (simp add: buf_slice_def)
  have len: "length (take ?n data) = ?n" "length ?d = ?n" using n assms(4,5) by auto
  have "buf_bits (take ?n data) (8 * ?n) = take (8 * ?n) (buf_bits data (xblock x))"
    using n(2) by (simp add: buf_bits_take) (simp add: buf_bits_def take_map min_def)
  then show bits: "buf_bits (take ?n data) (8 * ?n) = xcf_prom_bits x mem skip nbits i"
    using n(2) by (simp add: assms(6) xcf_prom_bits_def min_absorb1)
  show "memcmp (take ?n data) ?d = 0 \<longleftrightarrow> xcf_file_bits x buf nbits i = xcf_prom_bits x mem skip nbits i"
    using memcmp_0 [of "take ?n data" ?d] buf_bits_inject [OF len] len
    unfolding bits [symmetric] xcf_file_bits_def Let_def by auto
qed

end
