(* ===== verification/XCFRoundtrip.thy ===== *)
theory XCFRoundtrip
  imports XCFProm
begin

text \<open>
  Verifying and reading a PROM that answers with its contents, and the round trip: what
  \<^verbatim>\<open>program\<close> has written, \<^verbatim>\<open>verify\<close> accepts and \<^verbatim>\<open>read\<close> returns.
\<close>

section \<open>Verifying\<close>

lemma wp_xcf_start_read: "(\<And>p'. quiet p p' \<Longrightarrow> Q () p') \<Longrightarrow> wp (prom_dev ans) xcf_start_read Q p"
  unfolding xcf_start_read_def
  by (intro wp_seq_Cons wp_seq_Nil wp_ops) (simp add: quiet_def Let_def xcf_codes)

lemma quiet_trans: "quiet p q \<Longrightarrow> quiet q r \<Longrightarrow> quiet p r"
  by (simp add: quiet_def)

lemma quiet_reset: "quiet p q \<Longrightarrow> quiet p (prom_step q OpReset)"
  by (rule quiet_steps)

definition xcf_agree :: "xcf \<Rightarrow> byte list \<Rightarrow> (nat \<Rightarrow> bool list) \<Rightarrow> nat \<Rightarrow> nat \<Rightarrow> nat \<Rightarrow> bool" where
  "xcf_agree x buf mem skipblocks nbits i \<longleftrightarrow> xcf_file_bits x buf nbits i = xcf_prom_bits x mem skipblocks nbits i"

lemma wp_xcf_verify:
  assumes "xcf_ok x" "xcf_range x bf (\<lambda>_. getLength bf) 1 = Inr (skip, nbits)"
    and "nbits div 8 \<le> length (buffer bf)"
    and len: "\<And>i. i < xcf_nblocks x nbits \<Longrightarrow>
      xblock x \<le> length (prom_mem mem (pblocks p) ((skip div xblock x + i) * FRAMES_PER_BLOCK))"
  shows "wp (prom_dev (prom_answer mem)) (xcf_verify x bf)
     (\<lambda>e p'. quiet p p' \<and> (e = 0 \<longleftrightarrow> (\<forall>i < xcf_nblocks x nbits.
        xcf_agree x (buffer bf) (prom_mem mem (pblocks p)) (skip div xblock x) nbits i))) p"
proof -
  let ?dev = "prom_dev (prom_answer mem)" and ?s = "skip div xblock x"
  let ?ok = "xcf_agree x (buffer bf) (prom_mem mem (pblocks p)) ?s nbits"
  let ?Q = "\<lambda>e p'. quiet p p' \<and> (e = 0 \<longleftrightarrow> (\<forall>i < xcf_nblocks x nbits. ?ok i))"
  let ?I = "\<lambda>i p'. quiet p p' \<and> (\<forall>j < i. ?ok j)"
  note range = xcf_rangeD [OF assms(2,1)]
  have d: "8 dvd nbits" "xblock x dvd skip" "skip \<le> xsize x" "nbits \<le> xsize x - skip"
    by (rule range, simp add: getLength_def)+
  show ?thesis
    unfolding xcf_verify_def assms(2) sum.case prod.case
  proof (intro wp_bind wp_xcf_start_read)
    fix p0 assume p0: "quiet p p0"
    show "wp ?dev (jloop 0 (xcf_nblocks x nbits) (\<lambda>i.
            jbind (xcf_read_block x ?s i) (\<lambda>data.
            let n = xcf_blkbytes x nbits i
            in jbind (jlift (buf_slice (buffer bf) (i * xblock x div 8) n)) (\<lambda>d.
               let res = memcmp (take n data) d in jret (if res \<noteq> 0 then Some res else None)))))
        (\<lambda>r. wp ?dev (case r of None \<Rightarrow> jbind jreset (\<lambda>_. jret 0) | Some res \<Rightarrow> jret res) ?Q) p0"
    proof (rule wp_loop [where I = ?I], goal_cases)
      case (1 j v)
      then have j: "j < xcf_nblocks x nbits" and v: "quiet p v" "\<not> popen v" "pblocks v = pblocks p"
        by (simp_all add: quiet_def)
      note frame = xcf_frame_bound [OF assms(1) d(2,4,3) j]
      show ?case
      proof (intro wp_bind wp_xcf_read_block [OF assms(1) frame v(2) len [OF j, folded v(3)]] wp_let wp_lift wp_ret)
        fix data q n
        assume q: "quiet v q" and data: "length data = xblock x div 8"
          "buf_bits data (xblock x) = take (xblock x) (prom_mem mem (pblocks v) ((?s + j) * FRAMES_PER_BLOCK))"
          and n: "n = xcf_blkbytes x nbits j"
        note cmp = xcf_compare [where mem = "prom_mem mem (pblocks v)" and skip = ?s, OF assms(1) d(1) j assms(3) data]
        show "buf_slice (buffer bf) (j * xblock x div 8) n = Inr (take n (drop (j * xblock x div 8) (buffer bf)))"
          unfolding n by (rule cmp(1))
        fix res assume res: "res = memcmp (take n data) (take n (drop (j * xblock x div 8) (buffer bf)))"
        have "res = 0 \<longleftrightarrow> ?ok j" unfolding res n using cmp(3) by (simp add: v(3) xcf_agree_def)
        then show "case if res \<noteq> 0 then Some res else None of None \<Rightarrow> ?I (Suc j) q
            | Some res \<Rightarrow> wp ?dev (case Some res of None \<Rightarrow> jbind jreset (\<lambda>_. jret 0) | Some res \<Rightarrow> jret res) ?Q q"
          using 1(3) j quiet_trans [OF v(1) q] by (auto intro!: wp_ret simp: less_Suc_eq)
      qed
    next
      case (2 v)
      then show ?case by (auto intro!: wp_intro quiet_reset simp del: prom_step.simps)
    next
      case 3
      show ?case using p0 by simp
    qed
  qed
qed

section \<open>Reading\<close>

text \<open>Storing a block leaves the blocks before it as they were.\<close>

lemma xcf_store_block:
  assumes "xcf_ok x" "8 dvd nbits" "i < xcf_nblocks x nbits" "length buf = nbits div 8"
    and "length data = xblock x div 8"
  defines "off \<equiv> i * xblock x div 8" and "n \<equiv> xcf_blkbytes x nbits i"
  obtains buf' where "buf_store buf off (take n data) = Inr buf'" "length buf' = nbits div 8"
    "take off buf' = take off buf" "take n (drop off buf') = take n data"
proof
  note n = xcf_blkbytes [OF assms(1-3)]
  have len: "length (take n data) = n" "off + n \<le> length buf"
    using n assms(4,5) by (auto simp: n_def off_def)
  let ?b = "take off buf @ take n data @ drop (off + n) buf"
  show "buf_store buf off (take n data) = Inr ?b"
    using len by (simp add: buf_store_def)
  show "length ?b = nbits div 8" "take off ?b = take off buf" "take n (drop off ?b) = take n data"
    using len assms(4) by auto
qed

lemma xcf_blocks_before:
  assumes "xcf_ok x" "8 dvd nbits" "j < i" "i < xcf_nblocks x nbits"
  shows "j * xblock x div 8 + xcf_blkbytes x nbits j \<le> i * xblock x div 8"
proof -
  obtain b where b: "xblock x = 8 * b" using xcf_okD(4) [OF assms(1)] by (auto elim: dvdE)
  have "xcf_blkbytes x nbits j \<le> b" using xcf_blkbytes(3) [OF assms(1,2), of j] assms(3,4) b by simp
  moreover have "j * b + b \<le> i * b" using assms(3) by (metis Suc_leI add.commute mult_Suc mult_le_mono1)
  ultimately show ?thesis by (simp add: b)
qed

lemma xcf_file_bits_take:
  assumes "take off buf' = take off buf" "j * xblock x div 8 + xcf_blkbytes x nbits j \<le> off"
  shows "xcf_file_bits x buf' nbits j = xcf_file_bits x buf nbits j"
proof -
  let ?o = "j * xblock x div 8" and ?n = "xcf_blkbytes x nbits j"
  have "take ?n (drop ?o buf) = drop ?o (take (?o + ?n) (take off buf))" for buf :: "byte list"
    using assms(2) by (simp add: drop_take min_absorb1)
  then have "take ?n (drop ?o buf') = take ?n (drop ?o buf)" by (simp only: assms(1))
  then show ?thesis by (simp add: xcf_file_bits_def)
qed

lemma wp_xcf_read:
  assumes "xcf_ok x" "xcf_range x bf (\<lambda>skip. xsize x - skip) (- 1) = Inr (skip, nbits)"
    and memlen: "\<And>i. i < xcf_nblocks x nbits \<Longrightarrow>
      xblock x \<le> length (prom_mem mem (pblocks p) ((skip div xblock x + i) * FRAMES_PER_BLOCK))"
  shows "wp (prom_dev (prom_answer mem)) (xcf_read x bf)
     (\<lambda>(e, bf') p'. quiet p p' \<and> e = 0 \<and> length (buffer bf') = nbits div 8 \<and> blength bf' = nbits div 8 \<and>
        (\<forall>i < xcf_nblocks x nbits.
           xcf_agree x (buffer bf') (prom_mem mem (pblocks p)) (skip div xblock x) nbits i)) p"
proof -
  let ?dev = "prom_dev (prom_answer mem)" and ?s = "skip div xblock x"
  let ?ok = "\<lambda>buf. xcf_agree x buf (prom_mem mem (pblocks p)) ?s nbits"
  let ?I = "\<lambda>i buf p'. quiet p p' \<and> length buf = nbits div 8 \<and> (\<forall>j < i. ?ok buf j)"
  note range = xcf_rangeD [OF assms(2,1)]
  have d: "8 dvd nbits" "xblock x dvd skip" "skip \<le> xsize x" "nbits \<le> xsize x - skip"
    by (rule range, simp add: dvd_diff_nat xcf_ok_size [OF assms(1)])+
  have len: "nbytes nbits = nbits div 8" using d(1) by (auto elim: dvdE)
  show ?thesis
    unfolding xcf_read_def assms(2) sum.case prod.case
  proof (intro wp_let wp_bind wp_xcf_start_read)
    fix bf0 p0 assume bf0: "bf0 = setLength nbits bf" and p0: "quiet p p0"
    show "wp ?dev (jfold 0 (xcf_nblocks x nbits) (\<lambda>i buf.
               jbind (xcf_read_block x ?s i) (\<lambda>data.
                 jlift (buf_store buf (i * xblock x div 8) (take (xcf_blkbytes x nbits i) data)))) (buffer bf0))
        (\<lambda>buf. wp ?dev (jbind jreset (\<lambda>_. jret (0, bf0\<lparr>buffer := buf\<rparr>))) (\<lambda>(e, bf') p'. quiet p p' \<and> e = 0 \<and>
            length (buffer bf') = nbits div 8 \<and> blength bf' = nbits div 8 \<and>
            (\<forall>i < xcf_nblocks x nbits. ?ok (buffer bf') i))) p0"
    proof (rule wp_fold [where I = ?I], goal_cases)
      case (1 j buf v)
      then have j: "j < xcf_nblocks x nbits" and v: "quiet p v" "\<not> popen v" "pblocks v = pblocks p"
        and buf: "length buf = nbits div 8" "\<And>i. i < j \<Longrightarrow> ?ok buf i"
        by (simp_all add: quiet_def)
      note frame = xcf_frame_bound [OF assms(1) d(2,4,3) j]
      show ?case
      proof (intro wp_bind wp_xcf_read_block [OF assms(1) frame v(2) memlen [OF j, folded v(3)]])
        fix data q
        assume q: "quiet v q" and data: "length data = xblock x div 8"
          "buf_bits data (xblock x) = take (xblock x) (prom_mem mem (pblocks v) ((?s + j) * FRAMES_PER_BLOCK))"
        obtain buf' where buf': "buf_store buf (j * xblock x div 8) (take (xcf_blkbytes x nbits j) data) = Inr buf'"
          "length buf' = nbits div 8" "take (j * xblock x div 8) buf' = take (j * xblock x div 8) buf"
          "take (xcf_blkbytes x nbits j) (drop (j * xblock x div 8) buf') = take (xcf_blkbytes x nbits j) data"
          using xcf_store_block [OF assms(1) d(1) j buf(1) data(1)] .
        have "?ok buf' j"
          using xcf_compare(2) [where mem = "prom_mem mem (pblocks v)" and skip = ?s, OF assms(1) d(1) j _ data, of buf'] buf'(2,4)
          by (simp add: xcf_agree_def xcf_file_bits_def v(3))
        moreover have "?ok buf' i" if "i < j" for i
          using buf(2) [OF that] xcf_file_bits_take [OF buf'(3) xcf_blocks_before [OF assms(1) d(1) that j]]
          by (simp add: xcf_agree_def)
        ultimately show "wp ?dev (jlift (buf_store buf (j * xblock x div 8) (take (xcf_blkbytes x nbits j) data))) (?I (Suc j)) q"
          using quiet_trans [OF v(1) q] buf'(2) by (intro wp_lift [OF buf'(1)]) (simp add: less_Suc_eq)
      qed
    next
      case (2 buf v)
      then show ?case
        by (auto intro!: wp_intro quiet_reset simp: bf0 setLength_def len simp del: prom_step.simps)
    next
      case 3
      show ?case using p0 by (simp add: bf0 setLength_def len)
    qed
  qed
qed

section \<open>Round trip\<close>

lemma prom_mem_image:
  assumes "i < n"
  shows "prom_mem mem (bs @ map (xcf_image x bf nbits s) [0..<n]) ((s + i) * FRAMES_PER_BLOCK) =
     buf_bits (xcf_file_block x bf nbits i) (xblock x)"
  using assms by (induction n) (auto simp: prom_mem_def xcf_image_def FRAMES_PER_BLOCK_def less_Suc_eq)

lemma xcf_agree_image:
  assumes "xcf_ok x" "8 dvd nbits" "i < xcf_nblocks x nbits" "nbits div 8 \<le> length (buffer bf)"
  shows "xcf_agree x (buffer bf) (prom_mem mem (bs @ map (xcf_image x bf nbits s) [0..<xcf_nblocks x nbits])) s nbits i"
proof -
  let ?n = "xcf_blkbytes x nbits i" and ?o = "i * xblock x div 8"
  note n = xcf_blkbytes [OF assms(1-3)]
  have "take ?n (xcf_file_block x bf nbits i) = take ?n (drop ?o (take (nbits div 8) (buffer bf)))"
    using n assms(4) by (simp add: xcf_file_block_def min_absorb1)
  also have "\<dots> = take ?n (drop ?o (buffer bf))"
    using n(4) by (simp add: drop_take min_absorb1)
  finally have t: "take ?n (xcf_file_block x bf nbits i) = take ?n (drop ?o (buffer bf))" .
  have "take (8 * ?n) (buf_bits (xcf_file_block x bf nbits i) (xblock x)) = buf_bits (take ?n (xcf_file_block x bf nbits i)) (8 * ?n)"
    using n(2) by (simp add: buf_bits_take) (simp add: buf_bits_def take_map min_def)
  then show ?thesis
    unfolding xcf_agree_def xcf_prom_bits_def xcf_file_bits_def Let_def prom_mem_image [OF assms(3)]
    by (simp only: t)
qed

lemma xcf_agree_same:
  assumes "xcf_ok x" "8 dvd nbits" "length buf = nbits div 8" "nbits div 8 \<le> length buf'"
    and "\<And>i. i < xcf_nblocks x nbits \<Longrightarrow> xcf_file_bits x buf nbits i = xcf_file_bits x buf' nbits i"
  shows "buf = take (nbits div 8) buf'"
proof (rule nth_equalityI)
  fix k assume k: "k < length buf"
  obtain b where b: "xblock x = 8 * b" "0 < b" using xcf_okD(1,4) [OF assms(1)] by (auto elim: dvdE)
  obtain n where n: "nbits = 8 * n" using assms(2) by (auto elim: dvdE)
  define i j where "i = k div b" and "j = k mod b"
  have kij: "k = i * b + j" "j < b" using b by (simp_all add: i_def j_def)
  have kn: "k < n" using k assms(3) n by simp
  then have "i * b + 1 \<le> n" using kij by linarith
  then have "8 * (i * b + 1) \<le> 8 * n" by (rule mult_le_mono2)
  then have "Suc i * xblock x \<le> nbits + xblock x - 1" by (simp add: b n algebra_simps)
  then have i: "i < xcf_nblocks x nbits"
    using xcf_okD(1) [OF assms(1)] unfolding xcf_nblocks_def
    by (simp only: Suc_le_eq [symmetric] less_eq_div_iff_mult_less_eq)
  let ?m = "xcf_blkbytes x nbits i"
  have m: "?m = (if n < i * b + b then n - i * b else b)" "i * xblock x div 8 = i * b"
    using b n kij kn xcf_blkbytes [OF assms(1,2) i] by (auto simp: xcf_blkbytes_def right_diff_distrib' [symmetric])
  have j: "j < ?m" using kij kn by (simp add: m(1) less_diff_conv add.commute)
  have "take ?m (drop (i * b) buf) = take ?m (drop (i * b) buf')"
  proof (rule buf_bits_inject [where n = ?m])
    show "length (take ?m (drop (i * b) buf)) = ?m" "length (take ?m (drop (i * b) buf')) = ?m"
      using xcf_blkbytes(4) [OF assms(1,2) i] assms(3,4) m(2) by auto
    show "buf_bits (take ?m (drop (i * b) buf)) (8 * ?m) = buf_bits (take ?m (drop (i * b) buf')) (8 * ?m)"
      using assms(5) [OF i] by (simp add: xcf_file_bits_def Let_def m(2))
  qed
  then have "take ?m (drop (i * b) buf) ! j = take ?m (drop (i * b) buf') ! j" by simp
  then show "buf ! k = take (nbits div 8) buf' ! k"
    using j kij kn n assms(3,4) by simp
qed (use assms(3,4) in simp)

text \<open>
  C14. \<^verbatim>\<open>program\<close> sends the PROM the blocks of the file in order, each to its own frame and the last
  one padded with ones, whatever the PROM answers. It returns \<open>0\<close> when all blocks are sent, and
  \<open>1\<close> only on the optimised parts, when the PROM does not report the end of a block, after the
  blocks up to that one.
\<close>

theorem xcf_program_commits:
  assumes "xcf_init sz = Inr x" and "xcf_range x bf (\<lambda>_. getLength bf) (- 1) = Inr (skip, nbits)"
    and "nbits div 8 \<le> length (buffer bf)"
  shows "\<exists>e k' n. xcf_program x bf k = (Inr e, k') \<and>
     pblocks (prom_view (hist k')) = pblocks (prom_view (hist k)) @
       map (\<lambda>i. ((skip div xblock x + i) * FRAMES_PER_BLOCK, buf_bits (xcf_file_block x bf nbits i) (xblock x))) [0..<n] \<and>
     (e = 0 \<and> n = xcf_nblocks x nbits \<or> e = 1 \<and> use_optimized_algs x \<and> n \<le> xcf_nblocks x nbits)"
proof -
  let ?dev = "prom_dev (\<lambda>_ _ _. True)"
  have "honest ?dev (replies k)" by (simp add: honest_def)
  with wp_xcf_program [OF xcf_init_ok [OF assms(1)] assms(2,3)] show ?thesis
    unfolding xcf_image_def [abs_def]
    by (rule wp_run [where dd = ?dev and k = k]) (unfold prom_dview, blast)
qed

definition xcf_example :: "nat \<Rightarrow> byte list \<Rightarrow> bitfile" where
  "xcf_example off bs = bitfile_init\<lparr>boffset := off, buffer := bs, blength := length bs\<rparr>"

lemma xcf_program_commits_witness:
  "\<exists>e k' n. xcf_program \<lparr>xblock = 2048, xsize = 2 ^ 20, use_optimized_algs = True\<rparr>
       (xcf_example 512 (replicate 300 0x5a)) \<lparr>hist = [], replies = \<lambda>_. [4]\<rparr> = (Inr e, k') \<and>
     pblocks (prom_view (hist k')) = pblocks (prom_view []) @
       map (\<lambda>i. ((2 + i) * FRAMES_PER_BLOCK,
          buf_bits (xcf_file_block \<lparr>xblock = 2048, xsize = 2 ^ 20, use_optimized_algs = True\<rparr>
            (xcf_example 512 (replicate 300 0x5a)) 2400 i) 2048)) [0..<n] \<and>
     (e = 0 \<and> n = 2 \<or> e = 1 \<and> n \<le> 2)"
  using xcf_program_commits [of "0x44" "\<lparr>xblock = 2048, xsize = 2 ^ 20, use_optimized_algs = True\<rparr>"
      "xcf_example 512 (replicate 300 0x5a)" 4096 2400 "\<lparr>hist = [], replies = \<lambda>_. [4]\<rparr>"]
  by (simp add: xcf_init_def xcf_range_def getLength_def bits_of_def xcf_example_def bitfile_init_def xcf_nblocks_def)

text \<open>
  C13. Programming and reading back: on a PROM that answers with its contents, when \<^verbatim>\<open>program\<close>
  returns \<open>0\<close>, \<^verbatim>\<open>verify\<close> of the same file returns \<open>0\<close>, and a \<^verbatim>\<open>read\<close> of the same range returns the
  bytes of the file.
\<close>

theorem xcf_program_roundtrip:
  assumes "xcf_init sz = Inr x" and "honest (prom_dev (prom_answer mem)) (replies k)"
    and "xcf_range x bf (\<lambda>_. getLength bf) (- 1) = Inr (skip, nbits)" and "nbits div 8 \<le> length (buffer bf)"
    and "xcf_program x bf k = (Inr 0, k1)"
    and "xcf_range x bf2 (\<lambda>skip. xsize x - skip) (- 1) = Inr (skip, nbits)"
  shows "fst (xcf_verify x bf k1) = Inr 0 \<and>
     (\<exists>bf'. fst (xcf_read x bf2 k1) = Inr (0, bf') \<and> buffer bf' = take (nbits div 8) (buffer bf) \<and>
        blength bf' = nbits div 8)"
proof -
  let ?dev = "prom_dev (prom_answer mem)" and ?s = "skip div xblock x"
  note ok = xcf_init_ok [OF assms(1)]
  let ?m = "prom_mem mem (pblocks (dview ?dev (hist k1)))"
  from wp_xcf_program [OF ok assms(3,4)] assms(2)
  obtain e k2 where e: "xcf_program x bf k = (Inr e, k2)" "replies k2 = replies k"
    "\<exists>n. pblocks (dview ?dev (hist k2)) = pblocks (dview ?dev (hist k)) @ map (xcf_image x bf nbits ?s) [0..<n] \<and>
        (e = 0 \<and> n = xcf_nblocks x nbits \<or> e = 1 \<and> use_optimized_algs x \<and> n \<le> xcf_nblocks x nbits)"
    by (rule wp_run)
  have "e = 0" "k2 = k1" using e(1) assms(5) by simp_all
  with e assms(2) have k1: "honest ?dev (replies k1)" "pblocks (dview ?dev (hist k1)) =
      pblocks (dview ?dev (hist k)) @ map (xcf_image x bf nbits ?s) [0..<xcf_nblocks x nbits]"
    by simp_all
  have d: "8 dvd nbits" by (rule xcf_rangeD [OF assms(3) ok]) (simp add: getLength_def)
  have agree: "xcf_agree x (buffer bf) ?m ?s nbits i" if "i < xcf_nblocks x nbits" for i
    unfolding k1(2) by (rule xcf_agree_image [OF ok d that assms(4)])
  have len: "xblock x \<le> length (?m ((?s + i) * FRAMES_PER_BLOCK))" if "i < xcf_nblocks x nbits" for i
    unfolding k1(2) prom_mem_image [OF that] by simp
  have r1: "xcf_range x bf (\<lambda>_. getLength bf) 1 = Inr (skip, nbits)"
    using assms(3) by (auto simp: xcf_range_def Let_def split: if_splits)
  have "fst (xcf_verify x bf k1) = Inr 0"
    using wp_xcf_verify [OF ok r1 assms(4) len] k1(1)
    by (rule wp_run) (use agree in \<open>auto simp del: prom_dview\<close>)
  moreover obtain bf' k' where bf': "xcf_read x bf2 k1 = (Inr (0, bf'), k')" "length (buffer bf') = nbits div 8"
    "blength bf' = nbits div 8" "\<And>i. i < xcf_nblocks x nbits \<Longrightarrow> xcf_agree x (buffer bf') ?m ?s nbits i"
    using wp_xcf_read [OF ok assms(6) len] k1(1) by (rule wp_run) auto
  have "buffer bf' = take (nbits div 8) (buffer bf)"
    using agree bf'(4) by (intro xcf_agree_same [OF ok d bf'(2) assms(4)]) (simp add: xcf_agree_def)
  ultimately show ?thesis using bf' by simp
qed

text \<open>An executable PROM: it answers reads with its contents and status scans with \<open>4\<close>.\<close>

definition prom_replies :: "(nat \<Rightarrow> bool list) \<Rightarrow> jop list \<Rightarrow> byte list" where
  "prom_replies mem cs =
     (if cs = [] then []
      else let p = prom_view (butlast cs)
           in case last cs of
                OpDR tdi True n align exit \<Rightarrow>
                  (if pir p = XCF_ISC_READ then bits_bytes n (prom_mem mem (pblocks p) (paddr p)) else [4])
              | _ \<Rightarrow> [4])"

lemma prom_replies_honest: "honest (prom_dev (prom_answer mem)) (prom_replies mem)"
  by (auto simp: honest_def prom_answer_def prom_replies_def Let_def bits_bytes_take split: jop.split bool.split)

definition xc18v :: xcf where
  "xc18v = \<lparr>xblock = 2048, xsize = 2 ^ 20, use_optimized_algs = False\<rparr>"

lemma xcf_program_roundtrip_witness:
  "\<exists>k1. xcf_program xc18v (xcf_example 512 (replicate 300 0x5a)) \<lparr>hist = [], replies = prom_replies (\<lambda>_. [])\<rparr> = (Inr 0, k1) \<and>
     fst (xcf_verify xc18v (xcf_example 512 (replicate 300 0x5a)) k1) = Inr 0 \<and>
     (\<exists>bf'. fst (xcf_read xc18v (bitfile_init\<lparr>boffset := 512, rlength := 300\<rparr>) k1) = Inr (0, bf') \<and>
        buffer bf' = replicate 300 0x5a \<and> blength bf' = 300)"
proof -
  let ?bf = "xcf_example 512 (replicate 300 0x5a)" and ?k = "\<lparr>hist = [], replies = prom_replies (\<lambda>_. [])\<rparr>"
  have init: "xcf_init 0x24 = Inr xc18v" by (simp add: xcf_init_def xc18v_def)
  have range: "xcf_range xc18v ?bf (\<lambda>_. getLength ?bf) (- 1) = Inr (4096, 2400)"
    by (simp add: xcf_range_def getLength_def bits_of_def xcf_example_def bitfile_init_def xc18v_def)
  have fits: "2400 div 8 \<le> length (buffer ?bf)" by (simp add: xcf_example_def)
  have hon: "honest (prom_dev (prom_answer (\<lambda>_. []))) (replies ?k)" by (simp add: prom_replies_honest)
  obtain k1 where k1: "xcf_program xc18v ?bf ?k = (Inr 0, k1)"
    using wp_xcf_program [OF xcf_init_ok [OF init] range fits] hon
    by (rule wp_run) (auto simp: xc18v_def)
  have "xcf_range xc18v (bitfile_init\<lparr>boffset := 512, rlength := 300\<rparr>) (\<lambda>skip. xsize xc18v - skip) (- 1) = Inr (4096, 2400)"
    by (simp add: xcf_range_def bits_of_def bitfile_init_def xc18v_def)
  from xcf_program_roundtrip [OF init hon range fits k1 this] k1 show ?thesis
    by (intro exI [of _ k1]) (simp add: xcf_example_def)
qed

end
