(* ===== verification/ProgXC95X.thy ===== *)
theory ProgXC95X
  imports JtagSpec Jedec
begin

text \<open>
  \<^verbatim>\<open>progalgxc95x.cpp\<close>: erasing, programming, reading and verifying XC9500XL/XV parts from JEDEC
  files. The class does not derive from \<^verbatim>\<open>ProgAlg\<close>. \<open>junk\<close> is what the uninitialised part of
  \<^verbatim>\<open>i_data\<close> holds. The three nested loops over sector, \<open>l\<close> and \<open>m\<close> are one loop over the
  words of the part, fifteen to a sector.
\<close>

definition XC95X_ISC_NOOP :: byte where "XC95X_ISC_NOOP = 0xff"
definition XC95X_ISC_DISABLE :: byte where "XC95X_ISC_DISABLE = 0xf0"
definition XC95X_ISC_ERASE :: byte where "XC95X_ISC_ERASE = 0xed"
definition XC95X_ISC_PROGRAM :: byte where "XC95X_ISC_PROGRAM = 0xea"
definition XC95X_ISC_READ :: byte where "XC95X_ISC_READ = 0xee"
definition XC95X_ISC_ENABLE :: byte where "XC95X_ISC_ENABLE = 0xe9"
definition XC95X_XSC_BLANK_CHECK :: byte where "XC95X_XSC_BLANK_CHECK = 0xe5"
definition XC95X_BYPASS :: byte where "XC95X_BYPASS = 0xff"

lemmas xc95x_codes = XC95X_ISC_NOOP_def XC95X_ISC_DISABLE_def XC95X_ISC_ERASE_def XC95X_ISC_PROGRAM_def
  XC95X_ISC_READ_def XC95X_ISC_ENABLE_def XC95X_XSC_BLANK_CHECK_def XC95X_BYPASS_def

text \<open>The object is its \<^verbatim>\<open>DRegLength\<close>; an unknown size leaves it uninitialised.\<close>

definition xc95x_init :: "nat \<Rightarrow> int \<Rightarrow> nat" where
  "xc95x_init junk s =
     (if s = 1 then 2 else if s = 2 then 4 else if s = 4 then 8 else if s = 11 then 16 else junk)"

definition xc95x_enable :: "unit jm" where
  "xc95x_enable = jseq [jshiftIR [XC95X_ISC_ENABLE], jshiftDR [0x15] 6 True, jcycleTCK 1]"

definition xc95x_disable :: "unit jm" where
  "xc95x_disable = jseq [jshiftIR [XC95X_ISC_DISABLE], jUsleep 100, jshiftIR [XC95X_BYPASS], jcycleTCK 1]"

definition xc95x_error_exit :: "unit jm" where
  "xc95x_error_exit = jseq [jshiftIR [XC95X_ISC_NOOP], jcycleTCK 1]"

definition xc95x_flow_blank_check :: "int jm" where
  "xc95x_flow_blank_check =
     jbind (jseq [jshiftIR [XC95X_XSC_BLANK_CHECK], jshiftDR [3, 0, 0] 18 True, jcycleTCK 500]) (\<lambda>_.
     jbind (jcaptureDR None 18 True) (\<lambda>o_data. jret (if hd o_data AND 0x03 = 0x01 then 1 else 0)))"

text \<open>The answer of the last scan only decides about a message.\<close>

definition xc95x_flow_erase :: "unit jm" where
  "xc95x_flow_erase =
     jbind (jseq [jshiftIR [XC95X_ISC_ERASE], jshiftDR [3, 0, 0] 18 True, jUsleep 500000]) (\<lambda>_.
     jbind (jcaptureDR None 18 True) (\<lambda>_. jret ()))"

definition MaxSector :: nat where "MaxSector = 108"

definition xc95x_words :: nat where "xc95x_words = MaxSector * (3 * 5)"

text \<open>Word \<open>w\<close>: its address and the fuses in each of its bytes.\<close>

definition xc95x_addr :: "nat \<Rightarrow> nat" where
  "xc95x_addr w =
     (let sec = w div 15; l = w mod 15 div 5; m = w mod 5 in sec * 0x20 + l * 0x08 + m)"

definition xc95x_bitlen :: "nat \<Rightarrow> nat" where
  "xc95x_bitlen w = (if w mod 15 \<ge> 9 then 6 else 8)"

definition xc95x_tail :: "nat \<Rightarrow> byte list" where
  "xc95x_tail w = [word_of_nat (xc95x_addr w), word_of_nat (xc95x_addr w div 256)]"

section \<open>Programming\<close>

text \<open>Collecting \<open>n\<close> fuses into a byte, and the bytes of a word.\<close>

fun pack_fuses :: "jed_data \<Rightarrow> nat \<Rightarrow> nat \<Rightarrow> nat \<Rightarrow> byte \<Rightarrow> byte res" where
  "pack_fuses file idx i 0 d = Inr d"
| "pack_fuses file idx i (Suc n) d =
     rbind (jedec_get_fuse file (of_nat idx)) (\<lambda>b.
       pack_fuses file (idx + 1) (i + 1) n (d OR (if b then push_bit i 1 else 0)))"

fun pack_word :: "jed_data \<Rightarrow> nat \<Rightarrow> nat \<Rightarrow> nat \<Rightarrow> byte list res" where
  "pack_word file idx bitlen 0 = Inr []"
| "pack_word file idx bitlen (Suc n) =
     rbind (pack_fuses file idx 0 bitlen 0) (\<lambda>d.
     rbind (pack_word file (idx + bitlen) bitlen n) (\<lambda>ds. Inr (d # ds)))"

text \<open>The preamble of two bits and the word, in one scan of two calls.\<close>

definition xc95x_send :: "byte \<Rightarrow> byte list \<Rightarrow> nat \<Rightarrow> unit jm" where
  "xc95x_send pre i_data D =
     jseq [jshiftIR [XC95X_ISC_PROGRAM], jshiftDR [pre] 2 False, jshiftDR i_data ((D + 2) * 8) True]"

definition xc95x_wait :: "byte list \<Rightarrow> nat \<Rightarrow> nat \<Rightarrow> unit option jm" where
  "xc95x_wait i_data D k =
     jbind (jseq [xc95x_send 0 i_data D, jUsleep 50000]) (\<lambda>_.
     jbind (jcaptureDR None ((D + 2) * 8 + 2) True) (\<lambda>o_data.
       jret (if hd o_data AND 0x03 = 0x01 then Some () else None)))"

definition xc95x_program_word :: "nat \<Rightarrow> jed_data \<Rightarrow> nat \<Rightarrow> nat \<Rightarrow> (int + nat) jm" where
  "xc95x_program_word D file w idx =
     (let bitlen = xc95x_bitlen w; end = (w mod 15 = 14)
      in jbind (jlift (pack_word file idx bitlen D)) (\<lambda>d.
         let i_data = d @ xc95x_tail w; idx = idx + D * bitlen
         in jbind (jseq [jUsleep 1000, xc95x_send (if end then 0x03 else 0x01) i_data D,
                         if end then jUsleep 50000 else jcycleTCK 1]) (\<lambda>_.
            if end
            then jbind (jloop 0 32 (xc95x_wait i_data D)) (\<lambda>r.
                   jret (case r of None \<Rightarrow> Inl 1 | Some _ \<Rightarrow> Inr idx))
            else jret (Inr idx))))"

definition xc95x_flow_array_program :: "nat \<Rightarrow> jed_data \<Rightarrow> int jm" where
  "xc95x_flow_array_program D file =
     jbind (jscan 0 xc95x_words (xc95x_program_word D file) 0) (\<lambda>r.
       jret (case r of Inl e \<Rightarrow> e | Inr _ \<Rightarrow> 0))"

section \<open>Reading and verifying\<close>

text \<open>
  The data that a read scan captures belong to the word before; \<open>w\<close> counts the scans. After the
  loop one more scan, with the \<^verbatim>\<open>i_data\<close> of the last, fetches the last word.
\<close>

definition xc95x_fetch :: "(nat \<Rightarrow> byte) \<Rightarrow> nat \<Rightarrow> nat \<Rightarrow> byte list jm" where
  "xc95x_fetch junk D w =
     jbind (jseq [jshiftIR [XC95X_ISC_READ], jshiftDR [0x03] 2 False]) (\<lambda>_.
       jcaptureDR (Some (map junk [0..<D] @ xc95x_tail w)) ((D + 2) * 8) True)"

fun store_fuses :: "jed_data \<Rightarrow> nat \<Rightarrow> nat \<Rightarrow> byte \<Rightarrow> jed_data res" where
  "store_fuses file idx 0 d = Inr file"
| "store_fuses file idx (Suc n) d =
     rbind (jedec_set_fuse file (of_nat idx) (bit d 0)) (\<lambda>file. store_fuses file (idx + 1) n (drop_bit 1 d))"

fun store_word :: "jed_data \<Rightarrow> nat \<Rightarrow> nat \<Rightarrow> byte list \<Rightarrow> jed_data res" where
  "store_word file idx bitlen [] = Inr file"
| "store_word file idx bitlen (d # ds) =
     rbind (store_fuses file idx bitlen d) (\<lambda>file. store_word file (idx + bitlen) bitlen ds)"

definition xc95x_flow_array_read :: "(nat \<Rightarrow> byte) \<Rightarrow> nat \<Rightarrow> jed_data \<Rightarrow> jed_data jm" where
  "xc95x_flow_array_read junk D rbfile =
     jbind (jfold 0 xc95x_words (\<lambda>w (idx, file).
       jbind (xc95x_fetch junk D w) (\<lambda>o_data.
       jbind (jcycleTCK 1) (\<lambda>_.
         if w = 0 then jret (idx, file)
         else let bitlen = xc95x_bitlen (w - 1)
              in jbind (jlift (store_word file idx bitlen (take D o_data))) (\<lambda>file.
                   jret (idx + D * bitlen, file))))) (0, rbfile)) (\<lambda>(idx, file).
     jbind (xc95x_fetch junk D (xc95x_words - 1)) (\<lambda>o_data.
       jlift (store_word file idx (xc95x_bitlen (xc95x_words - 1)) (take D o_data))))"

text \<open>Comparing fuses with the file; \<open>False\<close> is a mismatch.\<close>

fun match_fuses :: "jed_data \<Rightarrow> nat \<Rightarrow> nat \<Rightarrow> byte \<Rightarrow> bool res" where
  "match_fuses file idx 0 d = Inr True"
| "match_fuses file idx (Suc n) d =
     rbind (jedec_get_fuse file (of_nat idx)) (\<lambda>b.
       if bit d 0 \<noteq> b then Inr False else match_fuses file (idx + 1) n (drop_bit 1 d))"

fun match_word :: "jed_data \<Rightarrow> nat \<Rightarrow> nat \<Rightarrow> byte list \<Rightarrow> bool res" where
  "match_word file idx bitlen [] = Inr True"
| "match_word file idx bitlen (d # ds) =
     rbind (match_fuses file idx bitlen d) (\<lambda>same.
       if same then match_word file (idx + bitlen) bitlen ds else Inr False)"

definition xc95x_flow_array_verify :: "(nat \<Rightarrow> byte) \<Rightarrow> nat \<Rightarrow> jed_data \<Rightarrow> int jm" where
  "xc95x_flow_array_verify junk D file =
     jbind (jscan 0 xc95x_words (\<lambda>w idx.
       jbind (xc95x_fetch junk D w) (\<lambda>o_data.
       jbind (jcycleTCK 1) (\<lambda>_.
         if w = 0 then jret (Inr idx)
         else let bitlen = xc95x_bitlen (w - 1)
              in jbind (jlift (match_word file idx bitlen (take D o_data))) (\<lambda>same.
                   jret (if same then Inr (idx + D * bitlen) else Inl 1))))) 0) (\<lambda>r.
     case r of
       Inl e \<Rightarrow> jret e
     | Inr idx \<Rightarrow>
         jbind (xc95x_fetch junk D (xc95x_words - 1)) (\<lambda>o_data.
         jbind (jlift (match_word file idx (xc95x_bitlen (xc95x_words - 1)) (take D o_data))) (\<lambda>same.
           jret (if same then 0 else 1))))"

section \<open>The public methods\<close>

definition xc95x_blank_check :: "int jm" where
  "xc95x_blank_check =
     jbind xc95x_enable (\<lambda>_. jbind xc95x_flow_blank_check (\<lambda>ret. jbind xc95x_disable (\<lambda>_. jret ret)))"

definition xc95x_erase :: "int jm" where
  "xc95x_erase = jbind (jseq [xc95x_enable, xc95x_flow_erase]) (\<lambda>_. xc95x_flow_blank_check)"

definition xc95x_array_read :: "(nat \<Rightarrow> byte) \<Rightarrow> nat \<Rightarrow> jed_data \<Rightarrow> jed_data jm" where
  "xc95x_array_read junk D file =
     jbind (jlift (jed_setLength (of_nat (108 * 108 * D)) file)) (\<lambda>file.
     jbind xc95x_enable (\<lambda>_.
     jbind (xc95x_flow_array_read junk D file) (\<lambda>file.
     jbind xc95x_disable (\<lambda>_. jret file))))"

definition xc95x_array_program :: "nat \<Rightarrow> jed_data \<Rightarrow> unit jm" where
  "xc95x_array_program D file = jbind (xc95x_flow_array_program D file) (\<lambda>_. jret ())"

definition xc95x_array_verify :: "(nat \<Rightarrow> byte) \<Rightarrow> nat \<Rightarrow> jed_data \<Rightarrow> int jm" where
  "xc95x_array_verify junk D file =
     jbind xc95x_enable (\<lambda>_.
     jbind (xc95x_flow_array_verify junk D file) (\<lambda>ret.
     jbind xc95x_disable (\<lambda>_. jret ret)))"

end
