(* ===== verification/XC95XCells.thy ===== *)
theory XC95XCells
  imports ProgXC95X JedecFuses
begin

text \<open>
  The layout that \<^verbatim>\<open>ProgAlgXC95X\<close> uses: which fuses of the JEDEC file are the bits of which word
  of the part, and what packing, storing and comparing a word does.
\<close>

section \<open>Fuses of a word\<close>

text \<open>The value of fuse \<open>i\<close>.\<close>

definition fuse_at :: "jed_data \<Rightarrow> nat \<Rightarrow> bool" where
  "fuse_at jf i = (case fuse_list jf of None \<Rightarrow> False | Some fl \<Rightarrow> buf_bit fl i)"

lemma fuse_at: "jed_ok n jf \<Longrightarrow> i < n \<Longrightarrow> jedec_get_fuse jf (of_nat i) = Inr (fuse_at jf i)"
  using set_fuse_ok(2) by (auto simp: jed_ok_def fuse_at_def)

lemma fuse_at_set:
  assumes "jed_ok n jf" "i < n"
  obtains jf' where "jedec_set_fuse jf (of_nat i) v = Inr jf'" "jed_ok n jf'"
    "\<And>k. k < n \<Longrightarrow> fuse_at jf' k = (if k = i then v else fuse_at jf k)"
proof -
  obtain f where f: "jedec_set_fuse jf (of_nat i) v = Inr f" "jed_ok n f"
    "\<And>k. k < n \<Longrightarrow> jedec_get_fuse f (of_nat k) = (if k = i then Inr v else jedec_get_fuse jf (of_nat k))"
    using set_fuse_effect [OF assms, of v] by auto
  have "fuse_at f k = (if k = i then v else fuse_at jf k)" if "k < n" for k
    using f(3) [OF that] fuse_at [OF f(2) that] fuse_at [OF assms(1) that] by (auto split: if_splits)
  with f(1,2) show thesis by (rule that)
qed

lemma pack_fuses_bits:
  assumes "jed_ok n jf" "idx + k \<le> n" "i + k \<le> 8"
  shows "\<exists>d'. pack_fuses jf idx i k d = Inr d' \<and>
     (\<forall>j < 8. bit d' j = (bit d j \<or> i \<le> j \<and> j < i + k \<and> fuse_at jf (idx + (j - i))))"
  using assms(2,3)
proof (induction k arbitrary: idx i d)
  case (Suc k)
  let ?d = "d OR (if fuse_at jf idx then push_bit i 1 else 0)"
  obtain d' where d': "pack_fuses jf (idx + 1) (i + 1) k ?d = Inr d'"
    "\<And>j. j < 8 \<Longrightarrow> bit d' j = (bit ?d j \<or> i + 1 \<le> j \<and> j < i + 1 + k \<and> fuse_at jf (idx + 1 + (j - (i + 1))))"
    using Suc.IH [of "idx + 1" "i + 1" ?d] Suc.prems by auto
  have "pack_fuses jf idx i (Suc k) d = Inr d'"
    using d'(1) fuse_at [OF assms(1), of idx] Suc.prems(1) by simp
  moreover have "bit d' j = (bit d j \<or> i \<le> j \<and> j < i + Suc k \<and> fuse_at jf (idx + (j - i)))" if j: "j < 8" for j
  proof -
    have "bit ?d j = (bit d j \<or> fuse_at jf idx \<and> j = i)"
      using j by (auto simp: bit_simps)
    moreover have "idx + 1 + (j - (i + 1)) = idx + (j - i)" if "i + 1 \<le> j" using that by simp
    ultimately show ?thesis unfolding d'(2) [OF j] by (cases "j = i") auto
  qed
  ultimately show ?case by blast
qed auto

text \<open>The bits that word data take from the fuses: \<open>bl\<close> in each byte.\<close>

definition word_fuse :: "nat \<Rightarrow> nat \<Rightarrow> nat \<Rightarrow> nat" where
  "word_fuse idx bl k = idx + k div 8 * bl + k mod 8"

definition word_bits :: "jed_data \<Rightarrow> nat \<Rightarrow> nat \<Rightarrow> nat \<Rightarrow> bool list" where
  "word_bits jf idx bl D = map (\<lambda>k. k mod 8 < bl \<and> fuse_at jf (word_fuse idx bl k)) [0..<8 * D]"

lemma length_word_bits [simp]: "length (word_bits jf idx bl D) = 8 * D"
  by (simp add: word_bits_def)

lemma word_fuse_less: "k < 8 * D \<Longrightarrow> k mod 8 < bl \<Longrightarrow> word_fuse idx bl k < idx + D * bl"
proof -
  assume "k < 8 * D" "k mod 8 < bl"
  then have "k div 8 * bl + bl \<le> D * bl"
    by (metis Suc_leI add.commute div_less_iff_less_mult mult.commute mult_Suc mult_le_mono1 zero_less_numeral)
  then show ?thesis using \<open>k mod 8 < bl\<close> by (simp add: word_fuse_def)
qed

lemma upt_8_Suc: "[0..<8 * Suc D] = [0..<8] @ map (\<lambda>k. k + 8) [0..<8 * D]"
  using upt_add_eq_append [of 0 8 "8 * D"] by (simp add: map_add_upt add.commute [of 8])

lemma div_8_Suc: "(k + 8) div 8 = Suc (k div 8)"
  by simp

lemma word_bits_Suc:
  "word_bits jf idx bl (Suc D) = map (\<lambda>j. j < bl \<and> fuse_at jf (idx + j)) [0..<8] @ word_bits jf (idx + bl) bl D"
  unfolding word_bits_def upt_8_Suc by (auto simp: word_fuse_def div_8_Suc algebra_simps simp del: upt_rec_numeral upt_Suc)

lemma buf_bits_Cons: "buf_bits (d # ds) (8 * Suc n) = map (bit d) [0..<8] @ buf_bits ds (8 * n)"
  unfolding buf_bits_def upt_8_Suc by (auto simp: buf_bit_def div_8_Suc simp del: upt_rec_numeral upt_Suc)

lemma pack_word_bits:
  assumes "jed_ok n jf" "idx + D * bl \<le> n" "bl \<le> 8"
  obtains ds where "pack_word jf idx bl D = Inr ds" "length ds = D" "buf_bits ds (8 * D) = word_bits jf idx bl D"
proof -
  have "\<exists>ds. pack_word jf idx bl D = Inr ds \<and> length ds = D \<and> buf_bits ds (8 * D) = word_bits jf idx bl D"
    using assms(2)
  proof (induction D arbitrary: idx)
    case 0
    then show ?case by (simp add: word_bits_def)
  next
    case (Suc D)
    obtain d where d: "pack_fuses jf idx 0 bl 0 = Inr d"
      "\<And>j. j < 8 \<Longrightarrow> bit d j = (j < bl \<and> fuse_at jf (idx + j))"
      using pack_fuses_bits [OF assms(1), of idx bl 0 0] Suc.prems assms(3) by auto
    obtain ds where ds: "pack_word jf (idx + bl) bl D = Inr ds" "length ds = D"
      "buf_bits ds (8 * D) = word_bits jf (idx + bl) bl D"
      using Suc.IH [of "idx + bl"] Suc.prems by auto
    have "buf_bits (d # ds) (8 * Suc D) = word_bits jf idx bl (Suc D)"
      unfolding buf_bits_Cons word_bits_Suc ds(3) by (simp add: d(2) del: upt_rec_numeral upt_Suc)
    then show ?case using d(1) ds(1,2) by (intro exI [of _ "d # ds"]) simp
  qed
  then show thesis using that by blast
qed

lemma match_fuses_iff:
  assumes "jed_ok n jf" "idx + k \<le> n" "k \<le> 8"
  shows "match_fuses jf idx k d = Inr (\<forall>j < k. bit d j = fuse_at jf (idx + j))"
  using assms(2,3)
proof (induction k arbitrary: idx d)
  case (Suc k)
  have "(\<forall>j < Suc k. bit d j = fuse_at jf (idx + j)) \<longleftrightarrow>
      bit d 0 = fuse_at jf idx \<and> (\<forall>j < k. bit (drop_bit 1 d) j = fuse_at jf (idx + 1 + j))"
    by (auto simp: less_Suc_eq_0_disj bit_drop_bit_eq)
  then show ?case
    using Suc.IH [of "idx + 1" "drop_bit 1 d"] Suc.prems fuse_at [OF assms(1), of idx] by auto
qed simp

text \<open>Two lists of bits agree on the fuses of a word.\<close>

definition same_fuses :: "nat \<Rightarrow> bool list \<Rightarrow> bool list \<Rightarrow> bool" where
  "same_fuses bl as bs \<longleftrightarrow> length as = length bs \<and> (\<forall>k < length as. k mod 8 < bl \<longrightarrow> as ! k = bs ! k)"

lemma all_less_add: "(\<forall>k < m + n. P k) \<longleftrightarrow> (\<forall>k < m. P k) \<and> (\<forall>k < n. P (m + k))" for m n :: nat
proof (intro iffI conjI allI impI)
  fix k assume l: "(\<forall>k < m. P k) \<and> (\<forall>k < n. P (m + k))" "k < m + n"
  then show "P k" by (cases "k < m") (auto dest: spec [of _ "k - m"])
qed auto

lemma same_fuses_append:
  assumes "length as = length cs"
  shows "same_fuses bl (as @ bs) (cs @ ds) \<longleftrightarrow>
     (\<forall>k < length as. k mod 8 < bl \<longrightarrow> as ! k = cs ! k) \<and>
     length bs = length ds \<and> (\<forall>k < length bs. (length as + k) mod 8 < bl \<longrightarrow> bs ! k = ds ! k)"
  using assms by (auto simp: same_fuses_def all_less_add nth_append)

lemma match_word_iff:
  assumes "jed_ok n jf" "idx + length ds * bl \<le> n" "bl \<le> 8"
  shows "match_word jf idx bl ds = Inr (same_fuses bl (buf_bits ds (8 * length ds)) (word_bits jf idx bl (length ds)))"
  using assms(2)
proof (induction ds arbitrary: idx)
  case Nil
  then show ?case by (simp add: same_fuses_def)
next
  case (Cons d ds)
  have "same_fuses bl (buf_bits (d # ds) (8 * Suc (length ds))) (word_bits jf idx bl (Suc (length ds))) \<longleftrightarrow>
      (\<forall>j < bl. bit d j = fuse_at jf (idx + j)) \<and>
      same_fuses bl (buf_bits ds (8 * length ds)) (word_bits jf (idx + bl) bl (length ds))"
    unfolding buf_bits_Cons word_bits_Suc using assms(3)
    by (subst same_fuses_append) (auto simp: same_fuses_def simp del: upt_rec_numeral upt_Suc)
  then show ?case
    using match_fuses_iff [OF assms(1), of idx bl d] Cons.IH [of "idx + bl"] Cons.prems assms(3) by simp
qed

lemma store_fuses_effect:
  assumes "jed_ok n jf" "idx + k \<le> n"
  shows "\<exists>jf'. store_fuses jf idx k d = Inr jf' \<and> jed_ok n jf' \<and>
    (\<forall>i < n. fuse_at jf' i = (if idx \<le> i \<and> i < idx + k then bit d (i - idx) else fuse_at jf i))"
  using assms
proof (induction k arbitrary: jf idx d)
  case (Suc k)
  obtain f1 where f1: "jedec_set_fuse jf (of_nat idx) (bit d 0) = Inr f1" "jed_ok n f1"
    "\<And>i. i < n \<Longrightarrow> fuse_at f1 i = (if i = idx then bit d 0 else fuse_at jf i)"
    using fuse_at_set [OF Suc.prems(1), of idx "bit d 0"] Suc.prems(2) by auto
  obtain f2 where f2: "store_fuses f1 (idx + 1) k (drop_bit 1 d) = Inr f2" "jed_ok n f2"
    "\<And>i. i < n \<Longrightarrow> fuse_at f2 i =
        (if idx + 1 \<le> i \<and> i < idx + 1 + k then bit (drop_bit 1 d) (i - (idx + 1)) else fuse_at f1 i)"
    using Suc.IH [OF f1(2), of "idx + 1" "drop_bit 1 d"] Suc.prems(2) by auto
  have "fuse_at f2 i = (if idx \<le> i \<and> i < idx + Suc k then bit d (i - idx) else fuse_at jf i)" if i: "i < n" for i
  proof (cases "idx < i")
    case True
    then have "Suc (i - Suc idx) = i - idx" by simp
    with True show ?thesis unfolding f2(3) [OF i] f1(3) [OF i] by (auto simp: bit_drop_bit_eq)
  next
    case False
    then show ?thesis unfolding f2(3) [OF i] f1(3) [OF i] by auto
  qed
  then show ?case using f1(1) f2(1,2) by simp
qed auto

lemma store_word_effect:
  assumes "jed_ok n jf" "idx + length ds * bl \<le> n" "bl \<le> 8"
  shows "\<exists>jf'. store_word jf idx bl ds = Inr jf' \<and> jed_ok n jf' \<and>
    (\<forall>i < n. i < idx \<or> idx + length ds * bl \<le> i \<longrightarrow> fuse_at jf' i = fuse_at jf i) \<and>
    same_fuses bl (word_bits jf' idx bl (length ds)) (buf_bits ds (8 * length ds))"
  using assms(1,2)
proof (induction ds arbitrary: jf idx)
  case Nil
  then show ?case by (auto simp: same_fuses_def)
next
  case (Cons d ds)
  obtain f1 where f1: "store_fuses jf idx bl d = Inr f1" "jed_ok n f1"
    "\<And>i. i < n \<Longrightarrow> fuse_at f1 i = (if idx \<le> i \<and> i < idx + bl then bit d (i - idx) else fuse_at jf i)"
    using store_fuses_effect [OF Cons.prems(1), of idx bl d] Cons.prems(2) by auto
  obtain f2 where f2: "store_word f1 (idx + bl) bl ds = Inr f2" "jed_ok n f2"
    "\<And>i. i < n \<Longrightarrow> i < idx + bl \<or> idx + bl + length ds * bl \<le> i \<Longrightarrow> fuse_at f2 i = fuse_at f1 i"
    "same_fuses bl (word_bits f2 (idx + bl) bl (length ds)) (buf_bits ds (8 * length ds))"
    using Cons.IH [OF f1(2), of "idx + bl"] Cons.prems(2) by auto
  have "same_fuses bl (word_bits f2 idx bl (Suc (length ds))) (buf_bits (d # ds) (8 * Suc (length ds)))"
    unfolding buf_bits_Cons word_bits_Suc
  proof (subst same_fuses_append; (intro conjI allI impI)?)
    fix k assume k: "k < length (map (\<lambda>j. j < bl \<and> fuse_at f2 (idx + j)) [0..<8])" "k mod 8 < bl"
    then have "k < 8" "k < bl" by auto
    then show "map (\<lambda>j. j < bl \<and> fuse_at f2 (idx + j)) [0..<8] ! k = map (bit d) [0..<8] ! k"
      using f2(3) [of "idx + k"] f1(3) [of "idx + k"] Cons.prems(2)
      by (simp add: nth_append del: upt_rec_numeral upt_Suc)
  qed (use f2(4) in \<open>auto simp: same_fuses_def\<close>)
  moreover have "fuse_at f2 i = fuse_at jf i" if "i < n" "i < idx \<or> idx + length (d # ds) * bl \<le> i" for i
    using f2(3) [of i] f1(3) [of i] that by auto
  ultimately show ?case using f1(1) f2(1,2) by simp
qed

text \<open>What storing fuses does not change: the size of the map, the version and the date.\<close>

definition jed_frame :: "jed_data \<Rightarrow> nat option \<times> byte list \<times> byte list" where
  "jed_frame jf = (map_option length (fuse_list jf), jversion jf, jdate jf)"

lemma set_fuse_frame: "jedec_set_fuse jf i v = Inr jf' \<Longrightarrow> jed_frame jf' = jed_frame jf"
  by (auto simp: jedec_set_fuse_def jed_frame_def rbind_Inr_iff buf_set_def split: if_splits option.splits)

lemma store_fuses_frame: "store_fuses jf idx k d = Inr jf' \<Longrightarrow> jed_frame jf' = jed_frame jf"
  by (induction k arbitrary: jf idx d) (auto simp: rbind_Inr_iff dest: set_fuse_frame)

lemma store_word_frame: "store_word jf idx bl ds = Inr jf' \<Longrightarrow> jed_frame jf' = jed_frame jf"
  by (induction ds arbitrary: jf idx) (auto simp: rbind_Inr_iff dest: store_fuses_frame)

section \<open>The words of the part\<close>

text \<open>The number of the first fuse of word \<open>w\<close>.\<close>

definition wstart :: "nat \<Rightarrow> nat \<Rightarrow> nat" where
  "wstart D w = D * (w div 15 * 108 + (if w mod 15 \<le> 9 then 8 * (w mod 15) else 72 + 6 * (w mod 15 - 9)))"

lemma wstart_0 [simp]: "wstart D 0 = 0"
  by (simp add: wstart_def)

lemma wstart_Suc: "wstart D (Suc w) = wstart D w + D * xc95x_bitlen w"
proof -
  define q r where "q = w div 15" and "r = w mod 15"
  have "r < 15" by (simp add: r_def)
  then consider "r < 9" | "9 \<le> r" "r < 14" | "r = 14" by linarith
  then show ?thesis
  proof cases
    case 1
    then have "Suc w mod 15 = Suc r" "Suc w div 15 = q" unfolding q_def r_def by (simp_all add: mod_Suc div_Suc)
    then show ?thesis
      using 1 unfolding wstart_def xc95x_bitlen_def q_def [symmetric] r_def [symmetric] by (simp add: algebra_simps)
  next
    case 2
    then have s: "Suc w mod 15 = Suc r" "Suc w div 15 = q" unfolding q_def r_def by (simp_all add: mod_Suc div_Suc)
    have "(if r \<le> 9 then 8 * r else 72 + 6 * (r - 9)) = 72 + 6 * (r - 9)" using 2 by auto
    moreover have "Suc r - 9 = Suc (r - 9)" using 2 by simp
    ultimately show ?thesis
      using 2 s unfolding wstart_def xc95x_bitlen_def q_def [symmetric] r_def [symmetric] by (simp add: algebra_simps)
  next
    case 3
    then have "Suc w mod 15 = 0" "Suc w div 15 = Suc q" unfolding q_def r_def by (simp_all add: mod_Suc div_Suc)
    then show ?thesis
      using 3 unfolding wstart_def xc95x_bitlen_def q_def [symmetric] r_def [symmetric] by (simp add: algebra_simps)
  qed
qed

lemma wstart_end: "wstart D xc95x_words = 108 * 108 * D"
  by (simp add: wstart_def xc95x_words_def MaxSector_def)

lemma wstart_mono: "v \<le> w \<Longrightarrow> wstart D v \<le> wstart D w"
  by (rule lift_Suc_mono_le [where f = "wstart D"]) (simp_all add: wstart_Suc)

lemma xc95x_bitlen_le: "xc95x_bitlen w \<le> 8"
  by (simp add: xc95x_bitlen_def)

lemma wstart_bound: "w < xc95x_words \<Longrightarrow> wstart D w + D * xc95x_bitlen w \<le> 108 * 108 * D"
  using wstart_mono [of "Suc w" xc95x_words D] by (simp add: wstart_Suc wstart_end)

lemma xc95x_addr_bound: "w < xc95x_words \<Longrightarrow> xc95x_addr w < 2 ^ 16"
proof -
  assume "w < xc95x_words"
  then have "w div 15 < 108" by (simp add: xc95x_words_def MaxSector_def)
  moreover have "w mod 15 div 5 < 3" "w mod 5 < 5" by simp_all
  ultimately show ?thesis by (simp add: xc95x_addr_def)
qed

lemma xc95x_addr_inj: "xc95x_addr v = xc95x_addr w \<Longrightarrow> v = w"
proof -
  assume a: "xc95x_addr v = xc95x_addr w"
  have l: "u mod 15 div 5 < 3" "u mod 5 < 5" for u :: nat by simp_all
  have lin: "(q * 32 + r * 8 + t) div 32 = q" "(q * 32 + r * 8 + t) mod 32 div 8 = r" "(q * 32 + r * 8 + t) mod 8 = t"
    if "r < 3" "t < 5" for q r t :: nat
  proof -
    have x: "r * 8 + t < 32" "(r * 8 + t) div 8 = r" "(r * 8 + t) mod 8 = t" using that by auto
    show "(q * 32 + r * 8 + t) div 32 = q" "(q * 32 + r * 8 + t) mod 32 div 8 = r"
      using x by (simp_all add: add.assoc)
    have "(q * 32 + (r * 8 + t)) mod 32 mod 8 = (q * 32 + (r * 8 + t)) mod 8" by (rule mod_mod_cancel) simp
    then show "(q * 32 + r * 8 + t) mod 8 = t" using x by (simp add: add.assoc)
  qed
  have d: "xc95x_addr u div 32 = u div 15" "xc95x_addr u mod 32 div 8 = u mod 15 div 5" "xc95x_addr u mod 8 = u mod 5" for u
    unfolding xc95x_addr_def Let_def by (rule lin [OF l])+
  have m: "u mod 15 mod 5 = u mod 5" for u :: nat by (rule mod_mod_cancel) simp
  have "u = u div 15 * 15 + (u mod 15 div 5 * 5 + u mod 5)" for u :: nat
    unfolding m [of u, symmetric] by (simp only: div_mult_mod_eq)
  then show ?thesis using d [of v] d [of w] a by metis
qed

lemma xc95x_tail_long: "xc95x_tail w = take 2 (longToByteArray (of_nat (xc95x_addr w)))"
proof -
  have m: "bit (255 :: nat) j \<longleftrightarrow> j < 8" "bit (255 :: int) j \<longleftrightarrow> j < 8" "bit (255 :: u32) j \<longleftrightarrow> j < 8" for j
    using bit_mask_iff [of 8 j, where ?'a = nat] bit_mask_iff [of 8 j, where ?'a = int] bit_mask_iff [of 8 j, where ?'a = u32]
    by (auto simp: mask_eq_exp_minus_1)
  have d: "xc95x_addr w div 256 = drop_bit 8 (xc95x_addr w)" by (simp add: drop_bit_eq_div)
  have "(word_of_nat a :: byte) = ucast ((of_nat a :: u32) AND 255)" for a
    by (rule bit_word_eqI) (auto simp: bit_simps m)
  moreover have "(word_of_nat (drop_bit 8 a) :: byte) = ucast (drop_bit 8 (of_nat a :: u32) AND 255)" for a :: nat
    by (rule bit_word_eqI) (auto simp: bit_simps m)
  ultimately show ?thesis
    unfolding xc95x_tail_def longToByteArray_def d by (simp add: numeral_2_eq_2)
qed

lemma xc95x_tail_bits: "w < xc95x_words \<Longrightarrow> bits_nat (buf_bits (xc95x_tail w) 16) = xc95x_addr w"
  unfolding xc95x_tail_long using bits_nat_long_less [OF xc95x_addr_bound, of w] by (simp add: buf_bits_take)

end
