(* ===== verification/XC95XProps.thy ===== *)
theory XC95XProps
  imports XC95XCells ProgAlg
begin

text \<open>
  What \<^verbatim>\<open>ProgAlgXC95X\<close> does to the part. The view of the part follows the instruction register,
  the scan in progress, the words that scans under \<open>ISC_PROGRAM\<close> with a set first bit have loaded,
  and the address of the last scan under \<open>ISC_READ\<close>, whose word the next such scan delivers.
\<close>

record cpld =
  cir :: byte
  copen :: bool
  creg :: "bool list"
  cwords :: "(nat \<times> bool list) list"
  clast :: nat

text \<open>A complete register of a part with \<open>D\<close> bytes to a word: preamble, data and address.\<close>

definition creg_addr :: "nat \<Rightarrow> bool list \<Rightarrow> nat" where
  "creg_addr D reg = bits_nat (drop (2 + 8 * D) reg)"

definition creg_data :: "nat \<Rightarrow> bool list \<Rightarrow> bool list" where
  "creg_data D reg = take (8 * D) (drop 2 reg)"

fun cpld_step :: "nat \<Rightarrow> cpld \<Rightarrow> jop \<Rightarrow> cpld" where
  "cpld_step D p (OpIR tdi want) = p\<lparr>cir := hd tdi, copen := False\<rparr>"
| "cpld_step D p (OpDR tdi want n align exit) =
     (let reg = (if copen p then creg p else []) @ scan_in tdi n;
          full = (exit \<and> length reg = 2 + (D + 2) * 8)
      in p\<lparr>copen := \<not> exit, creg := reg,
           cwords := (if full \<and> cir p = XC95X_ISC_PROGRAM \<and> hd reg
                      then cwords p @ [(creg_addr D reg, creg_data D reg)] else cwords p),
           clast := (if full \<and> cir p = XC95X_ISC_READ then creg_addr D reg else clast p)\<rparr>)"
| "cpld_step D p _ = p"

text \<open>The word at the address of the scan before comes out after the two bits of the preamble.\<close>

definition cpld_answer :: "nat \<Rightarrow> (nat \<Rightarrow> bool list) \<Rightarrow> cpld \<Rightarrow> jop \<Rightarrow> byte list \<Rightarrow> bool" where
  "cpld_answer D mem p c r =
     (case c of
        OpDR (Some tdi) True n align exit \<Rightarrow>
          (let m = mem_after mem (cwords p) (clast p)
           in if cir p = XC95X_ISC_READ \<and> copen p \<and> length (creg p) = 2 \<and> 8 * D \<le> length m \<and> n = (D + 2) * 8
              then buf_bits (fit (nbytes n) r) (8 * D) = take (8 * D) m else True)
      | _ \<Rightarrow> True)"

definition cpld_init :: cpld where
  "cpld_init = \<lparr>cir = 0, copen = False, creg = [], cwords = [], clast = 0\<rparr>"

definition cpld_dev :: "nat \<Rightarrow> (cpld \<Rightarrow> jop \<Rightarrow> byte list \<Rightarrow> bool) \<Rightarrow> cpld device" where
  "cpld_dev D ans = \<lparr>dinit = cpld_init, dstep = cpld_step D, dans = ans\<rparr>"

lemma cpld_dev_sel [simp]: "dstep (cpld_dev D ans) = cpld_step D" "dans (cpld_dev D ans) = ans"
  by (simp_all add: cpld_dev_def)

definition cpld_view :: "nat \<Rightarrow> jop list \<Rightarrow> cpld" where
  "cpld_view D cs = foldl (cpld_step D) cpld_init cs"

lemma cpld_dview [simp]: "dview (cpld_dev D ans) cs = cpld_view D cs"
  by (simp add: dview_def cpld_view_def cpld_dev_def)

section \<open>Programming\<close>

definition xc95x_image :: "nat \<Rightarrow> jed_data \<Rightarrow> nat \<Rightarrow> nat \<times> bool list" where
  "xc95x_image D jf w = (xc95x_addr w, word_bits jf (wstart D w) (xc95x_bitlen w) D)"

lemma preamble_bits: "buf_bits [0x03] 2 = [True, True]" "buf_bits [0x01] 2 = [True, False]" "buf_bits [0x00] 2 = [False, False]"
  by (simp_all add: buf_bits_def buf_bit_def numeral_2_eq_2 bit_simps)

text \<open>The register after the two calls of a send.\<close>

lemma word_register:
  assumes "length d = D" "buf_bits d (8 * D) = bits" "w < xc95x_words"
  shows "creg_data D (a # b # buf_bits (d @ xc95x_tail w) (16 + D * 8)) = bits"
    and "creg_addr D (a # b # buf_bits (d @ xc95x_tail w) (16 + D * 8)) = xc95x_addr w"
proof -
  have "buf_bits (d @ xc95x_tail w) (16 + D * 8) = bits @ buf_bits (xc95x_tail w) 16"
    using buf_bits_append [of d "xc95x_tail w" 16] assms(1,2) by (simp add: algebra_simps)
  moreover have "length bits = 8 * D" using assms(2) by auto
  ultimately show "creg_data D (a # b # buf_bits (d @ xc95x_tail w) (16 + D * 8)) = bits"
    "creg_addr D (a # b # buf_bits (d @ xc95x_tail w) (16 + D * 8)) = xc95x_addr w"
    using xc95x_tail_bits [OF assms(3)] by (simp_all add: creg_data_def creg_addr_def)
qed

text \<open>\<open>cquiet p p'\<close>: no word was loaded between two views and no scan is open.\<close>

definition cquiet :: "cpld \<Rightarrow> cpld \<Rightarrow> bool" where
  "cquiet p p' \<longleftrightarrow> cwords p' = cwords p \<and> \<not> copen p'"

lemma wp_xc95x_send:
  assumes "length d = D" "buf_bits d (8 * D) = bits" "w < xc95x_words" "pre = 0x03 \<or> pre = 0x01"
    and "\<And>p'. \<not> copen p' \<Longrightarrow> cwords p' = cwords p @ [(xc95x_addr w, bits)] \<Longrightarrow> Q () p'"
  shows "wp (cpld_dev D ans) (xc95x_send pre (d @ xc95x_tail w) D) Q p"
  unfolding xc95x_send_def using assms(4)
  by (intro wp_seq_Cons wp_seq_Nil wp_ops assms(5))
    (auto simp: Let_def preamble_bits word_register [OF assms(1-3)] xc95x_codes)

lemma wp_xc95x_send_0:
  assumes "\<And>p'. cquiet p p' \<Longrightarrow> Q () p'"
  shows "wp (cpld_dev D ans) (xc95x_send 0 i_data D) Q p"
  unfolding xc95x_send_def
  by (intro wp_seq_Cons wp_seq_Nil wp_ops assms)
    (auto simp: Let_def preamble_bits cquiet_def xc95x_codes)

text \<open>Every scan that the software only captures says that the part is done.\<close>

definition says_done :: "('v \<Rightarrow> jop \<Rightarrow> byte list \<Rightarrow> bool) \<Rightarrow> bool" where
  "says_done ans \<longleftrightarrow> (\<forall>p n r. 0 < n \<longrightarrow> ans p (OpDR None True n 0 True) r \<longrightarrow> hd (fit (nbytes n) r) AND 0x03 = 0x01)"

lemma says_doneD: "says_done ans \<Longrightarrow> ans p (OpDR None True n 0 True) r \<Longrightarrow> 0 < n \<Longrightarrow> hd (fit (nbytes n) r) AND 0x03 = 0x01"
  by (simp add: says_done_def)

lemma wp_xc95x_wait:
  assumes "\<And>r p'. cquiet p p' \<Longrightarrow> (says_done ans \<Longrightarrow> r \<noteq> None) \<Longrightarrow> Q r p'" "\<not> copen p"
  shows "wp (cpld_dev D ans) (jloop 0 32 (xc95x_wait i_data D)) Q p"
proof (rule wp_loop [where I = "\<lambda>j p'. cquiet p p' \<and> (says_done ans \<longrightarrow> j = 0)"])
  fix j :: nat and q
  assume q: "cquiet p q \<and> (says_done ans \<longrightarrow> j = 0)"
  show "wp (cpld_dev D ans) (xc95x_wait i_data D j)
      (\<lambda>r v. case r of None \<Rightarrow> cquiet p v \<and> (says_done ans \<longrightarrow> Suc j = 0) | Some x \<Rightarrow> Q (Some x) v) q"
    unfolding xc95x_wait_def
    by (intro wp_bind wp_seq_Cons wp_seq_Nil wp_ops wp_captures wp_ret wp_xc95x_send_0)
      (use q in \<open>auto intro!: assms(1) simp: cquiet_def Let_def dest: says_doneD\<close>)
qed (use assms in \<open>auto simp: cquiet_def\<close>)

lemma wp_xc95x_program_word:
  assumes "jed_ok n jf" "108 * 108 * D \<le> n" "w < xc95x_words" "idx = wstart D w"
    and "\<And>r p'. \<not> copen p' \<Longrightarrow> cwords p' = cwords p @ [xc95x_image D jf w] \<Longrightarrow>
      r = Inr (wstart D (Suc w)) \<or> r = Inl 1 \<and> \<not> says_done ans \<Longrightarrow> Q r p'"
  shows "wp (cpld_dev D ans) (xc95x_program_word D jf w idx) Q p"
proof -
  let ?bl = "xc95x_bitlen w"
  have "idx + D * ?bl \<le> n" using wstart_bound [OF assms(3), of D] assms(2,4) by simp
  then obtain d where d: "pack_word jf idx ?bl D = Inr d" "length d = D" "buf_bits d (8 * D) = word_bits jf idx ?bl D"
    using pack_word_bits [OF assms(1) _ xc95x_bitlen_le] by metis
  have idx: "idx + D * ?bl = wstart D (Suc w)" by (simp add: assms(4) wstart_Suc)
  show ?thesis
    unfolding xc95x_program_word_def Let_def
  proof (intro wp_bind wp_lift [OF d(1)] wp_seq_Cons wp_seq_Nil wp_ops wp_xc95x_send [OF d(2,3) assms(3)])
    fix p' :: cpld assume p': "\<not> copen p'" "cwords p' = cwords (dstep (cpld_dev D ans) p (OpSleep 1000)) @ [(xc95x_addr w, word_bits jf idx ?bl D)]"
    then have p'': "cwords p' = cwords p @ [xc95x_image D jf w]" by (simp add: xc95x_image_def assms(4))
    show "wp (cpld_dev D ans) (if w mod 15 = 14 then jUsleep 50000 else jcycleTCK 1)
        (\<lambda>_. wp (cpld_dev D ans) (jseq []) (\<lambda>_. wp (cpld_dev D ans)
          (if w mod 15 = 14
           then jbind (jloop 0 32 (xc95x_wait (d @ xc95x_tail w) D))
                  (\<lambda>r. jret (case r of None \<Rightarrow> Inl 1 | Some _ \<Rightarrow> Inr (idx + D * ?bl)))
           else jret (Inr (idx + D * ?bl))) Q)) p'"
      using p' p'' unfolding idx
      by (cases "w mod 15 = 14")
        (auto intro!: wp_intro wp_xc95x_wait assms(5) simp: cquiet_def split: option.splits)
  qed simp
qed

text \<open>
  \<^verbatim>\<open>flow_array_program\<close> loads the words of the file in order. It returns \<open>0\<close> when it has loaded
  all of them and \<open>1\<close> when the part does not report the end of a sector, after the words up to it.
\<close>

lemma wp_xc95x_program:
  assumes "jed_ok n jf" "108 * 108 * D \<le> n"
  shows "wp (cpld_dev D ans) (xc95x_flow_array_program D jf)
     (\<lambda>e p'. \<exists>k \<le> xc95x_words. cwords p' = cwords p @ map (xc95x_image D jf) [0..<k] \<and>
        (e = 0 \<and> k = xc95x_words \<or> e = 1 \<and> \<not> says_done ans)) p"
  unfolding xc95x_flow_array_program_def
proof (rule wp_bind, rule wp_scan [where I = "\<lambda>w idx p'. idx = wstart D w \<and>
    cwords p' = cwords p @ map (xc95x_image D jf) [0..<w]"], goal_cases)
  case (1 w idx q)
  then show ?case
    by (intro wp_xc95x_program_word [OF assms]) (auto intro!: wp_intro exI [of _ "Suc w"])
next
  case (2 idx q)
  then show ?case by (auto intro!: wp_intro)
next
  case 3
  then show ?case by simp
qed

section \<open>Reading\<close>

lemma wp_xc95x_fetch:
  assumes "w < xc95x_words"
    and "\<And>o_data p'. cquiet p p' \<Longrightarrow> clast p' = xc95x_addr w \<Longrightarrow> length (take D o_data) = D \<Longrightarrow>
      (8 * D \<le> length (mem_after mem (cwords p) (clast p)) \<Longrightarrow>
       buf_bits (take D o_data) (8 * D) = take (8 * D) (mem_after mem (cwords p) (clast p))) \<Longrightarrow> Q o_data p'"
  shows "wp (cpld_dev D (cpld_answer D mem)) (xc95x_fetch junk D w) Q p"
proof -
  have reg: "creg_addr D (True # True # buf_bits (map junk [0..<D] @ xc95x_tail w) (16 + D * 8)) = xc95x_addr w"
    using word_register(2) [OF _ _ assms(1), of "map junk [0..<D]" D] by simp
  have n: "D \<le> nbytes (16 + D * 8)" by (simp add: nbytes_def)
  show ?thesis
    unfolding xc95x_fetch_def
    by (intro wp_bind wp_seq_Cons wp_seq_Nil wp_ops wp_captures assms(2))
      (use n in \<open>auto simp: Let_def cquiet_def preamble_bits reg xc95x_codes cpld_answer_def buf_bits_take min_absorb1\<close>)
qed

text \<open>The word \<open>u\<close> of the part agrees with the fuses of the file.\<close>

definition xc95x_agree :: "nat \<Rightarrow> jed_data \<Rightarrow> (nat \<Rightarrow> bool list) \<Rightarrow> nat \<Rightarrow> bool" where
  "xc95x_agree D jf mem u \<longleftrightarrow>
     same_fuses (xc95x_bitlen u) (take (8 * D) (mem (xc95x_addr u))) (word_bits jf (wstart D u) (xc95x_bitlen u) D)"

lemma match_agree:
  assumes "jed_ok n jf" "108 * 108 * D \<le> n" "u < xc95x_words"
    and "length (take D o_data) = D" "buf_bits (take D o_data) (8 * D) = take (8 * D) (mem (xc95x_addr u))"
  shows "match_word jf (wstart D u) (xc95x_bitlen u) (take D o_data) = Inr (xc95x_agree D jf mem u)"
  using match_word_iff [OF assms(1), of "wstart D u" "take D o_data" "xc95x_bitlen u"] assms(2-5)
    wstart_bound [OF assms(3), of D] xc95x_bitlen_le [of u]
  by (simp add: xc95x_agree_def)

lemma wp_xc95x_verify:
  assumes "jed_ok n jf" "108 * 108 * D \<le> n"
    and len: "\<And>u. u < xc95x_words \<Longrightarrow> 8 * D \<le> length (mem_after mem (cwords p) (xc95x_addr u))"
  shows "wp (cpld_dev D (cpld_answer D mem)) (xc95x_flow_array_verify junk D jf)
     (\<lambda>e p'. e = (if \<forall>u < xc95x_words. xc95x_agree D jf (mem_after mem (cwords p)) u then 0 else 1) \<and>
        cwords p' = cwords p) p"
proof -
  let ?dev = "cpld_dev D (cpld_answer D mem)" and ?ok = "xc95x_agree D jf (mem_after mem (cwords p))"
  let ?Q = "\<lambda>e p'. e = (if \<forall>u < xc95x_words. ?ok u then 0 else 1) \<and> cwords p' = cwords p"
  let ?I = "\<lambda>w idx p'. idx = wstart D (w - 1) \<and> cwords p' = cwords p \<and>
    (0 < w \<longrightarrow> clast p' = xc95x_addr (w - 1)) \<and> (\<forall>u < w - 1. ?ok u)"
  have W: "0 < xc95x_words" by (simp add: xc95x_words_def MaxSector_def)
  show ?thesis
    unfolding xc95x_flow_array_verify_def
  proof (rule wp_bind, rule wp_scan [where I = ?I], goal_cases)
    case (1 w idx q)
    then have w: "w < xc95x_words" and q: "idx = wstart D (w - 1)" "cwords q = cwords p"
      "0 < w \<Longrightarrow> clast q = xc95x_addr (w - 1)" "\<And>u. u < w - 1 \<Longrightarrow> ?ok u" by auto
    show ?case
    proof (intro wp_bind wp_xc95x_fetch [OF w] wp_ops)
      fix o_data q1
      assume q1: "cquiet q q1" "clast q1 = xc95x_addr w" and o: "length (take D o_data) = D"
        "8 * D \<le> length (mem_after mem (cwords q) (clast q)) \<Longrightarrow>
          buf_bits (take D o_data) (8 * D) = take (8 * D) (mem_after mem (cwords q) (clast q))"
      show "wp ?dev (if w = 0 then jret (Inr idx)
            else let bitlen = xc95x_bitlen (w - 1)
              in jbind (jlift (match_word jf idx bitlen (take D o_data))) (\<lambda>same.
                   jret (if same then Inr (idx + D * bitlen) else Inl 1)))
          (\<lambda>r v. case r of Inl e \<Rightarrow> wp ?dev (case Inl e of Inl e \<Rightarrow> jret e
              | Inr idx \<Rightarrow> jbind (xc95x_fetch junk D (xc95x_words - 1)) (\<lambda>o_data.
                  jbind (jlift (match_word jf idx (xc95x_bitlen (xc95x_words - 1)) (take D o_data))) (\<lambda>same.
                    jret (if same then 0 else 1)))) ?Q v
            | Inr idx \<Rightarrow> ?I (Suc w) idx v) (dstep ?dev q1 (OpTCK 1 True))"
      proof (cases w)
        case 0
        then show ?thesis using q q1 by (auto intro!: wp_ret simp: cquiet_def)
      next
        case (Suc u)
        then have u: "u < xc95x_words" using w by simp
        have m: "match_word jf (wstart D u) (xc95x_bitlen u) (take D o_data) = Inr (?ok u)"
          using match_agree [OF assms(1,2) u o(1)] o(2) q len [OF u] Suc by simp
        show ?thesis
          using q q1 Suc u w by (auto intro!: wp_bind wp_lift [OF m] wp_ret simp: Let_def cquiet_def wstart_Suc less_Suc_eq)
      qed
    qed
  next
    case (2 idx q)
    let ?u = "xc95x_words - 1"
    have u: "?u < xc95x_words" using W by simp
    from 2 have q: "idx = wstart D ?u" "cwords q = cwords p" "clast q = xc95x_addr ?u" "\<And>u. u < ?u \<Longrightarrow> ?ok u"
      using W by auto
    have all: "(\<forall>u < xc95x_words. ?ok u) \<longleftrightarrow> ?ok ?u"
    proof (intro iffI allI impI)
      fix v assume "?ok ?u" "v < xc95x_words"
      then show "?ok v" using q(4) [of v] by (cases "v = ?u") auto
    qed (use u in blast)
    show ?case
      unfolding sum.case
    proof (intro wp_bind wp_xc95x_fetch [OF u])
      fix o_data q1
      assume q1: "cquiet q q1" and o: "length (take D o_data) = D"
        "8 * D \<le> length (mem_after mem (cwords q) (clast q)) \<Longrightarrow>
          buf_bits (take D o_data) (8 * D) = take (8 * D) (mem_after mem (cwords q) (clast q))"
      have m: "match_word jf idx (xc95x_bitlen ?u) (take D o_data) = Inr (?ok ?u)"
        using match_agree [OF assms(1,2) u o(1)] o(2) q len [OF u] by simp
      show "wp ?dev (jlift (match_word jf idx (xc95x_bitlen ?u) (take D o_data)))
          (\<lambda>same. wp ?dev (jret (if same then 0 else 1)) ?Q) q1"
        by (rule wp_lift [OF m], rule wp_ret) (use q(2) q1 all in \<open>simp add: cquiet_def\<close>)
    qed
  next
    case 3
    then show ?case by simp
  qed
qed

lemma word_bits_same:
  assumes "\<And>i. i < wstart D w + D * xc95x_bitlen w \<Longrightarrow> wstart D w \<le> i \<Longrightarrow> fuse_at jf' i = fuse_at jf i"
  shows "word_bits jf' (wstart D w) (xc95x_bitlen w) D = word_bits jf (wstart D w) (xc95x_bitlen w) D"
  unfolding word_bits_def
proof (intro map_cong refl conj_cong)
  fix k assume "k \<in> set [0..<8 * D]" "k mod 8 < xc95x_bitlen w"
  then have "word_fuse (wstart D w) (xc95x_bitlen w) k < wstart D w + D * xc95x_bitlen w"
    by (intro word_fuse_less) simp_all
  then show "fuse_at jf' (word_fuse (wstart D w) (xc95x_bitlen w) k) =
      fuse_at jf (word_fuse (wstart D w) (xc95x_bitlen w) k)"
    by (rule assms) (simp add: word_fuse_def)
qed

text \<open>Storing word \<open>u\<close> makes it agree and leaves the words before it.\<close>

lemma store_agree:
  assumes "jed_ok n jf" "108 * 108 * D \<le> n" "u < xc95x_words"
    and "length (take D o_data) = D" "buf_bits (take D o_data) (8 * D) = take (8 * D) (mem (xc95x_addr u))"
  obtains jf' where "store_word jf (wstart D u) (xc95x_bitlen u) (take D o_data) = Inr jf'" "jed_ok n jf'"
    "xc95x_agree D jf' mem u" "\<And>v. v < u \<Longrightarrow> xc95x_agree D jf' mem v = xc95x_agree D jf mem v"
    "jed_frame jf' = jed_frame jf"
proof -
  let ?ds = "take D o_data" and ?bl = "xc95x_bitlen u"
  have bound: "wstart D u + length ?ds * ?bl \<le> n"
    using wstart_bound [OF assms(3), of D] assms(2,4) by simp
  obtain jf' where jf': "store_word jf (wstart D u) ?bl ?ds = Inr jf'" "jed_ok n jf'"
    "\<And>i. i < n \<Longrightarrow> i < wstart D u \<Longrightarrow> fuse_at jf' i = fuse_at jf i"
    "same_fuses ?bl (word_bits jf' (wstart D u) ?bl D) (buf_bits ?ds (8 * D))"
    using store_word_effect [OF assms(1) bound xc95x_bitlen_le] assms(4) by auto
  have "xc95x_agree D jf' mem u"
    using jf'(4) by (auto simp: xc95x_agree_def same_fuses_def assms(5))
  moreover have "xc95x_agree D jf' mem v = xc95x_agree D jf mem v" if "v < u" for v
  proof -
    have "word_bits jf' (wstart D v) (xc95x_bitlen v) D = word_bits jf (wstart D v) (xc95x_bitlen v) D"
    proof (rule word_bits_same)
      fix i assume "i < wstart D v + D * xc95x_bitlen v"
      also have "\<dots> \<le> wstart D u" using wstart_mono [of "Suc v" u D] that by (simp add: wstart_Suc)
      finally show "fuse_at jf' i = fuse_at jf i" using bound by (intro jf'(3)) simp_all
    qed
    then show ?thesis by (simp add: xc95x_agree_def)
  qed
  ultimately show thesis using that [OF jf'(1,2)] store_word_frame [OF jf'(1)] by blast
qed

lemma wp_xc95x_read:
  assumes "jed_ok n jf" "108 * 108 * D \<le> n"
    and len: "\<And>u. u < xc95x_words \<Longrightarrow> 8 * D \<le> length (mem_after mem (cwords p) (xc95x_addr u))"
  shows "wp (cpld_dev D (cpld_answer D mem)) (xc95x_flow_array_read junk D jf)
     (\<lambda>jf' p'. jed_ok n jf' \<and> (\<forall>u < xc95x_words. xc95x_agree D jf' (mem_after mem (cwords p)) u) \<and>
        cwords p' = cwords p \<and> jed_frame jf' = jed_frame jf) p"
proof -
  let ?dev = "cpld_dev D (cpld_answer D mem)" and ?m = "mem_after mem (cwords p)"
  let ?Q = "\<lambda>jf' p'. jed_ok n jf' \<and> (\<forall>u < xc95x_words. xc95x_agree D jf' ?m u) \<and> cwords p' = cwords p \<and>
    jed_frame jf' = jed_frame jf"
  let ?I = "\<lambda>w (idx, jf') p'. idx = wstart D (w - 1) \<and> cwords p' = cwords p \<and> jed_ok n jf' \<and> jed_frame jf' = jed_frame jf \<and>
    (0 < w \<longrightarrow> clast p' = xc95x_addr (w - 1)) \<and> (\<forall>u < w - 1. xc95x_agree D jf' ?m u)"
  have W: "0 < xc95x_words" by (simp add: xc95x_words_def MaxSector_def)
  show ?thesis
    unfolding xc95x_flow_array_read_def
  proof (rule wp_bind, rule wp_fold [where I = ?I], goal_cases)
    case (1 w x q)
    obtain idx f where x: "x = (idx, f)" by (cases x)
    with 1 have w: "w < xc95x_words" and q: "idx = wstart D (w - 1)" "cwords q = cwords p" "jed_ok n f" "jed_frame f = jed_frame jf"
      "0 < w \<Longrightarrow> clast q = xc95x_addr (w - 1)" "\<And>u. u < w - 1 \<Longrightarrow> xc95x_agree D f ?m u" by auto
    show ?case
      unfolding x prod.case
    proof (intro wp_bind wp_xc95x_fetch [OF w] wp_ops)
      fix o_data q1
      assume q1: "cquiet q q1" "clast q1 = xc95x_addr w" and o: "length (take D o_data) = D"
        "8 * D \<le> length (mem_after mem (cwords q) (clast q)) \<Longrightarrow>
          buf_bits (take D o_data) (8 * D) = take (8 * D) (mem_after mem (cwords q) (clast q))"
      show "wp ?dev (if w = 0 then jret (idx, f)
            else let bitlen = xc95x_bitlen (w - 1)
              in jbind (jlift (store_word f idx bitlen (take D o_data))) (\<lambda>file. jret (idx + D * bitlen, file)))
          (?I (Suc w)) (dstep ?dev q1 (OpTCK 1 True))"
      proof (cases w)
        case 0
        then show ?thesis using q q1 by (auto intro!: wp_ret simp: cquiet_def)
      next
        case (Suc u)
        then have u: "u < xc95x_words" using w by simp
        obtain f' where f': "store_word f (wstart D u) (xc95x_bitlen u) (take D o_data) = Inr f'" "jed_ok n f'"
          "xc95x_agree D f' ?m u" "\<And>v. v < u \<Longrightarrow> xc95x_agree D f' ?m v = xc95x_agree D f ?m v" "jed_frame f' = jed_frame f"
          using store_agree [OF q(3) assms(2) u o(1), of ?m] o(2) q len [OF u] Suc by auto
        show ?thesis
          using q q1 Suc f'(2-5)
          by (auto intro!: wp_bind wp_lift [OF f'(1)] wp_ret simp: Let_def cquiet_def wstart_Suc less_Suc_eq)
      qed
    qed
  next
    case (2 x q)
    obtain idx f where x: "x = (idx, f)" by (cases x)
    let ?u = "xc95x_words - 1"
    have u: "?u < xc95x_words" using W by simp
    from 2 have q: "idx = wstart D ?u" "cwords q = cwords p" "jed_ok n f" "jed_frame f = jed_frame jf" "clast q = xc95x_addr ?u"
      "\<And>u. u < ?u \<Longrightarrow> xc95x_agree D f ?m u"
      using W x by auto
    show ?case
      unfolding x prod.case
    proof (intro wp_bind wp_xc95x_fetch [OF u])
      fix o_data q1
      assume q1: "cquiet q q1" and o: "length (take D o_data) = D"
        "8 * D \<le> length (mem_after mem (cwords q) (clast q)) \<Longrightarrow>
          buf_bits (take D o_data) (8 * D) = take (8 * D) (mem_after mem (cwords q) (clast q))"
      obtain f' where f': "store_word f idx (xc95x_bitlen ?u) (take D o_data) = Inr f'" "jed_ok n f'"
        "xc95x_agree D f' ?m ?u" "\<And>v. v < ?u \<Longrightarrow> xc95x_agree D f' ?m v = xc95x_agree D f ?m v" "jed_frame f' = jed_frame f"
        using store_agree [OF q(3) assms(2) u o(1), of ?m] o(2) q len [OF u] by auto
      have "xc95x_agree D f' ?m v" if "v < xc95x_words" for v
        using that f'(3,4) q(6) by (cases "v = ?u") auto
      then show "wp ?dev (jlift (store_word f idx (xc95x_bitlen ?u) (take D o_data))) ?Q q1"
        by (intro wp_lift [OF f'(1)]) (use q(2,4) q1 f'(2,5) in \<open>simp add: cquiet_def\<close>)
    qed
  next
    case 3
    then show ?case using assms(1) by simp
  qed
qed

section \<open>Round trip\<close>

lemma mem_after_xc95x:
  assumes "u < k"
  shows "mem_after mem (ws @ map (xc95x_image D jf) [0..<k]) (xc95x_addr u) =
     word_bits jf (wstart D u) (xc95x_bitlen u) D"
  using assms by (induction k) (auto simp: mem_after_def xc95x_image_def less_Suc_eq dest: xc95x_addr_inj)

lemma agree_image:
  "u < k \<Longrightarrow> xc95x_agree D jf (mem_after mem (ws @ map (xc95x_image D jf) [0..<k])) u"
  by (simp add: xc95x_agree_def mem_after_xc95x same_fuses_def)

text \<open>Every fuse of the part is a bit of some word.\<close>

lemma word_cover:
  assumes "i < wstart D m"
  obtains u where "u < m" "wstart D u \<le> i" "i < wstart D u + D * xc95x_bitlen u"
  using assms
proof (induction m arbitrary: thesis)
  case (Suc m)
  show ?case
  proof (cases "i < wstart D m")
    case True
    then obtain u where "u < m" "wstart D u \<le> i" "i < wstart D u + D * xc95x_bitlen u"
      using Suc.IH by blast
    then show ?thesis by (intro Suc.prems(1)) simp_all
  next
    case False
    then show ?thesis using Suc.prems(2) by (intro Suc.prems(1) [of m]) (simp_all add: wstart_Suc)
  qed
qed simp

lemma fuse_cover:
  assumes "i < 108 * 108 * D"
  obtains u k where "u < xc95x_words" "k < 8 * D" "k mod 8 < xc95x_bitlen u"
    "word_fuse (wstart D u) (xc95x_bitlen u) k = i"
proof -
  from assms have "i < wstart D xc95x_words" by (simp add: wstart_end)
  then obtain u where u: "u < xc95x_words" "wstart D u \<le> i" "i < wstart D u + D * xc95x_bitlen u"
    by (rule word_cover)
  let ?bl = "xc95x_bitlen u"
  define j where "j = i - wstart D u"
  define k where "k = 8 * (j div ?bl) + j mod ?bl"
  have bl: "0 < ?bl" "?bl \<le> 8" by (auto simp: xc95x_bitlen_def)
  have j: "j < D * ?bl" using u by (simp add: j_def)
  then have "j div ?bl < D" using bl by (simp add: div_less_iff_less_mult)
  moreover have jm: "j mod ?bl < ?bl" using bl by simp
  then have "j mod ?bl < 8" using bl(2) by linarith
  then have k: "k div 8 = j div ?bl" "k mod 8 = j mod ?bl" by (simp_all add: k_def)
  moreover have "word_fuse (wstart D u) ?bl k = i"
    unfolding word_fuse_def k using u(2) by (simp add: j_def add.assoc)
  moreover from calculation \<open>j mod ?bl < 8\<close> have "k < 8 * D" by (simp add: k_def)
  ultimately show thesis using that [OF u(1), of k] jm by simp
qed

lemma agree_same_fuses:
  assumes "\<And>u. u < xc95x_words \<Longrightarrow> xc95x_agree D jf mem u" "\<And>u. u < xc95x_words \<Longrightarrow> xc95x_agree D jf' mem u"
    and "i < 108 * 108 * D"
  shows "fuse_at jf i = fuse_at jf' i"
proof -
  obtain u k where u: "u < xc95x_words" "k < 8 * D" "k mod 8 < xc95x_bitlen u"
    "word_fuse (wstart D u) (xc95x_bitlen u) k = i"
    using assms(3) by (rule fuse_cover)
  have "word_bits jf (wstart D u) (xc95x_bitlen u) D ! k = word_bits jf' (wstart D u) (xc95x_bitlen u) D ! k"
    using assms(1,2) [OF u(1)] u(2,3) by (auto simp: xc95x_agree_def same_fuses_def)
  then show ?thesis using u by (simp add: word_bits_def)
qed

lemma wp_xc95x_ends:
  "wp (cpld_dev D ans) xc95x_enable (\<lambda>_ q. cwords q = cwords p) p"
  "wp (cpld_dev D ans) xc95x_disable (\<lambda>_ q. cwords q = cwords p) p"
  unfolding xc95x_enable_def xc95x_disable_def
  by (intro wp_seq_Cons wp_seq_Nil wp_ops, simp add: Let_def xc95x_codes)+

lemma wp_xc95x_erase: "wp (cpld_dev D ans) xc95x_erase (\<lambda>_ q. cwords q = cwords p) p"
  unfolding xc95x_erase_def xc95x_flow_erase_def xc95x_flow_blank_check_def
  by (intro wp_bind wp_seq_Cons wp_seq_Nil wp_mono [OF wp_xc95x_ends(1)] wp_captures wp_ops wp_ret)
    (simp_all add: Let_def xc95x_codes)

lemma wp_xc95x_array_verify:
  assumes "jed_ok n jf" "108 * 108 * D \<le> n"
    and len: "\<And>u. u < xc95x_words \<Longrightarrow> 8 * D \<le> length (mem_after mem (cwords p) (xc95x_addr u))"
  shows "wp (cpld_dev D (cpld_answer D mem)) (xc95x_array_verify junk D jf)
     (\<lambda>e q. e = (if \<forall>u < xc95x_words. xc95x_agree D jf (mem_after mem (cwords p)) u then 0 else 1) \<and>
        cwords q = cwords p) p"
  unfolding xc95x_array_verify_def
proof (intro wp_bind wp_mono [OF wp_xc95x_ends(1)])
  fix u and q :: cpld assume "cwords q = cwords p"
  then show "wp (cpld_dev D (cpld_answer D mem)) (xc95x_flow_array_verify junk D jf)
      (\<lambda>ret. wp (cpld_dev D (cpld_answer D mem)) (jbind xc95x_disable (\<lambda>_. jret ret))
        (\<lambda>e q. e = (if \<forall>u < xc95x_words. xc95x_agree D jf (mem_after mem (cwords p)) u then 0 else 1) \<and>
          cwords q = cwords p)) q"
    using len by (intro wp_mono [OF wp_xc95x_verify [OF assms(1,2)]] wp_bind wp_mono [OF wp_xc95x_ends(2)] wp_ret) auto
qed

lemma wp_xc95x_array_read:
  assumes "0 < D" "D \<le> 16"
    and len: "\<And>u. u < xc95x_words \<Longrightarrow> 8 * D \<le> length (mem_after mem (cwords p) (xc95x_addr u))"
  shows "wp (cpld_dev D (cpld_answer D mem)) (xc95x_array_read junk D (jed_init junk2))
     (\<lambda>jf _. jed_ok (108 * 108 * D) jf \<and> (\<forall>u < xc95x_words. xc95x_agree D jf (mem_after mem (cwords p)) u) \<and>
        jed_frame jf = (Some (nbytes (108 * 108 * D)), jversion (jed_init junk2), jdate (jed_init junk2))) p"
proof -
  obtain j0 where j0: "jed_setLength (of_nat (108 * 108 * D)) (jed_init junk2) = Inr j0" "jed_ok (108 * 108 * D) j0"
    "jed_frame j0 = (Some (nbytes (108 * 108 * D)), jversion (jed_init junk2), jdate (jed_init junk2))"
    using setLength_fresh [of "108 * 108 * D" junk2] assms(1,2) by (auto simp: jed_frame_def)
  show ?thesis
    unfolding xc95x_array_read_def
  proof (intro wp_bind wp_lift [OF j0(1)] wp_mono [OF wp_xc95x_ends(1)])
    fix u and q :: cpld assume "cwords q = cwords p"
    then show "wp (cpld_dev D (cpld_answer D mem)) (xc95x_flow_array_read junk D j0)
        (\<lambda>f. wp (cpld_dev D (cpld_answer D mem)) (jbind xc95x_disable (\<lambda>_. jret f))
          (\<lambda>jf _. jed_ok (108 * 108 * D) jf \<and> (\<forall>u < xc95x_words. xc95x_agree D jf (mem_after mem (cwords p)) u) \<and>
            jed_frame jf = (Some (nbytes (108 * 108 * D)), jversion (jed_init junk2), jdate (jed_init junk2)))) q"
      using len j0(3) by (intro wp_mono [OF wp_xc95x_read [OF j0(2) order_refl]] wp_bind wp_mono [OF wp_xc95x_ends(2)] wp_ret) auto
  qed
qed

text \<open>
  C15. Programming and reading back an XC9500XL/XV part of \<open>D\<close> bytes to a word: on a part that
  delivers the words loaded into it, when \<^verbatim>\<open>flow_array_program\<close> returns \<open>0\<close>, \<^verbatim>\<open>array_verify\<close> of the
  same file returns \<open>0\<close> and \<^verbatim>\<open>array_read\<close> fills a new file with the same fuses.
\<close>

theorem xc95x_program_roundtrip:
  assumes "D \<in> {2, 4, 8, 16}" and "jed_ok (108 * 108 * D) jf"
    and "honest (cpld_dev D (cpld_answer D mem)) (replies k)"
    and "xc95x_flow_array_program D jf k = (Inr 0, k1)"
  shows "fst (xc95x_array_verify junk D jf k1) = Inr 0 \<and>
     (\<exists>jf'. fst (xc95x_array_read junk D (jed_init junk2) k1) = Inr jf' \<and>
        (\<forall>i < 108 * 108 * D. jedec_get_fuse jf' (of_nat i) = jedec_get_fuse jf (of_nat i)))"
proof -
  let ?dev = "cpld_dev D (cpld_answer D mem)" and ?n = "108 * 108 * D"
  from wp_xc95x_program [OF assms(2) order_refl] assms(3)
  obtain e k2 where e: "xc95x_flow_array_program D jf k = (Inr e, k2)" "replies k2 = replies k"
    "\<exists>m \<le> xc95x_words. cwords (dview ?dev (hist k2)) = cwords (dview ?dev (hist k)) @ map (xc95x_image D jf) [0..<m] \<and>
        (e = 0 \<and> m = xc95x_words \<or> e = 1 \<and> \<not> says_done (cpld_answer D mem))"
    by (rule wp_run)
  have "e = 0" "k2 = k1" using e(1) assms(4) by simp_all
  with e assms(3) have k1: "honest ?dev (replies k1)" "cwords (dview ?dev (hist k1)) =
      cwords (dview ?dev (hist k)) @ map (xc95x_image D jf) [0..<xc95x_words]"
    by auto
  let ?m = "mem_after mem (cwords (dview ?dev (hist k1)))"
  have agree: "xc95x_agree D jf ?m u" if "u < xc95x_words" for u
    unfolding k1(2) by (rule agree_image [OF that])
  have len: "8 * D \<le> length (?m (xc95x_addr u))" if "u < xc95x_words" for u
    unfolding k1(2) mem_after_xc95x [OF that] by simp
  from wp_xc95x_array_verify [where junk = junk, OF assms(2) order_refl len] k1(1)
  have verify: "fst (xc95x_array_verify junk D jf k1) = Inr 0"
    by (rule wp_run) (use agree in auto)
  have D: "0 < D" "D \<le> 16" using assms(1) by auto
  from wp_xc95x_array_read [where junk = junk and ?junk2.0 = junk2, OF D len] k1(1)
  obtain jf' k3 where jf': "xc95x_array_read junk D (jed_init junk2) k1 = (Inr jf', k3)" "jed_ok ?n jf'"
    "\<And>u. u < xc95x_words \<Longrightarrow> xc95x_agree D jf' ?m u"
    by (rule wp_run) auto
  have "jedec_get_fuse jf' (of_nat i) = jedec_get_fuse jf (of_nat i)" if "i < ?n" for i
    using agree_same_fuses [OF jf'(3) agree that] fuse_at [OF assms(2) that] fuse_at [OF jf'(2) that] by simp
  with verify jf'(1) show ?thesis by simp
qed

text \<open>An executable part: it delivers the words loaded into it and answers status scans with \<open>1\<close>.\<close>

definition cpld_replies :: "nat \<Rightarrow> jop list \<Rightarrow> byte list" where
  "cpld_replies D cs =
     (if cs = [] then []
      else let p = cpld_view D (butlast cs)
           in case last cs of
                OpDR (Some tdi) True n align exit \<Rightarrow>
                  bits_bytes n (take (8 * D) (mem_after (\<lambda>_. []) (cwords p) (clast p)) @ replicate n False)
              | _ \<Rightarrow> [1])"

definition cpld_done :: "nat \<Rightarrow> cpld \<Rightarrow> jop \<Rightarrow> byte list \<Rightarrow> bool" where
  "cpld_done D p c r \<longleftrightarrow>
     cpld_answer D (\<lambda>_. []) p c r \<and> (\<forall>n > 0. c = OpDR None True n 0 True \<longrightarrow> hd (fit (nbytes n) r) AND 0x03 = 0x01)"

lemma fit_hd: "0 < n \<Longrightarrow> hd (fit n (a # r)) = a"
  by (cases n) (simp_all add: fit_def)

lemma cpld_replies_honest: "honest (cpld_dev D (cpld_done D)) (cpld_replies D)"
proof -
  have "buf_bits (fit (nbytes n) (bits_bytes n (take (8 * D) m @ replicate n False))) (8 * D) = take (8 * D) m"
    if "8 * D \<le> n" "8 * D \<le> length m" for n m
  proof -
    have "buf_bits b (8 * D) = take (8 * D) (buf_bits b n)" for b
      using that by (simp add: buf_bits_def take_map)
    then show ?thesis using that by (simp add: bits_bytes_take)
  qed
  moreover have "0 < nbytes n" if "0 < n" for n using nbytes_bound [of n] that by simp
  ultimately show ?thesis
    by (auto simp: honest_def cpld_done_def cpld_answer_def cpld_replies_def Let_def fit_hd min_absorb2
        split: jop.split bool.split option.split)
qed

lemma cpld_done: "says_done (cpld_done D)" "cpld_done D p c r \<Longrightarrow> cpld_answer D (\<lambda>_. []) p c r"
  by (auto simp: says_done_def cpld_done_def)

text \<open>A file of the right size, and a run of \<^verbatim>\<open>flow_array_program\<close> on it that succeeds.\<close>

definition example_fuses :: jed_data where
  "example_fuses = (jed_init (\<lambda>_. 0))\<lparr>fuse_count := 23328, fuse_list := Some (map of_nat [0..<2916])\<rparr>"

lemma example_fuses_ok: "jed_ok (108 * 108 * 2) example_fuses"
  by (simp add: jed_ok_def example_fuses_def nbytes_def)

lemma example_program:
  obtains k1 where "xc95x_flow_array_program 2 example_fuses \<lparr>hist = [], replies = cpld_replies 2\<rparr> = (Inr 0, k1)"
proof -
  have "honest (cpld_dev 2 (cpld_done 2)) (replies \<lparr>hist = [], replies = cpld_replies 2\<rparr>)"
    by (simp add: cpld_replies_honest)
  with wp_xc95x_program [OF example_fuses_ok order_refl] show thesis
    by (rule wp_run) (use that in \<open>auto simp: cpld_done\<close>)
qed

theorem xc95x_program_roundtrip_witness:
  "\<exists>k1. xc95x_flow_array_program 2 example_fuses \<lparr>hist = [], replies = cpld_replies 2\<rparr> = (Inr 0, k1) \<and>
     fst (xc95x_array_verify (\<lambda>_. 0) 2 example_fuses k1) = Inr 0 \<and>
     (\<exists>jf'. fst (xc95x_array_read (\<lambda>_. 0) 2 (jed_init (\<lambda>_. 0)) k1) = Inr jf' \<and>
        (\<forall>i < 23328. jedec_get_fuse jf' (of_nat i) = jedec_get_fuse example_fuses (of_nat i)))"
proof -
  obtain k1 where k1: "xc95x_flow_array_program 2 example_fuses \<lparr>hist = [], replies = cpld_replies 2\<rparr> = (Inr 0, k1)"
    by (rule example_program)
  have "honest (cpld_dev 2 (cpld_answer 2 (\<lambda>_. []))) (replies \<lparr>hist = [], replies = cpld_replies 2\<rparr>)"
    using honest_mono [OF cpld_replies_honest, of "cpld_dev 2 (cpld_answer 2 (\<lambda>_. []))" 2]
    by (simp add: cpld_dev_def cpld_done)
  from xc95x_program_roundtrip [OF _ example_fuses_ok this k1] k1 show ?thesis
    by (intro exI [of _ k1]) simp
qed

text \<open>
  C16. What \<^verbatim>\<open>flow_array_program\<close> loads into the part: the words of the file in order, each at its
  address, whatever the part answers. It returns \<open>1\<close> when the part does not report the end of a
  sector in 32 attempts, after a prefix of the words; if every status scan reports the end, it
  returns \<open>0\<close> after all of them.
\<close>

theorem xc95x_program_loads:
  assumes "jed_ok n jf" and "108 * 108 * D \<le> n"
  shows "\<exists>e k1 m. xc95x_flow_array_program D jf k = (Inr e, k1) \<and> m \<le> xc95x_words \<and>
     cwords (cpld_view D (hist k1)) = cwords (cpld_view D (hist k)) @
       map (\<lambda>w. (xc95x_addr w, word_bits jf (wstart D w) (xc95x_bitlen w) D)) [0..<m] \<and>
     (e = 0 \<and> m = xc95x_words \<or> e = 1) \<and>
     ((\<forall>h nb. 0 < nb \<longrightarrow> hd (fit (nbytes nb) (replies k (h @ [OpDR None True nb 0 True]))) AND 0x03 = 0x01) \<longrightarrow> e = 0)"
proof -
  define ans where "ans = (\<lambda>(p :: cpld) c r. \<exists>h. r = replies k (h @ [c]))"
  have "honest (cpld_dev D ans) (replies k)" by (auto simp: honest_def ans_def)
  with wp_xc95x_program [OF assms]
  obtain e k1 where e: "xc95x_flow_array_program D jf k = (Inr e, k1)"
    "\<exists>m \<le> xc95x_words. cwords (dview (cpld_dev D ans) (hist k1)) =
        cwords (dview (cpld_dev D ans) (hist k)) @ map (xc95x_image D jf) [0..<m] \<and>
        (e = 0 \<and> m = xc95x_words \<or> e = 1 \<and> \<not> says_done ans)"
    by (rule wp_run)
  moreover have "says_done ans"
    if "\<forall>h nb. 0 < nb \<longrightarrow> hd (fit (nbytes nb) (replies k (h @ [OpDR None True nb 0 True]))) AND 0x03 = 0x01"
    using that by (auto simp: says_done_def ans_def)
  ultimately show ?thesis
    unfolding cpld_dview xc95x_image_def [abs_def] by blast
qed

theorem xc95x_program_loads_witness:
  "\<exists>k1. xc95x_flow_array_program 2 example_fuses \<lparr>hist = [], replies = \<lambda>_. [1, 1, 1]\<rparr> = (Inr 0, k1) \<and>
     cwords (cpld_view 2 (hist k1)) =
       map (\<lambda>w. (xc95x_addr w, word_bits example_fuses (wstart 2 w) (xc95x_bitlen w) 2)) [0..<xc95x_words]"
proof -
  have "0 < nb \<Longrightarrow> hd (fit (nbytes nb) [1, 1, 1]) AND 0x03 = (0x01 :: byte)" for nb
    using nbytes_bound [of nb] by (cases "nbytes nb") (simp_all add: fit_def)
  then show ?thesis
    using xc95x_program_loads [OF example_fuses_ok order_refl, of "\<lparr>hist = [], replies = \<lambda>_. [1, 1, 1]\<rparr>"]
    by (auto simp: cpld_view_def cpld_init_def)
qed

section \<open>The protocol\<close>

lemma tracks_xc95x_parts:
  "l \<noteq> OpenDR \<Longrightarrow> tracks l xc95x_enable Idle"
  "l \<noteq> OpenDR \<Longrightarrow> tracks l xc95x_disable Idle"
  "l \<noteq> OpenDR \<Longrightarrow> tracks l xc95x_flow_blank_check Idle"
  "l \<noteq> OpenDR \<Longrightarrow> tracks l xc95x_flow_erase Idle"
  "l \<noteq> OpenDR \<Longrightarrow> length bs = D + 2 \<Longrightarrow> tracks l (xc95x_send pre bs D) Idle"
  "tracks Idle (xc95x_fetch junk D w) Idle"
  unfolding xc95x_enable_def xc95x_disable_def xc95x_flow_blank_check_def xc95x_flow_erase_def xc95x_send_def xc95x_fetch_def
  by (auto intro!: tracks_intro simp: xc95x_tail_def simp del: jseq.simps)

lemma pack_word_length: "pack_word jf idx bl D = Inr ds \<Longrightarrow> length ds = D"
  by (induction D arbitrary: idx ds) (auto simp: rbind_Inr_iff)

lemma length_tail [simp]: "length (xc95x_tail w) = 2"
  by (simp add: xc95x_tail_def)

lemma tracks_xc95x_program_word:
  assumes "l \<noteq> OpenDR"
  shows "tracks l (xc95x_program_word D jf w idx) Idle"
proof -
  have wait: "tracks Idle (jloop 0 32 (xc95x_wait bs D)) Idle" if "length bs = D + 2" for bs
    unfolding xc95x_wait_def using that
    by (auto intro!: tracks_intro tracks_xc95x_parts simp del: jseq.simps)
  have send: "tracks l (jseq [jUsleep 1000, xc95x_send pre (d @ xc95x_tail w) D, m]) Idle"
    if "length d = D" "tracks Idle m Idle" for pre d m
    using that assms by (intro tracks_seq_Cons [OF tracks_ops(10)] tracks_seq_Cons [OF tracks_xc95x_parts(5)]
        tracks_seq_Cons [OF that(2)] tracks_seq_Nil) simp_all
  show ?thesis
    unfolding xc95x_program_word_def Let_def
  proof (intro tracks_bind_lift tracks_bind [OF send] tracks_if tracks_bind [OF wait] tracks_ret)
  qed (auto dest: pack_word_length intro: tracks_ops)
qed

lemma obeys_xc95x_erase: "l \<noteq> OpenDR \<Longrightarrow> obeys l xc95x_erase" "l \<noteq> OpenDR \<Longrightarrow> obeys l xc95x_blank_check"
  unfolding xc95x_erase_def xc95x_blank_check_def
  by (auto intro!: tracks_intro tracks_xc95x_parts obeys_tracks [OF tracks_xc95x_parts(3)] simp del: jseq.simps)

lemma obeys_xc95x_program:
  assumes "l \<noteq> OpenDR"
  shows "obeys l (xc95x_array_program D jf)"
proof -
  have "tracks l (jscan 0 (Suc n) (xc95x_program_word D jf) 0) Idle" for n
    by (auto intro!: tracks_intro tracks_xc95x_program_word simp: assms)
  moreover have "xc95x_words = Suc (xc95x_words - 1)" by (simp add: xc95x_words_def MaxSector_def)
  ultimately have "tracks l (jscan 0 xc95x_words (xc95x_program_word D jf) 0) Idle" by metis
  then show ?thesis
    unfolding xc95x_array_program_def xc95x_flow_array_program_def by (auto intro!: tracks_intro)
qed

lemma obeys_xc95x_verify: "l \<noteq> OpenDR \<Longrightarrow> obeys l (xc95x_array_verify junk D jf)"
  unfolding xc95x_array_verify_def xc95x_flow_array_verify_def
  by (auto intro!: tracks_intro tracks_xc95x_parts simp: Let_def)

lemma obeys_xc95x_read: "l \<noteq> OpenDR \<Longrightarrow> obeys l (xc95x_array_read junk D jf)"
  unfolding xc95x_array_read_def xc95x_flow_array_read_def
  by (auto intro!: tracks_intro tracks_xc95x_parts simp: Let_def)

end
