(* ===== verification/ProgXC2C.thy ===== *)
theory ProgXC2C
  imports JtagSpec BitFileProps
begin

text \<open>
  \<^verbatim>\<open>progalgxc2c.cpp\<close>: erasing, programming, reading and verifying CoolRunner-II parts, row by row.
  The class does not derive from \<^verbatim>\<open>ProgAlg\<close>. \<open>junk\<close> is what the uninitialised \<^verbatim>\<open>i_data\<close> holds.
\<close>

definition XC2C_ISC_ENABLE_OTF :: byte where "XC2C_ISC_ENABLE_OTF = 0xe4"
definition XC2C_ISC_ERASE :: byte where "XC2C_ISC_ERASE = 0xed"
definition XC2C_ISC_PROGRAM :: byte where "XC2C_ISC_PROGRAM = 0xea"
definition XC2C_ISC_READ :: byte where "XC2C_ISC_READ = 0xee"
definition XC2C_ISC_INIT :: byte where "XC2C_ISC_INIT = 0xf0"
definition XC2C_ISC_DISABLE :: byte where "XC2C_ISC_DISABLE = 0xc0"
definition XC2C_BYPASS :: byte where "XC2C_BYPASS = 0xff"

lemmas xc2c_codes = XC2C_ISC_ENABLE_OTF_def XC2C_ISC_ERASE_def XC2C_ISC_PROGRAM_def XC2C_ISC_READ_def
  XC2C_ISC_INIT_def XC2C_ISC_DISABLE_def XC2C_BYPASS_def

section \<open>Gray codes\<close>

text \<open>The loops over \<open>j\<close> from 6 down to 0, with the byte \<open>c\<close> that they fill.\<close>

definition gray_edge :: "nat \<Rightarrow> nat \<Rightarrow> bool" where
  "gray_edge i j \<longleftrightarrow> \<not> bit i j \<and> bit i (j + 1) \<or> bit i j \<and> \<not> bit i (j + 1)"

fun rev_gray_loop :: "nat \<Rightarrow> nat \<Rightarrow> byte \<Rightarrow> byte" where
  "rev_gray_loop i 0 c = c"
| "rev_gray_loop i (Suc j) c = rev_gray_loop i j (if gray_edge i j then c OR push_bit (7 - j) 1 else c)"

definition reverse_gray_code_table :: "byte list" where
  "reverse_gray_code_table = map (\<lambda>i. rev_gray_loop i 7 (if bit i 7 then 1 else 0)) [0..<256]"

fun gray_loop :: "nat \<Rightarrow> nat \<Rightarrow> byte \<Rightarrow> byte" where
  "gray_loop i 0 c = c"
| "gray_loop i (Suc j) c = gray_loop i j (if gray_edge i j then c OR push_bit j 1 else c)"

definition gray_code_table :: "byte list" where
  "gray_code_table = map (\<lambda>i. gray_loop i 7 (if bit i 7 then 0x80 else 0)) [0..<256]"

section \<open>The class\<close>

record xc2c =
  rowbits :: nat
  rows :: nat
  post :: nat

text \<open>The fields are \<^verbatim>\<open>block_size\<close>, \<^verbatim>\<open>block_num\<close> and \<^verbatim>\<open>post\<close>.\<close>

definition xc2c_init :: "int \<Rightarrow> xc2c res" where
  "xc2c_init size_ind =
     (let x = (\<lambda>bs bn p. Inr \<lparr>rowbits = bs, rows = bn, post = p\<rparr>)
      in if size_ind = 0x01 then x 260 48 6
         else if size_ind = 0x05 then x 274 96 7
         else if size_ind = 0x18 then x 752 80 7
         else if size_ind = 0x14 then x 1364 96 7
         else if size_ind = 0x15 then x 1868 120 7
         else if size_ind = 0x17 then x 1980 160 8
         else Inl (Exit 5))"

definition xc2c_MAXSIZE :: nat where "xc2c_MAXSIZE = 256"

text \<open>\<^verbatim>\<open>a_data[0] = reverse_gray_code_table[i]>>(8-post)\<close>.\<close>

definition row_addr :: "xc2c \<Rightarrow> nat \<Rightarrow> byte" where
  "row_addr x i = drop_bit (8 - post x) (reverse_gray_code_table ! i)"

definition xc2c_flow_enable_highz :: "unit jm" where
  "xc2c_flow_enable_highz = jseq [jshiftIR [XC2C_ISC_ENABLE_OTF], jcycleTCK 1]"

definition xc2c_flow_disable :: "unit jm" where
  "xc2c_flow_disable = jseq [jshiftIR [XC2C_ISC_DISABLE], jcycleTCK 1, jUsleep 100]"

definition xc2c_flow_reinit :: "unit jm" where
  "xc2c_flow_reinit =
     jseq [jshiftIR [XC2C_ISC_INIT], jcycleTCK 1, jUsleep 20, jshiftIR [XC2C_ISC_INIT], jcycleTCK 1, jUsleep 100]"

definition xc2c_erase :: "unit jm" where
  "xc2c_erase =
     jseq [jshiftIR [XC2C_ISC_ENABLE_OTF], jshiftIR [XC2C_ISC_ERASE], jUsleep 100000, jshiftIR [XC2C_ISC_DISABLE]]"

text \<open>A row and the address of the next, in one scan of two calls; the second captures a \<^verbatim>\<open>preamble\<close>.\<close>

definition xc2c_fetch :: "xc2c \<Rightarrow> nat \<Rightarrow> byte list jm" where
  "xc2c_fetch x i =
     jbind (jcaptureDR None (rowbits x) False) (\<lambda>o_data.
     jbind (jcaptureDR (Some [row_addr x i]) (post x) True) (\<lambda>_. jret o_data))"

text \<open>The bytes \<open>j\<close> of a row that the check covers: \<^verbatim>\<open>j*8 < block_size-8\<close>.\<close>

definition blank_row :: "xc2c \<Rightarrow> byte list \<Rightarrow> bool" where
  "blank_row x o_data \<longleftrightarrow>
     (let o_data = (if rowbits x mod 8 = 0 then o_data
           else o_data[rowbits x div 8 := fold (\<lambda>j b. b OR push_bit (7 - j) 1) [0..<rowbits x mod 8] (o_data ! (rowbits x div 8))])
      in list_all (\<lambda>j. o_data ! j = 0xff) (filter (\<lambda>j. j * 8 + 8 < rowbits x) [0..<rowbits x]))"

definition xc2c_blank_check :: "xc2c \<Rightarrow> int jm" where
  "xc2c_blank_check x =
     jbind (jcaptureIR [XC2C_BYPASS]) (\<lambda>_.
     jbind (jseq [jshiftIR [XC2C_ISC_ENABLE_OTF], jshiftIR [XC2C_ISC_READ], jshiftDR [row_addr x 0] (post x) True]) (\<lambda>_.
     jbind (jloop 1 (rows x) (\<lambda>i.
       jbind (jcycleTCK 20) (\<lambda>_.
       jbind (xc2c_fetch x i) (\<lambda>o_data. jret (if blank_row x o_data then None else Some 1))))) (\<lambda>r.
     case r of Some e \<Rightarrow> jret e | None \<Rightarrow> jbind (jshiftIR [XC2C_ISC_DISABLE]) (\<lambda>_. jret 0))))"

section \<open>Programming\<close>

text \<open>Bits \<open>k\<close> and following of the file are put into the row buffer from bit \<open>j\<close> on.\<close>

fun pack_row :: "bitfile \<Rightarrow> nat \<Rightarrow> nat \<Rightarrow> nat \<Rightarrow> byte list \<Rightarrow> byte list res" where
  "pack_row bf k j 0 d = Inr d"
| "pack_row bf k j (Suc n) d =
     rbind (get_bit_bf k bf) (\<lambda>b.
     rbind (buf_get d (j div 8)) (\<lambda>c.
     rbind (buf_set d (j div 8) (put_bit c (j mod 8) b)) (\<lambda>d.
       pack_row bf (k + 1) (j + 1) n d)))"

definition xc2c_write_row :: "xc2c \<Rightarrow> byte list \<Rightarrow> nat \<Rightarrow> unit jm" where
  "xc2c_write_row x i_data i =
     jbind (jshiftDR i_data (rowbits x) False) (\<lambda>_.
     jbind (jcaptureDR (Some [row_addr x i]) (post x) True) (\<lambda>_.
       jUsleep 10000))"

definition xc2c_array_program :: "(nat \<Rightarrow> byte) \<Rightarrow> xc2c \<Rightarrow> bitfile \<Rightarrow> unit jm" where
  "xc2c_array_program junk x bf =
     (let i_data = map junk [0..<xc2c_MAXSIZE]
      in jbind (jcaptureIR [XC2C_ISC_ENABLE_OTF]) (\<lambda>_.
         jbind (jcaptureIR [XC2C_ISC_PROGRAM]) (\<lambda>_.
         jbind (jshiftDR i_data (post x) True) (\<lambda>_.
         jbind (jlift (pack_row bf 0 0 (rowbits x) i_data)) (\<lambda>i_data.
         jbind (xc2c_write_row x i_data 0) (\<lambda>_.
         jbind (jfold 1 (rows x - 1) (\<lambda>i (k, i_data).
           jbind (jlift (pack_row bf k 0 (rowbits x) i_data)) (\<lambda>i_data.
           jbind (xc2c_write_row x i_data i) (\<lambda>_.
             jret (k + rowbits x, i_data)))) (rowbits x, i_data)) (\<lambda>_.
         jbind (jcaptureIR [XC2C_ISC_DISABLE]) (\<lambda>_. jret ()))))))))"

definition xc2c_done_program :: "xc2c \<Rightarrow> unit jm" where
  "xc2c_done_program x =
     (let i_data = replicate xc2c_MAXSIZE 0;
          done_data = i_data[0 := if rowbits x = 274 then 0xf7 else 0xfb, 1 := 0x0f]
      in jbind (jshiftIR [XC2C_ISC_ENABLE_OTF]) (\<lambda>_.
         jbind (jcaptureIR [XC2C_ISC_PROGRAM]) (\<lambda>_.
         jbind (jseq [jshiftDR i_data (rowbits x - 12) False, jshiftDR done_data 12 False]) (\<lambda>_.
         jbind (jcaptureDR (Some [row_addr x (rows x)]) (post x) True) (\<lambda>_.
         jbind (jUsleep 10000) (\<lambda>_.
         jbind (jcaptureIR [XC2C_ISC_DISABLE]) (\<lambda>_.
           jseq [jshiftIR [XC2C_ISC_ENABLE_OTF], jshiftIR [XC2C_ISC_INIT], jUsleep 20, jshiftIR [XC2C_ISC_INIT],
                 jshiftDR done_data 8 False, jUsleep 800, jshiftIR [XC2C_ISC_DISABLE], jshiftIR [XC2C_BYPASS]])))))))"

section \<open>Verifying and reading\<close>

text \<open>Comparing a row with the bits \<open>k\<close> and following; a mismatch leaves both loops.\<close>

fun match_row :: "bitfile \<Rightarrow> nat \<Rightarrow> nat \<Rightarrow> nat \<Rightarrow> byte list \<Rightarrow> bool res" where
  "match_row bf k j 0 d = Inr True"
| "match_row bf k j (Suc n) d =
     rbind (get_bit_bf k bf) (\<lambda>b.
     rbind (buf_get d (j div 8)) (\<lambda>c.
       if b \<noteq> bit c (j mod 8) then Inr False else match_row bf (k + 1) (j + 1) n d))"

definition xc2c_array_verify :: "xc2c \<Rightarrow> bitfile \<Rightarrow> int jm" where
  "xc2c_array_verify x bf =
     jbind (jcaptureIR [XC2C_BYPASS]) (\<lambda>_.
     jbind (jcaptureIR [XC2C_ISC_ENABLE_OTF]) (\<lambda>_.
     jbind (jcaptureIR [XC2C_ISC_READ]) (\<lambda>_.
     jbind (jshiftDR [row_addr x 0] (post x) True) (\<lambda>_.
     jbind (jscan 1 (rows x) (\<lambda>i k.
       jbind (jUsleep 20) (\<lambda>_.
       jbind (xc2c_fetch x i) (\<lambda>o_data.
       jbind (jlift (match_row bf k 0 (rowbits x) o_data)) (\<lambda>same.
         jret (if same then Inr (k + rowbits x) else Inl 1))))) 0) (\<lambda>r.
     jbind (jcaptureIR [XC2C_ISC_DISABLE]) (\<lambda>_.
       jret (case r of Inl res \<Rightarrow> res | Inr _ \<Rightarrow> 0)))))))"

fun store_row :: "bitfile \<Rightarrow> nat \<Rightarrow> nat \<Rightarrow> nat \<Rightarrow> byte list \<Rightarrow> bitfile res" where
  "store_row bf k j 0 d = Inr bf"
| "store_row bf k j (Suc n) d =
     rbind (buf_get d (j div 8)) (\<lambda>c.
     rbind (set_bit_bf k (bit c (j mod 8)) bf) (\<lambda>bf.
       store_row bf (k + 1) (j + 1) n d))"

definition xc2c_array_read :: "xc2c \<Rightarrow> bitfile \<Rightarrow> bitfile jm" where
  "xc2c_array_read x rbfile =
     (let rbfile = setLength (rows x * rowbits x) rbfile
      in jbind (jcaptureIR [XC2C_BYPASS]) (\<lambda>_.
         jbind (jcaptureIR [XC2C_ISC_ENABLE_OTF]) (\<lambda>_.
         jbind (jcaptureIR [XC2C_ISC_READ]) (\<lambda>_.
         jbind (jseq [jshiftDR [row_addr x 0] (post x) True, jUsleep 20]) (\<lambda>_.
         jbind (jfold 1 (rows x) (\<lambda>i (k, bf).
           jbind (xc2c_fetch x i) (\<lambda>o_data.
           jbind (jUsleep 20) (\<lambda>_.
           jbind (jlift (store_row bf k 0 (rowbits x) o_data)) (\<lambda>bf.
             jret (k + rowbits x, bf))))) (0, rbfile)) (\<lambda>(k, bf).
         jbind (jshiftIR [XC2C_ISC_DISABLE]) (\<lambda>_. jret bf)))))))"

end
