(* ===== verification/XC2CRows.thy ===== *)
theory XC2CRows
  imports ProgXC2C BitRev
begin

text \<open>
  The rows of a CoolRunner-II part: their addresses in reversed Gray code, and what packing,
  comparing and storing a row does to the bits of the file.
\<close>

section \<open>Row addresses\<close>

lemma gray_edge: "gray_edge i j \<longleftrightarrow> bit i j \<noteq> bit i (j + 1)"
  by (auto simp: gray_edge_def)

lemma bit_rev_gray_loop:
  "k \<le> 7 \<Longrightarrow> j < 8 \<Longrightarrow> bit (rev_gray_loop i k c) j \<longleftrightarrow> bit c j \<or> (\<exists>n < k. j = 7 - n \<and> gray_edge i n)"
proof (induction k arbitrary: c)
  case (Suc k)
  have "bit (if gray_edge i k then c OR push_bit (7 - k) 1 else c) j \<longleftrightarrow> bit c j \<or> gray_edge i k \<and> j = 7 - k"
    using Suc.prems by (auto simp: bit_simps)
  then show ?case using Suc by (auto simp: less_Suc_eq)
qed simp

lemma bit_gray_loop:
  "k \<le> 7 \<Longrightarrow> j < 8 \<Longrightarrow> bit (gray_loop i k c) j \<longleftrightarrow> bit c j \<or> j < k \<and> gray_edge i j"
proof (induction k arbitrary: c)
  case (Suc k)
  have "bit (if gray_edge i k then c OR push_bit k 1 else c) j \<longleftrightarrow> bit c j \<or> gray_edge i k \<and> j = k"
    using Suc.prems by (auto simp: bit_simps)
  then show ?case using Suc by (auto simp: less_Suc_eq)
qed simp

lemma bit_gray_edge_7: "i < 256 \<Longrightarrow> bit i 7 = gray_edge i 7" for i :: nat
proof -
  assume "i < 256"
  then have "\<not> bit i 8" by (simp add: bit_iff_odd)
  then show ?thesis by (simp add: gray_edge)
qed

lemma reverse_gray_bits:
  assumes "i < 256" "j < 8"
  shows "bit (reverse_gray_code_table ! i) j = gray_edge i (7 - j)"
proof -
  have "bit (if bit i 7 then 1 else 0 :: byte) j \<longleftrightarrow> gray_edge i 7 \<and> j = 0"
    using bit_gray_edge_7 [OF assms(1)] by (auto simp: bit_simps)
  moreover have "(\<exists>n < 7. j = 7 - n \<and> gray_edge i n) \<longleftrightarrow> j \<noteq> 0 \<and> gray_edge i (7 - j)"
  proof
    assume "j \<noteq> 0 \<and> gray_edge i (7 - j)"
    then show "\<exists>n < 7. j = 7 - n \<and> gray_edge i n" using assms(2) by (intro exI [of _ "7 - j"]) auto
  next
    assume "\<exists>n < 7. j = 7 - n \<and> gray_edge i n"
    then obtain n where "n < 7" "j = 7 - n" "gray_edge i n" by blast
    moreover from this have "7 - j = n" by simp
    ultimately show "j \<noteq> 0 \<and> gray_edge i (7 - j)" by simp
  qed
  ultimately show ?thesis
    using assms by (auto simp: reverse_gray_code_table_def bit_rev_gray_loop simp del: upt_rec_numeral upt_Suc)
qed

lemma gray_bits:
  assumes "i < 256" "j < 8"
  shows "bit (gray_code_table ! i) j = gray_edge i j"
proof -
  have "bit (if bit i 7 then 0x80 else 0 :: byte) j \<longleftrightarrow> gray_edge i 7 \<and> j = 7"
    using bit_gray_edge_7 [OF assms(1)] push_bit_of_1 [of 7, where ?'a = byte] by (auto simp: bit_exp_iff [of 7, simplified])
  moreover have "j = 7 \<or> j < 7" using assms(2) by auto
  ultimately show ?thesis
    using assms by (auto simp: gray_code_table_def bit_gray_loop simp del: upt_rec_numeral upt_Suc)
qed

text \<open>The number of a row as the part sees it.\<close>

definition xc2c_row :: "xc2c \<Rightarrow> nat \<Rightarrow> nat" where
  "xc2c_row x i = bits_nat (buf_bits [row_addr x i] (post x))"

definition xc2c_ok :: "xc2c \<Rightarrow> bool" where
  "xc2c_ok x \<longleftrightarrow> 0 < rows x \<and> rows x < 2 ^ post x \<and> 0 < post x \<and> post x \<le> 8 \<and>
     12 < rowbits x \<and> rowbits x \<le> 8 * xc2c_MAXSIZE"

lemma xc2c_init_ok: "xc2c_init si = Inr x \<Longrightarrow> xc2c_ok x"
  by (auto simp: xc2c_init_def Let_def xc2c_ok_def xc2c_MAXSIZE_def split: if_splits)

lemma row_addr_bits:
  assumes "i < 256" "p \<le> 8" "k < p" "post x = p"
  shows "bit (row_addr x i) k = gray_edge i (p - 1 - k)"
proof -
  have "7 - (8 - p + k) = p - 1 - k" using assms(2,3) by simp
  then show ?thesis
    using assms reverse_gray_bits [OF assms(1), of "8 - p + k"] by (simp add: row_addr_def bit_drop_bit_eq)
qed

lemma bits_nat_inj: "length as = length bs \<Longrightarrow> bits_nat as = bits_nat bs \<Longrightarrow> as = bs"
proof (induction as bs rule: list_induct2)
  case (Cons a as b bs)
  then show ?case by (cases a; cases b; simp add: bits_nat_def; presburger)
qed simp

lemma gray_inj:
  assumes "i < 2 ^ p" "k < 2 ^ p" "\<And>j. j < p \<Longrightarrow> gray_edge i j = gray_edge k j"
  shows "i = k"
proof -
  have top: "\<not> bit m n" if "m < 2 ^ p" "p \<le> n" for m n :: nat
    using that by (metis bit_take_bit_iff linorder_not_less take_bit_nat_eq_self)
  have "bit i (p - d) = bit k (p - d)" if "d \<le> p" for d
    using that
  proof (induction d)
    case 0
    then show ?case using top assms(1,2) by simp
  next
    case (Suc d)
    then have s: "p - d = Suc (p - Suc d)" by simp
    then have "bit i (Suc (p - Suc d)) = bit k (Suc (p - Suc d))" using Suc by simp
    moreover have "gray_edge i (p - Suc d) = gray_edge k (p - Suc d)" using Suc.prems by (intro assms(3)) simp
    ultimately show ?case by (auto simp: gray_edge)
  qed
  from this [of "p - n" for n] have "bit i n = bit k n" for n
    using top assms(1,2) by (cases "n \<le> p") (metis diff_diff_cancel diff_le_self, simp)
  then show ?thesis by (simp add: bit_eq_iff)
qed

lemma xc2c_row_inj:
  assumes "xc2c_ok x" "i \<le> rows x" "k \<le> rows x" "xc2c_row x i = xc2c_row x k"
  shows "i = k"
proof -
  let ?p = "post x"
  have p: "?p \<le> 8" "i < 2 ^ ?p" "k < 2 ^ ?p" using assms(1-3) by (auto simp: xc2c_ok_def)
  have "(2 :: nat) ^ ?p \<le> 2 ^ 8" using p(1) by (intro power_increasing) simp_all
  then have l: "i < 256" "k < 256" using p(2,3) by simp_all
  have "buf_bits [row_addr x i] ?p = buf_bits [row_addr x k] ?p"
    using assms(4) by (intro bits_nat_inj) (simp_all add: xc2c_row_def)
  then have b: "bit (row_addr x i) j = bit (row_addr x k) j" if "j < ?p" for j
    using that p(1) nth_buf_bits [of j ?p] by (simp add: list_eq_iff_nth_eq buf_bit_def)
  have "gray_edge i j = gray_edge k j" if "j < ?p" for j
    using b [of "?p - 1 - j"] row_addr_bits [OF l(1) p(1) _ refl, of "?p - 1 - j"]
      row_addr_bits [OF l(2) p(1) _ refl, of "?p - 1 - j"] that by simp
  then show ?thesis using gray_inj [OF p(2,3)] by blast
qed

section \<open>Rows and bit files\<close>

text \<open>A file that has at least \<open>n\<close> bits.\<close>

definition bf_ok :: "nat \<Rightarrow> bitfile \<Rightarrow> bool" where
  "bf_ok n bf \<longleftrightarrow> n \<le> 8 * blength bf \<and> blength bf \<le> length (buffer bf)"

lemma bf_ok_byte: "bf_ok n bf \<Longrightarrow> k < n \<Longrightarrow> k div 8 < blength bf"
  by (auto simp: bf_ok_def)

lemma get_bit_ok: "bf_ok n bf \<Longrightarrow> k < n \<Longrightarrow> get_bit_bf k bf = Inr (buf_bit (buffer bf) k)"
  using bf_ok_byte [of n bf k] by (simp add: bf_ok_def get_bit_bf_def buf_get_in buf_bit_def Let_def)

lemma pack_row_effect:
  assumes "bf_ok N bf" "k + n \<le> N" "j + n \<le> 8 * length d"
  shows "\<exists>d'. pack_row bf k j n d = Inr d' \<and> length d' = length d \<and>
     (\<forall>i. buf_bit d' i = (if j \<le> i \<and> i < j + n then buf_bit (buffer bf) (k + (i - j)) else buf_bit d i))"
  using assms(2,3)
proof (induction n arbitrary: k j d)
  case (Suc n)
  let ?d = "buf_put d j (buf_bit (buffer bf) k)"
  have j: "j div 8 < length d" using Suc.prems(2) by auto
  obtain d' where d': "pack_row bf (k + 1) (j + 1) n ?d = Inr d'" "length d' = length ?d"
    "\<And>i. buf_bit d' i = (if j + 1 \<le> i \<and> i < j + 1 + n then buf_bit (buffer bf) (k + 1 + (i - (j + 1))) else buf_bit ?d i)"
    using Suc.IH [of "k + 1" "j + 1" ?d] Suc.prems by auto
  have "pack_row bf k j (Suc n) d = Inr d'"
    using d'(1) get_bit_ok [OF assms(1), of k] Suc.prems(1) j by (simp add: buf_get_in buf_set_in buf_put_def)
  moreover have "buf_bit d' i = (if j \<le> i \<and> i < j + Suc n then buf_bit (buffer bf) (k + (i - j)) else buf_bit d i)" for i
    unfolding d'(3) using buf_bit_put [OF j] by (auto simp: Suc_diff_Suc)
  ultimately show ?case using d'(2) by auto
qed auto

lemma match_row_iff:
  assumes "bf_ok N bf" "k + n \<le> N" "j + n \<le> 8 * length d"
  shows "match_row bf k j n d = Inr (\<forall>i < n. buf_bit (buffer bf) (k + i) = buf_bit d (j + i))"
  using assms(2,3)
proof (induction n arbitrary: k j)
  case (Suc n)
  have j: "j div 8 < length d" using Suc.prems(2) by auto
  have "(\<forall>i < Suc n. buf_bit (buffer bf) (k + i) = buf_bit d (j + i)) \<longleftrightarrow>
      buf_bit (buffer bf) k = buf_bit d j \<and> (\<forall>i < n. buf_bit (buffer bf) (k + 1 + i) = buf_bit d (j + 1 + i))"
    by (auto simp: less_Suc_eq_0_disj)
  then show ?case
    using Suc.IH [of "k + 1" "j + 1"] Suc.prems get_bit_ok [OF assms(1), of k] j
    by (simp add: buf_get_in buf_bit_def [of d])
qed simp

lemma store_row_effect:
  assumes "bf_ok N bf" "k + n \<le> N" "j + n \<le> 8 * length d"
  shows "\<exists>bf'. store_row bf k j n d = Inr bf' \<and> bf_ok N bf' \<and>
     (\<forall>i. buf_bit (buffer bf') i = (if k \<le> i \<and> i < k + n then buf_bit d (j + (i - k)) else buf_bit (buffer bf) i))"
  using assms
proof (induction n arbitrary: k j bf)
  case (Suc n)
  let ?bf = "bf\<lparr>buffer := buf_put (buffer bf) k (buf_bit d j)\<rparr>"
  have j: "j div 8 < length d" using Suc.prems(3) by auto
  have k: "k div 8 < blength bf" using bf_ok_byte [OF Suc.prems(1), of k] Suc.prems(2) by simp
  have len: "blength bf \<le> length (buffer bf)" using Suc.prems(1) by (simp add: bf_ok_def)
  have "bf_ok N ?bf" using Suc.prems(1) by (simp add: bf_ok_def)
  then obtain bf' where bf': "store_row ?bf (k + 1) (j + 1) n d = Inr bf'" "bf_ok N bf'"
    "\<And>i. buf_bit (buffer bf') i =
        (if k + 1 \<le> i \<and> i < k + 1 + n then buf_bit d (j + 1 + (i - (k + 1))) else buf_bit (buffer ?bf) i)"
    using Suc.IH [of ?bf "k + 1" "j + 1"] Suc.prems by auto
  have "store_row bf k j (Suc n) d = Inr bf'"
    using bf'(1) set_bit_effect(1) [OF len k, of "buf_bit d j"] j by (simp add: buf_get_in buf_bit_def [of d])
  moreover have "buf_bit (buffer bf') i = (if k \<le> i \<and> i < k + Suc n then buf_bit d (j + (i - k)) else buf_bit (buffer bf) i)" for i
    unfolding bf'(3) using buf_bit_put [of k "buffer bf"] k len by (auto simp: Suc_diff_Suc)
  ultimately show ?case using bf'(2) by auto
qed auto

section \<open>The Gray code tables\<close>

lemma length_gray_tables [simp]: "length gray_code_table = 256" "length reverse_gray_code_table = 256"
  by (simp_all add: gray_code_table_def reverse_gray_code_table_def del: upt_rec_numeral upt_Suc)

lemma byte_edges_inj:
  assumes "i < 256" "k < 256" "\<And>j. j < 8 \<Longrightarrow> gray_edge i j = gray_edge k j"
  shows "i = k"
  using assms by (intro gray_inj [of i 8 k]) simp_all

lemma gray_entry:
  assumes i: "i < 256"
  shows "unat (gray_code_table ! i) = i XOR drop_bit 1 i" "reverse_gray_code_table ! i = bitRev (gray_code_table ! i)"
proof -
  show "unat (gray_code_table ! i) = i XOR drop_bit 1 i"
  proof (rule bit_eqI)
    fix j
    have "bit i j \<Longrightarrow> j < 8" for j using i bit_take_bit_iff [of 8 i j] by (simp add: take_bit_nat_eq_self)
    then have "bit i j \<noteq> bit i (Suc j) \<Longrightarrow> j < 8" by (metis Suc_lessD)
    then show "bit (unat (gray_code_table ! i)) j = bit (i XOR drop_bit 1 i) j"
      using gray_bits [OF i, of j]
      by (cases "j < 8") (auto simp: bit_unsigned_iff bit_xor_iff bit_drop_bit_eq gray_edge dest: bit_imp_le_length)
  qed
  show "reverse_gray_code_table ! i = bitRev (gray_code_table ! i)"
    using i by (simp add: byte_eq_iff bit_bitRev reverse_gray_bits gray_bits)
qed

text \<open>
  The table of row addresses is the bit reversal of the second table, which holds the Gray
  code \<open>i XOR (i >> 1)\<close>; no two entries of a table are equal.\<close>

theorem gray_tables:
  "map unat gray_code_table = map (\<lambda>i. i XOR drop_bit 1 i) [0..<256] \<and>
   reverse_gray_code_table = map bitRev gray_code_table \<and>
   distinct gray_code_table \<and> distinct reverse_gray_code_table"
proof (intro conjI)
  show "map unat gray_code_table = map (\<lambda>i. i XOR drop_bit 1 i) [0..<256]"
    by (simp add: list_eq_iff_nth_eq gray_entry del: upt_rec_numeral upt_Suc)
  show "reverse_gray_code_table = map bitRev gray_code_table"
    by (simp add: list_eq_iff_nth_eq gray_entry)
  show "distinct gray_code_table"
    by (auto simp: distinct_conv_nth byte_eq_iff gray_bits dest: byte_edges_inj)
  show "distinct reverse_gray_code_table"
  proof (clarsimp simp: distinct_conv_nth)
    fix i k assume ik: "i < 256" "k < 256" "i \<noteq> k" "reverse_gray_code_table ! i = reverse_gray_code_table ! k"
    have "gray_edge i j = gray_edge k j" if "j < 8" for j
      using reverse_gray_bits [OF ik(1), of "7 - j"] reverse_gray_bits [OF ik(2), of "7 - j"] ik(4) that by simp
    then show False using byte_edges_inj [OF ik(1,2)] ik(3) by simp
  qed
qed

end
