(* ===== verification/XC2CProps.thy ===== *)
theory XC2CProps
  imports XC2CRows ProgAlg
begin

text \<open>
  What \<^verbatim>\<open>ProgAlgXC2C\<close> does to the part. The view of the part follows the instruction register, the
  scan in progress, the rows that complete scans under \<open>ISC_PROGRAM\<close> have loaded, and the address
  that the last scan under \<open>ISC_READ\<close> left, whose row the next such scan delivers.
\<close>

record coolr =
  kir :: byte
  kopen :: bool
  kreg :: "bool list"
  kwrites :: "(nat \<times> bool list) list"
  klast :: nat

definition last_bits :: "nat \<Rightarrow> bool list \<Rightarrow> nat" where
  "last_bits n reg = bits_nat (drop (length reg - n) reg)"

fun coolr_step :: "xc2c \<Rightarrow> coolr \<Rightarrow> jop \<Rightarrow> coolr" where
  "coolr_step x p (OpIR tdi want) = p\<lparr>kir := hd tdi, kopen := False\<rparr>"
| "coolr_step x p (OpDR tdi want n align exit) =
     (let reg = (if kopen p then kreg p else []) @ scan_in tdi n
      in p\<lparr>kopen := \<not> exit, kreg := reg,
           kwrites := (if exit \<and> kir p = XC2C_ISC_PROGRAM \<and> length reg = rowbits x + post x
                       then kwrites p @ [(last_bits (post x) reg, take (rowbits x) reg)] else kwrites p),
           klast := (if exit \<and> kir p = XC2C_ISC_READ then last_bits (post x) reg else klast p)\<rparr>)"
| "coolr_step x p _ = p"

text \<open>The row at the address of the scan before comes out first.\<close>

definition coolr_answer :: "xc2c \<Rightarrow> (nat \<Rightarrow> bool list) \<Rightarrow> coolr \<Rightarrow> jop \<Rightarrow> byte list \<Rightarrow> bool" where
  "coolr_answer x mem p c r =
     (case c of
        OpDR None True n align False \<Rightarrow>
          (let m = mem_after mem (kwrites p) (klast p)
           in if kir p = XC2C_ISC_READ \<and> \<not> kopen p \<and> n \<le> length m then buf_bits (fit (nbytes n) r) n = take n m else True)
      | _ \<Rightarrow> True)"

definition coolr_init :: coolr where
  "coolr_init = \<lparr>kir = 0, kopen = False, kreg = [], kwrites = [], klast = 0\<rparr>"

definition coolr_dev :: "xc2c \<Rightarrow> (coolr \<Rightarrow> jop \<Rightarrow> byte list \<Rightarrow> bool) \<Rightarrow> coolr device" where
  "coolr_dev x ans = \<lparr>dinit = coolr_init, dstep = coolr_step x, dans = ans\<rparr>"

lemma coolr_dev_sel [simp]: "dstep (coolr_dev x ans) = coolr_step x" "dans (coolr_dev x ans) = ans"
  by (simp_all add: coolr_dev_def)

definition coolr_view :: "xc2c \<Rightarrow> jop list \<Rightarrow> coolr" where
  "coolr_view x cs = foldl (coolr_step x) coolr_init cs"

lemma coolr_dview [simp]: "dview (coolr_dev x ans) cs = coolr_view x cs"
  by (simp add: dview_def coolr_view_def coolr_dev_def)

section \<open>Programming\<close>

text \<open>Row \<open>i\<close> of a file.\<close>

definition row_bits :: "xc2c \<Rightarrow> bitfile \<Rightarrow> nat \<Rightarrow> bool list" where
  "row_bits x bf i = map (\<lambda>j. buf_bit (buffer bf) (i * rowbits x + j)) [0..<rowbits x]"

lemma length_row_bits [simp]: "length (row_bits x bf i) = rowbits x"
  by (simp add: row_bits_def)

definition row_image :: "xc2c \<Rightarrow> bitfile \<Rightarrow> nat \<Rightarrow> nat \<times> bool list" where
  "row_image x bf i = (xc2c_row x i, row_bits x bf i)"

lemma last_bits_row: "last_bits (post x) (bs @ buf_bits [row_addr x i] (post x)) = xc2c_row x i"
  by (simp add: last_bits_def xc2c_row_def)

lemma last_bits_row_0: "last_bits (post x) (buf_bits [row_addr x i] (post x)) = xc2c_row x i"
  using last_bits_row [of x "[]"] by simp

lemma row_span: "i < rows x \<Longrightarrow> i * rowbits x + rowbits x \<le> rows x * rowbits x"
  using mult_le_mono1 [of "Suc i" "rows x" "rowbits x"] by simp

lemma pack_row_bits:
  assumes "bf_ok (rows x * rowbits x) bf" "i < rows x" "rowbits x \<le> 8 * length d"
  obtains d' where "pack_row bf (i * rowbits x) 0 (rowbits x) d = Inr d'" "length d' = length d"
    "buf_bits d' (rowbits x) = row_bits x bf i"
proof -
  obtain d' where d': "pack_row bf (i * rowbits x) 0 (rowbits x) d = Inr d'" "length d' = length d"
    "\<And>j. buf_bit d' j = (if j < rowbits x then buf_bit (buffer bf) (i * rowbits x + j) else buf_bit d j)"
    using pack_row_effect [OF assms(1) row_span [OF assms(2)], of 0 d] assms(3) by auto
  then show thesis by (intro that [OF d'(1,2)]) (simp add: buf_bits_def row_bits_def d'(3))
qed

lemma wp_write_row:
  assumes "buf_bits d (rowbits x) = bs"
    and "\<And>p'. kir p' = kir p \<Longrightarrow> \<not> kopen p' \<Longrightarrow> kwrites p' = kwrites p @ [(xc2c_row x i, bs)] \<Longrightarrow> Q () p'"
    and "kir p = XC2C_ISC_PROGRAM" "\<not> kopen p" "length bs = rowbits x"
  shows "wp (coolr_dev x ans) (xc2c_write_row x d i) Q p"
  unfolding xc2c_write_row_def
  by (intro wp_intro assms(2)) (use assms in \<open>auto simp: Let_def last_bits_row\<close>)

text \<open>The first scan of \<^verbatim>\<open>array_program\<close> is shorter than a row and an address.\<close>

lemma wp_array_program:
  assumes "xc2c_ok x" "bf_ok (rows x * rowbits x) bf"
  shows "wp (coolr_dev x ans) (xc2c_array_program junk x bf)
     (\<lambda>_ p'. \<not> kopen p' \<and> kwrites p' = kwrites p @ map (row_image x bf) [0..<rows x]) p"
proof -
  have len: "rowbits x \<le> 8 * xc2c_MAXSIZE" "0 < rows x" "0 < rowbits x" using assms(1) by (auto simp: xc2c_ok_def)
  let ?d0 = "map junk [0..<xc2c_MAXSIZE]"
  obtain d0 where d0: "pack_row bf (0 * rowbits x) 0 (rowbits x) ?d0 = Inr d0" "length d0 = length ?d0"
    "buf_bits d0 (rowbits x) = row_bits x bf 0"
    by (rule pack_row_bits [OF assms(2) len(2), of ?d0]) (use len in auto)
  let ?I = "\<lambda>i (k, d) p'. k = i * rowbits x \<and> length d = xc2c_MAXSIZE \<and> kir p' = XC2C_ISC_PROGRAM \<and> \<not> kopen p' \<and>
    kwrites p' = kwrites p @ map (row_image x bf) [0..<i]"
  have row: "wp (coolr_dev x ans) (jbind (jlift (pack_row bf k 0 (rowbits x) d)) (\<lambda>d.
        jbind (xc2c_write_row x d i) (\<lambda>_. jret (k + rowbits x, d)))) (?I (Suc i)) q"
    if inv: "?I i (k, d) q" "i < rows x" for i k d q
  proof -
    obtain d' where d': "pack_row bf (i * rowbits x) 0 (rowbits x) d = Inr d'" "length d' = length d"
      "buf_bits d' (rowbits x) = row_bits x bf i"
      by (rule pack_row_bits [OF assms(2) inv(2), of d]) (use inv len in auto)
    have k: "k = i * rowbits x" using inv(1) by simp
    show ?thesis
      unfolding k
      by (intro wp_bind wp_lift [OF d'(1)] wp_write_row [OF d'(3)] wp_ret) (use inv d'(2) in \<open>auto simp: row_image_def\<close>)
  qed
  show ?thesis
    unfolding xc2c_array_program_def Let_def
  proof (intro wp_bind wp_captures wp_ops wp_lift [OF d0(1) [simplified]] wp_write_row [OF d0(3)], goal_cases)
    case (1 r r' p1)
    show ?case
    proof (rule wp_fold [where I = ?I], goal_cases)
      case (1 j s v)
      then show ?case using row [of j _ _ v] len(2) by (cases s) auto
    next
      case (2 s v)
      then show ?case using len(2) by (cases s) (auto intro!: wp_intro)
    next
      case 3
      show ?case
        using 1 d0(2) len by (auto simp: Let_def xc2c_codes row_image_def)
    qed
  qed (use assms len in \<open>auto simp: Let_def\<close>)
qed

section \<open>Verifying and reading\<close>

lemma wp_fetch_row:
  assumes "kir p = XC2C_ISC_READ" "\<not> kopen p"
    and "\<And>o_data p'. kir p' = kir p \<Longrightarrow> \<not> kopen p' \<Longrightarrow> kwrites p' = kwrites p \<Longrightarrow> klast p' = xc2c_row x i \<Longrightarrow>
      rowbits x \<le> 8 * length o_data \<Longrightarrow>
      (rowbits x \<le> length (mem_after mem (kwrites p) (klast p)) \<Longrightarrow>
       buf_bits o_data (rowbits x) = take (rowbits x) (mem_after mem (kwrites p) (klast p))) \<Longrightarrow> Q o_data p'"
  shows "wp (coolr_dev x (coolr_answer x mem)) (xc2c_fetch x i) Q p"
  unfolding xc2c_fetch_def
  by (intro wp_intro assms(3))
    (use assms(1,2) nbytes_bound [of "rowbits x"] in \<open>auto simp: Let_def last_bits_row coolr_answer_def xc2c_codes\<close>)

text \<open>Row \<open>u\<close> of the part agrees with the file.\<close>

definition row_agree :: "xc2c \<Rightarrow> bitfile \<Rightarrow> (nat \<Rightarrow> bool list) \<Rightarrow> nat \<Rightarrow> bool" where
  "row_agree x bf mem u \<longleftrightarrow> take (rowbits x) (mem (xc2c_row x u)) = row_bits x bf u"

lemma match_row_agree:
  assumes "bf_ok (rows x * rowbits x) bf" "u < rows x" "rowbits x \<le> 8 * length d"
    and "buf_bits d (rowbits x) = take (rowbits x) (mem (xc2c_row x u))"
  shows "match_row bf (u * rowbits x) 0 (rowbits x) d = Inr (row_agree x bf mem u)"
proof -
  have "row_agree x bf mem u \<longleftrightarrow> (\<forall>j < rowbits x. buf_bit (buffer bf) (u * rowbits x + j) = buf_bit d (0 + j))"
    unfolding row_agree_def assms(4) [symmetric] by (auto simp: list_eq_iff_nth_eq row_bits_def)
  then show ?thesis
    using match_row_iff [OF assms(1) row_span [OF assms(2)], of 0 d] assms(3) by simp
qed

lemma wp_array_verify:
  assumes "xc2c_ok x" "bf_ok (rows x * rowbits x) bf"
    and len: "\<And>u. u < rows x \<Longrightarrow> rowbits x \<le> length (mem_after mem (kwrites p) (xc2c_row x u))"
  shows "wp (coolr_dev x (coolr_answer x mem)) (xc2c_array_verify x bf)
     (\<lambda>e p'. e = (if \<forall>u < rows x. row_agree x bf (mem_after mem (kwrites p)) u then 0 else 1) \<and>
        kwrites p' = kwrites p) p"
proof -
  let ?dev = "coolr_dev x (coolr_answer x mem)" and ?ok = "row_agree x bf (mem_after mem (kwrites p))"
  let ?all = "\<forall>u < rows x. ?ok u"
  let ?J = "\<lambda>p'. kir p' = XC2C_ISC_READ \<and> \<not> kopen p' \<and> kwrites p' = kwrites p"
  let ?I = "\<lambda>i k p'. k = (i - 1) * rowbits x \<and> ?J p' \<and> klast p' = xc2c_row x (i - 1) \<and> (\<forall>u < i - 1. ?ok u)"
  have row: "wp ?dev (jbind (jUsleep 20) (\<lambda>_. jbind (xc2c_fetch x i) (\<lambda>o_data.
        jbind (jlift (match_row bf k 0 (rowbits x) o_data)) (\<lambda>same.
          jret (if same then Inr (k + rowbits x) else Inl 1)))))
      (\<lambda>r p'. case r of Inl e \<Rightarrow> ?J p' \<and> e = 1 \<and> \<not> ?all | Inr k \<Rightarrow> ?I (Suc i) k p') q"
    if inv: "?I i k q" "1 \<le> i" "i < 1 + rows x" for i k q
  proof -
    obtain u where u: "i = Suc u" "u < rows x" using inv(2,3) by (cases i) auto
    have k: "k = u * rowbits x" using inv(1) u(1) by simp
    show ?thesis
      unfolding k
    proof (intro wp_bind wp_ops wp_fetch_row)
      fix o_data and q1 :: coolr
      assume q1: "kir q1 = kir (dstep ?dev q (OpSleep 20))" "\<not> kopen q1" "kwrites q1 = kwrites (dstep ?dev q (OpSleep 20))"
        "klast q1 = xc2c_row x i" "rowbits x \<le> 8 * length o_data"
        "rowbits x \<le> length (mem_after mem (kwrites (dstep ?dev q (OpSleep 20))) (klast (dstep ?dev q (OpSleep 20)))) \<Longrightarrow>
         buf_bits o_data (rowbits x) =
           take (rowbits x) (mem_after mem (kwrites (dstep ?dev q (OpSleep 20))) (klast (dstep ?dev q (OpSleep 20))))"
      have m: "match_row bf (u * rowbits x) 0 (rowbits x) o_data = Inr (?ok u)"
        using match_row_agree [OF assms(2) u(2) q1(5), of "mem_after mem (kwrites p)"] q1(6) inv(1) u(1) len [OF u(2)] by simp
      show "wp ?dev (jlift (match_row bf (u * rowbits x) 0 (rowbits x) o_data)) (\<lambda>same.
          wp ?dev (jret (if same then Inr (u * rowbits x + rowbits x) else Inl 1))
          (\<lambda>r p'. case r of Inl e \<Rightarrow> ?J p' \<and> e = 1 \<and> \<not> ?all | Inr k \<Rightarrow> ?I (Suc i) k p')) q1"
        by (intro wp_lift [OF m] wp_ret) (use inv(1) q1(1-4) u in \<open>auto simp: less_Suc_eq\<close>)
    qed (use inv(1) in simp_all)
  qed
  show ?thesis
    unfolding xc2c_array_verify_def
  proof (intro wp_bind wp_captures wp_ops, goal_cases)
    case (1 r1 r2 r3)
    show ?case
    proof (rule wp_scan [where I = ?I], goal_cases)
      case (1 j s v)
      then show ?case
        by (intro wp_mono [OF row]) (auto intro!: wp_intro split: sum.splits)
    next
      case (2 s v)
      then show ?case by (auto intro!: wp_intro)
    next
      case 3
      then show ?case by (auto simp: Let_def last_bits_row_0 xc2c_codes)
    qed
  qed
qed

lemma row_bits_same:
  "row_bits x bf u = row_bits x bf' u \<longleftrightarrow>
     (\<forall>j. u * rowbits x \<le> j \<longrightarrow> j < u * rowbits x + rowbits x \<longrightarrow> buf_bit (buffer bf) j = buf_bit (buffer bf') j)"
  (is "?l \<longleftrightarrow> ?r")
proof
  assume l: ?l
  show ?r
  proof (intro allI impI)
    fix j assume "u * rowbits x \<le> j" "j < u * rowbits x + rowbits x"
    then obtain i where "j = u * rowbits x + i" "i < rowbits x" by (metis add_less_cancel_left le_iff_add)
    then show "buf_bit (buffer bf) j = buf_bit (buffer bf') j"
      using l by (simp add: row_bits_def)
  qed
qed (simp add: row_bits_def)

lemma store_row_agree:
  assumes "bf_ok (rows x * rowbits x) bf" "u < rows x" "rowbits x \<le> 8 * length d"
    and "buf_bits d (rowbits x) = take (rowbits x) (mem (xc2c_row x u))"
  obtains bf' where "store_row bf (u * rowbits x) 0 (rowbits x) d = Inr bf'" "bf_ok (rows x * rowbits x) bf'"
    "row_agree x bf' mem u" "\<And>v. v < u \<Longrightarrow> row_agree x bf' mem v = row_agree x bf mem v"
proof -
  obtain bf' where bf': "store_row bf (u * rowbits x) 0 (rowbits x) d = Inr bf'" "bf_ok (rows x * rowbits x) bf'"
    "\<And>i. buf_bit (buffer bf') i =
       (if u * rowbits x \<le> i \<and> i < u * rowbits x + rowbits x then buf_bit d (i - u * rowbits x) else buf_bit (buffer bf) i)"
    using store_row_effect [OF assms(1) row_span [OF assms(2)], of 0 d] assms(3) by auto
  have "row_agree x bf' mem u"
    unfolding row_agree_def assms(4) [symmetric] by (simp add: row_bits_def buf_bits_def bf'(3))
  moreover have "row_agree x bf' mem v = row_agree x bf mem v" if "v < u" for v
  proof -
    have "row_bits x bf' v = row_bits x bf v"
      using mult_le_mono1 [of "Suc v" u "rowbits x"] that by (auto simp: row_bits_same bf'(3))
    then show ?thesis by (simp add: row_agree_def)
  qed
  ultimately show thesis using that [OF bf'(1,2)] by blast
qed

lemma setLength_ok: "bf_ok n (setLength n bf)"
  using nbytes_bound [of n] by (simp add: bf_ok_def setLength_def)

lemma wp_array_read:
  assumes "xc2c_ok x"
    and len: "\<And>u. u < rows x \<Longrightarrow> rowbits x \<le> length (mem_after mem (kwrites p) (xc2c_row x u))"
  shows "wp (coolr_dev x (coolr_answer x mem)) (xc2c_array_read x bf)
     (\<lambda>bf' p'. bf_ok (rows x * rowbits x) bf' \<and>
        (\<forall>u < rows x. row_agree x bf' (mem_after mem (kwrites p)) u) \<and> kwrites p' = kwrites p) p"
proof -
  let ?dev = "coolr_dev x (coolr_answer x mem)" and ?m = "mem_after mem (kwrites p)"
  let ?I = "\<lambda>i (k, bf') p'. k = (i - 1) * rowbits x \<and> kir p' = XC2C_ISC_READ \<and> \<not> kopen p' \<and> kwrites p' = kwrites p \<and>
    klast p' = xc2c_row x (i - 1) \<and> bf_ok (rows x * rowbits x) bf' \<and> (\<forall>u < i - 1. row_agree x bf' ?m u)"
  have row: "wp ?dev (jbind (xc2c_fetch x i) (\<lambda>o_data. jbind (jUsleep 20) (\<lambda>_.
        jbind (jlift (store_row bf k 0 (rowbits x) o_data)) (\<lambda>bf. jret (k + rowbits x, bf))))) (?I (Suc i)) q"
    if inv: "?I i (k, bf) q" "1 \<le> i" "i < 1 + rows x" for i k bf q
  proof -
    obtain u where u: "i = Suc u" "u < rows x" using inv(2,3) by (cases i) auto
    have k: "k = u * rowbits x" and bf: "bf_ok (rows x * rowbits x) bf" using inv(1) u(1) by simp_all
    show ?thesis
      unfolding k
    proof (intro wp_bind wp_ops wp_fetch_row)
      fix o_data and q1 :: coolr
      assume q1: "kir q1 = kir q" "\<not> kopen q1" "kwrites q1 = kwrites q" "klast q1 = xc2c_row x i"
        "rowbits x \<le> 8 * length o_data"
        "rowbits x \<le> length (mem_after mem (kwrites q) (klast q)) \<Longrightarrow>
         buf_bits o_data (rowbits x) = take (rowbits x) (mem_after mem (kwrites q) (klast q))"
      have d: "buf_bits o_data (rowbits x) = take (rowbits x) (?m (xc2c_row x u))"
        using q1(6) inv(1) u(1) len [OF u(2)] by simp
      obtain bf' where bf': "store_row bf (u * rowbits x) 0 (rowbits x) o_data = Inr bf'" "bf_ok (rows x * rowbits x) bf'"
        "row_agree x bf' ?m u" "\<And>v. v < u \<Longrightarrow> row_agree x bf' ?m v = row_agree x bf ?m v"
        using store_row_agree [where mem = ?m, OF bf u(2) q1(5) d] by blast
      show "wp ?dev (jlift (store_row bf (u * rowbits x) 0 (rowbits x) o_data))
          (\<lambda>bf. wp ?dev (jret (u * rowbits x + rowbits x, bf)) (?I (Suc i))) (dstep ?dev q1 (OpSleep 20))"
        by (intro wp_lift [OF bf'(1)] wp_ret) (use inv(1) q1(1-4) u bf' in \<open>auto simp: less_Suc_eq\<close>)
    qed (use inv(1) in simp_all)
  qed
  show ?thesis
    unfolding xc2c_array_read_def Let_def
  proof (intro wp_bind wp_captures wp_ops wp_seq_Cons wp_seq_Nil, goal_cases)
    case (1 r1 r2 r3)
    show ?case
    proof (rule wp_fold [where I = ?I], goal_cases)
      case (1 j s v)
      then show ?case using row [of j _ _ v] by (cases s) simp
    next
      case (2 s v)
      then show ?case by (cases s) (auto intro!: wp_intro)
    next
      case 3
      then show ?case by (auto simp: Let_def last_bits_row_0 setLength_ok xc2c_codes)
    qed
  qed
qed

section \<open>Round trip\<close>

lemma xc2c_row_inj_on: "xc2c_ok x \<Longrightarrow> inj_on (xc2c_row x) {..<rows x}"
  by (rule inj_onI) (rule xc2c_row_inj, auto)

lemma programmed_rows:
  "xc2c_ok x \<Longrightarrow> u < rows x \<Longrightarrow>
     mem_after mem (ws @ map (row_image x bf) [0..<rows x]) (xc2c_row x u) = row_bits x bf u"
  unfolding row_image_def [abs_def] by (rule mem_after_image [OF xc2c_row_inj_on])

lemma rows_cover:
  assumes "\<And>u. u < rows x \<Longrightarrow> row_bits x bf' u = row_bits x bf u" "i < rows x * rowbits x"
  shows "buf_bit (buffer bf') i = buf_bit (buffer bf) i"
proof -
  let ?u = "i div rowbits x" and ?j = "i mod rowbits x"
  have "0 < rowbits x" using assms(2) by (cases "rowbits x") auto
  then have "?u < rows x" "?j < rowbits x" using assms(2) by (simp_all add: div_less_iff_less_mult)
  then have "row_bits x bf' ?u ! ?j = row_bits x bf ?u ! ?j" using assms(1) by simp
  then show ?thesis using \<open>?j < rowbits x\<close> by (simp add: row_bits_def)
qed

lemma xc2c_session:
  assumes "xc2c_init si = Inr x" "bf_ok (rows x * rowbits x) bf" "honest (coolr_dev x (coolr_answer x mem)) (replies k)"
  obtains k1 bf' where "xc2c_array_program junk x bf k = (Inr (), k1)" "fst (xc2c_array_verify x bf k1) = Inr 0"
    "fst (xc2c_array_read x bf0 k1) = Inr bf'" "bf_ok (rows x * rowbits x) bf'"
    "\<And>i. i < rows x * rowbits x \<Longrightarrow> get_bit_bf i bf' = get_bit_bf i bf"
proof -
  let ?dev = "coolr_dev x (coolr_answer x mem)"
  note x = xc2c_init_ok [OF assms(1)]
  obtain k1 where k1: "xc2c_array_program junk x bf k = (Inr (), k1)" "replies k1 = replies k"
    "kwrites (coolr_view x (hist k1)) = kwrites (coolr_view x (hist k)) @ map (row_image x bf) [0..<rows x]"
    using wp_run [OF wp_array_program [OF x assms(2)] assms(3)] by auto
  let ?m = "mem_after mem (kwrites (coolr_view x (hist k1)))"
  have m: "?m (xc2c_row x u) = row_bits x bf u" if "u < rows x" for u
    unfolding k1(3) using programmed_rows [OF x that] by simp
  have h: "honest ?dev (replies k1)" using assms(3) k1(2) by simp
  have len: "u < rows x \<Longrightarrow> rowbits x \<le> length (?m (xc2c_row x u))" for u by (simp add: m)
  have "wp ?dev (xc2c_array_verify x bf) (\<lambda>e _. e = 0) (dview ?dev (hist k1))"
    using len m by (intro wp_mono [OF wp_array_verify [OF x assms(2)]]) (auto simp: row_agree_def)
  from this h have verify: "fst (xc2c_array_verify x bf k1) = Inr 0" by (rule wp_run) simp
  have "wp ?dev (xc2c_array_read x bf0) (\<lambda>bf' _. bf_ok (rows x * rowbits x) bf' \<and> (\<forall>u < rows x. row_agree x bf' ?m u))
      (dview ?dev (hist k1))"
    using len by (intro wp_mono [OF wp_array_read [OF x]]) auto
  from this h obtain bf' where bf': "fst (xc2c_array_read x bf0 k1) = Inr bf'" "bf_ok (rows x * rowbits x) bf'"
    "\<And>u. u < rows x \<Longrightarrow> row_agree x bf' ?m u" by (rule wp_run) auto
  have same: "row_bits x bf' u = row_bits x bf u" if "u < rows x" for u
    using bf'(3) [OF that] m [OF that] by (simp add: row_agree_def)
  have "get_bit_bf i bf' = get_bit_bf i bf" if "i < rows x * rowbits x" for i
    using get_bit_ok [OF bf'(2) that] get_bit_ok [OF assms(2) that] rows_cover [OF same that] by simp
  then show thesis using that k1(1) verify bf'(1,2) by blast
qed

text \<open>
  C17. What \<^verbatim>\<open>array_program\<close> writes to a CoolRunner-II part, \<^verbatim>\<open>array_verify\<close> accepts and \<^verbatim>\<open>array_read\<close>
  returns, bit by bit; programming never fails on a file that is long enough.\<close>

theorem xc2c_program_roundtrip:
  assumes "xc2c_init si = Inr x" "bf_ok (rows x * rowbits x) bf" "honest (coolr_dev x (coolr_answer x mem)) (replies k)"
  shows "\<exists>k1 bf'. xc2c_array_program junk x bf k = (Inr (), k1) \<and> fst (xc2c_array_verify x bf k1) = Inr 0 \<and>
     fst (xc2c_array_read x bf0 k1) = Inr bf' \<and> (\<forall>i < rows x * rowbits x. get_bit_bf i bf' = get_bit_bf i bf)"
  using xc2c_session [OF assms] by metis

text \<open>An executable part, whose rows are blank at first.\<close>

definition coolr_replies :: "xc2c \<Rightarrow> jop list \<Rightarrow> byte list" where
  "coolr_replies x cs =
     (if cs = [] then []
      else let p = coolr_view x (butlast cs)
           in case last cs of
                OpDR tdi True n align exit \<Rightarrow>
                  bits_bytes n (mem_after (\<lambda>_. replicate (rowbits x) True) (kwrites p) (klast p) @ replicate n False)
              | _ \<Rightarrow> [0])"

lemma coolr_replies_honest: "honest (coolr_dev x (coolr_answer x (\<lambda>_. replicate (rowbits x) True))) (coolr_replies x)"
proof -
  have "buf_bits (fit (nbytes n) (bits_bytes n (m @ replicate n False))) n = take n m" if "n \<le> length m" for n m
    using that by (simp add: bits_bytes_take)
  then show ?thesis
    by (auto simp: honest_def coolr_answer_def coolr_replies_def Let_def split: jop.split bool.split option.split)
qed

definition example_rows :: bitfile where
  "example_rows = bitfile_init\<lparr>blength := 1560, buffer := map of_nat [0..<1560]\<rparr>"

lemma example_rows_ok: "bf_ok (48 * 260) example_rows"
  by (simp add: bf_ok_def example_rows_def)

definition xc2c32 :: xc2c where
  "xc2c32 = \<lparr>rowbits = 260, rows = 48, post = 6\<rparr>"

lemma xc2c32: "xc2c_init 1 = Inr xc2c32" "rowbits xc2c32 = 260" "rows xc2c32 = 48"
  by (simp_all add: xc2c_init_def xc2c32_def)

theorem xc2c_program_roundtrip_witness:
  "\<exists>k1 bf'. xc2c_array_program (\<lambda>_. 7) xc2c32 example_rows \<lparr>hist = [], replies = coolr_replies xc2c32\<rparr> = (Inr (), k1) \<and>
     fst (xc2c_array_verify xc2c32 example_rows k1) = Inr 0 \<and>
     fst (xc2c_array_read xc2c32 bitfile_init k1) = Inr bf' \<and>
     (\<forall>i < 12480. get_bit_bf i bf' = get_bit_bf i example_rows)"
  using xc2c_program_roundtrip [OF xc2c32(1), of example_rows "\<lambda>_. replicate 260 True" "\<lparr>hist = [], replies = coolr_replies xc2c32\<rparr>"
      "\<lambda>_. 7" bitfile_init] example_rows_ok coolr_replies_honest [of xc2c32]
  by (simp add: xc2c32(2,3))

text \<open>
  \<^verbatim>\<open>array_program\<close> loads the rows of the file in order, whatever the part answers and whatever
  its uninitialised buffer holds, each at an address of its own.\<close>

theorem xc2c_program_loads:
  assumes "xc2c_init si = Inr x" "bf_ok (rows x * rowbits x) bf"
  shows "(\<exists>k1. xc2c_array_program junk x bf k = (Inr (), k1) \<and>
      kwrites (coolr_view x (hist k1)) = kwrites (coolr_view x (hist k)) @
        map (\<lambda>i. (xc2c_row x i, row_bits x bf i)) [0..<rows x]) \<and>
    distinct (map (xc2c_row x) [0..<rows x + 1])"
proof
  note x = xc2c_init_ok [OF assms(1)]
  have "honest (coolr_dev x (\<lambda>_ _ _. True)) (replies k)" by (simp add: honest_def)
  with wp_array_program [OF x assms(2)]
  obtain k1 where "xc2c_array_program junk x bf k = (Inr (), k1)"
    "kwrites (coolr_view x (hist k1)) = kwrites (coolr_view x (hist k)) @ map (row_image x bf) [0..<rows x]"
    by (rule wp_run) auto
  then show "\<exists>k1. xc2c_array_program junk x bf k = (Inr (), k1) \<and>
      kwrites (coolr_view x (hist k1)) = kwrites (coolr_view x (hist k)) @
        map (\<lambda>i. (xc2c_row x i, row_bits x bf i)) [0..<rows x]"
    by (simp add: row_image_def [abs_def])
  have "inj_on (xc2c_row x) {0..<rows x + 1}"
    by (rule inj_onI) (rule xc2c_row_inj [OF x], auto)
  then show "distinct (map (xc2c_row x) [0..<rows x + 1])" by (simp add: distinct_map del: upt_Suc)
qed

theorem xc2c_program_loads_witness:
  "(\<exists>k1. xc2c_array_program (\<lambda>_. 7) xc2c32 example_rows \<lparr>hist = [], replies = \<lambda>_. []\<rparr> = (Inr (), k1) \<and>
      kwrites (coolr_view xc2c32 (hist k1)) = map (\<lambda>i. (xc2c_row xc2c32 i, row_bits xc2c32 example_rows i)) [0..<48]) \<and>
    distinct (map (xc2c_row xc2c32) [0..<49])"
  using xc2c_program_loads [OF xc2c32(1), of example_rows "\<lambda>_. 7" "\<lparr>hist = [], replies = \<lambda>_. []\<rparr>"] example_rows_ok
  by (simp add: xc2c32(2,3) coolr_view_def coolr_init_def del: upt_rec_numeral upt_Suc)

text \<open>
  C18. \<^verbatim>\<open>array_verify\<close> returns \<open>0\<close> exactly for a part that holds the rows of the file, and \<open>1\<close>
  otherwise.\<close>

theorem xc2c_verify_exact:
  assumes "xc2c_init si = Inr x" "bf_ok (rows x * rowbits x) bf" "honest (coolr_dev x (coolr_answer x mem)) (replies k)"
    and "\<forall>u < rows x. length (mem_after mem (kwrites (coolr_view x (hist k))) (xc2c_row x u)) = rowbits x"
  shows "fst (xc2c_array_verify x bf k) =
     Inr (if \<forall>u < rows x. mem_after mem (kwrites (coolr_view x (hist k))) (xc2c_row x u) = row_bits x bf u then 0 else 1)"
proof -
  let ?dev = "coolr_dev x (coolr_answer x mem)"
  have "wp ?dev (xc2c_array_verify x bf) (\<lambda>e _. e = (if \<forall>u < rows x.
      mem_after mem (kwrites (dview ?dev (hist k))) (xc2c_row x u) = row_bits x bf u then 0 else 1)) (dview ?dev (hist k))"
    using assms(4)
    by (intro wp_mono [OF wp_array_verify [OF xc2c_init_ok [OF assms(1)] assms(2)]]) (auto simp: row_agree_def)
  from this assms(3) show ?thesis by (rule wp_run) simp
qed

theorem xc2c_verify_exact_witness:
  "fst (xc2c_array_verify xc2c32 example_rows \<lparr>hist = [], replies = coolr_replies xc2c32\<rparr>) = Inr 1"
proof -
  have "row_bits xc2c32 example_rows 0 ! 0 = False"
    by (simp add: row_bits_def xc2c32(2) example_rows_def buf_bit_def del: upt_rec_numeral upt_Suc)
  then have "\<not> (\<forall>u < 48. replicate 260 True = row_bits xc2c32 example_rows u)"
    by (metis nth_replicate zero_less_numeral)
  then show ?thesis
    using xc2c_verify_exact [OF xc2c32(1), of example_rows "\<lambda>_. replicate 260 True" "\<lparr>hist = [], replies = coolr_replies xc2c32\<rparr>"]
      example_rows_ok coolr_replies_honest [of xc2c32]
    by (simp add: xc2c32(2,3) coolr_view_def coolr_init_def mem_after_def)
qed

section \<open>Checking for blank\<close>

lemma byte_ff: "a = 0xff \<longleftrightarrow> (\<forall>i < 8. bit a i)" for a :: byte
proof -
  have "bit (0xff :: byte) i" if "i < 8" for i
    using that bit_mask_iff [of 8 i, where ?'a = byte] by (simp add: mask_eq_exp_minus_1)
  then show ?thesis by (simp add: byte_eq_iff)
qed

text \<open>The bits of a row before its last, possibly partial, byte.\<close>

definition checked_bits :: "xc2c \<Rightarrow> nat" where
  "checked_bits x = 8 * ((rowbits x - 1) div 8)"

lemma blank_row_iff: "blank_row x d \<longleftrightarrow> (\<forall>i < checked_bits x. buf_bit d i)"
proof -
  have j: "j * 8 + 8 < rowbits x \<longleftrightarrow> j < (rowbits x - 1) div 8" for j by auto
  have "blank_row x d \<longleftrightarrow> (\<forall>j < (rowbits x - 1) div 8. d ! j = 0xff)"
  proof -
    have "j < rowbits x \<and> rowbits x div 8 \<noteq> j" if "j < (rowbits x - 1) div 8" for j
      using that by auto
    then show ?thesis unfolding blank_row_def Let_def list_all_iff set_filter j by auto
  qed
  also have "\<dots> \<longleftrightarrow> (\<forall>i < checked_bits x. buf_bit d i)"
  proof (intro iffI allI impI)
    fix i assume l: "\<forall>j < (rowbits x - 1) div 8. d ! j = 0xff" and "i < checked_bits x"
    then have "i div 8 < (rowbits x - 1) div 8" by (simp add: checked_bits_def div_less_iff_less_mult)
    with l show "buf_bit d i" by (simp add: buf_bit_def byte_ff)
  next
    fix j assume r: "\<forall>i < checked_bits x. buf_bit d i" and "j < (rowbits x - 1) div 8"
    then have "8 * j + i < checked_bits x" if "i < 8" for i using that by (auto simp: checked_bits_def)
    then have "bit (d ! j) i" if "i < 8" for i
      using r [rule_format, of "8 * j + i"] that by (simp add: buf_bit_def)
    then show "d ! j = 0xff" by (simp add: byte_ff)
  qed
  finally show ?thesis .
qed

lemma wp_blank_check:
  assumes "xc2c_ok x" and len: "\<And>u. u < rows x \<Longrightarrow> rowbits x \<le> length (mem_after mem (kwrites p) (xc2c_row x u))"
  shows "wp (coolr_dev x (coolr_answer x mem)) (xc2c_blank_check x)
     (\<lambda>e _. e = (if \<forall>u < rows x. \<forall>i < checked_bits x. mem_after mem (kwrites p) (xc2c_row x u) ! i then 0 else 1)) p"
proof -
  let ?dev = "coolr_dev x (coolr_answer x mem)" and ?m = "mem_after mem (kwrites p)"
  let ?ok = "\<lambda>u. \<forall>i < checked_bits x. ?m (xc2c_row x u) ! i"
  let ?I = "\<lambda>i p'. kir p' = XC2C_ISC_READ \<and> \<not> kopen p' \<and> kwrites p' = kwrites p \<and> klast p' = xc2c_row x (i - 1) \<and>
    (\<forall>u < i - 1. ?ok u)"
  have row: "wp ?dev (jbind (jcycleTCK 20) (\<lambda>_. jbind (xc2c_fetch x i) (\<lambda>o_data.
        jret (if blank_row x o_data then None else Some (1 :: int)))))
      (\<lambda>r p'. case r of None \<Rightarrow> ?I (Suc i) p' | Some e \<Rightarrow> e = 1 \<and> \<not> (\<forall>u < rows x. ?ok u)) q"
    if inv: "?I i q" "1 \<le> i" "i < 1 + rows x" for i q
  proof -
    obtain u where u: "i = Suc u" "u < rows x" using inv(2,3) by (cases i) auto
    let ?q = "dstep ?dev q (OpTCK 20 True)"
    show ?thesis
    proof (intro wp_bind wp_ops wp_fetch_row)
      fix o_data and q1 :: coolr
      assume q1: "kir q1 = kir ?q" "\<not> kopen q1" "kwrites q1 = kwrites ?q" "klast q1 = xc2c_row x i"
        "rowbits x \<le> length (mem_after mem (kwrites ?q) (klast ?q)) \<Longrightarrow>
         buf_bits o_data (rowbits x) = take (rowbits x) (mem_after mem (kwrites ?q) (klast ?q))"
      have d: "buf_bits o_data (rowbits x) = take (rowbits x) (?m (xc2c_row x u))"
        using q1(5) inv(1) u(1) len [OF u(2)] by simp
      have "buf_bit o_data i = ?m (xc2c_row x u) ! i" if "i < checked_bits x" for i
      proof -
        have "i < rowbits x" using that by (auto simp: checked_bits_def)
        then show ?thesis using nth_buf_bits [of i "rowbits x" o_data] unfolding d by simp
      qed
      then have "blank_row x o_data = ?ok u" by (simp add: blank_row_iff)
      then show "wp ?dev (jret (if blank_row x o_data then None else Some (1 :: int)))
          (\<lambda>r p'. case r of None \<Rightarrow> ?I (Suc i) p' | Some e \<Rightarrow> e = 1 \<and> \<not> (\<forall>u < rows x. ?ok u)) q1"
        by (intro wp_ret) (use inv(1) q1(1-4) u in \<open>auto simp: less_Suc_eq\<close>)
    qed (use inv(1) in simp_all)
  qed
  show ?thesis
    unfolding xc2c_blank_check_def
  proof (intro wp_bind wp_captures wp_ops wp_seq_Cons wp_seq_Nil, goal_cases)
    case (1 r1)
    show ?case
    proof (rule wp_loop [where I = ?I], goal_cases)
      case (1 j v)
      then show ?case
        by (intro wp_mono [OF row]) (auto intro!: wp_intro split: option.splits)
    next
      case (2 v)
      then show ?case by (auto intro!: wp_intro)
    next
      case 3
      then show ?case by (auto simp: Let_def last_bits_row_0 xc2c_codes)
    qed
  qed
qed

text \<open>
  \<^verbatim>\<open>blank_check\<close> returns \<open>0\<close> exactly when every row of the part is erased in the bits that it
  looks at; these end before the last byte of the row, so that a part that is programmed in up
  to eight bits of a row passes.\<close>

theorem xc2c_blank_check_exact:
  assumes "xc2c_init si = Inr x" "honest (coolr_dev x (coolr_answer x mem)) (replies k)"
    and "\<forall>u < rows x. length (mem_after mem (kwrites (coolr_view x (hist k))) (xc2c_row x u)) = rowbits x"
  shows "fst (xc2c_blank_check x k) = Inr (if \<forall>u < rows x. \<forall>i < checked_bits x.
      mem_after mem (kwrites (coolr_view x (hist k))) (xc2c_row x u) ! i then 0 else 1) \<and>
    checked_bits x < rowbits x \<and> rowbits x \<le> checked_bits x + 8"
proof
  let ?dev = "coolr_dev x (coolr_answer x mem)"
  note x = xc2c_init_ok [OF assms(1)]
  have "wp ?dev (xc2c_blank_check x) (\<lambda>e _. e = (if \<forall>u < rows x. \<forall>i < checked_bits x.
      mem_after mem (kwrites (dview ?dev (hist k))) (xc2c_row x u) ! i then 0 else 1)) (dview ?dev (hist k))"
    using assms(3) by (intro wp_blank_check [OF x]) simp
  from this assms(2) show "fst (xc2c_blank_check x k) = Inr (if \<forall>u < rows x. \<forall>i < checked_bits x.
      mem_after mem (kwrites (coolr_view x (hist k))) (xc2c_row x u) ! i then 0 else 1)"
    by (rule wp_run) simp
  show "checked_bits x < rowbits x \<and> rowbits x \<le> checked_bits x + 8"
    using x by (auto simp: checked_bits_def xc2c_ok_def)
qed

theorem xc2c_blank_check_exact_witness:
  "fst (xc2c_blank_check xc2c32 \<lparr>hist = [], replies = coolr_replies xc2c32\<rparr>) = Inr 0"
  using xc2c_blank_check_exact [OF xc2c32(1), of "\<lambda>_. replicate 260 True" "\<lparr>hist = [], replies = coolr_replies xc2c32\<rparr>"]
    coolr_replies_honest [of xc2c32]
  by (simp add: xc2c32(2,3) coolr_view_def coolr_init_def mem_after_def checked_bits_def)

section \<open>The protocol\<close>

lemma tracks_fetch_row: "xc2c_ok x \<Longrightarrow> tracks Idle (xc2c_fetch x i) Idle"
  unfolding xc2c_fetch_def xc2c_ok_def by (auto intro!: tracks_intro)

lemma tracks_write_row: "xc2c_ok x \<Longrightarrow> rowbits x \<le> 8 * length d \<Longrightarrow> tracks Idle (xc2c_write_row x d i) Idle"
  unfolding xc2c_write_row_def xc2c_ok_def by (auto intro!: tracks_intro)

text \<open>A row that was packed fits into its buffer.\<close>

lemma pack_row_fits: "pack_row bf k j n d = Inr d' \<Longrightarrow> 0 < n \<Longrightarrow> j + n \<le> 8 * length d'"
proof (induction n arbitrary: k j d)
  case (Suc n)
  then obtain b c d1 where d1: "buf_get d (j div 8) = Inr c" "buf_set d (j div 8) (put_bit c (j mod 8) b) = Inr d1"
    "pack_row bf (k + 1) (j + 1) n d1 = Inr d'"
    by (auto simp: rbind_Inr_iff)
  show ?case
  proof (cases n)
    case 0
    have "j div 8 < length d" "length d1 = length d" using d1(1,2) by (auto simp: buf_get_def buf_set_def split: if_splits)
    then show ?thesis using d1(3) 0 by auto
  next
    case (Suc m)
    then show ?thesis using Suc.IH [OF d1(3)] by simp
  qed
qed simp

lemma tracks_pack_write:
  "xc2c_ok x \<Longrightarrow> pack_row bf k 0 (rowbits x) d = Inr d' \<Longrightarrow> tracks Idle (xc2c_write_row x d' i) Idle"
  using pack_row_fits [of bf k 0 "rowbits x" d d'] by (auto intro!: tracks_write_row simp: xc2c_ok_def)

lemma obeys_xc2c:
  assumes "xc2c_ok x" "l \<noteq> OpenDR"
  shows "obeys l xc2c_erase" "obeys l (xc2c_blank_check x)" "obeys l (xc2c_array_program junk x bf)"
    "obeys l (xc2c_array_verify x bf)" "obeys l (xc2c_array_read x bf)"
proof -
  have p: "0 < post x" "post x \<le> 8" "post x \<le> 8 * xc2c_MAXSIZE" using assms(1) by (auto simp: xc2c_ok_def xc2c_MAXSIZE_def)
  show "obeys l xc2c_erase"
    unfolding xc2c_erase_def using assms(2) by (auto intro!: tracks_intro simp del: jseq.simps)
  have "tracks Idle (jloop 1 (rows x) (\<lambda>i. jbind (jcycleTCK 20) (\<lambda>_.
       jbind (xc2c_fetch x i) (\<lambda>o_data. jret (if blank_row x o_data then None else Some 1))))) Idle"
    using assms by (auto intro!: tracks_intro tracks_fetch_row)
  then show "obeys l (xc2c_blank_check x)"
    unfolding xc2c_blank_check_def using assms(2) p
    by (auto intro!: tracks_intro simp del: jseq.simps)
  have "tracks Idle (jfold 1 (rows x - 1) (\<lambda>i (k, i_data).
           jbind (jlift (pack_row bf k 0 (rowbits x) i_data)) (\<lambda>i_data.
           jbind (xc2c_write_row x i_data i) (\<lambda>_. jret (k + rowbits x, i_data)))) s) Idle" for s
    by (auto intro!: tracks_fold tracks_bind_lift tracks_bind [OF tracks_pack_write [OF assms(1)]] tracks_ret)
  note fold = this
  show "obeys l (xc2c_array_program junk x bf)"
    unfolding xc2c_array_program_def Let_def
  proof (intro tracks_bind [OF tracks_ops(2)] obeys_bind [OF tracks_ops(2)] obeys_bind [OF tracks_ops(3)])
    show "obeys Idle (jbind (jlift (pack_row bf 0 0 (rowbits x) (map junk [0..<xc2c_MAXSIZE]))) (\<lambda>i_data.
        jbind (xc2c_write_row x i_data 0) (\<lambda>_.
        jbind (jfold 1 (rows x - 1) (\<lambda>i (k, i_data).
           jbind (jlift (pack_row bf k 0 (rowbits x) i_data)) (\<lambda>i_data.
           jbind (xc2c_write_row x i_data i) (\<lambda>_. jret (k + rowbits x, i_data)))) (rowbits x, i_data)) (\<lambda>_.
        jbind (jcaptureIR [XC2C_ISC_DISABLE]) (\<lambda>_. jret ())))))"
      by (intro obeys_tracks [of Idle _ Idle] tracks_bind_lift tracks_bind [OF tracks_pack_write [OF assms(1)]]
          tracks_bind [OF fold] tracks_bind [OF tracks_ops(2)] tracks_ret) simp_all
  qed (use assms(2) p in auto)
  show "obeys l (xc2c_array_verify x bf)"
    unfolding xc2c_array_verify_def using assms(2) p
    by (auto intro!: tracks_intro tracks_fetch_row assms(1))
  show "obeys l (xc2c_array_read x bf)"
    unfolding xc2c_array_read_def Let_def using assms(2) p
    by (auto intro!: tracks_intro tracks_fetch_row assms(1) simp del: jseq.simps)
qed

text \<open>
  C20. Whatever a CoolRunner-II part answers, erasing, checking, programming, verifying and
  reading it keeps \<^verbatim>\<open>Jtag\<close> in step with the TAP of the chain.\<close>

theorem xc2c_tracks_tap:
  assumes "xc2c_init si = Inr x" "jtag_sync gpio_wire s0 j" "jtag_conf j" "link_state l j" "l \<noteq> OpenDR"
    and "irlen (devices j ! nat (deviceIndex j)) \<le> 8"
    and "m \<in> {xc2c_erase, discard (xc2c_blank_check x), xc2c_array_program junk x bf,
      discard (xc2c_array_verify x bf), discard (xc2c_array_read x bf)}"
  shows "\<exists>j'. exec_ops (gpio_driver env v) (calls m k) j = Some j' \<and> jtag_sync gpio_wire s0 j'"
proof -
  have "obeys l m" using assms(7) obeys_xc2c [OF xc2c_init_ok [OF assms(1)] assms(5)] by (auto intro: obeys_discard)
  then show ?thesis using assms(2-4,6) by (rule gpio.obeys_tracks_tap)
qed

theorem xc2c_tracks_tap_witness:
  "\<exists>j'. exec_ops (gpio_driver (\<lambda>_. True) 0)
     (calls (xc2c_array_program (\<lambda>_. 7) xc2c32 example_rows) \<lparr>hist = [], replies = \<lambda>_. []\<rparr>) example_jtag = Some j' \<and>
     jtag_sync gpio_wire PAUSE_DR j'"
  by (rule xc2c_tracks_tap [OF xc2c32(1) example_jtag_sync, of InReset _ "\<lambda>_. 7" example_rows])
    (simp_all add: jtag_conf_def link_state_def example_jtag_def tapTestLogicReset_def jtag_init_def)

section \<open>The scan that stays open\<close>

definition xc2c_done_ops :: "xc2c \<Rightarrow> jop list" where
  "xc2c_done_ops x =
     (let zero = replicate xc2c_MAXSIZE 0; d = zero[0 := if rowbits x = 274 then 0xf7 else 0xfb, 1 := 0x0f]
      in [OpIR [XC2C_ISC_ENABLE_OTF] False, OpIR [XC2C_ISC_PROGRAM] True,
          OpDR (Some zero) False (rowbits x - 12) 0 False, OpDR (Some d) False 12 0 False,
          OpDR (Some [row_addr x (rows x)]) True (post x) 0 True, OpSleep 10000, OpIR [XC2C_ISC_DISABLE] True,
          OpIR [XC2C_ISC_ENABLE_OTF] False, OpIR [XC2C_ISC_INIT] False, OpSleep 20, OpIR [XC2C_ISC_INIT] False,
          OpDR (Some d) False 8 0 False])"

lemma done_program_calls:
  "hist (snd (xc2c_done_program x k)) =
     hist k @ xc2c_done_ops x @ [OpSleep 800, OpIR [XC2C_ISC_DISABLE] False, OpIR [XC2C_BYPASS] False]"
  by (simp add: xc2c_done_program_def xc2c_done_ops_def Let_def jshiftIR_def jcaptureIR_def jshiftDR_def jcaptureDR_def
      jUsleep_def jdo_def jbind_def jcall_def jret_def)

lemma done_ops_run: "xc2c_ok x \<Longrightarrow> l \<noteq> OpenDR \<Longrightarrow> ops_run l (xc2c_done_ops x) = Some OpenDR"
  by (auto simp: xc2c_done_ops_def Let_def xc2c_ok_def xc2c_MAXSIZE_def)

lemma exec_ops_append:
  "exec_ops drv (as @ bs) j = (case exec_ops drv as j of None \<Rightarrow> None | Some j \<Rightarrow> exec_ops drv bs j)"
  by (induction as arbitrary: j) (auto split: option.split)

context tms_cable
begin

text \<open>An instruction scan leaves the mark of an open data scan as it is.\<close>

lemma exec_ir_open:
  assumes "jtag_sync wire s0 j" "jtag_conf j" "irlen (devices j ! nat (deviceIndex j)) \<le> 8"
  obtains tdo j' where "exec_op drv (OpIR [b] want) j = Some (tdo, j')" "jtag_sync wire s0 j'"
    "current_state j' = RUN_TEST_IDLE" "shiftDRincomplete j' = shiftDRincomplete j" "same_conf j' j"
proof -
  have r: "ir_ready [b] j" "0 \<le> deviceIndex j" "postIRState j = RUN_TEST_IDLE"
    using assms(2,3) by (simp_all add: ir_ready_def jtag_conf_def)
  obtain tdo j' where "shiftIR drv [b] want j = Some (tdo, j')" "jtag_sync wire s0 j'" "current_state j' = postIRState j"
    "shiftDRincomplete j' = shiftDRincomplete j" "same_conf j' j"
    by (rule sync_shiftIR [OF assms(1) r(1,2), of want])
  then show thesis using r(3) by (intro that) (simp_all add: exec_op_def)
qed

text \<open>
  A sleep and instructions after a scan that was left open end in Run-Test/Idle, with the mark
  of the open scan still set.
\<close>

lemma exec_open_ends:
  assumes "jtag_sync wire s0 j" "jtag_conf j" "link_state l j" "irlen (devices j ! nat (deviceIndex j)) \<le> 8"
    and "ops_run l cs = Some OpenDR"
  obtains j' where "exec_ops drv (cs @ [OpSleep n, OpIR [b] False, OpIR [c] False]) j = Some j'" "jtag_sync wire s0 j'"
    "current_state j' = RUN_TEST_IDLE" "shiftDRincomplete j'"
proof -
  obtain j1 where j1: "exec_ops drv cs j = Some j1" "jtag_sync wire s0 j1" "link_state OpenDR j1" "same_conf j1 j"
    using exec_ops_sync [OF assms(1-3,5) ops_run_fits [OF assms(5,4)]] by blast
  let ?j2 = "j1\<lparr>jio := io_Usleep drv (jio j1)\<rparr>"
  have small: "irlen (devices j' ! nat (deviceIndex j')) \<le> 8 \<and> jtag_conf j'" if "same_conf j' j" for j' :: "'w jtag"
    using that assms(2,4) by (simp add: same_conf_def jtag_conf_def)
  have j2: "jtag_sync wire s0 ?j2" "same_conf ?j2 j" using sync_usleep [OF j1(2)] j1(4) by (simp_all add: same_conf_def)
  obtain r3 j3 where j3: "exec_op drv (OpIR [b] False) ?j2 = Some (r3, j3)" "jtag_sync wire s0 j3"
    "shiftDRincomplete j3 = shiftDRincomplete ?j2" "same_conf j3 ?j2"
    using exec_ir_open [OF j2(1)] small [OF j2(2)] by metis
  have c3: "same_conf j3 j" by (rule same_conf_trans [OF j3(4) j2(2)])
  obtain r4 j4 where j4: "exec_op drv (OpIR [c] False) j3 = Some (r4, j4)" "jtag_sync wire s0 j4"
    "current_state j4 = RUN_TEST_IDLE" "shiftDRincomplete j4 = shiftDRincomplete j3"
    using exec_ir_open [OF j3(2)] small [OF c3] by metis
  have "exec_op drv (OpSleep n) j1 = Some ([], ?j2)" by (simp add: exec_op_def)
  then have "exec_ops drv (cs @ [OpSleep n, OpIR [b] False, OpIR [c] False]) j = Some j4"
    using j1(1) j3(1) j4(1) by (simp add: exec_ops_append)
  moreover have "shiftDRincomplete j4" using j1(3) j3(3) j4(4) by (simp add: link_state_def)
  ultimately show thesis using that j4(2,3) by blast
qed

end

text \<open>
  C19. \<^verbatim>\<open>done_program\<close> leaves \<^verbatim>\<open>Jtag\<close> in Run-Test/Idle with the mark of its scan of eight bits still
  set, so that the next \<^verbatim>\<open>shiftDR\<close> takes itself for the continuation of that scan and shifts without
  entering Shift-DR.\<close>

theorem done_program_leaves_scan_open:
  assumes "xc2c_init si = Inr x" "jtag_sync gpio_wire s0 j" "jtag_conf j" "link_state l j" "l \<noteq> OpenDR"
    and "irlen (devices j ! nat (deviceIndex j)) \<le> 8"
  shows "\<exists>j'. exec_ops (gpio_driver env v) (calls (xc2c_done_program x) k) j = Some j' \<and>
     jtag_sync gpio_wire s0 j' \<and> current_state j' = RUN_TEST_IDLE \<and> shiftDRincomplete j'"
proof -
  have run: "ops_run l (xc2c_done_ops x) = Some OpenDR" by (rule done_ops_run [OF xc2c_init_ok [OF assms(1)] assms(5)])
  show ?thesis
    using gpio.exec_open_ends [OF assms(2-4,6) run] unfolding calls_def done_program_calls
    by (metis append_eq_conv_conj)
qed

theorem done_program_leaves_scan_open_witness:
  "\<exists>j'. exec_ops (gpio_driver (\<lambda>_. True) 0)
     (calls (xc2c_done_program xc2c32) \<lparr>hist = [], replies = \<lambda>_. []\<rparr>) example_jtag = Some j' \<and>
     jtag_sync gpio_wire PAUSE_DR j' \<and> current_state j' = RUN_TEST_IDLE \<and> shiftDRincomplete j'"
  by (rule done_program_leaves_scan_open [OF xc2c32(1) example_jtag_sync, of InReset])
    (simp_all add: jtag_conf_def link_state_def example_jtag_def tapTestLogicReset_def jtag_init_def)

end
