(* ===== verification/ProgXC3S.thy ===== *)
theory ProgXC3S
  imports JtagSpec BitFile
begin

text \<open>
  \<^verbatim>\<open>progalgxc3s.cpp\<close>: configuring the RAM of FPGAs from Spartan-II to Virtex-7. \<open>irn\<close> is the length
  of the instruction register of the part: a call that captures it writes \<open>irn\<close> bits to a
  buffer of one byte. \<open>fuel\<close> bounds the passes of the loop without a bound that waits for the
  part to be cleared, and \<open>junk\<close> is what the uninitialised \<^verbatim>\<open>data\<close> holds. Messages are left out.
\<close>

definition XC3S_JPROGRAM :: "byte list" where "XC3S_JPROGRAM = [0xcb, 0xff]"
definition XC3S_CFG_IN :: "byte list" where "XC3S_CFG_IN = [0xc5, 0xff]"
definition XC3S_JSHUTDOWN :: "byte list" where "XC3S_JSHUTDOWN = [0xcd, 0xff]"
definition XC3S_JSTART :: "byte list" where "XC3S_JSTART = [0xcc, 0xff]"
definition XC3S_ISC_PROGRAM :: "byte list" where "XC3S_ISC_PROGRAM = [0xd1, 0xff]"
definition XC3S_ISC_ENABLE :: "byte list" where "XC3S_ISC_ENABLE = [0xd0, 0xff]"
definition XC3S_ISC_DISABLE :: "byte list" where "XC3S_ISC_DISABLE = [0xd6, 0xff]"
definition XC3S_BYPASS :: "byte list" where "XC3S_BYPASS = [0xff, 0xff]"
definition XC3S_ISC_DNA :: "byte list" where "XC3S_ISC_DNA = [0x31]"

lemmas xc3s_codes = XC3S_JPROGRAM_def XC3S_CFG_IN_def XC3S_JSHUTDOWN_def XC3S_JSTART_def XC3S_ISC_PROGRAM_def
  XC3S_ISC_ENABLE_def XC3S_ISC_DISABLE_def XC3S_BYPASS_def XC3S_ISC_DNA_def

definition FAMILY_XC2S :: int where "FAMILY_XC2S = 0x03"
definition FAMILY_XC2SE :: int where "FAMILY_XC2SE = 0x05"
definition FAMILY_XC2V :: int where "FAMILY_XC2V = 0x08"
definition FAMILY_XC3S :: int where "FAMILY_XC3S = 0x0a"
definition FAMILY_XC3SE :: int where "FAMILY_XC3SE = 0x0e"
definition FAMILY_XC3SA :: int where "FAMILY_XC3SA = 0x11"
definition FAMILY_XC3SAN :: int where "FAMILY_XC3SAN = 0x13"
definition FAMILY_XC5VLX :: int where "FAMILY_XC5VLX = 0x14"
definition FAMILY_XC5VLXT :: int where "FAMILY_XC5VLXT = 0x15"
definition FAMILY_XC5VSXT :: int where "FAMILY_XC5VSXT = 0x17"
definition FAMILY_XC5VFXT :: int where "FAMILY_XC5VFXT = 0x19"
definition FAMILY_XC7 :: int where "FAMILY_XC7 = 0x1b"
definition FAMILY_XC3SD :: int where "FAMILY_XC3SD = 0x1c"
definition FAMILY_XC6S :: int where "FAMILY_XC6S = 0x20"
definition FAMILY_XC5VTXT :: int where "FAMILY_XC5VTXT = 0x22"

lemmas xc3s_families = FAMILY_XC2S_def FAMILY_XC2SE_def FAMILY_XC2V_def FAMILY_XC3S_def FAMILY_XC3SE_def
  FAMILY_XC3SA_def FAMILY_XC3SAN_def FAMILY_XC5VLX_def FAMILY_XC5VLXT_def FAMILY_XC5VSXT_def FAMILY_XC5VFXT_def
  FAMILY_XC7_def FAMILY_XC3SD_def FAMILY_XC6S_def FAMILY_XC5VTXT_def

record xc3s =
  family :: int
  tck_len :: nat
  array_transfer_len :: nat

definition xc3s_init :: "int \<Rightarrow> xc3s" where
  "xc3s_init fam =
     (if fam \<in> {FAMILY_XC3SE, FAMILY_XC3SA, FAMILY_XC3SAN, FAMILY_XC3SD}
      then \<lparr>family = fam, tck_len = 16, array_transfer_len = 16\<rparr>
      else if fam \<in> {FAMILY_XC5VLX, FAMILY_XC5VLXT, FAMILY_XC5VSXT, FAMILY_XC5VFXT, FAMILY_XC5VTXT, FAMILY_XC7}
      then \<lparr>family = fam, tck_len = 12, array_transfer_len = 32\<rparr>
      else \<lparr>family = fam, tck_len = 12, array_transfer_len = 64\<rparr>)"

definition xc3s_flow_enable :: "xc3s \<Rightarrow> unit jm" where
  "xc3s_flow_enable x = jseq [jshiftIR XC3S_ISC_ENABLE, jshiftDR [0] 5 True, jcycleTCK (tck_len x)]"

definition xc3s_flow_disable :: "xc3s \<Rightarrow> unit jm" where
  "xc3s_flow_disable x =
     jseq [jshiftIR XC3S_ISC_DISABLE, jcycleTCK (tck_len x), jshiftIR XC3S_BYPASS, jshiftDR [0] 1 True, jcycleTCK 1]"

text \<open>The loop runs over \<open>i\<close> in steps of the transfer length while \<open>i\<close> is below the length of the file.\<close>

definition xc3s_flow_array_program :: "xc3s \<Rightarrow> bitfile \<Rightarrow> unit jm" where
  "xc3s_flow_array_program x bf =
     (let step = array_transfer_len x; n = (getLength bf + step - 1) div step
      in jfold 0 n (\<lambda>m _.
           jbind (jshiftIR XC3S_ISC_PROGRAM) (\<lambda>_.
           jbind (jlift (buf_slice (buffer bf) (m * step div 8) (step div 8))) (\<lambda>d.
           jbind (jshiftDR d step True) (\<lambda>_. jcycleTCK 1)))) ())"

definition xc2sbuf0 :: "byte list" where
  "xc2sbuf0 =
     [0x00, 0x00, 0x00, 0x00, 0x00, 0x00, 0x00, 0x00,
      0x55, 0x99, 0xaa, 0x66, 0x0c, 0x80, 0x04, 0x80,
      0x00, 0x05, 0xfd, 0xbc, 0x0c, 0x00, 0x01, 0x80,
      0x00, 0x00, 0x00, 0xa0, 0x0c, 0x00, 0x01, 0x80,
      0x00, 0x00, 0x00, 0xe0, 0x00, 0x00, 0x00, 0x00]"

definition xc2sbuf1 :: "byte list" where
  "xc2sbuf1 =
     [0x00, 0x00, 0x00, 0x00, 0x00, 0x00, 0x00, 0x00,
      0x55, 0x99, 0xaa, 0x66, 0x0c, 0x00, 0x01, 0x80,
      0x00, 0x00, 0x00, 0x10, 0x0c, 0x80, 0x04, 0x80,
      0x00, 0x05, 0xfc, 0xff, 0x0c, 0x00, 0x01, 0x80,
      0x00, 0x00, 0x00, 0xa0, 0x0c, 0x00, 0x01, 0x80,
      0x00, 0x00, 0x00, 0xe0, 0x00, 0x00, 0x00, 0x00]"

definition xc3s_flow_program_xc2s :: "(nat \<Rightarrow> byte) \<Rightarrow> bitfile \<Rightarrow> unit jm" where
  "xc3s_flow_program_xc2s junk bf =
     (let cfg = (\<lambda>buf. [jshiftIR XC3S_CFG_IN, jshiftDR buf (length buf * 8) True, jshiftIR XC3S_JSTART, jcycleTCK 13])
      in jseq (cfg xc2sbuf0 @ cfg xc2sbuf1 @ cfg xc2sbuf0 @
           [jshiftIR XC3S_CFG_IN, jshiftDR (buffer bf) (getLength bf) True, jcycleTCK 1, jshiftIR XC3S_JSTART, jcycleTCK 13,
            jshiftIR XC3S_BYPASS, jshiftDR [junk 0, junk 1] 1 True, jcycleTCK 1]))"

definition xc3s_flow_program_legacy :: "xc3s \<Rightarrow> bitfile \<Rightarrow> unit jm" where
  "xc3s_flow_program_legacy x bf =
     jseq [jshiftIR XC3S_JSHUTDOWN, jcycleTCK (tck_len x), jshiftIR XC3S_CFG_IN,
           jshiftDR (buffer bf) (getLength bf) True, jcycleTCK 1, jshiftIR XC3S_JSTART, jcycleTCK (2 * tck_len x),
           jshiftIR XC3S_BYPASS, jshiftDR [0] 1 True, jcycleTCK 1]"

text \<open>Capturing the instruction register into \<^verbatim>\<open>buf[1]\<close>.\<close>

definition xc3s_capture :: "nat \<Rightarrow> byte list \<Rightarrow> byte jm" where
  "xc3s_capture irn instr =
     jbind (jcaptureIR instr) (\<lambda>b. if 8 < irn then jlift (Inl (OutOfBounds 1)) else jret b)"

definition xc3s_wait_cleared :: "nat \<Rightarrow> nat \<Rightarrow> byte jm" where
  "xc3s_wait_cleared irn fuel =
     jbind (jloop 0 fuel (\<lambda>_.
       jbind (xc3s_capture irn XC3S_CFG_IN) (\<lambda>buf. jret (if buf AND 0x10 \<noteq> 0 then Some buf else None)))) (\<lambda>r.
     case r of Some buf \<Rightarrow> jret buf | None \<Rightarrow> jlift (Inl NotReturned))"

text \<open>Reading the DNA; it is only printed.\<close>

definition xc3s_read_dna :: "xc3s \<Rightarrow> unit jm" where
  "xc3s_read_dna x =
     (if family x \<in> {0x11, 0x13, 0x1c, 0x20}
      then jbind (jseq [jshiftIR XC3S_ISC_ENABLE, jshiftIR XC3S_ISC_DNA]) (\<lambda>_.
           jbind (jcaptureDR None 64 True) (\<lambda>_. jcycleTCK 1))
      else jret ())"

definition xc3s_wait_up :: "nat \<Rightarrow> byte \<Rightarrow> (byte + byte) jm" where
  "xc3s_wait_up irn buf =
     jscan 0 50 (\<lambda>i buf.
       if buf AND 0x23 \<noteq> 0x21
       then jbind (xc3s_capture irn XC3S_BYPASS) (\<lambda>buf. jbind (jUsleep 1000) (\<lambda>_. jret (Inr buf)))
       else jret (Inl buf)) buf"

definition xc3s_array_program :: "nat \<Rightarrow> nat \<Rightarrow> (nat \<Rightarrow> byte) \<Rightarrow> xc3s \<Rightarrow> bitfile \<Rightarrow> unit jm" where
  "xc3s_array_program irn fuel junk x bf =
     (if family x = FAMILY_XC2S \<or> family x = FAMILY_XC2SE then xc3s_flow_program_xc2s junk bf
      else jbind (xc3s_flow_enable x) (\<lambda>_.
           jbind (jshiftIR XC3S_JPROGRAM) (\<lambda>_.
           jbind (xc3s_wait_cleared irn fuel) (\<lambda>buf.
           jbind (xc3s_read_dna x) (\<lambda>_.
           jbind (xc3s_flow_program_legacy x bf) (\<lambda>_.
           jbind (xc3s_flow_disable x) (\<lambda>_.
           jbind (xc3s_wait_up irn buf) (\<lambda>_. jret ()))))))))"

definition xc3sbuf :: "byte list" where
  "xc3sbuf = [0xff, 0xff, 0x55, 0x99, 0x0c, 0x85, 0x00, 0x70, 0x04, 0x00, 0x04, 0x00]"

definition xc6sbuf :: "byte list" where
  "xc6sbuf = [0xff, 0xff, 0x55, 0x99, 0xaa, 0x66, 0x0c, 0x85, 0x00, 0x70, 0x04, 0x00]"

definition xc3s_reconfig :: "xc3s \<Rightarrow> unit jm" where
  "xc3s_reconfig x =
     (if family x \<in> {FAMILY_XC2V, FAMILY_XC3S, FAMILY_XC3SE, FAMILY_XC3SA, FAMILY_XC3SAN, FAMILY_XC3SD, FAMILY_XC6S}
      then jseq [jshiftIR XC3S_JSHUTDOWN, jcycleTCK 16, jshiftIR XC3S_CFG_IN,
                 jshiftDR (if family x = 0x20 then xc6sbuf else xc3sbuf) (12 * 8) True,
                 jshiftIR XC3S_JSTART, jcycleTCK 32, jshiftIR XC3S_BYPASS, jcycleTCK 1, jsetTLR]
      else jret ())"

end
