(* ===== verification/XC3SProps.thy ===== *)
theory XC3SProps
  imports ProgXC3S ProgAlg
begin

text \<open>
  What \<^verbatim>\<open>ProgAlgXC3S\<close> does to an FPGA. The view of the part follows the instruction, the bits that
  scans under \<open>CFG_IN\<close> have loaded since the last \<open>JPROGRAM\<close>, and whether the part has been
  started: \<open>JSTART\<close> takes effect after twelve clocks in Run-Test/Idle.
\<close>

record fpga =
  ginstr :: byte
  gconf :: "bool list"
  gup :: bool

fun fpga_step :: "fpga \<Rightarrow> jop \<Rightarrow> fpga" where
  "fpga_step g (OpIR tdi want) =
     g\<lparr>ginstr := hd tdi, gconf := (if hd tdi = hd XC3S_JPROGRAM then [] else gconf g),
       gup := (gup g \<and> hd tdi \<notin> {hd XC3S_JPROGRAM, hd XC3S_JSHUTDOWN})\<rparr>"
| "fpga_step g (OpDR tdi want n align exit) =
     (if ginstr g = hd XC3S_CFG_IN then g\<lparr>gconf := gconf g @ scan_in tdi n\<rparr> else g)"
| "fpga_step g (OpTCK n tdi) = (if ginstr g = hd XC3S_JSTART \<and> 12 \<le> n then g\<lparr>gup := True\<rparr> else g)"
| "fpga_step g _ = g"

definition fpga_init :: fpga where
  "fpga_init = \<lparr>ginstr = 0, gconf = [], gup = False\<rparr>"

definition fpga_dev :: "fpga device" where
  "fpga_dev = \<lparr>dinit = fpga_init, dstep = fpga_step, dans = \<lambda>_ _ _. True\<rparr>"

lemma fpga_dev_sel [simp]: "dstep fpga_dev = fpga_step" "dans fpga_dev = (\<lambda>_ _ _. True)"
  by (simp_all add: fpga_dev_def)

definition fpga_view :: "jop list \<Rightarrow> fpga" where
  "fpga_view cs = foldl fpga_step fpga_init cs"

lemma fpga_dview [simp]: "dview fpga_dev cs = fpga_view cs"
  by (simp add: dview_def fpga_view_def fpga_dev_def)

lemma fpga_view_append: "fpga_view (as @ bs) = foldl fpga_step (fpga_view as) bs"
  by (simp add: fpga_view_def)

section \<open>Waiting for the part to be cleared\<close>

text \<open>The calls before the loop, and what the part answers to its pass \<open>j\<close>.\<close>

definition xc3s_start :: "xc3s \<Rightarrow> jop list" where
  "xc3s_start x =
     [OpIR XC3S_ISC_ENABLE False, OpDR (Some [0]) False 5 0 True, OpTCK (tck_len x) True, OpIR XC3S_JPROGRAM False]"

definition init_answer :: "jlink \<Rightarrow> nat \<Rightarrow> byte" where
  "init_answer k j = hd (fit 1 (replies k (hist k @ replicate (Suc j) (OpIR XC3S_CFG_IN True))))"

lemma start_run:
  "jbind (xc3s_flow_enable x) (\<lambda>_. jbind (jshiftIR XC3S_JPROGRAM) f) k = f () (k\<lparr>hist := hist k @ xc3s_start x\<rparr>)"
  by (simp add: xc3s_flow_enable_def xc3s_start_def jshiftIR_def jshiftDR_def jcycleTCK_def jdo_def jbind_def jcall_def jret_def)

lemma capture_run:
  "xc3s_capture irn instr k =
     (if 8 < irn then Inl (OutOfBounds 1) else Inr (hd (fit 1 (replies k (hist k @ [OpIR instr True])))),
      k\<lparr>hist := hist k @ [OpIR instr True]\<rparr>)"
  by (simp add: xc3s_capture_def jcaptureIR_def jbind_def jcall_def jret_def jlift_def)

lemma init_answer_Suc: "init_answer (k\<lparr>hist := hist k @ [OpIR XC3S_CFG_IN True]\<rparr>) j = init_answer k (Suc j)"
  by (simp add: init_answer_def)

definition poll_cfg :: "nat \<Rightarrow> byte option jm" where
  "poll_cfg irn =
     jbind (xc3s_capture irn XC3S_CFG_IN) (\<lambda>buf. jret (if buf AND 0x10 \<noteq> 0 then Some buf else None))"

lemma wait_loop:
  assumes "irn \<le> 8"
  shows "(if \<exists>j < n. init_answer k j AND 0x10 \<noteq> 0
     then \<exists>m b. jloop i n (\<lambda>_. poll_cfg irn) k = (Inr (Some b), k\<lparr>hist := hist k @ replicate m (OpIR XC3S_CFG_IN True)\<rparr>)
     else \<exists>k'. jloop i n (\<lambda>_. poll_cfg irn) k = (Inr None, k'))"
proof (induction n arbitrary: i k)
  case 0
  then show ?case by (simp add: jret_def)
next
  case (Suc n)
  let ?op = "OpIR XC3S_CFG_IN True" and ?b = "init_answer k 0"
  let ?k = "k\<lparr>hist := hist k @ [?op]\<rparr>"
  have poll: "poll_cfg irn k = (Inr (if ?b AND 0x10 \<noteq> 0 then Some ?b else None), ?k)"
    using assms by (simp add: poll_cfg_def jbind_def jret_def capture_run init_answer_def)
  show ?case
  proof (cases "?b AND 0x10 \<noteq> 0")
    case True
    then have ex: "\<exists>j < Suc n. init_answer k j AND 0x10 \<noteq> 0" by blast
    have "jloop i (Suc n) (\<lambda>_. poll_cfg irn) k = (Inr (Some ?b), k\<lparr>hist := hist k @ replicate 1 ?op\<rparr>)"
      using poll True by (simp add: jbind_def jret_def)
    then show ?thesis unfolding if_P [OF ex] by blast
  next
    case False
    then have ex: "(\<exists>j < Suc n. init_answer k j AND 0x10 \<noteq> 0) \<longleftrightarrow> (\<exists>j < n. init_answer ?k j AND 0x10 \<noteq> 0)"
      unfolding init_answer_Suc by (auto simp: less_Suc_eq_0_disj)
    have loop: "jloop i (Suc n) (\<lambda>_. poll_cfg irn) k = jloop (i + 1) n (\<lambda>_. poll_cfg irn) ?k"
      using poll False by (simp add: jbind_def)
    have k: "?k\<lparr>hist := hist ?k @ replicate m ?op\<rparr> = k\<lparr>hist := hist k @ replicate (Suc m) ?op\<rparr>" for m by simp
    show ?thesis
    proof (cases "\<exists>j < n. init_answer ?k j AND 0x10 \<noteq> 0")
      case True
      with Suc.IH [of ?k "i + 1"] show ?thesis unfolding ex loop if_P [OF True] k by blast
    next
      case False
      with Suc.IH [of ?k "i + 1"] show ?thesis unfolding ex loop if_not_P [OF False] by blast
    qed
  qed
qed

lemma polled_conf: "gconf (foldl fpga_step g (replicate m (OpIR XC3S_CFG_IN True))) = gconf g"
  by (induction m arbitrary: g) (simp_all add: xc3s_codes)

section \<open>Loading the configuration\<close>

definition xc3s_rest :: "nat \<Rightarrow> byte \<Rightarrow> xc3s \<Rightarrow> bitfile \<Rightarrow> unit jm" where
  "xc3s_rest irn buf x bf =
     jbind (xc3s_read_dna x) (\<lambda>_.
     jbind (xc3s_flow_program_legacy x bf) (\<lambda>_.
     jbind (xc3s_flow_disable x) (\<lambda>_.
     jbind (xc3s_wait_up irn buf) (\<lambda>_. jret ()))))"

lemma wp_capture: "irn \<le> 8 \<Longrightarrow> (\<And>b. Q b (fpga_step g (OpIR instr True))) \<Longrightarrow> wp fpga_dev (xc3s_capture irn instr) Q g"
  unfolding xc3s_capture_def by (intro wp_intro) auto

text \<open>The file arrives in one piece, and the part is started; waiting does not disturb it.\<close>

lemma wp_xc3s_wait_up:
  assumes "irn \<le> 8" "gup g"
  shows "wp fpga_dev (xc3s_wait_up irn buf) (\<lambda>_ g'. gconf g' = gconf g \<and> gup g') g"
  unfolding xc3s_wait_up_def
proof (rule wp_scan [where I = "\<lambda>_ _ g'. gconf g' = gconf g \<and> gup g'"])
  fix j b and g1 :: fpga assume g1: "gconf g1 = gconf g \<and> gup g1"
  show "wp fpga_dev (if b AND 0x23 \<noteq> 0x21
       then jbind (xc3s_capture irn XC3S_BYPASS) (\<lambda>buf. jbind (jUsleep 1000) (\<lambda>_. jret (Inr buf)))
       else jret (Inl b))
      (\<lambda>r g'. case r of Inl e \<Rightarrow> gconf g' = gconf g \<and> gup g' | Inr x \<Rightarrow> gconf g' = gconf g \<and> gup g') g1"
    by (intro wp_intro wp_capture [OF assms(1)]) (use g1 in \<open>auto simp: xc3s_codes\<close>)
qed (use assms in auto)

lemma wp_xc3s_rest:
  assumes "irn \<le> 8" "6 \<le> tck_len x" "gconf g = []"
  shows "wp fpga_dev (xc3s_rest irn buf x bf) (\<lambda>_ g'. gconf g' = buf_bits (buffer bf) (getLength bf) \<and> gup g') g"
proof -
  let ?P = "\<lambda>g'. gconf g' = buf_bits (buffer bf) (getLength bf) \<and> gup g'"
  have dna: "wp fpga_dev (xc3s_read_dna x) (\<lambda>_ g'. gconf g' = []) g"
    unfolding xc3s_read_dna_def by (intro wp_intro) (use assms(3) in \<open>auto simp: xc3s_codes\<close>)
  have load: "wp fpga_dev (xc3s_flow_program_legacy x bf) (\<lambda>_. ?P) g'" if "gconf g' = []" for g'
    unfolding xc3s_flow_program_legacy_def by (intro wp_intro) (use assms(2) that in \<open>auto simp: xc3s_codes\<close>)
  have disable: "wp fpga_dev (xc3s_flow_disable x) (\<lambda>_. ?P) g'" if "?P g'" for g'
    unfolding xc3s_flow_disable_def by (intro wp_intro) (use that in \<open>auto simp: xc3s_codes\<close>)
  show ?thesis
    unfolding xc3s_rest_def
    by (intro wp_bind wp_mono [OF dna] wp_mono [OF load] wp_mono [OF disable] wp_mono [OF wp_xc3s_wait_up] wp_ret)
      (use assms(1) in auto)
qed

text \<open>
  C21. Configuring an FPGA that is not a Spartan-II: \<^verbatim>\<open>array_program\<close> returns exactly when the part
  reports at some pass of the loop that it is cleared, and then the part has received the bits
  of the file, all of them in order and nothing else, and has been started. The model gives the
  loop \<open>fuel\<close> passes. Every part whose instruction register is longer than eight bits overruns
  the buffer of one byte at the first pass.\<close>

theorem xc3s_program_configures:
  assumes "x = xc3s_init fam" "fam \<noteq> FAMILY_XC2S" "fam \<noteq> FAMILY_XC2SE"
  shows "let run = xc3s_array_program irn (Suc fuel) junk x bf k; k0 = k\<lparr>hist := hist k @ xc3s_start x\<rparr>
     in if 8 < irn then fst run = Inl (OutOfBounds 1)
        else if \<exists>j \<le> fuel. init_answer k0 j AND 0x10 \<noteq> 0
        then \<exists>k1. run = (Inr (), k1) \<and> gconf (fpga_view (hist k1)) = buf_bits (buffer bf) (getLength bf) \<and>
          gup (fpga_view (hist k1))
        else fst run = Inl NotReturned"
proof -
  let ?k0 = "k\<lparr>hist := hist k @ xc3s_start x\<rparr>" and ?loop = "jloop 0 (Suc fuel) (\<lambda>_. poll_cfg irn)"
  have fam: "family x = fam" "6 \<le> tck_len x" by (auto simp: assms(1) xc3s_init_def)
  have run: "xc3s_array_program irn (Suc fuel) junk x bf k =
      jbind ?loop (\<lambda>r. case r of None \<Rightarrow> jlift (Inl NotReturned) | Some buf \<Rightarrow> xc3s_rest irn buf x bf) ?k0"
    using fam(1) assms(2,3)
    by (simp add: xc3s_array_program_def start_run xc3s_wait_cleared_def jbind_simps jbind_option
        flip: poll_cfg_def xc3s_rest_def del: jloop.simps)
  show ?thesis
  proof (cases "8 < irn")
    case True
    then show ?thesis unfolding Let_def run by (simp add: poll_cfg_def capture_run jbind_def)
  next
    case False
    then have irn: "irn \<le> 8" by simp
    note loop = wait_loop [OF irn, of "Suc fuel" ?k0 0, unfolded less_Suc_eq_le]
    show ?thesis
    proof (cases "\<exists>j \<le> fuel. init_answer ?k0 j AND 0x10 \<noteq> 0")
      case True
      then obtain m b where m: "?loop ?k0 = (Inr (Some b), ?k0\<lparr>hist := hist ?k0 @ replicate m (OpIR XC3S_CFG_IN True)\<rparr>)"
        using loop unfolding if_P [OF True] by blast
      let ?k = "?k0\<lparr>hist := hist ?k0 @ replicate m (OpIR XC3S_CFG_IN True)\<rparr>"
      have "gconf (fpga_view (hist ?k)) = []"
        by (simp add: fpga_view_append xc3s_start_def polled_conf)
      then have "wp fpga_dev (xc3s_rest irn b x bf) (\<lambda>_ g'. gconf g' = buf_bits (buffer bf) (getLength bf) \<and> gup g')
          (dview fpga_dev (hist ?k))"
        by (intro wp_xc3s_rest irn fam(2)) simp
      moreover have "honest fpga_dev (replies ?k)" by (simp add: honest_def)
      ultimately obtain k1 where "xc3s_rest irn b x bf ?k = (Inr (), k1)"
        "gconf (fpga_view (hist k1)) = buf_bits (buffer bf) (getLength bf) \<and> gup (fpga_view (hist k1))"
        by (rule wp_run) auto
      then show ?thesis using True False m unfolding Let_def run by (simp add: jbind_def del: jloop.simps)
    next
      case out: False
      then obtain k' where "?loop ?k0 = (Inr None, k')"
        using loop unfolding if_not_P [OF out] by blast
      then show ?thesis using out False unfolding Let_def run by (simp add: jbind_def jlift_def del: jloop.simps)
    qed
  qed
qed

text \<open>A part that reports at the third pass that it is cleared, and one that never does.\<close>

theorem xc3s_program_configures_witness:
  "(\<exists>k1. xc3s_array_program 6 9 (\<lambda>_. 0) (xc3s_init FAMILY_XC3S) (bitfile_init\<lparr>blength := 2, buffer := [0x9c, 0x21]\<rparr>)
       \<lparr>hist = [], replies = \<lambda>h. if length h = 7 then [0x11] else [0x01]\<rparr> = (Inr (), k1) \<and>
     gconf (fpga_view (hist k1)) = buf_bits [0x9c, 0x21] 16) \<and>
   fst (xc3s_array_program 6 9 (\<lambda>_. 0) (xc3s_init FAMILY_XC3S) bitfile_init \<lparr>hist = [], replies = \<lambda>_. [0x01]\<rparr>) = Inl NotReturned"
proof
  let ?x = "xc3s_init FAMILY_XC3S" and ?bf = "bitfile_init\<lparr>blength := 2, buffer := [0x9c, 0x21]\<rparr>"
  have fam: "FAMILY_XC3S \<noteq> FAMILY_XC2S" "FAMILY_XC3S \<noteq> FAMILY_XC2SE" by (simp_all add: xc3s_families)
  let ?k = "\<lparr>hist = [], replies = \<lambda>h :: jop list. if length h = 7 then [0x11] else [0x01 :: byte]\<rparr>"
  have "init_answer (?k\<lparr>hist := hist ?k @ xc3s_start ?x\<rparr>) 2 AND 0x10 \<noteq> 0"
    by (simp add: init_answer_def xc3s_start_def fit_def)
  then have "\<exists>j \<le> 8. init_answer (?k\<lparr>hist := hist ?k @ xc3s_start ?x\<rparr>) j AND 0x10 \<noteq> 0" by (intro exI [of _ 2]) simp
  then show "\<exists>k1. xc3s_array_program 6 9 (\<lambda>_. 0) ?x ?bf ?k = (Inr (), k1) \<and>
      gconf (fpga_view (hist k1)) = buf_bits [0x9c, 0x21] 16"
    using xc3s_program_configures [OF refl fam, of 6 8 "\<lambda>_. 0" ?bf ?k] by (auto simp: Let_def getLength_def bits_of_def)
  have "init_answer \<lparr>hist = h, replies = \<lambda>_. [0x01]\<rparr> j AND 0x10 = 0" for h j
    by (simp add: init_answer_def fit_def)
  then show "fst (xc3s_array_program 6 9 (\<lambda>_. 0) ?x bitfile_init \<lparr>hist = [], replies = \<lambda>_. [0x01]\<rparr>) = Inl NotReturned"
    using xc3s_program_configures [OF refl fam, of 6 8 "\<lambda>_. 0" bitfile_init "\<lparr>hist = [], replies = \<lambda>_. [0x01]\<rparr>"]
    by (simp add: Let_def)
qed

end
