(* ===== verification/ProgXCFP.thy ===== *)
theory ProgXCFP
  imports ProgAlg
begin

text \<open>
  \<^verbatim>\<open>progalgxcfp.cpp\<close>: erasing, programming, verifying and reading Platform Flash P PROMs (XCF08P,
  XCF16P, XCF32P). A frame is 32 bytes, a block 32768 frames. Messages and timers are left out.
\<close>

definition XCFP_BYPASS :: "byte list" where "XCFP_BYPASS = [0xff, 0xff]"
definition XCFP_IDCODE :: "byte list" where "XCFP_IDCODE = [0xfe, 0x00]"
definition XCFP_ISC_ENABLE :: "byte list" where "XCFP_ISC_ENABLE = [0xe8, 0x00]"
definition XCFP_ISC_DISABLE :: "byte list" where "XCFP_ISC_DISABLE = [0xf0, 0x00]"
definition XCFP_ISC_PROGRAM :: "byte list" where "XCFP_ISC_PROGRAM = [0xea, 0x00]"
definition XCFP_ISC_READ :: "byte list" where "XCFP_ISC_READ = [0xf8, 0x00]"
definition XCFP_ISC_ERASE :: "byte list" where "XCFP_ISC_ERASE = [0xec, 0x00]"
definition XCFP_ISC_ADDRESS_SHIFT :: "byte list" where "XCFP_ISC_ADDRESS_SHIFT = [0xeb, 0x00]"
definition XCFP_ISC_DATA_SHIFT :: "byte list" where "XCFP_ISC_DATA_SHIFT = [0xed, 0x00]"
definition XCFP_XSC_CONFIG :: "byte list" where "XCFP_XSC_CONFIG = [0xee, 0x00]"
definition XCFP_XSC_OP_STATUS :: "byte list" where "XCFP_XSC_OP_STATUS = [0xe3, 0x00]"
definition XCFP_XSC_UNLOCK :: "byte list" where "XCFP_XSC_UNLOCK = [0x55, 0xaa]"
definition XCFP_XSC_DATA_BTC :: "byte list" where "XCFP_XSC_DATA_BTC = [0xf2, 0x00]"
definition XCFP_XSC_DATA_CCB :: "byte list" where "XCFP_XSC_DATA_CCB = [0x0c, 0x00]"
definition XCFP_XSC_DATA_SUCR :: "byte list" where "XCFP_XSC_DATA_SUCR = [0x0e, 0x00]"
definition XCFP_XSC_DATA_DONE :: "byte list" where "XCFP_XSC_DATA_DONE = [0x09, 0x00]"

lemmas xcfp_codes = XCFP_BYPASS_def XCFP_IDCODE_def XCFP_ISC_ENABLE_def XCFP_ISC_DISABLE_def
  XCFP_ISC_PROGRAM_def XCFP_ISC_READ_def XCFP_ISC_ERASE_def XCFP_ISC_ADDRESS_SHIFT_def XCFP_ISC_DATA_SHIFT_def
  XCFP_XSC_CONFIG_def XCFP_XSC_OP_STATUS_def XCFP_XSC_UNLOCK_def XCFP_XSC_DATA_BTC_def XCFP_XSC_DATA_CCB_def
  XCFP_XSC_DATA_SUCR_def XCFP_XSC_DATA_DONE_def

section \<open>The class\<close>

record xcfp =
  xcfp_id :: u32
  narray :: nat
  ccbParallelMode :: bool
  ccbMasterMode :: bool
  ccbFastClock :: bool
  ccbExternalClock :: bool

definition xcfp_block :: nat where "xcfp_block = 0x100000"

definition xcfp_init :: "u32 \<Rightarrow> xcfp res" where
  "xcfp_init devid =
     (let c = devid AND 0x0fffffff;
          x = (\<lambda>n. Inr \<lparr>xcfp_id = devid, narray = n, ccbParallelMode = False, ccbMasterMode = False,
                ccbFastClock = True, ccbExternalClock = True\<rparr>)
      in if c = 0x05057093 then x 1
         else if c = 0x05058093 then x 2
         else if c = 0x05059093 then x 4
         else Inl (InvalidArgument ''Unknown XCF device''))"

definition xcfp_getSize :: "xcfp \<Rightarrow> nat" where
  "xcfp_getSize x = narray x * xcfp_block * 8"

definition xcfp_enable :: "unit jm" where
  "xcfp_enable = jseq [jshiftIR XCFP_ISC_ENABLE, jshiftDR [0] 8 True, jcycleTCK 1]"

definition xcfp_disable :: "unit jm" where
  "xcfp_disable = jseq [jshiftIR XCFP_ISC_DISABLE, jUsleep 1000, jshiftIR XCFP_BYPASS, jcycleTCK 1, jreset]"

definition xcfp_reconfig :: "unit jm" where
  "xcfp_reconfig = jseq [jshiftIR XCFP_XSC_CONFIG, jcycleTCK 1, jshiftIR XCFP_BYPASS, jcycleTCK 1, jreset]"

definition xcfp_reg_read :: "byte list \<Rightarrow> nat \<Rightarrow> byte list jm" where
  "xcfp_reg_read instr n = jbind (jseq [jshiftIR instr, jcycleTCK 1]) (\<lambda>_. jcaptureDR None n True)"

definition xcfp_verify_idcode :: "xcfp \<Rightarrow> int jm" where
  "xcfp_verify_idcode x =
     jbind (xcfp_reg_read XCFP_IDCODE 32) (\<lambda>data.
       jret (if byteArrayToLong data AND 0x0fffffff \<noteq> xcfp_id x AND 0x0fffffff then 1 else 0))"

text \<open>What every operation starts with; \<open>fail\<close> is its return for a wrong part.\<close>

definition xcfp_begin :: "xcfp \<Rightarrow> (int \<Rightarrow> 'a) \<Rightarrow> 'a jm \<Rightarrow> 'a jm" where
  "xcfp_begin x fail m =
     jbind (jseq [jreset, jUsleep 1000]) (\<lambda>_.
     jbind (xcfp_verify_idcode x) (\<lambda>ret.
       if ret \<noteq> 0 then jret (fail ret) else jbind xcfp_enable (\<lambda>_. m)))"

definition encodeCCB :: "xcfp \<Rightarrow> u16" where
  "encodeCCB x =
     0xffc0 OR (if ccbParallelMode x then 0x00 else 0x06) OR (if ccbMasterMode x then 0x00 else 0x08)
       OR (if ccbFastClock x then 0x30 else 0x10) OR (if ccbExternalClock x then 0x01 else 0x00)"

definition decodeCCB :: "u16 \<Rightarrow> xcfp \<Rightarrow> xcfp" where
  "decodeCCB ccb x =
     x\<lparr>ccbParallelMode := (ccb AND 0x06 = 0x00), ccbMasterMode := (ccb AND 0x08 = 0x00),
       ccbFastClock := (ccb AND 0x20 = 0x20), ccbExternalClock := (ccb AND 0x01 = 0x01)\<rparr>"

section \<open>Erasing\<close>

text \<open>The status that the last pass of a polling loop has read.\<close>

definition last_status :: "byte + byte \<Rightarrow> byte" where
  "last_status r = (case r of Inl b \<Rightarrow> b | Inr b \<Rightarrow> b)"

definition poll_result :: "byte list \<Rightarrow> (byte + byte) jm" where
  "poll_result xcstatus = jret (if hd xcstatus AND 0x04 \<noteq> 0 then Inl (hd xcstatus) else Inr (hd xcstatus))"

definition xcfp_erase_poll :: "byte jm" where
  "xcfp_erase_poll =
     jbind (jscan 0 280 (\<lambda>i _.
       jbind (jseq [jUsleep 490000, jshiftIR XCFP_XSC_OP_STATUS, jUsleep 10000]) (\<lambda>_.
       jbind (jcaptureDR None 8 True) poll_result)) 0) (\<lambda>r. jret (last_status r))"

definition xcfp_erase_mask :: "xcfp \<Rightarrow> nat \<Rightarrow> int jm" where
  "xcfp_erase_mask x array_mask =
     (let data = [0x30 OR of_nat array_mask, 0x00, 0x00]
      in xcfp_begin x id (
         jbind (jseq [jshiftIR XCFP_XSC_UNLOCK, jshiftDR data 24 True, jcycleTCK 1,
                      jshiftIRDR XCFP_ISC_ERASE data 24, jUsleep 10000]) (\<lambda>_.
         jbind xcfp_erase_poll (\<lambda>status.
         jbind xcfp_disable (\<lambda>_. jret (if status = 0x36 then 0 else 1))))))"

definition xcfp_erase :: "xcfp \<Rightarrow> int jm" where
  "xcfp_erase x = xcfp_erase_mask x (2 ^ narray x - 1)"

section \<open>Programming\<close>

definition xcfp_subrange :: "bitfile \<Rightarrow> nat \<Rightarrow> bool" where
  "xcfp_subrange bf len \<longleftrightarrow> boffset bf \<noteq> 0 \<or> rlength bf \<noteq> 0 \<and> rlength bf \<noteq> len"

abbreviation xcfp_no_subrange :: error where
  "xcfp_no_subrange \<equiv> InvalidArgument ''XCFP does not yet support bitfile subranges''"

definition xcfp_used_blocks :: "xcfp \<Rightarrow> nat \<Rightarrow> nat" where
  "xcfp_used_blocks x len =
     (let n = (len + xcfp_block - 1) mod 2 ^ 32 div xcfp_block;
          n = (if n = 0 then 1 else n)
      in if narray x < n then narray x else n)"

definition xcfp_frame :: "bitfile \<Rightarrow> nat \<Rightarrow> byte list res" where
  "xcfp_frame bf p =
     (if p + 32 \<le> blength bf then buf_slice (buffer bf) p 32
      else rbind (buf_slice (buffer bf) p (blength bf - p)) (\<lambda>d.
             Inr (d @ replicate (32 - (blength bf - p)) 0xff)))"

definition xcfp_program_poll :: "byte jm" where
  "xcfp_program_poll =
     jbind (jscan 0 100 (\<lambda>t _.
       jbind (jshiftIR XCFP_XSC_OP_STATUS) (\<lambda>_.
       jbind (jcaptureDR None 8 True) poll_result)) 0) (\<lambda>r. jret (last_status r))"

definition xcfp_program_frame :: "bitfile \<Rightarrow> nat \<Rightarrow> nat \<Rightarrow> byte jm" where
  "xcfp_program_frame bf i p =
     jbind (jshiftIR XCFP_ISC_DATA_SHIFT) (\<lambda>_.
     jbind (jlift (xcfp_frame bf p)) (\<lambda>d.
     jbind (jseq [jshiftDR d 256 True, jcycleTCK 1]) (\<lambda>_.
     jbind (if i = 0
            then jseq [jshiftIR XCFP_ISC_ADDRESS_SHIFT, jshiftDR (longToByteArray (of_nat p)) 24 True, jcycleTCK 1]
            else jret ()) (\<lambda>_.
     jbind (jseq [jshiftIR XCFP_ISC_PROGRAM, jUsleep (if i = 0 then 1000 else 25)]) (\<lambda>_.
       xcfp_program_poll)))))"

text \<open>A failure leaves the loop over the frames of a block only; the next block follows.\<close>

definition xcfp_program_block :: "bitfile \<Rightarrow> nat \<Rightarrow> int \<Rightarrow> int jm" where
  "xcfp_program_block bf k ret =
     jbind (jscan 0 32768 (\<lambda>i _.
       let p = k * xcfp_block + i * 32
       in if p \<ge> blength bf then jret (Inl ret)
          else jbind (xcfp_program_frame bf i p) (\<lambda>xcstatus.
                 jret (if xcstatus \<noteq> 0x36 then Inl 1 else Inr ()))) ()) (\<lambda>r.
     jret (case r of Inl ret \<Rightarrow> ret | Inr _ \<Rightarrow> ret))"

text \<open>Writing a register and reading it back.\<close>

definition xcfp_reg_write :: "byte list \<Rightarrow> byte list \<Rightarrow> nat \<Rightarrow> byte list jm" where
  "xcfp_reg_write instr d n =
     jbind (jseq [jshiftIR instr, jshiftDR d n True, jcycleTCK 1, jshiftIR XCFP_ISC_PROGRAM, jUsleep 1000]) (\<lambda>_.
       xcfp_reg_read instr n)"

definition btc_data :: "nat \<Rightarrow> u32" where
  "btc_data used_blocks = 0xffffffe0 OR push_bit 2 (of_nat (used_blocks - 1))"

definition done_data :: "xcfp \<Rightarrow> byte" where
  "done_data x = 0xc0 OR (0x0f AND push_bit (narray x) 0x0f)"

definition xcfp_write_regs :: "xcfp \<Rightarrow> nat \<Rightarrow> int \<Rightarrow> int jm" where
  "xcfp_write_regs x used_blocks ret =
     jbind (if ret = 0
            then jbind (xcfp_reg_write XCFP_XSC_DATA_BTC (longToByteArray (btc_data used_blocks)) 32) (\<lambda>d.
                   jret (if byteArrayToLong d \<noteq> btc_data used_blocks then 1 else ret))
            else jret ret) (\<lambda>ret.
     jbind (if ret = 0
            then jbind (xcfp_reg_write XCFP_XSC_DATA_CCB (shortToByteArray (encodeCCB x)) 16) (\<lambda>d.
                   jret (if byteArrayToShort d \<noteq> encodeCCB x then 1 else ret))
            else jret ret) (\<lambda>ret.
     jbind (if ret = 0
            then jbind (xcfp_reg_write XCFP_XSC_DATA_SUCR (shortToByteArray 0xfffc) 16) (\<lambda>d.
                   jret (if byteArrayToShort d \<noteq> 0xfffc then 1 else ret))
            else jret ret) (\<lambda>ret.
     if ret = 0
     then jbind (xcfp_reg_write XCFP_XSC_DATA_DONE [done_data x] 8) (\<lambda>d.
            jret (if hd d \<noteq> done_data x then 1 else ret))
     else jret ret)))"

definition xcfp_program :: "xcfp \<Rightarrow> bitfile \<Rightarrow> int jm" where
  "xcfp_program x bf =
     (if xcfp_subrange bf (blength bf) then jlift (Inl xcfp_no_subrange)
      else xcfp_begin x id (
        let used_blocks = xcfp_used_blocks x (blength bf)
        in jbind (jfold 0 used_blocks (xcfp_program_block bf) 0) (\<lambda>ret.
           jbind (xcfp_write_regs x used_blocks ret) (\<lambda>ret.
           jbind xcfp_disable (\<lambda>_. jret ret)))))"

section \<open>Verifying and reading\<close>

definition xcfp_set_address :: "nat \<Rightarrow> unit jm" where
  "xcfp_set_address p =
     jseq [jshiftIR XCFP_ISC_ADDRESS_SHIFT, jshiftDR (longToByteArray (of_nat p)) 24 True, jcycleTCK 1]"

definition xcfp_read_frame :: "byte list jm" where
  "xcfp_read_frame =
     jbind (jseq [jshiftIR XCFP_ISC_READ, jUsleep 25, jshiftIR XCFP_ISC_DATA_SHIFT, jcycleTCK 1]) (\<lambda>_.
       jcaptureDR None 256 True)"

definition xcfp_verify_block :: "bitfile \<Rightarrow> nat \<Rightarrow> int jm" where
  "xcfp_verify_block bf k =
     jbind (xcfp_set_address (k * xcfp_block)) (\<lambda>_.
     jbind (jscan 0 32768 (\<lambda>i _.
       let p = k * xcfp_block + i * 32; n = (if blength bf < p + 32 then blength bf - p else 32)
       in if p \<ge> blength bf then jret (Inl 0)
          else jbind xcfp_read_frame (\<lambda>data.
               jbind (jlift (buf_slice (buffer bf) p n)) (\<lambda>d.
                 jret (if memcmp (take n data) d \<noteq> 0 then Inl 1 else Inr ())))) ()) (\<lambda>r.
     jret (case r of Inl ret \<Rightarrow> ret | Inr _ \<Rightarrow> 0)))"

definition xcfp_verify_regs :: "xcfp \<Rightarrow> nat \<Rightarrow> int \<Rightarrow> int jm" where
  "xcfp_verify_regs x used_blocks ret =
     jbind (xcfp_reg_read XCFP_XSC_DATA_BTC 32) (\<lambda>btc.
     jbind (xcfp_reg_read XCFP_XSC_DATA_CCB 16) (\<lambda>ccb.
     jbind (xcfp_reg_read XCFP_XSC_DATA_SUCR 16) (\<lambda>sucr.
     jbind (xcfp_reg_read XCFP_XSC_DATA_DONE 8) (\<lambda>done.
       jret (if byteArrayToLong btc \<noteq> btc_data used_blocks \<or> byteArrayToShort ccb \<noteq> encodeCCB x \<or>
               sucr ! 0 \<noteq> 0xfc \<or> sucr ! 1 \<noteq> 0xff \<or> hd done \<noteq> done_data x then 1 else ret)))))"

definition xcfp_verify :: "xcfp \<Rightarrow> bitfile \<Rightarrow> int jm" where
  "xcfp_verify x bf =
     (if xcfp_subrange bf (blength bf) then jlift (Inl xcfp_no_subrange)
      else xcfp_begin x id (
        let used_blocks = xcfp_used_blocks x (blength bf)
        in jbind (jscan 0 used_blocks (\<lambda>k _.
             jbind (xcfp_verify_block bf k) (\<lambda>ret. jret (if ret \<noteq> 0 then Inl ret else Inr ()))) ()) (\<lambda>r.
           jbind (xcfp_verify_regs x used_blocks (case r of Inl ret \<Rightarrow> ret | Inr _ \<Rightarrow> 0)) (\<lambda>ret.
           jbind xcfp_disable (\<lambda>_. jret ret)))))"

definition xcfp_read_block :: "nat \<Rightarrow> nat \<Rightarrow> bitfile \<Rightarrow> bitfile jm" where
  "xcfp_read_block first_block k bf =
     jbind (xcfp_set_address (k * xcfp_block)) (\<lambda>_.
       jfold 0 32768 (\<lambda>i bf.
         jbind xcfp_read_frame (\<lambda>data.
         jbind (jlift (buf_store (buffer bf) ((k - first_block) * xcfp_block + i * 32) data)) (\<lambda>buf.
           jret (bf\<lparr>buffer := buf\<rparr>)))) bf)"

definition xcfp_read :: "xcfp \<Rightarrow> bitfile \<Rightarrow> (int \<times> bitfile \<times> xcfp) jm" where
  "xcfp_read x bf =
     (if xcfp_subrange bf (xcfp_getSize x div 8) then jlift (Inl xcfp_no_subrange)
      else xcfp_begin x (\<lambda>ret. (ret, bf, x)) (
        jbind (xcfp_reg_read XCFP_XSC_DATA_BTC 32) (\<lambda>data.
          let btc = byteArrayToLong data;
              first_block = unat (btc AND 0x03);
              last_block = unat (drop_bit 2 (btc AND 0x0c))
          in if last_block < first_block \<or> narray x \<le> last_block then jret (1, bf, x)
             else jbind (jfold first_block (last_block + 1 - first_block) (xcfp_read_block first_block)
                          (setLength ((last_block - first_block + 1) * 32768 * 256) bf)) (\<lambda>bf.
                  jbind (xcfp_reg_read XCFP_XSC_DATA_CCB 16) (\<lambda>ccb.
                  jbind (xcfp_reg_read XCFP_XSC_DATA_DONE 8) (\<lambda>_.
                  jbind (xcfp_reg_read XCFP_XSC_DATA_SUCR 16) (\<lambda>_.
                  jbind xcfp_disable (\<lambda>_.
                    jret (0, bf, decodeCCB (byteArrayToShort ccb) x)))))))))"

text \<open>The virtual methods; what \<^verbatim>\<open>read\<close> changes in the object stays with the object.\<close>

definition xcfp_alg :: "xcfp \<Rightarrow> progalg" where
  "xcfp_alg x = \<lparr>getSize = xcfp_getSize x, erase = xcfp_erase x, program = xcfp_program x, verify = xcfp_verify x,
     read = (\<lambda>bf. jbind (xcfp_read x bf) (\<lambda>(ret, bf, _). jret (ret, bf))), reconfig = xcfp_reconfig,
     disable = xcfp_disable\<rparr>"

end
