(* ===== verification/XCFPProm.thy ===== *)
theory XCFPProm
  imports ProgXCFP
begin

text \<open>
  A Platform Flash P PROM as \<^verbatim>\<open>ProgAlgXCFP\<close> sees it: an address counter that programming and
  reading a frame advance, a data register, the log of the frames and of the registers that
  \<open>ISC_PROGRAM\<close> has written, and what programming leaves in the log.
\<close>

record promp =
  qir :: byte
  qdat :: "bool list"
  qtarget :: byte
  qaddr :: nat
  qout :: nat
  qlog :: "(nat \<times> bool list) list"
  qregs :: "(nat \<times> bool list) list"

definition promp_regs :: "byte set" where
  "promp_regs = hd ` {XCFP_XSC_DATA_BTC, XCFP_XSC_DATA_CCB, XCFP_XSC_DATA_SUCR, XCFP_XSC_DATA_DONE}"

fun promp_step :: "promp \<Rightarrow> jop \<Rightarrow> promp" where
  "promp_step q (OpIR tdi want) =
     (if hd tdi = hd XCFP_ISC_PROGRAM
      then if qtarget q = hd XCFP_ISC_DATA_SHIFT
           then q\<lparr>qir := hd tdi, qlog := qlog q @ [(qaddr q, qdat q)], qaddr := qaddr q + 32\<rparr>
           else q\<lparr>qir := hd tdi, qregs := qregs q @ [(unat (qtarget q), qdat q)]\<rparr>
      else if hd tdi = hd XCFP_ISC_READ then q\<lparr>qir := hd tdi, qout := qaddr q, qaddr := qaddr q + 32\<rparr>
      else q\<lparr>qir := hd tdi\<rparr>)"
| "promp_step q (OpDR tdi want n align exit) =
     (if qir q = hd XCFP_ISC_ADDRESS_SHIFT then q\<lparr>qaddr := bits_nat (scan_in tdi n)\<rparr>
      else if qir q = hd XCFP_ISC_DATA_SHIFT \<or> qir q \<in> promp_regs then q\<lparr>qdat := scan_in tdi n, qtarget := qir q\<rparr>
      else q)"
| "promp_step q _ = q"

text \<open>
  Scans under \<open>ISC_DATA_SHIFT\<close> deliver the frame that \<open>ISC_READ\<close> has fetched, scans under the
  register instructions the register, and \<open>IDCODE\<close> the number of the part.
\<close>

definition promp_answer :: "u32 \<Rightarrow> (nat \<Rightarrow> bool list) \<Rightarrow> (nat \<Rightarrow> bool list) \<Rightarrow> promp \<Rightarrow> jop \<Rightarrow> byte list \<Rightarrow> bool" where
  "promp_answer devid mem regs q c r =
     (case c of
        OpDR None True n align True \<Rightarrow>
          (let m = (if qir q = hd XCFP_ISC_DATA_SHIFT then mem_after mem (qlog q) (qout q)
                    else if qir q \<in> promp_regs then mem_after regs (qregs q) (unat (qir q))
                    else if qir q = hd XCFP_IDCODE then buf_bits (longToByteArray devid) 32 else [])
           in n \<le> length m \<longrightarrow> buf_bits (fit (nbytes n) r) n = take n m)
      | _ \<Rightarrow> True)"

definition promp_init :: promp where
  "promp_init = \<lparr>qir = 0, qdat = [], qtarget = 0, qaddr = 0, qout = 0, qlog = [], qregs = []\<rparr>"

definition promp_dev :: "(promp \<Rightarrow> jop \<Rightarrow> byte list \<Rightarrow> bool) \<Rightarrow> promp device" where
  "promp_dev ans = \<lparr>dinit = promp_init, dstep = promp_step, dans = ans\<rparr>"

lemma promp_dev_sel [simp]: "dstep (promp_dev ans) = promp_step" "dans (promp_dev ans) = ans"
  by (simp_all add: promp_dev_def)

definition promp_view :: "jop list \<Rightarrow> promp" where
  "promp_view cs = foldl promp_step promp_init cs"

lemma wp_sub:
  assumes "wp (promp_dev ans) m Q q" "\<And>q c r. ans' q c r \<Longrightarrow> ans q c r"
  shows "wp (promp_dev ans') m Q q"
proof (rule wpI)
  fix k :: jlink assume k: "honest (promp_dev ans') (replies k)" "q = dview (promp_dev ans') (hist k)"
  have "honest (promp_dev ans) (replies k)" using k(1) by (rule honest_mono) (simp_all add: promp_dev_def assms(2))
  moreover have v: "dview (promp_dev ans) cs = dview (promp_dev ans') cs" for cs by (simp add: dview_def promp_dev_def)
  ultimately show "\<exists>x k'. m k = (Inr x, k') \<and> replies k' = replies k \<and> Q x (dview (promp_dev ans') (hist k'))"
    using assms(1) k(2) unfolding wp_def by simp
qed

lemma promp_dview [simp]: "dview (promp_dev ans) cs = promp_view cs"
  by (simp add: dview_def promp_view_def promp_dev_def)

text \<open>Nothing written: neither log changes.\<close>

definition pquiet :: "promp \<Rightarrow> promp \<Rightarrow> bool" where
  "pquiet q q' \<longleftrightarrow> qlog q' = qlog q \<and> qregs q' = qregs q"

lemma pquiet_refl [simp]: "pquiet q q"
  and pquiet_trans: "pquiet a b \<Longrightarrow> pquiet b c \<Longrightarrow> pquiet a c"
  by (simp_all add: pquiet_def)

lemma wp_conj: "wp dd m P v \<Longrightarrow> wp dd m R v \<Longrightarrow> wp dd m (\<lambda>x w. P x w \<and> R x w) v"
  unfolding wp_def by (metis Pair_inject sum.inject(2))

text \<open>A part that always reports success after a frame, and one that never does.\<close>

definition status_ok :: "(promp \<Rightarrow> jop \<Rightarrow> byte list \<Rightarrow> bool) \<Rightarrow> bool" where
  "status_ok ans \<longleftrightarrow> (\<forall>q r. qir q = hd XCFP_XSC_OP_STATUS \<longrightarrow> ans q (OpDR None True 8 0 True) r \<longrightarrow> hd (fit 1 r) = 0x36)"

definition status_bad :: "(promp \<Rightarrow> jop \<Rightarrow> byte list \<Rightarrow> bool) \<Rightarrow> bool" where
  "status_bad ans \<longleftrightarrow> (\<forall>q r. qir q = hd XCFP_XSC_OP_STATUS \<longrightarrow> ans q (OpDR None True 8 0 True) r \<longrightarrow> hd (fit 1 r) \<noteq> 0x36)"

lemma statusD:
  "ans q (OpDR None True 8 0 True) r \<Longrightarrow> qir q = 0xe3 \<Longrightarrow> status_ok ans \<Longrightarrow> hd (fit 1 r) = 0x36"
  "ans q (OpDR None True 8 0 True) r \<Longrightarrow> qir q = 0xe3 \<Longrightarrow> status_bad ans \<Longrightarrow> hd (fit 1 r) \<noteq> 0x36"
  by (auto simp: status_ok_def status_bad_def XCFP_XSC_OP_STATUS_def)

section \<open>Bytes of registers\<close>

lemma bit_255: "bit (255 :: 'a :: len word) i \<longleftrightarrow> i < LENGTH('a) \<and> i < 8"
  using bit_mask_iff [of 8 i, where ?'a = "'a word"] by (auto simp: mask_eq_exp_minus_1)

lemma bit_255s: "bit (255 :: nat) j \<longleftrightarrow> j < 8" "bit (255 :: int) j \<longleftrightarrow> j < 8"
  using bit_mask_iff [of 8 j, where ?'a = nat] bit_mask_iff [of 8 j, where ?'a = int]
  by (auto simp: mask_eq_exp_minus_1)

lemma byteArrayToShort_shortToByteArray: "byteArrayToShort (shortToByteArray w) = w"
proof (rule bit_word_eqI)
  fix i assume "i < LENGTH(16)"
  then show "bit (byteArrayToShort (shortToByteArray w)) i = bit w i"
    by (auto simp: byteArrayToShort_def shortToByteArray_def bit_simps bit_255 bit_255s)
qed

lemma length_short [simp]: "length (shortToByteArray w) = 2"
  by (simp add: shortToByteArray_def)

lemma add_disjoint: "(\<And>i. \<not> (bit a i \<and> bit b i)) \<Longrightarrow> a + b = a OR b" for a b :: "'a :: len word"
  by (rule disjunctive_add_eq_or) (auto simp: bit_eq_iff bit_and_iff)

lemma byteArrayToLong_longToByteArray: "byteArrayToLong (longToByteArray w) = w"
proof -
  define b where "b k = (push_bit (8 * k) (ucast (ucast (drop_bit (8 * k) w AND 255) :: byte)) :: u32)" for k
  have bit_b: "bit (b k) i \<longleftrightarrow> i < 32 \<and> 8 * k \<le> i \<and> i < 8 * k + 8 \<and> bit w i" for k i
    unfolding b_def by (auto simp: bit_simps bit_255 bit_255s)
  have "byteArrayToLong (longToByteArray w) = b 3 + b 2 + b 1 + b 0"
    by (simp add: byteArrayToLong_def longToByteArray_def b_def)
  also have "b 3 + b 2 = b 3 OR b 2" by (rule add_disjoint) (auto simp: bit_b)
  also have "\<dots> + b 1 = (b 3 OR b 2) OR b 1" by (rule add_disjoint) (auto simp: bit_b bit_or_iff)
  also have "\<dots> + b 0 = ((b 3 OR b 2) OR b 1) OR b 0" by (rule add_disjoint) (auto simp: bit_b bit_or_iff)
  also have "\<dots> = w" by (rule bit_word_eqI) (auto simp: bit_b bit_or_iff)
  finally show ?thesis .
qed
lemma promp_regs [simp]: "hd XCFP_XSC_DATA_BTC \<in> promp_regs" "hd XCFP_XSC_DATA_CCB \<in> promp_regs"
  "hd XCFP_XSC_DATA_SUCR \<in> promp_regs" "hd XCFP_XSC_DATA_DONE \<in> promp_regs"
  by (simp_all add: promp_regs_def)

lemma promp_regsD: "b \<in> promp_regs \<Longrightarrow> b \<noteq> 0xea \<and> b \<noteq> 0xf8 \<and> b \<noteq> 0xeb \<and> b \<noteq> 0xed \<and> b \<noteq> 0xfe"
  by (auto simp: promp_regs_def xcfp_codes)

lemma not_promp_regs [simp]: "0xeb \<notin> promp_regs" "0xed \<notin> promp_regs" "0xfe \<notin> promp_regs" "0xe3 \<notin> promp_regs"
  "0xe8 \<notin> promp_regs" "0xf0 \<notin> promp_regs" "0xff \<notin> promp_regs"
  by (auto simp: promp_regs_def xcfp_codes)

section \<open>Registers\<close>

lemma wp_reg_read:
  assumes "hd instr \<in> promp_regs"
    and "\<And>d q'. pquiet q q' \<Longrightarrow> length d = nbytes n \<Longrightarrow>
      (n \<le> length (mem_after regs (qregs q) (unat (hd instr))) \<Longrightarrow>
        buf_bits d n = take n (mem_after regs (qregs q) (unat (hd instr)))) \<Longrightarrow> Q d q'"
  shows "wp (promp_dev (promp_answer devid mem regs)) (xcfp_reg_read instr n) Q q"
  unfolding xcfp_reg_read_def
  by (intro wp_intro assms(2))
    (use promp_regsD [OF assms(1)] assms(1) in \<open>auto simp: pquiet_def promp_answer_def Let_def xcfp_codes\<close>)

lemma wp_reg_write:
  assumes "hd instr \<in> promp_regs"
    and "\<And>x q'. qlog q' = qlog q \<Longrightarrow> qregs q' = qregs q @ [(unat (hd instr), buf_bits d n)] \<Longrightarrow> Q x q'"
  shows "wp (promp_dev ans) (xcfp_reg_write instr d n) Q q"
  unfolding xcfp_reg_write_def xcfp_reg_read_def
  by (intro wp_intro assms(2))
    (use promp_regsD [OF assms(1)] assms(1) in \<open>auto simp: Let_def xcfp_codes\<close>)

text \<open>The four registers after programming.\<close>

definition reg_image :: "xcfp \<Rightarrow> nat \<Rightarrow> (nat \<times> bool list) list" where
  "reg_image x used_blocks =
     [(unat (hd XCFP_XSC_DATA_BTC), buf_bits (longToByteArray (btc_data used_blocks)) 32),
      (unat (hd XCFP_XSC_DATA_CCB), buf_bits (shortToByteArray (encodeCCB x)) 16),
      (unat (hd XCFP_XSC_DATA_SUCR), buf_bits (shortToByteArray 0xfffc) 16),
      (unat (hd XCFP_XSC_DATA_DONE), buf_bits [done_data x] 8)]"

lemma reg_bytes: "length d = length w \<Longrightarrow> buf_bits d (8 * length w) = buf_bits w (8 * length w) \<Longrightarrow> d = w"
  by (rule buf_bits_inject) simp_all

text \<open>A part that delivers what was written passes the comparison after writing.\<close>

lemma wp_reg_write_ok:
  assumes "hd instr \<in> promp_regs" "n = 8 * length w"
    and "\<And>q'. qlog q' = qlog q \<Longrightarrow> qregs q' = qregs q @ [(unat (hd instr), buf_bits w n)] \<Longrightarrow> Q w q'"
  shows "wp (promp_dev (promp_answer devid mem regs)) (xcfp_reg_write instr w n) Q q"
  unfolding xcfp_reg_write_def
proof (intro wp_intro wp_reg_read [OF assms(1)], goal_cases)
  case (1 d q')
  have w: "qregs q' = qregs q @ [(unat (hd instr), buf_bits w n)]" "qlog q' = qlog q"
    using 1(1) promp_regsD [OF assms(1)] assms(1) by (simp_all add: pquiet_def xcfp_codes)
  have "buf_bits d n = buf_bits w n"
    using 1(3) promp_regsD [OF assms(1)] assms(1) by (simp add: xcfp_codes mem_after_def)
  then have "d = w" using 1(2) assms(2) by (intro reg_bytes) (simp_all add: nbytes_def)
  then show ?case using w by (auto intro: assms(3))
qed

lemma wp_write_regs:
  "wp (promp_dev ans) (xcfp_write_regs x used_blocks ret)
     (\<lambda>r q'. qlog q' = qlog q \<and> (r = 0 \<longrightarrow> ret = 0 \<and> qregs q' = qregs q @ reg_image x used_blocks) \<and>
        (ret \<noteq> 0 \<longrightarrow> r = ret \<and> qregs q' = qregs q)) q"
  unfolding xcfp_write_regs_def
  by (cases "ret = 0") (auto intro!: wp_intro wp_reg_write simp: reg_image_def)

lemma wp_write_regs_ok:
  "wp (promp_dev (promp_answer devid mem regs)) (xcfp_write_regs x used_blocks 0) (\<lambda>r _. r = 0) q"
  unfolding xcfp_write_regs_def
  by (auto intro!: wp_intro wp_reg_write_ok simp: byteArrayToLong_longToByteArray byteArrayToShort_shortToByteArray)

section \<open>Programming\<close>

lemma wp_xcfp_ends:
  assumes "\<And>q'. pquiet q q' \<Longrightarrow> Q () q'"
  shows "wp (promp_dev ans) xcfp_enable Q q" "wp (promp_dev ans) xcfp_disable Q q"
  unfolding xcfp_enable_def xcfp_disable_def
  by (intro wp_intro assms; simp add: pquiet_def xcfp_codes)+

text \<open>A part with the right number passes the check.\<close>

lemma wp_xcfp_begin:
  assumes "\<And>q'. pquiet q q' \<Longrightarrow> wp (promp_dev ans) m Q q'"
    and ans: "\<And>q c r. ans q c r \<Longrightarrow> promp_answer (xcfp_id x) mem regs q c r"
  shows "wp (promp_dev ans) (xcfp_begin x fail m) Q q"
proof -
  let ?dev = "promp_dev ans"
  have inj: "d = longToByteArray w" if "length d = 4" "buf_bits d 32 = buf_bits (longToByteArray w) 32" for d w
    using buf_bits_inject [of d 4 "longToByteArray w"] that by simp
  have "wp (promp_dev (promp_answer (xcfp_id x) mem regs)) (xcfp_verify_idcode x) (\<lambda>r q'. r = 0 \<and> pquiet p q') p" for p
    unfolding xcfp_verify_idcode_def xcfp_reg_read_def
    by (intro wp_intro)
      (auto simp: pquiet_def promp_answer_def xcfp_codes nbytes_def byteArrayToLong_longToByteArray dest!: inj [rotated])
  then have idcode: "wp ?dev (xcfp_verify_idcode x) (\<lambda>r q'. r = 0 \<and> pquiet p q') p" for p by (rule wp_sub [OF _ ans])
  show ?thesis
    unfolding xcfp_begin_def
  proof (intro wp_bind wp_seq_Cons wp_seq_Nil wp_ops wp_mono [OF idcode] wp_if)
    fix r and q1 :: promp assume "r = 0 \<and> pquiet (dstep ?dev (dstep ?dev q OpReset) (OpSleep 1000)) q1" "\<not> r \<noteq> 0"
    then have "pquiet q q1" by (simp add: pquiet_def)
    then show "wp ?dev xcfp_enable (\<lambda>_. wp ?dev m Q) q1"
      by (intro wp_xcfp_ends assms(1)) (auto intro: pquiet_trans)
  qed auto
qed

text \<open>Frame \<open>f\<close> of a file, filled with ones.\<close>

definition frame_bytes :: "bitfile \<Rightarrow> nat \<Rightarrow> byte list" where
  "frame_bytes bf f = map (\<lambda>j. if 32 * f + j < blength bf then buffer bf ! (32 * f + j) else 0xff) [0..<32]"

definition frame_image :: "bitfile \<Rightarrow> nat \<Rightarrow> nat \<times> bool list" where
  "frame_image bf f = (32 * f, buf_bits (frame_bytes bf f) 256)"

definition frames :: "bitfile \<Rightarrow> nat" where
  "frames bf = (blength bf + 31) div 32"

lemma frames_iff: "f < frames bf \<longleftrightarrow> 32 * f < blength bf"
  by (auto simp: frames_def)

lemma xcfp_frame_bytes:
  assumes "blength bf \<le> length (buffer bf)" "f < frames bf"
  shows "xcfp_frame bf (32 * f) = Inr (frame_bytes bf f)"
proof -
  let ?n = "min 32 (blength bf - 32 * f)"
  have "buf_slice (buffer bf) (32 * f) ?n = Inr (take ?n (drop (32 * f) (buffer bf)))"
    using assms by (auto simp: buf_slice_def frames_iff min_def)
  moreover have "take ?n (drop (32 * f) (buffer bf)) @ replicate (32 - ?n) 0xff = frame_bytes bf f"
    by (rule nth_equalityI) (use assms in \<open>auto simp: frame_bytes_def frames_iff nth_append\<close>)
  moreover have "?n = (if 32 * f + 32 \<le> blength bf then 32 else blength bf - 32 * f)" by auto
  ultimately show ?thesis
    by (cases "32 * f + 32 \<le> blength bf") (simp_all add: xcfp_frame_def)
qed

lemma wp_program_poll:
  assumes "\<And>b q'. pquiet q q' \<Longrightarrow> qaddr q' = qaddr q \<Longrightarrow> qtarget q' = qtarget q \<Longrightarrow>
      (status_ok ans \<Longrightarrow> b = 0x36) \<Longrightarrow> (status_bad ans \<Longrightarrow> b \<noteq> 0x36) \<Longrightarrow> Q b q'"
  shows "wp (promp_dev ans) xcfp_program_poll Q q"
  unfolding xcfp_program_poll_def
proof (intro wp_bind wp_scan [where I = "\<lambda>j b q'. pquiet q q' \<and> qaddr q' = qaddr q \<and> qtarget q' = qtarget q \<and>
      (0 < j \<longrightarrow> status_ok ans \<longrightarrow> b = 0x36) \<and> (status_bad ans \<longrightarrow> b \<noteq> 0x36)"], goal_cases)
  case (1 j b q1)
  have n: "nbytes 8 = 1" by (simp add: nbytes_def)
  have ok: "status_ok ans \<longrightarrow> hd (fit 1 r) = 0x36" "status_bad ans \<longrightarrow> hd (fit 1 r) \<noteq> 0x36"
    if "ans (q1\<lparr>qir := 0xe3\<rparr>) (OpDR None True 8 0 True) r" for r
    using statusD [where ans = ans, OF that] by simp_all
  show ?case
    unfolding poll_result_def
    by (intro wp_intro) (use 1 ok in \<open>auto intro!: wp_ret assms simp: pquiet_def xcfp_codes last_status_def n\<close>)
qed (auto intro!: wp_ret assms simp: last_status_def)

lemma wp_program_frame:
  assumes "blength bf \<le> length (buffer bf)" "f < frames bf" "32 * f < 2 ^ 24" "i \<noteq> 0 \<longrightarrow> qaddr q = 32 * f" "p = 32 * f"
    and "\<And>st q'. qlog q' = qlog q @ [frame_image bf f] \<Longrightarrow> qregs q' = qregs q \<Longrightarrow> qaddr q' = 32 * Suc f \<Longrightarrow>
      (status_ok ans \<Longrightarrow> st = 0x36) \<Longrightarrow> (status_bad ans \<Longrightarrow> st \<noteq> 0x36) \<Longrightarrow> Q st q'"
  shows "wp (promp_dev ans) (xcfp_program_frame bf i p) Q q"
proof -
  have addr: "bits_nat (buf_bits (longToByteArray (of_nat (32 * f))) 24) = 32 * f"
    by (rule bits_nat_long_less [OF assms(3)]) simp
  show ?thesis
    unfolding xcfp_program_frame_def assms(5)
    by (cases "i = 0"; simp del: of_nat_mult jseq.simps;
        intro wp_intro wp_lift [OF xcfp_frame_bytes [OF assms(1,2)]] wp_program_poll assms(6))
      (use assms(4) addr in \<open>auto simp: pquiet_def xcfp_codes frame_image_def simp del: of_nat_mult\<close>)
qed

text \<open>The number of frames before block \<open>k\<close>.\<close>

definition before :: "bitfile \<Rightarrow> nat \<Rightarrow> nat" where
  "before bf k = min (k * 32768) (frames bf)"

lemma block_pos: "k * xcfp_block + i * 32 = 32 * (k * 32768 + i)"
  by (simp add: xcfp_block_def)

lemma past_end: "blength bf \<le> 32 * f \<longleftrightarrow> frames bf \<le> f"
  using frames_iff [of f bf] by linarith

lemma wp_program_block:
  assumes "blength bf \<le> length (buffer bf)" "k < 4" "k * 32768 \<le> frames bf"
    and "\<And>r q'. qregs q' = qregs q \<Longrightarrow> r = 1 \<or> r = ret \<Longrightarrow>
      (r = 0 \<Longrightarrow> qlog q' = qlog q @ map (frame_image bf) [k * 32768..<before bf (Suc k)]) \<Longrightarrow>
      (status_ok ans \<Longrightarrow> r = ret) \<Longrightarrow>
      (status_bad ans \<Longrightarrow> k * 32768 < frames bf \<Longrightarrow> r = 1 \<and> qlog q' = qlog q @ [frame_image bf (k * 32768)]) \<Longrightarrow> Q r q'"
    and "ret = 0 \<or> ret = 1"
  shows "wp (promp_dev ans) (xcfp_program_block bf k ret) Q q"
  unfolding xcfp_program_block_def
proof (intro wp_bind wp_scan [where I = "\<lambda>i _ q'. k * 32768 + i \<le> frames bf \<and> qregs q' = qregs q \<and>
      qlog q' = qlog q @ map (frame_image bf) [k * 32768..<k * 32768 + i] \<and> (i \<noteq> 0 \<longrightarrow> qaddr q' = 32 * (k * 32768 + i)) \<and>
      (status_bad ans \<longrightarrow> i = 0)"], goal_cases)
  case (1 i x v)
  show ?case
  proof (cases "frames bf \<le> k * 32768 + i")
    case True
    then have "before bf (Suc k) = k * 32768 + i" using 1 by (simp add: before_def)
    then show ?thesis
      unfolding block_pos past_end Let_def using True 1 by (auto intro!: wp_ret assms(4))
  next
    case False
    have f: "32 * (k * 32768 + i) < 2 ^ 24" using 1(2) assms(2) by simp
    show ?thesis
      unfolding block_pos past_end Let_def
      by (simp only: False if_False, intro wp_bind wp_program_frame [OF assms(1) _ f] wp_ret)
        (use 1 False in \<open>auto intro!: wp_ret assms(4)\<close>)
  qed
next
  case (2 x v)
  then have "before bf (Suc k) = k * 32768 + 32768" by (simp add: before_def)
  with 2 show ?case by (auto intro!: wp_ret assms(4))
next
  case 3
  then show ?case using assms(3) by simp
qed

lemma used_blocks:
  assumes "blength bf < 2 ^ 31"
  shows "k < xcfp_used_blocks x (blength bf) \<Longrightarrow> k * 32768 \<le> frames bf"
    and "xcfp_used_blocks x (blength bf) \<le> narray x"
    and "before bf (xcfp_used_blocks x (blength bf)) = min (narray x * 32768) (frames bf)"
    and "0 < narray x \<Longrightarrow> 0 < xcfp_used_blocks x (blength bf)"
    and "k < xcfp_used_blocks x (blength bf) \<Longrightarrow> 0 < blength bf \<Longrightarrow> k * 32768 < frames bf"
proof -
  let ?L = "blength bf" and ?u = "xcfp_used_blocks x (blength bf)"
  define n where "n = (?L + xcfp_block - 1) div xcfp_block"
  have n: "?L \<le> n * 0x100000" "n * 0x100000 < ?L + 0x100000"
    by (simp_all add: n_def xcfp_block_def)
  have u: "?u = min (narray x) (max 1 n)"
    using assms by (auto simp: xcfp_used_blocks_def Let_def n_def xcfp_block_def)
  show "?u \<le> narray x" "0 < narray x \<Longrightarrow> 0 < ?u" by (simp_all add: u)
  show less: "k * 32768 < frames bf" if "k < ?u" "0 < ?L"
  proof (cases k)
    case 0
    then show ?thesis using that(2) by (simp add: frames_iff)
  next
    case (Suc m)
    then have "k + 1 \<le> n" using that by (auto simp: u)
    then have "(k + 1) * 0x100000 < ?L + 0x100000"
      using n(2) mult_le_mono1 [of "k + 1" n "0x100000"] by (meson le_less_trans)
    then have "32 * (k * 32768) < ?L" by simp
    then show ?thesis using frames_iff [of "k * 32768" bf] by simp
  qed
  show "k * 32768 \<le> frames bf" if "k < ?u"
  proof (cases "0 < ?L")
    case False
    then have "n \<le> 0" using n(2) by simp
    then have "k = 0" using that by (auto simp: u)
    then show ?thesis by simp
  qed (use less [OF that] in simp)
  have "frames bf \<le> max 1 n * 32768" using n(1) by (auto simp: frames_def max_def)
  then show "before bf ?u = min (narray x * 32768) (frames bf)"
    by (auto simp: before_def u min_def)
qed

lemma wp_xcfp_program:
  assumes "blength bf \<le> length (buffer bf)" "blength bf < 2 ^ 31" "0 < narray x" "narray x \<le> 4"
    "\<not> xcfp_subrange bf (blength bf)"
    and ans: "\<And>q c r. ans q c r \<Longrightarrow> promp_answer (xcfp_id x) mem regs q c r"
  shows "wp (promp_dev ans) (xcfp_program x bf)
     (\<lambda>r q'. (r = 0 \<longrightarrow> qlog q' = qlog q @ map (frame_image bf) [0..<min (narray x * 32768) (frames bf)] \<and>
          qregs q' = qregs q @ reg_image x (xcfp_used_blocks x (blength bf))) \<and>
        (status_ok ans \<longrightarrow> r = 0) \<and>
        (status_bad ans \<longrightarrow> 0 < blength bf \<longrightarrow> r = 1 \<and> qregs q' = qregs q \<and>
          qlog q' = qlog q @ map (\<lambda>k. frame_image bf (k * 32768)) [0..<xcfp_used_blocks x (blength bf)])) q"
proof -
  let ?dev = "promp_dev ans" and ?u = "xcfp_used_blocks x (blength bf)"
  let ?P = "\<lambda>k q1 r q'. qregs q' = qregs q1 \<and> (r = 0 \<or> r = 1) \<and>
      (r = 0 \<longrightarrow> qlog q' = qlog q1 @ map (frame_image bf) [0..<before bf k]) \<and> (status_ok ans \<longrightarrow> r = 0) \<and>
      (status_bad ans \<longrightarrow> 0 < blength bf \<longrightarrow> (k \<noteq> 0 \<longrightarrow> r = 1) \<and>
        qlog q' = qlog q1 @ map (\<lambda>k. frame_image bf (k * 32768)) [0..<k])"
  have blocks: "wp ?dev (jfold 0 ?u (xcfp_program_block bf) 0) (?P ?u q1) q1" for q1
  proof (rule wp_fold [where I = "\<lambda>k. ?P k q1"], goal_cases)
    case (1 k r v)
    have k: "k * 32768 \<le> frames bf" "k < 4"
      using 1 used_blocks(1) [OF assms(2), of k x] used_blocks(2) [OF assms(2), of x] assms(4) by auto
    have b: "before bf k = k * 32768" "k * 32768 \<le> before bf (Suc k)" using k(1) by (auto simp: before_def)
    then obtain d where "before bf (Suc k) = k * 32768 + d" by (auto simp: le_iff_add)
    then have upt: "[0..<before bf k] @ [k * 32768..<before bf (Suc k)] = [0..<before bf (Suc k)]"
      using upt_add_eq_append [of 0 "k * 32768" d] b(1) by simp
    have pos: "k * 32768 < frames bf" if "0 < blength bf"
      using used_blocks(5) [OF assms(2), of k x] 1 that by simp
    show ?case
    proof (rule wp_program_block [OF assms(1) k(2,1)])
      fix r' and q' :: promp
      assume a: "qregs q' = qregs v" "r' = 1 \<or> r' = r"
        "r' = 0 \<Longrightarrow> qlog q' = qlog v @ map (frame_image bf) [k * 32768..<before bf (Suc k)]"
        "status_ok ans \<Longrightarrow> r' = r"
        "status_bad ans \<Longrightarrow> k * 32768 < frames bf \<Longrightarrow> r' = 1 \<and> qlog q' = qlog v @ [frame_image bf (k * 32768)]"
      have "qlog q' = qlog q1 @ map (frame_image bf) [0..<before bf (Suc k)]" if "r' = 0"
        using a(2) a(3) [OF that] 1(3) that unfolding upt [symmetric] map_append by simp
      moreover have "qlog q' = qlog q1 @ map (\<lambda>k. frame_image bf (k * 32768)) [0..<Suc k]" if "status_bad ans" "0 < blength bf"
        using a(5) [OF that(1) pos [OF that(2)]] 1(3) that by simp
      moreover have "r' = 1" if "status_bad ans" "0 < blength bf"
        using a(5) [OF that(1) pos [OF that(2)]] by simp
      ultimately show "?P (Suc k) q1 r' q'" using a(1,2,4) 1(3) by (intro conjI impI) (auto simp del: upt_Suc upt_rec_numeral) 
    qed (use 1(3) in simp)
  qed (auto simp: before_def)
  show ?thesis
    unfolding xcfp_program_def if_not_P [OF assms(5)] Let_def
  proof (intro wp_xcfp_begin [OF _ ans] wp_bind wp_mono [OF blocks], goal_cases)
    case (1 q1 r q2)
    have "wp ?dev (xcfp_write_regs x ?u r) (\<lambda>r' _. r = 0 \<longrightarrow> r' = 0) q2"
    proof (cases "r = 0")
      case True
      have "wp ?dev (xcfp_write_regs x ?u 0) (\<lambda>r _. r = 0) q2" by (rule wp_sub [OF wp_write_regs_ok ans])
      then show ?thesis using True by simp
    qed (use wp_mono [OF wp_write_regs] in auto)
    note regs = wp_conj [OF wp_write_regs this]
    have u: "status_bad ans \<Longrightarrow> 0 < blength bf \<Longrightarrow> r = 1" using 1(2) used_blocks(4) [OF assms(2), of x] assms(3) by simp
    show ?case
    proof (intro wp_mono [OF regs] wp_bind wp_xcfp_ends wp_ret, goal_cases)
      case (1 r' q3 q4)
      define A where "A = map (frame_image bf) [0..<before bf ?u]"
      define B where "B = map (\<lambda>k. frame_image bf (k * 32768)) [0..<?u]"
      define R where "R = reg_image x ?u"
      have q: "qlog q1 = qlog q" "qregs q1 = qregs q" "qlog q4 = qlog q2" "qregs q4 = qregs q3" "qlog q3 = qlog q2"
        using \<open>pquiet q q1\<close> [unfolded pquiet_def] 1(2) [unfolded pquiet_def] 1(1) [THEN conjunct1, THEN conjunct1]
        by simp_all
      have r: "r' = r" "r = 0 \<Longrightarrow> qregs q3 = qregs q2 @ R" "r \<noteq> 0 \<Longrightarrow> qregs q3 = qregs q2"
        using 1(1) unfolding R_def by metis+
      have f: "qregs q2 = qregs q1" "r = 0 \<Longrightarrow> qlog q2 = qlog q1 @ A" "status_ok ans \<Longrightarrow> r = 0"
        "status_bad ans \<Longrightarrow> 0 < blength bf \<Longrightarrow> qlog q2 = qlog q1 @ B"
        using \<open>?P ?u q1 r q2\<close> unfolding A_def B_def by blast+
      show ?case
        unfolding used_blocks(3) [OF assms(2), of x, symmetric] A_def [symmetric] B_def [symmetric] R_def [symmetric]
        using q r f u by auto
    qed
  qed
qed

end
