(* ===== verification/XCFPProps.thy ===== *)
theory XCFPProps
  imports XCFPProm
begin

text \<open>
  Verifying and reading back a Platform Flash P PROM, the round trip of programming, what
  programming does to a part that fails, and the protocol.
\<close>

section \<open>Verifying\<close>

lemma wp_set_address:
  assumes "32 * f < 2 ^ 24" "p = 32 * f" "\<And>q'. pquiet q q' \<Longrightarrow> qaddr q' = 32 * f \<Longrightarrow> Q () q'"
  shows "wp (promp_dev ans) (xcfp_set_address p) Q q"
proof -
  have addr: "bits_nat (buf_bits (longToByteArray (of_nat (32 * f))) 24) = 32 * f"
    by (rule bits_nat_long_less [OF assms(1)]) simp
  show ?thesis
    unfolding xcfp_set_address_def assms(2)
    by (intro wp_intro assms(3)) (use addr in \<open>auto simp: pquiet_def xcfp_codes simp del: of_nat_mult\<close>)
qed

lemma wp_read_frame:
  assumes "\<And>d q'. pquiet q q' \<Longrightarrow> qaddr q' = qaddr q + 32 \<Longrightarrow> length d = 32 \<Longrightarrow>
      (256 \<le> length (mem_after mem (qlog q) (qaddr q)) \<Longrightarrow>
        buf_bits d 256 = take 256 (mem_after mem (qlog q) (qaddr q))) \<Longrightarrow> Q d q'"
  shows "wp (promp_dev (promp_answer devid mem regs)) xcfp_read_frame Q q"
  unfolding xcfp_read_frame_def
  by (intro wp_intro assms) (auto simp: pquiet_def promp_answer_def Let_def xcfp_codes nbytes_def)

text \<open>Frame \<open>f\<close> of the part begins with the bytes of the file.\<close>

definition frame_len :: "bitfile \<Rightarrow> nat \<Rightarrow> nat" where
  "frame_len bf f = min 32 (blength bf - 32 * f)"

lemma frame_len_if: "(if blength bf < 32 * f + 32 then blength bf - 32 * f else 32) = frame_len bf f"
  by (auto simp: frame_len_def)

definition frame_agree :: "bitfile \<Rightarrow> (nat \<Rightarrow> bool list) \<Rightarrow> nat \<Rightarrow> bool" where
  "frame_agree bf mem f \<longleftrightarrow>
     take (8 * frame_len bf f) (mem (32 * f)) = buf_bits (drop (32 * f) (buffer bf)) (8 * frame_len bf f)"

lemma memcmp_frame:
  assumes "blength bf \<le> length (buffer bf)" "f < frames bf" "length d = 32"
    and "buf_bits d 256 = take 256 (mem (32 * f))" "256 \<le> length (mem (32 * f))"
  obtains s where "buf_slice (buffer bf) (32 * f) (frame_len bf f) = Inr s"
    "memcmp (take (frame_len bf f) d) s = 0 \<longleftrightarrow> frame_agree bf mem f"
proof
  let ?n = "frame_len bf f"
  let ?s = "take ?n (drop (32 * f) (buffer bf))"
  have n: "?n \<le> 32" "32 * f + ?n \<le> length (buffer bf)"
    using assms(1,2) by (auto simp: frame_len_def frames_iff min_def)
  then show "buf_slice (buffer bf) (32 * f) ?n = Inr ?s" by (simp add: buf_slice_def)
  have l: "length (take ?n d) = ?n" "length ?s = ?n" using n assms(3) by auto
  have "buf_bits (take ?n d) (8 * ?n) = take (8 * ?n) (buf_bits d 256)"
    using n(1) by (simp add: buf_bits_take) (simp add: buf_bits_def take_map)
  also have "\<dots> = take (8 * ?n) (mem (32 * f))" unfolding assms(4) using n(1) by (simp add: min_absorb1)
  finally have "frame_agree bf mem f \<longleftrightarrow> buf_bits (take ?n d) (8 * ?n) = buf_bits ?s (8 * ?n)"
    by (simp add: frame_agree_def buf_bits_take)
  also have "\<dots> \<longleftrightarrow> take ?n d = ?s" using buf_bits_inject [OF l] by auto
  finally show "memcmp (take ?n d) ?s = 0 \<longleftrightarrow> frame_agree bf mem f" using l by (simp add: memcmp_0)
qed

lemma wp_verify_block:
  assumes "blength bf \<le> length (buffer bf)" "k < 4" "k * 32768 \<le> frames bf"
    and len: "\<And>a. 256 \<le> length (mem_after mem (qlog q) a)"
    and Q: "\<And>q'. pquiet q q' \<Longrightarrow>
      Q (if \<forall>f \<in> {k * 32768..<before bf (Suc k)}. frame_agree bf (mem_after mem (qlog q)) f then 0 else 1) q'"
  shows "wp (promp_dev (promp_answer devid mem regs)) (xcfp_verify_block bf k) Q q"
proof -
  let ?dev = "promp_dev (promp_answer devid mem regs)" and ?ok = "frame_agree bf (mem_after mem (qlog q))"
  let ?I = "\<lambda>i q'. pquiet q q' \<and> qaddr q' = 32 * (k * 32768 + i) \<and> k * 32768 + i \<le> frames bf \<and>
    (\<forall>f \<in> {k * 32768..<k * 32768 + i}. ?ok f)"
  have Q1: "Q 1 q'" if "pquiet q q'" "f \<in> {k * 32768..<before bf (Suc k)}" "\<not> ?ok f" for f q'
    using Q [OF that(1)] that(2,3) by (auto split: if_splits)
  have Q0: "Q 0 q'" if "pquiet q q'" "\<forall>f \<in> {k * 32768..<before bf (Suc k)}. ?ok f" for q'
    using Q [OF that(1)] that(2) by simp
  have addr: "32 * (k * 32768 + 0) < (2 :: nat) ^ 24" using assms(2) by simp
  show ?thesis
    unfolding xcfp_verify_block_def
  proof (intro wp_bind wp_set_address [OF addr], goal_cases)
    case (2 q1)
    show ?case
    proof (rule wp_scan [where I = "\<lambda>i _. ?I i"], goal_cases)
      case (1 i x v)
      let ?f = "k * 32768 + i"
      show ?case
      proof (cases "frames bf \<le> ?f")
        case True
        then have "before bf (Suc k) = ?f" using 1 by (simp add: before_def)
        then show ?thesis
          unfolding block_pos past_end Let_def using True 1 by (auto intro!: wp_ret Q0)
      next
        case False
        then have f: "?f < frames bf" "?f \<in> {k * 32768..<before bf (Suc k)}" using 1(2) by (auto simp: before_def)
        show ?thesis
          unfolding block_pos past_end Let_def frame_len_if if_not_P [OF False]
        proof (intro wp_bind wp_read_frame)
          fix d and q2 :: promp
          assume q2: "pquiet v q2" "qaddr q2 = qaddr v + 32" "length d = 32"
            "256 \<le> length (mem_after mem (qlog v) (qaddr v)) \<Longrightarrow> buf_bits d 256 = take 256 (mem_after mem (qlog v) (qaddr v))"
          have v: "qlog v = qlog q" "qaddr v = 32 * ?f" using 1(3) by (simp_all add: pquiet_def)
          have "buf_bits d 256 = take 256 (mem_after mem (qlog q) (32 * ?f))" using q2(4) len unfolding v by blast
          then obtain s where s: "buf_slice (buffer bf) (32 * ?f) (frame_len bf ?f) = Inr s"
            "memcmp (take (frame_len bf ?f) d) s = 0 \<longleftrightarrow> ?ok ?f"
            using memcmp_frame [where mem = "mem_after mem (qlog q)", OF assms(1) f(1) q2(3) _ len] by metis
          have "pquiet q q2" using 1(3) q2(1) by (auto intro: pquiet_trans)
          then show "wp ?dev (jlift (buf_slice (buffer bf) (32 * ?f) (frame_len bf ?f)))
              (\<lambda>e. wp ?dev (jret (if memcmp (take (frame_len bf ?f) d) e \<noteq> 0 then Inl 1 else Inr ()))
                (\<lambda>r v. case r of Inl e \<Rightarrow> wp ?dev (jret (case Inl e of Inl ret \<Rightarrow> ret | Inr _ \<Rightarrow> 0)) Q v
                  | Inr x \<Rightarrow> ?I (Suc i) v)) q2"
            by (intro wp_lift [OF s(1)] wp_ret)
              (use 1(3) s(2) f q2(2) v(2) in \<open>auto intro!: wp_ret Q1 [OF _ f(2)] simp: less_Suc_eq\<close>)
        qed
      qed
    next
      case (2 x v)
      then have "before bf (Suc k) = k * 32768 + 32768" by (simp add: before_def)
      with 2 show ?case by (auto intro!: wp_ret Q0)
    next
      case 3
      then show ?case using 2 assms(3) by simp
    qed
  qed (simp add: xcfp_block_def)
qed

text \<open>The registers of the part hold what programming has written.\<close>

definition regs_agree :: "xcfp \<Rightarrow> nat \<Rightarrow> (nat \<Rightarrow> bool list) \<Rightarrow> bool" where
  "regs_agree x used_blocks m \<longleftrightarrow> (\<forall>(a, b) \<in> set (reg_image x used_blocks). m a = b)"

lemma regs_agreeD:
  assumes "regs_agree x u m"
  shows "m (unat (hd XCFP_XSC_DATA_BTC)) = buf_bits (longToByteArray (btc_data u)) 32"
    "m (unat (hd XCFP_XSC_DATA_CCB)) = buf_bits (shortToByteArray (encodeCCB x)) 16"
    "m (unat (hd XCFP_XSC_DATA_SUCR)) = buf_bits (shortToByteArray 0xfffc) 16"
    "m (unat (hd XCFP_XSC_DATA_DONE)) = buf_bits [done_data x] 8"
  using assms by (simp_all add: regs_agree_def reg_image_def)

text \<open>Reading a register of a part that agrees gives what was written.\<close>

lemma wp_reg_agree:
  assumes "hd instr \<in> promp_regs" "n = 8 * length w"
    and "\<And>d q'. pquiet q q' \<Longrightarrow>
      (mem_after regs (qregs q) (unat (hd instr)) = buf_bits w n \<Longrightarrow> d = w) \<Longrightarrow> Q d q'"
  shows "wp (promp_dev (promp_answer devid mem regs)) (xcfp_reg_read instr n) Q q"
proof (rule wp_reg_read [OF assms(1)])
  fix d and q' :: promp
  assume q: "pquiet q q'" and d: "length d = nbytes n"
    "n \<le> length (mem_after regs (qregs q) (unat (hd instr))) \<Longrightarrow>
      buf_bits d n = take n (mem_after regs (qregs q) (unat (hd instr)))"
  show "Q d q'"
    using q by (rule assms(3)) (use d buf_bits_inject [of d "length w" w] assms(2) in simp)
qed

lemma wp_verify_regs:
  assumes "\<And>e q'. pquiet q q' \<Longrightarrow> (e = 0 \<Longrightarrow> ret = 0) \<Longrightarrow>
    (regs_agree x u (mem_after regs (qregs q)) \<Longrightarrow> e = ret) \<Longrightarrow> Q e q'"
  shows "wp (promp_dev (promp_answer devid mem regs)) (xcfp_verify_regs x u ret) Q q"
  unfolding xcfp_verify_regs_def
proof (intro wp_bind wp_ret
    wp_reg_agree [OF promp_regs(1), where w = "longToByteArray (btc_data u)"]
    wp_reg_agree [OF promp_regs(2), where w = "shortToByteArray (encodeCCB x)"]
    wp_reg_agree [OF promp_regs(3), where w = "shortToByteArray 0xfffc"]
    wp_reg_agree [OF promp_regs(4), where w = "[done_data x]"], goal_cases)
  case (5 btc q1 ccb q2 sucr q3 dn q4)
  have "qregs q1 = qregs q" "qregs q2 = qregs q" "qregs q3 = qregs q" using 5(1,3,5) by (simp_all add: pquiet_def)
  then have "btc = longToByteArray (btc_data u) \<and> ccb = shortToByteArray (encodeCCB x) \<and>
      sucr = shortToByteArray 0xfffc \<and> dn = [done_data x]"
    if "regs_agree x u (mem_after regs (qregs q))"
    using 5(2,4,6,8) regs_agreeD [OF that] by simp
  moreover have "shortToByteArray 0xfffc = [0xfc, 0xff]" by (simp add: shortToByteArray_def)
  ultimately show ?case
    using 5(1,3,5,7)
    by (intro assms) (auto simp: byteArrayToLong_longToByteArray byteArrayToShort_shortToByteArray intro: pquiet_trans split: if_splits)
qed (simp_all add: shortToByteArray_def)

lemma wp_xcfp_verify:
  assumes "blength bf \<le> length (buffer bf)" "blength bf < 2 ^ 31" "narray x \<le> 4" "\<not> xcfp_subrange bf (blength bf)"
    and len: "\<And>a. 256 \<le> length (mem_after mem (qlog q) a)"
  shows "wp (promp_dev (promp_answer (xcfp_id x) mem regs)) (xcfp_verify x bf)
     (\<lambda>e _. let ok = (\<forall>f < min (narray x * 32768) (frames bf). frame_agree bf (mem_after mem (qlog q)) f)
        in (e = 0 \<longrightarrow> ok) \<and>
          (ok \<and> regs_agree x (xcfp_used_blocks x (blength bf)) (mem_after regs (qregs q)) \<longrightarrow> e = 0)) q"
proof -
  let ?dev = "promp_dev (promp_answer (xcfp_id x) mem regs)" and ?u = "xcfp_used_blocks x (blength bf)"
  let ?ok = "frame_agree bf (mem_after mem (qlog q))" and ?N = "min (narray x * 32768) (frames bf)"
  note N = used_blocks(3) [OF assms(2), of x]
  have blocks: "wp ?dev (jscan 0 ?u (\<lambda>k _. jbind (xcfp_verify_block bf k) (\<lambda>ret. jret (if ret \<noteq> 0 then Inl ret else Inr ()))) ())
      (\<lambda>r q'. pquiet q q' \<and> (r = Inr () \<and> (\<forall>f < ?N. ?ok f) \<or> r = Inl 1 \<and> \<not> (\<forall>f < ?N. ?ok f))) q1" if "pquiet q q1" for q1
  proof (rule wp_scan [where I = "\<lambda>k _ q'. pquiet q q' \<and> (\<forall>f < before bf k. ?ok f)"], goal_cases)
    case (1 k r v)
    have k: "k * 32768 \<le> frames bf" "k < 4"
      using 1 used_blocks(1) [OF assms(2), of k x] used_blocks(2) [OF assms(2), of x] assms(3) by auto
    have "Suc k \<le> ?u" using 1 by simp
    then have b: "before bf k = k * 32768" "before bf (Suc k) \<le> ?N"
      using k(1) unfolding N [symmetric] by (auto simp: before_def min_def)
    have v: "qlog v = qlog q" using 1(3) by (simp add: pquiet_def)
    show ?case
    proof (intro wp_bind wp_verify_block [OF assms(1) k(2,1)] wp_ret, unfold v)
      fix q2 :: promp assume "pquiet v q2"
      then show "case if (if \<forall>f \<in> {k * 32768..<before bf (Suc k)}. ?ok f then 0 else 1) \<noteq> (0 :: int)
            then Inl (if \<forall>f \<in> {k * 32768..<before bf (Suc k)}. ?ok f then 0 else 1) else Inr () of
          Inl e \<Rightarrow> pquiet q q2 \<and> (Inl e = Inr () \<and> (\<forall>f < ?N. ?ok f) \<or> Inl e = Inl 1 \<and> \<not> (\<forall>f < ?N. ?ok f))
        | Inr x \<Rightarrow> pquiet q q2 \<and> (\<forall>f < before bf (Suc k). ?ok f)"
      proof (cases "\<forall>f \<in> {k * 32768..<before bf (Suc k)}. ?ok f")
        case True
        then have "\<forall>f < before bf (Suc k). ?ok f" using 1(3) b(1) by (metis atLeastLessThan_iff not_le)
        then show ?thesis using True 1(3) \<open>pquiet v q2\<close> by (auto intro: pquiet_trans)
      next
        case False
        then have "\<not> (\<forall>f < ?N. ?ok f)" using b(2) by (meson atLeastLessThan_iff less_le_trans)
        then show ?thesis using False 1(3) \<open>pquiet v q2\<close> by (auto intro: pquiet_trans)
      qed
    qed (use len in auto)
  qed (use that N in \<open>auto simp: before_def\<close>)
  show ?thesis
    unfolding xcfp_verify_def if_not_P [OF assms(4)] Let_def
  proof (intro wp_xcfp_begin [where mem = mem and regs = regs] wp_bind wp_mono [OF blocks] wp_verify_regs wp_xcfp_ends wp_ret)
  qed (auto simp: pquiet_def)
qed

section \<open>Reading\<close>

lemma store_frame:
  assumes "length d = 32" "32 * f + 32 \<le> length buf"
  obtains buf' where "buf_store buf (32 * f) d = Inr buf'" "length buf' = length buf"
    "\<And>g. take 32 (drop (32 * g) buf') = (if g = f then d else take 32 (drop (32 * g) buf))"
proof
  let ?b = "take (32 * f) buf @ d @ drop (32 * f + 32) buf"
  show "buf_store buf (32 * f) d = Inr ?b" using assms by (simp add: buf_store_def)
  show "length ?b = length buf" using assms by simp
  fix g
  have l: "length (take (32 * f) buf) = 32 * f" using assms(2) by simp
  consider "g < f" | "g = f" | "f < g" by linarith
  then show "take 32 (drop (32 * g) ?b) = (if g = f then d else take 32 (drop (32 * g) buf))"
  proof cases
    case 1
    then have g: "32 * g + 32 \<le> 32 * f" by simp
    have "take 32 (drop (32 * g) ?b) = take 32 (drop (32 * g) (take (32 * f) buf))"
      using g l by (simp only: drop_append take_append length_drop) simp
    also have "\<dots> = take 32 (drop (32 * g) buf)"
      using g by (simp only: drop_take take_take) (simp add: min_absorb1)
    finally show ?thesis using 1 by simp
  next
    case 2
    then show ?thesis using assms l by simp
  next
    case 3
    then have "32 * f + 32 \<le> 32 * g" by simp
    then have "32 * g - 32 * f - 32 + (32 * f + 32) = 32 * g" by linarith
    then show ?thesis using 3 assms l by (simp add: add.commute)
  qed
qed

text \<open>Frame \<open>f\<close> of a buffer that was read from a part.\<close>

definition frame_read :: "byte list \<Rightarrow> (nat \<Rightarrow> bool list) \<Rightarrow> nat \<Rightarrow> bool" where
  "frame_read buf mem f \<longleftrightarrow> buf_bits (take 32 (drop (32 * f) buf)) 256 = take 256 (mem (32 * f))"

lemma wp_read_block:
  assumes "k < 4" "(k + 1) * 0x100000 \<le> length (buffer bf)"
    and len: "\<And>a. 256 \<le> length (mem_after mem (qlog q) a)"
    and Q: "\<And>bf' q'. pquiet q q' \<Longrightarrow> length (buffer bf') = length (buffer bf) \<Longrightarrow> blength bf' = blength bf \<Longrightarrow>
      (\<And>f. f < k * 32768 \<Longrightarrow> frame_read (buffer bf) (mem_after mem (qlog q)) f \<Longrightarrow>
        frame_read (buffer bf') (mem_after mem (qlog q)) f) \<Longrightarrow>
      (\<And>f. k * 32768 \<le> f \<Longrightarrow> f < (k + 1) * 32768 \<Longrightarrow> frame_read (buffer bf') (mem_after mem (qlog q)) f) \<Longrightarrow> Q bf' q'"
  shows "wp (promp_dev (promp_answer devid mem regs)) (xcfp_read_block 0 k bf) Q q"
proof -
  let ?dev = "promp_dev (promp_answer devid mem regs)" and ?m = "mem_after mem (qlog q)"
  let ?I = "\<lambda>i bf' q'. pquiet q q' \<and> qaddr q' = 32 * (k * 32768 + i) \<and> length (buffer bf') = length (buffer bf) \<and>
    blength bf' = blength bf \<and> (\<forall>f < k * 32768. frame_read (buffer bf) ?m f \<longrightarrow> frame_read (buffer bf') ?m f) \<and>
    (\<forall>f. k * 32768 \<le> f \<longrightarrow> f < k * 32768 + i \<longrightarrow> frame_read (buffer bf') ?m f)"
  have addr: "32 * (k * 32768 + 0) < (2 :: nat) ^ 24" using assms(1) by simp
  show ?thesis
    unfolding xcfp_read_block_def
  proof (intro wp_bind wp_set_address [OF addr], goal_cases)
    case (2 q1)
    show ?case
    proof (rule wp_fold [where I = ?I], goal_cases)
      case (1 i bf1 v)
      let ?f = "k * 32768 + i"
      show ?case
        unfolding diff_zero block_pos
      proof (intro wp_bind wp_read_frame)
        fix d and q2 :: promp
        assume q2: "pquiet v q2" "qaddr q2 = qaddr v + 32" "length d = 32"
          "256 \<le> length (mem_after mem (qlog v) (qaddr v)) \<Longrightarrow> buf_bits d 256 = take 256 (mem_after mem (qlog v) (qaddr v))"
        have v: "qlog v = qlog q" "qaddr v = 32 * ?f" using 1(3) by (simp_all add: pquiet_def)
        have d: "buf_bits d 256 = take 256 (?m (32 * ?f))" using q2(4) len unfolding v by blast
        have "32 * ?f + 32 \<le> length (buffer bf1)" using 1 assms(2) by simp
        then obtain buf' where buf': "buf_store (buffer bf1) (32 * ?f) d = Inr buf'" "length buf' = length (buffer bf1)"
          "\<And>g. take 32 (drop (32 * g) buf') = (if g = ?f then d else take 32 (drop (32 * g) (buffer bf1)))"
          using store_frame [OF q2(3)] by metis
        have fr: "frame_read buf' ?m g = (g = ?f \<or> frame_read (buffer bf1) ?m g)" for g
          using d by (auto simp: frame_read_def buf'(3))
        show "wp ?dev (jlift (buf_store (buffer bf1) (32 * ?f) d))
            (\<lambda>buf. wp ?dev (jret (bf1\<lparr>buffer := buf\<rparr>)) (?I (Suc i))) q2"
          by (intro wp_lift [OF buf'(1)] wp_ret)
            (use 1(3) q2(1,2) v(2) buf'(2) in \<open>auto simp: fr less_Suc_eq intro: pquiet_trans\<close>)
      qed
    next
      case (2 bf1 v)
      then show ?case by (intro Q) auto
    next
      case 3
      then show ?case using 2 by simp
    qed
  qed (simp add: xcfp_block_def)
qed

lemma btc_fields:
  assumes "0 < u" "u \<le> 4"
  shows "unat (btc_data u AND 0x03) = 0" "unat (drop_bit 2 (btc_data u AND 0x0c)) = u - 1"
proof -
  consider "u = 1" | "u = 2" | "u = 3" | "u = 4" using assms by linarith
  then show "unat (btc_data u AND 0x03) = 0" "unat (drop_bit 2 (btc_data u AND 0x0c)) = u - 1"
    by (cases; simp add: btc_data_def)+
qed

lemma decode_encodeCCB: "decodeCCB (encodeCCB x) y =
    y\<lparr>ccbParallelMode := ccbParallelMode x, ccbMasterMode := ccbMasterMode x, ccbFastClock := ccbFastClock x,
      ccbExternalClock := ccbExternalClock x\<rparr>"
  by (simp add: encodeCCB_def decodeCCB_def)

lemma wp_xcfp_read:
  assumes "0 < u" "u \<le> narray y" "narray y \<le> 4" "\<not> xcfp_subrange bf (xcfp_getSize y div 8)"
    and len: "\<And>a. 256 \<le> length (mem_after mem (qlog q) a)" and regs: "regs_agree x u (mem_after regs (qregs q))"
  shows "wp (promp_dev (promp_answer (xcfp_id y) mem regs)) (xcfp_read y bf)
     (\<lambda>(e, bf', y') _. e = 0 \<and> blength bf' = u * 0x100000 \<and> length (buffer bf') = u * 0x100000 \<and>
        (\<forall>f < u * 32768. frame_read (buffer bf') (mem_after mem (qlog q)) f) \<and>
        y' = decodeCCB (encodeCCB x) y) q"
proof -
  let ?dev = "promp_dev (promp_answer (xcfp_id y) mem regs)" and ?m = "mem_after mem (qlog q)"
  let ?bf = "setLength (u * 32768 * 256) bf"
  have n: "nbytes (u * 32768 * 256) = u * 0x100000" by (simp add: nbytes_def)
  have u: "\<not> (u - 1 < 0 \<or> narray y \<le> u - 1)" "u - 1 + 1 - 0 = u" "u - 1 - 0 + 1 = u" using assms(1,2) by auto
  let ?P = "\<lambda>bf' q'. pquiet q q' \<and> blength bf' = u * 0x100000 \<and> length (buffer bf') = u * 0x100000 \<and>
    (\<forall>f < u * 32768. frame_read (buffer bf') ?m f)"
  have blocks: "wp ?dev (jfold 0 u (xcfp_read_block 0) ?bf) ?P q1" if "pquiet q q1" for q1
  proof (rule wp_fold [where I = "\<lambda>k bf' q'. pquiet q q' \<and> blength bf' = u * 0x100000 \<and>
      length (buffer bf') = u * 0x100000 \<and> (\<forall>f < k * 32768. frame_read (buffer bf') ?m f)"], goal_cases)
    case (1 k bf1 v)
    have k: "k < 4" "(k + 1) * 0x100000 \<le> length (buffer bf1)" using 1 assms(2,3) by auto
    have v: "qlog v = qlog q" using 1(3) by (simp add: pquiet_def)
    show ?case
    proof (rule wp_read_block [OF k], unfold v)
      fix bf2 and q2 :: promp
      assume a: "pquiet v q2" "length (buffer bf2) = length (buffer bf1)" "blength bf2 = blength bf1"
        "\<And>f. f < k * 32768 \<Longrightarrow> frame_read (buffer bf1) ?m f \<Longrightarrow> frame_read (buffer bf2) ?m f"
        "\<And>f. k * 32768 \<le> f \<Longrightarrow> f < (k + 1) * 32768 \<Longrightarrow> frame_read (buffer bf2) ?m f"
      have "frame_read (buffer bf2) ?m f" if "f < Suc k * 32768" for f
        using a(4,5) [of f] 1(3) that by (cases "f < k * 32768") auto
      then show "pquiet q q2 \<and> blength bf2 = u * 0x100000 \<and> length (buffer bf2) = u * 0x100000 \<and>
          (\<forall>f < Suc k * 32768. frame_read (buffer bf2) ?m f)"
        using 1(3) a(1-3) by (auto intro: pquiet_trans)
    qed (rule len)
  next
    case 3
    then show ?case using that n by (simp add: setLength_def)
  qed auto
  show ?thesis
    unfolding xcfp_read_def if_not_P [OF assms(4)]
  proof (intro wp_xcfp_begin [where mem = mem and regs = regs] wp_bind wp_reg_agree [OF promp_regs(1), where w = "longToByteArray (btc_data u)"], goal_cases)
    case (2 q1 d q2)
    have q: "pquiet q q2" "qregs q1 = qregs q" using 2(1,2) by (auto simp: pquiet_def)
    have d: "d = longToByteArray (btc_data u)" using 2(3) regs_agreeD(1) [OF regs] q(2) by simp
    show ?case
      unfolding d Let_def byteArrayToLong_longToByteArray btc_fields [OF assms(1) order_trans [OF assms(2,3)]] if_not_P [OF u(1)] u(2,3)
    proof (intro wp_bind wp_mono [OF blocks [OF q(1)]] wp_reg_agree [OF promp_regs(2), where w = "shortToByteArray (encodeCCB x)"]
        wp_reg_agree [OF promp_regs(4), where w = "[done_data x]"] wp_reg_agree [OF promp_regs(3), where w = "shortToByteArray 0xfffc"]
        wp_xcfp_ends wp_ret, goal_cases)
      case (4 bf1 q3 ccb q4 _ q5 _ q6 q7)
      have "ccb = shortToByteArray (encodeCCB x)"
        using 4(1,3) regs_agreeD(2) [OF regs] by (simp add: pquiet_def)
      then show ?case using 4(1) by (simp add: byteArrayToShort_shortToByteArray)
    qed (simp_all add: shortToByteArray_def)
  qed simp
qed

section \<open>Round trip\<close>

lemma programmed_frame:
  "f < n \<Longrightarrow> mem_after mem (ws @ map (frame_image bf) [0..<n]) (32 * f) = buf_bits (frame_bytes bf f) 256"
  unfolding frame_image_def [abs_def] by (rule mem_after_image) (simp_all add: inj_on_def)

lemma mem_after_long:
  assumes "\<forall>a. n \<le> length (mem_after mem ws a)" "list_all (\<lambda>w. n \<le> length (snd w)) vs"
  shows "n \<le> length (mem_after mem (ws @ vs) a)"
  using assms(2)
proof (induction vs arbitrary: a rule: rev_induct)
  case (snoc v vs)
  then show ?case by (cases v) (simp add: mem_after_def)
qed (use assms(1) in simp)

lemma programmed_agree:
  assumes "blength bf \<le> length (buffer bf)" "mem (32 * f) = buf_bits (frame_bytes bf f) 256"
  shows "frame_agree bf mem f"
  unfolding frame_agree_def assms(2)
proof (rule nth_equalityI)
  fix j assume "j < length (take (8 * frame_len bf f) (buf_bits (frame_bytes bf f) 256))"
  then have j: "j < 8 * frame_len bf f" "frame_len bf f \<le> 32" by (simp_all add: frame_len_def)
  then have "j div 8 < frame_len bf f" by (simp add: div_less_iff_less_mult)
  then have "j div 8 < 32" "32 * f + j div 8 < blength bf" by (auto simp: frame_len_def)
  then show "take (8 * frame_len bf f) (buf_bits (frame_bytes bf f) 256) ! j =
      buf_bits (drop (32 * f) (buffer bf)) (8 * frame_len bf f) ! j"
    using j assms(1) by (simp add: buf_bit_def frame_bytes_def del: upt_rec_numeral upt_Suc)
qed (simp add: frame_len_def)

lemma length_frame_bytes [simp]: "length (frame_bytes bf f) = 32"
  by (simp add: frame_bytes_def del: upt_rec_numeral upt_Suc)

lemma read_byte:
  assumes "frame_read buf mem (i div 32)" "mem (32 * (i div 32)) = buf_bits (frame_bytes bf (i div 32)) 256"
    and "i < blength bf" "32 * (i div 32) + 32 \<le> length buf"
  shows "buf ! i = buffer bf ! i"
proof -
  let ?f = "i div 32" and ?j = "i mod 32"
  have i: "32 * ?f + ?j = i" by simp
  have "take 32 (drop (32 * ?f) buf) = frame_bytes bf ?f"
    using assms(1,4) buf_bits_inject [of "take 32 (drop (32 * ?f) buf)" 32 "frame_bytes bf ?f"]
    by (simp add: frame_read_def assms(2))
  moreover have "take 32 (drop (32 * ?f) buf) ! ?j = buf ! i" using assms(4) i by simp
  moreover have "frame_bytes bf ?f ! ?j = buffer bf ! i"
    using assms(3) i by (simp add: frame_bytes_def del: upt_rec_numeral upt_Suc)
  ultimately show ?thesis by simp
qed

lemma regs_written: "regs_agree x u (mem_after regs (rs @ reg_image x u))"
  by (simp add: regs_agree_def reg_image_def mem_after_def xcfp_codes)

lemma xcfp_init_ids: "xcfp_init devid = Inr y \<Longrightarrow> xcfp_id y = devid \<and> 0 < narray y \<and> narray y \<le> 4"
  by (auto simp: xcfp_init_def Let_def split: if_splits)

text \<open>A part after a successful run of \<^verbatim>\<open>program\<close>.\<close>

lemma programmed_part:
  assumes "0 < narray x" "narray x \<le> 4" "blength bf \<le> length (buffer bf)" "blength bf < 2 ^ 31"
    and "honest (promp_dev (promp_answer (xcfp_id x) mem regs)) (replies k)"
    and "\<forall>a. 256 \<le> length (mem_after mem (qlog (promp_view (hist k))) a)"
    and "xcfp_program x bf k = (Inr 0, k1)"
  defines "m \<equiv> mem_after mem (qlog (promp_view (hist k1)))"
  shows "replies k1 = replies k" "\<And>a. 256 \<le> length (m a)" "\<not> xcfp_subrange bf (blength bf)"
    "\<And>f. f < min (narray x * 32768) (frames bf) \<Longrightarrow> m (32 * f) = buf_bits (frame_bytes bf f) 256"
    "regs_agree x (xcfp_used_blocks x (blength bf)) (mem_after regs (qregs (promp_view (hist k1))))"
proof -
  let ?N = "min (narray x * 32768) (frames bf)"
  show sub: "\<not> xcfp_subrange bf (blength bf)"
    using assms(7) by (auto simp: xcfp_program_def jlift_def)
  obtain k2 where k2: "xcfp_program x bf k = (Inr 0, k2)" "replies k2 = replies k"
    "qlog (promp_view (hist k2)) = qlog (promp_view (hist k)) @ map (frame_image bf) [0..<?N]"
    "qregs (promp_view (hist k2)) = qregs (promp_view (hist k)) @ reg_image x (xcfp_used_blocks x (blength bf))"
    using wp_run [OF wp_xcfp_program [OF assms(3,4,1,2) sub, where ans = "promp_answer (xcfp_id x) mem regs"] assms(5)] assms(7)
    by auto
  then have eq: "k2 = k1" using assms(7) by simp
  note k1 = k2(2-4) [unfolded eq]
  show "replies k1 = replies k" by (rule k1(1))
  show "256 \<le> length (m a)" for a
    unfolding m_def k1(2) by (rule mem_after_long [OF assms(6)]) (auto simp: list_all_iff frame_image_def)
  show "m (32 * f) = buf_bits (frame_bytes bf f) 256" if "f < ?N" for f
    unfolding m_def k1(2) using that by (rule programmed_frame)
  show "regs_agree x (xcfp_used_blocks x (blength bf)) (mem_after regs (qregs (promp_view (hist k1))))"
    unfolding k1(3) by (rule regs_written)
qed

text \<open>
  C22. Programming, verifying and reading back a Platform Flash P PROM: when \<^verbatim>\<open>program\<close> returns
  \<open>0\<close>, \<^verbatim>\<open>verify\<close> of the same file returns \<open>0\<close>, and \<^verbatim>\<open>read\<close> into a new object returns \<open>0\<close>, the bytes of
  the file as far as they fit into the part, and the configuration mode of the object that
  has programmed the part.\<close>

theorem xcfp_program_roundtrip:
  assumes "xcfp_init devid = Inr y"
    and "x = y\<lparr>ccbParallelMode := pm, ccbMasterMode := mm, ccbFastClock := fc, ccbExternalClock := ec\<rparr>"
    and "blength bf \<le> length (buffer bf)" "blength bf < 2 ^ 31" "boffset bf0 = 0" "rlength bf0 = 0"
    and "honest (promp_dev (promp_answer devid mem regs)) (replies k)"
    and "\<forall>a. 256 \<le> length (mem_after mem (qlog (promp_view (hist k))) a)"
    and "xcfp_program x bf k = (Inr 0, k1)"
  shows "fst (xcfp_verify x bf k1) = Inr 0 \<and>
     (\<exists>bf'. fst (xcfp_read y bf0 k1) = Inr (0, bf', x) \<and>
        (\<forall>i < min (blength bf) (narray x * 0x100000). i < blength bf' \<and> buffer bf' ! i = buffer bf ! i))"
proof -
  let ?dev = "promp_dev (promp_answer devid mem regs)" and ?u = "xcfp_used_blocks x (blength bf)"
  let ?N = "min (narray x * 32768) (frames bf)" and ?m = "mem_after mem (qlog (promp_view (hist k1)))"
  have ids: "xcfp_id x = devid" "xcfp_id y = devid" "narray y = narray x" "0 < narray x" "narray x \<le> 4"
    using xcfp_init_ids [OF assms(1)] assms(2) by simp_all
  note part = programmed_part [OF ids(4,5) assms(3,4) assms(7) [folded ids(1)] assms(8,9)]
  note u = used_blocks(2-4) [OF assms(4), of x]
  have h: "honest ?dev (replies k1)" using assms(7) part(1) by simp
  have "frame_agree bf ?m f" if "f < ?N" for f using that by (intro programmed_agree [OF assms(3)] part(4))
  then have "wp ?dev (xcfp_verify x bf) (\<lambda>e _. e = 0) (dview ?dev (hist k1))"
    using part(2,5) wp_mono [OF wp_xcfp_verify [OF assms(3,4) ids(5) part(3), where q = "dview ?dev (hist k1)", unfolded ids(1)]]
    by (simp add: Let_def)
  from this h have verify: "fst (xcfp_verify x bf k1) = Inr 0" by (rule wp_run) simp
  have "wp ?dev (xcfp_read y bf0) (\<lambda>(e, bf', y') _. e = 0 \<and> blength bf' = ?u * 0x100000 \<and> length (buffer bf') = ?u * 0x100000 \<and>
      (\<forall>f < ?u * 32768. frame_read (buffer bf') ?m f) \<and> y' = decodeCCB (encodeCCB x) y) (dview ?dev (hist k1))"
    using wp_xcfp_read [of ?u y bf0 mem "dview ?dev (hist k1)" x regs] u(1,3) ids part(2,5) assms(5,6)
    by (simp add: xcfp_subrange_def)
  from this h obtain bf' where bf': "fst (xcfp_read y bf0 k1) = Inr (0, bf', decodeCCB (encodeCCB x) y)"
    "blength bf' = ?u * 0x100000" "length (buffer bf') = ?u * 0x100000"
    "\<And>f. f < ?u * 32768 \<Longrightarrow> frame_read (buffer bf') ?m f"
    by (rule wp_run) auto
  have "decodeCCB (encodeCCB x) y = x" using assms(2) by (simp add: decode_encodeCCB)
  moreover have "i < blength bf' \<and> buffer bf' ! i = buffer bf ! i" if i: "i < blength bf" "i < narray x * 0x100000" for i
  proof -
    have f: "i div 32 < ?N" using i frames_iff [of "i div 32" bf] by (auto simp: div_less_iff_less_mult)
    then have fu: "i div 32 < ?u * 32768" using u(2) unfolding before_def by (metis min_less_iff_conj)
    then have "32 * (i div 32) + 32 \<le> ?u * 0x100000" by simp
    moreover have "i < 32 * (i div 32) + 32" using mod_less_divisor [of 32 i] mult_div_mod_eq [of 32 i] by linarith
    ultimately show ?thesis using read_byte [OF bf'(4) [OF fu] part(4) [OF f] i(1)] bf'(2,3) by simp
  qed
  ultimately show ?thesis using verify bf'(1) by auto
qed

lemma program_result:
  assumes "xcfp_init devid = Inr x" "blength bf \<le> length (buffer bf)" "0 < blength bf" "blength bf < 2 ^ 31"
    and "boffset bf = 0" "rlength bf = 0"
    and "honest (promp_dev ans) (replies k)" "\<And>q c r. ans q c r \<Longrightarrow> promp_answer devid mem regs q c r"
  obtains r k1 where "xcfp_program x bf k = (Inr r, k1)"
    "r = 0 \<longrightarrow> qlog (promp_view (hist k1)) =
          qlog (promp_view (hist k)) @ map (frame_image bf) [0..<min (narray x * 32768) (frames bf)] \<and>
        qregs (promp_view (hist k1)) = qregs (promp_view (hist k)) @ reg_image x (xcfp_used_blocks x (blength bf))"
    "status_ok ans \<longrightarrow> r = 0"
    "status_bad ans \<longrightarrow> r = 1 \<and> qlog (promp_view (hist k1)) =
        qlog (promp_view (hist k)) @ map (\<lambda>b. frame_image bf (b * 32768)) [0..<xcfp_used_blocks x (blength bf)]"
proof -
  note ids = xcfp_init_ids [OF assms(1)]
  have sub: "\<not> xcfp_subrange bf (blength bf)" using assms(5,6) by (simp add: xcfp_subrange_def)
  have a: "ans q c r \<Longrightarrow> promp_answer (xcfp_id x) mem regs q c r" for q c r using assms(8) ids by simp
  from wp_xcfp_program [OF assms(2,4) _ _ sub a] ids assms(7)
  obtain r k1 where r: "xcfp_program x bf k = (Inr r, k1)"
    "(r = 0 \<longrightarrow> qlog (dview (promp_dev ans) (hist k1)) = qlog (dview (promp_dev ans) (hist k)) @
        map (frame_image bf) [0..<min (narray x * 32768) (frames bf)] \<and>
        qregs (dview (promp_dev ans) (hist k1)) = qregs (dview (promp_dev ans) (hist k)) @ reg_image x (xcfp_used_blocks x (blength bf))) \<and>
      (status_ok ans \<longrightarrow> r = 0) \<and>
      (status_bad ans \<longrightarrow> 0 < blength bf \<longrightarrow> r = 1 \<and> qregs (dview (promp_dev ans) (hist k1)) = qregs (dview (promp_dev ans) (hist k)) \<and>
        qlog (dview (promp_dev ans) (hist k1)) = qlog (dview (promp_dev ans) (hist k)) @
          map (\<lambda>k. frame_image bf (k * 32768)) [0..<xcfp_used_blocks x (blength bf)])"
    by (blast elim: wp_run)
  with that assms(3) show thesis unfolding promp_dview by blast
qed

text \<open>
  C23. What \<^verbatim>\<open>program\<close> writes to the part that it expects. If the status after every frame is
  \<open>0x36\<close> it returns \<open>0\<close>, and the part has received the frames of the file that fit into it,
  in order and each at its address, and the four registers. If the status never is \<open>0x36\<close> it
  returns \<open>1\<close>, but it does not stop at the first failure: the first frame of every block has
  been written.\<close>

theorem xcfp_program_writes:
  assumes "xcfp_init devid = Inr x" "blength bf \<le> length (buffer bf)" "0 < blength bf" "blength bf < 2 ^ 31"
    and "boffset bf = 0" "rlength bf = 0"
    and "honest (promp_dev ans) (replies k)" "\<And>q c r. ans q c r \<Longrightarrow> promp_answer devid mem regs q c r"
  shows "(status_ok ans \<longrightarrow> (\<exists>k1. xcfp_program x bf k = (Inr 0, k1) \<and>
      qlog (promp_view (hist k1)) = qlog (promp_view (hist k)) @ map (frame_image bf) [0..<min (narray x * 32768) (frames bf)] \<and>
      qregs (promp_view (hist k1)) = qregs (promp_view (hist k)) @ reg_image x (xcfp_used_blocks x (blength bf)))) \<and>
    (status_bad ans \<longrightarrow> (\<exists>k1. xcfp_program x bf k = (Inr 1, k1) \<and>
      qlog (promp_view (hist k1)) = qlog (promp_view (hist k)) @
        map (\<lambda>b. frame_image bf (b * 32768)) [0..<xcfp_used_blocks x (blength bf)]))"
proof -
  obtain r k1 where "xcfp_program x bf k = (Inr r, k1)"
    "r = 0 \<longrightarrow> qlog (promp_view (hist k1)) =
          qlog (promp_view (hist k)) @ map (frame_image bf) [0..<min (narray x * 32768) (frames bf)] \<and>
        qregs (promp_view (hist k1)) = qregs (promp_view (hist k)) @ reg_image x (xcfp_used_blocks x (blength bf))"
    "status_ok ans \<longrightarrow> r = 0"
    "status_bad ans \<longrightarrow> r = 1 \<and> qlog (promp_view (hist k1)) =
        qlog (promp_view (hist k)) @ map (\<lambda>b. frame_image bf (b * 32768)) [0..<xcfp_used_blocks x (blength bf)]"
    by (rule program_result [OF assms(1-7), where mem = mem and regs = regs]) (use assms(8) in blast)+
  then show ?thesis by (intro conjI impI exI [of _ k1]) simp_all
qed

text \<open>An executable XCF08P, which is blank at first, with the status that it reports.\<close>

definition promp_data :: "promp \<Rightarrow> bool list" where
  "promp_data q =
     (if qir q = hd XCFP_ISC_DATA_SHIFT then mem_after (\<lambda>_. replicate 256 True) (qlog q) (qout q)
      else if qir q \<in> promp_regs then mem_after (\<lambda>_. []) (qregs q) (unat (qir q))
      else if qir q = hd XCFP_IDCODE then buf_bits (longToByteArray 0x05057093) 32 else [])"

definition promp_replies :: "byte \<Rightarrow> jop list \<Rightarrow> byte list" where
  "promp_replies status cs =
     (if cs = [] then []
      else let q = promp_view (butlast cs)
           in case last cs of
                OpDR None True n align exit \<Rightarrow>
                  if qir q = hd XCFP_XSC_OP_STATUS then [status] else bits_bytes n (promp_data q @ replicate n False)
              | _ \<Rightarrow> [])"

definition promp_says :: "byte \<Rightarrow> promp \<Rightarrow> jop \<Rightarrow> byte list \<Rightarrow> bool" where
  "promp_says status q c r \<longleftrightarrow> promp_answer 0x05057093 (\<lambda>_. replicate 256 True) (\<lambda>_. []) q c r \<and>
     (c = OpDR None True 8 0 True \<and> qir q = hd XCFP_XSC_OP_STATUS \<longrightarrow> hd (fit 1 r) = status)"

lemma promp_replies_honest: "honest (promp_dev (promp_says status)) (promp_replies status)"
proof -
  have "buf_bits (fit (nbytes n) (bits_bytes n (m @ replicate n False))) n = take n m" if "n \<le> length m" for n m
    using that by (simp add: bits_bytes_take)
  then show ?thesis
    by (auto simp: honest_def promp_says_def promp_answer_def promp_replies_def promp_data_def Let_def xcfp_codes
        buf_bits_def fit_def split: jop.split bool.split option.split)
qed

lemma promp_says: "status_ok (promp_says 0x36)" "status_bad (promp_says 0)"
  by (auto simp: status_ok_def status_bad_def promp_says_def)

definition example_prom :: bitfile where
  "example_prom = bitfile_init\<lparr>blength := 40, buffer := map of_nat [0..<40]\<rparr>"

definition xcf08p :: xcfp where
  "xcf08p = \<lparr>xcfp_id = 0x05057093, narray = 1, ccbParallelMode = False, ccbMasterMode = False, ccbFastClock = True,
     ccbExternalClock = True\<rparr>"

lemma xcf08p: "xcfp_init 0x05057093 = Inr xcf08p" "narray xcf08p = 1"
  by (simp_all add: xcfp_init_def xcf08p_def)

lemma example_prom: "blength example_prom = 40" "length (buffer example_prom) = 40" "boffset example_prom = 0"
  "rlength example_prom = 0" "frames example_prom = 2" "xcfp_used_blocks xcf08p 40 = 1"
  by (simp_all add: example_prom_def bitfile_init_def frames_def xcfp_used_blocks_def xcf08p_def xcfp_block_def)

theorem xcfp_program_writes_witness:
  "(\<exists>k1. xcfp_program xcf08p example_prom \<lparr>hist = [], replies = promp_replies 0x36\<rparr> = (Inr 0, k1) \<and>
      qlog (promp_view (hist k1)) = map (frame_image example_prom) [0..<2] \<and>
      qregs (promp_view (hist k1)) = reg_image xcf08p 1) \<and>
   (\<exists>k1. xcfp_program xcf08p example_prom \<lparr>hist = [], replies = promp_replies 0\<rparr> = (Inr 1, k1) \<and>
      qlog (promp_view (hist k1)) = [frame_image example_prom 0])"
proof -
  note w = xcfp_program_writes [OF xcf08p(1) _ _ _ example_prom(3,4), unfolded example_prom(1,2)]
  have s: "promp_says status q c r \<Longrightarrow> promp_answer 0x05057093 (\<lambda>_. replicate 256 True) (\<lambda>_. []) q c r" for status q c r
    by (simp add: promp_says_def)
  have h: "honest (promp_dev (promp_says status)) (replies \<lparr>hist = [], replies = promp_replies status\<rparr>)" for status
    by (simp add: promp_replies_honest)
  have v: "qlog (promp_view []) = []" "qregs (promp_view []) = []" "min (1 * 32768) 2 = (2 :: nat)"
    by (simp_all add: promp_view_def promp_init_def)
  show ?thesis
    using w [OF _ _ _ h s] promp_says v example_prom(5,6) by (simp add: xcf08p(2))
qed

lemma promp_says_answer:
  "promp_says status q c r \<Longrightarrow> promp_answer 0x05057093 (\<lambda>_. replicate 256 True) (\<lambda>_. []) q c r"
  by (simp add: promp_says_def)

theorem xcfp_program_roundtrip_witness:
  "\<exists>k1 bf'. xcfp_program xcf08p example_prom \<lparr>hist = [], replies = promp_replies 0x36\<rparr> = (Inr 0, k1) \<and>
     fst (xcfp_verify xcf08p example_prom k1) = Inr 0 \<and> fst (xcfp_read xcf08p bitfile_init k1) = Inr (0, bf', xcf08p) \<and>
     (\<forall>i < 40. buffer bf' ! i = of_nat i)"
proof -
  let ?k = "\<lparr>hist = [], replies = promp_replies 0x36\<rparr>" and ?mem = "\<lambda>_ :: nat. replicate 256 True"
  have h: "honest (promp_dev (promp_says 0x36)) (replies ?k)" by (simp add: promp_replies_honest)
  obtain r k1 where r: "xcfp_program xcf08p example_prom ?k = (Inr r, k1)" "status_ok (promp_says 0x36) \<longrightarrow> r = 0"
    by (rule program_result [OF xcf08p(1) _ _ _ example_prom(3,4) h promp_says_answer]) (simp_all add: example_prom(1,2))
  then have k1: "xcfp_program xcf08p example_prom ?k = (Inr 0, k1)" using promp_says(1) by simp
  have h2: "honest (promp_dev (promp_answer 0x05057093 ?mem (\<lambda>_. []))) (replies ?k)"
    using h by (rule honest_mono) (simp_all add: promp_dev_def promp_says_answer)
  have len: "\<forall>a. 256 \<le> length (mem_after ?mem (qlog (promp_view (hist ?k))) a)"
    by (simp add: promp_view_def promp_init_def mem_after_def)
  have same: "xcf08p = xcf08p\<lparr>ccbParallelMode := False, ccbMasterMode := False, ccbFastClock := True, ccbExternalClock := True\<rparr>"
    by (simp add: xcf08p_def)
  have "fst (xcfp_verify xcf08p example_prom k1) = Inr 0 \<and> (\<exists>bf'. fst (xcfp_read xcf08p bitfile_init k1) = Inr (0, bf', xcf08p) \<and>
      (\<forall>i < min (blength example_prom) (narray xcf08p * 0x100000). i < blength bf' \<and> buffer bf' ! i = buffer example_prom ! i))"
    by (rule xcfp_program_roundtrip [OF xcf08p(1) same _ _ _ _ h2 len k1]) (simp_all add: example_prom(1,2) bitfile_init_def)
  moreover have "buffer example_prom ! i = of_nat i" if "i < 40" for i
    using that by (simp add: example_prom_def del: upt_rec_numeral upt_Suc)
  ultimately show ?thesis using k1 by (auto simp: example_prom(1) xcf08p(2))
qed

section \<open>The protocol\<close>

lemma xcfp_instr [simp]: "XCFP_BYPASS \<noteq> []" "XCFP_IDCODE \<noteq> []" "XCFP_ISC_ENABLE \<noteq> []" "XCFP_ISC_DISABLE \<noteq> []"
  "XCFP_ISC_PROGRAM \<noteq> []" "XCFP_ISC_READ \<noteq> []" "XCFP_ISC_ERASE \<noteq> []" "XCFP_ISC_ADDRESS_SHIFT \<noteq> []"
  "XCFP_ISC_DATA_SHIFT \<noteq> []" "XCFP_XSC_CONFIG \<noteq> []" "XCFP_XSC_OP_STATUS \<noteq> []" "XCFP_XSC_UNLOCK \<noteq> []"
  "XCFP_XSC_DATA_BTC \<noteq> []" "XCFP_XSC_DATA_CCB \<noteq> []" "XCFP_XSC_DATA_SUCR \<noteq> []" "XCFP_XSC_DATA_DONE \<noteq> []"
  by (simp_all add: xcfp_codes)

lemma tracks_xcfp_parts:
  "l \<noteq> OpenDR \<Longrightarrow> instr \<noteq> [] \<Longrightarrow> 0 < n \<Longrightarrow> tracks l (xcfp_reg_read instr n) Idle"
  "instr \<noteq> [] \<Longrightarrow> 0 < n \<Longrightarrow> n \<le> 8 * length d \<Longrightarrow> tracks Idle (xcfp_reg_write instr d n) Idle"
  "l \<noteq> OpenDR \<Longrightarrow> tracks l xcfp_enable Idle" "l \<noteq> OpenDR \<Longrightarrow> tracks l xcfp_disable InReset"
  "l \<noteq> OpenDR \<Longrightarrow> tracks l xcfp_reconfig InReset"
  "tracks Idle xcfp_program_poll Idle" "tracks Idle xcfp_erase_poll Idle" "tracks Idle (xcfp_set_address p) Idle"
  "tracks Idle xcfp_read_frame Idle"
  unfolding xcfp_reg_read_def xcfp_reg_write_def xcfp_enable_def xcfp_disable_def xcfp_reconfig_def xcfp_program_poll_def
    xcfp_erase_poll_def poll_result_def xcfp_set_address_def xcfp_read_frame_def
  by (auto intro!: tracks_intro simp del: jseq.simps)

lemma xcfp_frame_length: "xcfp_frame bf p = Inr d \<Longrightarrow> length d = 32"
  by (auto simp: xcfp_frame_def rbind_Inr_iff split: if_splits dest!: buf_slice_length)

lemma tracks_xcfp_blocks:
  "tracks Idle (xcfp_program_block bf k ret) Idle" "tracks Idle (xcfp_verify_block bf k) Idle"
  "tracks Idle (xcfp_read_block fb k bf) Idle" "tracks Idle (xcfp_write_regs x u ret) Idle"
  "tracks Idle (xcfp_verify_regs x u ret) Idle"
proof -
  have frame: "tracks Idle (xcfp_program_frame bf i p) Idle" for i p
    unfolding xcfp_program_frame_def
    by (auto intro!: tracks_bind [OF tracks_ops(1)] tracks_bind_lift tracks_intro tracks_xcfp_parts
        dest!: xcfp_frame_length simp del: jseq.simps)
  show "tracks Idle (xcfp_program_block bf k ret) Idle"
    unfolding xcfp_program_block_def by (auto intro!: tracks_intro frame)
  show "tracks Idle (xcfp_verify_block bf k) Idle"
    unfolding xcfp_verify_block_def by (auto intro!: tracks_intro tracks_xcfp_parts)
  show "tracks Idle (xcfp_read_block fb k bf) Idle"
    unfolding xcfp_read_block_def by (auto intro!: tracks_intro tracks_xcfp_parts)
  show "tracks Idle (xcfp_write_regs x u ret) Idle"
    unfolding xcfp_write_regs_def by (auto intro!: tracks_intro tracks_xcfp_parts)
  show "tracks Idle (xcfp_verify_regs x u ret) Idle"
    unfolding xcfp_verify_regs_def by (auto intro!: tracks_intro tracks_xcfp_parts)
qed

lemma obeys_xcfp_begin:
  assumes "l \<noteq> OpenDR" "obeys Idle m"
  shows "obeys l (xcfp_begin x fail m)"
proof -
  have "tracks InReset (xcfp_verify_idcode x) Idle"
    unfolding xcfp_verify_idcode_def by (auto intro!: tracks_intro tracks_xcfp_parts)
  moreover have "tracks l (jseq [jreset, jUsleep 1000]) InReset"
    using assms(1) by (auto intro!: tracks_intro simp del: jseq.simps)
  ultimately show ?thesis
    unfolding xcfp_begin_def using assms(2)
    by (intro obeys_bind obeys_if obeys_ret obeys_bind [OF tracks_xcfp_parts(3)]) auto
qed

lemma obeys_xcfp:
  assumes "l \<noteq> OpenDR"
  shows "obeys l (xcfp_erase x)" "obeys l (xcfp_program x bf)" "obeys l (xcfp_verify x bf)" "obeys l (xcfp_read x bf)"
proof -
  have lift: "obeys l (jlift r)" for r :: "'a res"
    using assms by (rule obeys_tracks [OF tracks_lift])
  show "obeys l (xcfp_erase x)"
    unfolding xcfp_erase_def xcfp_erase_mask_def Let_def
    by (rule obeys_xcfp_begin [OF assms], rule obeys_tracks [of Idle _ InReset])
      (auto intro!: tracks_intro tracks_xcfp_parts simp del: jseq.simps)
  show "obeys l (xcfp_program x bf)"
    unfolding xcfp_program_def Let_def
    by (intro obeys_if lift obeys_xcfp_begin [OF assms], rule obeys_tracks [of Idle _ InReset])
      (auto intro!: tracks_intro tracks_xcfp_parts tracks_xcfp_blocks)
  show "obeys l (xcfp_verify x bf)"
    unfolding xcfp_verify_def Let_def
    by (intro obeys_if lift obeys_xcfp_begin [OF assms], rule obeys_tracks [of Idle _ InReset])
      (auto intro!: tracks_intro tracks_xcfp_parts tracks_xcfp_blocks)
  show "obeys l (xcfp_read x bf)"
    unfolding xcfp_read_def Let_def
    by (intro obeys_if lift obeys_xcfp_begin [OF assms])
      (auto intro!: tracks_intro tracks_xcfp_parts tracks_xcfp_blocks obeys_bind [OF tracks_xcfp_parts(1)]
        obeys_bind [OF tracks_xcfp_parts(4)])
qed

interpretation xcfp_protocol: prog_protocol xcfp_alg "\<lambda>_. True"
proof unfold_locales
  fix c :: xcfp and l bf assume l: "l \<noteq> OpenDR"
  show "obeys l (erase (xcfp_alg c))" "obeys l (program (xcfp_alg c) bf)" "obeys l (verify (xcfp_alg c) bf)"
    by (simp_all add: xcfp_alg_def obeys_xcfp [OF l])
  show "obeys l (read (xcfp_alg c) bf)"
    by (auto simp: xcfp_alg_def intro!: obeys_then [OF obeys_xcfp(4) [OF l]] tracks_intro)
  show "obeys l (reconfig (xcfp_alg c))" "obeys l (disable (xcfp_alg c))"
    using l by (simp_all add: xcfp_alg_def obeys_tracks [OF tracks_xcfp_parts(5)] obeys_tracks [OF tracks_xcfp_parts(4)])
qed

end
