(* ===== verification/SPIFlash.thy ===== *)
theory SPIFlash
  imports ProgAlg
begin

text \<open>
  \<^verbatim>\<open>progalgspiflash.cpp\<close>, the transport: SPI flashes behind an FPGA that has been loaded with a bridge
  from the instruction \<^verbatim>\<open>USER1\<close> to the SPI pins. A transfer shifts a header, the length of the
  SPI transaction and its bytes; the answer of a transaction comes with the next transfer.
  Messages, the debug file and time measurements are left out.
\<close>

section \<open>The class\<close>

definition SPI_USER1 :: byte where "SPI_USER1 = 0x02"
definition PAGE_PROGRAM :: byte where "PAGE_PROGRAM = 0x02"
definition PAGE_READ :: byte where "PAGE_READ = 0x03"
definition READ_STATUS_REGISTER :: byte where "READ_STATUS_REGISTER = 0x05"
definition WRITE_ENABLE :: byte where "WRITE_ENABLE = 0x06"
definition READ_IDENTIFICATION :: byte where "READ_IDENTIFICATION = 0x9F"
definition BULK_ERASE :: byte where "BULK_ERASE = 0xC7"
definition WRITE_BUSY :: byte where "WRITE_BUSY = 0x80"
definition AT45_SECTOR_ERASE :: byte where "AT45_SECTOR_ERASE = 0x7C"
definition SECTOR_LOCKDOWN_READ :: byte where "SECTOR_LOCKDOWN_READ = 0x35"
definition AT45_READ_STATUS :: byte where "AT45_READ_STATUS = 0xD7"
definition AT45_READY :: byte where "AT45_READY = 0x01"
definition BP0 :: byte where "BP0 = 0x04"
definition BP1 :: byte where "BP1 = 0x08"
definition BP2 :: byte where "BP2 = 0x10"

text \<open>
  The members of the class, and \<open>beyond\<close>: what the memory behind the local arrays holds, where
  the code reads past their end, and what they hold where they are not initialised.
\<close>

record spiflash =
  pgsize :: nat
  pages :: nat
  pages_per_sector :: nat
  pages_per_block :: nat
  sector_size :: nat
  sector_erase_cmd :: byte
  manf_id :: byte
  prod_id :: nat
  miso_buf :: "byte list"
  mosi_buf :: "byte list"
  page_buf :: "byte list option"
  beyond :: "byte list"

text \<open>The constructor; \<open>miso\<close>, \<open>mosi\<close> and \<open>n\<close> stand for what the new memory happens to hold.\<close>

definition spi_init :: "nat \<Rightarrow> byte list \<Rightarrow> byte list \<Rightarrow> byte list \<Rightarrow> spiflash" where
  "spi_init n miso mosi stack =
     \<lparr>pgsize = n, pages = n, pages_per_sector = n, pages_per_block = n, sector_size = 65536, sector_erase_cmd = 0xD8,
      manf_id = of_nat n, prod_id = n, miso_buf = fit 5010 miso, mosi_buf = fit 5010 mosi, page_buf = None, beyond = stack\<rparr>"

text \<open>A local array that starts with the bytes \<open>bs\<close>, and what follows.\<close>

definition stack_array :: "byte list \<Rightarrow> spiflash \<Rightarrow> byte list" where
  "stack_array bs s = bs @ beyond s"

section \<open>Transfers\<close>

text \<open>The header: a magic number and the length of the transaction in bits.\<close>

definition spi_header :: "nat \<Rightarrow> byte list" where
  "spi_header n = map bitRev [0x59, 0xa6, 0x59, 0xa6, of_nat (n * 8 div 256), of_nat (n * 8)]"

definition spi_fill :: "byte list \<Rightarrow> nat \<Rightarrow> nat \<Rightarrow> byte list \<Rightarrow> byte list res" where
  "spi_fill mosi mosi_len preamble old =
     rbind (buf_slice mosi 0 preamble) (\<lambda>p.
     rbind (buf_slice mosi preamble mosi_len) (\<lambda>d.
       buf_store old 0 (spi_header (mosi_len + preamble) @ map bitRev p @ d)))"

definition xc_user :: "bool \<Rightarrow> bool \<Rightarrow> nat \<Rightarrow> spiflash \<Rightarrow> spiflash jm" where
  "xc_user send want n s =
     jbind (jshiftIR [SPI_USER1]) (\<lambda>_.
     jbind (if send then jbind (jlift (buf_slice (mosi_buf s) 0 (nbytes n))) (\<lambda>d. jret (Some d)) else jret None) (\<lambda>tdi.
       if want
       then jbind (jcaptureDR tdi n True) (\<lambda>d.
            jbind (jlift (buf_store (miso_buf s) 0 d)) (\<lambda>b. jret (s\<lparr>miso_buf := b\<rparr>)))
       else jbind (jdo (OpDR tdi False n 0 True)) (\<lambda>_. jret s)))"

text \<open>The bytes that the caller gets through \<^verbatim>\<open>last_miso\<close>, when it is given.\<close>

definition spi_xfer_user1 ::
  "bool \<Rightarrow> nat \<Rightarrow> nat \<Rightarrow> byte list option \<Rightarrow> nat \<Rightarrow> nat \<Rightarrow> spiflash \<Rightarrow> (byte list \<times> spiflash) jm" where
  "spi_xfer_user1 last_miso miso_len miso_skip mosi mosi_len preamble s =
     jbind (case mosi of None \<Rightarrow> jret s
            | Some m \<Rightarrow> jbind (jlift (spi_fill m mosi_len preamble (mosi_buf s))) (\<lambda>b. jret (s\<lparr>mosi_buf := b\<rparr>))) (\<lambda>s.
     let maxlen = (if mosi = None then miso_len + miso_skip
                   else max (miso_len + miso_skip) (mosi_len + preamble + 4 + 2))
     in jbind (xc_user (mosi \<noteq> None) last_miso (maxlen * 8) s) (\<lambda>s.
        if last_miso \<and> miso_len \<noteq> 0
        then jbind (jlift (buf_slice (miso_buf s) miso_skip miso_len)) (\<lambda>d. jret (d, s))
        else jret ([], s)))"

text \<open>The two common forms: a command without an answer, and an answer without a command.\<close>

definition spi_send :: "byte list \<Rightarrow> nat \<Rightarrow> nat \<Rightarrow> spiflash \<Rightarrow> spiflash jm" where
  "spi_send mosi mosi_len preamble s =
     jbind (spi_xfer_user1 False 0 0 (Some mosi) mosi_len preamble s) (\<lambda>(_, s). jret s)"

definition spi_recv :: "nat \<Rightarrow> nat \<Rightarrow> spiflash \<Rightarrow> (byte list \<times> spiflash) jm" where
  "spi_recv miso_len miso_skip = spi_xfer_user1 True miso_len miso_skip None 0 0"

text \<open>The three address bytes of a page.\<close>

definition page_shift :: "nat \<Rightarrow> nat \<Rightarrow> nat" where
  "page_shift page pgsz = (if pgsz > 512 then page * 4 else if pgsz > 256 then page * 2 else page)"

definition page2padd :: "byte list \<Rightarrow> nat \<Rightarrow> nat \<Rightarrow> byte list res" where
  "page2padd buf page pgsz =
     (let page = page_shift page pgsz
      in rbind (buf_set buf 1 (of_nat (page div 256))) (\<lambda>buf.
         rbind (buf_set buf 2 (of_nat page)) (\<lambda>buf. buf_set buf 3 0)))"

section \<open>Waiting\<close>

text \<open>
  A pass of the loop asks for the status again and reads the answer to the question before it.
\<close>

definition spi_done :: "byte \<Rightarrow> byte \<Rightarrow> bool" where
  "spi_done command r = (if command = AT45_READ_STATUS then r AND AT45_READY \<noteq> 0 else r AND WRITE_BUSY = 0)"

definition wait_pass :: "byte \<Rightarrow> (byte \<Rightarrow> bool) \<Rightarrow> nat \<Rightarrow> spiflash \<Rightarrow> (nat \<times> spiflash + spiflash) jm" where
  "wait_pass command ready j s =
     jbind (jUsleep 1000) (\<lambda>_.
     jbind (spi_xfer_user1 True 1 1 (Some (stack_array [command] s)) 1 1 s) (\<lambda>(rbuf, s).
       jret (if ready (hd rbuf) then Inl (j + 1, s) else Inr s)))"

definition wait_loop :: "byte \<Rightarrow> (byte \<Rightarrow> bool) \<Rightarrow> nat \<Rightarrow> spiflash \<Rightarrow> (int \<times> spiflash) jm" where
  "wait_loop command ready limit s =
     jbind (spi_send (stack_array [command] s) 1 1 s) (\<lambda>s.
     jbind (jscan 0 limit (wait_pass command ready) s) (\<lambda>r.
       jret (case r of Inl (j, s) \<Rightarrow> (if j < limit then 0 else 1, s) | Inr s \<Rightarrow> (1, s))))"

definition wait :: "byte \<Rightarrow> nat \<Rightarrow> spiflash \<Rightarrow> (int \<times> spiflash) jm" where
  "wait command = wait_loop command (spi_done command)"

text \<open>The second form compares with the mask; its argument \<open>v\<close> is not used.\<close>

definition wait_mask :: "byte \<Rightarrow> byte \<Rightarrow> byte \<Rightarrow> nat \<Rightarrow> spiflash \<Rightarrow> (int \<times> spiflash) jm" where
  "wait_mask command msk v = wait_loop command (\<lambda>r. r AND msk = msk)"

end
