(* ===== verification/SPIInfo.thy ===== *)
theory SPIInfo
  imports SPIFlash
begin

text \<open>
  \<^verbatim>\<open>progalgspiflash.cpp\<close>, the identification: the JEDEC identification selects the manufacturer's routine,
  which sets the geometry of the part. A result other than \<open>1\<close> is a failure.
\<close>

definition spi_geometry :: "nat \<Rightarrow> nat option \<Rightarrow> spiflash \<Rightarrow> int \<times> spiflash" where
  "spi_geometry sz n s = (case n of None \<Rightarrow> (- 1, s) | Some n \<Rightarrow> (1, s\<lparr>pages := n, pgsize := sz\<rparr>))"

text \<open>Reading the number of a part; the answer goes to the local array of eight bytes.\<close>

definition spi_read_otp :: "spiflash \<Rightarrow> spiflash jm" where
  "spi_read_otp s =
     jbind (spi_send (stack_array [0x4B, 0x00, 0x01, 0x02, 0, 0, 0, 0] s) 8 4 s) (\<lambda>s.
     jbind (spi_recv 8 4 s) (\<lambda>(_, s). jret s))"

definition s33_pages :: "byte \<Rightarrow> nat option" where
  "s33_pages c = (if c = 0x11 then Some 8192 else if c = 0x12 then Some 16364 else if c = 0x13 then Some 32768 else None)"

definition spi_flashinfo_s33 :: "byte list \<Rightarrow> spiflash \<Rightarrow> (int \<times> spiflash) jm" where
  "spi_flashinfo_s33 buf s =
     (if buf ! 1 \<noteq> 0x89 then jret (- 1, s)
      else case s33_pages (buf ! 2) of
             None \<Rightarrow> jret (- 1, s)
           | Some n \<Rightarrow> jbind (spi_read_otp (s\<lparr>pages := n, pgsize := 256\<rparr>)) (\<lambda>s. jret (1, s)))"

definition amic_pages :: "byte \<Rightarrow> nat option" where
  "amic_pages c = (if 0x10 \<le> c \<and> c \<le> 0x16 then Some (256 * 2 ^ (unat c - 0x10)) else None)"

definition spi_flashinfo_amic :: "byte list \<Rightarrow> spiflash \<Rightarrow> int \<times> spiflash" where
  "spi_flashinfo_amic buf = spi_geometry 256 (amic_pages (buf ! 2))"

definition spi_flashinfo_amic_quad :: "byte list \<Rightarrow> spiflash \<Rightarrow> int \<times> spiflash" where
  "spi_flashinfo_amic_quad buf = spi_geometry 256 (if buf ! 2 = 0x16 then Some 16384 else None)"

definition w25_pages :: "byte \<Rightarrow> nat option" where
  "w25_pages c = (if 0x11 \<le> c \<and> c \<le> 0x19 then Some (512 * 2 ^ (unat c - 0x11)) else None)"

definition spi_flashinfo_w25 :: "byte list \<Rightarrow> spiflash \<Rightarrow> (int \<times> spiflash) jm" where
  "spi_flashinfo_w25 buf s =
     (if buf ! 1 \<noteq> 0x30 \<and> buf ! 1 \<noteq> 0x40 then jret (- 1, s)
      else case w25_pages (buf ! 2) of
             None \<Rightarrow> jret (- 1, s)
           | Some n \<Rightarrow>
               let s = s\<lparr>pages := n, pgsize := 256, sector_size := 4096, sector_erase_cmd := 0x20\<rparr>
               in if buf ! 1 = 0x40 then jbind (spi_read_otp s) (\<lambda>s. jret (1, s)) else jret (1, s))"

record at45_t =
  at45_id :: nat
  at45_pgsize :: nat
  at45_alt_pagesize :: nat
  at45_pages :: nat
  at45_pages_per_sector :: nat
  chipname :: string

definition at45chips :: "at45_t list" where
  "at45chips = map (\<lambda>(i, p, a, n, k, c). \<lparr>at45_id = i, at45_pgsize = p, at45_alt_pagesize = a, at45_pages = n,
       at45_pages_per_sector = k, chipname = c\<rparr>)
     [(3, 264, 256, 512, 128, ''AT45DB011''), (7, 264, 256, 2048, 256, ''AT45DB041''),
      (9, 264, 256, 4096, 256, ''AT45DB801''), (0x0b, 528, 512, 4096, 256, ''AT45DB161''),
      (0x0d, 528, 512, 8192, 256, ''AT45DB321''), (0x0f, 1056, 1024, 8192, 256, ''AT45DB641''),
      (0xff, 0, 0, 0, 0, ''UNKNOWN'')]"

definition spi_flashinfo_at45 :: "spiflash \<Rightarrow> (int \<times> spiflash) jm" where
  "spi_flashinfo_at45 s =
     jbind (spi_send (stack_array [AT45_READ_STATUS] s) 2 1 s) (\<lambda>s.
     jbind (spi_recv 2 1 s) (\<lambda>(fbuf, s).
       case find (\<lambda>c. at45_id c = unat (drop_bit 2 (bitRev (fbuf ! 0)) AND 0x0f)) at45chips of
         None \<Rightarrow> jret (- 1, s)
       | Some c \<Rightarrow>
           let s = s\<lparr>pgsize := at45_pgsize c, pages := at45_pages c, pages_per_sector := at45_pages_per_sector c,
                     pages_per_block := 8\<rparr>
           in jbind (spi_send (stack_array [0x77, 0, 0, 0] s) 128 4 s) (\<lambda>s.
              jbind (spi_recv 128 4 s) (\<lambda>(_, s). jret (1, s)))))"

definition sst_pages :: "byte \<Rightarrow> nat option" where
  "sst_pages c = (if c = 0x8d then Some 2048 else if c = 0x8e then Some 4096 else if c = 0x41 then Some 8192 else None)"

text \<open>The routine for SST parts returns a truth value, so its failures are \<open>0\<close>.\<close>

definition spi_flashinfo_sst :: "byte list \<Rightarrow> spiflash \<Rightarrow> int \<times> spiflash" where
  "spi_flashinfo_sst buf s =
     (if buf ! 1 \<noteq> 0x25 then (0, s)
      else let s = s\<lparr>pgsize := 256, sector_size := 4096\<rparr>
           in case sst_pages (buf ! 2) of None \<Rightarrow> (0, s) | Some n \<Rightarrow> (1, s\<lparr>pages := n\<rparr>))"

text \<open>Pages and, where it is set, the sector size, from the second and third identification byte.\<close>

definition mx25l_size :: "byte \<Rightarrow> byte \<Rightarrow> (nat \<times> nat option) option" where
  "mx25l_size t c = (if t = 0x20 \<and> c = 0x17 then Some (262144, Some 65536) else None)"

definition m25p_size :: "byte \<Rightarrow> byte \<Rightarrow> (nat \<times> nat option) option" where
  "m25p_size t c =
     (if t = 0x20 then
        if c = 0x11 then Some (512, Some 32768)
        else if 0x12 \<le> c \<and> c \<le> 0x16 then Some (1024 * 2 ^ (unat c - 0x12), None)
        else if c = 0x17 then Some (32768, Some 131072)
        else if c = 0x18 then Some (65536, Some 262144)
        else None
      else if t = 0x80 then if c = 0x15 then Some (65536, Some 65536) else None
      else if t = 0xba then
        if c = 0x17 then Some (32768, Some 65536) else if c = 0x18 then Some (65536, Some 65536) else None
      else None)"

definition set_size :: "(nat \<times> nat option) option \<Rightarrow> spiflash \<Rightarrow> int \<times> spiflash" where
  "set_size r s =
     (case r of
        None \<Rightarrow> (- 1, s)
      | Some (n, None) \<Rightarrow> (1, s\<lparr>pages := n, pgsize := 256\<rparr>)
      | Some (n, Some k) \<Rightarrow> (1, s\<lparr>pages := n, sector_size := k, pgsize := 256\<rparr>))"

definition spi_read_id :: "spiflash \<Rightarrow> (byte list \<times> spiflash) jm" where
  "spi_read_id s =
     jbind (spi_send (stack_array (READ_IDENTIFICATION # replicate 20 0) s) 20 1 s) (\<lambda>s. spi_recv 20 1 s)"

definition spi_flashinfo_m25p_mx25l :: "bool \<Rightarrow> spiflash \<Rightarrow> (int \<times> spiflash) jm" where
  "spi_flashinfo_m25p_mx25l is_mx25l s =
     jbind (spi_read_id s) (\<lambda>(fbuf, s).
       jret (set_size ((if is_mx25l then mx25l_size else m25p_size) (bitRev (fbuf ! 1)) (bitRev (fbuf ! 2))) s))"

definition issi_mb :: "byte \<Rightarrow> byte \<Rightarrow> nat option" where
  "issi_mb t c =
     (if t = 0x40 then if c = 0x14 then Some 8 else if c = 0x15 then Some 16 else if c = 0x16 then Some 32 else None
      else if t = 0x60 then if c = 0x18 then Some 128 else None
      else None)"

definition mb_pages :: "nat \<Rightarrow> nat" where
  "mb_pages mb = mb * 1024 * 1024 div 8 div 256"

definition set_mb :: "nat option \<Rightarrow> spiflash \<Rightarrow> int \<times> spiflash" where
  "set_mb mb s =
     (let s = s\<lparr>sector_size := 4096, pgsize := 256, sector_erase_cmd := 0x20\<rparr>
      in case mb of None \<Rightarrow> (- 1, s) | Some mb \<Rightarrow> (1, s\<lparr>pages := mb_pages mb\<rparr>))"

definition spi_flashinfo_issi :: "spiflash \<Rightarrow> (int \<times> spiflash) jm" where
  "spi_flashinfo_issi s =
     jbind (spi_read_id s) (\<lambda>(fbuf, s). jret (set_mb (issi_mb (bitRev (fbuf ! 1)) (bitRev (fbuf ! 2))) s))"

definition spansion_mb :: "byte \<Rightarrow> byte \<Rightarrow> nat option" where
  "spansion_mb t c =
     (if t = 0x40 then if c = 0x15 then Some 16 else if c = 0x16 then Some 32 else if c = 0x17 then Some 64 else None
      else if t = 0x60 then if c = 0x16 then Some 32 else if c = 0x17 then Some 64 else if c = 0x18 then Some 128 else None
      else None)"

definition spi_flashinfo_spansion :: "byte list \<Rightarrow> spiflash \<Rightarrow> int \<times> spiflash" where
  "spi_flashinfo_spansion buf = set_mb (spansion_mb (buf ! 1) (buf ! 2))"

text \<open>The manufacturer's routine; \<open>None\<close> stands for the early returns of \<open>-1\<close>.\<close>

definition spi_flashinfo_manf :: "byte list \<Rightarrow> spiflash \<Rightarrow> (int \<times> spiflash) option jm" where
  "spi_flashinfo_manf fbuf s =
     (let some = (\<lambda>m. jbind m (\<lambda>r. jret (Some r)))
      in if fbuf ! 0 = 0x01 then jret (Some (spi_flashinfo_spansion fbuf s))
         else if fbuf ! 0 = 0x1f then
           if drop_bit 5 (fbuf ! 1) = 1 then some (spi_flashinfo_at45 s) else jret None
         else if fbuf ! 0 = 0x30 then jret (Some (spi_flashinfo_amic fbuf s))
         else if fbuf ! 0 = 0x40 then jret (Some (spi_flashinfo_amic_quad fbuf s))
         else if fbuf ! 0 = 0x20 then some (spi_flashinfo_m25p_mx25l False s)
         else if fbuf ! 0 = 0xc2 then some (spi_flashinfo_m25p_mx25l True s)
         else if fbuf ! 0 = 0x89 then some (spi_flashinfo_s33 fbuf s)
         else if fbuf ! 0 = 0xef then some (spi_flashinfo_w25 fbuf s)
         else if fbuf ! 0 = 0x9d then some (spi_flashinfo_issi s)
         else if fbuf ! 0 = 0xbf then jret (Some (spi_flashinfo_sst fbuf s))
         else jret None)"

text \<open>The new buffer for a page is not initialised.\<close>

definition spi_new_buf :: "int \<Rightarrow> spiflash \<Rightarrow> spiflash" where
  "spi_new_buf res s = (if res = 1 then s\<lparr>page_buf := Some (fit (pgsize s + 16) (beyond s))\<rparr> else s)"

definition spi_flashinfo :: "spiflash \<Rightarrow> (int \<times> spiflash) jm" where
  "spi_flashinfo s =
     (let fbuf = stack_array [READ_IDENTIFICATION, 0, 0, 0, 0, 0, 0, 0] s
      in jbind (spi_send fbuf 4 1 s) (\<lambda>s.
         jbind (spi_send fbuf 4 1 s) (\<lambda>s.
         jbind (spi_recv 4 1 s) (\<lambda>(d, s).
           let fbuf = map bitRev d @ replicate 4 0;
               s = s\<lparr>manf_id := fbuf ! 0, prod_id := unat (fbuf ! 1) * 256 + unat (fbuf ! 2)\<rparr>
           in jbind (spi_flashinfo_manf fbuf s) (\<lambda>r.
              case r of
                None \<Rightarrow> jret (- 1, s)
              | Some (res, s) \<Rightarrow>
                  let s = spi_new_buf res s in jret (if page_buf s = None then - 1 else res, s))))))"

definition spi_test :: "nat \<Rightarrow> spiflash \<Rightarrow> spiflash jm" where
  "spi_test test_count s =
     jfold 0 test_count (\<lambda>_ s.
       jbind (spi_send (stack_array [READ_IDENTIFICATION, 0, 0, 0] s) 4 1 s) (\<lambda>s.
       jbind (spi_recv 4 1 s) (\<lambda>(_, s). jret s))) s"

end
