(* ===== verification/ProgSPI.thy ===== *)
theory ProgSPI
  imports SPIInfo
begin

text \<open>
  \<^verbatim>\<open>progalgspiflash.cpp\<close>, the operations: reading, verifying, programming and erasing, for the parts with
  sector erase and page program commands, for Atmel's AT45 and for SST's parts. Loops of the form
  \<^verbatim>\<open>for (i = a; i < e; i += d)\<close> are folds over the pass; \<open>passes\<close> is their number.
\<close>

definition passes :: "nat \<Rightarrow> nat \<Rightarrow> nat \<Rightarrow> nat" where
  "passes a e d = (e - a + d - 1) div d"

text \<open>The start of the range: the offset of the request, cut to a page.\<close>

definition spi_offset :: "spiflash \<Rightarrow> bitfile \<Rightarrow> nat" where
  "spi_offset s bf = boffset bf div pgsize s * pgsize s"

definition spi_total :: "spiflash \<Rightarrow> nat" where
  "spi_total s = pages s * pgsize s"

text \<open>The bytes of the page at \<open>i\<close> that belong to the range.\<close>

definition page_part :: "spiflash \<Rightarrow> nat \<Rightarrow> nat \<Rightarrow> nat" where
  "page_part s data_end i = (if data_end - i > pgsize s then pgsize s else data_end - i)"

text \<open>The variable \<^verbatim>\<open>rlen\<close>, which keeps its value when \<open>i\<close> is behind the range.\<close>

definition next_rlen :: "spiflash \<Rightarrow> nat \<Rightarrow> nat \<Rightarrow> nat option \<Rightarrow> nat res" where
  "next_rlen s data_end i old =
     (if i < data_end then Inr (page_part s data_end i)
      else case old of None \<Rightarrow> Inl Uninit | Some n \<Rightarrow> Inr n)"

definition read_command :: "spiflash \<Rightarrow> nat \<Rightarrow> byte list res" where
  "read_command s i = page2padd (stack_array [PAGE_READ, 0, 0, 0] s) (i div pgsize s) (pgsize s)"

section \<open>Reading\<close>

definition spi_read_range :: "spiflash \<Rightarrow> bitfile \<Rightarrow> nat \<times> nat" where
  "spi_read_range s bf =
     (let offset = spi_offset s bf;
          (data_end, len) = (if rlength bf \<noteq> 0 then ((offset + rlength bf) mod 2 ^ 32, rlength bf)
                             else (spi_total s, spi_total s - offset))
      in (if len > spi_total s then spi_total s else data_end, len))"

definition spi_read_page ::
  "nat \<Rightarrow> nat \<Rightarrow> nat \<Rightarrow> nat option \<times> bitfile \<times> spiflash \<Rightarrow> (nat option \<times> bitfile \<times> spiflash) jm" where
  "spi_read_page offset data_end k = (\<lambda>(rl, bf, s).
     let sz = pgsize s; i = offset + k * sz; part = page_part s data_end i
     in jbind (jlift (read_command s i)) (\<lambda>buf.
        if k = 0 then
          jbind (jlift (next_rlen s data_end i rl)) (\<lambda>rlen.
          jbind (spi_send buf rlen 4 s) (\<lambda>s. jret (Some rlen, bf, s)))
        else
          jbind (if i \<ge> data_end
                 then jbind (jlift (next_rlen s data_end i rl)) (\<lambda>rlen.
                      jbind (spi_recv rlen 4 s) (\<lambda>(d, s). jret (rlen, d, s)))
                 else jbind (spi_xfer_user1 True sz 4 (Some buf) part 4 s) (\<lambda>(d, s). jret (part, d, s))) (\<lambda>(rlen, d, s).
          jbind (jlift (buf_store (buffer bf) ((k - 1) * sz) d)) (\<lambda>b.
            jret (Some rlen, bf\<lparr>buffer := b\<rparr>, s)))))"

definition spi_read :: "bitfile \<Rightarrow> spiflash \<Rightarrow> (int \<times> bitfile \<times> spiflash) jm" where
  "spi_read bf s =
     (let offset = spi_offset s bf; (data_end, len) = spi_read_range s bf
      in if offset > spi_total s then jret (- 1, bf, s)
         else jbind (jfold 0 (passes offset (data_end + pgsize s) (pgsize s)) (spi_read_page offset data_end)
                      (None, setLength (bits_of len) bf, s)) (\<lambda>(_, bf, s). jret (0, bf, s)))"

section \<open>Verifying\<close>

definition spi_verify_end :: "spiflash \<Rightarrow> bitfile \<Rightarrow> nat" where
  "spi_verify_end s bf =
     (let offset = spi_offset s bf; n = getLength bf div 8;
          data_end = (if rlength bf \<noteq> 0 \<and> rlength bf < n then offset + rlength bf else offset + n)
      in if data_end > spi_total s then spi_total s else data_end)"

text \<open>
  A pass asks for the page at \<open>i\<close> and compares the page before it, in as many bytes as the page at
  \<open>i\<close> has in the range. The state counts the failures; the sixth one ends the loop.
\<close>

definition spi_verify_page ::
  "bitfile \<Rightarrow> nat \<Rightarrow> nat \<Rightarrow> nat \<Rightarrow> nat option \<times> nat \<times> spiflash \<Rightarrow>
   (nat \<times> spiflash + nat option \<times> nat \<times> spiflash) jm" where
  "spi_verify_page bf offset data_end j = (\<lambda>(rl, k, s).
     let i = offset + j * pgsize s
     in jbind (jlift (next_rlen s data_end i rl)) (\<lambda>rlen.
        jbind (jlift (read_command s i)) (\<lambda>buf.
        jbind (spi_xfer_user1 True (pgsize s) 4 (Some buf) rlen 4 s) (\<lambda>(data, s).
        if j = 0 then jret (Inr (Some rlen, k, s))
        else jbind (jlift (buf_slice (buffer bf) ((j - 1) * pgsize s) rlen)) (\<lambda>d.
          let k = (if memcmp (take rlen data) d \<noteq> 0 then k + 1 else k)
          in jret (if memcmp (take rlen data) d \<noteq> 0 \<and> k > 5 then Inl (k, s) else Inr (Some rlen, k, s)))))))"

definition spi_verify :: "bitfile \<Rightarrow> spiflash \<Rightarrow> (int \<times> spiflash) jm" where
  "spi_verify bf s =
     (let offset = spi_offset s bf; data_end = spi_verify_end s bf
      in if getLength bf div 8 = 0 then jret (- 1, s)
         else if offset > spi_total s then jret (1, s)
         else jbind (jscan 0 (passes offset (data_end + pgsize s) (pgsize s)) (spi_verify_page bf offset data_end)
                      (None, 0, s)) (\<lambda>r.
              jret (case r of Inl (k, s) \<Rightarrow> (int k, s) | Inr (_, k, s) \<Rightarrow> (int k, s))))"

section \<open>Programming\<close>

definition spi_program_end :: "spiflash \<Rightarrow> bitfile \<Rightarrow> nat" where
  "spi_program_end s bf =
     (let offset = spi_offset s bf;
          data_end = (offset + (if rlength bf \<noteq> 0 then rlength bf else getLength bf div 8)) mod 2 ^ 32
      in if data_end > spi_total s then spi_total s else data_end)"

definition spi_write_enable :: "spiflash \<Rightarrow> spiflash jm" where
  "spi_write_enable s = spi_send (stack_array [WRITE_ENABLE] s) 0 1 s"

text \<open>
  Erasing the sector of the page at \<open>i\<close>; the rest of \<^verbatim>\<open>fbuf\<close> is what the stack holds, its address bytes
  are overwritten.
\<close>

definition erase_command :: "spiflash \<Rightarrow> nat \<Rightarrow> byte list res" where
  "erase_command s i = page2padd (stack_array [sector_erase_cmd s, 0, 0, 0] s) (i div pgsize s) (pgsize s)"

definition spi_erase_sector :: "nat \<Rightarrow> spiflash \<Rightarrow> (int \<times> spiflash) jm" where
  "spi_erase_sector i s =
     jbind (spi_write_enable s) (\<lambda>s.
     jbind (jlift (erase_command s i)) (\<lambda>fbuf.
     jbind (spi_send fbuf 0 4 s) (\<lambda>s. wait READ_STATUS_REGISTER 3000 s)))"

text \<open>The page buffer \<^verbatim>\<open>buf\<close> with a command, the address and the bytes of the file.\<close>

definition fill_page :: "byte list \<Rightarrow> bitfile \<Rightarrow> nat \<Rightarrow> nat \<Rightarrow> nat \<Rightarrow> spiflash \<Rightarrow> byte list res" where
  "fill_page buf bf offset i rlen s =
     rbind (page2padd buf (i div pgsize s) (pgsize s)) (\<lambda>buf.
     rbind (buf_slice (buffer bf) (i - offset) rlen) (\<lambda>d. buf_store buf 4 d))"

definition the_buf :: "spiflash \<Rightarrow> byte list res" where
  "the_buf s = (case page_buf s of None \<Rightarrow> Inl NullPointer | Some b \<Rightarrow> Inr b)"

definition spi_set_command :: "byte \<Rightarrow> spiflash \<Rightarrow> spiflash res" where
  "spi_set_command c s =
     rbind (the_buf s) (\<lambda>b. rbind (buf_set b 0 c) (\<lambda>b. Inr (s\<lparr>page_buf := Some b\<rparr>)))"

definition spi_write_page :: "bitfile \<Rightarrow> nat \<Rightarrow> nat \<Rightarrow> nat \<Rightarrow> spiflash \<Rightarrow> spiflash jm" where
  "spi_write_page bf offset i rlen s =
     jbind (jlift (rbind (the_buf s) (\<lambda>b. fill_page b bf offset i rlen s))) (\<lambda>b.
       spi_send b rlen 4 (s\<lparr>page_buf := Some b\<rparr>))"

text \<open>Enabling the write, sending the page and waiting for the part.\<close>

definition spi_put_page :: "bitfile \<Rightarrow> nat \<Rightarrow> nat \<Rightarrow> nat \<Rightarrow> spiflash \<Rightarrow> (int \<times> spiflash) jm" where
  "spi_put_page bf offset i rlen s =
     jbind (spi_write_enable s) (\<lambda>s.
     jbind (jbind (jlift (spi_set_command PAGE_PROGRAM s)) (spi_write_page bf offset i rlen))
       (wait READ_STATUS_REGISTER 50))"

definition spi_program_page ::
  "bitfile \<Rightarrow> nat \<Rightarrow> nat \<Rightarrow> nat \<Rightarrow> nat \<times> spiflash \<Rightarrow> (int \<times> spiflash + nat \<times> spiflash) jm" where
  "spi_program_page bf offset data_end k = (\<lambda>(sector_nr, s).
     let i = offset + k * pgsize s; rlen = page_part s data_end i; sec = i div sector_size s
     in jbind (if sector_nr \<le> sec then spi_erase_sector i s else jret (0, s)) (\<lambda>(j, s).
        if j \<noteq> 0 then jret (Inl (- 1, s))
        else
          jbind (spi_put_page bf offset i rlen s) (\<lambda>(j, s).
            jret (if j \<noteq> 0 then Inl (- 1, s) else Inr (if sector_nr \<le> sec then sec + 1 else sector_nr, s)))))"

definition sectorerase_and_program :: "bitfile \<Rightarrow> spiflash \<Rightarrow> (int \<times> spiflash) jm" where
  "sectorerase_and_program bf s =
     (let offset = spi_offset s bf; data_end = spi_program_end s bf
      in if getLength bf div 8 = 0 then jret (- 1, s)
         else if offset > spi_total s then jret (- 1, s)
         else jbind (jscan 0 (passes offset data_end (pgsize s)) (spi_program_page bf offset data_end) (0, s)) (\<lambda>r.
              jret (case r of Inl x \<Rightarrow> x | Inr (_, s) \<Rightarrow> (0, s))))"

subsection \<open>AT45\<close>

definition at45_program_page ::
  "bitfile \<Rightarrow> nat \<Rightarrow> nat \<Rightarrow> nat \<Rightarrow> spiflash \<Rightarrow> (int \<times> spiflash + spiflash) jm" where
  "at45_program_page bf offset data_end k s =
     (let i = offset + k * pgsize s
      in jbind (spi_write_page bf offset i (page_part s data_end i) s) (\<lambda>s.
         jbind (wait AT45_READ_STATUS 35 s) (\<lambda>(j, s). jret (if j \<noteq> 0 then Inl (- 1, s) else Inr s))))"

definition program_at45 :: "bitfile \<Rightarrow> spiflash \<Rightarrow> (int \<times> spiflash) jm" where
  "program_at45 bf s =
     (let offset = spi_offset s bf; data_end = spi_program_end s bf
      in if offset > spi_total s then jret (- 1, s)
         else jbind (jlift (spi_set_command 0x82 s)) (\<lambda>s.
              jbind (jscan 0 (passes offset data_end (pgsize s)) (at45_program_page bf offset data_end) s) (\<lambda>r.
                jret (case r of Inl x \<Rightarrow> x | Inr s \<Rightarrow> (0, s)))))"

text \<open>
  The sectors of an AT45: the first one is split after \<^verbatim>\<open>pages_per_block\<close> pages. The lock bytes that are
  checked lie in an array of twenty bytes, of which four are read.
\<close>

definition at45_next :: "spiflash \<Rightarrow> nat \<Rightarrow> nat" where
  "at45_next s page =
     (if page = 0 then pages_per_block s else if page = pages_per_block s then pages_per_sector s
      else page + pages_per_sector s)"

definition at45_unlocked :: "byte list \<Rightarrow> nat \<Rightarrow> bool res" where
  "at45_unlocked rbuf n = fold (\<lambda>i r. rbind r (\<lambda>u. if u then rbind (buf_get rbuf i) (\<lambda>b. Inr (b = 0)) else Inr False)) [0..<n] (Inr True)"

definition at45_erase_sector :: "nat \<Rightarrow> spiflash \<Rightarrow> (int \<times> spiflash) jm" where
  "at45_erase_sector page s =
     jbind (jlift (page2padd (stack_array [AT45_SECTOR_ERASE, 0, 0, 0] s) page (pgsize s))) (\<lambda>fbuf.
     jbind (spi_send fbuf 0 4 s) (\<lambda>s. wait AT45_READ_STATUS 5000 s))"

definition erase_at45 :: "spiflash \<Rightarrow> (int \<times> spiflash) jm" where
  "erase_at45 s =
     jbind (spi_send (stack_array (SECTOR_LOCKDOWN_READ # replicate 23 0) s) 0 32 s) (\<lambda>s.
     jbind (spi_recv 4 28 s) (\<lambda>(d, s).
     jbind (jlift (at45_unlocked (take 20 (stack_array d s)) (pages s div pages_per_sector s))) (\<lambda>u.
       if \<not> u then jret (- 1, s)
       else jbind (jscan 0 (pages s + 1) (\<lambda>_ (page, s).
              if page \<ge> pages s then jret (Inl (0, s))
              else jbind (at45_erase_sector page s) (\<lambda>(i, s).
                   jret (if i \<noteq> 0 then Inl (- 1, s) else Inr (at45_next s page, s)))) (0, s)) (\<lambda>r.
            case r of Inl x \<Rightarrow> jret x | Inr _ \<Rightarrow> jlift (Inl NotReturned)))))"

subsection \<open>SST\<close>

definition sst_command :: "byte \<Rightarrow> nat \<Rightarrow> spiflash \<Rightarrow> spiflash jm" where
  "sst_command c tCE s = jbind (spi_send (stack_array [c] s) 0 1 s) (\<lambda>s. jbind (jUsleep tCE) (\<lambda>_. jret s))"

definition sst_disable_write_protect :: "spiflash \<Rightarrow> spiflash jm" where
  "sst_disable_write_protect s =
     jbind (sst_command 0x50 10 s) (\<lambda>s.
     jbind (spi_send (stack_array [0x01, 0x00] s) 0 2 s) (\<lambda>s. jbind (jUsleep 10) (\<lambda>_. jret s)))"

text \<open>The first command of the auto-increment mode has the address; the following ones the next two bytes.\<close>

definition sst_data :: "bitfile \<Rightarrow> nat \<Rightarrow> (byte \<times> byte) res" where
  "sst_data bf n =
     rbind (buf_get (buffer bf) n) (\<lambda>a. rbind (buf_get (buffer bf) (n + 1)) (\<lambda>b. Inr (bitRev a, bitRev b)))"

definition sst_program_word ::
  "bitfile \<Rightarrow> nat \<Rightarrow> nat \<Rightarrow> byte list \<times> spiflash \<Rightarrow> (byte list \<times> spiflash) jm" where
  "sst_program_word bf offset k = (\<lambda>(cmd, s).
     jbind (jlift (sst_data bf (2 * k))) (\<lambda>(a, b).
       let cmd = (if k \<noteq> 0 then cmd[1 := a, 2 := b]
                  else cmd[1 := of_nat (offset div 2 ^ 16), 2 := of_nat (offset div 2 ^ 8), 3 := of_nat offset, 4 := a, 5 := b])
       in jbind (spi_send cmd 0 (if k \<noteq> 0 then 3 else 6) s) (\<lambda>s. jret (cmd, s))))"

definition sst_erase_step :: "nat \<Rightarrow> nat \<Rightarrow> nat \<times> spiflash \<Rightarrow> (int \<times> spiflash + nat \<times> spiflash) jm" where
  "sst_erase_step offset k = (\<lambda>(sector_nr, s).
     let i = offset + k * sector_size s; sec = i div sector_size s
     in if sector_nr \<le> sec
        then jbind (spi_erase_sector i s) (\<lambda>(j, s). jret (if j \<noteq> 0 then Inl (- 1, s) else Inr (sec + 1, s)))
        else jret (Inr (sector_nr, s)))"

text \<open>Write enable, and the wait for bit 6 of the status with fifty passes.\<close>

definition sst_enable :: "spiflash \<Rightarrow> (int \<times> spiflash) jm" where
  "sst_enable s = jbind (sst_command 0x06 50 s) (\<lambda>s. wait_mask READ_STATUS_REGISTER 0x40 0x40 50 s)"

text \<open>
  Writing in the auto-increment mode. The result of the last wait is compared with \<open>< 0\<close>, which
  it never is.
\<close>

definition sst_write :: "bitfile \<Rightarrow> nat \<Rightarrow> nat \<Rightarrow> spiflash \<Rightarrow> (int \<times> spiflash) jm" where
  "sst_write bf offset data_end s =
     jbind (jfold 0 (passes offset data_end 2) (sst_program_word bf offset) ([0xad, 0, 0, 0, 0xaa, 0xaa], s)) (\<lambda>(_, s).
     jbind (spi_send (stack_array [0x04] s) 0 1 s) (\<lambda>s.
     jbind (wait_mask READ_STATUS_REGISTER 0x01 0x0 10 s) (\<lambda>(j, s).
       jret (if j < 0 then - 1 else 0, s))))"

definition program_sst :: "bitfile \<Rightarrow> spiflash \<Rightarrow> (int \<times> spiflash) jm" where
  "program_sst bf s =
     (let offset = spi_offset s bf; data_end = spi_program_end s bf
      in if offset > spi_total s then jret (- 1, s)
         else
           jbind (sst_command 0x06 50 s) (\<lambda>s.
           jbind (sst_command 0x80 50 s) (\<lambda>s.
           jbind (sst_disable_write_protect s) (\<lambda>s.
           jbind (sst_enable s) (\<lambda>(j, s).
           if j \<noteq> 0 then jret (- 1, s)
           else
             jbind (jscan 0 (passes offset data_end (sector_size s)) (sst_erase_step offset) (0, s)) (\<lambda>r.
             case r of
               Inl x \<Rightarrow> jret x
             | Inr (_, s) \<Rightarrow>
                 jbind (sst_enable s) (\<lambda>(j, s).
                   if j \<noteq> 0 then jret (- 1, s) else sst_write bf offset data_end s)))))))"

section \<open>Erasing\<close>

text \<open>
  The block protection bits are looked for in the answer to whatever was sent last: the command
  in \<^verbatim>\<open>fbuf\<close> is not sent.
\<close>

definition erase_bulk :: "spiflash \<Rightarrow> (int \<times> spiflash) jm" where
  "erase_bulk s =
     jbind (spi_recv 2 1 s) (\<lambda>(d, s).
       if bitRev (d ! 1) AND (BP0 OR BP1 OR BP2) \<noteq> 0 then jret (- 1, s)
       else jbind (spi_write_enable s) (\<lambda>s.
            jbind (spi_send (stack_array [BULK_ERASE] s) 0 1 s) (\<lambda>s.
            jbind (wait READ_STATUS_REGISTER 80000 s) (\<lambda>(i, s).
              jret (if i \<noteq> 0 then - 1 else 0, s)))))"

definition erase_sst :: "spiflash \<Rightarrow> (int \<times> spiflash) jm" where
  "erase_sst s = jbind (sst_disable_write_protect s) erase_bulk"

section \<open>The choice by manufacturer\<close>

definition sector_parts :: "byte set" where
  "sector_parts = {0x01, 0x20, 0xc2, 0x30, 0x40, 0x9d, 0xef, 0x89}"

definition spi_program :: "bitfile \<Rightarrow> spiflash \<Rightarrow> (int \<times> spiflash) jm" where
  "spi_program bf s =
     (if getLength bf div 8 > spi_total s then jret (- 1, s)
      else if manf_id s = 0x1f then program_at45 bf s
      else if manf_id s \<in> sector_parts then sectorerase_and_program bf s
      else if manf_id s = 0xbf then program_sst bf s
      else jret (- 1, s))"

definition spi_erase :: "spiflash \<Rightarrow> (int \<times> spiflash) jm" where
  "spi_erase s =
     (if manf_id s = 0x1f then erase_at45 s
      else if manf_id s \<in> sector_parts then erase_bulk s
      else if manf_id s = 0xbf then erase_sst s
      else jret (- 1, s))"

section \<open>The chain test\<close>

text \<open>The identification is asked for and dropped, \<open>n\<close> times.\<close>

definition spi_test :: "int \<Rightarrow> spiflash \<Rightarrow> spiflash jm" where
  "spi_test test_count s =
     jfold 0 (nat test_count) (\<lambda>_ s.
       jbind (spi_send (stack_array [READ_IDENTIFICATION, 0, 0, 0] s) 4 1 s) (\<lambda>s.
       jbind (spi_recv 4 1 s) (\<lambda>(_, s). jret s))) s"

end
