(* ===== verification/SPIDevice.thy ===== *)
theory SPIDevice
  imports ProgSPI
begin

text \<open>
  The SPI flash behind the bridge: a memory with page program, sector erase and read commands, a write
  enable latch and a status register that reports an operation as busy for a number of polls. The
  bytes are in the order in which JTAG shifts them, so commands and addresses are reversed.
\<close>

section \<open>The part\<close>

record spi_part =
  part_size :: nat
  part_sector :: nat
  part_erase :: byte
  part_busy :: "nat \<Rightarrow> nat"

record spidev =
  dmem :: "nat \<Rightarrow> byte"
  dwel :: bool
  dops :: nat
  dleft :: nat
  dout :: "byte option list"
  dir :: byte

text \<open>\<open>part_busy n\<close> is the number of polls that find the \<open>n\<close>-th operation still busy.\<close>

definition spi_idle :: "(nat \<Rightarrow> byte) \<Rightarrow> spidev" where
  "spi_idle mem = \<lparr>dmem = mem, dwel = False, dops = 0, dleft = 0, dout = [], dir = 0\<rparr>"

definition spi_address :: "byte list \<Rightarrow> nat" where
  "spi_address p = unat (bitRev (p ! 1)) * 65536 + unat (bitRev (p ! 2)) * 256 + unat (bitRev (p ! 3))"

definition spi_status :: "spidev \<Rightarrow> byte" where
  "spi_status v = (if 0 < dleft v then 0x80 else 0) OR (if dwel v then 0x40 else 0)"

definition erase_mem :: "nat \<Rightarrow> nat \<Rightarrow> (nat \<Rightarrow> byte) \<Rightarrow> nat \<Rightarrow> byte" where
  "erase_mem sz a m = (\<lambda>x. if x div sz = a div sz then 0xff else m x)"

text \<open>Programming clears bits, and addresses wrap around within the page.\<close>

definition program_mem :: "nat \<Rightarrow> byte list \<Rightarrow> (nat \<Rightarrow> byte) \<Rightarrow> nat \<Rightarrow> byte" where
  "program_mem a d m = (\<lambda>x. let j = (x + 256 - a mod 256) mod 256
     in if x div 256 = a div 256 \<and> j < length d then m x AND d ! j else m x)"

definition start_op :: "spi_part \<Rightarrow> (nat \<Rightarrow> byte) \<Rightarrow> spidev \<Rightarrow> spidev" where
  "start_op P m v = v\<lparr>dmem := m, dwel := False, dops := dops v + 1, dleft := part_busy P (dops v), dout := []\<rparr>"

definition spi_exec :: "spi_part \<Rightarrow> byte list \<Rightarrow> spidev \<Rightarrow> spidev" where
  "spi_exec P p v =
     (if p = [] then v\<lparr>dout := []\<rparr>
      else if bitRev (p ! 0) = READ_STATUS_REGISTER then
        v\<lparr>dout := None # replicate (length p - 1) (Some (spi_status v)), dleft := dleft v - 1\<rparr>
      else if 0 < dleft v then v\<lparr>dout := []\<rparr>
      else if bitRev (p ! 0) = WRITE_ENABLE then v\<lparr>dwel := True, dout := []\<rparr>
      else if bitRev (p ! 0) = part_erase P \<and> length p = 4 \<and> dwel v then
        start_op P (erase_mem (part_sector P) (spi_address p) (dmem v)) v
      else if bitRev (p ! 0) = PAGE_PROGRAM \<and> 4 < length p \<and> dwel v then
        start_op P (program_mem (spi_address p) (drop 4 p) (dmem v)) v
      else if bitRev (p ! 0) = PAGE_READ \<and> 4 \<le> length p then
        v\<lparr>dout := replicate 4 None @ map (\<lambda>j. Some (dmem v ((spi_address p + j) mod part_size P))) [0..<length p - 4]\<rparr>
      else v\<lparr>dout := []\<rparr>)"

section \<open>The bridge\<close>

text \<open>The transaction in the bits of a transfer, if it starts with the magic number.\<close>

definition spi_transaction :: "byte list \<Rightarrow> byte list option" where
  "spi_transaction bs =
     (if take 4 bs = map bitRev [0x59, 0xa6, 0x59, 0xa6] \<and> 6 \<le> length bs
      then Some (take ((unat (bitRev (bs ! 4)) * 256 + unat (bitRev (bs ! 5))) div 8) (drop 6 bs)) else None)"

definition bridge_shift :: "spi_part \<Rightarrow> byte list option \<Rightarrow> spidev \<Rightarrow> spidev" where
  "bridge_shift P tdi v =
     (case (case tdi of None \<Rightarrow> None | Some bs \<Rightarrow> spi_transaction bs) of
        None \<Rightarrow> v\<lparr>dout := []\<rparr>
      | Some p \<Rightarrow> spi_exec P p v)"

definition spi_step :: "spi_part \<Rightarrow> spidev \<Rightarrow> jop \<Rightarrow> spidev" where
  "spi_step P v c =
     (case c of
        OpIR tdi _ \<Rightarrow> v\<lparr>dir := hd tdi\<rparr>
      | OpIRDR tdi _ _ \<Rightarrow> v\<lparr>dir := hd tdi\<rparr>
      | OpDR tdi _ n _ _ \<Rightarrow> if dir v = SPI_USER1 then bridge_shift P tdi v else v
      | _ \<Rightarrow> v)"

definition spi_answer :: "spidev \<Rightarrow> jop \<Rightarrow> byte list \<Rightarrow> bool" where
  "spi_answer v c r =
     (case c of
        OpDR _ True n _ _ \<Rightarrow> dir v = SPI_USER1 \<longrightarrow>
          list_all (\<lambda>j. case dout v ! j of None \<Rightarrow> True | Some b \<Rightarrow> j < length r \<and> r ! j = b)
            [0..<min (nbytes n) (length (dout v))]
      | _ \<Rightarrow> True)"

definition spi_device :: "spi_part \<Rightarrow> (nat \<Rightarrow> byte) \<Rightarrow> spidev device" where
  "spi_device P mem = \<lparr>dinit = spi_idle mem, dstep = spi_step P, dans = spi_answer\<rparr>"

lemma spi_device_simps [simp]:
  "dinit (spi_device P mem) = spi_idle mem" "dstep (spi_device P mem) = spi_step P" "dans (spi_device P mem) = spi_answer"
  by (simp_all add: spi_device_def)

section \<open>Transfers\<close>

text \<open>
  What transfers keep: the geometry, and buffers that are as long as they were allocated.
\<close>

definition spi_same :: "spiflash \<Rightarrow> spiflash \<Rightarrow> bool" where
  "spi_same s s' \<longleftrightarrow> pgsize s' = pgsize s \<and> pages s' = pages s \<and> pages_per_sector s' = pages_per_sector s \<and>
     pages_per_block s' = pages_per_block s \<and> sector_size s' = sector_size s \<and> sector_erase_cmd s' = sector_erase_cmd s \<and>
     manf_id s' = manf_id s \<and> prod_id s' = prod_id s \<and> page_buf s' = page_buf s \<and> beyond s' = beyond s \<and>
     length (miso_buf s') = length (miso_buf s) \<and> length (mosi_buf s') = length (mosi_buf s)"

lemma spi_same_refl [simp]: "spi_same s s"
  and spi_same_trans: "spi_same s s1 \<Longrightarrow> spi_same s1 s2 \<Longrightarrow> spi_same s s2"
  by (simp_all add: spi_same_def)

lemmas spi_sameD = spi_same_def [THEN iffD1, rule_format]

definition payload :: "byte list \<Rightarrow> nat \<Rightarrow> nat \<Rightarrow> byte list" where
  "payload m mosi_len preamble = map bitRev (take preamble m) @ take mosi_len (drop preamble m)"

lemma length_payload [simp]: "mosi_len + preamble \<le> length m \<Longrightarrow> length (payload m mosi_len preamble) = mosi_len + preamble"
  by (simp add: payload_def)

lemma length_spi_header [simp]: "length (spi_header n) = 6"
  by (simp add: spi_header_def)

lemma byte_split: "m < 65536 \<Longrightarrow> unat (of_nat (m div 256) :: byte) * 256 + unat (of_nat m :: byte) = m"
  by (simp add: unat_of_nat)

lemma spi_transaction_frame:
  assumes "length p * 8 < 65536"
  shows "spi_transaction (spi_header (length p) @ p @ r) = Some p"
proof -
  have "(unat (of_nat (length p * 8 div 256) :: byte) * 256 + unat (of_nat (length p * 8) :: byte)) div 8 = length p"
    by (subst byte_split [OF assms]) simp
  then show ?thesis by (simp add: spi_transaction_def spi_header_def)
qed

lemma spi_fill_frame:
  assumes "mosi_len + preamble \<le> length m" "mosi_len + preamble + 6 \<le> length old"
  shows "spi_fill m mosi_len preamble old =
    Inr (spi_header (mosi_len + preamble) @ payload m mosi_len preamble @ drop (mosi_len + preamble + 6) old)"
  using assms by (simp add: spi_fill_def buf_slice_def buf_store_def payload_def add.commute)

text \<open>The bytes that a caller gets, against what the part has put out.\<close>

definition answered :: "byte option list \<Rightarrow> nat \<Rightarrow> byte list \<Rightarrow> bool" where
  "answered out skip d \<longleftrightarrow>
     (\<forall>j < length d. j + skip < length out \<longrightarrow> out ! (j + skip) \<noteq> None \<longrightarrow> out ! (j + skip) = Some (d ! j))"

definition spi_bufs :: "spiflash \<Rightarrow> bool" where
  "spi_bufs s \<longleftrightarrow> length (miso_buf s) = 5010 \<and> length (mosi_buf s) = 5010"

lemma spi_same_bufs: "spi_same s s' \<Longrightarrow> spi_bufs s \<Longrightarrow> spi_bufs s'"
  by (simp add: spi_same_def spi_bufs_def)

lemma answered_capture:
  assumes "spi_answer v (OpDR tdi True n 0 True) r" "dir v = SPI_USER1" "k + skip \<le> nbytes n" "nbytes n \<le> length old"
  shows "answered (dout v) skip (take k (drop skip (take 0 old @ fit (nbytes n) r @ drop (nbytes n) old)))"
proof -
  have "dout v ! (j + skip) = Some (fit (nbytes n) r ! (j + skip))"
    if j: "j < k" "j + skip < length (dout v)" and o: "dout v ! (j + skip) \<noteq> None" for j
  proof -
    have "j + skip < min (nbytes n) (length (dout v))" using j assms(3) by simp
    then have "case dout v ! (j + skip) of None \<Rightarrow> True | Some b \<Rightarrow> j + skip < length r \<and> r ! (j + skip) = b"
      using assms(1,2) by (simp add: spi_answer_def list_all_iff)
    with o show ?thesis using j assms(3) by (auto simp: fit_def nth_append split: option.splits)
  qed
  then show ?thesis
    using assms(3) by (auto simp: answered_def nth_append add.commute)
qed

lemma wp_capture_dr:
  assumes "k + skip \<le> n" "n \<le> length (miso_buf s)" "dir v = SPI_USER1"
    and "\<And>d s'. length d = k \<Longrightarrow> answered (dout v) skip d \<Longrightarrow> spi_same s s' \<Longrightarrow>
      Q (d, s') (bridge_shift P tdi v)"
  shows "wp (spi_device P mem) (jbind (jcaptureDR tdi (n * 8) True) (\<lambda>d.
      jbind (jlift (buf_store (miso_buf s) 0 d)) (\<lambda>b.
      jbind (jlift (buf_slice b skip k)) (\<lambda>d. jret (d, s\<lparr>miso_buf := b\<rparr>))))) Q v"
proof (intro wp_bind wp_captures(2))
  fix r assume r: "dans (spi_device P mem) v (OpDR tdi True (n * 8) 0 True) r"
  let ?b = "take 0 (miso_buf s) @ fit n r @ drop n (miso_buf s)"
  have st: "buf_store (miso_buf s) 0 (fit n r) = Inr ?b" using assms(2) by (simp add: buf_store_def)
  have sl: "buf_slice ?b skip k = Inr (take k (drop skip ?b))" using assms(1,2) by (simp add: buf_slice_def)
  have "answered (dout v) skip (take k (drop skip ?b))"
    using answered_capture [of v tdi "n * 8" r k skip "miso_buf s"] r assms(1-3) by simp
  moreover have "spi_same s (s\<lparr>miso_buf := ?b\<rparr>)" using assms(2) by (simp add: spi_same_def)
  moreover have "length (take k (drop skip ?b)) = k" using assms(1) by simp
  ultimately have "Q (take k (drop skip ?b), s\<lparr>miso_buf := ?b\<rparr>) (bridge_shift P tdi v)" by (intro assms(4))
  then have q: "Q (take k (drop skip ?b), s\<lparr>miso_buf := ?b\<rparr>) (dstep (spi_device P mem) v (OpDR tdi True (n * 8) 0 True))"
    using assms(3) by (simp add: spi_step_def)
  show "wp (spi_device P mem) (jlift (buf_store (miso_buf s) 0 (fit (nbytes (n * 8)) r)))
     (\<lambda>x. wp (spi_device P mem) (jbind (jlift (buf_slice x skip k)) (\<lambda>d. jret (d, s\<lparr>miso_buf := x\<rparr>))) Q)
     (dstep (spi_device P mem) v (OpDR tdi True (n * 8) 0 True))"
    by (rule wp_lift [where x = ?b], use st in simp, rule wp_bind, rule wp_lift, rule sl, rule wp_ret, rule q)
qed

lemma wp_shift_dr:
  "dir v = SPI_USER1 \<Longrightarrow> Q () (bridge_shift P tdi v) \<Longrightarrow>
   wp (spi_device P mem) (jdo (OpDR tdi False n 0 True)) Q v"
  by (rule wp_do) (simp add: spi_step_def)

lemma wp_user1:
  "Q () (v\<lparr>dir := SPI_USER1\<rparr>) \<Longrightarrow> wp (spi_device P mem) (jshiftIR [SPI_USER1]) Q v"
  by (rule wp_ops(1)) (simp add: spi_step_def)

text \<open>The bytes of a transfer that carry a transaction.\<close>

lemma bridge_shift_frame:
  assumes "L + pre \<le> length m" "L + pre + 6 \<le> n" "n \<le> 5010" "length old = 5010"
  shows "\<exists>b d. spi_fill m L pre old = Inr b \<and> length b = 5010 \<and> buf_slice b 0 n = Inr d \<and>
    bridge_shift P (Some d) v = spi_exec P (payload m L pre) v"
proof (intro exI conjI)
  let ?p = "payload m L pre" and ?r = "drop (L + pre + 6) old"
  have p: "length ?p = L + pre" using assms(1) by simp
  show "spi_fill m L pre old = Inr (spi_header (L + pre) @ ?p @ ?r)"
    using assms by (intro spi_fill_frame) simp_all
  show "length (spi_header (L + pre) @ ?p @ ?r) = 5010" using assms p by simp
  then show "buf_slice (spi_header (L + pre) @ ?p @ ?r) 0 n = Inr (take n (spi_header (L + pre) @ ?p @ ?r))"
    using assms(3) by (simp add: buf_slice_def)
  have "take n (spi_header (L + pre) @ ?p @ ?r) = spi_header (length ?p) @ ?p @ take (n - 6 - (L + pre)) ?r"
    using assms p by simp
  then show "bridge_shift P (Some (take n (spi_header (L + pre) @ ?p @ ?r))) v = spi_exec P ?p v"
    using assms p spi_transaction_frame [of ?p] by (simp add: bridge_shift_def)
qed

lemma jbind_lift_Inr: "jbind (jlift (Inr x)) f = f x"
  by (simp add: jbind_def jlift_def fun_eq_iff)

lemma wp_xc_send:
  assumes "buf_slice (mosi_buf s) 0 n = Inr d" "Q s (bridge_shift P (Some d) (v\<lparr>dir := SPI_USER1\<rparr>))"
  shows "wp (spi_device P mem) (xc_user True False (n * 8) s) Q v"
  unfolding xc_user_def
  by (simp add: assms(1) jbind_simps jbind_lift_Inr) (intro wp_bind wp_user1 wp_shift_dr wp_ret, simp, rule assms(2))

lemma wp_xc_capture:
  assumes "send \<Longrightarrow> buf_slice (mosi_buf s) 0 n = Inr d" "k + skip \<le> n" "n \<le> length (miso_buf s)"
    and "\<And>d' s'. length d' = k \<Longrightarrow> answered (dout v) skip d' \<Longrightarrow> spi_same s s' \<Longrightarrow>
      Q (d', s') (bridge_shift P (if send then Some d else None) (v\<lparr>dir := SPI_USER1\<rparr>))"
  shows "wp (spi_device P mem) (jbind (xc_user send True (n * 8) s) (\<lambda>s.
    jbind (jlift (buf_slice (miso_buf s) skip k)) (\<lambda>d. jret (d, s)))) Q v"
proof -
  have "wp (spi_device P mem) (jbind (jshiftIR [SPI_USER1]) (\<lambda>_. jbind (jcaptureDR (if send then Some d else None) (n * 8) True) (\<lambda>d.
      jbind (jlift (buf_store (miso_buf s) 0 d)) (\<lambda>b.
      jbind (jlift (buf_slice b skip k)) (\<lambda>d. jret (d, s\<lparr>miso_buf := b\<rparr>)))))) Q v"
    using assms(4) by (intro wp_bind [OF wp_user1] wp_capture_dr [OF assms(2,3)]) simp_all
  then show ?thesis
    unfolding xc_user_def using assms(1) by (cases send) (simp_all add: jbind_simps jbind_lift_Inr)
qed

lemma wp_send:
  assumes "L + pre \<le> length m" "L + pre + 6 \<le> 5010" "spi_bufs s"
    and q: "\<And>s'. spi_same s s' \<Longrightarrow> Q s' (spi_exec P (payload m L pre) (v\<lparr>dir := SPI_USER1\<rparr>))"
  shows "wp (spi_device P mem) (spi_send m L pre s) Q v"
proof -
  have "length (mosi_buf s) = 5010" using assms(3) by (simp add: spi_bufs_def)
  with bridge_shift_frame [OF assms(1) order_refl assms(2), of "mosi_buf s" P "v\<lparr>dir := SPI_USER1\<rparr>"]
  obtain b d where b: "spi_fill m L pre (mosi_buf s) = Inr b" "length b = 5010" "buf_slice b 0 (L + pre + 6) = Inr d"
    "bridge_shift P (Some d) (v\<lparr>dir := SPI_USER1\<rparr>) = spi_exec P (payload m L pre) (v\<lparr>dir := SPI_USER1\<rparr>)"
    by blast
  have "spi_same s (s\<lparr>mosi_buf := b\<rparr>)" using b(2) assms(3) by (simp add: spi_same_def spi_bufs_def)
  from q [OF this] have "wp (spi_device P mem) (xc_user True False ((L + pre + 6) * 8) (s\<lparr>mosi_buf := b\<rparr>)) Q v"
    using b(3,4) by (intro wp_xc_send [where d = d]) simp_all
  then have "wp (spi_device P mem) (jbind (xc_user True False ((L + pre + 6) * 8) (s\<lparr>mosi_buf := b\<rparr>)) jret) Q v"
    by (intro wp_bind) (simp add: wp_ret wp_mono)
  moreover have "max 0 (L + pre + 4 + 2) = L + pre + 6" by simp
  ultimately show ?thesis
    unfolding spi_send_def spi_xfer_user1_def by (simp add: jbind_simps jbind_lift_Inr b(1) algebra_simps)
qed

lemma wp_xfer:
  assumes "L + pre \<le> length m" "L + pre + 6 \<le> 5010" "k + skip \<le> 5010" "0 < k" "spi_bufs s"
    and q: "\<And>d s'. length d = k \<Longrightarrow> answered (dout v) skip d \<Longrightarrow> spi_same s s' \<Longrightarrow>
      Q (d, s') (spi_exec P (payload m L pre) (v\<lparr>dir := SPI_USER1\<rparr>))"
  shows "wp (spi_device P mem) (spi_xfer_user1 True k skip (Some m) L pre s) Q v"
proof -
  let ?n = "max (k + skip) (L + pre + 6)"
  have "length (mosi_buf s) = 5010" "L + pre + 6 \<le> ?n" "?n \<le> 5010" using assms(2,3,5) by (simp_all add: spi_bufs_def)
  with bridge_shift_frame [OF assms(1), of ?n "mosi_buf s" P "v\<lparr>dir := SPI_USER1\<rparr>"]
  obtain b d where b: "spi_fill m L pre (mosi_buf s) = Inr b" "length b = 5010" "buf_slice b 0 ?n = Inr d"
    "bridge_shift P (Some d) (v\<lparr>dir := SPI_USER1\<rparr>) = spi_exec P (payload m L pre) (v\<lparr>dir := SPI_USER1\<rparr>)"
    by blast
  have s: "spi_same s (s\<lparr>mosi_buf := b\<rparr>)" using b(2) assms(5) by (simp add: spi_same_def spi_bufs_def)
  have "wp (spi_device P mem) (jbind (xc_user True True (?n * 8) (s\<lparr>mosi_buf := b\<rparr>)) (\<lambda>s.
    jbind (jlift (buf_slice (miso_buf s) skip k)) (\<lambda>d. jret (d, s)))) Q v"
    using b(3,4) assms(3,5) \<open>?n \<le> 5010\<close> q [OF _ _ spi_same_trans [OF s]]
    by (intro wp_xc_capture [where d = d]) (simp_all add: spi_bufs_def)
  moreover have "max (k + skip) (L + pre + 4 + 2) = ?n" by simp
  ultimately show ?thesis
    unfolding spi_xfer_user1_def using assms(4) by (simp add: jbind_simps jbind_lift_Inr b(1) del: add_mult_distrib)
qed

lemma wp_recv:
  assumes "k + skip \<le> 5010" "0 < k" "spi_bufs s"
    and q: "\<And>d s'. length d = k \<Longrightarrow> answered (dout v) skip d \<Longrightarrow> spi_same s s' \<Longrightarrow>
      Q (d, s') (v\<lparr>dir := SPI_USER1, dout := []\<rparr>)"
  shows "wp (spi_device P mem) (spi_recv k skip s) Q v"
proof -
  have "wp (spi_device P mem) (jbind (xc_user False True ((k + skip) * 8) s) (\<lambda>s.
    jbind (jlift (buf_slice (miso_buf s) skip k)) (\<lambda>d. jret (d, s)))) Q v"
    using assms by (intro wp_xc_capture) (simp_all add: spi_bufs_def bridge_shift_def)
  then show ?thesis
    unfolding spi_recv_def spi_xfer_user1_def using assms(2) by (simp add: jbind_simps)
qed

end
