(* ===== verification/SPIProps.thy ===== *)
theory SPIProps
  imports SPIDevice
begin

text \<open>
  What the operations for parts with sector erase and page program do to the memory of the part: a
  poll, erasing a sector, programming a page, and the loops over the pages.
\<close>

section \<open>The setup\<close>

text \<open>
  The class has the geometry of the part, pages of 256 bytes and addresses of three bytes, and its
  buffers are allocated; the stack is deep enough for what the code reads behind its local arrays.
\<close>

definition spi_setup :: "spi_part \<Rightarrow> spiflash \<Rightarrow> bool" where
  "spi_setup P s \<longleftrightarrow> spi_bufs s \<and> pgsize s = 256 \<and> pages s * 256 = part_size P \<and> part_size P \<le> 2 ^ 24 \<and>
     sector_size s = part_sector P \<and> 0 < part_sector P \<and> 256 dvd part_sector P \<and>
     sector_erase_cmd s = part_erase P \<and> (part_erase P = 0xD8 \<or> part_erase P = 0x20) \<and>
     256 \<le> length (beyond s) \<and> (\<exists>b. page_buf s = Some b \<and> length b = 272)"

lemma setup_same: "spi_setup P s \<Longrightarrow> spi_same s s' \<Longrightarrow> spi_setup P s'"
  by (auto simp: spi_setup_def spi_same_def spi_bufs_def)

lemma setupD:
  assumes "spi_setup P s"
  shows "spi_bufs s" "pgsize s = 256" "pages s * 256 = part_size P" "part_size P \<le> 2 ^ 24" "sector_size s = part_sector P"
    "0 < part_sector P" "256 dvd part_sector P" "sector_erase_cmd s = part_erase P" "256 \<le> length (beyond s)"
    "spi_total s = part_size P"
  using assms by (simp_all add: spi_setup_def spi_total_def)

lemma setup_buf: "spi_setup P s \<Longrightarrow> \<exists>b. page_buf s = Some b \<and> length b = 272"
  by (simp add: spi_setup_def)

lemmas spi_codes = PAGE_PROGRAM_def PAGE_READ_def READ_STATUS_REGISTER_def WRITE_ENABLE_def WRITE_BUSY_def
  AT45_READ_STATUS_def AT45_READY_def

section \<open>Commands\<close>

definition in_user1 :: "spidev \<Rightarrow> spidev" where
  "in_user1 v = v\<lparr>dir := SPI_USER1\<rparr>"

lemma exec_write_enable:
  "dleft v = 0 \<Longrightarrow> spi_exec P (payload (stack_array [WRITE_ENABLE] s) 0 1) v = v\<lparr>dwel := True, dout := []\<rparr>"
  by (simp add: spi_exec_def payload_def stack_array_def spi_codes)

lemma exec_status:
  assumes "0 < length (beyond s)"
  shows "spi_exec P (payload (stack_array [READ_STATUS_REGISTER] s) 1 1) v =
    v\<lparr>dout := [None, Some (spi_status v)], dleft := dleft v - 1\<rparr>"
  using assms by (cases "beyond s") (simp_all add: spi_exec_def payload_def stack_array_def)

lemma spi_status_dir [simp]: "spi_status (v\<lparr>dir := x\<rparr>) = spi_status v"
  by (simp add: spi_status_def)

lemma step_sleep [simp]: "spi_step P v (OpSleep n) = v"
  by (simp add: spi_step_def)

lemma status_busy: "spi_done READ_STATUS_REGISTER (spi_status v) \<longleftrightarrow> dleft v = 0"
  by (simp add: spi_done_def spi_status_def spi_codes)

text \<open>The address that the three bytes of a page stand for.\<close>

lemma page2padd_bytes:
  "page2padd (c # x # y # z # r) p 256 = Inr (c # of_nat (p div 256) # of_nat p # 0 # r)"
  by (simp add: page2padd_def page_shift_def buf_set_def numeral_2_eq_2 numeral_3_eq_3)

lemma page_address:
  "spi_address (map bitRev [c, of_nat (p div 256), of_nat p, 0] @ d) = p mod 65536 * 256"
proof -
  have "p div 256 mod 256 * 65536 + p mod 256 * 256 = (p div 256 mod 256 * 256 + p mod 256) * 256" by simp
  also have "p div 256 mod 256 * 256 + p mod 256 = p mod 65536"
    using mod_mult2_eq [of p 256 256] by simp
  finally show ?thesis by (simp add: spi_address_def unat_of_nat)
qed

section \<open>Waiting\<close>

text \<open>
  The pass \<open>j\<close> sees the answer to poll \<open>j\<close>. The wait succeeds if the part is ready at a poll
  before the last but one.
\<close>

definition polling :: "spidev \<Rightarrow> nat \<Rightarrow> spidev \<Rightarrow> bool" where
  "polling v j v' \<longleftrightarrow> dmem v' = dmem v \<and> dwel v' = dwel v \<and> dops v' = dops v \<and> dleft v' = dleft v - (j + 1) \<and>
     (\<exists>st. dout v' = [None, Some st] \<and> (spi_done READ_STATUS_REGISTER st \<longleftrightarrow> dleft v \<le> j))"

definition waited :: "spidev \<Rightarrow> spidev \<Rightarrow> bool" where
  "waited v v' \<longleftrightarrow> dmem v' = dmem v \<and> dwel v' = dwel v \<and> dops v' = dops v \<and> dleft v' = 0"

lemma polling_poll:
  "polling v j v' \<Longrightarrow> polling v (Suc j) (v'\<lparr>dir := SPI_USER1, dout := [None, Some (spi_status v')], dleft := dleft v' - 1\<rparr>)"
  by (auto simp: polling_def status_busy)

lemma wp_wait_pass:
  assumes "spi_setup P s" "polling v j v'"
  shows "wp (spi_device P mem) (wait_pass READ_STATUS_REGISTER (spi_done READ_STATUS_REGISTER) j s)
    (\<lambda>r w. case r of
       Inl (i, s) \<Rightarrow> spi_setup P s \<and> i = j + 1 \<and> dleft v \<le> j \<and> polling v (Suc j) w
     | Inr s \<Rightarrow> spi_setup P s \<and> j < dleft v \<and> polling v (Suc j) w) v'"
proof -
  note s = setupD [OF assms(1)]
  obtain st where st: "dout v' = [None, Some st]" "spi_done READ_STATUS_REGISTER st \<longleftrightarrow> dleft v \<le> j"
    using assms(2) by (auto simp: polling_def)
  have "0 < length (beyond s)" using s(9) by linarith
  then have len: "1 + 1 \<le> length (stack_array [READ_STATUS_REGISTER] s)" by (simp add: stack_array_def Suc_le_eq)
  show ?thesis
    unfolding wait_pass_def
  proof (intro wp_bind wp_ops(4) wp_xfer, goal_cases)
    case (6 d s')
    then have "d ! 0 = st" using st(1) by (auto simp: answered_def)
    then have "hd d = st" using 6(1) by (cases d) auto
    moreover have "spi_setup P s'" using setup_same [OF assms(1) 6(3)] .
    ultimately show ?case
      using st(2) polling_poll [OF assms(2)] exec_status [OF \<open>0 < length (beyond s)\<close>, of P "v'\<lparr>dir := SPI_USER1\<rparr>"]
      by (auto intro!: wp_ret)
  qed (use s len in \<open>simp_all add: spi_step_def\<close>)
qed

lemma wp_wait:
  assumes "spi_setup P s"
  shows "wp (spi_device P mem) (wait READ_STATUS_REGISTER limit s)
    (\<lambda>(r, s) w. spi_setup P s \<and> (if dleft v + 1 < limit then r = 0 \<and> waited v w else r = 1)) v"
  unfolding wait_def wait_loop_def
proof (intro wp_bind wp_send, goal_cases)
  case (4 s')
  note s = setupD [OF assms]
  have ne: "0 < length (beyond s)" using s(9) by linarith
  have ex: "spi_exec P (payload (stack_array [READ_STATUS_REGISTER] s) 1 1) (v\<lparr>dir := SPI_USER1\<rparr>) =
     v\<lparr>dir := SPI_USER1, dout := [None, Some (spi_status v)], dleft := dleft v - 1\<rparr>"
    using exec_status [OF ne, of P "v\<lparr>dir := SPI_USER1\<rparr>"] by simp
  show ?case
    unfolding ex
  proof (rule wp_scan [where I = "\<lambda>j s w. spi_setup P s \<and> j \<le> dleft v \<and> polling v j w"], goal_cases)
    case (1 j s w)
    then show ?case
      by (intro wp_mono [OF wp_wait_pass [of P s v j w]])
        (auto simp: waited_def polling_def intro!: wp_ret split: sum.splits prod.splits)
  next
    case (2 s w)
    then show ?case by (auto intro!: wp_ret)
  next
    case 3
    show ?case using setup_same [OF assms 4] by (simp add: polling_def status_busy)
  qed
qed (use setupD [OF assms] in \<open>simp_all add: stack_array_def\<close>)

section \<open>Erasing a sector and programming a page\<close>

lemma page_start: "256 dvd i \<Longrightarrow> i < 2 ^ 24 \<Longrightarrow> i div 256 mod 65536 * 256 = i" for i :: nat
  by (elim dvdE) simp

lemma exec_other:
  assumes "dleft v = 0" "dwel v" "p \<noteq> []" "bitRev (p ! 0) \<noteq> READ_STATUS_REGISTER" "bitRev (p ! 0) \<noteq> WRITE_ENABLE"
  shows "bitRev (p ! 0) = part_erase P \<Longrightarrow> length p = 4 \<Longrightarrow>
      spi_exec P p v = start_op P (erase_mem (part_sector P) (spi_address p) (dmem v)) v"
    and "bitRev (p ! 0) = PAGE_PROGRAM \<Longrightarrow> bitRev (p ! 0) \<noteq> part_erase P \<Longrightarrow> 4 < length p \<Longrightarrow>
      spi_exec P p v = start_op P (program_mem (spi_address p) (drop 4 p) (dmem v)) v"
  using assms by (simp_all add: spi_exec_def)

lemma command_codes:
  "part_erase P = 0xD8 \<or> part_erase P = 0x20 \<Longrightarrow> part_erase P \<noteq> READ_STATUS_REGISTER \<and> part_erase P \<noteq> WRITE_ENABLE \<and>
     part_erase P \<noteq> PAGE_PROGRAM \<and> part_erase P \<noteq> PAGE_READ"
  "PAGE_PROGRAM \<noteq> READ_STATUS_REGISTER" "PAGE_PROGRAM \<noteq> WRITE_ENABLE" "PAGE_READ \<noteq> READ_STATUS_REGISTER"
  "PAGE_READ \<noteq> WRITE_ENABLE" "PAGE_READ \<noteq> PAGE_PROGRAM"
  by (auto simp: spi_codes)

lemma payload_command:
  "payload (c # x # y # z # d @ r) (length d) 4 = map bitRev [c, x, y, z] @ d"
  "payload (c # x # y # z # r) 0 4 = map bitRev [c, x, y, z]"
  by (simp_all add: payload_def numeral_eq_Suc)

lemma exec_erase:
  assumes "dleft v = 0" "dwel v" "part_erase P = 0xD8 \<or> part_erase P = 0x20" "256 dvd i" "i < 2 ^ 24"
  shows "spi_exec P (payload (part_erase P # of_nat (i div 256 div 256) # of_nat (i div 256) # 0 # r) 0 4) v =
    start_op P (erase_mem (part_sector P) i (dmem v)) v"
proof -
  obtain p where p: "p = map bitRev [part_erase P, of_nat (i div 256 div 256), of_nat (i div 256), 0]" by blast
  have "spi_address p = i"
    using page_address [of "part_erase P" "i div 256" "[]"] page_start [OF assms(4,5)] by (simp add: p)
  moreover have "bitRev (p ! 0) = part_erase P" "length p = 4" "p \<noteq> []" by (simp_all add: p)
  ultimately have "spi_exec P p v = start_op P (erase_mem (part_sector P) i (dmem v)) v"
    using exec_other(1) [OF assms(1,2), of p P] command_codes(1) [OF assms(3)] by simp
  then show ?thesis unfolding payload_command p .
qed

lemma exec_program:
  assumes "dleft v = 0" "dwel v" "part_erase P = 0xD8 \<or> part_erase P = 0x20" "256 dvd i" "i < 2 ^ 24" "0 < length d"
  shows "spi_exec P (payload (PAGE_PROGRAM # of_nat (i div 256 div 256) # of_nat (i div 256) # 0 # d @ r) (length d) 4) v =
    start_op P (program_mem i d (dmem v)) v"
proof -
  obtain p where p: "p = map bitRev [PAGE_PROGRAM, of_nat (i div 256 div 256), of_nat (i div 256), 0] @ d" by blast
  have "spi_address p = i"
    using page_address [of PAGE_PROGRAM "i div 256" d] page_start [OF assms(4,5)] by (simp add: p)
  moreover have "bitRev (p ! 0) = PAGE_PROGRAM" "4 < length p" "p \<noteq> []" "drop 4 p = d"
    using assms(6) by (simp_all add: p)
  ultimately have "spi_exec P p v = start_op P (program_mem i d (dmem v)) v"
    using exec_other(2) [OF assms(1,2), of p P] command_codes(1) [OF assms(3)] command_codes(2,3) by metis
  then show ?thesis unfolding payload_command p .
qed

lemma wp_write_enable:
  assumes "spi_setup P s" "dleft v = 0"
    and "\<And>s'. spi_setup P s' \<Longrightarrow> spi_same s s' \<Longrightarrow> Q s' (v\<lparr>dir := SPI_USER1, dwel := True, dout := []\<rparr>)"
  shows "wp (spi_device P mem) (spi_write_enable s) Q v"
  unfolding spi_write_enable_def
proof (rule wp_send)
  fix s' assume "spi_same s s'"
  then have "Q s' (v\<lparr>dir := SPI_USER1, dwel := True, dout := []\<rparr>)" using assms(1,3) setup_same by blast
  then show "Q s' (spi_exec P (payload (stack_array [WRITE_ENABLE] s) 0 1) (v\<lparr>dir := SPI_USER1\<rparr>))"
    using exec_write_enable [of "v\<lparr>dir := SPI_USER1\<rparr>" P s] assms(2) by simp
qed (use setupD [OF assms(1)] in \<open>simp_all add: stack_array_def\<close>)

lemma wp_wait_op:
  assumes "spi_setup P s" "\<And>r s' w. spi_setup P s' \<Longrightarrow>
     (if part_busy P (dops v) + 1 < limit then r = 0 \<and> dmem w = m \<and> dleft w = 0 else r = 1) \<Longrightarrow> Q (r, s') w"
  shows "wp (spi_device P mem) (wait READ_STATUS_REGISTER limit s) Q (start_op P m v)"
  using assms(2) by (intro wp_mono [OF wp_wait [OF assms(1)]]) (auto simp: start_op_def waited_def split: if_splits)

lemma wp_erase_sector:
  assumes "spi_setup P s" "dleft v = 0" "256 dvd i" "i < 2 ^ 24"
    and "\<And>r s' w. spi_setup P s' \<Longrightarrow> (if part_busy P (dops v) + 1 < 3000
       then r = 0 \<and> dmem w = erase_mem (part_sector P) i (dmem v) \<and> dleft w = 0 else r = 1) \<Longrightarrow> Q (r, s') w"
  shows "wp (spi_device P mem) (spi_erase_sector i s) Q v"
  unfolding spi_erase_sector_def
proof (intro wp_bind wp_write_enable [OF assms(1,2)])
  fix s1 assume s1: "spi_setup P s1" "spi_same s s1"
  let ?f = "part_erase P # of_nat (i div 256 div 256) # of_nat (i div 256) # 0 # beyond s1"
  let ?v = "v\<lparr>dir := SPI_USER1, dwel := True, dout := []\<rparr>"
  have f: "erase_command s1 i = Inr ?f"
    using setupD [OF s1(1)] by (simp add: erase_command_def stack_array_def page2padd_bytes)
  have ex: "spi_exec P (payload ?f 0 4) (?v\<lparr>dir := SPI_USER1\<rparr>) =
     start_op P (erase_mem (part_sector P) i (dmem v)) (?v\<lparr>dir := SPI_USER1\<rparr>)"
    using assms(1-4) by (subst exec_erase) (simp_all add: spi_setup_def)
  show "wp (spi_device P mem) (jlift (erase_command s1 i)) (\<lambda>fbuf. wp (spi_device P mem)
     (jbind (spi_send fbuf 0 4 s1) (wait READ_STATUS_REGISTER 3000)) Q) ?v"
  proof (rule wp_lift [OF f], rule wp_bind, rule wp_send)
    fix s2 assume "spi_same s1 s2"
    then have "spi_setup P s2" by (rule setup_same [OF s1(1)])
    then show "wp (spi_device P mem) (wait READ_STATUS_REGISTER 3000 s2) Q (spi_exec P (payload ?f 0 4) (?v\<lparr>dir := SPI_USER1\<rparr>))"
      unfolding ex by (rule wp_wait_op) (simp add: assms(5))
  qed (use setupD(1) [OF s1(1)] in simp_all)
qed

text \<open>The bytes of the file that go to the page at \<open>i\<close>.\<close>

definition file_part :: "bitfile \<Rightarrow> nat \<Rightarrow> nat \<Rightarrow> byte list" where
  "file_part bf a n = take n (drop a (buffer bf))"

lemma length_file_part [simp]: "a + n \<le> length (buffer bf) \<Longrightarrow> length (file_part bf a n) = n"
  and nth_file_part: "a + n \<le> length (buffer bf) \<Longrightarrow> j < n \<Longrightarrow> file_part bf a n ! j = buffer bf ! (a + j)"
  by (simp_all add: file_part_def)

lemma slice_file_part: "a + n \<le> length (buffer bf) \<Longrightarrow> buf_slice (buffer bf) a n = Inr (file_part bf a n)"
  by (simp add: buf_slice_def file_part_def)

lemma list_four: "4 \<le> length b \<Longrightarrow> \<exists>w x y z r. b = w # x # y # z # r"
  by (auto simp: numeral_eq_Suc Suc_le_length_iff)

lemma drop_four: "drop (4 + n) (w # x # y # z # r) = drop n r"
  by (simp add: numeral_eq_Suc)

lemma fill_page_frame:
  assumes "length r = 268" "n \<le> 256" "i - offset + n \<le> length (buffer bf)" "pgsize s = 256"
  shows "fill_page (c # x # y # z # r) bf offset i n s =
    Inr (c # of_nat (i div 256 div 256) # of_nat (i div 256) # 0 # file_part bf (i - offset) n @ drop n r)"
  using assms by (simp add: fill_page_def page2padd_bytes slice_file_part buf_store_def drop_four)

lemma setup_page_buf: "spi_setup P s \<Longrightarrow> length b = 272 \<Longrightarrow> spi_setup P (s\<lparr>page_buf := Some b\<rparr>)"
  by (auto simp: spi_setup_def spi_bufs_def)

text \<open>Setting the command and sending the page.\<close>

lemma wp_write_page:
  assumes "spi_setup P s" "dleft v = 0" "dwel v" "256 dvd i" "i < 2 ^ 24" "0 < n" "n \<le> 256"
    and "i - offset + n \<le> length (buffer bf)"
    and q: "\<And>s'. spi_setup P s' \<Longrightarrow>
      Q s' (start_op P (program_mem i (file_part bf (i - offset) n) (dmem v)) (v\<lparr>dir := SPI_USER1\<rparr>))"
  shows "wp (spi_device P mem) (jbind (jlift (spi_set_command PAGE_PROGRAM s)) (spi_write_page bf offset i n)) Q v"
proof -
  obtain b where b: "page_buf s = Some b" "length b = 272" using setup_buf [OF assms(1)] by blast
  then obtain b0 b1 b2 b3 r where "b = b0 # b1 # b2 # b3 # r" using list_four [of b] by auto
  with b have r: "b = b0 # b1 # b2 # b3 # r" "length r = 268" by simp_all
  let ?b = "PAGE_PROGRAM # b1 # b2 # b3 # r" and ?d = "file_part bf (i - offset) n"
  let ?s = "s\<lparr>page_buf := Some ?b\<rparr>"
  let ?f = "PAGE_PROGRAM # of_nat (i div 256 div 256) # of_nat (i div 256) # 0 # ?d @ drop n r"
  have s: "spi_setup P ?s" "spi_setup P (?s\<lparr>page_buf := Some ?f\<rparr>)"
    using assms(7,8) r by (intro setup_page_buf assms(1); simp)+
  have "spi_set_command PAGE_PROGRAM s = Inr ?s"
    using b r by (simp add: spi_set_command_def the_buf_def buf_set_def)
  moreover have "rbind (the_buf ?s) (\<lambda>b. fill_page b bf offset i n ?s) = Inr ?f"
    using fill_page_frame [OF r(2) assms(7,8)] setupD(2) [OF s(1)] by (simp add: the_buf_def)
  moreover have ex: "spi_exec P (payload ?f n 4) (v\<lparr>dir := SPI_USER1\<rparr>) = start_op P (program_mem i ?d (dmem v)) (v\<lparr>dir := SPI_USER1\<rparr>)"
    using exec_program [of "v\<lparr>dir := SPI_USER1\<rparr>" P i ?d] assms by (simp add: spi_setup_def)
  have "wp (spi_device P mem) (spi_send ?f n 4 (?s\<lparr>page_buf := Some ?f\<rparr>)) Q v"
  proof (rule wp_send)
    fix s' assume "spi_same (?s\<lparr>page_buf := Some ?f\<rparr>) s'"
    from q [OF setup_same [OF s(2) this]]
    show "Q s' (spi_exec P (payload ?f n 4) (v\<lparr>dir := SPI_USER1\<rparr>))" unfolding ex .
  qed (use setupD(1) [OF s(2)] assms(7,8) r in simp_all)
  ultimately show ?thesis by (simp add: spi_write_page_def jbind_lift_Inr)
qed

lemma wp_put_page:
  assumes "spi_setup P s" "dleft v = 0" "256 dvd i" "i < 2 ^ 24" "0 < n" "n \<le> 256"
    and "i - offset + n \<le> length (buffer bf)"
    and q: "\<And>r s' w. spi_setup P s' \<Longrightarrow> (if part_busy P (dops v) + 1 < 50
       then r = 0 \<and> dmem w = program_mem i (file_part bf (i - offset) n) (dmem v) \<and> dleft w = 0 else r = 1) \<Longrightarrow> Q (r, s') w"
  shows "wp (spi_device P mem) (spi_put_page bf offset i n s) Q v"
  unfolding spi_put_page_def
proof (rule wp_bind, rule wp_write_enable [OF assms(1,2)], rule wp_bind)
  fix s1 assume s1: "spi_setup P s1"
  show "wp (spi_device P mem) (jbind (jlift (spi_set_command PAGE_PROGRAM s1)) (spi_write_page bf offset i n))
     (\<lambda>s. wp (spi_device P mem) (wait READ_STATUS_REGISTER 50 s) Q) (v\<lparr>dir := SPI_USER1, dwel := True, dout := []\<rparr>)"
    by (rule wp_write_page [OF s1 _ _ assms(3-7)], simp_all add: assms(2)) (rule wp_wait_op, simp_all add: q)
qed

section \<open>The memory after programming\<close>

text \<open>
  The memory when the pages below \<open>e\<close> have been programmed and the sectors below \<open>n\<close> erased, where
  the range starts at \<open>a\<close>.
\<close>

definition spi_image :: "nat \<Rightarrow> bitfile \<Rightarrow> (nat \<Rightarrow> byte) \<Rightarrow> nat \<Rightarrow> nat \<Rightarrow> nat \<Rightarrow> nat \<Rightarrow> byte" where
  "spi_image sz bf m a e n = (\<lambda>x.
     if a \<le> x \<and> x < e then buffer bf ! (x - a)
     else if a div sz \<le> x div sz \<and> x div sz < n then 0xff else m x)"

text \<open>The number of the first sector that is not yet erased, before the page \<open>k\<close>, from the page \<open>b\<close> on.\<close>

definition sectors_below :: "nat \<Rightarrow> nat \<Rightarrow> nat \<Rightarrow> nat" where
  "sectors_below m b k = (if k \<le> b then 0 else (k - 1) div m + 1)"

lemma div_pred_bounds: "0 < m \<Longrightarrow> 0 < k \<Longrightarrow> (k - 1) div m \<le> k div m \<and> k div m \<le> (k - 1) div m + 1" for k m :: nat
proof -
  assume m: "0 < m" and "0 < k"
  then obtain l where "k = Suc l" by (cases k) auto
  moreover have "Suc l div m \<le> (l + m) div m" using m by (intro div_le_mono) simp
  moreover have "(l + m) div m = l div m + 1" by (rule div_add_self2) (use m in simp)
  ultimately show ?thesis using div_le_mono [of l "Suc l" m] by simp
qed

lemma spi_image_erase:
  fixes m :: nat
  assumes "0 < m" "b \<le> k" "sectors_below m b k \<le> k div m"
  shows "erase_mem (256 * m) (256 * k) (spi_image (256 * m) bf mem (256 * b) (256 * k) (sectors_below m b k)) =
    spi_image (256 * m) bf mem (256 * b) (256 * k) (k div m + 1)"
proof
  fix x :: nat
  have sec: "x div (256 * m) = x div 256 div m" "256 * k div (256 * m) = k div m" "256 * b div (256 * m) = b div m"
    by (simp_all add: div_mult2_eq)
  have written: "x div (256 * m) < sectors_below m b k" if "256 * b \<le> x" "x < 256 * k"
  proof -
    have "b < k" using that by simp
    moreover have "x div 256 \<le> k - 1" using that(2) by (simp add: less_mult_imp_div_less mult.commute Suc_leI le_diff_conv2)
    ultimately show ?thesis
      using div_le_mono [of "x div 256" "k - 1" m] by (simp add: sectors_below_def sec)
  qed
  have sec_next: "k div m = (if k \<le> b then b div m else sectors_below m b k)"
    using assms div_pred_bounds [of m k] by (auto simp: sectors_below_def)
  show "erase_mem (256 * m) (256 * k) (spi_image (256 * m) bf mem (256 * b) (256 * k) (sectors_below m b k)) x =
    spi_image (256 * m) bf mem (256 * b) (256 * k) (k div m + 1) x"
    using written assms(3) sec_next div_le_mono [OF assms(2), of m] unfolding erase_mem_def spi_image_def sec
    by (auto simp: sectors_below_def split: if_splits)
qed

lemma spi_image_program:
  fixes m :: nat
  assumes "0 < m" "b \<le> k" "n \<le> 256" "256 * (k - b) + n \<le> length (buffer bf)"
  shows "program_mem (256 * k) (file_part bf (256 * k - 256 * b) n)
      (spi_image (256 * m) bf mem (256 * b) (256 * k) (k div m + 1)) =
    spi_image (256 * m) bf mem (256 * b) (256 * k + n) (k div m + 1)"
proof
  fix x :: nat
  have len: "length (file_part bf (256 * k - 256 * b) n) = n" using assms(4) by (simp add: diff_mult_distrib2)
  show "program_mem (256 * k) (file_part bf (256 * k - 256 * b) n)
      (spi_image (256 * m) bf mem (256 * b) (256 * k) (k div m + 1)) x =
    spi_image (256 * m) bf mem (256 * b) (256 * k + n) (k div m + 1) x"
  proof (cases "x div 256 = k \<and> x mod 256 < n")
    case True
    then have x: "x = 256 * k + x mod 256" using div_mult_mod_eq [of x 256] by simp
    have j: "(x + 256 - 256 * k mod 256) mod 256 = x mod 256" by simp
    have "x div (256 * m) = k div m" "256 * b div (256 * m) = b div m"
      using True by (simp_all add: div_mult2_eq)
    moreover have "b div m \<le> k div m" using assms(2) by (rule div_le_mono)
    ultimately have "spi_image (256 * m) bf mem (256 * b) (256 * k) (k div m + 1) x = 0xff"
      using x by (simp add: spi_image_def)
    moreover have "file_part bf (256 * k - 256 * b) n ! (x mod 256) = buffer bf ! (x - 256 * b)"
      using True x assms(2,4) by (subst nth_file_part) (simp_all add: diff_mult_distrib2)
    moreover have "(0xff :: byte) AND w = w" for w
    proof -
      have "(0xff :: byte) = - 1" by simp
      then show ?thesis by (simp only: and.left_neutral)
    qed
    ultimately show ?thesis
      using True x assms(2) len by (simp add: program_mem_def spi_image_def Let_def)
  next
    case False
    have "\<not> (256 * k \<le> x \<and> x < 256 * k + n)"
    proof
      assume x: "256 * k \<le> x \<and> x < 256 * k + n"
      then obtain r where "x = 256 * k + r" by (auto simp: le_iff_add)
      with x False assms(3) show False by simp
    qed
    then show ?thesis
      using False len by (auto simp: program_mem_def spi_image_def Let_def)
  qed
qed

section \<open>The loop over the pages\<close>

text \<open>Every operation of the part ends before the wait for a page gives up.\<close>

definition quick :: "spi_part \<Rightarrow> bool" where
  "quick P \<longleftrightarrow> (\<forall>n. part_busy P n + 1 < 50)"

lemma not_quick: "\<not> part_busy P n < 2999 \<Longrightarrow> \<not> quick P"
proof
  assume "\<not> part_busy P n < 2999" and "quick P"
  then have "part_busy P n + 1 < 50" unfolding quick_def by blast
  with \<open>\<not> part_busy P n < 2999\<close> show False by simp
qed

definition programming ::
  "spi_part \<Rightarrow> nat \<Rightarrow> bitfile \<Rightarrow> (nat \<Rightarrow> byte) \<Rightarrow> nat \<Rightarrow> nat \<Rightarrow> nat \<Rightarrow> nat \<times> spiflash \<Rightarrow> spidev \<Rightarrow> bool" where
  "programming P m bf mem b e t = (\<lambda>(nr, s) v. spi_setup P s \<and> dleft v = 0 \<and> nr = sectors_below m b (b + t) \<and>
     dmem v = spi_image (256 * m) bf mem (256 * b) (min (256 * (b + t)) e) nr)"

lemma sectors_below_Suc: "sectors_below m b (b + Suc t) = (b + t) div m + 1"
  "sectors_below m b (Suc (b + t)) = Suc ((b + t) div m)"
  by (simp_all add: sectors_below_def)

lemma sectors_below_le: "0 < m \<Longrightarrow> sectors_below m b k \<le> k div m + 1"
  using div_pred_bounds [of m k] by (auto simp: sectors_below_def)

lemma wp_program_page:
  assumes P: "part_sector P = 256 * m" and e: "256 * (b + t) < e" "e \<le> part_size P"
    and len: "e - 256 * b \<le> length (buffer bf)" and v: "programming P m bf mem b e t (nr, s) v"
  shows "wp (spi_device P mem0) (spi_program_page bf (256 * b) e t (nr, s)) (\<lambda>r w. case r of
      Inl (r, s) \<Rightarrow> r = - 1 \<and> \<not> quick P | Inr x \<Rightarrow> programming P m bf mem b e (Suc t) x w) v"
proof -
  let ?i = "256 * (b + t)" and ?n = "min 256 (e - 256 * (b + t))" and ?sec = "(b + t) div m"
  let ?img = "spi_image (256 * m) bf mem (256 * b)"
  have s: "spi_setup P s" "dleft v = 0" "nr = sectors_below m b (b + t)" "dmem v = ?img ?i nr"
    using v e(1) by (simp_all add: programming_def)
  note d = setupD [OF s(1)]
  have m: "0 < m" and i: "256 dvd ?i" "?i < 2 ^ 24" using d(4,6) P e by auto
  have pp: "page_part s e ?i = ?n" "256 * b + t * pgsize s = ?i" "?i div sector_size s = ?sec"
    using d(2,5) P by (auto simp: page_part_def div_mult2_eq)
  have n: "0 < ?n" "?n \<le> 256" "?i - 256 * b + ?n \<le> length (buffer bf)" "?i + ?n = min (256 * (b + Suc t)) e"
    using e(1) len by auto
  have erased: "spi_setup P s1 \<Longrightarrow> dleft w = 0 \<Longrightarrow> dmem w = ?img ?i (?sec + 1) \<Longrightarrow>
    wp (spi_device P mem0) (jbind (spi_put_page bf (256 * b) ?i ?n s1) (\<lambda>(j, s).
      jret (if j \<noteq> 0 then Inl (- 1, s) else Inr (if nr \<le> ?sec then ?sec + 1 else nr, s)))) (\<lambda>r w. case r of
      Inl (r, s) \<Rightarrow> r = - 1 \<and> \<not> quick P | Inr x \<Rightarrow> programming P m bf mem b e (Suc t) x w) w" for s1 w
  proof (intro wp_bind wp_put_page [OF _ _ i n(1-3)], goal_cases)
    case (3 r s2 w')
    have "dmem w' = ?img (min (256 * (b + Suc t)) e) (?sec + 1)" if "r = 0"
      using 3 that spi_image_program [OF m _ n(2), of b "b + t" bf mem] n(3,4)
      by (auto split: if_splits simp: add_mult_distrib2)
    moreover have "(if nr \<le> ?sec then ?sec + 1 else nr) = ?sec + 1"
      using sectors_below_le [OF m, of b "b + t"] s(3) by simp
    ultimately show ?case
      using 3 by (auto simp: programming_def sectors_below_Suc quick_def split: if_splits intro!: wp_ret)
  qed simp_all
  have erase: "nr \<le> ?sec \<Longrightarrow> erase_mem (part_sector P) ?i (dmem v) = ?img ?i (?sec + 1)"
    using spi_image_erase [OF m, of b "b + t" bf mem] s(3,4) P by simp
  show ?thesis
    unfolding spi_program_page_def prod.case Let_def pp
  proof (rule wp_bind, rule wp_if, goal_cases)
    case 1
    show ?case
    proof (rule wp_erase_sector [OF s(1,2) i], goal_cases)
      case (1 r s1 w)
      then show ?case
        using erased [of s1 w] erase [OF \<open>nr \<le> ?sec\<close>]
        by (auto dest: not_quick intro!: wp_ret split: if_splits)
    qed
  next
    case 2
    then have "nr = ?sec + 1" using sectors_below_le [OF m, of b "b + t"] s(3) by simp
    with s(4) have "dmem v = ?img ?i (?sec + 1)" by simp
    from erased [OF s(1,2) this] show ?case by (intro wp_ret) simp
  qed
qed

text \<open>The whole loop, for a range that starts at the page \<open>b\<close>.\<close>

lemma passes_pages: "passes (256 * b) e 256 = (e - 256 * b + 255) div 256"
  by (simp add: passes_def)

lemma passes_bound: "t < passes a e 256 \<Longrightarrow> a + t * 256 < e"
  "passes a e 256 = n \<Longrightarrow> a \<le> e \<Longrightarrow> e \<le> a + n * 256 \<and> (a < e \<longrightarrow> a + (n - 1) * 256 < e)"
  by (auto simp: passes_def)

lemma wp_program_loop:
  assumes P: "part_sector P = 256 * m" and e: "256 * b \<le> e" "e \<le> part_size P" and len: "e - 256 * b \<le> length (buffer bf)"
    and s: "spi_setup P s" "dleft v = 0" "dmem v = mem"
  shows "wp (spi_device P mem0) (jscan 0 (passes (256 * b) e 256) (spi_program_page bf (256 * b) e) (0, s)) (\<lambda>r w. case r of
      Inl (r, s) \<Rightarrow> r = - 1 \<and> \<not> quick P
    | Inr x \<Rightarrow> programming P m bf mem b e (passes (256 * b) e 256) x w) v"
proof (rule wp_scan [where I = "programming P m bf mem b e"], goal_cases)
  case (1 t x w)
  have "256 * (b + t) < e" using 1(2) passes_bound(1) [of t "256 * b" e] by simp
  moreover obtain nr s' where "x = (nr, s')" by (cases x)
  ultimately have "wp (spi_device P mem0) (spi_program_page bf (256 * b) e t x) (\<lambda>r w. case r of
      Inl (r, s) \<Rightarrow> r = - 1 \<and> \<not> quick P | Inr x \<Rightarrow> programming P m bf mem b e (Suc t) x w) w"
    using wp_program_page [OF P _ e(2) len] 1(3) by blast
  then show ?case by (rule wp_mono) (auto split: sum.splits)
next
  case 3
  show ?case using s e by (auto simp: programming_def spi_image_def sectors_below_def fun_eq_iff)
qed simp

section \<open>Programming a file\<close>

text \<open>
  The file fits its buffer and is short enough for its length in bits; a requested length does not
  exceed it. The range is cut at the end of the part.
\<close>

definition file_ok :: "bitfile \<Rightarrow> bool" where
  "file_ok bf \<longleftrightarrow> blength bf \<le> length (buffer bf) \<and> 0 < blength bf \<and> blength bf < 2 ^ 29 \<and> rlength bf \<le> blength bf"

definition spi_start :: "bitfile \<Rightarrow> nat" where
  "spi_start bf = 256 * (boffset bf div 256)"

definition spi_end :: "spi_part \<Rightarrow> bitfile \<Rightarrow> nat" where
  "spi_end P bf = min (part_size P) (spi_start bf + (if rlength bf \<noteq> 0 then rlength bf else blength bf))"

definition programmed :: "spi_part \<Rightarrow> bitfile \<Rightarrow> (nat \<Rightarrow> byte) \<Rightarrow> nat \<Rightarrow> byte" where
  "programmed P bf mem = (\<lambda>x.
     let a = spi_start bf; e = spi_end P bf; sec = (\<lambda>x. x div part_sector P)
     in if a \<le> x \<and> x < e then buffer bf ! (x - a)
        else if a < e \<and> sec a \<le> sec x \<and> sec x \<le> sec (e - 1) then 0xff else mem x)"

lemma file_lengths:
  assumes "spi_setup P s" "file_ok bf" "spi_start bf \<le> part_size P"
  shows "getLength bf div 8 = blength bf" "spi_offset s bf = spi_start bf" "spi_program_end s bf = spi_end P bf"
    and "spi_verify_end s bf = spi_end P bf" "spi_end P bf - spi_start bf \<le> length (buffer bf)"
    and "spi_start bf \<le> spi_end P bf" "spi_end P bf \<le> part_size P"
proof -
  note d = setupD [OF assms(1)]
  show l: "getLength bf div 8 = blength bf"
    using assms(2) by (simp add: getLength_def bits_of_small file_ok_def)
  show o: "spi_offset s bf = spi_start bf" by (simp add: spi_offset_def spi_start_def d)
  have "(spi_start bf + (if rlength bf \<noteq> 0 then rlength bf else blength bf)) mod 2 ^ 32 =
      spi_start bf + (if rlength bf \<noteq> 0 then rlength bf else blength bf)"
    using assms(2,3) d(4) by (intro mod_less) (simp add: file_ok_def)
  then show "spi_program_end s bf = spi_end P bf"
    by (cases "rlength bf = 0") (auto simp: spi_program_end_def spi_end_def Let_def o l d min_def)
  show "spi_verify_end s bf = spi_end P bf"
    using assms(2) by (auto simp: spi_verify_end_def spi_end_def Let_def o l d min_def file_ok_def)
  show "spi_end P bf - spi_start bf \<le> length (buffer bf)" "spi_start bf \<le> spi_end P bf" "spi_end P bf \<le> part_size P"
    using assms(2,3) by (auto simp: spi_end_def file_ok_def)
qed

lemma programming_programmed:
  assumes "part_sector P = 256 * m" "0 < m" "spi_start bf = 256 * b" "spi_start bf \<le> spi_end P bf"
  shows "spi_image (256 * m) bf mem (256 * b) (min (256 * (b + passes (256 * b) (spi_end P bf) 256)) (spi_end P bf))
      (sectors_below m b (b + passes (256 * b) (spi_end P bf) 256)) = programmed P bf mem"
proof
  fix x :: nat
  let ?e = "spi_end P bf" and ?n = "passes (256 * b) (spi_end P bf) 256"
  have b: "256 * b \<le> ?e" "?e \<le> 256 * b + ?n * 256" "256 * b < ?e \<longrightarrow> 256 * b + (?n - 1) * 256 < ?e"
    using assms(3,4) passes_bound(2) [OF refl, of "256 * b" ?e] by auto
  have sec: "y div (256 * m) = y div 256 div m" for y by (rule div_mult2_eq)
  have last_page: "(?e - 1) div 256 = b + ?n - 1" if "256 * b < ?e"
  proof -
    have "0 < ?n" using b that by (cases ?n) auto
    then obtain n where n: "?n = Suc n" by (cases ?n) auto
    then have "256 * (b + n) \<le> ?e - 1" "?e - 1 < 256 * Suc (b + n)" using b(2,3) that by auto
    then show ?thesis using n by (simp add: div_nat_eqI mult.commute)
  qed
  have none: "?n = 0" if "\<not> 256 * b < ?e" using that by (simp add: passes_def)
  show "spi_image (256 * m) bf mem (256 * b) (min (256 * (b + ?n)) ?e) (sectors_below m b (b + ?n)) x = programmed P bf mem x"
  proof (cases "256 * b < ?e")
    case True
    then have "0 < ?n" using b(2) by (cases ?n) auto
    then have "sectors_below m b (b + ?n) = (?e - 1) div (256 * m) + 1" "min (256 * (b + ?n)) ?e = ?e"
      using last_page [OF True] b(2) by (simp_all add: sectors_below_def sec)
    then show ?thesis using True assms(1,3) by (simp add: spi_image_def programmed_def Let_def less_Suc_eq_le)
  next
    case False
    then show ?thesis using none b(1) assms(1,3) by (auto simp: spi_image_def programmed_def sectors_below_def Let_def)
  qed
qed

lemma wp_sectorerase_and_program:
  assumes "spi_setup P s" "file_ok bf" "spi_start bf \<le> part_size P" "dleft v = 0"
  shows "wp (spi_device P mem) (sectorerase_and_program bf s) (\<lambda>(r, s) w.
     (quick P \<longrightarrow> r = 0) \<and> (r = 0 \<longrightarrow> spi_setup P s \<and> dleft w = 0 \<and> dmem w = programmed P bf (dmem v)) \<and> r \<in> {0, - 1}) v"
proof -
  note d = setupD [OF assms(1)] and f = file_lengths [OF assms(1-3)]
  obtain m where m: "part_sector P = 256 * m" using d(7) by (elim dvdE)
  then have m0: "0 < m" using d(6) by simp
  define b where "b = boffset bf div 256"
  have b: "spi_start bf = 256 * b" by (simp add: spi_start_def b_def)
  have "0 < blength bf" using assms(2) by (simp add: file_ok_def)
  then have def: "sectorerase_and_program bf s = jbind (jscan 0 (passes (256 * b) (spi_end P bf) 256)
      (spi_program_page bf (256 * b) (spi_end P bf)) (0, s)) (\<lambda>r. jret (case r of Inl x \<Rightarrow> x | Inr (_, s) \<Rightarrow> (0, s)))"
    using assms(3) by (simp add: sectorerase_and_program_def Let_def f d b)
  show ?thesis
    unfolding def
  proof (intro wp_bind wp_mono [OF wp_program_loop [OF m _ f(7) _ assms(1,4) refl]], goal_cases)
    case (3 r w)
    then show ?case
      using programming_programmed [OF m m0 b f(6), of "dmem v"]
      by (auto simp: programming_def intro!: wp_ret split: sum.splits)
  qed (use f b in simp_all)
qed

end
