(* ===== verification/SPIRead.thy ===== *)
theory SPIRead
  imports SPIProps
begin

text \<open>
  Reading and verifying: each transfer asks for a page and brings the page that was asked for before.
\<close>

section \<open>Asking for a page\<close>

definition page_bytes :: "spi_part \<Rightarrow> (nat \<Rightarrow> byte) \<Rightarrow> nat \<Rightarrow> nat \<Rightarrow> byte list" where
  "page_bytes P m i n = map (\<lambda>j. m ((i + j) mod part_size P)) [0..<n]"

definition fetched :: "spi_part \<Rightarrow> (nat \<Rightarrow> byte) \<Rightarrow> nat \<Rightarrow> nat \<Rightarrow> byte option list" where
  "fetched P m i n = replicate 4 None @ map Some (page_bytes P m i n)"

lemma length_page_bytes [simp]: "length (page_bytes P m i n) = n"
  by (simp add: page_bytes_def)

lemma page_bytes_inside: "i + n \<le> part_size P \<Longrightarrow> page_bytes P m i n = map (\<lambda>j. m (i + j)) [0..<n]"
  by (simp add: page_bytes_def)

lemma answered_fetched: "answered (fetched P m i n) 4 d \<Longrightarrow> j < length d \<Longrightarrow> j < n \<Longrightarrow> d ! j = page_bytes P m i n ! j"
  by (auto simp: answered_def fetched_def nth_append page_bytes_def)

lemma payload_four: "payload (c # x # y # z # r) n 4 = map bitRev [c, x, y, z] @ take n r"
  by (simp add: payload_def numeral_eq_Suc)

lemma exec_page_read:
  assumes "dleft v = 0" "p \<noteq> []" "bitRev (p ! 0) = PAGE_READ" "length p = n + 4"
    and "PAGE_READ \<noteq> READ_STATUS_REGISTER" "PAGE_READ \<noteq> WRITE_ENABLE" "PAGE_READ \<noteq> PAGE_PROGRAM" "PAGE_READ \<noteq> part_erase P"
  shows "spi_exec P p v = v\<lparr>dout := fetched P (dmem v) (spi_address p) n\<rparr>"
  using assms by (simp add: spi_exec_def fetched_def page_bytes_def comp_def)

lemma exec_read:
  assumes "dleft v = 0" "part_erase P = 0xD8 \<or> part_erase P = 0x20" "n \<le> length r"
  shows "spi_exec P (payload (PAGE_READ # of_nat (p div 256) # of_nat p # 0 # r) n 4) v =
    v\<lparr>dout := fetched P (dmem v) (p mod 65536 * 256) n\<rparr>"
proof -
  obtain q where q: "q = map bitRev [PAGE_READ, of_nat (p div 256), of_nat p, 0] @ take n r" by blast
  have f: "spi_address q = p mod 65536 * 256" unfolding q by (rule page_address)
  have l: "bitRev (q ! 0) = PAGE_READ" "length q = n + 4" "q \<noteq> []" using assms(3) by (simp_all add: q)
  have pay: "payload (PAGE_READ # of_nat (p div 256) # of_nat p # 0 # r) n 4 = q"
    unfolding q by (rule payload_four)
  show ?thesis
    unfolding pay f [symmetric]
    using exec_page_read [OF assms(1) l(3,1,2) command_codes(4-6)] command_codes(1) [OF assms(2)] by metis
qed

text \<open>A transfer that asks for the \<open>n\<close> bytes of the page at \<open>i\<close>.\<close>

definition asked :: "spi_part \<Rightarrow> (nat \<Rightarrow> byte) \<Rightarrow> nat \<Rightarrow> nat \<Rightarrow> spidev \<Rightarrow> bool" where
  "asked P m i n w \<longleftrightarrow> dmem w = m \<and> dleft w = 0 \<and> (i < 2 ^ 24 \<longrightarrow> dout w = fetched P m i n)"

lemma read_command_bytes:
  "spi_setup P s \<Longrightarrow> read_command s i = Inr (PAGE_READ # of_nat (i div 256 div 256) # of_nat (i div 256) # 0 # beyond s)"
  by (simp add: read_command_def stack_array_def page2padd_bytes setupD)

lemma asked_read:
  assumes "spi_setup P s" "dleft v = 0" "256 dvd i" "n \<le> 256"
  shows "asked P (dmem v) i n (spi_exec P (payload (PAGE_READ # of_nat (i div 256 div 256) # of_nat (i div 256) # 0 # beyond s) n 4)
     (v\<lparr>dir := SPI_USER1\<rparr>))"
proof -
  have "n \<le> length (beyond s)" "part_erase P = 0xD8 \<or> part_erase P = 0x20"
    using assms(1,4) setupD(9) [OF assms(1)] by (auto simp: spi_setup_def)
  then show ?thesis
    using exec_read [of "v\<lparr>dir := SPI_USER1\<rparr>" P n "beyond s" "i div 256"] assms(2) page_start [OF assms(3)]
    by (simp add: asked_def)
qed

lemma wp_ask:
  assumes s: "spi_setup P s" "dleft v = 0" "256 dvd i" "n \<le> 256" "read_command s i = Inr c"
    and q: "\<And>s' w. spi_setup P s' \<Longrightarrow> asked P (dmem v) i n w \<Longrightarrow> Q s' w"
  shows "wp (spi_device P mem) (spi_send c n 4 s) Q v"
proof -
  have c: "c = PAGE_READ # of_nat (i div 256 div 256) # of_nat (i div 256) # 0 # beyond s"
    using s(5) read_command_bytes [OF s(1)] by simp
  show ?thesis
    unfolding c
  proof (rule wp_send)
    fix s' assume "spi_same s s'"
    then show "Q s' (spi_exec P (payload (PAGE_READ # of_nat (i div 256 div 256) # of_nat (i div 256) # 0 # beyond s) n 4)
       (v\<lparr>dir := SPI_USER1\<rparr>))"
      by (intro q setup_same [OF s(1)] asked_read [OF s(1-4)])
  qed (use setupD(1,9) [OF s(1)] s(4) in simp_all)
qed

lemma wp_ask_get:
  assumes s: "spi_setup P s" "dleft v = 0" "256 dvd i" "n \<le> 256" "read_command s i = Inr c"
    and q: "\<And>d s' w. spi_setup P s' \<Longrightarrow> length d = 256 \<Longrightarrow> answered (dout v) 4 d \<Longrightarrow> asked P (dmem v) i n w \<Longrightarrow> Q (d, s') w"
  shows "wp (spi_device P mem) (spi_xfer_user1 True 256 4 (Some c) n 4 s) Q v"
proof -
  have c: "c = PAGE_READ # of_nat (i div 256 div 256) # of_nat (i div 256) # 0 # beyond s"
    using s(5) read_command_bytes [OF s(1)] by simp
  show ?thesis
    unfolding c
  proof (rule wp_xfer)
    fix d :: "byte list" and s' assume d: "length d = 256" "answered (dout v) 4 d" "spi_same s s'"
    then show "Q (d, s') (spi_exec P (payload (PAGE_READ # of_nat (i div 256 div 256) # of_nat (i div 256) # 0 # beyond s) n 4)
       (v\<lparr>dir := SPI_USER1\<rparr>))"
      by (intro q setup_same [OF s(1)] asked_read [OF s(1-4)])
  qed (use setupD(1,9) [OF s(1)] s(4) in simp_all)
qed

section \<open>Reading\<close>

text \<open>The first \<open>256 * (t - 1)\<close> bytes are in the buffer; the page before the one at \<open>t\<close> has been asked for.\<close>

definition reading :: "spi_part \<Rightarrow> (nat \<Rightarrow> byte) \<Rightarrow> nat \<Rightarrow> nat \<Rightarrow> nat \<Rightarrow> nat option \<times> bitfile \<times> spiflash \<Rightarrow> spidev \<Rightarrow> bool" where
  "reading P m a len t = (\<lambda>(rl, bf, s) v. spi_setup P s \<and> dleft v = 0 \<and> dmem v = m \<and>
     length (buffer bf) = len \<and> blength bf = len \<and> (\<forall>x < len. x < 256 * (t - 1) \<longrightarrow> buffer bf ! x = m (a + x)) \<and>
     (0 < t \<longrightarrow> 256 * (t - 1) < len \<longrightarrow> rl = Some (min 256 (len - 256 * (t - 1))) \<and>
        dout v = fetched P m (a + 256 * (t - 1)) (min 256 (len - 256 * (t - 1)))))"

lemma buffer_grows:
  assumes "length buf = len" "256 * t + length d \<le> len" "\<forall>x < len. x < 256 * t \<longrightarrow> buf ! x = f x"
    and "\<forall>j < length d. d ! j = f (256 * t + j)"
  shows "\<exists>b. buf_store buf (256 * t) d = Inr b \<and> length b = len \<and> (\<forall>x < len. x < 256 * t + length d \<longrightarrow> b ! x = f x)"
proof (intro exI conjI allI impI)
  let ?b = "take (256 * t) buf @ d @ drop (256 * t + length d) buf"
  show "buf_store buf (256 * t) d = Inr ?b" using assms(1,2) by (simp add: buf_store_def)
  show "length ?b = len" using assms(1,2) by simp
  fix x assume x: "x < len" "x < 256 * t + length d"
  show "?b ! x = f x"
  proof (cases "x < 256 * t")
    case True
    then show ?thesis using assms x by (simp add: nth_append)
  next
    case False
    then obtain j where "x = 256 * t + j" by (auto simp: le_iff_add not_less)
    then show ?thesis using assms x by (simp add: nth_append)
  qed
qed

lemma wp_read_page:
  assumes len: "a + len \<le> part_size P" "256 dvd a" "256 * (t - 1) < len" and v: "reading P m a len t (rl, bf, s) v"
  shows "wp (spi_device P mem) (spi_read_page a (a + len) t (rl, bf, s)) (reading P m a len (Suc t)) v"
proof -
  let ?i = "a + t * 256" and ?n = "min 256 (len - 256 * (t - 1))"
  have s: "spi_setup P s" "dleft v = 0" "dmem v = m" "length (buffer bf) = len" "blength bf = len"
    and buf: "\<forall>x < len. x < 256 * (t - 1) \<longrightarrow> buffer bf ! x = m (a + x)"
    and ask: "0 < t \<longrightarrow> rl = Some ?n \<and> dout v = fetched P m (a + 256 * (t - 1)) ?n"
    using v len(3) by (auto simp: reading_def)
  note d = setupD [OF s(1)]
  have i: "256 dvd ?i" "a + t * pgsize s = ?i" using len(2) d(2) by simp_all
  obtain c where c: "read_command s ?i = Inr c" using read_command_bytes [OF s(1)] by blast
  have part: "page_part s (a + len) ?i = min 256 (len - 256 * t)" using d(2) by (auto simp: page_part_def)
  have "a + len \<le> 2 ^ 24" using d(4) len(1) by simp
  then have small: "256 * t < len \<Longrightarrow> ?i < 2 ^ 24" by simp
  show ?thesis
  proof (cases "t = 0")
    case True
    then have "0 < len" using len(3) by simp
    then have nr: "next_rlen s (a + len) ?i rl = Inr (min 256 len)" using True part by (simp add: next_rlen_def)
    show ?thesis
      unfolding spi_read_page_def prod.case Let_def i(2) c jbind_lift_Inr nr
      using True \<open>0 < len\<close> small s buf
      by (auto simp: jbind_lift_Inr nr reading_def asked_def intro!: wp_bind wp_ask [OF s(1,2) i(1) _ c] wp_ret)
  next
    case False
    then have ask: "rl = Some ?n" "dout v = fetched P m (a + 256 * (t - 1)) ?n" using ask by simp_all
    have t: "256 * (t - 1) + 256 = 256 * t" using False by (cases t) simp_all
    have got: "d ! j = m (a + (256 * (t - 1) + j))" if "answered (dout v) 4 d" "j < length d" "j < ?n" for d j
    proof -
      have "a + 256 * (t - 1) + j < part_size P" using that(3) len(1) by linarith
      then have "(a + 256 * (t - 1) + j) mod part_size P = a + (256 * (t - 1) + j)" by simp
      then show ?thesis using answered_fetched [of P m _ ?n d j] that ask(2) by (simp add: page_bytes_def)
    qed
    have store: "\<exists>b. buf_store (buffer bf) (256 * (t - 1)) d = Inr b \<and> length b = len \<and> (\<forall>x < len. x < 256 * t \<longrightarrow> b ! x = m (a + x))"
      if "answered (dout v) 4 d" "length d = ?n" for d
    proof -
      have "\<forall>j < length d. d ! j = m (a + (256 * (t - 1) + j))" using got that by simp
      moreover have "256 * (t - 1) + length d \<le> len" using that(2) len(3) by simp
      ultimately obtain b where b: "buf_store (buffer bf) (256 * (t - 1)) d = Inr b" "length b = len"
        "\<forall>x < len. x < 256 * (t - 1) + length d \<longrightarrow> b ! x = m (a + x)"
        using buffer_grows [OF s(4) _ buf, of d] by blast
      moreover have "x < 256 * (t - 1) + length d" if "x < len" "x < 256 * t" for x
        using that t \<open>length d = ?n\<close> by simp
      ultimately show ?thesis by blast
    qed
    show ?thesis
    proof (cases "256 * t < len")
      case True
      then have n: "?n = 256" using t by simp
      have "wp (spi_device P mem) (spi_xfer_user1 True 256 4 (Some c) (min 256 (len - 256 * t)) 4 s) (\<lambda>(d, s).
         wp (spi_device P mem) (jbind (jlift (buf_store (buffer bf) (256 * (t - 1)) d))
         (\<lambda>b. jret (Some (min 256 (len - 256 * t)), bf\<lparr>buffer := b\<rparr>, s))) (reading P m a len (Suc t))) v"
      proof (rule wp_ask_get [OF s(1,2) i(1) _ c], goal_cases)
        case (2 d s' w)
        then show ?case
          using store [of d] n small [OF True] s(3,5)
          by (auto simp: jbind_lift_Inr reading_def asked_def mult.commute intro!: wp_ret)
      qed simp
      then show ?thesis
        unfolding spi_read_page_def prod.case Let_def i(2) c jbind_lift_Inr part
        using False True d(2)
        by (auto simp: jbind_simps mult.commute intro!: wp_bind [where m = "spi_xfer_user1 _ _ _ _ _ _ _"] elim!: wp_mono)
    next
      case behind: False
      then have nr: "next_rlen s (a + len) ?i rl = Inr ?n" using ask(1) by (simp add: next_rlen_def)
      have "wp (spi_device P mem) (spi_recv ?n 4 s) (\<lambda>(d, s). wp (spi_device P mem) (jbind (jlift (buf_store (buffer bf) (256 * (t - 1)) d))
         (\<lambda>b. jret (Some ?n, bf\<lparr>buffer := b\<rparr>, s))) (reading P m a len (Suc t))) v"
      proof (rule wp_recv, goal_cases)
        case (4 da s')
        then show ?case
          using store [of da] setup_same [OF s(1)] behind s(2,3,5)
          by (auto simp: jbind_lift_Inr reading_def intro!: wp_ret)
      qed (use d(1) len(3) in simp_all)
      then show ?thesis
        unfolding spi_read_page_def prod.case Let_def i(2) c jbind_lift_Inr nr
        using False behind d(2)
        by (auto simp: jbind_lift_Inr nr jbind_simps mult.commute intro!: wp_bind [where m = "spi_recv _ _ _"] elim!: wp_mono)
    qed
  qed
qed

text \<open>The length of the range that \<^verbatim>\<open>read\<close> is asked for: to the end of the part by default.\<close>

definition spi_read_length :: "spi_part \<Rightarrow> bitfile \<Rightarrow> nat" where
  "spi_read_length P bf = (if rlength bf \<noteq> 0 then rlength bf else part_size P - spi_start bf)"

lemma wp_spi_read:
  assumes s: "spi_setup P s" "dleft v = 0"
    and len: "0 < spi_read_length P bf" "spi_start bf + spi_read_length P bf \<le> part_size P"
  shows "wp (spi_device P mem) (spi_read bf s) (\<lambda>(r, bf', s') w. r = 0 \<and> spi_setup P s' \<and> dleft w = 0 \<and> dmem w = dmem v \<and>
     buffer bf' = map (\<lambda>x. dmem v (spi_start bf + x)) [0..<spi_read_length P bf] \<and> blength bf' = spi_read_length P bf) v"
proof -
  note d = setupD [OF s(1)]
  let ?a = "spi_start bf" and ?len = "spi_read_length P bf" and ?n = "passes (spi_start bf) (spi_start bf + spi_read_length P bf + 256) 256"
  have o: "spi_offset s bf = ?a" by (simp add: spi_offset_def spi_start_def d)
  have small: "?len \<le> 2 ^ 24" "?a \<le> 2 ^ 24" using len d(4) by simp_all
  have "rlength bf \<le> part_size P" if "rlength bf \<noteq> 0" using len(2) that by (simp add: spi_read_length_def)
  then have range: "spi_read_range s bf = (?a + ?len, ?len)"
    using len small by (auto simp: spi_read_range_def spi_read_length_def o d(10) Let_def)
  have init: "buffer (setLength (bits_of ?len) bf) = replicate ?len 0xff" "blength (setLength (bits_of ?len) bf) = ?len"
    using small by (simp_all add: setLength_def bits_of_small mult.commute)
  have def: "spi_read bf s = jbind (jfold 0 ?n (spi_read_page ?a (?a + ?len)) (None, setLength (bits_of ?len) bf, s))
      (\<lambda>(_, bf, s). jret (0, bf, s))"
    using len(2) by (simp add: spi_read_def o range d Let_def)
  show ?thesis
    unfolding def
  proof (rule wp_bind, rule wp_fold [where I = "reading P (dmem v) ?a ?len"], goal_cases)
    case (1 t x w)
    then have "256 * (t - 1) < ?len" using passes_bound(1) [of t ?a "?a + ?len + 256"] len(1) by (cases t) auto
    moreover obtain rl bf' s' where "x = (rl, bf', s')" by (cases x)
    ultimately show ?case using wp_read_page [OF len(2)] 1(3) by (simp add: spi_start_def)
  next
    case (2 x w)
    have "?len \<le> 256 * (?n - 1)" using passes_bound(2) [OF refl, of ?a "?a + ?len + 256"] by auto
    with 2 show ?case by (auto simp: reading_def intro!: wp_ret nth_equalityI)
  next
    case 3
    then show ?case using s init len(1) by (simp add: reading_def)
  qed
qed

section \<open>Verifying\<close>

text \<open>
  The number of bytes that are compared of the page \<open>j\<close> of a file of \<open>len\<close> bytes: as many as the page
  after it has, or as many as it has itself if it is the last one.
\<close>

definition compared :: "nat \<Rightarrow> nat \<Rightarrow> nat" where
  "compared len j = (if 256 * (j + 1) < len then min 256 (len - 256 * (j + 1)) else len - 256 * j)"

definition page_ok :: "bitfile \<Rightarrow> (nat \<Rightarrow> byte) \<Rightarrow> nat \<Rightarrow> nat \<Rightarrow> nat \<Rightarrow> bool" where
  "page_ok bf m a len j \<longleftrightarrow> (\<forall>x < compared len j. m (a + (256 * j + x)) = buffer bf ! (256 * j + x))"

definition verifying ::
  "spi_part \<Rightarrow> bitfile \<Rightarrow> (nat \<Rightarrow> byte) \<Rightarrow> nat \<Rightarrow> nat \<Rightarrow> nat \<Rightarrow> nat option \<times> nat \<times> spiflash \<Rightarrow> spidev \<Rightarrow> bool" where
  "verifying P bf m a len t = (\<lambda>(rl, k, s) v. spi_setup P s \<and> dleft v = 0 \<and> dmem v = m \<and>
     (k = 0 \<longleftrightarrow> (\<forall>j < t - 1. page_ok bf m a len j)) \<and>
     (0 < t \<longrightarrow> 256 * (t - 1) < len \<longrightarrow> rl = Some (min 256 (len - 256 * (t - 1))) \<and>
        dout v = fetched P m (a + 256 * (t - 1)) (min 256 (len - 256 * (t - 1)))))"

lemma wp_verify_page:
  assumes len: "a + len \<le> part_size P" "256 dvd a" "256 * (t - 1) < len" "len \<le> length (buffer bf)"
    and v: "verifying P bf m a len t (rl, k, s) v"
  shows "wp (spi_device P mem) (spi_verify_page bf a (a + len) t (rl, k, s)) (\<lambda>r w. case r of
      Inl (k, s) \<Rightarrow> 0 < k \<and> \<not> page_ok bf m a len (t - 1) \<and> 0 < t \<and> spi_setup P s \<and> dleft w = 0 \<and> dmem w = m
    | Inr x \<Rightarrow> verifying P bf m a len (Suc t) x w) v"
proof -
  let ?i = "a + t * 256"
  obtain n where n_def: "n = (if 256 * t < len then min 256 (len - 256 * t) else len - 256 * (t - 1))" by blast
  have s: "spi_setup P s" "dleft v = 0" "dmem v = m" and k: "k = 0 \<longleftrightarrow> (\<forall>j < t - 1. page_ok bf m a len j)"
    and ask: "0 < t \<longrightarrow> rl = Some (min 256 (len - 256 * (t - 1))) \<and> dout v = fetched P m (a + 256 * (t - 1)) (min 256 (len - 256 * (t - 1)))"
    using v len(3) by (auto simp: verifying_def)
  note d = setupD [OF s(1)]
  have i: "256 dvd ?i" "a + t * pgsize s = ?i" using len(2) d(2) by simp_all
  obtain c where c: "read_command s ?i = Inr c" using read_command_bytes [OF s(1)] by blast
  have "a + len \<le> 2 ^ 24" using d(4) len(1) by simp
  then have small: "256 * t < len \<Longrightarrow> ?i < 2 ^ 24" by simp
  have nr: "next_rlen s (a + len) ?i rl = Inr n"
  proof (cases "256 * t < len")
    case True
    then show ?thesis using d(2) by (auto simp: next_rlen_def page_part_def n_def)
  next
    case False
    then have "0 < t" using len(3) by (cases t) auto
    then show ?thesis using False ask by (cases t) (auto simp: next_rlen_def n_def)
  qed
  have n: "n \<le> 256" unfolding n_def by (cases t) auto
  show ?thesis
    unfolding spi_verify_page_def prod.case Let_def i(2) c nr jbind_lift_Inr d(2)
  proof (rule wp_bind, rule wp_ask_get [OF s(1,2) i(1) n c], goal_cases)
    case (1 da s' w)
    have w: "dmem w = m" "dleft w = 0" "256 * t < len \<Longrightarrow> dout w = fetched P m (a + 256 * t) (min 256 (len - 256 * t))"
      using 1(4) s(3) small by (auto simp: asked_def n_def mult.commute)
    show ?case
    proof (cases "t = 0")
      case True
      then show ?thesis using 1(1) w k len(3) by (auto simp: verifying_def n_def intro!: wp_ret)
    next
      case False
      then obtain u where u: "t = Suc u" by (cases t) auto
      have cmp: "n = compared len u" "256 * u + n \<le> length (buffer bf)" "n \<le> min 256 (len - 256 * u)"
        using len(3,4) u by (auto simp: compared_def n_def)
      then have sl: "buf_slice (buffer bf) ((t - 1) * 256) n = Inr (file_part bf (256 * u) n)"
        using u by (simp add: slice_file_part mult.commute)
      have got: "da ! j = m (a + (256 * u + j))" if "j < n" for j
      proof -
        have "j < min 256 (len - 256 * u)" using that cmp(3) by linarith
        moreover have "a + 256 * u + j < part_size P" using calculation len(1) by linarith
        ultimately show ?thesis
          using answered_fetched [of P m "a + 256 * u" "min 256 (len - 256 * u)" da j] 1(2,3) ask u
          by (simp add: page_bytes_def add.assoc)
      qed
      have "memcmp (take n da) (file_part bf (256 * u) n) = 0 \<longleftrightarrow> take n da = file_part bf (256 * u) n"
        using 1(2) n cmp(2) by (intro memcmp_0) simp
      also have "\<dots> \<longleftrightarrow> page_ok bf m a len u"
        using got 1(2) n cmp(2) by (auto simp: list_eq_iff_nth_eq nth_file_part page_ok_def cmp(1) [symmetric])
      finally have eq: "memcmp (take n da) (file_part bf (256 * u) n) = 0 \<longleftrightarrow> page_ok bf m a len u" .
      have nn: "256 * t < len \<Longrightarrow> n = min 256 (len - 256 * t)" by (simp add: n_def)
      have all: "((if page_ok bf m a len u then k else k + 1) = 0) = (\<forall>j < t. page_ok bf m a len j)"
        using k u by (auto simp: less_Suc_eq)
      show ?thesis
        unfolding prod.case setupD(2) [OF 1(1)] if_not_P [OF False] sl jbind_lift_Inr
        using 1(1) w u all eq nn by (intro wp_ret) (cases "page_ok bf m a len u"; simp add: verifying_def)
    qed
  qed
qed

text \<open>
  The bytes that are not compared: those of the last page but one that lie behind the end of the
  last page, when each is taken from the start of its page.
\<close>

definition unverified :: "nat \<Rightarrow> nat \<Rightarrow> bool" where
  "unverified len x \<longleftrightarrow> x div 256 + 2 = (len + 255) div 256 \<and> (len - 1) mod 256 < x mod 256"

lemma compared_unverified:
  assumes "x < len"
  shows "x mod 256 < compared len (x div 256) \<longleftrightarrow> \<not> unverified len x"
proof -
  define q r j y where d: "q = (len - 1) div 256" "r = (len - 1) mod 256" "j = x div 256" "y = x mod 256"
  have len: "len = 256 * q + r + 1" "r < 256" using assms by (simp_all add: d)
  have x: "x = 256 * j + y" "y < 256" by (simp_all add: d)
  have u: "(len + 255) div 256 = q + 1" "(len - 1) mod 256 = r" "x div 256 = j" "x mod 256 = y"
    using len by (simp_all add: d)
  have "j \<le> q" using assms by (auto simp: d intro!: div_le_mono)
  then consider "q = j" | "q = j + 1" | "j + 2 \<le> q" by linarith
  then show ?thesis
  proof cases
    case 1
    then show ?thesis unfolding compared_def unverified_def u using assms len x by simp
  next
    case 2
    then show ?thesis unfolding compared_def unverified_def u using len x by auto
  next
    case 3
    then have "256 * (j + 2) \<le> 256 * q" by simp
    then have "256 * (j + 1) + 256 \<le> len" using len(1) by simp
    then show ?thesis unfolding compared_def unverified_def u using 3 x(2) by simp
  qed
qed

lemma pages_ok_bytes:
  "(\<forall>j < (len + 255) div 256. page_ok bf m a len j) \<longleftrightarrow> (\<forall>x < len. \<not> unverified len x \<longrightarrow> m (a + x) = buffer bf ! x)"
proof safe
  fix x assume p: "\<forall>j < (len + 255) div 256. page_ok bf m a len j" and x: "x < len" "\<not> unverified len x"
  have "x div 256 < (len + 255) div 256" using x(1) by (simp add: div_less_iff_less_mult)
  then have "page_ok bf m a len (x div 256)" using p by blast
  moreover have "x mod 256 < compared len (x div 256)" using compared_unverified [OF x(1)] x(2) by simp
  ultimately have "m (a + (256 * (x div 256) + x mod 256)) = buffer bf ! (256 * (x div 256) + x mod 256)"
    unfolding page_ok_def by blast
  then show "m (a + x) = buffer bf ! x" by simp
next
  fix j assume all: "\<forall>x < len. \<not> unverified len x \<longrightarrow> m (a + x) = buffer bf ! x" and j: "j < (len + 255) div 256"
  show "page_ok bf m a len j"
    unfolding page_ok_def
  proof safe
    fix y assume y: "y < compared len j"
    have c: "compared len j \<le> 256" "256 * j + compared len j \<le> len" using j by (auto simp: compared_def)
    have x: "(256 * j + y) div 256 = j" "(256 * j + y) mod 256 = y" "256 * j + y < len" using y c by simp_all
    then have "\<not> unverified len (256 * j + y)" using compared_unverified [of "256 * j + y" len] y by simp
    then show "m (a + (256 * j + y)) = buffer bf ! (256 * j + y)" using all x(3) by simp
  qed
qed

lemma wp_spi_verify:
  assumes s: "spi_setup P s" "dleft v = 0" and f: "file_ok bf" "spi_start bf < part_size P"
  shows "wp (spi_device P mem) (spi_verify bf s) (\<lambda>(r, s') w. spi_setup P s' \<and> dleft w = 0 \<and> dmem w = dmem v \<and>
     (r = 0 \<longleftrightarrow> (\<forall>x < spi_end P bf - spi_start bf. \<not> unverified (spi_end P bf - spi_start bf) x \<longrightarrow>
        dmem v (spi_start bf + x) = buffer bf ! x))) v"
proof -
  note d = setupD [OF s(1)]
  have le: "spi_start bf \<le> part_size P" using f(2) by simp
  note l = file_lengths [OF s(1) f(1) le]
  obtain a where a: "a = spi_start bf" by blast
  obtain len where len: "len = spi_end P bf - spi_start bf" by blast
  obtain n where n: "n = passes a (a + len + 256) 256" by blast
  have e: "spi_end P bf = a + len" using l(6) by (simp add: a len)
  have len0: "0 < len" using f by (auto simp: len spi_end_def file_ok_def)
  have n1: "n - 1 = (len + 255) div 256" unfolding n passes_def by simp
  have def: "spi_verify bf s = jbind (jscan 0 n (spi_verify_page bf a (a + len)) (None, 0, s)) (\<lambda>r.
      jret (case r of Inl (k, s) \<Rightarrow> (int k, s) | Inr (_, k, s) \<Rightarrow> (int k, s)))"
    using f by (simp add: spi_verify_def Let_def l(1-4) e d n file_ok_def flip: a)
  have dvd: "256 dvd a" by (simp add: a spi_start_def)
  have len2: "spi_end P bf - a = len" by (simp add: len a)
  show ?thesis
    unfolding def a [symmetric] len2 pages_ok_bytes [symmetric]
  proof (rule wp_bind, rule wp_scan [where I = "verifying P bf (dmem v) a len"], goal_cases)
    case (1 t x w)
    have t: "256 * (t - 1) < len" using passes_bound(1) [of t a "a + len + 256"] 1(2) len0 n by (cases t) auto
    obtain rl k s' where x: "x = (rl, k, s')" by (cases x)
    then have v: "verifying P bf (dmem v) a len t (rl, k, s') w" using 1(3) by simp
    have b: "a + len \<le> part_size P" "len \<le> length (buffer bf)" using e l(5,7) a len by simp_all
    have "t - 1 < (len + 255) div 256" if "0 < t" using t that by auto
    then show ?case
      unfolding x by (intro wp_mono [OF wp_verify_page [OF b(1) dvd t b(2) v]]) (auto intro!: wp_ret split: sum.splits)
  next
    case (2 x w)
    then show ?case using n1 by (auto simp: verifying_def intro!: wp_ret)
  next
    case 3
    then show ?case using s len0 by (simp add: verifying_def)
  qed
qed

end
