(* ===== verification/SPIClaims.thy ===== *)
theory SPIClaims
  imports SPIRead
begin

text \<open>
  The promises of the SPI flash algorithm for parts with sector erase and page program: a program is
  in the part and reads back, and what a verification that succeeds says.
\<close>

section \<open>Programming, verifying and reading\<close>

text \<open>Running a program whose result is a pair or a triple.\<close>

lemma wp_run_pair:
  assumes "wp dd m (\<lambda>(r, s) w. Q r s w) (dview dd (hist k))" "honest dd (replies k)"
  obtains r s k' where "m k = (Inr (r, s), k')" "honest dd (replies k')" "Q r s (dview dd (hist k'))"
proof (rule wp_run [OF assms])
  fix x k' assume "m k = (Inr x, k')" "replies k' = replies k" "(case x of (r, s) \<Rightarrow> Q r s) (dview dd (hist k'))"
  then show thesis using that assms(2) by (cases x) simp
qed

lemma wp_run_triple:
  assumes "wp dd m (\<lambda>(r, b, s) w. Q r b s w) (dview dd (hist k))" "honest dd (replies k)"
  obtains r b s k' where "m k = (Inr (r, b, s), k')" "Q r b s (dview dd (hist k'))"
proof (rule wp_run [OF assms])
  fix x k' assume "m k = (Inr x, k')" "(case x of (r, b, s) \<Rightarrow> Q r b s) (dview dd (hist k'))"
  then show thesis using that by (cases x) simp
qed

definition spi_count :: "bitfile \<Rightarrow> nat" where
  "spi_count bf = (if rlength bf \<noteq> 0 then rlength bf else blength bf)"

lemma spi_session:
  assumes s: "spi_setup P s" "manf_id s \<in> sector_parts" "quick P"
    and f: "file_ok bf" "spi_start bf + spi_count bf \<le> part_size P" "blength bf \<le> part_size P"
    and k: "honest (spi_device P mem) (replies k)" "dleft (dview (spi_device P mem) (hist k)) = 0"
    and r: "boffset req = boffset bf" "rlength req = spi_count bf"
  obtains s1 k1 s2 k2 bf' s3 k3 where "spi_program bf s k = (Inr (0, s1), k1)"
    "dmem (dview (spi_device P mem) (hist k1)) = programmed P bf (dmem (dview (spi_device P mem) (hist k)))"
    "spi_verify bf s1 k1 = (Inr (0, s2), k2)" "spi_read req s2 k2 = (Inr (0, bf', s3), k3)"
    "buffer bf' = take (spi_count bf) (buffer bf)"
proof -
  let ?d = "spi_device P mem"
  let ?v = "dview ?d (hist k)"
  have c: "0 < spi_count bf" "spi_count bf \<le> length (buffer bf)" using f(1) by (auto simp: file_ok_def spi_count_def)
  have e: "spi_end P bf = spi_start bf + spi_count bf" using f(2) by (simp add: spi_end_def spi_count_def)
  have st: "spi_start req = spi_start bf" "spi_read_length P req = spi_count bf"
    using r c(1) by (simp_all add: spi_start_def spi_read_length_def)
  have m: "programmed P bf g (spi_start bf + x) = buffer bf ! x" if "x < spi_count bf" for g x
    using that by (simp add: programmed_def e)
  have p: "spi_program bf s = sectorerase_and_program bf s"
    using s(2) f(3) file_lengths(1) [OF s(1) f(1)] f(2) setupD(10) [OF s(1)]
    by (auto simp: spi_program_def sector_parts_def)
  have "wp ?d (sectorerase_and_program bf s) (\<lambda>(r, s) w. r = 0 \<and> spi_setup P s \<and> dleft w = 0 \<and>
      dmem w = programmed P bf (dmem ?v)) ?v"
    by (rule wp_mono [OF wp_sectorerase_and_program [OF s(1) f(1) _ k(2)]]) (use f(2) s(3) in auto)
  then obtain r s1 k1 where "sectorerase_and_program bf s k = (Inr (r, s1), k1)" "honest ?d (replies k1)"
    "r = 0 \<and> spi_setup P s1 \<and> dleft (dview ?d (hist k1)) = 0 \<and> dmem (dview ?d (hist k1)) = programmed P bf (dmem ?v)"
    using k(1) by (rule wp_run_pair)
  then have 1: "sectorerase_and_program bf s k = (Inr (0, s1), k1)" "honest ?d (replies k1)" "spi_setup P s1"
    "dleft (dview ?d (hist k1)) = 0" "dmem (dview ?d (hist k1)) = programmed P bf (dmem ?v)" by simp_all
  have "spi_start bf < part_size P" using f(2) c(1) by simp
  from wp_spi_verify [OF 1(3,4) f(1) this] 1(2) obtain r s2 k2 where "spi_verify bf s1 k1 = (Inr (r, s2), k2)"
    "honest ?d (replies k2)" "spi_setup P s2 \<and> dleft (dview ?d (hist k2)) = 0 \<and>
      dmem (dview ?d (hist k2)) = dmem (dview ?d (hist k1)) \<and> (r = 0 \<longleftrightarrow> (\<forall>x < spi_end P bf - spi_start bf.
        \<not> unverified (spi_end P bf - spi_start bf) x \<longrightarrow> dmem (dview ?d (hist k1)) (spi_start bf + x) = buffer bf ! x))"
    by (rule wp_run_pair)
  then have 2: "spi_verify bf s1 k1 = (Inr (0, s2), k2)" "honest ?d (replies k2)" "spi_setup P s2"
    "dleft (dview ?d (hist k2)) = 0" "dmem (dview ?d (hist k2)) = programmed P bf (dmem ?v)"
    using 1(5) e m by simp_all
  have "0 < spi_read_length P req" "spi_start req + spi_read_length P req \<le> part_size P" using st c f(2) by simp_all
  from wp_spi_read [OF 2(3,4) this] 2(2) obtain r bf' s3 k3 where "spi_read req s2 k2 = (Inr (r, bf', s3), k3)"
    "r = 0 \<and> spi_setup P s3 \<and> dleft (dview ?d (hist k3)) = 0 \<and> dmem (dview ?d (hist k3)) = dmem (dview ?d (hist k2)) \<and>
      buffer bf' = map (\<lambda>x. dmem (dview ?d (hist k2)) (spi_start req + x)) [0..<spi_read_length P req] \<and>
      blength bf' = spi_read_length P req"
    by (rule wp_run_triple)
  then have 3: "spi_read req s2 k2 = (Inr (0, bf', s3), k3)"
    "buffer bf' = map (\<lambda>x. programmed P bf (dmem ?v) (spi_start bf + x)) [0..<spi_count bf]"
    using st 2(5) by simp_all
  have "map (\<lambda>x. programmed P bf (dmem ?v) (spi_start bf + x)) [0..<spi_count bf] = take (spi_count bf) (buffer bf)"
    using m c(2) by (intro nth_equalityI) simp_all
  with that 1 2 3 p show thesis by simp
qed

text \<open>
  C24. On a part behind the bridge that is fast enough, \<^verbatim>\<open>program\<close> returns 0 and leaves the file in
  the memory, with the sectors it touches erased around it; \<^verbatim>\<open>verify\<close> then returns 0, and
  \<^verbatim>\<open>read\<close> of the same range returns the bytes of the file.
\<close>

theorem spi_program_roundtrip:
  assumes "spi_setup P s" "manf_id s \<in> sector_parts" "quick P"
    and "file_ok bf" "spi_start bf + spi_count bf \<le> part_size P" "blength bf \<le> part_size P"
    and "honest (spi_device P mem) (replies k)" "dleft (dview (spi_device P mem) (hist k)) = 0"
    and "boffset req = boffset bf" "rlength req = spi_count bf"
  shows "\<exists>s1 k1 s2 k2 bf' s3 k3. spi_program bf s k = (Inr (0, s1), k1) \<and>
     dmem (dview (spi_device P mem) (hist k1)) = programmed P bf (dmem (dview (spi_device P mem) (hist k))) \<and>
     spi_verify bf s1 k1 = (Inr (0, s2), k2) \<and> spi_read req s2 k2 = (Inr (0, bf', s3), k3) \<and>
     buffer bf' = take (spi_count bf) (buffer bf)"
  using spi_session [OF assms] by metis

text \<open>An executable part: it answers with what it has put out.\<close>

definition spi_replies :: "spi_part \<Rightarrow> (nat \<Rightarrow> byte) \<Rightarrow> jop list \<Rightarrow> byte list" where
  "spi_replies P mem cs =
     map (\<lambda>b. case b of None \<Rightarrow> 0 | Some b \<Rightarrow> b) (dout (dview (spi_device P mem) (butlast cs)))"

lemma spi_replies_honest: "honest (spi_device P mem) (spi_replies P mem)"
  by (auto simp: honest_def spi_answer_def spi_replies_def list_all_iff split: jop.split bool.split option.split)

definition spi_link :: "spi_part \<Rightarrow> (nat \<Rightarrow> byte) \<Rightarrow> jlink" where
  "spi_link P mem = \<lparr>hist = [], replies = spi_replies P mem\<rparr>"

lemma spi_link:
  "honest (spi_device P mem) (replies (spi_link P mem))" "dleft (dview (spi_device P mem) (hist (spi_link P mem))) = 0"
  "dmem (dview (spi_device P mem) (hist (spi_link P mem))) = mem"
  by (simp_all add: spi_link_def spi_replies_honest dview_def spi_idle_def)

definition w25x05 :: spi_part where
  "w25x05 = \<lparr>part_size = 65536, part_sector = 4096, part_erase = 0x20, part_busy = \<lambda>n. n mod 4\<rparr>"

definition w25_class :: spiflash where
  "w25_class = (spi_init 0 [] [] (replicate 256 0))\<lparr>pgsize := 256, pages := 256, sector_size := 4096, sector_erase_cmd := 0x20,
     manf_id := 0xef, page_buf := Some (replicate 272 0)\<rparr>"

definition example_file :: bitfile where
  "example_file = bitfile_init\<lparr>blength := 300, buffer := map of_nat [0..<300], boffset := 1000\<rparr>"

lemma example_spi:
  "spi_setup w25x05 w25_class" "manf_id w25_class \<in> sector_parts" "quick w25x05" "file_ok example_file"
  "spi_start example_file = 768" "spi_count example_file = 300" "blength example_file = 300" "spi_end w25x05 example_file = 1068"
proof -
  have "(n :: nat) mod 4 + 1 < 50" for n using mod_less_divisor [of 4 n] by linarith
  then show "quick w25x05" by (simp add: quick_def w25x05_def)
qed (simp_all add: spi_setup_def w25x05_def w25_class_def spi_init_def spi_bufs_def sector_parts_def fit_def file_ok_def
    example_file_def bitfile_init_def spi_start_def spi_count_def spi_end_def)

lemma example_buffer: "take 300 (buffer example_file) = map of_nat [0..<300]"
  by (simp add: example_file_def)

lemma spi_program_roundtrip_witness:
  "\<exists>s1 k1 s2 k2 bf' s3 k3.
     spi_program example_file w25_class (spi_link w25x05 (\<lambda>_. 0)) = (Inr (0, s1), k1) \<and>
     spi_verify example_file s1 k1 = (Inr (0, s2), k2) \<and>
     spi_read (bitfile_init\<lparr>boffset := 1000, rlength := 300\<rparr>) s2 k2 = (Inr (0, bf', s3), k3) \<and>
     buffer bf' = map of_nat [0..<300]"
proof -
  have "spi_start example_file + spi_count example_file \<le> part_size w25x05" "blength example_file \<le> part_size w25x05"
    "boffset (bitfile_init\<lparr>boffset := 1000, rlength := 300\<rparr>) = boffset example_file"
    "rlength (bitfile_init\<lparr>boffset := 1000, rlength := 300\<rparr>) = spi_count example_file"
    by (simp_all add: example_spi, simp_all add: w25x05_def example_file_def)
  from spi_program_roundtrip [OF example_spi(1-4) this(1,2) spi_link(1,2) this(3,4)] show ?thesis
    by (simp only: example_spi example_buffer) blast
qed

text \<open>
  C25. What \<^verbatim>\<open>verify\<close> returning 0 says: every byte of the range agrees with the file, except those of
  the last page but one that lie behind the last byte's position in its page, which are not looked at.
\<close>

theorem spi_verify_exact:
  assumes "spi_setup P s" "file_ok bf" "spi_start bf < part_size P"
    and "honest (spi_device P mem) (replies k)" "dleft (dview (spi_device P mem) (hist k)) = 0"
  shows "\<exists>r s' k'. spi_verify bf s k = (Inr (r, s'), k') \<and>
     (r = 0 \<longleftrightarrow> (\<forall>x < spi_end P bf - spi_start bf. \<not> unverified (spi_end P bf - spi_start bf) x \<longrightarrow>
        dmem (dview (spi_device P mem) (hist k)) (spi_start bf + x) = buffer bf ! x))"
  using wp_spi_verify [OF assms(1,5,2,3)] assms(4)
  by (rule wp_run_pair) blast

text \<open>A part in which byte 100 of the file is wrong, and that verifies.\<close>

definition spoilt :: "nat \<Rightarrow> byte" where
  "spoilt x = (if x = 868 then 0 else of_nat (x - 768))"

lemma spi_verify_exact_witness:
  "spoilt (spi_start example_file + 100) \<noteq> buffer example_file ! 100 \<and>
   (\<exists>s' k'. spi_verify example_file w25_class (spi_link w25x05 spoilt) = (Inr (0, s'), k'))"
proof
  show "spoilt (spi_start example_file + 100) \<noteq> buffer example_file ! 100"
    unfolding example_spi(5) by (simp add: spoilt_def example_file_def)
  have "spoilt (768 + x) = buffer example_file ! x" if "x < 300" "\<not> unverified 300 x" for x
    using that by (auto simp: spoilt_def example_file_def unverified_def)
  then have "\<forall>x < 1068 - 768. \<not> unverified (1068 - 768) x \<longrightarrow> spoilt (768 + x) = buffer example_file ! x" by simp
  moreover have "768 < part_size w25x05" by (simp add: w25x05_def)
  ultimately show "\<exists>s' k'. spi_verify example_file w25_class (spi_link w25x05 spoilt) = (Inr (0, s'), k')"
    using spi_verify_exact [OF example_spi(1,4) _ spi_link(1,2)] unfolding spi_link(3) example_spi(5,8) by blast
qed

end
