(* ===== verification/SPIGeometry.thy ===== *)
theory SPIGeometry
  imports SPIRead
begin

text \<open>
  What the identification of a part leaves in the class, whatever the part answers: the geometry that
  the other operations compute with, a page buffer that fits it, and how far three address bytes reach.
\<close>

section \<open>Results\<close>

definition yields :: "'a jm \<Rightarrow> ('a \<Rightarrow> bool) \<Rightarrow> bool" where
  "yields m Q \<longleftrightarrow> (\<forall>k x k'. m k = (Inr x, k') \<longrightarrow> Q x)"

lemma yields_ret: "Q x \<Longrightarrow> yields (jret x) Q"
  by (simp add: yields_def jret_def)

lemma yields_bind: "yields m P \<Longrightarrow> (\<And>x. P x \<Longrightarrow> yields (f x) Q) \<Longrightarrow> yields (jbind m f) Q"
  unfolding yields_def jbind_def by (auto split: sum.splits prod.splits) (metis Inr_inject old.sum.exhaust prod.inject)

lemma yields_lift: "(\<And>x. r = Inr x \<Longrightarrow> yields (f x) Q) \<Longrightarrow> yields (jbind (jlift r) f) Q"
  by (rule yields_bind [where P = "\<lambda>x. r = Inr x"]) (simp_all add: yields_def jlift_def)

lemma yields_skip: "(\<And>x. yields (f x) Q) \<Longrightarrow> yields (jbind m f) Q"
  by (rule yields_bind [where P = "\<lambda>_. True"]) (simp_all add: yields_def)

lemma yields_mono: "yields m Q \<Longrightarrow> (\<And>x. Q x \<Longrightarrow> Q' x) \<Longrightarrow> yields m Q'"
  by (auto simp: yields_def)

lemma buf_store_length: "buf_store buf off bs = Inr b \<Longrightarrow> length b = length buf"
  by (auto simp: buf_store_def split: if_splits)

lemma spi_fill_length: "spi_fill m L p old = Inr b \<Longrightarrow> length b = length old"
  by (auto simp: spi_fill_def rbind_Inr_iff dest: buf_store_length)

lemma yields_xc_user: "yields (xc_user send want n s) (spi_same s)"
  unfolding xc_user_def
proof (rule yields_skip, rule yields_skip, cases want)
  fix tdi assume want
  have "yields (jbind (jcaptureDR tdi n True) (\<lambda>d.
      jbind (jlift (buf_store (miso_buf s) 0 d)) (\<lambda>b. jret (s\<lparr>miso_buf := b\<rparr>)))) (spi_same s)"
    by (rule yields_skip, rule yields_lift, rule yields_ret) (auto simp: spi_same_def dest: buf_store_length)
  with \<open>want\<close> show "yields (if want then jbind (jcaptureDR tdi n True) (\<lambda>d.
      jbind (jlift (buf_store (miso_buf s) 0 d)) (\<lambda>b. jret (s\<lparr>miso_buf := b\<rparr>)))
      else jbind (jdo (OpDR tdi False n 0 True)) (\<lambda>_. jret s)) (spi_same s)" by simp
qed (auto intro!: yields_skip yields_ret)

lemma yields_xfer: "yields (spi_xfer_user1 want k skip mosi L p s) (\<lambda>(_, s'). spi_same s s')"
  unfolding spi_xfer_user1_def Let_def
proof (rule yields_bind)
  show "yields (case mosi of None \<Rightarrow> jret s | Some m \<Rightarrow> jbind (jlift (spi_fill m L p (mosi_buf s))) (\<lambda>b. jret (s\<lparr>mosi_buf := b\<rparr>)))
    (spi_same s)"
    by (cases mosi) (auto simp: spi_same_def dest: spi_fill_length intro!: yields_lift yields_ret)
  fix s1 assume s1: "spi_same s s1"
  show "yields (jbind (xc_user (mosi \<noteq> None) want
      ((if mosi = None then k + skip else max (k + skip) (L + p + 4 + 2)) * 8) s1) (\<lambda>s. if want \<and> k \<noteq> 0
         then jbind (jlift (buf_slice (miso_buf s) skip k)) (\<lambda>d. jret (d, s)) else jret ([], s))) (\<lambda>(_, s'). spi_same s s')"
    by (rule yields_bind [OF yields_xc_user])
      (auto intro!: yields_lift yields_ret intro: spi_same_trans [OF s1])
qed

lemma yields_send: "yields (spi_send m L p s) (spi_same s)"
  unfolding spi_send_def
  by (rule yields_bind [OF yields_xfer]) (auto intro!: yields_ret)

lemma yields_recv: "yields (spi_recv k skip s) (\<lambda>(_, s'). spi_same s s')"
  unfolding spi_recv_def by (rule yields_xfer)

text \<open>A command and its answer.\<close>

lemma yields_query:
  assumes "\<And>d s'. spi_same s s' \<Longrightarrow> yields (f (d, s')) Q"
  shows "yields (jbind (spi_send m L p s) (\<lambda>s. jbind (spi_recv k skip s) f)) Q"
proof (rule yields_bind [OF yields_send])
  fix s1 assume s1: "spi_same s s1"
  show "yields (jbind (spi_recv k skip s1) f) Q"
    by (rule yields_bind [OF yields_recv]) (auto intro: assms spi_same_trans [OF s1])
qed

section \<open>The geometry of a part\<close>

text \<open>The parts that three address bytes do not reach: 32 MB from Winbond and 64 MB from Macronix.\<close>

definition geometry :: "byte \<Rightarrow> spiflash \<Rightarrow> bool" where
  "geometry m s \<longleftrightarrow>
     pgsize s = 256 \<and> 0 < pages s \<and> (pages s \<le> 65536 \<or> m = 0xef \<and> pages s = 131072 \<or> m = 0xc2 \<and> pages s = 262144) \<or>
     pgsize s \<in> {264, 528, 1056} \<and> 0 < pages s \<and> pages s \<le> 8192"

definition identified :: "byte \<Rightarrow> byte \<Rightarrow> int \<times> spiflash \<Rightarrow> bool" where
  "identified m i r \<longleftrightarrow> (case r of (res, s) \<Rightarrow> manf_id s = i \<and> (res = 1 \<longrightarrow> geometry m s))"

lemma power_pages: "c \<le> hi \<Longrightarrow> (2 :: nat) ^ (unat c - k) \<le> 2 ^ (unat hi - k)" for c :: byte
  by (intro power_increasing diff_le_mono) (simp_all add: word_le_nat_alt)

lemma amic_pages_bound: "amic_pages c = Some n \<Longrightarrow> 0 < n \<and> n \<le> 65536"
  using power_pages [of c "0x16" 16] by (auto simp: amic_pages_def split: if_splits)

lemma w25_pages_bound: "w25_pages c = Some n \<Longrightarrow> 0 < n \<and> (n \<le> 65536 \<or> n = 131072)"
proof -
  assume n: "w25_pages c = Some n"
  then have "n = 512 * 2 ^ (unat c - 17)" "c \<le> 0x19" by (auto simp: w25_pages_def split: if_splits)
  moreover from this(2) have "unat c - 17 \<le> 8" by (simp add: word_le_nat_alt)
  then have "unat c - 17 \<le> 7 \<or> unat c - 17 = 8" by linarith
  then have "(2 :: nat) ^ (unat c - 17) \<le> 2 ^ 7 \<or> (2 :: nat) ^ (unat c - 17) = 2 ^ 8"
    using power_increasing [of "unat c - 17" 7 "2 :: nat"] by auto
  ultimately show ?thesis by auto
qed

lemma m25p_size_bound: "m25p_size t c = Some (n, k) \<Longrightarrow> 0 < n \<and> n \<le> 65536"
  using power_pages [of c "0x16" 18] by (auto simp: m25p_size_def split: if_splits)

lemma identified_set_size:
  "(\<And>n k. r = Some (n, k) \<Longrightarrow> 0 < n \<and> (n \<le> 65536 \<or> m = 0xc2 \<and> n = 262144)) \<Longrightarrow> identified m (manf_id s) (set_size r s)"
  by (auto simp: identified_def set_size_def geometry_def split: option.splits)

lemma mb_bounds: "issi_mb t c = Some mb \<Longrightarrow> 0 < mb_pages mb \<and> mb_pages mb \<le> 65536"
  "spansion_mb t c = Some mb \<Longrightarrow> 0 < mb_pages mb \<and> mb_pages mb \<le> 65536"
  by (auto simp: issi_mb_def spansion_mb_def mb_pages_def split: if_splits)

lemma identified_set_mb:
  "(\<And>mb. r = Some mb \<Longrightarrow> 0 < mb_pages mb \<and> mb_pages mb \<le> 65536) \<Longrightarrow> identified m (manf_id s) (set_mb r s)"
  by (auto simp: identified_def set_mb_def geometry_def Let_def split: option.splits)

lemma identified_same: "spi_same s s' \<Longrightarrow> geometry m s \<Longrightarrow> identified m (manf_id s) (1, s')"
  by (simp add: identified_def geometry_def spi_same_def)

lemma yields_otp: "geometry m s \<Longrightarrow> yields (jbind (spi_read_otp s) (\<lambda>s. jret (1, s))) (identified m (manf_id s))"
  unfolding spi_read_otp_def jbind_simps
  by (rule yields_query) (auto simp: jbind_simps intro!: yields_ret identified_same)

text \<open>The routines of the manufacturers.\<close>

lemma identified_fail: "m \<noteq> 1 \<Longrightarrow> identified x (manf_id s) (m, s)"
  by (simp add: identified_def)

lemma yields_s33: "yields (spi_flashinfo_s33 buf s) (identified m (manf_id s))"
proof -
  have "yields (jbind (spi_read_otp (s\<lparr>pages := n, pgsize := 256\<rparr>)) (\<lambda>s. jret (1, s))) (identified m (manf_id s))"
    if "s33_pages c = Some n" for c n
    using yields_otp [of m "s\<lparr>pages := n, pgsize := 256\<rparr>"] that
    by (auto simp: geometry_def s33_pages_def split: if_splits)
  then show ?thesis
    by (auto simp: spi_flashinfo_s33_def identified_fail split: option.splits intro!: yields_ret)
qed

lemma yields_w25: "yields (spi_flashinfo_w25 buf s) (identified 0xef (manf_id s))"
proof -
  have "yields (if q then jbind (spi_read_otp (s\<lparr>pages := n, pgsize := 256, sector_size := 4096, sector_erase_cmd := 0x20\<rparr>)) (\<lambda>s. jret (1, s))
     else jret (1, s\<lparr>pages := n, pgsize := 256, sector_size := 4096, sector_erase_cmd := 0x20\<rparr>)) (identified 0xef (manf_id s))"
    if "w25_pages c = Some n" for c n q
  proof -
    let ?s = "s\<lparr>pages := n, pgsize := 256, sector_size := 4096, sector_erase_cmd := 0x20\<rparr>"
    have "geometry 0xef ?s" using w25_pages_bound [OF that] by (auto simp: geometry_def)
    with yields_otp [of "0xef" ?s] show ?thesis by (auto simp: identified_def intro!: yields_ret)
  qed
  then have "yields (case w25_pages (buf ! 2) of None \<Rightarrow> jret (- 1, s)
    | Some n \<Rightarrow> if buf ! 1 = 0x40
        then jbind (spi_read_otp (s\<lparr>pages := n, pgsize := 256, sector_size := 4096, sector_erase_cmd := 0x20\<rparr>)) (\<lambda>s. jret (1, s))
        else jret (1, s\<lparr>pages := n, pgsize := 256, sector_size := 4096, sector_erase_cmd := 0x20\<rparr>)) (identified 0xef (manf_id s))"
    by (cases "w25_pages (buf ! 2)") (simp_all add: yields_ret identified_fail)
  then show ?thesis
    unfolding spi_flashinfo_w25_def Let_def by (simp add: yields_ret identified_fail)
qed

lemma at45chips_geometry: "find (\<lambda>c. at45_id c = unat (x AND 0x0f)) at45chips = Some c \<Longrightarrow>
    at45_pgsize c \<in> {264, 528, 1056} \<and> 0 < at45_pages c \<and> at45_pages c \<le> 8192" for x :: byte
proof -
  have "unat (x AND 0x0f) \<le> 15" using word_and_le1 [of x "0x0f"] by (simp add: word_le_nat_alt)
  moreover assume "find (\<lambda>c. at45_id c = unat (x AND 0x0f)) at45chips = Some c"
  then have "c \<in> set at45chips" "at45_id c = unat (x AND 0x0f)" by (auto simp: find_Some_iff)
  ultimately show ?thesis by (auto simp: at45chips_def)
qed

lemma yields_at45: "yields (spi_flashinfo_at45 s) (identified m (manf_id s))"
  unfolding spi_flashinfo_at45_def Let_def
proof (rule yields_query, clarsimp split: option.split, intro conjI allI impI)
  fix d s' assume same: "spi_same s s'"
  show "yields (jret (- 1, s')) (identified m (manf_id s))"
    using same by (auto simp: identified_def spi_same_def intro!: yields_ret)
  fix c assume c: "find (\<lambda>c. at45_id c = unat (drop_bit 2 (bitRev (d ! 0)) AND 0x0f)) at45chips = Some c"
  let ?s = "s'\<lparr>pgsize := at45_pgsize c, pages := at45_pages c, pages_per_sector := at45_pages_per_sector c, pages_per_block := 8\<rparr>"
  show "yields (jbind (spi_send (stack_array [0x77, 0, 0, 0] ?s) 128 4 ?s) (\<lambda>s. jbind (spi_recv 128 4 s) (\<lambda>(_, s). jret (1, s))))
     (identified m (manf_id s))"
  proof (rule yields_query, clarsimp, rule yields_ret)
    fix s2 assume "spi_same ?s s2"
    moreover have "geometry m ?s" using at45chips_geometry [OF c] by (auto simp: geometry_def)
    ultimately have "identified m (manf_id ?s) (1, s2)" by (rule identified_same)
    with same show "identified m (manf_id s) (1, s2)" by (simp add: spi_same_def)
  qed
qed

lemma yields_id: "(\<And>d s'. identified m (manf_id s') (f d s')) \<Longrightarrow>
    yields (jbind (spi_read_id s) (\<lambda>(d, s). jret (f d s))) (identified m (manf_id s))"
  unfolding spi_read_id_def jbind_simps
proof (rule yields_query, clarsimp, rule yields_ret)
  fix d s' assume f: "\<And>d s'. identified m (manf_id s') (f d s')" and "spi_same s s'"
  from this(2) have "manf_id s' = manf_id s" by (simp add: spi_same_def)
  with f [of s' d] show "identified m (manf_id s) (f d s')" by simp
qed

lemma yields_m25p: "b \<longrightarrow> m = 0xc2 \<Longrightarrow> yields (spi_flashinfo_m25p_mx25l b s) (identified m (manf_id s))"
  unfolding spi_flashinfo_m25p_mx25l_def
  by (rule yields_id, rule identified_set_size)
    (auto simp: mx25l_size_def dest: m25p_size_bound split: if_splits)

lemma yields_issi: "yields (spi_flashinfo_issi s) (identified m (manf_id s))"
  unfolding spi_flashinfo_issi_def by (rule yields_id, rule identified_set_mb) (rule mb_bounds)

lemma identified_pure:
  "identified m (manf_id s) (spi_flashinfo_amic buf s)" "identified m (manf_id s) (spi_flashinfo_amic_quad buf s)"
  "identified m (manf_id s) (spi_flashinfo_sst buf s)"
  by (auto simp: spi_flashinfo_amic_def spi_flashinfo_amic_quad_def spi_flashinfo_sst_def spi_geometry_def
      sst_pages_def identified_def geometry_def dest: amic_pages_bound split: option.splits if_splits)

lemma identified_spansion: "identified m (manf_id s) (spi_flashinfo_spansion buf s)"
  unfolding spi_flashinfo_spansion_def by (rule identified_set_mb) (rule mb_bounds)

definition some_identified :: "byte \<Rightarrow> byte \<Rightarrow> (int \<times> spiflash) option \<Rightarrow> bool" where
  "some_identified m i r \<longleftrightarrow> (\<forall>x. r = Some x \<longrightarrow> identified m i x)"

lemma some_identified_simps [simp]:
  "some_identified m i None" "some_identified m i (Some x) \<longleftrightarrow> identified m i x"
  by (simp_all add: some_identified_def)

lemma yields_some: "yields m (identified x i) \<Longrightarrow> yields (jbind m (\<lambda>r. jret (Some r))) (some_identified x i)"
  by (erule yields_bind) (simp add: yields_ret)

lemma yields_manf: "yields (spi_flashinfo_manf fbuf s) (some_identified (fbuf ! 0) (manf_id s))"
  unfolding spi_flashinfo_manf_def Let_def
  by (auto intro!: yields_ret yields_some identified_pure identified_spansion yields_at45 yields_m25p yields_s33 yields_issi
      simp: yields_w25 [of fbuf s, THEN yields_some])

lemma yields_flashinfo:
  "yields (spi_flashinfo s) (\<lambda>(r, s'). r = 1 \<longrightarrow> geometry (manf_id s') s' \<and>
     (\<exists>b. page_buf s' = Some b \<and> length b = pgsize s' + 16))"
  (is "yields _ ?Q")
proof -
  have *: "yields (jbind (spi_flashinfo_manf (map bitRev d @ replicate 4 0) s) (\<lambda>r. case r of
       None \<Rightarrow> jret (- 1, s)
     | Some (res, s) \<Rightarrow> let s = spi_new_buf res s in jret (if page_buf s = None then - 1 else res, s))) ?Q"
    if "manf_id s = (map bitRev d @ replicate 4 0) ! 0" for d s
    by (rule yields_bind [OF yields_manf])
      (auto simp: that Let_def spi_new_buf_def identified_def geometry_def split: option.splits intro!: yields_ret)
  show ?thesis
    unfolding spi_flashinfo_def Let_def
    by (rule yields_skip, rule yields_query, clarsimp) (rule * [unfolded Let_def], simp)
qed

section \<open>Addresses\<close>

lemma page2padd_four:
  "page2padd [0, 0, 0, 0] p n = Inr [0, of_nat (page_shift p n div 256), of_nat (page_shift p n), 0]"
  by (simp add: page2padd_def buf_set_def Let_def)

lemma address_bytes:
  "(of_nat (a div 256) :: byte) = of_nat (b div 256) \<and> (of_nat a :: byte) = of_nat b \<longleftrightarrow> a mod 65536 = b mod 65536"
proof -
  have m: "(of_nat i :: byte) = of_nat j \<longleftrightarrow> i mod 256 = j mod 256" for i j
    by (simp add: word_of_nat_eq_iff take_bit_eq_mod)
  have d: "x mod 65536 = x div 256 mod 256 * 256 + x mod 256" for x :: nat
    using mod_mult2_eq [of x 256 256] by simp
  have "A * 256 + a' = B * 256 + b' \<longleftrightarrow> A = B \<and> a' = b'" if l: "a' < 256" "b' < 256" for A a' B b' :: nat
  proof
    assume e: "A * 256 + a' = B * 256 + b'"
    have "(A * 256 + a') div 256 = A" "(B * 256 + b') div 256 = B" using l by simp_all
    with e show "A = B \<and> a' = b'" by simp
  qed simp
  then show ?thesis by (simp add: m d)
qed

lemma page_addresses_inj:
  assumes "geometry m s"
  shows "inj_on (\<lambda>p. page2padd [0, 0, 0, 0] p (pgsize s)) {..<pages s} \<longleftrightarrow> pages s \<le> 65536"
proof -
  have eq: "page2padd [0, 0, 0, 0] p (pgsize s) = page2padd [0, 0, 0, 0] q (pgsize s)
      \<longleftrightarrow> page_shift p (pgsize s) mod 65536 = page_shift q (pgsize s) mod 65536" for p q
    by (simp add: page2padd_four address_bytes)
  show ?thesis
  proof
    assume i: "inj_on (\<lambda>p. page2padd [0, 0, 0, 0] p (pgsize s)) {..<pages s}"
    show "pages s \<le> 65536"
    proof (rule ccontr)
      assume "\<not> pages s \<le> 65536"
      then have "pgsize s = 256" "65536 \<in> {..<pages s}" "0 \<in> {..<pages s}" using assms by (auto simp: geometry_def)
      moreover have "page2padd [0, 0, 0, 0] 65536 256 = page2padd [0, 0, 0, 0] 0 256"
        by (simp add: page2padd_four address_bytes page_shift_def)
      ultimately show False using i by (auto dest!: inj_onD)
    qed
  next
    assume "pages s \<le> 65536"
    with assms show "inj_on (\<lambda>p. page2padd [0, 0, 0, 0] p (pgsize s)) {..<pages s}"
      by (auto simp: inj_on_def eq geometry_def page_shift_def split: if_splits)
  qed
qed

text \<open>
  C26. A part that \<open>spi_flashinfo\<close> accepts has pages of 256, 264, 528 or 1056 bytes and a page buffer
  of that size and 16 more; the three address bytes that the operations send tell its pages apart exactly
  when there are at most 65536 of them, which fails for the largest Winbond and the Macronix part.
\<close>

theorem spi_flashinfo_geometry:
  assumes "fst (spi_flashinfo s k) = Inr (1, s')"
  shows "pgsize s' \<in> {256, 264, 528, 1056} \<and> 0 < pages s'
    \<and> (\<exists>b. page_buf s' = Some b \<and> length b = pgsize s' + 16)
    \<and> (65536 < pages s' \<longleftrightarrow> (manf_id s', pages s') \<in> {(0xef, 131072), (0xc2, 262144)})
    \<and> (inj_on (\<lambda>p. page2padd [0, 0, 0, 0] p (pgsize s')) {..<pages s'} \<longleftrightarrow> pages s' \<le> 65536)"
proof -
  obtain k' where "spi_flashinfo s k = (Inr (1, s'), k')" using assms by (cases "spi_flashinfo s k") auto
  then have g: "geometry (manf_id s') s'" and "\<exists>b. page_buf s' = Some b \<and> length b = pgsize s' + 16"
    using yields_flashinfo [of s] by (auto simp: yields_def)
  with page_addresses_inj [OF g] show ?thesis by (auto simp: geometry_def)
qed

text \<open>An AMIC part that answers every transfer with its identification.\<close>

definition amic_part :: spiflash where
  "amic_part = \<lparr>pgsize = 0, pages = 0, pages_per_sector = 0, pages_per_block = 0, sector_size = 65536, sector_erase_cmd = 0xD8,
     manf_id = 0, prod_id = 0, miso_buf = replicate 40 0, mosi_buf = replicate 40 0, page_buf = None, beyond = []\<rparr>"

definition amic_link :: jlink where
  "amic_link = \<lparr>hist = [], replies = \<lambda>_. [0, bitRev 0x30, bitRev 0x20, bitRev 0x15, 0]\<rparr>"

lemma amic_answer: "replies amic_link h = [0, bitRev 0x30, bitRev 0x20, bitRev 0x15, 0]"
  by (simp add: amic_link_def)

lemma amic_xfer:
  assumes "length (miso_buf s) = 40" "length (mosi_buf s) = 40" "\<forall>h. replies k h = replies amic_link h"
  shows "\<exists>s' k'. spi_send (stack_array [a, b, c, d, e, f, g, h] s) 4 1 s k = (Inr s', k') \<and> replies k' = replies k \<and> spi_same s s'"
    "\<exists>s' k'. spi_recv 4 1 s k = (Inr ([bitRev 0x30, bitRev 0x20, bitRev 0x15, 0], s'), k') \<and> replies k' = replies k \<and> spi_same s s'"
  using assms
  by (simp_all add: spi_send_def spi_recv_def spi_xfer_user1_def xc_user_def spi_fill_def stack_array_def spi_header_def
      buf_slice_def buf_store_def jbind_def jret_def jlift_def jshiftIR_def jdo_def jcall_def jcaptureDR_def nbytes_def
      fit_def rbind_def spi_same_def amic_answer Let_def)

lemma amic_info:
  "\<exists>s'. fst (spi_flashinfo amic_part amic_link) = Inr (1, s') \<and> pages s' = 8192"
proof -
  have "length (miso_buf amic_part) = 40" "length (mosi_buf amic_part) = 40" by (simp_all add: amic_part_def)
  note l = this
  let ?f = "[READ_IDENTIFICATION, 0, 0, 0, 0, 0, 0, 0]"
  let ?b = "stack_array ?f amic_part"
  obtain s1 k1 where 1: "spi_send ?b 4 1 amic_part amic_link = (Inr s1, k1)" "replies k1 = replies amic_link" "spi_same amic_part s1"
    using amic_xfer(1) [OF l, of amic_link] by blast
  then have l1: "length (miso_buf s1) = 40" "length (mosi_buf s1) = 40" "stack_array ?f s1 = ?b"
    using l by (auto simp: spi_same_def stack_array_def)
  then obtain s2 k2 where 2: "spi_send ?b 4 1 s1 k1 = (Inr s2, k2)" "replies k2 = replies amic_link" "spi_same s1 s2"
    using amic_xfer(1) [OF l1(1,2), of k1 READ_IDENTIFICATION 0 0 0 0 0 0 0] 1(2) by auto
  then have "length (miso_buf s2) = 40" "length (mosi_buf s2) = 40" using l1 by (auto simp: spi_same_def)
  then obtain s3 k3 where 3: "spi_recv 4 1 s2 k2 = (Inr ([bitRev 0x30, bitRev 0x20, bitRev 0x15, 0], s3), k3)"
    using amic_xfer(2) [of s2 k2] 2(2) by auto
  show ?thesis
    using 1(1) 2(1) 3
    by (simp add: spi_flashinfo_def Let_def jbind_def jret_def spi_flashinfo_manf_def spi_flashinfo_amic_def
        spi_geometry_def amic_pages_def spi_new_buf_def)
qed

lemma spi_flashinfo_geometry_witness:
  "\<exists>s'. fst (spi_flashinfo amic_part amic_link) = Inr (1, s') \<and> pages s' = 8192
    \<and> inj_on (\<lambda>p. page2padd [0, 0, 0, 0] p (pgsize s')) {..<pages s'}"
  using amic_info spi_flashinfo_geometry [of amic_part amic_link] by (auto 0 3)

end
