(* ===== verification/CScan.thy ===== *)
theory CScan
  imports CStdio
begin

text \<open>
  The conversions of \<^verbatim>\<open>sscanf\<close> that the readers of lists and arguments use beside those of
  \<^verbatim>\<open>CStdio\<close>, and that they read what \<^verbatim>\<open>printf\<close> has written. A number that does not fit its type is
  undefined in C; it is reduced here.
\<close>

section \<open>Scanning\<close>

text \<open>\<^verbatim>\<open>%d\<close> and \<^verbatim>\<open>%s\<close>; \<^verbatim>\<open>%x\<close> without a width takes as many characters as there are.\<close>

fun dec_num :: "nat \<Rightarrow> byte list \<Rightarrow> nat" where
  "dec_num acc [] = acc"
| "dec_num acc (b # bs) = dec_num (10 * acc + (unat b - 48)) bs"

definition scan_dec :: "byte list \<Rightarrow> (int \<times> byte list) option" where
  "scan_dec s0 =
     (let s = dropWhile c_isspace s0;
          neg = (s \<noteq> [] \<and> hd s = 45);
          s = (if s \<noteq> [] \<and> (hd s = 43 \<or> hd s = 45) then tl s else s);
          ds = takeWhile c_isdigit s
      in if ds = [] then None
         else Some (if neg then - int (dec_num 0 ds) else int (dec_num 0 ds), drop (length ds) s))"

definition scan_word :: "byte list \<Rightarrow> (byte list \<times> byte list) option" where
  "scan_word s0 =
     (let s = dropWhile c_isspace s0; w = takeWhile (\<lambda>b. \<not> c_isspace b) s
      in if w = [] then None else Some (w, drop (length w) s))"

definition print_int :: "nat \<Rightarrow> int \<Rightarrow> byte list" where
  "print_int w i = pad 32 w ((if i < 0 then [45] else []) @ dec_string (nat \<bar>i\<bar>))"

section \<open>Scanning what was printed\<close>

lemma hex_char:
  assumes "hex_value b = Some d"
  shows "\<not> c_isspace b" "b \<noteq> 43" "b \<noteq> 45" "c_tolower b \<noteq> 120"
proof -
  have "48 \<le> unat b \<and> unat b \<le> 57 \<or> 65 \<le> unat b \<and> unat b \<le> 70 \<or> 97 \<le> unat b \<and> unat b \<le> 102"
    using assms by (auto simp: hex_value_def word_le_nat_alt split: if_splits)
  moreover have "unat (b + 32) = unat b + 32" if "unat b \<le> 90" using that by (simp add: unat_word_ariths)
  ultimately show "\<not> c_isspace b" "b \<noteq> 43" "b \<noteq> 45" "c_tolower b \<noteq> 120"
    by (auto simp: c_isspace_def c_tolower_def word_le_nat_alt word_unat_eq_iff split: if_splits)
qed

definition hex_digits :: "byte list \<Rightarrow> bool" where
  "hex_digits ds \<longleftrightarrow> (\<forall>b \<in> set ds. \<exists>d. hex_value b = Some d)"

lemma hex_digits_simps [simp]:
  "hex_digits []" "hex_digits (b # ds) \<longleftrightarrow> (\<exists>d. hex_value b = Some d) \<and> hex_digits ds"
  "hex_digits (as @ bs) \<longleftrightarrow> hex_digits as \<and> hex_digits bs"
  by (auto simp: hex_digits_def)

lemma take_hex_digits: "hex_digits ds \<Longrightarrow> hex_value c = None \<Longrightarrow> length ds \<le> w \<Longrightarrow>
    takeWhile (\<lambda>b. hex_value b \<noteq> None) (take w (ds @ c # r)) = ds"
proof (induction ds arbitrary: w)
  case Nil
  then show ?case by (cases w) auto
next
  case (Cons b ds)
  then show ?case by (cases w) auto
qed

lemma scan_hex_digits:
  assumes "ds \<noteq> []" "hex_digits ds" "length ds \<le> w" "hex_value c = None" "c_tolower c \<noteq> 120"
  shows "scan_hex w (ds @ c # r) = Some (int (hex_num 0 ds), c # r)"
    "scan_hex (w + 2) (48 # 120 # ds @ c # r) = Some (int (hex_num 0 ds), c # r)"
proof -
  obtain b bs d where ds: "ds = b # bs" "hex_value b = Some d" using assms(1,2) by (cases ds) auto
  note b = hex_char [OF ds(2)]
  have "c_tolower ((ds @ c # r) ! 1) \<noteq> 120" using assms(2,5) ds hex_char(4) by (cases bs) auto
  then show "scan_hex w (ds @ c # r) = Some (int (hex_num 0 ds), c # r)"
    using take_hex_digits [OF assms(2,4,3), of r] b ds by (simp add: scan_hex_def Let_def)
  have "\<not> c_isspace 48" "c_tolower 120 = 120" by (simp_all add: c_isspace_def c_tolower_def)
  then show "scan_hex (w + 2) (48 # 120 # ds @ c # r) = Some (int (hex_num 0 ds), c # r)"
    using take_hex_digits [OF assms(2,4,3), of r] assms(1) by (simp add: scan_hex_def Let_def)
qed

lemma scan_space:
  "scan_hex w (32 # s) = scan_hex w s" "scan_dec (32 # s) = scan_dec s" "scan_word (32 # s) = scan_word s"
  by (simp_all add: scan_hex_def scan_dec_def scan_word_def c_isspace_def)

lemma hex_num_snoc: "hex_digits ds \<Longrightarrow> hex_value b = Some d \<Longrightarrow> hex_num acc (ds @ [b]) = 16 * hex_num acc ds + d"
  by (induction ds arbitrary: acc) (auto simp: hex_digits_def split: option.splits)

lemma hex_string_digits: "hex_digits (hex_string u n) \<and> hex_string u n \<noteq> [] \<and> hex_num 0 (hex_string u n) = n"
proof (induction u n rule: hex_string.induct)
  case (1 u n)
  show ?case
  proof (cases "n < 16")
    case True
    then show ?thesis by (subst (1 2 3) hex_string.simps) simp
  next
    case False
    then have "hex_value (hex_digit u (n mod 16)) = Some (n mod 16)" by simp
    with 1 False show ?thesis by (subst (1 2 3) hex_string.simps) (simp add: hex_num_snoc)
  qed
qed

lemma hex_digits_pad: "hex_digits ds \<Longrightarrow> hex_digits (pad 48 w ds) \<and> hex_num 0 (pad 48 w ds) = hex_num 0 ds"
proof -
  have z: "hex_value 48 = Some 0" by (simp add: hex_value_def)
  then have "hex_num 0 (replicate k 48 @ ds) = hex_num 0 ds" for k by (induction k) simp_all
  with z show "hex_digits ds \<Longrightarrow> ?thesis" by (auto simp: pad_def hex_digits_def)
qed

lemma hex_string_length: "n < 16 ^ k \<Longrightarrow> 0 < k \<Longrightarrow> length (hex_string u n) \<le> k"
proof (induction k arbitrary: n)
  case (Suc k)
  show ?case
  proof (cases "n < 16")
    case True
    then show ?thesis by (subst hex_string.simps) simp
  next
    case False
    then have "n div 16 < 16 ^ k" "0 < k" using Suc.prems by (auto simp: div_less_iff_less_mult mult.commute intro!: gr0I)
    with Suc.IH False show ?thesis by (subst hex_string.simps) simp
  qed
qed simp

lemma print_hex_digits:
  assumes "n < 16 ^ k" "0 < k" "w \<le> k"
  shows "print_hex u w n \<noteq> []" "hex_digits (print_hex u w n)" "length (print_hex u w n) \<le> k" "hex_num 0 (print_hex u w n) = n"
  using assms hex_string_digits [of u n] hex_digits_pad [of "hex_string u n" w] hex_string_length [of n k u]
  by (auto simp: print_hex_def pad_def)

section \<open>Lines\<close>

lemma fgets_shorter: "fgets 256 bs = Some (l, r) \<Longrightarrow> length r < length bs"
  using fgets_take_progress [of 255 bs] by (auto simp: fgets_def split: if_splits)

section \<open>Decimal numbers\<close>

lemma digit_value: "d < 10 \<Longrightarrow> unat (of_nat (48 + d) :: byte) - 48 = d"
  by (simp only: unat_of_nat) simp

lemma dec_num_snoc: "dec_num acc (ds @ [b]) = 10 * dec_num acc ds + (unat b - 48)"
  by (induction ds arbitrary: acc) simp_all

lemma dec_string_value: "dec_num 0 (dec_string n) = n \<and> dec_string n \<noteq> []"
proof (induction n rule: dec_string.induct)
  case (1 n)
  show ?case
  proof (cases "n < 10")
    case True
    then show ?thesis using digit_value [of n] by (subst (1 2) dec_string.simps) simp
  next
    case False
    with 1 digit_value [of "n mod 10"] show ?thesis by (subst (1 2) dec_string.simps) (simp add: dec_num_snoc)
  qed
qed

lemma dec_string_length: "n < 10 ^ k \<Longrightarrow> 0 < k \<Longrightarrow> length (dec_string n) \<le> k"
proof (induction k arbitrary: n)
  case (Suc k)
  show ?case
  proof (cases "n < 10")
    case True
    then show ?thesis by (subst dec_string.simps) simp
  next
    case False
    then have "n div 10 < 10 ^ k" "0 < k" using Suc.prems by (auto simp: div_less_iff_less_mult mult.commute intro!: gr0I)
    with Suc.IH False show ?thesis by (subst dec_string.simps) simp
  qed
qed simp

lemma c_digits: "c_isdigit c \<Longrightarrow> \<not> c_isspace c \<and> c \<noteq> 43 \<and> c \<noteq> 45"
  by (auto simp: c_isdigit_def c_isspace_def word_le_nat_alt word_unat_eq_iff)

lemma dec_string_chars: "\<forall>b \<in> set (dec_string n). c_isdigit b"
  using dec_string_digits [of n] by (simp add: list_all_iff)

lemma dropWhile_spaces: "dropWhile c_isspace (replicate k 32 @ s) = dropWhile c_isspace s"
  by (induction k) (simp_all add: c_isspace_def)

lemma takeWhile_all: "\<forall>b \<in> set s. P b \<Longrightarrow> \<not> P c \<Longrightarrow> takeWhile P (s @ c # r) = s"
  by (induction s) auto

lemma scan_dec_rest:
  assumes "r = [] \<or> \<not> c_isdigit (hd r)"
  shows "scan_dec (print_int w i @ r) = Some (i, r)"
proof -
  let ?d = "dec_string (nat \<bar>i\<bar>)"
  obtain b bs where d: "?d = b # bs" using dec_string_value [of "nat \<bar>i\<bar>"] by (cases ?d) auto
  have b: "c_isdigit b" "\<not> c_isspace b" "b \<noteq> 43" "b \<noteq> 45"
    using dec_string_chars [of "nat \<bar>i\<bar>"] c_digits unfolding d by auto
  have t: "takeWhile c_isdigit (?d @ r) = ?d"
    using assms dec_string_chars [of "nat \<bar>i\<bar>"] by (cases r) (auto simp: takeWhile_all takeWhile_eq_all_conv)
  have m: "\<not> c_isspace 45" by (simp add: c_isspace_def)
  show ?thesis
    using dec_string_value [of "nat \<bar>i\<bar>"] t b m
    by (auto simp: scan_dec_def print_int_def pad_def Let_def dropWhile_spaces d)
qed

lemma scan_dec_print: "\<not> c_isdigit c \<Longrightarrow> scan_dec (print_int w i @ c # r) = Some (i, c # r)"
  by (rule scan_dec_rest) simp

lemma scan_dec_end: "scan_dec (print_int w i) = Some (i, [])"
  using scan_dec_rest [of "[]" w i] by simp

lemma scan_word_print:
  assumes "t \<noteq> []" "\<forall>b \<in> set t. \<not> c_isspace b" "c_isspace c"
  shows "scan_word (t @ c # r) = Some (t, c # r)"
proof -
  have "takeWhile (\<lambda>b. \<not> c_isspace b) (t @ c # r) = t" using assms by (intro takeWhile_all) auto
  moreover have "dropWhile c_isspace (t @ c # r) = t @ c # r" using assms by (cases t) auto
  ultimately show ?thesis using assms(1) by (simp add: scan_word_def Let_def)
qed

end
