(* ===== verification/DeviceDB.thy ===== *)
theory DeviceDB
  imports CScan
begin

text \<open>
  \<^verbatim>\<open>devicedb.cpp\<close>: the database of devices, read from a list of lines, with a cache of the devices
  that have been looked up. The built-in list is generated by the build and a parameter here.
\<close>

section \<open>The database\<close>

record device_t =
  idcode :: u32
  irlen :: int
  id_cmd :: u32
  dtext :: "byte list"

text \<open>\<open>dev_used\<close> holds pointers into \<open>dev_db\<close>, here indices.\<close>

record devicedb =
  dev_db :: "device_t list"
  dev_used :: "nat list"
  filename :: "byte list"

definition idcode_mask :: u32 where
  "idcode_mask = 0x0fffffff"

text \<open>The four conversions of the format \<^verbatim>\<open>"%08x %d %x %s"\<close>; \<open>None\<close> when fewer match.\<close>

definition scan_device :: "byte list \<Rightarrow> device_t option" where
  "scan_device s =
     Option.bind (scan_hex 8 s) (\<lambda>(i, s).
     Option.bind (scan_dec s) (\<lambda>(l, s).
     Option.bind (scan_hex (length s) s) (\<lambda>(c, s).
     Option.bind (scan_word s) (\<lambda>(t, s).
       Some \<lparr>idcode = word_of_int i AND idcode_mask, irlen = sint (word_of_int l :: u32), id_cmd = word_of_int c, dtext = t\<rparr>))))"

text \<open>The line is the string in the buffer, up to its NUL; the result is the function's and the database.\<close>

definition parseLine :: "byte list \<Rightarrow> devicedb \<Rightarrow> int \<times> devicedb" where
  "parseLine line db =
     (let s = takeWhile (\<lambda>b. b \<noteq> 0) line
      in if s \<noteq> [] \<and> hd s = 35 then (0, db)
         else if list_all c_isspace s then (0, db)
         else case scan_device s of
                None \<Rightarrow> (- 1, db)
              | Some d \<Rightarrow> (0, db\<lparr>dev_db := dev_db db @ [d]\<rparr>))"

text \<open>The constructor for a file that could be opened: lines that do not parse are reported and skipped.\<close>

lemma builtin_shorter:
  assumes "p \<noteq> []" "line = take 255 (takeWhile (\<lambda>b. b \<noteq> 59) p)" "q = drop (length line) p"
  shows "length (if q \<noteq> [] \<and> hd q = 59 then tl q else q) < length p"
  using assms by (cases p) (auto simp: Let_def)

function read_devices :: "byte list \<Rightarrow> devicedb \<Rightarrow> devicedb" where
  "read_devices bs db =
     (case fgets 256 bs of
        None \<Rightarrow> db
      | Some (line, rest) \<Rightarrow> read_devices rest (snd (parseLine line db)))"
  by pat_completeness auto
termination
  by (relation "measure (\<lambda>(bs, _). length bs)") (auto dest: fgets_shorter)

declare read_devices.simps [simp del]

text \<open>The built-in list: lines end at a semicolon, and only 255 characters of a line are taken.\<close>

function builtin_devices :: "byte list \<Rightarrow> devicedb \<Rightarrow> devicedb" where
  "builtin_devices p db =
     (if p = [] then db
      else let line = take 255 (takeWhile (\<lambda>b. b \<noteq> 59) p); p = drop (length line) p
           in builtin_devices (if p \<noteq> [] \<and> hd p = 59 then tl p else p) (snd (parseLine line db)))"
  by pat_completeness auto
termination
  by (relation "measure (\<lambda>(p, _). length p)") (simp, simp only: in_measure split, rule builtin_shorter [OF _ refl refl])

declare builtin_devices.simps [simp del]

definition empty_devices :: "byte list \<Rightarrow> devicedb" where
  "empty_devices f = \<lparr>dev_db = [], dev_used = [], filename = f\<rparr>"

text \<open>
  The constructor: the name is the argument, the environment's or the default one, and \<open>fs\<close> the
  files that can be opened.
\<close>

definition devicedb_new :: "(byte list \<Rightarrow> byte list option) \<Rightarrow> byte list option \<Rightarrow> byte list \<Rightarrow> byte list option \<Rightarrow> devicedb" where
  "devicedb_new fs env fb_string fname =
     (let name = (case fname of Some f \<Rightarrow> f | None \<Rightarrow> (case env of Some f \<Rightarrow> f | None \<Rightarrow> ascii ''devlist.txt''))
      in case fs name of
           Some bs \<Rightarrow> read_devices bs (empty_devices name)
         | None \<Rightarrow> builtin_devices (takeWhile (\<lambda>b. b \<noteq> 0) fb_string) (empty_devices (ascii ''built-in device list'')))"

section \<open>Looking up\<close>

definition findDevice :: "u32 \<Rightarrow> devicedb \<Rightarrow> device_t option \<times> devicedb" where
  "findDevice i db =
     (let hit = (\<lambda>d. i AND idcode_mask = idcode d)
      in case find (\<lambda>k. hit (dev_db db ! k)) (dev_used db) of
           Some k \<Rightarrow> (Some (dev_db db ! k), db)
         | None \<Rightarrow>
             (case find (\<lambda>k. hit (dev_db db ! k)) [0..<length (dev_db db)] of
                Some k \<Rightarrow> (Some (dev_db db ! k), db\<lparr>dev_used := dev_used db @ [k]\<rparr>)
              | None \<Rightarrow> (None, db)))"

definition idToIRLength :: "u32 \<Rightarrow> devicedb \<Rightarrow> int \<times> devicedb" where
  "idToIRLength i db = (case findDevice i db of (d, db) \<Rightarrow> (case d of Some d \<Rightarrow> irlen d | None \<Rightarrow> 0, db))"

definition idToIDCmd :: "u32 \<Rightarrow> devicedb \<Rightarrow> u32 \<times> devicedb" where
  "idToIDCmd i db = (case findDevice i db of (d, db) \<Rightarrow> (case d of Some d \<Rightarrow> id_cmd d | None \<Rightarrow> 0, db))"

definition idToDescription :: "u32 \<Rightarrow> devicedb \<Rightarrow> byte list option \<times> devicedb" where
  "idToDescription i db = (case findDevice i db of (d, db) \<Rightarrow> (map_option dtext d, db))"

definition dump_device :: "device_t \<Rightarrow> byte list" where
  "dump_device d =
     print_hex False 8 (unat (idcode d)) @ [32] @ print_int 6 (irlen d) @ [32] @ ascii ''0x'' @
     print_hex False 4 (unat (id_cmd d)) @ [32] @ takeWhile (\<lambda>b. b \<noteq> 0) (dtext d) @ [10]"

definition dumpDevices :: "devicedb \<Rightarrow> byte list" where
  "dumpDevices db = concat (map dump_device (dev_db db))"

text \<open>The list that the option to dump writes: a comment and the devices.\<close>

definition devlist_txt :: "devicedb \<Rightarrow> byte list" where
  "devlist_txt db = ascii ''# IDCODE IR_len ID_Cmd Text'' @ [10] @ dumpDevices db"

end
