(* ===== verification/DeviceDBProps.thy ===== *)
theory DeviceDBProps
  imports DeviceDB
begin

text \<open>
  The database of devices: what is dumped is read back, and the cache of a lookup does not show.
\<close>

section \<open>Reading a dumped list\<close>

definition device_ok :: "device_t \<Rightarrow> bool" where
  "device_ok d \<longleftrightarrow> idcode d AND idcode_mask = idcode d \<and> - (2 ^ 31) \<le> irlen d \<and> irlen d < 2 ^ 31 \<and>
     dtext d \<noteq> [] \<and> (\<forall>b \<in> set (dtext d). \<not> c_isspace b \<and> b \<noteq> 0)"

lemma unat_u32: "unat w < 16 ^ 8" for w :: u32
  using unsigned_less [of w] by simp

lemma scan_dumped:
  assumes "device_ok d"
  shows "scan_device (dump_device d) = Some d"
proof -
  note t = assms [unfolded device_ok_def]
  have nul: "takeWhile (\<lambda>b. b \<noteq> 0) (dtext d) = dtext d" using t by (simp add: takeWhile_eq_all_conv)
  note i = print_hex_digits [OF unat_u32 [of "idcode d"], of 8 False, simplified]
  note c = print_hex_digits [OF unat_u32 [of "id_cmd d"], of 4 False, simplified]
  have sp: "hex_value 32 = None" "c_tolower 32 \<noteq> 120" "\<not> c_isdigit 32" "c_isspace 10"
    by (simp_all add: hex_value_def c_tolower_def c_isdigit_def c_isspace_def)
  have o: "ascii ''0x'' = [48, 120]" by (simp add: ascii_def)
  have x: "scan_hex w (48 # 120 # print_hex False 4 (unat (id_cmd d)) @ 32 # s) = Some (int (unat (id_cmd d)), 32 # s)"
    if "length (print_hex False 4 (unat (id_cmd d))) + 2 \<le> w" for w s
  proof -
    define v where "v = w - 2"
    then have v: "w = v + 2" using that by simp
    then show ?thesis using scan_hex_digits(2) [OF c(1,2) _ sp(1,2), of v s] c(4) that by simp
  qed
  have "sint (word_of_int (irlen d) :: u32) = irlen d"
    using t by (simp add: sint_sbintrunc' signed_take_bit_int_eq_self)
  then show ?thesis
    using scan_hex_digits(1) [OF i(1-3) sp(1,2)] scan_dec_print [OF sp(3), of 6 "irlen d"] x
      scan_word_print [OF _ _ sp(4), of "dtext d" "[]"] t i(4)
    by (simp add: scan_device_def dump_device_def scan_space o nul)
qed

lemma dump_line:
  assumes "device_ok d" "length (dtext d) \<le> 222"
  obtains l where "dump_device d = l @ [10]" "10 \<notin> set l" "0 \<notin> set l" "length l < 255" "l \<noteq> []" "hd l \<noteq> 35"
    "\<not> list_all c_isspace (dump_device d)"
proof -
  note t = assms(1) [unfolded device_ok_def]
  have nul: "takeWhile (\<lambda>b. b \<noteq> 0) (dtext d) = dtext d" using t by (simp add: takeWhile_eq_all_conv)
  note i = print_hex_digits [OF unat_u32 [of "idcode d"], of 8 False, simplified]
  note c = print_hex_digits [OF unat_u32 [of "id_cmd d"], of 4 False, simplified]
  have h: "b \<noteq> 10 \<and> b \<noteq> 0 \<and> b \<noteq> 35 \<and> \<not> c_isspace b" if "hex_digits ds" "b \<in> set ds" for b ds
    using that hex_char by (auto simp: hex_digits_def hex_value_def c_isspace_def)
  have n: "b \<noteq> 10 \<and> b \<noteq> 0" if "b \<in> set (print_int 6 (irlen d))" for b
    using that dec_string_chars [of "nat \<bar>irlen d\<bar>"]
    by (auto simp: print_int_def pad_def c_isdigit_def split: if_splits)
  have len: "length (print_int 6 (irlen d)) \<le> 11"
  proof -
    have "\<bar>irlen d\<bar> \<le> 2 ^ 31" using t by (simp add: abs_le_iff)
    then have "nat \<bar>irlen d\<bar> < 10 ^ 10" by simp
    then have "length (dec_string (nat \<bar>irlen d\<bar>)) \<le> 10" by (rule dec_string_length) simp
    then show ?thesis by (cases "irlen d < 0") (simp_all add: print_int_def pad_def)
  qed
  let ?l = "print_hex False 8 (unat (idcode d)) @ [32] @ print_int 6 (irlen d) @ [32] @ ascii ''0x'' @
     print_hex False 4 (unat (id_cmd d)) @ [32] @ dtext d"
  have "10 \<notin> set ?l" "0 \<notin> set ?l" using t h i(2) c(2) n by (auto simp: ascii_def c_isspace_def)
  moreover have "length ?l < 255" using i(3) c(3) len assms(2) by (simp add: ascii_def)
  moreover have "hd ?l \<noteq> 35" "?l \<noteq> []" using i(1,2) h by (cases "print_hex False 8 (unat (idcode d))"; auto)+
  moreover have "dump_device d = ?l @ [10]" by (simp add: dump_device_def nul)
  moreover obtain b bs where "print_hex False 8 (unat (idcode d)) = b # bs" using i(1) by (meson neq_Nil_conv)
  then have "\<not> list_all c_isspace (dump_device d)" using h [OF i(2), of b] by (auto simp: dump_device_def)
  ultimately show thesis using that by blast
qed

lemma read_dumped:
  assumes "\<forall>d \<in> set ds. device_ok d \<and> length (dtext d) \<le> 222"
  shows "dev_db (read_devices (concat (map dump_device ds)) db) = dev_db db @ ds"
  using assms
proof (induction ds arbitrary: db)
  case Nil
  then show ?case by (simp add: read_devices.simps fgets_def)
next
  case (Cons d ds)
  obtain l where l: "dump_device d = l @ [10]" "10 \<notin> set l" "0 \<notin> set l" "length l < 255" "l \<noteq> []" "hd l \<noteq> 35"
    "\<not> list_all c_isspace (dump_device d)"
    using Cons.prems by (auto elim: dump_line)
  have "takeWhile (\<lambda>b. b \<noteq> 0) (l @ [10]) = l @ [10]" using l(3) by (auto simp: takeWhile_eq_all_conv)
  then have p: "parseLine (l @ [10]) db = (0, db\<lparr>dev_db := dev_db db @ [d]\<rparr>)"
    using scan_dumped [of d] Cons.prems l(1,5-7) by (auto simp: parseLine_def Let_def)
  have "fgets 256 (l @ 10 # r) = Some (l @ [10], r)" for r
    using fgets_line [OF l(2,4)] by (simp add: fgets_def)
  then have "read_devices (concat (map dump_device (d # ds))) db =
      read_devices (concat (map dump_device ds)) (snd (parseLine (l @ [10]) db))"
    by (subst read_devices.simps) (simp add: l(1))
  with p Cons show ?case by simp
qed

lemma in_set_tl: "x \<in> set (tl xs) \<Longrightarrow> x \<in> set xs"
  by (cases xs) auto

lemma parsed_ok:
  assumes "\<forall>d \<in> set (dev_db db). device_ok d"
  shows "\<forall>d \<in> set (dev_db (snd (parseLine line db))). device_ok d"
proof (cases "scan_device (takeWhile (\<lambda>b. b \<noteq> 0) line)")
  case (Some d)
  then obtain i s1 l s2 c s3 t s4 where s: "scan_hex 8 (takeWhile (\<lambda>b. b \<noteq> 0) line) = Some (i, s1)" "scan_dec s1 = Some (l, s2)"
    "scan_hex (length s2) s2 = Some (c, s3)" "scan_word s3 = Some (t, s4)" and
    d: "d = \<lparr>idcode = word_of_int i AND idcode_mask, irlen = sint (word_of_int l :: u32), id_cmd = word_of_int c, dtext = t\<rparr>"
    by (auto simp: scan_device_def Option.bind_eq_Some_conv)
  have hexs: "set s' \<subseteq> set s" if "scan_hex w s = Some (x, s')" for w s x s'
    using that by (auto simp: scan_hex_def Let_def split: if_splits dest!: in_set_dropD in_set_tl set_dropWhileD)
  have decs: "set s' \<subseteq> set s" if "scan_dec s = Some (x, s')" for s x s'
    using that by (auto simp: scan_dec_def Let_def split: if_splits dest!: in_set_dropD in_set_tl set_dropWhileD)
  have "set t \<subseteq> set s3" "\<forall>b \<in> set t. \<not> c_isspace b" "t \<noteq> []"
    using s(4) by (auto simp: scan_word_def Let_def split: if_splits dest!: set_takeWhileD set_dropWhileD)
  moreover have "0 \<notin> set s3" using hexs [OF s(1)] decs [OF s(2)] hexs [OF s(3)] by (auto dest: set_takeWhileD)
  ultimately have "device_ok d"
    using sint_ge [of "word_of_int l :: u32"] sint_lt [of "word_of_int l :: u32"]
    by (auto simp: device_ok_def d and.assoc)
  with assms Some show ?thesis by (auto simp: parseLine_def Let_def)
qed (use assms in \<open>auto simp: parseLine_def Let_def\<close>)

lemma read_ok: "\<forall>d \<in> set (dev_db db). device_ok d \<Longrightarrow> \<forall>d \<in> set (dev_db (read_devices bs db)). device_ok d"
proof (induction bs db rule: read_devices.induct)
  case (1 bs db)
  then show ?case
    using parsed_ok [OF 1(2)] by (subst read_devices.simps) (auto split: option.splits prod.splits)
qed

lemma read_devlist:
  assumes ok: "\<forall>d \<in> set (dev_db db). device_ok d \<and> length (dtext d) \<le> 222"
  shows "dev_db (read_devices (devlist_txt db) (empty_devices g)) = dev_db db"
proof -
  let ?h = "ascii ''# IDCODE IR_len ID_Cmd Text''"
  have "10 \<notin> set ?h \<and> length ?h < 255 \<and> hd ?h = 35 \<and> 0 \<notin> set ?h" by code_simp
  then have h: "fgets_take 255 (?h @ 10 # r) = (?h @ [10], r)" "hd (?h @ [10]) = 35"
    "takeWhile (\<lambda>b. b \<noteq> 0) (?h @ [10]) = ?h @ [10]" for r
    using fgets_line [of ?h 255 r] by (auto simp: takeWhile_eq_all_conv hd_append ascii_def)
  have "read_devices (devlist_txt db) (empty_devices g) = read_devices (concat (map dump_device (dev_db db))) (empty_devices g)"
    using h by (subst read_devices.simps) (simp add: devlist_txt_def fgets_def dumpDevices_def parseLine_def Let_def)
  with read_dumped [OF ok] show ?thesis by (simp add: empty_devices_def)
qed

text \<open>
  C28. A list of devices that is read from a file, dumped and read again gives the same devices, as long
  as no description has more than 222 characters.
\<close>

theorem devlist_roundtrip:
  assumes "\<forall>d \<in> set (dev_db (read_devices bs (empty_devices f))). length (dtext d) \<le> 222"
  shows "dev_db (read_devices (devlist_txt (read_devices bs (empty_devices f))) (empty_devices g)) =
    dev_db (read_devices bs (empty_devices f))"
  using read_ok [of "empty_devices f" bs] assms by (intro read_devlist) (simp add: empty_devices_def)

definition example_devices :: devicedb where
  "example_devices = (empty_devices [])\<lparr>dev_db :=
     [\<lparr>idcode = 0x1c22093, irlen = 6, id_cmd = 9, dtext = ascii ''XC3S500E''\<rparr>,
      \<lparr>idcode = 0xa001093, irlen = 8, id_cmd = 0xfe, dtext = ascii ''XC9536XL''\<rparr>]\<rparr>"

lemma example_devices_ok: "\<forall>d \<in> set (dev_db example_devices). device_ok d \<and> length (dtext d) \<le> 222"
  by (simp add: example_devices_def device_ok_def idcode_mask_def ascii_def c_isspace_def)

lemma devlist_roundtrip_witness:
  "dev_db (read_devices (devlist_txt (read_devices (devlist_txt example_devices) (empty_devices []))) (empty_devices [])) =
     dev_db example_devices"
  using devlist_roundtrip [of "devlist_txt example_devices" "[]" "[]"] read_devlist [OF example_devices_ok, of "[]"]
    example_devices_ok by simp

section \<open>The cache\<close>

text \<open>The cache holds first occurrences.\<close>

definition cache_ok :: "devicedb \<Rightarrow> bool" where
  "cache_ok db \<longleftrightarrow> (\<forall>k \<in> set (dev_used db). k < length (dev_db db) \<and>
     (\<forall>j < k. idcode (dev_db db ! j) \<noteq> idcode (dev_db db ! k)))"

lemma find_upt: "find (\<lambda>k. P (xs ! k)) [0..<length xs] = Some k \<longleftrightarrow> k < length xs \<and> P (xs ! k) \<and> (\<forall>j < k. \<not> P (xs ! j))"
  by (auto simp: find_Some_iff nth_append)

lemma first_match: "k < length xs \<Longrightarrow> P (xs ! k) \<Longrightarrow> \<forall>j < k. \<not> P (xs ! j) \<Longrightarrow> find P xs = Some (xs ! k)"
  by (auto simp: find_Some_iff)

lemma findDevice_first:
  assumes "cache_ok db"
  shows "fst (findDevice i db) = find (\<lambda>d. i AND idcode_mask = idcode d) (dev_db db)"
    "cache_ok (snd (findDevice i db))" "dev_db (snd (findDevice i db)) = dev_db db"
proof -
  let ?P = "\<lambda>d. i AND idcode_mask = idcode d"
  have "fst (findDevice i db) = find ?P (dev_db db) \<and> cache_ok (snd (findDevice i db)) \<and> dev_db (snd (findDevice i db)) = dev_db db"
  proof (cases "find (\<lambda>k. ?P (dev_db db ! k)) (dev_used db)")
    case (Some k)
    then have k: "k \<in> set (dev_used db)" "?P (dev_db db ! k)" by (auto simp: find_Some_iff)
    then have "find ?P (dev_db db) = Some (dev_db db ! k)" using assms by (intro first_match) (auto simp: cache_ok_def, metis)
    with Some assms show ?thesis by (simp add: findDevice_def)
  next
    case None
    show ?thesis
    proof (cases "find (\<lambda>k. ?P (dev_db db ! k)) [0..<length (dev_db db)]")
      case (Some k)
      then have k: "k < length (dev_db db)" "?P (dev_db db ! k)" "\<forall>j < k. \<not> ?P (dev_db db ! j)"
        using find_upt [of ?P "dev_db db" k] by auto
      then have "find ?P (dev_db db) = Some (dev_db db ! k)" by (rule first_match)
      with None Some k assms show ?thesis by (auto simp: findDevice_def cache_ok_def)
    next
      case none: None
      then have "find ?P (dev_db db) = None" by (auto simp: find_None_iff in_set_conv_nth)
      with None none assms show ?thesis by (simp add: findDevice_def)
    qed
  qed
  then show "fst (findDevice i db) = find ?P (dev_db db)" "cache_ok (snd (findDevice i db))"
    "dev_db (snd (findDevice i db)) = dev_db db" by auto
qed

definition looked_up :: "u32 list \<Rightarrow> devicedb \<Rightarrow> devicedb" where
  "looked_up is db = fold (\<lambda>i db. snd (findDevice i db)) is db"

lemma looked_up_ok: "cache_ok db \<Longrightarrow> cache_ok (looked_up is db) \<and> dev_db (looked_up is db) = dev_db db"
  by (induction "is" arbitrary: db) (simp_all add: looked_up_def findDevice_first)

lemma read_used: "dev_used (read_devices bs db) = dev_used db" "dev_used (builtin_devices bs db) = dev_used db"
proof -
  have p: "dev_used (snd (parseLine l db)) = dev_used db" for l db
    by (simp add: parseLine_def Let_def split: option.split)
  show "dev_used (read_devices bs db) = dev_used db"
  proof (induction bs db rule: read_devices.induct)
    case (1 bs db)
    then show ?case by (subst read_devices.simps) (auto simp: p split: option.split prod.split)
  qed
  show "dev_used (builtin_devices bs db) = dev_used db"
  proof (induction bs db rule: builtin_devices.induct)
    case (1 bs db)
    then show ?case by (subst builtin_devices.simps) (simp add: p Let_def)
  qed
qed

text \<open>
  C27. Whatever list the database is made of and whatever was looked up before, a lookup finds the
  first device with the identification of the request without its revision.
\<close>

theorem findDevice_exact:
  "fst (findDevice i (looked_up is (devicedb_new fs env builtin fname))) =
     find (\<lambda>d. i AND idcode_mask = idcode d) (dev_db (devicedb_new fs env builtin fname))"
proof -
  have "dev_used (devicedb_new fs env builtin fname) = []"
    by (simp add: devicedb_new_def empty_devices_def read_used Let_def split: option.split)
  then have "cache_ok (devicedb_new fs env builtin fname)" by (simp add: cache_ok_def)
  from looked_up_ok [OF this, of "is"] show ?thesis by (simp add: findDevice_first)
qed

end
