(* ===== verification/CableDB.thy ===== *)
theory CableDB
  imports CScan
begin

text \<open>
  \<^verbatim>\<open>cabledb.cpp\<close>: the list of cables, read from a file or from the built-in list, which is generated by
  the build and a parameter here; the choice of a driver in \<^verbatim>\<open>utilities.cpp\<close>.
\<close>

section \<open>Cables\<close>

datatype CABLES_TYPES =
  CABLE_NONE | CABLE_UNKNOWN | CABLE_PP | CABLE_FTDI | CABLE_FX2 | CABLE_XPC | CABLE_GPIOD_CREATOR | CABLE_GPIOD_VOICE

record cable_t =
  calias :: "byte list"
  cabletype :: CABLES_TYPES
  optstring :: "byte list"
  cfreq :: u32

record cabledb =
  cable_db :: "cable_t list"
  cablename :: "byte list"

definition getCableType :: "byte list \<Rightarrow> CABLES_TYPES" where
  "getCableType n =
     (if strcasecmp_eq n (ascii ''pp'') then CABLE_PP
      else if strcasecmp_eq n (ascii ''ftdi'') then CABLE_FTDI
      else if strcasecmp_eq n (ascii ''fx2'') then CABLE_FX2
      else if strcasecmp_eq n (ascii ''xpc'') then CABLE_XPC
      else if strcasecmp_eq n (ascii ''gpiod_creator'') then CABLE_GPIOD_CREATOR
      else if strcasecmp_eq n (ascii ''gpiod_voice'') then CABLE_GPIOD_VOICE
      else CABLE_UNKNOWN)"

fun getCableName :: "CABLES_TYPES \<Rightarrow> byte list" where
  "getCableName CABLE_PP = ascii ''pp''"
| "getCableName CABLE_FTDI = ascii ''ftdi''"
| "getCableName CABLE_FX2 = ascii ''fx2''"
| "getCableName CABLE_XPC = ascii ''xpc''"
| "getCableName CABLE_GPIOD_CREATOR = ascii ''gpiod_creator''"
| "getCableName CABLE_GPIOD_VOICE = ascii ''gpiod_voice''"
| "getCableName CABLE_NONE = ascii ''none''"
| "getCableName CABLE_UNKNOWN = ascii ''unknown''"

section \<open>Reading a list\<close>

text \<open>White space at the end of the buffer is cut.\<close>

definition trim_end :: "byte list \<Rightarrow> byte list" where
  "trim_end s = rev (dropWhile c_isspace (rev s))"

text \<open>
  \<^verbatim>\<open>%64s\<close> into an array of 64 characters: a word of 64 or more overruns it by its NUL.
  The result \<open>None\<close> is a conversion that fails.
\<close>

definition scan_word64 :: "byte list \<Rightarrow> (byte list \<times> byte list) option res" where
  "scan_word64 s0 =
     (let s = dropWhile c_isspace s0; w = take 64 (takeWhile (\<lambda>b. \<not> c_isspace b) s)
      in if w = [] then Inr None else if length w = 64 then Inl (OutOfBounds 64) else Inr (Some (w, drop (length w) s)))"

text \<open>\<^verbatim>\<open>%255[^;]\<close> after white space.\<close>

definition scan_options :: "byte list \<Rightarrow> byte list option" where
  "scan_options s0 =
     (let s = takeWhile (\<lambda>b. b \<noteq> 59) (take 255 (dropWhile c_isspace s0)) in if s = [] then None else Some s)"

definition obind :: "'a option res \<Rightarrow> ('a \<Rightarrow> 'b option res) \<Rightarrow> 'b option res" where
  "obind m f = rbind m (\<lambda>r. case r of None \<Rightarrow> Inr None | Some x \<Rightarrow> f x)"

lemma obind_simps [simp]: "obind (Inl e) f = Inl e" "obind (Inr None) f = Inr None" "obind (Inr (Some x)) f = f x"
  by (simp_all add: obind_def)

definition c_atoi :: "byte list \<Rightarrow> int" where
  "c_atoi s = (case scan_dec s of None \<Rightarrow> 0 | Some (i, _) \<Rightarrow> i)"

definition make_cable :: "byte list \<Rightarrow> byte list \<Rightarrow> int \<Rightarrow> byte list \<Rightarrow> cable_t" where
  "make_cable a t f opt = \<lparr>calias = a, cabletype = getCableType t, optstring = opt, cfreq = word_of_int f\<rparr>"

text \<open>A line of a file; the flag says that the frequency is not one and ends the reading.\<close>

definition file_cable :: "byte list \<Rightarrow> (bool \<times> cable_t) option res" where
  "file_cable s =
     obind (scan_word64 s) (\<lambda>(a, s).
     obind (scan_word64 s) (\<lambda>(t, s).
     obind (scan_word64 s) (\<lambda>(f, s).
     obind (Inr (scan_options s)) (\<lambda>opt. Inr (Some (58 \<in> set f, make_cable a t (c_atoi f) opt))))))"

text \<open>
  The loop \<^verbatim>\<open>while(!feof(fp))\<close>. When \<^verbatim>\<open>fgets\<close> finds nothing the buffer keeps the line before it, so a
  file that ends with a newline has its last line twice; at first the buffer is not initialised.
\<close>

definition at_eof :: "byte list \<Rightarrow> byte list \<Rightarrow> bool" where
  "at_eof l r \<longleftrightarrow> r = [] \<and> (l = [] \<or> last l \<noteq> 10) \<and> length l < 255"

definition cable_line :: "byte list \<Rightarrow> cabledb \<Rightarrow> (bool \<times> cabledb) res" where
  "cable_line s db =
     (if s \<noteq> [] \<and> hd s = 35 then Inr (False, db)
      else rbind (file_cable s) (\<lambda>r. case r of
             None \<Rightarrow> Inr (False, db)
           | Some (stop, c) \<Rightarrow> Inr (stop, if stop then db else db\<lparr>cable_db := cable_db db @ [c]\<rparr>)))"

function read_cables :: "byte list \<Rightarrow> byte list option \<Rightarrow> cabledb \<Rightarrow> cabledb res" where
  "read_cables bs old db =
     (case fgets 256 bs of
        None \<Rightarrow> (case old of None \<Rightarrow> Inl Uninit | Some s \<Rightarrow> rbind (cable_line s db) (\<lambda>(_, db). Inr db))
      | Some (l, r) \<Rightarrow>
          let s = trim_end (takeWhile (\<lambda>b. b \<noteq> 0) l)
          in case cable_line s db of
               Inl e \<Rightarrow> Inl e
             | Inr (stop, db) \<Rightarrow> if stop \<or> at_eof l r then Inr db else read_cables r (Some s) db)"
  by pat_completeness auto
termination
  by (relation "measure (\<lambda>(bs, _). length bs)") (auto dest: fgets_shorter)

declare read_cables.simps [simp del]

text \<open>The built-in list; the buffer has room for 512 characters and its NUL is the last of them.\<close>

definition builtin_cable :: "byte list \<Rightarrow> cable_t option res" where
  "builtin_cable s =
     obind (scan_word64 s) (\<lambda>(a, s).
     obind (scan_word64 s) (\<lambda>(t, s).
     obind (Inr (scan_dec s)) (\<lambda>(f, s).
     obind (Inr (scan_options s)) (\<lambda>opt. Inr (Some (make_cable a t f opt))))))"

lemma builtin_rest:
  "p \<noteq> [] \<Longrightarrow> length (dropWhile (\<lambda>b. b = 59) (drop (length (takeWhile (\<lambda>b. b \<noteq> (59 :: byte)) p)) p)) < length p"
proof (cases p)
  case (Cons b bs)
  have d: "length (dropWhile Q s) \<le> length s" for Q and s :: "byte list" by (induction s) auto
  show ?thesis
  proof (cases "b = 59")
    case False
    then show ?thesis
      using d [of "\<lambda>b. b = 59" "drop (length (takeWhile (\<lambda>b. b \<noteq> 59) p)) p"] Cons by simp
  qed (use Cons d [of "\<lambda>b. b = 59" bs] in \<open>simp add: less_Suc_eq_le\<close>)
qed simp

function builtin_cables :: "byte list \<Rightarrow> cabledb \<Rightarrow> cabledb res" where
  "builtin_cables p db =
     (if p = [] then Inr db
      else let l = takeWhile (\<lambda>b. b \<noteq> 59) p; r = dropWhile (\<lambda>b. b = 59) (drop (length l) p); s = trim_end l
           in if 512 \<le> length l then Inl (OutOfBounds 512)
              else if s \<noteq> [] \<and> hd s = 35 then builtin_cables r db
              else case builtin_cable s of
                     Inl e \<Rightarrow> Inl e
                   | Inr None \<Rightarrow> builtin_cables r db
                   | Inr (Some c) \<Rightarrow> builtin_cables r (db\<lparr>cable_db := cable_db db @ [c]\<rparr>))"
  by pat_completeness auto
termination
  by (relation "measure (\<lambda>(p, _). length p)") (simp_all add: builtin_rest)

declare builtin_cables.simps [simp del]

definition cabledb_new :: "(byte list \<Rightarrow> byte list option) \<Rightarrow> byte list option \<Rightarrow> byte list \<Rightarrow> byte list option \<Rightarrow> cabledb res" where
  "cabledb_new fs env cabledb_string cf_name =
     (let name = (case cf_name of Some f \<Rightarrow> f | None \<Rightarrow> (case env of Some f \<Rightarrow> f | None \<Rightarrow> ascii ''cablelist.txt''))
      in case fs name of
           Some bs \<Rightarrow> read_cables bs None \<lparr>cable_db = [], cablename = name\<rparr>
         | None \<Rightarrow> builtin_cables (takeWhile (\<lambda>b. b \<noteq> 0) cabledb_string)
                    \<lparr>cable_db = [], cablename = ascii ''built-in cable list''\<rparr>)"

section \<open>Looking up and dumping\<close>

definition getCable :: "byte list \<Rightarrow> cabledb \<Rightarrow> cable_t option" where
  "getCable name db = find (\<lambda>c. strcasecmp_eq (calias c) name) (cable_db db)"

text \<open>\<^verbatim>\<open>%-20s\<close>\<close>

definition pad_left :: "nat \<Rightarrow> byte list \<Rightarrow> byte list" where
  "pad_left w s = s @ replicate (w - length s) 32"

definition dump_cable :: "cable_t \<Rightarrow> byte list" where
  "dump_cable c =
     pad_left 20 (calias c) @ pad_left 8 (getCableName (cabletype c)) @ pad_left 10 (print_int 0 (sint (cfreq c))) @
     pad_left 60 (optstring c) @ [10]"

definition dumpCables :: "cabledb \<Rightarrow> byte list" where
  "dumpCables db = concat (map dump_cable (cable_db db))"

definition cablelist_txt :: "cabledb \<Rightarrow> byte list" where
  "cablelist_txt db =
     pad_left 20 (ascii ''#Alias'') @ pad_left 8 (ascii ''Type'') @ pad_left 10 (ascii ''Frequency'') @ ascii ''OptString'' @ [10] @
     dumpCables db"

section \<open>The driver\<close>

definition use_freq :: "u32 \<Rightarrow> cable_t \<Rightarrow> u32" where
  "use_freq freq c = (if freq = 0 \<or> (cfreq c \<noteq> 0 \<and> freq > cfreq c) then cfreq c else freq)"

text \<open>
  The drivers' \<^verbatim>\<open>Init\<close> is a parameter: it gets the cable, its device or serial number and the frequency.
  A program that was built without \<^verbatim>\<open>libgpiod\<close> has no GPIO cables.
\<close>

definition getIO ::
  "bool \<Rightarrow> (CABLES_TYPES \<Rightarrow> cable_t \<Rightarrow> byte list option \<Rightarrow> u32 \<Rightarrow> int) \<Rightarrow> cable_t option \<Rightarrow> byte list option \<Rightarrow>
   byte list option \<Rightarrow> u32 \<Rightarrow> int" where
  "getIO gpiod init cable dv serial freq =
     (case cable of
        None \<Rightarrow> 1
      | Some c \<Rightarrow>
          if cabletype c = CABLE_PP then init CABLE_PP c dv (use_freq freq c)
          else if cabletype c \<in> {CABLE_FTDI, CABLE_FX2, CABLE_XPC} then init (cabletype c) c serial (use_freq freq c)
          else if gpiod \<and> cabletype c \<in> {CABLE_GPIOD_CREATOR, CABLE_GPIOD_VOICE} then init (cabletype c) c serial (use_freq freq c)
          else 1)"

end
