(* ===== verification/CableDBProps.thy ===== *)
theory CableDBProps
  imports CableDB
begin

text \<open>
  The list of cables: what is dumped is read back, with the last cable twice, if the columns of the
  dump keep its fields apart.
\<close>

section \<open>Scanning the columns\<close>

lemma word64_skip: "scan_word64 (replicate k 32 @ s) = scan_word64 s"
  by (simp add: scan_word64_def dropWhile_spaces)

lemma scan_word64_word:
  assumes "w \<noteq> []" "\<forall>b \<in> set w. \<not> c_isspace b" "length w < 64"
  shows "scan_word64 (w @ 32 # r) = Inr (Some (w, 32 # r))"
proof -
  have sp: "c_isspace 32" by (simp add: c_isspace_def)
  have "takeWhile (\<lambda>b. \<not> c_isspace b) (w @ 32 # r) = w" using assms(2) sp by (intro takeWhile_all) auto
  moreover have "dropWhile c_isspace (w @ 32 # r) = w @ 32 # r" using assms(1,2) by (cases w) auto
  ultimately show ?thesis using assms(1,3) by (simp add: scan_word64_def Let_def)
qed

lemma scan_column:
  assumes "w \<noteq> []" "\<forall>b \<in> set w. \<not> c_isspace b" "length w < n" "n \<le> 64"
  shows "scan_word64 (replicate k 32 @ pad_left n w @ r) = Inr (Some (w, replicate (n - length w) 32 @ r))"
proof -
  obtain m where "n - length w = Suc m" using assms(3) by (metis Suc_diff_Suc)
  then show ?thesis
    using scan_word64_word [OF assms(1,2), of "replicate m 32 @ r"] assms(3,4)
    by (simp add: word64_skip pad_left_def)
qed

lemma scan_options_rest:
  assumes "s \<noteq> []" "\<not> c_isspace (hd s)" "59 \<notin> set s" "length s \<le> 255"
  shows "scan_options (replicate k 32 @ s) = Some s"
proof -
  have "dropWhile c_isspace s = s" using assms(1,2) by (cases s) auto
  moreover have t: "takeWhile (\<lambda>b. b \<noteq> 59) s = s" using assms(3) by (auto simp: takeWhile_eq_all_conv)
  ultimately show ?thesis unfolding scan_options_def dropWhile_spaces using assms(1,4) by (simp add: t Let_def)
qed

lemma trim_end_spaces:
  assumes "s \<noteq> []" "\<not> c_isspace (last s)" "\<forall>b \<in> set r. c_isspace b"
  shows "trim_end (s @ r) = s"
proof -
  have "dropWhile c_isspace (rev r @ rev s) = dropWhile c_isspace (rev s)" using assms(3) by (intro dropWhile_append2) simp
  also have "\<dots> = rev s" using assms(1,2) by (cases "rev s") (simp_all add: hd_rev [symmetric])
  finally have "dropWhile c_isspace (rev r @ rev s) = rev s" .
  then show ?thesis by (simp add: trim_end_def)
qed

section \<open>Round trip\<close>

definition plain_word :: "byte list \<Rightarrow> bool" where
  "plain_word w \<longleftrightarrow> w \<noteq> [] \<and> (\<forall>b \<in> set w. \<not> c_isspace b \<and> b \<noteq> 0)"

definition cable_ok :: "cable_t \<Rightarrow> bool" where
  "cable_ok c \<longleftrightarrow> plain_word (calias c) \<and> hd (calias c) \<noteq> 35 \<and> length (calias c) < 20 \<and>
     cabletype c \<in> {CABLE_PP, CABLE_FTDI, CABLE_FX2, CABLE_XPC, CABLE_UNKNOWN} \<and> cfreq c < 1000000000 \<and>
     optstring c \<noteq> [] \<and> \<not> c_isspace (hd (optstring c)) \<and> \<not> c_isspace (last (optstring c)) \<and>
     set (optstring c) \<inter> {0, 10, 59} = {} \<and> length (optstring c) \<le> 216"

text \<open>The line without the white space at its end.\<close>

definition cable_columns :: "cable_t \<Rightarrow> byte list" where
  "cable_columns c = pad_left 20 (calias c) @ pad_left 8 (getCableName (cabletype c)) @
     pad_left 10 (print_int 0 (sint (cfreq c))) @ optstring c"

lemma cable_name_back:
  "t \<in> {CABLE_PP, CABLE_FTDI, CABLE_FX2, CABLE_XPC, CABLE_UNKNOWN} \<Longrightarrow>
     getCableType (getCableName t) = t \<and> plain_word (getCableName t) \<and> length (getCableName t) < 8"
proof -
  have "list_all (\<lambda>t. getCableType (getCableName t) = t \<and> plain_word (getCableName t) \<and> length (getCableName t) < 8)
    [CABLE_PP, CABLE_FTDI, CABLE_FX2, CABLE_XPC, CABLE_UNKNOWN]"
    by code_simp
  then show "t \<in> {CABLE_PP, CABLE_FTDI, CABLE_FX2, CABLE_XPC, CABLE_UNKNOWN} \<Longrightarrow> ?thesis" by auto
qed

lemma freq_back:
  fixes f :: u32
  assumes "f < 1000000000"
  shows "plain_word (print_int 0 (sint f))" "length (print_int 0 (sint f)) < 10" "c_atoi (print_int 0 (sint f)) = sint f"
    "58 \<notin> set (print_int 0 (sint f))"
proof -
  have "unat f < 1000000000" using assms by (simp add: word_less_nat_alt)
  then have "uint f < 2 ^ 31" "- (2 ^ 31) \<le> uint f" using assms by (simp_all add: word_less_def order.trans [OF _ uint_nonnegative])
  then have s: "sint f = int (unat f)" by (simp add: sint_uint signed_take_bit_int_eq_self del: of_nat_unat) simp
  have p: "print_int 0 (sint f) = dec_string (unat f)" by (simp add: print_int_def pad_def s)
  have "length (dec_string (unat f)) \<le> 9" using \<open>unat f < 1000000000\<close> by (intro dec_string_length) simp_all
  then show "length (print_int 0 (sint f)) < 10" by (simp add: p)
  show "plain_word (print_int 0 (sint f))"
    using dec_string_value [of "unat f"] dec_string_chars [of "unat f"] c_digits
    by (auto simp: plain_word_def p c_isdigit_def)
  show "58 \<notin> set (print_int 0 (sint f))" using dec_string_chars [of "unat f"] by (auto simp: p c_isdigit_def)
  show "c_atoi (print_int 0 (sint f)) = sint f" by (simp only: c_atoi_def scan_dec_end) simp
qed

lemma file_cable_columns:
  assumes "cable_ok c"
  shows "file_cable (cable_columns c) = Inr (Some (False, c))"
proof -
  note o = assms [unfolded cable_ok_def plain_word_def]
  have n: "getCableType (getCableName (cabletype c)) = cabletype c" "plain_word (getCableName (cabletype c))"
    "length (getCableName (cabletype c)) < 8"
    using cable_name_back [of "cabletype c"] o by auto
  have "cfreq c < 1000000000" using o by simp
  note f = freq_back [OF this]
  have 1: "scan_word64 (pad_left 20 (calias c) @ r) = Inr (Some (calias c, replicate (20 - length (calias c)) 32 @ r))" for r
    using scan_column [of "calias c" 20 0 r] o by simp
  have 2: "scan_word64 (replicate k 32 @ pad_left 8 (getCableName (cabletype c)) @ r) =
     Inr (Some (getCableName (cabletype c), replicate (8 - length (getCableName (cabletype c))) 32 @ r))" for k r
    using scan_column [of "getCableName (cabletype c)" 8 k r] n by (simp add: plain_word_def)
  have 3: "scan_word64 (replicate k 32 @ pad_left 10 (print_int 0 (sint (cfreq c))) @ r) =
     Inr (Some (print_int 0 (sint (cfreq c)), replicate (10 - length (print_int 0 (sint (cfreq c)))) 32 @ r))" for k r
    using scan_column [of "print_int 0 (sint (cfreq c))" 10 k r] f by (simp add: plain_word_def)
  have 4: "scan_options (replicate k 32 @ optstring c) = Some (optstring c)" for k
    using o by (intro scan_options_rest) auto
  have "word_of_int (sint (cfreq c)) = cfreq c" by simp
  then show ?thesis
    by (simp add: file_cable_def cable_columns_def 1 2 3 4 f n make_cable_def)
qed

lemma plain_column: "plain_word w \<Longrightarrow> b \<in> set (pad_left n w) \<Longrightarrow> b \<noteq> 0 \<and> b \<noteq> 10"
  by (auto simp: pad_left_def plain_word_def c_isspace_def)

lemma set_columns:
  assumes "cable_ok c" "b \<in> set (cable_columns c)"
  shows "b \<noteq> 0 \<and> b \<noteq> 10"
proof -
  have "plain_word (calias c)" "plain_word (getCableName (cabletype c))" "plain_word (print_int 0 (sint (cfreq c)))"
    using assms(1) cable_name_back freq_back(1) unfolding cable_ok_def by blast+
  note p = this [THEN plain_column]
  have "set (optstring c) \<inter> {0, 10, 59} = {}" using assms(1) by (simp add: cable_ok_def)
  then have "b \<noteq> 0 \<and> b \<noteq> 10" if "b \<in> set (optstring c)" using that by blast
  then show ?thesis using assms(2) p unfolding cable_columns_def set_append by blast
qed

lemma dump_columns:
  assumes "cable_ok c"
  obtains l where "dump_cable c = l @ [10]" "10 \<notin> set l" "0 \<notin> set l" "length l < 255" "trim_end (l @ [10]) = cable_columns c"
    "hd (cable_columns c) \<noteq> 35"
proof -
  note o = assms [unfolded cable_ok_def plain_word_def]
  let ?l = "cable_columns c @ replicate (60 - length (optstring c)) 32"
  have "length (getCableName (cabletype c)) < 8" "length (print_int 0 (sint (cfreq c))) < 10"
    using cable_name_back freq_back(2) assms unfolding cable_ok_def by blast+
  then have "length ?l < 255" using o by (auto simp: cable_columns_def pad_left_def)
  moreover have "10 \<notin> set ?l" "0 \<notin> set ?l" using set_columns [OF assms] by auto
  moreover have "last (cable_columns c) = last (optstring c)" "cable_columns c \<noteq> []" using o by (auto simp: cable_columns_def)
  then have "trim_end (cable_columns c @ replicate (60 - length (optstring c)) 32 @ [10]) = cable_columns c"
    using o by (intro trim_end_spaces) (auto simp: c_isspace_def)
  moreover have "hd (cable_columns c) \<noteq> 35" using o by (simp add: cable_columns_def pad_left_def)
  moreover have "dump_cable c = ?l @ [10]" by (simp add: dump_cable_def cable_columns_def pad_left_def)
  ultimately show thesis using that by simp
qed

lemma read_dumped_cables:
  assumes "\<forall>c \<in> set cs. cable_ok c" "old = Some s"
  shows "read_cables (concat (map dump_cable cs)) old db =
    (case cs of [] \<Rightarrow> rbind (cable_line s db) (\<lambda>(_, db). Inr db)
     | _ \<Rightarrow> Inr (db\<lparr>cable_db := cable_db db @ cs @ [last cs]\<rparr>))"
  using assms
proof (induction cs arbitrary: db old s)
  case Nil
  then show ?case by (simp add: read_cables.simps [of "[]"] fgets_def)
next
  case (Cons c cs)
  obtain l where l: "dump_cable c = l @ [10]" "10 \<notin> set l" "0 \<notin> set l" "length l < 255" "trim_end (l @ [10]) = cable_columns c"
    "hd (cable_columns c) \<noteq> 35"
    using Cons.prems by (auto elim: dump_columns)
  have f: "cable_line (cable_columns c) db = Inr (False, db\<lparr>cable_db := cable_db db @ [c]\<rparr>)" for db
    using file_cable_columns [of c] Cons.prems(1) l(6) by (simp add: cable_line_def)
  have "takeWhile (\<lambda>b. b \<noteq> 0) (l @ [10]) = l @ [10]" using l(3) by (auto simp: takeWhile_eq_all_conv)
  moreover have "fgets 256 (l @ 10 # r) = Some (l @ [10], r)" for r
    using fgets_line [OF l(2,4)] by (simp add: fgets_def)
  ultimately have "read_cables (concat (map dump_cable (c # cs))) old db =
      read_cables (concat (map dump_cable cs)) (Some (cable_columns c)) (db\<lparr>cable_db := cable_db db @ [c]\<rparr>)"
    using f [of db] l(5) by (subst read_cables.simps) (simp add: l(1) at_eof_def)
  also have "\<dots> = Inr (db\<lparr>cable_db := cable_db db @ (c # cs) @ [last (c # cs)]\<rparr>)"
    using Cons.IH [OF _ refl, of "cable_columns c" "db\<lparr>cable_db := cable_db db @ [c]\<rparr>"] Cons.prems(1)
      f [of "db\<lparr>cable_db := cable_db db @ [c]\<rparr>"] by (cases cs) simp_all
  finally show ?case by simp
qed

lemma find_again: "xs \<noteq> [] \<Longrightarrow> find P (xs @ [last xs]) = find P xs"
proof (induction xs)
  case (Cons x xs)
  then show ?case by (cases xs) auto
qed simp

text \<open>
  A dumped list of cables is read back with the last cable twice, since the file ends with a newline;
  every name still finds the same cable.
\<close>

theorem cablelist_roundtrip:
  assumes "\<forall>c \<in> set (cable_db db). cable_ok c" "cable_db db \<noteq> []"
  shows "\<exists>db'. read_cables (cablelist_txt db) None \<lparr>cable_db = [], cablename = f\<rparr> = Inr db' \<and>
     cable_db db' = cable_db db @ [last (cable_db db)] \<and> (\<forall>name. getCable name db' = getCable name db)"
proof -
  let ?h = "pad_left 20 (ascii ''#Alias'') @ pad_left 8 (ascii ''Type'') @ pad_left 10 (ascii ''Frequency'') @ ascii ''OptString''"
  let ?db = "\<lparr>cable_db = [], cablename = f\<rparr>"
  have "10 \<notin> set ?h \<and> length ?h < 255 \<and> 0 \<notin> set ?h \<and> trim_end (?h @ [10]) = ?h \<and> hd ?h = 35 \<and> ?h \<noteq> []" by code_simp
  then have h: "fgets 256 (?h @ 10 # r) = Some (?h @ [10], r)" "takeWhile (\<lambda>b. b \<noteq> 0) (?h @ [10]) = ?h @ [10]"
    "trim_end (?h @ [10]) = ?h" "cable_line ?h ?db = Inr (False, ?db)" for r
    using fgets_line [of ?h 255 r] by (auto simp: fgets_def takeWhile_eq_all_conv cable_line_def)
  obtain c cs where cs: "cable_db db = c # cs" using assms(2) by (cases "cable_db db") auto
  obtain t where t: "cablelist_txt db = ?h @ 10 # t" "t = concat (map dump_cable (cable_db db))"
    by (simp add: cablelist_txt_def dumpCables_def)
  have "read_cables (cablelist_txt db) None ?db = read_cables t (Some ?h) ?db"
    unfolding t(1) by (subst read_cables.simps, subst h(1)) (simp only: option.case prod.case Let_def h(2-4) sum.case at_eof_def last_snoc, simp)
  also have "\<dots> = Inr (?db\<lparr>cable_db := cable_db db @ [last (cable_db db)]\<rparr>)"
    unfolding t(2) using read_dumped_cables [OF assms(1) refl, of ?h ?db] by (simp add: cs)
  finally show ?thesis using find_again [OF assms(2)] by (simp add: getCable_def)
qed

definition example_cables :: cabledb where
  "example_cables = \<lparr>cable_db =
     [make_cable (ascii ''pp'') (ascii ''pp'') 0 (ascii ''NULL''),
      make_cable (ascii ''xpc'') (ascii ''xpc'') 6000000 (ascii ''0x03FD:0x0008:internal x'')], cablename = []\<rparr>"

lemma cablelist_roundtrip_witness:
  "\<exists>db'. read_cables (cablelist_txt example_cables) None \<lparr>cable_db = [], cablename = []\<rparr> = Inr db' \<and>
     map calias (cable_db db') = [ascii ''pp'', ascii ''xpc'', ascii ''xpc'']"
proof -
  have "list_all cable_ok (cable_db example_cables)" by code_simp
  then have "\<forall>c \<in> set (cable_db example_cables). cable_ok c" by (simp add: list_all_iff)
  from cablelist_roundtrip [OF this, of "[]"] show ?thesis by (auto simp: example_cables_def make_cable_def)
qed

text \<open>The name of the type of a GPIO cable fills its column, so what follows is read as a part of it.\<close>

lemma gpiod_columns_run_together:
  "file_cable (cable_columns (make_cable (ascii ''gpiod_creator'') (ascii ''gpiod_creator'') 0 (ascii ''NULL''))) = Inr None"
  by code_simp

end
