(* ===== verification/ProgAVR.thy ===== *)
theory ProgAVR
  imports ProgAlg
begin

text \<open>
  \<^verbatim>\<open>progalgavr.cpp\<close>: the AVR microcontrollers, programmed through commands of fifteen bits. Messages are
  left out. The tests \<^verbatim>\<open>if (1 == 10)\<close> after the loops that wait for the part are never true.
\<close>

section \<open>Constants\<close>

definition AVR_PROG_ENABLE :: byte where "AVR_PROG_ENABLE = 0x4"
definition AVR_PROG_COMMANDS :: byte where "AVR_PROG_COMMANDS = 0x5"
definition AVR_PROG_PAGELOAD :: byte where "AVR_PROG_PAGELOAD = 0x6"
definition AVR_PROG_PAGEREAD :: byte where "AVR_PROG_PAGEREAD = 0x7"
definition AVR_RESET :: byte where "AVR_RESET = 0xc"

definition DO_ENABLE :: u16 where "DO_ENABLE = 0xA370"
definition PROG_NOP1 :: u16 where "PROG_NOP1 = 0x2300"
definition PROG_NOP2 :: u16 where "PROG_NOP2 = 0x3300"
definition CHIP_ERASE_A :: u16 where "CHIP_ERASE_A = 0x2380"
definition CHIP_ERASE_B :: u16 where "CHIP_ERASE_B = 0x3180"
definition POLL_CHIP_ERASE :: u16 where "POLL_CHIP_ERASE = 0x3380"
definition ENT_FLASH_READ :: u16 where "ENT_FLASH_READ = 0x2302"
definition LOAD_ADDR_EXT_HIGH :: byte where "LOAD_ADDR_EXT_HIGH = 0x0b"
definition LOAD_ADDR_HIGH :: byte where "LOAD_ADDR_HIGH = 0x07"
definition LOAD_ADDR_LOW :: byte where "LOAD_ADDR_LOW = 0x03"
definition REPEAT_ADDR_LOW :: byte where "REPEAT_ADDR_LOW = 0x33"
definition ENT_FLASH_WRITE :: u16 where "ENT_FLASH_WRITE = 0x2310"
definition WRITE_PAGE :: u16 where "WRITE_PAGE = 0x3500"
definition POLL_WRITE_PAGE :: u16 where "POLL_WRITE_PAGE = 0x3700"
definition ENT_FUSE_READ :: u16 where "ENT_FUSE_READ = 0x2304"
definition EN_FUSE_READ :: u16 where "EN_FUSE_READ = 0x3a00"
definition RD_FUSE_EXT :: u16 where "RD_FUSE_EXT = 0x3e00"
definition RD_FUSE_HIGH :: u16 where "RD_FUSE_HIGH = 0x3200"
definition RD_FUSE_LOW :: u16 where "RD_FUSE_LOW = 0x3600"
definition RD_FUSE_LOCK :: u16 where "RD_FUSE_LOCK = 0x3700"
definition ENT_FUSE_WRITE :: u16 where "ENT_FUSE_WRITE = 0x2340"
definition LOAD_DATA_LOW_BYTE :: byte where "LOAD_DATA_LOW_BYTE = 0x13"
definition WRITE_FUSE_EXT :: u16 where "WRITE_FUSE_EXT = 0x3900"
definition POLL_FUSE_EXT :: u16 where "POLL_FUSE_EXT = 0x3b00"
definition WRITE_FUSE_HIGH :: u16 where "WRITE_FUSE_HIGH = 0x3500"
definition POLL_FUSE_HIGH :: u16 where "POLL_FUSE_HIGH = 0x3700"
definition WRITE_FUSE_LOW :: u16 where "WRITE_FUSE_LOW = 0x3100"
definition POLL_FUSE_LOW :: u16 where "POLL_FUSE_LOW = 0x3300"
definition ENT_EEPROM_READ :: u16 where "ENT_EEPROM_READ = 0x2303"
definition READ_EEPROM_DUMMY :: u16 where "READ_EEPROM_DUMMY = 0x3200"
definition READ_EEPROM_BYTE :: u16 where "READ_EEPROM_BYTE = 0x3300"

definition FUSE_EXT :: nat where "FUSE_EXT = 3"
definition FUSE_HIGH :: nat where "FUSE_HIGH = 2"
definition FUSE_LOW :: nat where "FUSE_LOW = 1"
definition FUSE_LOCK :: nat where "FUSE_LOCK = 0"

section \<open>Commands\<close>

definition avr_cmd :: "u16 \<Rightarrow> unit jm" where
  "avr_cmd c = jshiftDR (shortToByteArray c) 15 True"

definition avr_load :: "byte \<Rightarrow> byte \<Rightarrow> unit jm" where
  "avr_load op b = jshiftDR [b, op] 15 True"

definition avr_ask :: "u16 \<Rightarrow> byte list jm" where
  "avr_ask c = jcaptureDR (Some (shortToByteArray c)) 15 True"

definition avr_commands :: "unit jm" where
  "avr_commands = jshiftIR [AVR_PROG_COMMANDS]"

text \<open>The loops that wait: the first with the delay before the question, the second after it.\<close>

definition avr_wait :: "u16 \<Rightarrow> unit jm" where
  "avr_wait c =
     discard (jloop 0 10 (\<lambda>_.
       jbind (jUsleep 1000) (\<lambda>_.
       jbind (avr_ask c) (\<lambda>d. jret (if d ! 1 AND 0x02 \<noteq> 0 then Some () else None)))))"

definition avr_wait_page :: "u16 \<Rightarrow> unit jm" where
  "avr_wait_page c =
     discard (jloop 0 10 (\<lambda>_.
       jbind (avr_ask c) (\<lambda>d.
         if d ! 1 AND 0x02 \<noteq> 0 then jret (Some ()) else jbind (jUsleep 1000) (\<lambda>_. jret None))))"

section \<open>The class\<close>

definition avr_progmode :: "bool \<Rightarrow> unit jm" where
  "avr_progmode enter =
     (if enter
      then jseq [jshiftIR [AVR_RESET], jshiftDR [1, 0] 1 True, jshiftIR [AVR_PROG_ENABLE], jshiftDR (shortToByteArray DO_ENABLE) 16 True]
      else jseq [avr_commands, avr_cmd PROG_NOP1, avr_cmd PROG_NOP2, jshiftIR [AVR_PROG_ENABLE],
                 jshiftDR (shortToByteArray 0) 16 True, jshiftIR [AVR_RESET], jshiftDR [0, 0] 1 True])"

text \<open>The constructor enters the programming mode and the destructor leaves it.\<close>

definition avr_new :: "unit jm" where "avr_new = avr_progmode True"
definition avr_delete :: "unit jm" where "avr_delete = avr_progmode False"

definition avr_erase :: "int jm" where
  "avr_erase =
     jbind (jseq [avr_commands, avr_cmd CHIP_ERASE_A, avr_cmd CHIP_ERASE_B, avr_cmd POLL_CHIP_ERASE, avr_cmd POLL_CHIP_ERASE,
                  avr_wait POLL_CHIP_ERASE]) (\<lambda>_. jret 0)"

definition avr_read_fuse :: "u16 \<Rightarrow> nat \<Rightarrow> byte list \<Rightarrow> byte list jm" where
  "avr_read_fuse c i fuses = jbind (avr_ask c) (\<lambda>d. jlift (buf_set fuses i (d ! 0)))"

definition avr_read_fuses :: "byte list \<Rightarrow> byte list jm" where
  "avr_read_fuses fuses =
     jbind (jseq [avr_commands, avr_cmd ENT_FUSE_READ, avr_cmd EN_FUSE_READ]) (\<lambda>_.
     jbind (avr_read_fuse RD_FUSE_EXT FUSE_EXT fuses) (\<lambda>fuses.
     jbind (avr_read_fuse RD_FUSE_HIGH FUSE_HIGH fuses) (\<lambda>fuses.
     jbind (avr_read_fuse RD_FUSE_LOW FUSE_LOW fuses) (\<lambda>fuses. avr_read_fuse RD_FUSE_LOCK FUSE_LOCK fuses))))"

text \<open>A fuse byte is written unless it is \<open>0xff\<close>.\<close>

definition avr_write_fuse :: "nat \<Rightarrow> u16 \<Rightarrow> u16 \<Rightarrow> byte list \<Rightarrow> unit jm" where
  "avr_write_fuse i poll wr fuses =
     jbind (jlift (buf_get fuses i)) (\<lambda>b.
       if b \<noteq> 0xff
       then jseq [avr_load LOAD_DATA_LOW_BYTE b, avr_cmd poll, avr_cmd wr, avr_cmd poll, avr_cmd poll, avr_wait poll]
       else jret ())"

definition avr_write_fuses :: "byte list \<Rightarrow> int jm" where
  "avr_write_fuses fuses =
     jbind (jseq [avr_commands, avr_cmd ENT_FUSE_WRITE,
                  avr_write_fuse FUSE_EXT POLL_FUSE_EXT WRITE_FUSE_EXT fuses,
                  avr_write_fuse FUSE_HIGH POLL_FUSE_HIGH WRITE_FUSE_HIGH fuses,
                  avr_write_fuse FUSE_LOW POLL_FUSE_LOW WRITE_FUSE_LOW fuses]) (\<lambda>_. jret 0)"

text \<open>The address is that of a word; the extended byte is only sent when it is not zero.\<close>

definition avr_address :: "u32 \<Rightarrow> unit jm" where
  "avr_address a =
     jbind (if drop_bit 17 a \<noteq> 0 then avr_load LOAD_ADDR_EXT_HIGH (ucast (drop_bit 17 a)) else jret ()) (\<lambda>_.
     jseq [avr_load LOAD_ADDR_HIGH (ucast (drop_bit 9 a)), avr_load LOAD_ADDR_LOW (ucast (drop_bit 1 a))])"

definition avr_pageread_flash :: "u32 \<Rightarrow> byte list \<Rightarrow> nat \<Rightarrow> byte list jm" where
  "avr_pageread_flash a buf sz =
     jbind (jseq [avr_commands, avr_cmd ENT_FLASH_READ, avr_address a, jshiftIR [AVR_PROG_PAGEREAD]]) (\<lambda>_.
     jbind (jfold 0 sz (\<lambda>i buf.
         jbind (jlift (buf_get buf i)) (\<lambda>b.
         jbind (jcaptureDR (Some [b]) 8 True) (\<lambda>d. jlift (buf_set buf i (d ! 0))))) buf) (\<lambda>buf.
     jbind (jseq [avr_commands, avr_commands]) (\<lambda>_. jret buf)))"

definition avr_pagewrite_flash :: "u32 \<Rightarrow> byte list \<Rightarrow> nat \<Rightarrow> int jm" where
  "avr_pagewrite_flash a buf sz =
     jbind (jseq [avr_commands, avr_cmd ENT_FLASH_WRITE, avr_address a, jshiftIR [AVR_PROG_PAGELOAD]]) (\<lambda>_.
     jbind (jfold 0 sz (\<lambda>i _. jbind (jlift (buf_get buf i)) (\<lambda>b. jshiftDR [b] 8 True)) ()) (\<lambda>_.
     jbind (jseq [avr_commands, avr_cmd POLL_WRITE_PAGE, avr_cmd WRITE_PAGE, avr_wait_page POLL_WRITE_PAGE]) (\<lambda>_.
       jret 0)))"

definition avr_read_eeprom :: "u32 \<Rightarrow> byte list \<Rightarrow> nat \<Rightarrow> byte list jm" where
  "avr_read_eeprom a buf sz =
     jbind (jseq [avr_commands, avr_cmd ENT_EEPROM_READ]) (\<lambda>_.
     jfold 0 sz (\<lambda>i buf.
       let w = a + of_nat i
       in jbind (jseq [avr_load LOAD_ADDR_HIGH (ucast (drop_bit 8 w)), avr_load LOAD_ADDR_LOW (ucast w),
                       avr_load REPEAT_ADDR_LOW (ucast w), avr_cmd READ_EEPROM_DUMMY]) (\<lambda>_.
          jbind (avr_ask READ_EEPROM_BYTE) (\<lambda>d. jlift (buf_set buf i (d ! 0))))) buf)"

end
