(* ===== verification/AVRProps.thy ===== *)
theory AVRProps
  imports ProgAVR
begin

text \<open>
  The AVR algorithm on a part: its pages and fuses through the programming commands. While the part
  is busy with an operation a command only lets time pass, and is answered with the busy bit.
\<close>

section \<open>The part\<close>

record avrdev =
  air :: byte
  amode :: byte
  aext :: byte
  ahi :: byte
  alo :: byte
  adata :: byte
  aload :: "byte list"
  aread :: nat
  abusy :: nat
  aflash :: "nat \<Rightarrow> byte"
  afuse :: "nat \<Rightarrow> byte"

definition avr_blank :: "(nat \<Rightarrow> byte) \<Rightarrow> (nat \<Rightarrow> byte) \<Rightarrow> avrdev" where
  "avr_blank mem fuses = \<lparr>air = 0, amode = 0, aext = 0, ahi = 0, alo = 0, adata = 0, aload = [], aread = 0, abusy = 0,
     aflash = mem, afuse = fuses\<rparr>"

text \<open>The address of the first byte of the word that the address registers select.\<close>

definition avr_base :: "avrdev \<Rightarrow> nat" where
  "avr_base v = 2 * ((unat (aext v) * 256 + unat (ahi v)) * 256 + unat (alo v))"

text \<open>A command, with the time \<open>d\<close> that an operation takes.\<close>

definition avr_command :: "nat \<Rightarrow> byte \<Rightarrow> byte \<Rightarrow> avrdev \<Rightarrow> avrdev" where
  "avr_command d op b v =
     (if 0 < abusy v then v\<lparr>abusy := abusy v - 1\<rparr>
      else if op = 0x23 then v\<lparr>amode := b\<rparr>
      else if op = 0x0b then v\<lparr>aext := b\<rparr>
      else if op = 0x07 then v\<lparr>ahi := b\<rparr>
      else if op = 0x03 then v\<lparr>alo := b\<rparr>
      else if op = 0x13 then v\<lparr>adata := b\<rparr>
      else if op = 0x35 \<and> amode v = 0x10 then v\<lparr>aflash := put_page (avr_base v) (aload v) (aflash v), abusy := d\<rparr>
      else if op = 0x31 \<and> amode v = 0x80 then v\<lparr>aflash := (\<lambda>_. 0xff), abusy := d\<rparr>
      else if op = 0x39 \<and> amode v = 0x40 then v\<lparr>afuse := (afuse v)(3 := adata v), abusy := d\<rparr>
      else if op = 0x35 \<and> amode v = 0x40 then v\<lparr>afuse := (afuse v)(2 := adata v), abusy := d\<rparr>
      else if op = 0x31 \<and> amode v = 0x40 then v\<lparr>afuse := (afuse v)(1 := adata v), abusy := d\<rparr>
      else v)"

definition avr_step :: "nat \<Rightarrow> avrdev \<Rightarrow> jop \<Rightarrow> avrdev" where
  "avr_step d v c =
     (case c of
        OpIR tdi _ \<Rightarrow> v\<lparr>air := hd tdi, aload := (if hd tdi = AVR_PROG_PAGELOAD then [] else aload v), aread := 0\<rparr>
      | OpDR (Some bs) _ n _ _ \<Rightarrow>
          if air v = AVR_PROG_COMMANDS then avr_command d (bs ! 1) (bs ! 0) v
          else if air v = AVR_PROG_PAGELOAD then v\<lparr>aload := aload v @ [bs ! 0]\<rparr>
          else if air v = AVR_PROG_PAGEREAD then v\<lparr>aread := aread v + 1\<rparr>
          else v
      | _ \<Rightarrow> v)"

text \<open>The fuse that a command of the mode to read fuses asks for.\<close>

definition fuse_of :: "byte \<Rightarrow> nat option" where
  "fuse_of op = (if op = 0x3e then Some 3 else if op = 0x32 then Some 2 else if op = 0x36 then Some 1
     else if op = 0x37 then Some 0 else None)"

definition avr_answer :: "avrdev \<Rightarrow> jop \<Rightarrow> byte list \<Rightarrow> bool" where
  "avr_answer v c r =
     (case c of
        OpDR (Some bs) True n _ _ \<Rightarrow>
          if air v = AVR_PROG_COMMANDS then
            2 \<le> length r \<and> (r ! 1 AND 0x02 \<noteq> 0 \<longleftrightarrow> abusy v = 0) \<and>
            (amode v = 0x04 \<and> abusy v = 0 \<longrightarrow> (case fuse_of (bs ! 1) of None \<Rightarrow> True | Some i \<Rightarrow> r ! 0 = afuse v i))
          else if air v = AVR_PROG_PAGEREAD then 1 \<le> length r \<and> r ! 0 = aflash v (avr_base v + aread v)
          else True
      | _ \<Rightarrow> True)"

definition avr_device :: "nat \<Rightarrow> (nat \<Rightarrow> byte) \<Rightarrow> (nat \<Rightarrow> byte) \<Rightarrow> avrdev device" where
  "avr_device d mem fuses = \<lparr>dinit = avr_blank mem fuses, dstep = avr_step d, dans = avr_answer\<rparr>"

lemma avr_device_sel [simp]: "dstep (avr_device d m f) = avr_step d" "dans (avr_device d m f) = avr_answer"
  by (simp_all add: avr_device_def)

section \<open>Commands\<close>

lemma wp_avr_commands: "Q () (v\<lparr>air := AVR_PROG_COMMANDS, aread := 0\<rparr>) \<Longrightarrow> wp (avr_device d m f) avr_commands Q v"
  unfolding avr_commands_def by (intro wp_intro) (simp add: avr_step_def AVR_PROG_COMMANDS_def AVR_PROG_PAGELOAD_def)

lemma short_bytes: "shortToByteArray c ! 0 = ucast c" "shortToByteArray c ! Suc 0 = ucast (drop_bit 8 c)"
proof -
  have "bit (255 :: u16) j \<longleftrightarrow> j < 8" for j
    using bit_mask_iff [of 8 j, where ?'a = u16] by (auto simp: mask_eq_exp_minus_1)
  then have "ucast (w AND 255) = (ucast w :: byte)" for w :: u16
    by (intro bit_word_eqI) (auto simp: bit_simps)
  then show "shortToByteArray c ! 0 = ucast c" "shortToByteArray c ! Suc 0 = ucast (drop_bit 8 c)"
    by (simp_all add: shortToByteArray_def)
qed

lemma wp_avr_cmd:
  "air v = AVR_PROG_COMMANDS \<Longrightarrow> Q () (avr_command d (ucast (drop_bit 8 c)) (ucast c) v) \<Longrightarrow> wp (avr_device d m f) (avr_cmd c) Q v"
  unfolding avr_cmd_def by (intro wp_intro) (simp add: avr_step_def short_bytes)

lemma wp_avr_load:
  "air v = AVR_PROG_COMMANDS \<Longrightarrow> Q () (avr_command d op b v) \<Longrightarrow> wp (avr_device d m f) (avr_load op b) Q v"
  unfolding avr_load_def by (intro wp_intro) (simp add: avr_step_def)

lemma fit_two: "2 \<le> length r \<Longrightarrow> fit (nbytes 15) r ! 0 = r ! 0 \<and> fit (nbytes 15) r ! 1 = r ! 1"
  by (cases r; cases "tl r") (auto simp: fit_def nbytes_def numeral_2_eq_2)

lemma wp_avr_ask:
  assumes "air v = AVR_PROG_COMMANDS"
    and "\<And>r. (r ! 1 AND 0x02 \<noteq> 0 \<longleftrightarrow> abusy v = 0) \<Longrightarrow>
      (amode v = 0x04 \<and> abusy v = 0 \<longrightarrow> (case fuse_of (ucast (drop_bit 8 c)) of None \<Rightarrow> True | Some i \<Rightarrow> r ! 0 = afuse v i)) \<Longrightarrow>
      Q r (avr_command d (ucast (drop_bit 8 c)) (ucast c) v)"
  shows "wp (avr_device d m f) (avr_ask c) Q v"
  unfolding avr_ask_def
proof (intro wp_intro)
  fix r assume "dans (avr_device d m f) v (OpDR (Some (shortToByteArray c)) True 15 0 True) r"
  then have r: "2 \<le> length r" "r ! 1 AND 0x02 \<noteq> 0 \<longleftrightarrow> abusy v = 0"
    "amode v = 0x04 \<and> abusy v = 0 \<longrightarrow> (case fuse_of (ucast (drop_bit 8 c)) of None \<Rightarrow> True | Some i \<Rightarrow> r ! 0 = afuse v i)"
    using assms(1) by (simp_all add: avr_answer_def short_bytes)
  have "Q (fit (nbytes 15) r) (avr_command d (ucast (drop_bit 8 c)) (ucast c) v)"
    using r fit_two [OF r(1)] by (intro assms(2)) (auto split: option.splits)
  then show "Q (fit (nbytes 15) r) (dstep (avr_device d m f) v (OpDR (Some (shortToByteArray c)) True 15 0 True))"
    using assms(1) by (simp add: avr_step_def short_bytes)
qed

section \<open>Waiting\<close>

lemma busy_same: "abusy v = 0 \<Longrightarrow> v\<lparr>abusy := 0\<rparr> = v"
  by (cases v) simp

lemma command_poll: "op \<in> {0x33, 0x37, 0x3b} \<Longrightarrow> avr_command d op b v = v\<lparr>abusy := abusy v - 1\<rparr>"
  unfolding avr_command_def by (elim insertE emptyE; simp add: busy_same)

definition poll_code :: "u16 \<Rightarrow> bool" where
  "poll_code c \<longleftrightarrow> (ucast (drop_bit 8 c) :: byte) \<in> {0x33, 0x37, 0x3b}"

lemma poll_codes: "poll_code POLL_CHIP_ERASE" "poll_code POLL_WRITE_PAGE" "poll_code POLL_FUSE_EXT" "poll_code POLL_FUSE_HIGH"
  "poll_code POLL_FUSE_LOW"
  by (simp_all add: poll_code_def POLL_CHIP_ERASE_def POLL_WRITE_PAGE_def POLL_FUSE_EXT_def POLL_FUSE_HIGH_def POLL_FUSE_LOW_def)

lemma avr_step_sleep: "avr_step d v (OpSleep n) = v"
  by (simp add: avr_step_def)

lemma wp_poll_loop:
  assumes "\<And>j w. w = v\<lparr>abusy := abusy v - j\<rparr> \<Longrightarrow> wp (avr_device d m f) p (\<lambda>r w'. case r of
      None \<Rightarrow> w' = v\<lparr>abusy := abusy v - Suc j\<rparr> | Some _ \<Rightarrow> abusy w = 0 \<and> w' = w) w"
    and "abusy v \<le> 10" "Q () (v\<lparr>abusy := 0\<rparr>)"
  shows "wp (avr_device d m f) (discard (jloop 0 10 (\<lambda>_. p))) Q v"
  unfolding discard_def
proof (rule wp_bind, rule wp_loop [where I = "\<lambda>j w. w = v\<lparr>abusy := abusy v - j\<rparr>"])
  fix j w assume w: "w = v\<lparr>abusy := abusy v - j\<rparr>"
  show "wp (avr_device d m f) p (\<lambda>r w'. case r of None \<Rightarrow> w' = v\<lparr>abusy := abusy v - Suc j\<rparr>
      | Some x \<Rightarrow> wp (avr_device d m f) (jret ()) Q w') w"
    by (rule wp_mono [OF assms(1) [OF w]]) (use assms(3) w in \<open>auto intro!: wp_ret split: option.splits\<close>)
next
  fix w assume "w = v\<lparr>abusy := abusy v - (0 + 10)\<rparr>"
  then show "wp (avr_device d m f) (jret ()) Q w" using assms(2,3) by (auto intro: wp_ret)
qed simp

lemma wp_avr_wait:
  assumes "air v = AVR_PROG_COMMANDS" "poll_code c" "abusy v \<le> 10" "Q () (v\<lparr>abusy := 0\<rparr>)"
  shows "wp (avr_device d m f) (avr_wait c) Q v" "wp (avr_device d m f) (avr_wait_page c) Q v"
  unfolding avr_wait_def avr_wait_page_def using assms
  by (auto intro!: wp_poll_loop wp_bind wp_ops wp_avr_ask wp_ret wp_if simp: avr_step_sleep poll_code_def command_poll)

section \<open>Fuses\<close>

definition avr_idle :: "avrdev \<Rightarrow> bool" where
  "avr_idle v \<longleftrightarrow> abusy v = 0 \<and> air v = AVR_PROG_COMMANDS"

lemma command_data: "abusy v = 0 \<Longrightarrow> avr_command d LOAD_DATA_LOW_BYTE b v = v\<lparr>adata := b\<rparr>"
  by (simp add: avr_command_def LOAD_DATA_LOW_BYTE_def)

lemma wp_avr_poll:
  "air v = AVR_PROG_COMMANDS \<Longrightarrow> poll_code c \<Longrightarrow> Q () (v\<lparr>abusy := abusy v - 1\<rparr>) \<Longrightarrow> wp (avr_device d m f) (avr_cmd c) Q v"
  unfolding poll_code_def by (rule wp_avr_cmd) (simp_all add: command_poll)

lemma command_fuse:
  assumes "abusy v = 0" "amode v = 0x40"
    and "(i, wr) \<in> {(FUSE_EXT, WRITE_FUSE_EXT), (FUSE_HIGH, WRITE_FUSE_HIGH), (FUSE_LOW, WRITE_FUSE_LOW)}"
  shows "avr_command d (ucast (drop_bit 8 wr)) (ucast wr) v = v\<lparr>afuse := (afuse v)(i := adata v), abusy := d\<rparr>"
  using assms(3) unfolding avr_command_def
  by (elim insertE emptyE; simp add: assms(1,2) WRITE_FUSE_EXT_def WRITE_FUSE_HIGH_def WRITE_FUSE_LOW_def
      FUSE_EXT_def FUSE_HIGH_def FUSE_LOW_def)

lemma wp_write_fuse:
  assumes "avr_idle v" "amode v = 0x40" "d \<le> 10" "i < length fuses" "poll_code poll"
    and wr: "(i, wr) \<in> {(FUSE_EXT, WRITE_FUSE_EXT), (FUSE_HIGH, WRITE_FUSE_HIGH), (FUSE_LOW, WRITE_FUSE_LOW)}"
    and q: "\<And>w. avr_idle w \<Longrightarrow> amode w = 0x40 \<Longrightarrow> aflash w = aflash v \<Longrightarrow>
      afuse w = (if fuses ! i = 0xff then afuse v else (afuse v)(i := fuses ! i)) \<Longrightarrow> Q () w"
  shows "wp (avr_device d m f) (avr_write_fuse i poll wr fuses) Q v"
  unfolding avr_write_fuse_def
proof (rule wp_bind, rule wp_lift [OF buf_get_in [OF assms(4)]], rule wp_if)
  have v: "air v = AVR_PROG_COMMANDS" "abusy v = 0" using assms(1) by (simp_all add: avr_idle_def)
  show "wp (avr_device d m f) (jseq [avr_load LOAD_DATA_LOW_BYTE (fuses ! i), avr_cmd poll, avr_cmd wr, avr_cmd poll, avr_cmd poll,
      avr_wait poll]) Q v" if "fuses ! i \<noteq> 0xff"
    by (rule wp_seq_Cons, rule wp_avr_load, simp add: v, rule wp_seq_Cons, rule wp_avr_poll, simp add: v command_data,
        rule assms(5), rule wp_seq_Cons, rule wp_avr_cmd, simp add: v command_data, rule wp_seq_Cons, rule wp_avr_poll,
        simp add: v command_data command_fuse [OF _ _ wr] assms(2), rule assms(5), rule wp_seq_Cons, rule wp_avr_poll,
        simp add: v command_data command_fuse [OF _ _ wr] assms(2), rule assms(5), rule wp_seq_Cons, rule wp_avr_wait)
      (use that assms(2,3,5) in \<open>auto simp: v command_data command_fuse [OF _ _ wr] avr_idle_def intro!: wp_ret q\<close>)
  show "wp (avr_device d m f) (jret ()) Q v" if "\<not> fuses ! i \<noteq> 0xff"
    using that assms(1,2) by (intro wp_ret q) auto
qed

text \<open>The fuse bytes after \<^verbatim>\<open>write_fuses\<close>: the lock byte is never written.\<close>

definition fuses_after :: "byte list \<Rightarrow> (nat \<Rightarrow> byte) \<Rightarrow> nat \<Rightarrow> byte" where
  "fuses_after fuses old i = (if i \<in> {FUSE_LOW, FUSE_HIGH, FUSE_EXT} \<and> fuses ! i \<noteq> 0xff then fuses ! i else old i)"

lemma command_mode: "abusy v = 0 \<Longrightarrow> avr_command d 0x23 b v = v\<lparr>amode := b\<rparr>"
  by (simp add: avr_command_def)

lemma wp_avr_enter:
  assumes "abusy v = 0" "(ucast (drop_bit 8 c) :: byte) = 0x23"
    and "wp (avr_device d m f) (jseq ms) Q (v\<lparr>air := AVR_PROG_COMMANDS, aread := 0, amode := ucast c\<rparr>)"
  shows "wp (avr_device d m f) (jseq (avr_commands # avr_cmd c # ms)) Q v"
  by (rule wp_seq_Cons, rule wp_avr_commands, rule wp_seq_Cons, rule wp_avr_cmd)
    (use assms in \<open>simp_all add: command_mode\<close>)

lemma wp_write_fuses:
  assumes "abusy v = 0" "d \<le> 10" "4 \<le> length fuses"
  shows "wp (avr_device d m f) (avr_write_fuses fuses) (\<lambda>r w. r = 0 \<and> avr_idle w \<and> aflash w = aflash v \<and>
    afuse w = fuses_after fuses (afuse v)) v"
proof -
  have m: "ucast (drop_bit 8 ENT_FUSE_WRITE) = (0x23 :: byte)" "ucast ENT_FUSE_WRITE = (0x40 :: byte)"
    by (simp_all add: ENT_FUSE_WRITE_def)
  have i: "FUSE_EXT < length fuses" "FUSE_HIGH < length fuses" "FUSE_LOW < length fuses"
    using assms(3) by (simp_all add: FUSE_EXT_def FUSE_HIGH_def FUSE_LOW_def)
  have n: "FUSE_EXT \<noteq> FUSE_HIGH" "FUSE_EXT \<noteq> FUSE_LOW" "FUSE_HIGH \<noteq> FUSE_LOW"
    by (simp_all add: FUSE_EXT_def FUSE_HIGH_def FUSE_LOW_def)
  show ?thesis
    unfolding avr_write_fuses_def
  proof (rule wp_bind, rule wp_avr_enter [OF assms(1) m(1)], rule wp_seq_Cons)
    let ?v = "v\<lparr>air := AVR_PROG_COMMANDS, aread := 0, amode := ucast ENT_FUSE_WRITE\<rparr>"
    let ?upd = "\<lambda>i g. if fuses ! i = 0xff then g else g(i := fuses ! i)"
    have v: "avr_idle ?v" "amode ?v = 0x40" using assms(1) m by (simp_all add: avr_idle_def)
    show "wp (avr_device d m f) (avr_write_fuse FUSE_EXT POLL_FUSE_EXT WRITE_FUSE_EXT fuses) (\<lambda>_. wp (avr_device d m f)
        (jseq [avr_write_fuse FUSE_HIGH POLL_FUSE_HIGH WRITE_FUSE_HIGH fuses, avr_write_fuse FUSE_LOW POLL_FUSE_LOW WRITE_FUSE_LOW fuses])
        (\<lambda>_. wp (avr_device d m f) (jret (0 :: int)) (\<lambda>r w. r = 0 \<and> avr_idle w \<and> aflash w = aflash v \<and>
          afuse w = fuses_after fuses (afuse v)))) ?v"
    proof (rule wp_write_fuse [OF v assms(2) i(1) poll_codes(3)], simp, rule wp_seq_Cons)
      fix w1 assume w1: "avr_idle w1" "amode w1 = 0x40" "aflash w1 = aflash ?v" "afuse w1 = ?upd FUSE_EXT (afuse ?v)"
      show "wp (avr_device d m f) (avr_write_fuse FUSE_HIGH POLL_FUSE_HIGH WRITE_FUSE_HIGH fuses) (\<lambda>_. wp (avr_device d m f)
          (jseq [avr_write_fuse FUSE_LOW POLL_FUSE_LOW WRITE_FUSE_LOW fuses])
          (\<lambda>_. wp (avr_device d m f) (jret (0 :: int)) (\<lambda>r w. r = 0 \<and> avr_idle w \<and> aflash w = aflash v \<and>
            afuse w = fuses_after fuses (afuse v)))) w1"
      proof (rule wp_write_fuse [OF w1(1,2) assms(2) i(2) poll_codes(4)], simp, rule wp_seq_Cons)
        fix w2 assume w2: "avr_idle w2" "amode w2 = 0x40" "aflash w2 = aflash w1" "afuse w2 = ?upd FUSE_HIGH (afuse w1)"
        show "wp (avr_device d m f) (avr_write_fuse FUSE_LOW POLL_FUSE_LOW WRITE_FUSE_LOW fuses) (\<lambda>_. wp (avr_device d m f) (jseq [])
            (\<lambda>_. wp (avr_device d m f) (jret (0 :: int)) (\<lambda>r w. r = 0 \<and> avr_idle w \<and> aflash w = aflash v \<and>
              afuse w = fuses_after fuses (afuse v)))) w2"
        proof (rule wp_write_fuse [OF w2(1,2) assms(2) i(3) poll_codes(5)], simp, intro wp_seq_Nil wp_ret)
          fix w3 assume w3: "avr_idle w3" "aflash w3 = aflash w2" "afuse w3 = ?upd FUSE_LOW (afuse w2)"
          have "afuse w3 j = fuses_after fuses (afuse v) j" for j
            unfolding w3(3) w2(4) w1(4) fuses_after_def using n by auto
          then show "(0 :: int) = 0 \<and> avr_idle w3 \<and> aflash w3 = aflash v \<and> afuse w3 = fuses_after fuses (afuse v)"
            using w3 w2 w1 by auto
        qed
      qed
    qed
  qed
qed

lemma wp_read_fuse:
  assumes "avr_idle v" "amode v = 0x04" "fuse_of (ucast (drop_bit 8 c)) = Some i" "i < length fuses" "Q (fuses[i := afuse v i]) v"
  shows "wp (avr_device d m f) (avr_read_fuse c i fuses) Q v"
proof -
  have "(ucast (drop_bit 8 c) :: byte) \<in> {0x3e, 0x32, 0x36, 0x37}"
    using assms(3) unfolding fuse_of_def by (simp split: if_splits)
  then have "avr_command d (ucast (drop_bit 8 c)) (ucast c) v = v"
    unfolding avr_command_def using assms(1,2) by (elim insertE emptyE; simp add: avr_idle_def)
  then show ?thesis
    unfolding avr_read_fuse_def using assms
    by (intro wp_bind wp_avr_ask) (auto simp: avr_idle_def intro!: wp_lift [OF buf_set_in])
qed

lemma wp_read_fuses:
  assumes "abusy v = 0" "length fuses = 4"
  shows "wp (avr_device d m f) (avr_read_fuses fuses) (\<lambda>r w. r = map (afuse v) [0..<4] \<and> avr_idle w \<and> afuse w = afuse v \<and>
    aflash w = aflash v) v"
proof -
  let ?v = "v\<lparr>air := AVR_PROG_COMMANDS, aread := 0, amode := ucast ENT_FUSE_READ\<rparr>"
  have m: "ucast (drop_bit 8 ENT_FUSE_READ) = (0x23 :: byte)" "ucast ENT_FUSE_READ = (0x04 :: byte)"
    "ucast (drop_bit 8 EN_FUSE_READ) = (0x3a :: byte)"
    by (simp_all add: ENT_FUSE_READ_def EN_FUSE_READ_def)
  have v: "avr_idle ?v" "amode ?v = 0x04" "air ?v = AVR_PROG_COMMANDS" using assms(1) m by (simp_all add: avr_idle_def)
  have e: "avr_command d (ucast (drop_bit 8 EN_FUSE_READ)) (ucast EN_FUSE_READ) ?v = ?v"
    using assms(1) unfolding m(3) avr_command_def by simp
  have c: "fuse_of (ucast (drop_bit 8 RD_FUSE_EXT)) = Some FUSE_EXT" "fuse_of (ucast (drop_bit 8 RD_FUSE_HIGH)) = Some FUSE_HIGH"
    "fuse_of (ucast (drop_bit 8 RD_FUSE_LOW)) = Some FUSE_LOW" "fuse_of (ucast (drop_bit 8 RD_FUSE_LOCK)) = Some FUSE_LOCK"
    by (simp_all add: fuse_of_def RD_FUSE_EXT_def RD_FUSE_HIGH_def RD_FUSE_LOW_def RD_FUSE_LOCK_def FUSE_EXT_def FUSE_HIGH_def
        FUSE_LOW_def FUSE_LOCK_def)
  have i: "FUSE_EXT < length fuses" "FUSE_HIGH < length fuses" "FUSE_LOW < length fuses" "FUSE_LOCK < length fuses"
    using assms(2) by (simp_all add: FUSE_EXT_def FUSE_HIGH_def FUSE_LOW_def FUSE_LOCK_def)
  obtain a b x y where fuses: "fuses = [a, b, x, y]" using assms(2) by (auto simp: length_Suc_conv numeral_eq_Suc)
  have n: "map (afuse v) [0..<4] = [afuse v 0, afuse v 1, afuse v 2, afuse v 3]" by (simp add: upt_rec numeral_2_eq_2 numeral_3_eq_3)
  show ?thesis
    unfolding avr_read_fuses_def
  proof (rule wp_bind, rule wp_avr_enter [OF assms(1) m(1)], rule wp_seq_Cons, rule wp_avr_cmd [OF v(3)], subst e, rule wp_seq_Nil)
    show "wp (avr_device d m f) (jbind (avr_read_fuse RD_FUSE_EXT FUSE_EXT fuses) (\<lambda>fuses.
        jbind (avr_read_fuse RD_FUSE_HIGH FUSE_HIGH fuses) (\<lambda>fuses. jbind (avr_read_fuse RD_FUSE_LOW FUSE_LOW fuses)
        (\<lambda>fuses. avr_read_fuse RD_FUSE_LOCK FUSE_LOCK fuses)))) (\<lambda>r w. r = map (afuse v) [0..<4] \<and> avr_idle w \<and>
        afuse w = afuse v \<and> aflash w = aflash v) ?v"
      by (rule wp_bind, rule wp_read_fuse [OF v(1,2) c(1)], simp add: i,
          rule wp_bind, rule wp_read_fuse [OF v(1,2) c(2)], simp add: i,
          rule wp_bind, rule wp_read_fuse [OF v(1,2) c(3)], simp add: i,
          rule wp_read_fuse [OF v(1,2) c(4)], simp add: i)
        (use v(1) n in \<open>simp add: fuses FUSE_EXT_def FUSE_HIGH_def FUSE_LOW_def FUSE_LOCK_def numeral_2_eq_2 numeral_3_eq_3\<close>)
  qed
qed

section \<open>Pages\<close>

text \<open>The byte address that a page gets: without an extended byte the part keeps the one before.\<close>

definition avr_target :: "u32 \<Rightarrow> avrdev \<Rightarrow> nat" where
  "avr_target a v = (if unat a < 2 ^ 17 then unat (aext v) * 2 ^ 17 + unat a else unat a mod 2 ^ 25)"

definition avr_addressed :: "u32 \<Rightarrow> avrdev \<Rightarrow> avrdev" where
  "avr_addressed a v = v\<lparr>aext := (if drop_bit 17 a \<noteq> 0 then ucast (drop_bit 17 a) else aext v), ahi := ucast (drop_bit 9 a),
     alo := ucast (drop_bit 1 a)\<rparr>"

lemma command_address:
  "abusy v = 0 \<Longrightarrow> avr_command d LOAD_ADDR_EXT_HIGH b v = v\<lparr>aext := b\<rparr>"
  "abusy v = 0 \<Longrightarrow> avr_command d LOAD_ADDR_HIGH b v = v\<lparr>ahi := b\<rparr>"
  "abusy v = 0 \<Longrightarrow> avr_command d LOAD_ADDR_LOW b v = v\<lparr>alo := b\<rparr>"
  by (simp_all add: avr_command_def LOAD_ADDR_EXT_HIGH_def LOAD_ADDR_HIGH_def LOAD_ADDR_LOW_def)

lemma wp_avr_address:
  assumes "avr_idle v" "Q () (avr_addressed a v)"
  shows "wp (avr_device d m f) (avr_address a) Q v"
  unfolding avr_address_def using assms
  by (intro wp_bind wp_if wp_avr_load wp_ret wp_seq_Cons wp_seq_Nil)
    (auto simp: avr_idle_def avr_addressed_def command_address intro!: wp_seq_Cons wp_avr_load wp_ret)

lemma base_addressed:
  assumes "even (unat a)"
  shows "avr_base (avr_addressed a v) = avr_target a v"
proof -
  have b: "unat (ucast (drop_bit n a) :: byte) = unat a div 2 ^ n mod 256" for n
    by (simp only: unsigned_ucast_eq unat_drop_bit_eq drop_bit_eq_div [of _ "unat a"]) (simp add: take_bit_eq_mod)
  have z: "drop_bit 17 a = 0 \<longleftrightarrow> unat a < 2 ^ 17"
    by (metis unat_drop_bit_eq drop_bit_eq_div unat_eq_0 div_eq_0_iff power_not_zero zero_neq_numeral)
  have s: "2 * ((x div 131072 mod 256 * 256 + x div 512 mod 256) * 256 + x div 2 mod 256) = x mod 33554432"
    "2 * (x div 512 mod 256 * 256 + x div 2 mod 256) = x mod 131072" if "even x" for x :: nat
    using that mod_mult2_eq [of x 131072 256] mod_mult2_eq [of x 512 256] mod_mult2_eq [of x 2 256] by simp_all
  show ?thesis
    using s [OF assms] by (simp add: avr_base_def avr_target_def avr_addressed_def b z)
qed

lemma step_ir: "avr_step d v (OpIR [AVR_PROG_PAGELOAD] False) = v\<lparr>air := AVR_PROG_PAGELOAD, aload := [], aread := 0\<rparr>"
  "avr_step d v (OpIR [AVR_PROG_PAGEREAD] False) = v\<lparr>air := AVR_PROG_PAGEREAD, aread := 0\<rparr>"
  by (simp_all add: avr_step_def AVR_PROG_PAGELOAD_def AVR_PROG_PAGEREAD_def)

lemma step_byte:
  "air v = AVR_PROG_PAGELOAD \<Longrightarrow> avr_step d v (OpDR (Some [b]) w 8 0 True) = v\<lparr>aload := aload v @ [b]\<rparr>"
  "air v = AVR_PROG_PAGEREAD \<Longrightarrow> avr_step d v (OpDR (Some [b]) w 8 0 True) = v\<lparr>aread := aread v + 1\<rparr>"
  by (simp_all add: avr_step_def AVR_PROG_COMMANDS_def AVR_PROG_PAGELOAD_def AVR_PROG_PAGEREAD_def)

lemma page_modes: "ucast (drop_bit 8 ENT_FLASH_WRITE) = (0x23 :: byte)" "ucast ENT_FLASH_WRITE = (0x10 :: byte)"
  "ucast (drop_bit 8 ENT_FLASH_READ) = (0x23 :: byte)" "ucast ENT_FLASH_READ = (0x02 :: byte)"
  by (simp_all add: ENT_FLASH_WRITE_def ENT_FLASH_READ_def)

lemma wp_load_page:
  assumes "air v = AVR_PROG_PAGELOAD" "aload v = []" "n \<le> length buf" "Q () (v\<lparr>aload := take n buf\<rparr>)"
  shows "wp (avr_device d m f) (jfold 0 n (\<lambda>i _. jbind (jlift (buf_get buf i)) (\<lambda>b. jshiftDR [b] 8 True)) ()) Q v"
proof (rule wp_fold [where I = "\<lambda>i _ w. w = v\<lparr>aload := take i buf\<rparr>"])
  fix i x w assume i: "i < 0 + n" "w = v\<lparr>aload := take i buf\<rparr>"
  then have "buf_get buf i = Inr (buf ! i)" "take (Suc i) buf = take i buf @ [buf ! i]"
    using assms(3) by (simp_all add: buf_get_in take_Suc_conv_app_nth)
  then show "wp (avr_device d m f) (jbind (jlift (buf_get buf i)) (\<lambda>b. jshiftDR [b] 8 True))
      (\<lambda>_ w. w = v\<lparr>aload := take (Suc i) buf\<rparr>) w"
    using assms(1) i(2) by (auto intro!: wp_bind wp_lift wp_ops simp: step_byte)
qed (use assms in auto)

lemma wp_fetch_page:
  assumes "air v = AVR_PROG_PAGEREAD" "aread v = 0" "n = length buf"
    and "\<And>w. abusy w = abusy v \<Longrightarrow> aflash w = aflash v \<Longrightarrow> afuse w = afuse v \<Longrightarrow> aext w = aext v \<Longrightarrow>
      Q (map (\<lambda>i. aflash v (avr_base v + i)) [0..<n]) w"
  shows "wp (avr_device d m f) (jfold 0 n (\<lambda>i buf. jbind (jlift (buf_get buf i)) (\<lambda>b.
      jbind (jcaptureDR (Some [b]) 8 True) (\<lambda>d. jlift (buf_set buf i (d ! 0))))) buf) Q v"
proof (rule wp_fold [where I = "\<lambda>i bs w. w = v\<lparr>aread := i\<rparr> \<and> length bs = n \<and> (\<forall>j < i. bs ! j = aflash v (avr_base v + j))"])
  fix i bs w assume i: "i < 0 + n" "w = v\<lparr>aread := i\<rparr> \<and> length bs = n \<and> (\<forall>j < i. bs ! j = aflash v (avr_base v + j))"
  have ans: "fit (nbytes 8) r ! 0 = aflash v (avr_base v + i)"
    if "avr_answer w (OpDR (Some [b]) True 8 0 True) r" for b r
  proof -
    have "1 \<le> length r" "r ! 0 = aflash v (avr_base v + i)"
      using that i(2) assms(1) by (simp_all add: avr_answer_def AVR_PROG_COMMANDS_def AVR_PROG_PAGEREAD_def avr_base_def)
    then show ?thesis by (cases r) (simp_all add: fit_def nbytes_def)
  qed
  show "wp (avr_device d m f) (jbind (jlift (buf_get bs i)) (\<lambda>b. jbind (jcaptureDR (Some [b]) 8 True)
      (\<lambda>d. jlift (buf_set bs i (d ! 0))))) (\<lambda>bs w. w = v\<lparr>aread := Suc i\<rparr> \<and> length bs = n \<and>
        (\<forall>j < Suc i. bs ! j = aflash v (avr_base v + j))) w"
    using i assms(1)
    by (auto intro!: wp_bind wp_lift [OF buf_get_in] wp_lift [OF buf_set_in] wp_captures
        simp: step_byte ans nth_list_update less_Suc_eq)
next
  fix bs w assume w: "w = v\<lparr>aread := 0 + n\<rparr> \<and> length bs = n \<and> (\<forall>j < 0 + n. bs ! j = aflash v (avr_base v + j))"
  then have "bs = map (\<lambda>i. aflash v (avr_base v + i)) [0..<n]" by (intro nth_equalityI) simp_all
  then show "Q bs w" using assms(4) w by simp
qed (use assms in auto)

lemma enter_idle: "abusy v = 0 \<Longrightarrow> avr_idle (v\<lparr>air := AVR_PROG_COMMANDS, aread := 0, amode := x\<rparr>)"
  by (simp add: avr_idle_def)

lemma target_ext: "aext w = (if drop_bit 17 a \<noteq> 0 then x else aext v) \<Longrightarrow> avr_target a w = avr_target a v"
proof -
  have "drop_bit 17 a = 0 \<longleftrightarrow> unat a < 2 ^ 17"
    by (metis unat_drop_bit_eq drop_bit_eq_div unat_eq_0 div_eq_0_iff power_not_zero zero_neq_numeral)
  then show "aext w = (if drop_bit 17 a \<noteq> 0 then x else aext v) \<Longrightarrow> ?thesis" by (simp add: avr_target_def)
qed

lemma base_fields: "avr_base (v\<lparr>air := x, aload := l, aread := r, abusy := b\<rparr>) = avr_base v" "avr_base (v\<lparr>air := x, aread := r, amode := y\<rparr>) = avr_base v"
  "avr_base (v\<lparr>air := x, aread := r\<rparr>) = avr_base v"
  by (simp_all add: avr_base_def)

lemma command_write_page:
  "abusy v = 0 \<Longrightarrow> amode v = 0x10 \<Longrightarrow> avr_command d (ucast (drop_bit 8 WRITE_PAGE)) (ucast WRITE_PAGE) v =
     v\<lparr>aflash := put_page (avr_base v) (aload v) (aflash v), abusy := d\<rparr>"
  by (simp add: avr_command_def WRITE_PAGE_def)

lemma wp_pagewrite:
  assumes "abusy v = 0" "d \<le> 10" "even (unat a)"
  shows "wp (avr_device d m f) (avr_pagewrite_flash a buf (length buf)) (\<lambda>r w. r = 0 \<and> abusy w = 0 \<and>
    aflash w = put_page (avr_target a v) buf (aflash v) \<and> avr_target a w = avr_target a v) v"
proof -
  let ?c = "v\<lparr>air := AVR_PROG_COMMANDS, aread := 0, amode := ucast ENT_FLASH_WRITE\<rparr>"
  obtain w where w: "w = avr_addressed a ?c" by blast
  have f: "abusy w = 0" "amode w = 0x10" "aflash w = aflash v" "avr_base w = avr_target a v"
    "aext w = (if drop_bit 17 a \<noteq> 0 then ucast (drop_bit 17 a) else aext v)"
    using assms(1) base_addressed [OF assms(3), of ?c] page_modes(2) by (simp_all add: w avr_addressed_def avr_target_def)
  let ?w = "w\<lparr>air := AVR_PROG_PAGELOAD, aload := buf, aread := 0\<rparr>"
  show ?thesis
    unfolding avr_pagewrite_flash_def
  proof (rule wp_bind, rule wp_avr_enter [OF assms(1) page_modes(1)], rule wp_seq_Cons, rule wp_avr_address [OF enter_idle [OF assms(1)]],
      fold w, rule wp_seq_Cons, rule wp_ops, unfold avr_device_sel step_ir, rule wp_seq_Nil, rule wp_bind, rule wp_load_page)
    show "wp (avr_device d m f) (jbind (jseq [avr_commands, avr_cmd POLL_WRITE_PAGE, avr_cmd WRITE_PAGE, avr_wait_page POLL_WRITE_PAGE])
       (\<lambda>_. jret 0)) (\<lambda>r w. r = 0 \<and> abusy w = 0 \<and> aflash w = put_page (avr_target a v) buf (aflash v) \<and>
         avr_target a w = avr_target a v) (w\<lparr>air := AVR_PROG_PAGELOAD, aload := [], aread := 0, aload := take (length buf) buf\<rparr>)"
      by (rule wp_bind, rule wp_seq_Cons, rule wp_avr_commands, rule wp_seq_Cons, rule wp_avr_poll, simp, rule poll_codes,
          rule wp_seq_Cons, rule wp_avr_cmd, simp, subst command_write_page, simp add: f, simp add: f, rule wp_seq_Cons,
          rule wp_avr_wait, simp, rule poll_codes, simp add: assms(2), intro wp_seq_Nil wp_ret)
        (use f in \<open>simp add: avr_base_def target_ext\<close>)
  qed simp_all
qed

lemma wp_pageread:
  assumes "abusy v = 0" "even (unat a)"
  shows "wp (avr_device d m f) (avr_pageread_flash a buf (length buf)) (\<lambda>r w. r = map (\<lambda>i. aflash v (avr_target a v + i)) [0..<length buf] \<and>
    abusy w = 0 \<and> aflash w = aflash v) v"
proof -
  let ?c = "v\<lparr>air := AVR_PROG_COMMANDS, aread := 0, amode := ucast ENT_FLASH_READ\<rparr>"
  obtain w where w: "w = avr_addressed a ?c" by blast
  have f: "abusy w = 0" "aflash w = aflash v" "avr_base w = avr_target a v"
    using assms(1) base_addressed [OF assms(2), of ?c] by (simp_all add: w avr_addressed_def avr_target_def)
  show ?thesis
    unfolding avr_pageread_flash_def
  proof (rule wp_bind, rule wp_avr_enter [OF assms(1) page_modes(3)], rule wp_seq_Cons, rule wp_avr_address [OF enter_idle [OF assms(1)]],
      fold w, rule wp_seq_Cons, rule wp_ops, unfold avr_device_sel step_ir, rule wp_seq_Nil, rule wp_bind, rule wp_fetch_page)
    fix x :: avrdev assume x: "abusy x = abusy (w\<lparr>air := AVR_PROG_PAGEREAD, aread := 0\<rparr>)" "aflash x = aflash (w\<lparr>air := AVR_PROG_PAGEREAD, aread := 0\<rparr>)"
    show "wp (avr_device d m f) (jbind (jseq [avr_commands, avr_commands]) (\<lambda>_. jret (map (\<lambda>i.
        aflash (w\<lparr>air := AVR_PROG_PAGEREAD, aread := 0\<rparr>) (avr_base (w\<lparr>air := AVR_PROG_PAGEREAD, aread := 0\<rparr>) + i)) [0..<length buf])))
        (\<lambda>r w. r = map (\<lambda>i. aflash v (avr_target a v + i)) [0..<length buf] \<and> abusy w = 0 \<and> aflash w = aflash v) x"
      by (intro wp_bind wp_seq_Cons wp_seq_Nil wp_avr_commands wp_ret) (use x f in \<open>simp add: base_fields\<close>)
  qed simp_all
qed

section \<open>The promises\<close>

text \<open>
  C29. A page that is written to a part whose operations take at most ten polls is in the flash memory
  at its address, where the extended byte is the one that the part has when the address needs none,
  and reading the page gives its bytes.
\<close>

theorem avr_page_roundtrip:
  assumes "honest (avr_device d mem fuses) (replies k)" "abusy (dview (avr_device d mem fuses) (hist k)) = 0"
    and "d \<le> 10" "even (unat a)" "length buf0 = length buf"
  shows "\<exists>k1 k2. avr_pagewrite_flash a buf (length buf) k = (Inr 0, k1) \<and>
     aflash (dview (avr_device d mem fuses) (hist k1)) =
       put_page (avr_target a (dview (avr_device d mem fuses) (hist k))) buf (aflash (dview (avr_device d mem fuses) (hist k))) \<and>
     avr_pageread_flash a buf0 (length buf) k1 = (Inr buf, k2)"
proof -
  let ?dd = "avr_device d mem fuses"
  obtain x k1 where 1: "avr_pagewrite_flash a buf (length buf) k = (Inr x, k1)" "replies k1 = replies k"
    "x = 0 \<and> abusy (dview ?dd (hist k1)) = 0 \<and> aflash (dview ?dd (hist k1)) =
        put_page (avr_target a (dview ?dd (hist k))) buf (aflash (dview ?dd (hist k))) \<and>
      avr_target a (dview ?dd (hist k1)) = avr_target a (dview ?dd (hist k))"
    using wp_pagewrite [OF assms(2-4)] assms(1) by (rule wp_run)
  then have "abusy (dview ?dd (hist k1)) = 0" "honest ?dd (replies k1)" using assms(1) by simp_all
  from wp_pageread [OF this(1) assms(4), of d mem fuses buf0] this(2) obtain r k2 where
    "avr_pageread_flash a buf0 (length buf0) k1 = (Inr r, k2)"
    "r = map (\<lambda>i. aflash (dview ?dd (hist k1)) (avr_target a (dview ?dd (hist k1)) + i)) [0..<length buf0] \<and>
      abusy (dview ?dd (hist k2)) = 0 \<and> aflash (dview ?dd (hist k2)) = aflash (dview ?dd (hist k1))"
    by (rule wp_run)
  moreover have "map (\<lambda>i. put_page t buf g (t + i)) [0..<length buf] = buf" for t g
    by (intro nth_equalityI) (simp_all add: put_page_def)
  ultimately show ?thesis using 1 assms(5) by simp
qed

text \<open>
  C30. \<^verbatim>\<open>write_fuses\<close> followed by \<^verbatim>\<open>read_fuses\<close> returns the fuse bytes that were asked for, except that
  a byte \<open>0xff\<close> and the lock byte leave what the part had.
\<close>

theorem avr_fuses_roundtrip:
  assumes "honest (avr_device d mem fs) (replies k)" "abusy (dview (avr_device d mem fs) (hist k)) = 0"
    and "d \<le> 10" "4 \<le> length fuses" "length buf = 4"
  shows "\<exists>k1 k2. avr_write_fuses fuses k = (Inr 0, k1) \<and>
     avr_read_fuses buf k1 = (Inr (map (fuses_after fuses (afuse (dview (avr_device d mem fs) (hist k)))) [0..<4]), k2)"
proof -
  let ?dd = "avr_device d mem fs"
  obtain x k1 where 1: "avr_write_fuses fuses k = (Inr x, k1)" "replies k1 = replies k"
    "x = 0 \<and> avr_idle (dview ?dd (hist k1)) \<and> aflash (dview ?dd (hist k1)) = aflash (dview ?dd (hist k)) \<and>
      afuse (dview ?dd (hist k1)) = fuses_after fuses (afuse (dview ?dd (hist k)))"
    using wp_write_fuses [OF assms(2-4)] assms(1) by (rule wp_run)
  then have "abusy (dview ?dd (hist k1)) = 0" "honest ?dd (replies k1)" using assms(1) by (simp_all add: avr_idle_def)
  from wp_read_fuses [OF this(1) assms(5)] this(2) obtain r k2 where "avr_read_fuses buf k1 = (Inr r, k2)"
    "r = map (afuse (dview ?dd (hist k1))) [0..<4] \<and> avr_idle (dview ?dd (hist k2)) \<and>
      afuse (dview ?dd (hist k2)) = afuse (dview ?dd (hist k1)) \<and> aflash (dview ?dd (hist k2)) = aflash (dview ?dd (hist k1))"
    by (rule wp_run)
  with 1 show ?thesis by simp
qed

text \<open>
  Erasing, writing fuses and writing a page report success whatever the part answers, also when it
  never becomes ready: the tests that should notice compare two constants.
\<close>

theorem avr_reports_success:
  assumes "4 \<le> length fuses" "n \<le> length buf"
  shows "fst (avr_erase k) = Inr 0 \<and> fst (avr_write_fuses fuses k) = Inr 0 \<and> fst (avr_pagewrite_flash a buf n k) = Inr 0"
proof -
  have loop: "wp any_device (discard (jloop 0 m (\<lambda>_. p))) Q v" if "\<And>P v. (\<And>x. P x ()) \<Longrightarrow> wp any_device p P v" "Q () ()" for m p Q v
    unfolding discard_def by (rule wp_bind, rule wp_loop [where I = "\<lambda>_ _. True"]) (auto intro!: that wp_ret split: option.split)
  have w: "wp any_device (avr_wait c) Q v" "wp any_device (avr_wait_page c) Q v" if "Q () ()" for c Q v
    unfolding avr_wait_def avr_wait_page_def avr_ask_def
    by (intro loop wp_intro that; simp)+
  have f: "wp any_device (avr_write_fuse i p c fuses) Q v" if "i < 4" "Q () ()" for i p c Q v
    unfolding avr_write_fuse_def avr_load_def avr_cmd_def using that assms(1)
    by (intro wp_bind wp_lift [OF buf_get_in] wp_if wp_seq_Cons wp_seq_Nil wp_ops wp_ret) (auto intro!: w wp_ret)
  have ad: "wp any_device (avr_address a) Q v" if "Q () ()" for Q v
    unfolding avr_address_def avr_load_def using that by (intro wp_intro) simp_all
  have pg: "wp any_device (jfold 0 n (\<lambda>i _. jbind (jlift (buf_get buf i)) (\<lambda>b. jshiftDR [b] 8 True)) ()) Q v" if "Q () ()" for Q v
    by (rule wp_fold [where I = "\<lambda>_ _ _. True"]) (use that assms(2) in \<open>auto intro!: wp_bind wp_lift [OF buf_get_in] wp_ops\<close>)
  have "\<exists>x. fst (avr_erase k) = Inr x \<and> x = 0"
    unfolding avr_erase_def avr_commands_def avr_cmd_def by (rule wp_any) (intro wp_bind wp_seq_Cons wp_seq_Nil wp_ops w wp_ret, simp)
  moreover have "\<exists>x. fst (avr_write_fuses fuses k) = Inr x \<and> x = 0"
    unfolding avr_write_fuses_def avr_commands_def avr_cmd_def FUSE_EXT_def FUSE_HIGH_def FUSE_LOW_def
    by (rule wp_any) (intro wp_bind wp_seq_Cons wp_seq_Nil wp_ops f wp_ret, simp_all)
  moreover have "\<exists>x. fst (avr_pagewrite_flash a buf n k) = Inr x \<and> x = 0"
    unfolding avr_pagewrite_flash_def avr_commands_def avr_cmd_def
    by (rule wp_any) (intro wp_bind wp_seq_Cons wp_seq_Nil wp_ops ad pg w wp_ret, simp)
  ultimately show ?thesis by simp
qed

section \<open>An executable part\<close>

definition avr_replies :: "nat \<Rightarrow> (nat \<Rightarrow> byte) \<Rightarrow> (nat \<Rightarrow> byte) \<Rightarrow> jop list \<Rightarrow> byte list" where
  "avr_replies d mem fuses cs =
     (let v = dview (avr_device d mem fuses) (butlast cs)
      in case last cs of
           OpDR (Some bs) _ _ _ _ \<Rightarrow>
             if air v = AVR_PROG_PAGEREAD then [aflash v (avr_base v + aread v)]
             else [case fuse_of (bs ! 1) of None \<Rightarrow> 0 | Some i \<Rightarrow> afuse v i, if abusy v = 0 then 2 else 0]
         | _ \<Rightarrow> [])"

lemma avr_replies_honest: "honest (avr_device d mem fuses) (avr_replies d mem fuses)"
  by (auto simp: honest_def avr_answer_def avr_replies_def AVR_PROG_COMMANDS_def AVR_PROG_PAGEREAD_def Let_def
      split: jop.split option.split bool.split)

definition avr_link :: jlink where
  "avr_link = \<lparr>hist = [], replies = avr_replies 3 (\<lambda>_. 0) (\<lambda>_. 0xAA)\<rparr>"

lemma avr_link: "honest (avr_device 3 (\<lambda>_. 0) (\<lambda>_. 0xAA)) (replies avr_link)"
  "dview (avr_device 3 (\<lambda>_. 0) (\<lambda>_. 0xAA)) (hist avr_link) = avr_blank (\<lambda>_. 0) (\<lambda>_. 0xAA)"
  by (simp add: avr_link_def avr_replies_honest, simp add: avr_link_def dview_def avr_device_def)

lemma avr_page_roundtrip_witness:
  "\<exists>k1 k2. avr_pagewrite_flash 0x20100 (map of_nat [0..<256]) 256 avr_link = (Inr 0, k1) \<and>
     avr_pageread_flash 0x20100 (replicate 256 0) 256 k1 = (Inr (map of_nat [0..<256]), k2)"
  using avr_page_roundtrip [OF avr_link(1), of "0x20100" "replicate 256 0" "map of_nat [0..<256]"]
  by (auto simp: avr_link(2) avr_blank_def)

lemma avr_fuses_roundtrip_witness:
  "\<exists>k1 k2. avr_write_fuses [1, 2, 0xff, 4] avr_link = (Inr 0, k1) \<and>
     avr_read_fuses [0, 0, 0, 0] k1 = (Inr [0xAA, 2, 0xAA, 4], k2)"
proof -
  have "map (fuses_after [1, 2, 0xff, 4] (\<lambda>_. 0xAA)) [0..<4] = [0xAA, 2, 0xAA, 4]" by code_simp
  then show ?thesis
    using avr_fuses_roundtrip [OF avr_link(1), of "[1, 2, 0xff, 4]" "[0, 0, 0, 0]"] by (simp add: avr_link(2) avr_blank_def)
qed

lemma avr_reports_success_witness:
  "fst (avr_pagewrite_flash 0 (replicate 128 0) 128 \<lparr>hist = [], replies = \<lambda>_. []\<rparr>) = Inr 0"
  using avr_reports_success [of "replicate 4 0" 128 "replicate 128 0" "\<lparr>hist = [], replies = \<lambda>_. []\<rparr>" 0] by simp

end
