(* ===== verification/Pdi.thy ===== *)
theory Pdi
  imports ProgAlg
begin

text \<open>
  \<^verbatim>\<open>pdioverjtag.cpp\<close>, \<^verbatim>\<open>pdibase.h\<close>: the program and debug interface of the XMEGA parts behind the
  instruction \<^verbatim>\<open>PDICOM\<close>, bytes with a parity bit as data scans of nine bits. The debug file is left out.
\<close>

datatype PDI_STATUS_CODE = STATUS_OK | ERR_IO_ERROR | ERR_FLUSHED | ERR_TIMEOUT | ERR_BAD_DATA | ERR_PROTOCOL
  | ERR_UNSUPPORTED_DEV | ERR_NO_MEMORY | ERR_INVALID_ARG | ERR_BAD_ADDRESS | ERR_BUSY | ERR_BAD_FORMAT

definition get_parity :: "byte \<Rightarrow> byte" where
  "get_parity d = fold (\<lambda>i p. if bit d i then p XOR 1 else p) [0..<8] 0"

definition pdi_write :: "byte \<Rightarrow> byte list \<Rightarrow> nat \<Rightarrow> PDI_STATUS_CODE jm" where
  "pdi_write pdicmd data n =
     jbind (jshiftIR [pdicmd]) (\<lambda>_.
     jbind (jfold 0 n (\<lambda>i _. jbind (jlift (buf_get data i)) (\<lambda>b. jshiftDR [b, get_parity b] 9 True)) ()) (\<lambda>_.
       jret STATUS_OK))"

text \<open>
  The inner loop of \<^verbatim>\<open>pdi_read\<close>: the part answers 0xeb with a wrong parity while it has nothing to send.
  \<open>j\<close> counts the repetitions of the whole call, \<open>k\<close> are left.
\<close>

fun pdi_wait :: "nat \<Rightarrow> nat \<Rightarrow> byte list \<Rightarrow> (nat \<times> byte list) jm" where
  "pdi_wait j 0 rv = jret (j, rv)"
| "pdi_wait j (Suc k) rv =
     (if get_parity (rv ! 0) \<noteq> rv ! 1 \<and> rv ! 0 = 0xeb
      then jbind (jcaptureDR None 9 True) (pdi_wait (j + 1) k)
      else jret (j, rv))"

definition pdi_read_byte :: "nat \<Rightarrow> nat \<times> byte list \<Rightarrow> (nat \<times> byte list + nat \<times> byte list) jm" where
  "pdi_read_byte retries = (\<lambda>(j, data).
     jbind (jcaptureDR None 9 True) (\<lambda>rv.
     jbind (pdi_wait j (retries - j) rv) (\<lambda>(j, rv).
       if j = retries then jret (Inl (0, data))
       else if get_parity (rv ! 0) \<noteq> rv ! 1 then jret (Inl (0, data))
       else jret (Inr (j, data @ [rv ! 0])))))"

text \<open>The value returned and the bytes stored: nothing is returned, but some are stored, when a byte fails.\<close>

definition pdi_read :: "byte \<Rightarrow> nat \<Rightarrow> nat \<Rightarrow> (nat \<times> byte list) jm" where
  "pdi_read pdicmd n retries =
     jbind (jshiftIR [pdicmd]) (\<lambda>_.
     jbind (jscan 0 n (\<lambda>_. pdi_read_byte retries) (0, [])) (\<lambda>r.
       case r of Inl r \<Rightarrow> jret r | Inr (_, data) \<Rightarrow> jret (n, data)))"

end
