(* ===== verification/Xmega.thy ===== *)
theory Xmega
  imports Pdi
begin

text \<open>
  \<^verbatim>\<open>xmega_pdi_nvm.cpp\<close>: the controller of the memories of the XMEGA parts, behind the program and debug
  interface. \<^verbatim>\<open>cmd_buffer\<close> is filled before each write and appears as its argument; \<^verbatim>\<open>memmove\<close> of an
  integer gives its bytes in the order of a little-endian machine.
\<close>

section \<open>Constants\<close>

definition XNVM_PDI_LDS_INSTR :: byte where "XNVM_PDI_LDS_INSTR = 0x00"
definition XNVM_PDI_STS_INSTR :: byte where "XNVM_PDI_STS_INSTR = 0x40"
definition XNVM_PDI_LD_INSTR :: byte where "XNVM_PDI_LD_INSTR = 0x20"
definition XNVM_PDI_ST_INSTR :: byte where "XNVM_PDI_ST_INSTR = 0x60"
definition XNVM_PDI_LDCS_INSTR :: byte where "XNVM_PDI_LDCS_INSTR = 0x80"
definition XNVM_PDI_STCS_INSTR :: byte where "XNVM_PDI_STCS_INSTR = 0xC0"
definition XNVM_PDI_REPEAT_INSTR :: byte where "XNVM_PDI_REPEAT_INSTR = 0xA0"
definition XNVM_PDI_KEY_INSTR :: byte where "XNVM_PDI_KEY_INSTR = 0xE0"
definition XNVM_PDI_LONG_ADDRESS_MASK :: byte where "XNVM_PDI_LONG_ADDRESS_MASK = 0x0C"
definition XNVM_PDI_BYTE_DATA_MASK :: byte where "XNVM_PDI_BYTE_DATA_MASK = 0x00"
definition XNVM_PDI_WORD_DATA_MASK :: byte where "XNVM_PDI_WORD_DATA_MASK = 0x01"
definition XNVM_PDI_3BYTES_DATA_MASK :: byte where "XNVM_PDI_3BYTES_DATA_MASK = 0x02"
definition XNVM_PDI_LONG_DATA_MASK :: byte where "XNVM_PDI_LONG_DATA_MASK = 0x03"
definition XNVM_PDI_LD_PTR_STAR_INC_MASK :: byte where "XNVM_PDI_LD_PTR_STAR_INC_MASK = 0x04"
definition XNVM_PDI_LD_PTR_ADDRESS_MASK :: byte where "XNVM_PDI_LD_PTR_ADDRESS_MASK = 0x08"

definition XNVM_CMD_CHIP_ERASE :: byte where "XNVM_CMD_CHIP_ERASE = 0x40"
definition XNVM_CMD_READ_NVM_PDI :: byte where "XNVM_CMD_READ_NVM_PDI = 0x43"
definition XNVM_CMD_LOAD_FLASH_PAGE_BUFFER :: byte where "XNVM_CMD_LOAD_FLASH_PAGE_BUFFER = 0x23"
definition XNVM_CMD_ERASE_FLASH_PAGE_BUFFER :: byte where "XNVM_CMD_ERASE_FLASH_PAGE_BUFFER = 0x26"
definition XNVM_CMD_WRITE_FLASH_PAGE :: byte where "XNVM_CMD_WRITE_FLASH_PAGE = 0x2E"
definition XNVM_CMD_ERASE_AND_WRITE_FLASH_PAGE :: byte where "XNVM_CMD_ERASE_AND_WRITE_FLASH_PAGE = 0x2F"
definition XNVM_CMD_ERASE_APP_SECTION :: byte where "XNVM_CMD_ERASE_APP_SECTION = 0x20"
definition XNVM_CMD_ERASE_AND_WRITE_APP_SECTION :: byte where "XNVM_CMD_ERASE_AND_WRITE_APP_SECTION = 0x25"
definition XNVM_CMD_ERASE_BOOT_SECTION :: byte where "XNVM_CMD_ERASE_BOOT_SECTION = 0x68"
definition XNVM_CMD_ERASE_USER_SIGN :: byte where "XNVM_CMD_ERASE_USER_SIGN = 0x18"
definition XNVM_CMD_WRITE_USER_SIGN :: byte where "XNVM_CMD_WRITE_USER_SIGN = 0x1A"
definition XNVM_CMD_WRITE_FUSE :: byte where "XNVM_CMD_WRITE_FUSE = 0x4C"
definition XNVM_CMD_WRITE_LOCK_BITS :: byte where "XNVM_CMD_WRITE_LOCK_BITS = 0x08"
definition XNVM_CMD_LOAD_EEPROM_PAGE_BUFFER :: byte where "XNVM_CMD_LOAD_EEPROM_PAGE_BUFFER = 0x33"
definition XNVM_CMD_ERASE_EEPROM_PAGE_BUFFER :: byte where "XNVM_CMD_ERASE_EEPROM_PAGE_BUFFER = 0x36"
definition XNVM_CMD_ERASE_EEPROM :: byte where "XNVM_CMD_ERASE_EEPROM = 0x30"
definition XNVM_CMD_ERASE_AND_WRITE_EEPROM :: byte where "XNVM_CMD_ERASE_AND_WRITE_EEPROM = 0x35"

definition NVM_KEY :: "byte list" where
  "NVM_KEY = [0xFF, 0x88, 0xD8, 0xCD, 0x45, 0xAB, 0x89, 0x12]"

definition XNVM_FLASH_BASE :: u32 where "XNVM_FLASH_BASE = 0x0800000"
definition XNVM_EEPROM_BASE :: u32 where "XNVM_EEPROM_BASE = 0x08C0000"
definition XNVM_FUSE_BASE :: u32 where "XNVM_FUSE_BASE = 0x08F0020"
definition XNVM_DATA_BASE :: u32 where "XNVM_DATA_BASE = 0x1000000"
definition XNVM_SIGNATURE_BASE :: u32 where "XNVM_SIGNATURE_BASE = 0x008E0400"
definition XNVM_CONTROLLER_BASE :: u16 where "XNVM_CONTROLLER_BASE = 0x01C0"
definition XNVM_CONTROLLER_CMD_REG_OFFSET :: u16 where "XNVM_CONTROLLER_CMD_REG_OFFSET = 0x0A"
definition XNVM_CONTROLLER_STATUS_REG_OFFSET :: u16 where "XNVM_CONTROLLER_STATUS_REG_OFFSET = 0x0F"
definition XNVM_CONTROLLER_CTRLA_REG_OFFSET :: u16 where "XNVM_CONTROLLER_CTRLA_REG_OFFSET = 0x0B"
definition XNVM_CTRLA_CMDEX :: byte where "XNVM_CTRLA_CMDEX = 0x01"
definition XNVM_NVMEN :: byte where "XNVM_NVMEN = 0x02"
definition XNVM_NVM_BUSY :: byte where "XNVM_NVM_BUSY = 0x80"
definition XOCD_RESET_REGISTER_ADDRESS :: byte where "XOCD_RESET_REGISTER_ADDRESS = 0x01"
definition XOCD_RESET_SIGNATURE :: byte where "XOCD_RESET_SIGNATURE = 0x59"
definition NVM_LOCKBIT_ADDR :: u32 where "NVM_LOCKBIT_ADDR = 7"
definition WAIT_RETRIES_NUM :: nat where "WAIT_RETRIES_NUM = 1000"
definition DUMMY_BYTE :: byte where "DUMMY_BYTE = 0x55"

section \<open>The object and its registers\<close>

text \<open>The instruction of the protocol, and whether \<^verbatim>\<open>xnvm_init\<close> has run.\<close>

record nvm =
  pdicmd :: byte
  initialized :: bool

definition nvm_new :: "byte \<Rightarrow> nvm" where
  "nvm_new c = \<lparr>pdicmd = c, initialized = False\<rparr>"

definition xnvm_send :: "nvm \<Rightarrow> byte list \<Rightarrow> PDI_STATUS_CODE jm" where
  "xnvm_send a bs = pdi_write (pdicmd a) bs (length bs)"

definition xnvm_put_dev_in_reset :: "nvm \<Rightarrow> PDI_STATUS_CODE jm" where
  "xnvm_put_dev_in_reset a =
     jbind (xnvm_send a [XNVM_PDI_STCS_INSTR OR XOCD_RESET_REGISTER_ADDRESS, XOCD_RESET_SIGNATURE]) (\<lambda>r.
       jret (if r \<noteq> STATUS_OK then ERR_IO_ERROR else STATUS_OK))"

definition xnvm_pull_dev_out_of_reset :: "nvm \<Rightarrow> PDI_STATUS_CODE jm" where
  "xnvm_pull_dev_out_of_reset a =
     jbind (xnvm_send a [XNVM_PDI_STCS_INSTR OR XOCD_RESET_REGISTER_ADDRESS, 0]) (\<lambda>r.
       jret (if r \<noteq> STATUS_OK then ERR_IO_ERROR else STATUS_OK))"

text \<open>The byte stored through the pointer, if there is one.\<close>

definition stored :: "byte list \<Rightarrow> byte option" where
  "stored bs = (case bs of [] \<Rightarrow> None | b # _ \<Rightarrow> Some b)"

definition xnvm_read_pdi_status :: "nvm \<Rightarrow> (PDI_STATUS_CODE \<times> byte option) jm" where
  "xnvm_read_pdi_status a =
     jbind (xnvm_send a [XNVM_PDI_LDCS_INSTR]) (\<lambda>r.
     jbind (pdi_read (pdicmd a) 1 WAIT_RETRIES_NUM) (\<lambda>(n, data).
       jret (if n = 0 then ERR_TIMEOUT else if r \<noteq> STATUS_OK then ERR_BAD_DATA else STATUS_OK, stored data)))"

text \<open>The status is read only after \<^verbatim>\<open>STATUS_OK\<close>.\<close>

definition xnvm_wait_for_nvmen :: "nvm \<Rightarrow> nat \<Rightarrow> PDI_STATUS_CODE jm" where
  "xnvm_wait_for_nvmen a retries =
     jbind (jloop 0 retries (\<lambda>_. jbind (xnvm_read_pdi_status a) (\<lambda>(r, pdi_status).
       if r \<noteq> STATUS_OK then jret (Some ERR_BAD_DATA)
       else case pdi_status of
              None \<Rightarrow> jlift (Inl Uninit)
            | Some b \<Rightarrow> jret (if b AND XNVM_NVMEN \<noteq> 0 then Some STATUS_OK else None)))) (\<lambda>r.
       jret (case r of None \<Rightarrow> ERR_TIMEOUT | Some r \<Rightarrow> r))"

definition xnvm_ioread_byte :: "nvm \<Rightarrow> u16 \<Rightarrow> (PDI_STATUS_CODE \<times> byte option) jm" where
  "xnvm_ioread_byte a address =
     jbind (xnvm_send a ((XNVM_PDI_LDS_INSTR OR XNVM_PDI_LONG_ADDRESS_MASK OR XNVM_PDI_BYTE_DATA_MASK)
       # longToByteArray (XNVM_DATA_BASE + ucast address))) (\<lambda>r.
     if r = STATUS_OK
     then jbind (pdi_read (pdicmd a) 1 WAIT_RETRIES_NUM) (\<lambda>(n, data). jret (if n \<noteq> 0 then ERR_BAD_DATA else r, stored data))
     else jret (r, None))"

definition xnvm_iowrite_byte :: "nvm \<Rightarrow> u16 \<Rightarrow> byte \<Rightarrow> PDI_STATUS_CODE jm" where
  "xnvm_iowrite_byte a address v =
     xnvm_send a ((XNVM_PDI_STS_INSTR OR XNVM_PDI_LONG_ADDRESS_MASK OR XNVM_PDI_BYTE_DATA_MASK)
       # longToByteArray (XNVM_DATA_BASE + ucast address) @ [v])"

definition xnvm_ctrl_read_reg :: "nvm \<Rightarrow> u16 \<Rightarrow> (PDI_STATUS_CODE \<times> byte option) jm" where
  "xnvm_ctrl_read_reg a reg = xnvm_ioread_byte a (XNVM_CONTROLLER_BASE + reg)"

definition xnvm_ctrl_read_status :: "nvm \<Rightarrow> (PDI_STATUS_CODE \<times> byte option) jm" where
  "xnvm_ctrl_read_status a = xnvm_ctrl_read_reg a XNVM_CONTROLLER_STATUS_REG_OFFSET"

definition xnvm_ctrl_write_reg :: "nvm \<Rightarrow> u16 \<Rightarrow> byte \<Rightarrow> PDI_STATUS_CODE jm" where
  "xnvm_ctrl_write_reg a reg v = xnvm_iowrite_byte a (XNVM_CONTROLLER_BASE + reg) v"

definition xnvm_ctrl_cmdex_write :: "nvm \<Rightarrow> PDI_STATUS_CODE jm" where
  "xnvm_ctrl_cmdex_write a = xnvm_ctrl_write_reg a XNVM_CONTROLLER_CTRLA_REG_OFFSET XNVM_CTRLA_CMDEX"

definition xnvm_ctrl_cmd_write :: "nvm \<Rightarrow> byte \<Rightarrow> PDI_STATUS_CODE jm" where
  "xnvm_ctrl_cmd_write a c = xnvm_ctrl_write_reg a XNVM_CONTROLLER_CMD_REG_OFFSET c"

text \<open>
  The result of reading the status register is ignored here: a byte that was stored is used, and one
  that was not leaves the variable as it is.
\<close>

definition xnvm_ctrl_wait_nvmbusy :: "nvm \<Rightarrow> nat \<Rightarrow> PDI_STATUS_CODE jm" where
  "xnvm_ctrl_wait_nvmbusy a retries =
     jbind (jscan 0 retries (\<lambda>_ status. jbind (xnvm_ctrl_read_status a) (\<lambda>(_, got).
       case (case got of None \<Rightarrow> status | Some b \<Rightarrow> Some b) of
         None \<Rightarrow> jlift (Inl Uninit)
       | Some b \<Rightarrow> jret (if b AND XNVM_NVM_BUSY = 0 then Inl STATUS_OK else Inr (Some b)))) None) (\<lambda>r.
       jret (case r of Inl r \<Rightarrow> r | Inr _ \<Rightarrow> ERR_TIMEOUT))"

text \<open>A second call returns a variable that was never assigned.\<close>

definition xnvm_init :: "nvm \<Rightarrow> (PDI_STATUS_CODE \<times> nvm) jm" where
  "xnvm_init a =
     (if initialized a then jlift (Inl Uninit)
      else jbind (xnvm_put_dev_in_reset a) (\<lambda>_.
           jbind (xnvm_send a (XNVM_PDI_KEY_INSTR # NVM_KEY)) (\<lambda>_.
           jbind (xnvm_ctrl_wait_nvmbusy a WAIT_RETRIES_NUM) (\<lambda>r.
             jret (r, a\<lparr>initialized := True\<rparr>)))))"

section \<open>Pointer, repetition and memories\<close>

definition xnvm_write_repeat :: "nvm \<Rightarrow> u32 \<Rightarrow> PDI_STATUS_CODE jm" where
  "xnvm_write_repeat a count =
     (let count = count - 1
      in if count < 2 ^ 8 then xnvm_send a [XNVM_PDI_REPEAT_INSTR OR XNVM_PDI_BYTE_DATA_MASK, ucast count]
         else if count < 2 ^ 16
         then xnvm_send a ((XNVM_PDI_REPEAT_INSTR OR XNVM_PDI_WORD_DATA_MASK) # take 2 (longToByteArray count))
         else if count < 2 ^ 24
         then xnvm_send a ((XNVM_PDI_REPEAT_INSTR OR XNVM_PDI_3BYTES_DATA_MASK) # take 3 (longToByteArray count))
         else xnvm_send a ((XNVM_PDI_REPEAT_INSTR OR XNVM_PDI_LONG_DATA_MASK) # longToByteArray count))"

definition xnvm_st_star_ptr_postinc :: "nvm \<Rightarrow> byte \<Rightarrow> PDI_STATUS_CODE jm" where
  "xnvm_st_star_ptr_postinc a v =
     xnvm_send a [XNVM_PDI_ST_INSTR OR XNVM_PDI_LD_PTR_STAR_INC_MASK OR XNVM_PDI_BYTE_DATA_MASK, v]"

definition xnvm_st_ptr :: "nvm \<Rightarrow> u32 \<Rightarrow> PDI_STATUS_CODE jm" where
  "xnvm_st_ptr a address =
     xnvm_send a ((XNVM_PDI_ST_INSTR OR XNVM_PDI_LD_PTR_ADDRESS_MASK OR XNVM_PDI_LONG_DATA_MASK) # longToByteArray address)"

text \<open>Statements whose result is ignored, then the one that returns.\<close>

definition xnvm_do :: "PDI_STATUS_CODE jm list \<Rightarrow> 'a jm \<Rightarrow> 'a jm" where
  "xnvm_do ms m = jbind (jseq (map discard ms)) (\<lambda>_. m)"

definition xnvm_chip_erase :: "nvm \<Rightarrow> PDI_STATUS_CODE jm" where
  "xnvm_chip_erase a =
     xnvm_do [xnvm_ctrl_cmd_write a XNVM_CMD_CHIP_ERASE, xnvm_ctrl_cmdex_write a] (xnvm_wait_for_nvmen a WAIT_RETRIES_NUM)"

definition xnvm_application_erase :: "nvm \<Rightarrow> PDI_STATUS_CODE jm" where
  "xnvm_application_erase a =
     xnvm_do [xnvm_ctrl_cmd_write a XNVM_CMD_ERASE_APP_SECTION, xnvm_st_ptr a XNVM_FLASH_BASE,
       xnvm_st_star_ptr_postinc a DUMMY_BYTE] (xnvm_wait_for_nvmen a WAIT_RETRIES_NUM)"

definition xnvm_boot_erase :: "nvm \<Rightarrow> u32 \<Rightarrow> PDI_STATUS_CODE jm" where
  "xnvm_boot_erase a address =
     xnvm_do [xnvm_ctrl_cmd_write a XNVM_CMD_ERASE_BOOT_SECTION, xnvm_st_ptr a address,
       xnvm_st_star_ptr_postinc a DUMMY_BYTE] (xnvm_ctrl_wait_nvmbusy a WAIT_RETRIES_NUM)"

definition xnvm_erase_eeprom :: "nvm \<Rightarrow> PDI_STATUS_CODE jm" where
  "xnvm_erase_eeprom a =
     xnvm_do [xnvm_ctrl_cmd_write a XNVM_CMD_ERASE_EEPROM, xnvm_st_ptr a XNVM_EEPROM_BASE,
       xnvm_st_star_ptr_postinc a DUMMY_BYTE] (xnvm_ctrl_wait_nvmbusy a WAIT_RETRIES_NUM)"

text \<open>The buffer is what the pointer points to, \<open>None\<close> the null pointer.\<close>

definition xnvm_store_buffer :: "nvm \<Rightarrow> byte list \<Rightarrow> u16 \<Rightarrow> PDI_STATUS_CODE jm" where
  "xnvm_store_buffer a buf n =
     xnvm_do [xnvm_send a [XNVM_PDI_ST_INSTR OR XNVM_PDI_LD_PTR_STAR_INC_MASK OR XNVM_PDI_BYTE_DATA_MASK]]
       (pdi_write (pdicmd a) buf (unat n))"

definition xnvm_load_flash_page_buffer :: "nvm \<Rightarrow> u32 \<Rightarrow> byte list option \<Rightarrow> u16 \<Rightarrow> PDI_STATUS_CODE jm" where
  "xnvm_load_flash_page_buffer a addr buf n =
     (case buf of
        None \<Rightarrow> jret ERR_INVALID_ARG
      | Some buf \<Rightarrow>
          if n = 0 then jret ERR_INVALID_ARG
          else xnvm_do [xnvm_ctrl_cmd_write a XNVM_CMD_LOAD_FLASH_PAGE_BUFFER, xnvm_st_ptr a addr]
                 (if n > 1 then xnvm_do [xnvm_write_repeat a (ucast n)] (xnvm_store_buffer a buf n)
                  else jbind (jlift (buf_get buf 0)) (xnvm_st_star_ptr_postinc a)))"

definition xnvm_load_eeprom_page_buffer :: "nvm \<Rightarrow> u32 \<Rightarrow> byte list option \<Rightarrow> u16 \<Rightarrow> PDI_STATUS_CODE jm" where
  "xnvm_load_eeprom_page_buffer a addr buf n =
     (case buf of
        None \<Rightarrow> jret ERR_INVALID_ARG
      | Some buf \<Rightarrow>
          if n = 0 then jret ERR_INVALID_ARG
          else xnvm_do [xnvm_ctrl_cmd_write a XNVM_CMD_LOAD_EEPROM_PAGE_BUFFER, xnvm_st_ptr a addr]
                 (if n > 1 then xnvm_do [xnvm_write_repeat a (ucast n)] (xnvm_store_buffer a buf n)
                  else jbind (jlift (buf_get buf 0)) (\<lambda>b. xnvm_do [xnvm_st_star_ptr_postinc a b] (jret STATUS_OK))))"

definition xnvm_erase_flash_buffer :: "nvm \<Rightarrow> nat \<Rightarrow> PDI_STATUS_CODE jm" where
  "xnvm_erase_flash_buffer a retries =
     xnvm_do [xnvm_st_ptr a 0, xnvm_ctrl_cmd_write a XNVM_CMD_ERASE_FLASH_PAGE_BUFFER, xnvm_ctrl_cmdex_write a]
       (xnvm_ctrl_wait_nvmbusy a retries)"

definition xnvm_erase_eeprom_buffer :: "nvm \<Rightarrow> nat \<Rightarrow> PDI_STATUS_CODE jm" where
  "xnvm_erase_eeprom_buffer a retries =
     xnvm_do [xnvm_st_ptr a 0, xnvm_ctrl_cmd_write a XNVM_CMD_ERASE_EEPROM_PAGE_BUFFER, xnvm_ctrl_cmdex_write a]
       (xnvm_ctrl_wait_nvmbusy a retries)"

text \<open>The page is loaded, and the command \<open>c\<close> starts with a write to its address.\<close>

definition xnvm_page :: "nvm \<Rightarrow> byte \<Rightarrow> u32 \<Rightarrow> byte list option \<Rightarrow> u16 \<Rightarrow> PDI_STATUS_CODE jm" where
  "xnvm_page a c address buf n =
     xnvm_do [xnvm_erase_flash_buffer a WAIT_RETRIES_NUM, xnvm_load_flash_page_buffer a address buf n,
       xnvm_ctrl_cmd_write a c, xnvm_st_ptr a address, xnvm_st_star_ptr_postinc a DUMMY_BYTE]
       (xnvm_ctrl_wait_nvmbusy a WAIT_RETRIES_NUM)"

definition xnvm_program_flash_page :: "nvm \<Rightarrow> u32 \<Rightarrow> byte list option \<Rightarrow> u16 \<Rightarrow> PDI_STATUS_CODE jm" where
  "xnvm_program_flash_page a address buf n = xnvm_page a XNVM_CMD_WRITE_FLASH_PAGE address buf n"

definition xnvm_erase_program_flash_page :: "nvm \<Rightarrow> u32 \<Rightarrow> byte list option \<Rightarrow> u16 \<Rightarrow> PDI_STATUS_CODE jm" where
  "xnvm_erase_program_flash_page a address buf n = xnvm_page a XNVM_CMD_ERASE_AND_WRITE_FLASH_PAGE address buf n"

definition xnvm_erase_application_flash_page :: "nvm \<Rightarrow> u32 \<Rightarrow> byte list option \<Rightarrow> u16 \<Rightarrow> PDI_STATUS_CODE jm" where
  "xnvm_erase_application_flash_page a address buf n =
     xnvm_page a XNVM_CMD_ERASE_AND_WRITE_APP_SECTION (address + XNVM_FLASH_BASE) buf n"

text \<open>The value returned has sixteen bits, the length thirty-two.\<close>

definition xnvm_read_memory :: "nvm \<Rightarrow> u32 \<Rightarrow> u32 \<Rightarrow> (u16 \<times> byte list) jm" where
  "xnvm_read_memory a address n =
     xnvm_do ([xnvm_ctrl_cmd_write a XNVM_CMD_READ_NVM_PDI, xnvm_st_ptr a address]
       @ (if n > 1 then [xnvm_write_repeat a n] else [])
       @ [xnvm_send a [XNVM_PDI_LD_INSTR OR XNVM_PDI_LD_PTR_STAR_INC_MASK OR XNVM_PDI_BYTE_DATA_MASK]])
       (jbind (pdi_read (pdicmd a) (unat n) WAIT_RETRIES_NUM) (\<lambda>(got, data). jret (of_nat got, data)))"

definition xnvm_erase_program_eeprom_page :: "nvm \<Rightarrow> u32 \<Rightarrow> byte list option \<Rightarrow> u16 \<Rightarrow> PDI_STATUS_CODE jm" where
  "xnvm_erase_program_eeprom_page a address buf n =
     (let address = address + XNVM_EEPROM_BASE
      in xnvm_do [xnvm_erase_eeprom_buffer a WAIT_RETRIES_NUM, xnvm_load_eeprom_page_buffer a address buf n,
           xnvm_ctrl_cmd_write a XNVM_CMD_ERASE_AND_WRITE_EEPROM, xnvm_st_ptr a address, xnvm_st_star_ptr_postinc a DUMMY_BYTE]
           (xnvm_ctrl_wait_nvmbusy a WAIT_RETRIES_NUM))"

definition xnvm_erase_user_sign :: "nvm \<Rightarrow> PDI_STATUS_CODE jm" where
  "xnvm_erase_user_sign a =
     xnvm_do [xnvm_ctrl_cmd_write a XNVM_CMD_ERASE_USER_SIGN, xnvm_st_ptr a XNVM_SIGNATURE_BASE,
       xnvm_st_star_ptr_postinc a DUMMY_BYTE] (xnvm_ctrl_wait_nvmbusy a WAIT_RETRIES_NUM)"

definition xnvm_erase_program_user_sign :: "nvm \<Rightarrow> u32 \<Rightarrow> byte list option \<Rightarrow> u16 \<Rightarrow> PDI_STATUS_CODE jm" where
  "xnvm_erase_program_user_sign a address buf n =
     (let address = address + XNVM_SIGNATURE_BASE
      in xnvm_do [xnvm_erase_flash_buffer a WAIT_RETRIES_NUM, xnvm_load_flash_page_buffer a address buf n,
           xnvm_erase_user_sign a, xnvm_ctrl_cmd_write a XNVM_CMD_WRITE_USER_SIGN, xnvm_st_ptr a address,
           xnvm_st_star_ptr_postinc a DUMMY_BYTE]
           (xnvm_ctrl_wait_nvmbusy a WAIT_RETRIES_NUM))"

definition xnvm_write_fuse_byte :: "nvm \<Rightarrow> u32 \<Rightarrow> byte \<Rightarrow> PDI_STATUS_CODE jm" where
  "xnvm_write_fuse_byte a address v =
     xnvm_do [xnvm_ctrl_cmd_write a XNVM_CMD_WRITE_FUSE,
       xnvm_send a ((XNVM_PDI_STS_INSTR OR XNVM_PDI_LONG_ADDRESS_MASK OR XNVM_PDI_BYTE_DATA_MASK)
         # longToByteArray (XNVM_FUSE_BASE + address) @ [v])]
       (xnvm_ctrl_wait_nvmbusy a WAIT_RETRIES_NUM)"

definition xnvm_write_lock_byte :: "nvm \<Rightarrow> byte \<Rightarrow> PDI_STATUS_CODE jm" where
  "xnvm_write_lock_byte a v =
     xnvm_do [xnvm_ctrl_cmd_write a XNVM_CMD_WRITE_LOCK_BITS,
       xnvm_send a ((XNVM_PDI_STS_INSTR OR XNVM_PDI_LONG_ADDRESS_MASK OR XNVM_PDI_BYTE_DATA_MASK)
         # longToByteArray (XNVM_FUSE_BASE + NVM_LOCKBIT_ADDR) @ [v])]
       (xnvm_ctrl_wait_nvmbusy a WAIT_RETRIES_NUM)"

end
