(* ===== verification/XmegaDevice.thy ===== *)
theory XmegaDevice
  imports Xmega
begin

text \<open>
  An XMEGA part behind the program and debug interface: the decoder of its instructions, the registers
  of the memory controller and a memory with pages, and what each operation of the class does to it.
\<close>

section \<open>The part\<close>

text \<open>
  \<open>prx\<close> are the bytes of an instruction that is not complete, \<open>prep\<close> the repetitions announced, \<open>pst\<close> the
  data bytes that follow, \<open>pload\<close> the address and number of the bytes to deliver (of the control space
  if \<open>pctl\<close>), \<open>pdelay\<close> the frames without data before them, \<open>pbusy\<close> how often the status still
  reads busy.
\<close>

record pdidev =
  pir :: byte
  prx :: "byte list"
  prep :: nat
  pst :: nat
  pptr :: nat
  pload :: "nat \<times> nat"
  pctl :: bool
  pdelay :: nat
  pcmd :: byte
  ppage :: "nat \<Rightarrow> byte"
  pbusy :: nat
  pmem :: "nat \<Rightarrow> byte"

text \<open>The size of a page, the frames before an answer and the length of an operation.\<close>

record pdipart =
  ppsize :: nat
  pwait :: nat
  plong :: nat

definition pdi_blank :: "(nat \<Rightarrow> byte) \<Rightarrow> pdidev" where
  "pdi_blank mem = \<lparr>pir = 0, prx = [], prep = 0, pst = 0, pptr = 0, pload = (0, 0), pctl = False, pdelay = 0, pcmd = 0,
     ppage = (\<lambda>_. 0xff), pbusy = 0, pmem = mem\<rparr>"

fun le_nat :: "byte list \<Rightarrow> nat" where
  "le_nat [] = 0"
| "le_nat (b # bs) = unat b + 256 * le_nat bs"

text \<open>A write to the data space; a controller that is busy takes none.\<close>

definition pdi_command :: "pdipart \<Rightarrow> pdidev \<Rightarrow> pdidev" where
  "pdi_command P v =
     (if pcmd v = 0x26 then v\<lparr>ppage := (\<lambda>_. 0xff), pbusy := plong P\<rparr>
      else if pcmd v = 0x40 then v\<lparr>pmem := (\<lambda>_. 0xff), pbusy := plong P\<rparr>
      else v)"

definition write_page :: "nat \<Rightarrow> nat \<Rightarrow> (nat \<Rightarrow> byte) \<Rightarrow> (nat \<Rightarrow> byte) \<Rightarrow> nat \<Rightarrow> byte" where
  "write_page p a pg m = (\<lambda>x. if x div p = a div p then pg (x mod p) else m x)"

definition pdi_store :: "pdipart \<Rightarrow> nat \<Rightarrow> byte \<Rightarrow> pdidev \<Rightarrow> pdidev" where
  "pdi_store P a b v =
     (if 0 < pbusy v then v
      else if a = 0x10001CA then v\<lparr>pcmd := b\<rparr>
      else if a = 0x10001CB then (if bit b 0 then pdi_command P v else v)
      else if pcmd v = 0x23 then v\<lparr>ppage := (ppage v)(a mod ppsize P := b)\<rparr>
      else if pcmd v = 0x2E
      then v\<lparr>pmem := write_page (ppsize P) a (\<lambda>i. pmem v (a div ppsize P * ppsize P + i) AND ppage v i) (pmem v), pbusy := plong P\<rparr>
      else if pcmd v = 0x2F
      then v\<lparr>pmem := write_page (ppsize P) a (ppage v) (pmem v), pbusy := plong P\<rparr>
      else v)"

definition pdi_len :: "byte \<Rightarrow> nat" where
  "pdi_len i = (if i = 0x0c then 5 else if i = 0x4c then 6 else if i = 0x6b then 5 else if i = 0xc1 then 2
     else if i = 0xa0 then 2 else if i = 0xa1 then 3 else if i = 0xa2 then 4 else if i = 0xa3 then 5
     else if i = 0xe0 then 9 else 1)"

definition pdi_exec :: "pdipart \<Rightarrow> byte list \<Rightarrow> pdidev \<Rightarrow> pdidev" where
  "pdi_exec P i v =
     (if hd i = 0x0c then v\<lparr>pload := (le_nat (tl i), 1), pctl := False, pdelay := pwait P\<rparr>
      else if hd i = 0x4c then pdi_store P (le_nat (take 4 (tl i))) (last i) v
      else if hd i = 0x6b then v\<lparr>pptr := le_nat (tl i)\<rparr>
      else if hd i = 0x24
      then v\<lparr>pload := (pptr v, prep v + 1), pptr := pptr v + prep v + 1, pctl := False, pdelay := pwait P, prep := 0\<rparr>
      else if hd i = 0x64 then v\<lparr>pst := prep v + 1, prep := 0\<rparr>
      else if hd i = 0x80 then v\<lparr>pload := (0, 1), pctl := True, pdelay := pwait P\<rparr>
      else if hd i \<in> {0xa0, 0xa1, 0xa2, 0xa3} then v\<lparr>prep := le_nat (tl i)\<rparr>
      else v)"

text \<open>A byte received.\<close>

definition pdi_byte :: "pdipart \<Rightarrow> pdidev \<Rightarrow> byte \<Rightarrow> pdidev" where
  "pdi_byte P v b =
     (if 0 < pst v then (pdi_store P (pptr v) b v)\<lparr>pptr := pptr v + 1, pst := pst v - 1\<rparr>
      else let i = prx v @ [b]
           in if length i = pdi_len (hd i) then pdi_exec P i (v\<lparr>prx := []\<rparr>) else v\<lparr>prx := i\<rparr>)"

text \<open>The byte to deliver, where the model says what it is.\<close>

definition pdi_value :: "pdidev \<Rightarrow> byte option" where
  "pdi_value v =
     (if pctl v then Some (if pbusy v = 0 then 0x02 else 0)
      else if fst (pload v) = 0x10001CF then Some (if pbusy v = 0 then 0 else 0x80)
      else if pcmd v = 0x43 then Some (pmem v (fst (pload v)))
      else None)"

definition pdi_deliver :: "pdidev \<Rightarrow> pdidev" where
  "pdi_deliver v =
     (if snd (pload v) = 0 then v
      else if 0 < pdelay v then v\<lparr>pdelay := pdelay v - 1\<rparr>
      else v\<lparr>pload := (fst (pload v) + 1, snd (pload v) - 1),
             pbusy := (if pctl v \<or> fst (pload v) = 0x10001CF then pbusy v - 1 else pbusy v)\<rparr>)"

definition pdi_step :: "pdipart \<Rightarrow> pdidev \<Rightarrow> jop \<Rightarrow> pdidev" where
  "pdi_step P v c =
     (case c of
        OpIR tdi _ \<Rightarrow> v\<lparr>pir := hd tdi\<rparr>
      | OpDR (Some bs) _ _ _ _ \<Rightarrow> if pir v = 0x07 \<and> bs ! 1 = get_parity (bs ! 0) then pdi_byte P v (bs ! 0) else v
      | OpDR None _ _ _ _ \<Rightarrow> if pir v = 0x07 then pdi_deliver v else v
      | _ \<Rightarrow> v)"

definition pdi_answer :: "pdidev \<Rightarrow> jop \<Rightarrow> byte list \<Rightarrow> bool" where
  "pdi_answer v c r =
     (case c of
        OpDR None True _ _ _ \<Rightarrow>
          pir v = 0x07 \<and> 0 < snd (pload v) \<longrightarrow>
            2 \<le> length r \<and>
            (if 0 < pdelay v then r ! 0 = 0xeb \<and> r ! 1 = 1
             else r ! 1 = get_parity (r ! 0) \<and> (case pdi_value v of None \<Rightarrow> True | Some b \<Rightarrow> r ! 0 = b))
      | _ \<Rightarrow> True)"

definition pdi_device :: "pdipart \<Rightarrow> (nat \<Rightarrow> byte) \<Rightarrow> pdidev device" where
  "pdi_device P mem = \<lparr>dinit = pdi_blank mem, dstep = pdi_step P, dans = pdi_answer\<rparr>"

lemma pdi_device_sel [simp]: "dstep (pdi_device P m) = pdi_step P" "dans (pdi_device P m) = pdi_answer"
  by (simp_all add: pdi_device_def)

section \<open>Frames\<close>

lemma parity_eb: "get_parity 0xeb \<noteq> 1"
  by (simp add: get_parity_def upt_rec)

lemma pdi_store_pir [simp]: "pir (pdi_store P a b v) = pir v"
  by (simp add: pdi_store_def pdi_command_def)

lemma pdi_byte_pir [simp]: "pir (pdi_byte P v b) = pir v"
  by (simp add: pdi_byte_def pdi_exec_def Let_def)

lemma pdi_byte_fold_pir [simp]: "pir (foldl (pdi_byte P) v bs) = pir v"
  by (induction bs arbitrary: v) simp_all

lemma wp_pdi_write:
  assumes "n \<le> length bs" and "Q STATUS_OK (foldl (pdi_byte P) (v\<lparr>pir := 0x07\<rparr>) (take n bs))"
  shows "wp (pdi_device P mem) (pdi_write 0x07 bs n) Q v"
  unfolding pdi_write_def
proof (intro wp_bind wp_ops(1) wp_fold [where I = "\<lambda>j _ w. w = foldl (pdi_byte P) (v\<lparr>pir := 0x07\<rparr>) (take j bs)"], goal_cases)
  case (1 j x w)
  then have "j < length bs" using assms(1) by simp
  then show ?case
    using 1(3) by (auto intro!: wp_intro simp: buf_get_in pdi_step_def take_Suc_conv_app_nth)
qed (use assms in \<open>simp_all add: pdi_step_def wp_ret\<close>)

lemma fit_frame: "2 \<le> length r \<Longrightarrow> fit (nbytes 9) r ! 0 = r ! 0 \<and> fit (nbytes 9) r ! 1 = r ! 1"
  by (cases r; cases "tl r") (auto simp: fit_def nbytes_def numeral_2_eq_2)

text \<open>Waiting for data: \<open>pdelay\<close> frames pass without.\<close>

definition pdi_frame :: "pdidev \<Rightarrow> byte list \<Rightarrow> bool" where
  "pdi_frame v rv \<longleftrightarrow> (if 0 < pdelay v then rv ! 0 = 0xeb \<and> rv ! 1 = 1
     else rv ! 1 = get_parity (rv ! 0) \<and> (case pdi_value v of None \<Rightarrow> True | Some b \<Rightarrow> rv ! 0 = b))"

lemma wp_frame:
  assumes "pir v = 0x07" "0 < snd (pload v)" "\<And>rv. pdi_frame v rv \<Longrightarrow> Q rv (pdi_deliver v)"
  shows "wp (pdi_device P mem) (jcaptureDR None 9 True) Q v"
  using assms(1,2)
  by (intro wp_captures) (auto intro!: assms(3) simp: pdi_answer_def pdi_step_def pdi_frame_def fit_frame [simplified] split: option.split)

lemma wp_pdi_wait:
  assumes "pir v = 0x07" "0 < snd (pload v)" "pdelay v \<le> k" "pdi_frame v rv"
    and "\<And>rv. pdi_frame (v\<lparr>pdelay := 0\<rparr>) rv \<Longrightarrow> Q (j + pdelay v, rv) (pdi_deliver (v\<lparr>pdelay := 0\<rparr>))"
  shows "wp (pdi_device P mem) (pdi_wait j k rv) Q (pdi_deliver v)"
  using assms
proof (induction k arbitrary: v j rv)
  case 0
  then have "v\<lparr>pdelay := 0\<rparr> = v" by simp
  with 0 have "Q (j, rv) (pdi_deliver v)" by fastforce
  then show ?case by (simp add: wp_ret)
next
  case (Suc k)
  show ?case
  proof (cases "pdelay v = 0")
    case True
    then have u: "get_parity (rv ! 0) = rv ! 1" "v\<lparr>pdelay := 0\<rparr> = v" using Suc.prems(4) by (simp_all add: pdi_frame_def)
    then have "Q (j, rv) (pdi_deliver v)" using Suc.prems(4) Suc.prems(5) [of rv, unfolded u(2)] True by simp
    then show ?thesis using u(1) by (simp add: wp_ret)
  next
    case False
    then have eb: "rv ! 0 = 0xeb" "get_parity (rv ! 0) \<noteq> rv ! 1"
      using Suc.prems(4) parity_eb by (simp_all add: pdi_frame_def)
    have d: "pdi_deliver v = v\<lparr>pdelay := pdelay v - 1\<rparr>" using False Suc.prems(2) by (simp add: pdi_deliver_def)
    let ?v = "v\<lparr>pdelay := pdelay v - 1\<rparr>"
    have "wp (pdi_device P mem) (pdi_wait (j + 1) k rv') Q (pdi_deliver ?v)" if "pdi_frame ?v rv'" for rv'
    proof (rule Suc.IH [OF _ _ _ that])
      fix rv2 assume "pdi_frame (?v\<lparr>pdelay := 0\<rparr>) rv2"
      then show "Q (j + 1 + pdelay ?v, rv2) (pdi_deliver (?v\<lparr>pdelay := 0\<rparr>))"
        using Suc.prems(5) [of rv2] False by simp
    qed (use Suc.prems False in simp_all)
    then show ?thesis
      unfolding pdi_wait.simps if_P [OF conjI [OF eb(2,1)]] d
      using Suc.prems(1,2) by (intro wp_bind wp_frame) simp_all
  qed
qed

text \<open>The state after a byte has been delivered.\<close>

definition pdi_after :: "pdidev \<Rightarrow> pdidev" where
  "pdi_after v = pdi_deliver (v\<lparr>pdelay := 0\<rparr>)"

lemma wp_pdi_read_byte:
  assumes "pir v = 0x07" "0 < snd (pload v)" "j + pdelay v < retries" "pdi_value (v\<lparr>pdelay := 0\<rparr>) = Some b"
    and "Q (Inr (j + pdelay v, data @ [b])) (pdi_after v)"
  shows "wp (pdi_device P mem) (pdi_read_byte retries (j, data)) Q v"
  unfolding pdi_read_byte_def prod.case
proof (intro wp_bind wp_frame [OF assms(1,2)] wp_pdi_wait [OF assms(1,2)], goal_cases)
  case (3 rv rv')
  then have "rv' ! 0 = b" "get_parity (rv' ! 0) = rv' ! 1" using assms(4) by (simp_all add: pdi_frame_def)
  then show ?case using assms(3,5) by (simp add: wp_ret pdi_after_def)
qed (use assms(3) in simp_all)

end
