(* ===== verification/XmegaProps.thy ===== *)
theory XmegaProps
  imports XmegaDevice XCFPProm
begin

text \<open>
  The memories of the XMEGA parts: what the operations of the class do to a part, and that a page that
  was written reads back.
\<close>

section \<open>Instructions\<close>

lemma unat_long_byte: "unat (ucast (drop_bit k w AND 255) :: byte) = unat (w :: u32) div 2 ^ k mod 256"
proof -
  have "bit (255 :: u32) j \<longleftrightarrow> j < 8" for j
    using bit_mask_iff [of 8 j, where ?'a = u32] by (auto simp: mask_eq_exp_minus_1)
  then have "ucast (w AND 255) = (ucast w :: byte)" for w :: u32
    by (intro bit_word_eqI) (auto simp: bit_simps)
  moreover have "unat (drop_bit k w) = unat w div 2 ^ k" by (metis unat_drop_bit_eq drop_bit_eq_div)
  ultimately show ?thesis by (simp only: unsigned_ucast_eq take_bit_eq_mod) simp
qed

lemma le_nat_take:
  assumes "k \<le> 4" "unat w < 256 ^ k"
  shows "le_nat (take k (longToByteArray w)) = unat w"
proof -
  have b: "longToByteArray w = map (\<lambda>i. ucast (drop_bit (8 * i) w AND 255)) [0, 1, 2, 3]"
    by (simp add: longToByteArray_def)
  have u: "unat (ucast (w AND 255) :: byte) = unat w mod 256" using unat_long_byte [of 0 w] by simp
  have "k = 0 \<or> k = 1 \<or> k = 2 \<or> k = 3 \<or> k = 4" using assms(1) by presburger
  moreover have "le_nat (take 1 (longToByteArray w)) = unat w mod 256"
    "le_nat (take 2 (longToByteArray w)) = unat w mod 65536"
    "le_nat (take 3 (longToByteArray w)) = unat w mod 16777216"
    "le_nat (take 4 (longToByteArray w)) = unat w mod 4294967296"
    unfolding b using mod_mult2_eq [of "unat w" 256 256] mod_mult2_eq [of "unat w" 65536 256]
      mod_mult2_eq [of "unat w" 16777216 256]
    by (simp_all add: unat_long_byte u)
  ultimately show ?thesis using assms(2) by auto
qed

lemma le_nat_long: "le_nat (longToByteArray w) = unat w"
  using le_nat_take [of 4 w] unsigned_less [of w] by simp

text \<open>An instruction of the length that its first byte announces is executed.\<close>

lemma pdi_bytes:
  assumes "pst v = 0" "prx v = xs" "ys \<noteq> []" "length (xs @ ys) = pdi_len (hd (xs @ ys))"
  shows "foldl (pdi_byte P) v ys = pdi_exec P (xs @ ys) (v\<lparr>prx := []\<rparr>)"
  using assms
proof (induction ys arbitrary: v xs)
  case (Cons b ys)
  show ?case
  proof (cases ys)
    case Nil
    then show ?thesis using Cons.prems by (simp add: pdi_byte_def Let_def)
  next
    case (Cons c cs)
    have "hd (xs @ [b]) = hd (xs @ b # ys)" by (cases xs) simp_all
    then have "pdi_byte P v b = v\<lparr>prx := xs @ [b]\<rparr>"
      using Cons.prems Cons by (simp add: pdi_byte_def Let_def)
    moreover have "foldl (pdi_byte P) (v\<lparr>prx := xs @ [b]\<rparr>) ys = pdi_exec P ((xs @ [b]) @ ys) (v\<lparr>prx := [], prx := []\<rparr>)"
      using Cons.IH [of "v\<lparr>prx := xs @ [b]\<rparr>" "xs @ [b]"] Cons.prems Cons by simp
    ultimately show ?thesis by simp
  qed
qed simp

text \<open>A part between two instructions: pointer, repetitions, command, page buffer, time busy and memory.\<close>

definition pdi_at :: "nat \<Rightarrow> nat \<Rightarrow> byte \<Rightarrow> (nat \<Rightarrow> byte) \<Rightarrow> nat \<Rightarrow> (nat \<Rightarrow> byte) \<Rightarrow> pdidev \<Rightarrow> bool" where
  "pdi_at p n c pg z m v \<longleftrightarrow> prx v = [] \<and> pst v = 0 \<and> pptr v = p \<and> prep v = n \<and> pcmd v = c \<and> ppage v = pg \<and>
     pbusy v = z \<and> pmem v = m"

lemma wp_nvm_send:
  assumes "pdicmd a = 0x07" "prx v = []" "pst v = 0" "i \<noteq> []" "length i = pdi_len (hd i)"
    and "Q STATUS_OK (pdi_exec P i (v\<lparr>pir := 0x07\<rparr>))"
  shows "wp (pdi_device P mem) (xnvm_send a i) Q v"
proof -
  have u: "v\<lparr>pir := 0x07, prx := []\<rparr> = v\<lparr>pir := 0x07\<rparr>" using assms(2) by simp
  have "foldl (pdi_byte P) (v\<lparr>pir := 0x07\<rparr>) i = pdi_exec P i (v\<lparr>pir := 0x07\<rparr>)"
    using pdi_bytes [of "v\<lparr>pir := 0x07\<rparr>" "[]" i P, unfolded u] assms(2-5) by simp
  then show ?thesis
    unfolding xnvm_send_def assms(1) using assms(6) by (intro wp_pdi_write) simp_all
qed

lemma nvm_instr:
  "XNVM_PDI_ST_INSTR OR XNVM_PDI_LD_PTR_ADDRESS_MASK OR XNVM_PDI_LONG_DATA_MASK = 0x6b"
  "XNVM_PDI_ST_INSTR OR XNVM_PDI_LD_PTR_STAR_INC_MASK OR XNVM_PDI_BYTE_DATA_MASK = 0x64"
  "XNVM_PDI_LD_INSTR OR XNVM_PDI_LD_PTR_STAR_INC_MASK OR XNVM_PDI_BYTE_DATA_MASK = 0x24"
  "XNVM_PDI_STS_INSTR OR XNVM_PDI_LONG_ADDRESS_MASK OR XNVM_PDI_BYTE_DATA_MASK = 0x4c"
  "XNVM_PDI_LDS_INSTR OR XNVM_PDI_LONG_ADDRESS_MASK OR XNVM_PDI_BYTE_DATA_MASK = 0x0c"
  "XNVM_PDI_REPEAT_INSTR OR XNVM_PDI_BYTE_DATA_MASK = 0xa0"
  "XNVM_PDI_REPEAT_INSTR OR XNVM_PDI_WORD_DATA_MASK = 0xa1"
  "XNVM_PDI_REPEAT_INSTR OR XNVM_PDI_3BYTES_DATA_MASK = 0xa2"
  "XNVM_PDI_REPEAT_INSTR OR XNVM_PDI_LONG_DATA_MASK = 0xa3"
  by (simp_all add: XNVM_PDI_ST_INSTR_def XNVM_PDI_LD_PTR_ADDRESS_MASK_def XNVM_PDI_LONG_DATA_MASK_def
      XNVM_PDI_LD_PTR_STAR_INC_MASK_def XNVM_PDI_BYTE_DATA_MASK_def XNVM_PDI_LD_INSTR_def XNVM_PDI_STS_INSTR_def
      XNVM_PDI_LONG_ADDRESS_MASK_def XNVM_PDI_LDS_INSTR_def XNVM_PDI_REPEAT_INSTR_def XNVM_PDI_WORD_DATA_MASK_def
      XNVM_PDI_3BYTES_DATA_MASK_def)

lemma wp_st_ptr:
  assumes "pdicmd a = 0x07" "pdi_at p n c pg z m v" "\<And>w. pdi_at (unat ad) n c pg z m w \<Longrightarrow> Q STATUS_OK w"
  shows "wp (pdi_device P mem) (xnvm_st_ptr a ad) Q v"
  unfolding xnvm_st_ptr_def nvm_instr
  using assms(1,2) by (intro wp_nvm_send assms(3)) (simp_all add: pdi_at_def pdi_len_def pdi_exec_def le_nat_long)

lemma wp_sts:
  assumes "pdicmd a = 0x07" "prx v = []" "pst v = 0"
    and "Q STATUS_OK (pdi_store P (unat ad) b (v\<lparr>pir := 0x07\<rparr>))"
  shows "wp (pdi_device P mem) (xnvm_send a (0x4c # longToByteArray ad @ [b])) Q v"
  using assms by (intro wp_nvm_send) (simp_all add: pdi_len_def pdi_exec_def le_nat_long)

lemma wp_ctrl_cmd_write:
  assumes "pdicmd a = 0x07" "pdi_at p n c pg 0 m v" "\<And>w. pdi_at p n c' pg 0 m w \<Longrightarrow> Q STATUS_OK w"
  shows "wp (pdi_device P mem) (xnvm_ctrl_cmd_write a c') Q v"
  unfolding xnvm_ctrl_cmd_write_def xnvm_ctrl_write_reg_def xnvm_iowrite_byte_def nvm_instr
  using assms(1,2) by (intro wp_sts assms(3))
    (simp_all add: pdi_at_def pdi_store_def XNVM_DATA_BASE_def XNVM_CONTROLLER_BASE_def XNVM_CONTROLLER_CMD_REG_OFFSET_def)

lemma wp_ctrl_cmdex_write:
  assumes "pdicmd a = 0x07" "pdi_at p n 0x26 pg 0 m v" "\<And>w. pdi_at p n 0x26 (\<lambda>_. 0xff) (plong P) m w \<Longrightarrow> Q STATUS_OK w"
  shows "wp (pdi_device P mem) (xnvm_ctrl_cmdex_write a) Q v"
  unfolding xnvm_ctrl_cmdex_write_def xnvm_ctrl_write_reg_def xnvm_iowrite_byte_def nvm_instr
  using assms(1,2) by (intro wp_sts assms(3))
    (simp_all add: pdi_at_def pdi_store_def pdi_command_def XNVM_DATA_BASE_def XNVM_CONTROLLER_BASE_def
      XNVM_CONTROLLER_CTRLA_REG_OFFSET_def XNVM_CTRLA_CMDEX_def)

text \<open>Statements whose result is ignored.\<close>

lemma wp_do_Nil: "wp dd m Q v \<Longrightarrow> wp dd (xnvm_do [] m) Q v"
  unfolding xnvm_do_def by (simp add: wp_bind wp_ret)

lemma xnvm_do_Cons: "xnvm_do (s # ss) m = jbind s (\<lambda>_. xnvm_do ss m)"
  by (simp add: xnvm_do_def discard_def jbind_simps)

lemma wp_do_Cons: "wp dd s (\<lambda>_. wp dd (xnvm_do ss m) Q) v \<Longrightarrow> wp dd (xnvm_do (s # ss) m) Q v"
  unfolding xnvm_do_Cons by (rule wp_bind)

section \<open>Waiting\<close>

lemma wp_ctrl_read_status:
  assumes "pdicmd a = 0x07" "pdi_at p n c pg z m v" "pwait P < 1000"
    and "\<And>w st. pdi_at p n c pg (z - 1) m w \<Longrightarrow> Q (st, Some (if z = 0 then 0 else 0x80)) w"
  shows "wp (pdi_device P mem) (xnvm_ctrl_read_status a) Q v"
proof -
  let ?ad = "XNVM_DATA_BASE + ucast (XNVM_CONTROLLER_BASE + XNVM_CONTROLLER_STATUS_REG_OFFSET)"
  have ad: "unat ?ad = 0x10001CF"
    by (simp add: XNVM_DATA_BASE_def XNVM_CONTROLLER_BASE_def XNVM_CONTROLLER_STATUS_REG_OFFSET_def)
  let ?v = "v\<lparr>pir := 0x07, pload := (0x10001CF, 1), pctl := False, pdelay := pwait P\<rparr>"
  have x: "pdi_exec P (0x0c # longToByteArray ?ad) (v\<lparr>pir := 0x07\<rparr>) = ?v"
    by (simp add: pdi_exec_def le_nat_long ad)
  show ?thesis
    unfolding xnvm_ctrl_read_status_def xnvm_ctrl_read_reg_def xnvm_ioread_byte_def nvm_instr pdi_read_def
  proof (intro wp_bind wp_nvm_send, goal_cases)
    case 6
    let ?b = "if z = 0 then 0 else 0x80 :: byte"
    have "pdi_at p n c pg (z - 1) m (pdi_after (?v\<lparr>pir := 0x07\<rparr>))"
      using assms(2) by (simp add: pdi_at_def pdi_after_def pdi_deliver_def)
    then have "Q (ERR_BAD_DATA, Some ?b) (pdi_after (?v\<lparr>pir := 0x07\<rparr>))" by (rule assms(4))
    then show ?case
      unfolding x using assms(2,3)
      by (auto intro!: wp_intro wp_pdi_read_byte [where b = ?b]
          simp: pdi_step_def assms(1) pdi_value_def WAIT_RETRIES_NUM_def pdi_at_def stored_def split: if_splits)
  qed (use assms(1,2) in \<open>simp_all add: pdi_at_def pdi_len_def\<close>)
qed

text \<open>The controller is awaited when it is busy for less than a thousand looks at its status.\<close>

lemma wp_wait_nvmbusy:
  assumes "pdicmd a = 0x07" "pdi_at p n c pg z m v" "pwait P < 1000" "z < retries"
    and "\<And>w. pdi_at p n c pg 0 m w \<Longrightarrow> Q STATUS_OK w"
  shows "wp (pdi_device P mem) (xnvm_ctrl_wait_nvmbusy a retries) Q v"
  unfolding xnvm_ctrl_wait_nvmbusy_def
proof (intro wp_bind wp_scan [where I = "\<lambda>j _ w. j \<le> z \<and> pdi_at p n c pg (z - j) m w"], goal_cases)
  case (1 j st w)
  then have at: "pdi_at p n c pg (z - j) m w" and j: "j \<le> z" by simp_all
  show ?case
  proof (intro wp_bind wp_ctrl_read_status [OF assms(1) at assms(3)] wp_prod, goal_cases)
    case (1 w' st' r got)
    have "XNVM_NVM_BUSY = 0x80" by (simp add: XNVM_NVM_BUSY_def)
    then show ?case
      using 1 j by (cases "j = z") (auto intro!: wp_intro assms(5))
  qed
qed (use assms(2,4) in \<open>auto intro: wp_ret\<close>)

section \<open>Pages\<close>

lemma wp_erase_flash_buffer:
  assumes "pdicmd a = 0x07" "pdi_at p n c pg 0 m v" "pwait P < 1000" "plong P < retries"
    and "\<And>w. pdi_at 0 n 0x26 (\<lambda>_. 0xff) 0 m w \<Longrightarrow> Q STATUS_OK w"
  shows "wp (pdi_device P mem) (xnvm_erase_flash_buffer a retries) Q v"
  unfolding xnvm_erase_flash_buffer_def XNVM_CMD_ERASE_FLASH_PAGE_BUFFER_def
proof (intro wp_do_Cons wp_do_Nil wp_st_ptr [OF assms(1,2)], goal_cases)
  case (1 w1)
  then have w1: "pdi_at 0 n c pg 0 m w1" by simp
  show ?case
    by (intro wp_do_Cons wp_do_Nil wp_ctrl_cmd_write [OF assms(1) w1] wp_ctrl_cmdex_write [OF assms(1)]
        wp_wait_nvmbusy [OF assms(1) _ assms(3,4)] assms(5))
qed

lemma wp_write_repeat:
  assumes "pdicmd a = 0x07" "pdi_at p n c pg z m v" "0 < k"
    and "\<And>w. pdi_at p (unat k - 1) c pg z m w \<Longrightarrow> Q STATUS_OK w"
  shows "wp (pdi_device P mem) (xnvm_write_repeat a k) Q v"
proof -
  have u: "unat (k - 1) = unat k - 1" using assms(3) by (simp add: unat_minus_one word_neq_0_conv)
  have lt: "k - 1 < 2 ^ 8 \<longleftrightarrow> unat (k - 1) < 256" "k - 1 < 2 ^ 16 \<longleftrightarrow> unat (k - 1) < 65536"
    "k - 1 < 2 ^ 24 \<longleftrightarrow> unat (k - 1) < 16777216"
    by (simp_all add: word_less_nat_alt)
  have b: "[ucast (k - 1)] = take 1 (longToByteArray (k - 1))"
  proof -
    have "unat (ucast (drop_bit 0 (k - 1) AND 255) :: byte) = unat (ucast (k - 1) :: byte)"
      unfolding unat_long_byte by (simp add: unsigned_ucast_eq take_bit_eq_mod)
    then have "ucast (k - 1 AND 255) = (ucast (k - 1) :: byte)" by (simp add: word_unat_eq_iff)
    then show ?thesis by (simp add: longToByteArray_def)
  qed
  show ?thesis
    unfolding xnvm_write_repeat_def Let_def nvm_instr b
    using assms(1,2) lt unsigned_less [of "k - 1"]
    by (intro wp_if wp_nvm_send assms(4))
      (auto simp: pdi_at_def pdi_len_def pdi_exec_def u [unfolded One_nat_def] le_nat_take le_nat_long)
qed

text \<open>The data bytes of a page that is being loaded.\<close>

lemma load_bytes:
  assumes "pcmd v = 0x23" "pbusy v = 0" "length bs \<le> pst v"
    and "pptr v mod ppsize P + length bs \<le> ppsize P" "pptr v + length bs \<le> 0x1000000"
  shows "foldl (pdi_byte P) v bs = v\<lparr>pptr := pptr v + length bs, pst := pst v - length bs,
     ppage := put_page (pptr v mod ppsize P) bs (ppage v)\<rparr>"
  using assms(3-5)
proof (induction bs rule: rev_induct)
  case (snoc b bs)
  have "(pptr v + length bs) mod ppsize P = pptr v mod ppsize P + length bs"
    using snoc.prems(2) by (subst mod_add_left_eq [symmetric]) simp
  then show ?case
    using snoc assms(1,2) by (simp add: pdi_byte_def pdi_store_def put_page_snoc fun_upd_def)
qed simp

lemma wp_store_buffer:
  assumes "pdicmd a = 0x07" "pdi_at p (unat n - 1) 0x23 pg 0 m v" "unat n \<le> length buf" "0 < n"
    and "p mod ppsize P + unat n \<le> ppsize P" "p + unat n \<le> 0x1000000"
    and "\<And>w. pdi_at (p + unat n) 0 0x23 (put_page (p mod ppsize P) (take (unat n) buf) pg) 0 m w \<Longrightarrow> Q STATUS_OK w"
  shows "wp (pdi_device P mem) (xnvm_store_buffer a buf n) Q v"
proof -
  have n: "0 < unat n" using assms(4) by (simp add: unat_gt_0)
  show ?thesis
    unfolding xnvm_store_buffer_def nvm_instr assms(1)
  proof (intro wp_do_Cons wp_do_Nil wp_nvm_send wp_pdi_write, goal_cases)
    case 7
    let ?v = "(pdi_exec P [0x64] (v\<lparr>pir := 0x07\<rparr>))\<lparr>pir := 0x07\<rparr>"
    have v: "pcmd ?v = 0x23" "pbusy ?v = 0" "pst ?v = unat n" "pptr ?v = p" "prx ?v = []" "ppage ?v = pg"
      "pmem ?v = m" "prep ?v = 0"
      using assms(2) n by (simp_all add: pdi_exec_def pdi_at_def)
    have "pdi_at (p + unat n) 0 0x23 (put_page (p mod ppsize P) (take (unat n) buf) pg) 0 m
        (foldl (pdi_byte P) ?v (take (unat n) buf))"
      using assms(3,5,6) v by (simp add: load_bytes pdi_at_def)
    then show ?case by (rule assms(7))
  qed (use assms in \<open>simp_all add: pdi_at_def pdi_len_def\<close>)
qed

lemma wp_st_star:
  assumes "pdicmd a = 0x07" "pdi_at p 0 c pg z m v"
    and "Q STATUS_OK ((pdi_store P p b (v\<lparr>pir := 0x07, pst := 1\<rparr>))\<lparr>pptr := p + 1, pst := 0\<rparr>)"
  shows "wp (pdi_device P mem) (xnvm_st_star_ptr_postinc a b) Q v"
proof -
  have "foldl (pdi_byte P) (v\<lparr>pir := 0x07\<rparr>) [0x64, b] =
      (pdi_store P p b (v\<lparr>pir := 0x07, pst := 1\<rparr>))\<lparr>pptr := p + 1, pst := 0\<rparr>"
    using assms(2) by (cases v) (simp add: pdi_byte_def pdi_exec_def pdi_len_def pdi_at_def)
  then show ?thesis
    unfolding xnvm_st_star_ptr_postinc_def nvm_instr xnvm_send_def assms(1)
    using assms(3) by (intro wp_pdi_write) simp_all
qed

lemma unat_lt: "unat (n :: u16) < 65536"
proof -
  have "unat n < 2 ^ LENGTH(16)" by (rule unsigned_less)
  then show ?thesis by simp
qed

lemma wp_load_flash_page_buffer:
  assumes "pdicmd a = 0x07" "pdi_at q 0 c pg 0 m v" "unat n \<le> length buf" "0 < n"
    and "unat ad mod ppsize P + unat n \<le> ppsize P" "unat ad + unat n \<le> 0x1000000"
    and "\<And>w. pdi_at (unat ad + unat n) 0 0x23 (put_page (unat ad mod ppsize P) (take (unat n) buf) pg) 0 m w \<Longrightarrow> Q STATUS_OK w"
  shows "wp (pdi_device P mem) (xnvm_load_flash_page_buffer a ad (Some buf) n) Q v"
proof -
  have n: "n \<noteq> 0" "0 < unat n" "unat (ucast n :: u32) = unat n"
    using assms(4) unat_lt [of n] by (auto simp: unat_gt_0 unsigned_ucast_eq take_bit_eq_mod)
  have load: "wp (pdi_device P mem) (if n > 1 then xnvm_do [xnvm_write_repeat a (ucast n)] (xnvm_store_buffer a buf n)
      else jbind (jlift (buf_get buf 0)) (xnvm_st_star_ptr_postinc a)) Q w"
    if w: "pdi_at (unat ad) 0 0x23 pg 0 m w" for w
  proof (cases "n > 1")
    case True
    have "0 < (ucast n :: u32)" using n(2,3) by (simp only: word_less_nat_alt unat_0)
    then show ?thesis
      unfolding if_P [OF True]
      by (intro wp_do_Cons wp_do_Nil wp_write_repeat [OF assms(1) w] wp_store_buffer [OF assms(1) _ assms(3-6)] assms(7))
        (simp_all add: n(3))
  next
    case False
    then have n1: "unat n = 1" using n(2) by (simp add: word_less_nat_alt)
    obtain b bs where buf: "buf = b # bs" using assms(3) n1 by (cases buf) auto
    have "put_page x [b] pg = pg(x := b)" for x using put_page_snoc [of x "[]" b pg] by simp
    then have "pdi_at (unat ad + 1) 0 0x23 (put_page (unat ad mod ppsize P) [b] pg) 0 m
        ((pdi_store P (unat ad) b (w\<lparr>pir := 0x07, pst := 1\<rparr>))\<lparr>pptr := unat ad + 1, pst := 0\<rparr>)"
      using w assms(6) n1 by (simp add: pdi_at_def pdi_store_def)
    then show ?thesis
      unfolding if_not_P [OF False] buf buf_get_def using assms(7) n1 buf
      by (intro wp_bind wp_intro wp_st_star [OF assms(1) w]) simp_all
  qed
  show ?thesis
    unfolding xnvm_load_flash_page_buffer_def option.case if_not_P [OF n(1)] XNVM_CMD_LOAD_FLASH_PAGE_BUFFER_def
    by (intro wp_do_Cons wp_do_Nil wp_ctrl_cmd_write [OF assms(1,2)] wp_st_ptr [OF assms(1)] load)
qed

text \<open>What the write commands make of the memory, with the buffer \<open>g\<close>.\<close>

definition page_written :: "nat \<Rightarrow> byte \<Rightarrow> nat \<Rightarrow> (nat \<Rightarrow> byte) \<Rightarrow> (nat \<Rightarrow> byte) \<Rightarrow> nat \<Rightarrow> byte" where
  "page_written p c a g m =
     (if c = 0x2E then write_page p a (\<lambda>i. m (a div p * p + i) AND g i) m else write_page p a g m)"

lemma wp_page:
  assumes "pdicmd a = 0x07" "pdi_at q 0 c pg 0 m v" "unat n \<le> length buf" "0 < n" "c' = 0x2E \<or> c' = 0x2F"
    and "unat ad mod ppsize P + unat n \<le> ppsize P" "unat ad + unat n \<le> 0x1000000" "pwait P < 1000" "plong P < 1000"
    and "\<And>w pg. pdi_at (unat ad + 1) 0 c' pg 0
        (page_written (ppsize P) c' (unat ad) (put_page (unat ad mod ppsize P) (take (unat n) buf) (\<lambda>_. 0xff)) m) w \<Longrightarrow> Q STATUS_OK w"
  shows "wp (pdi_device P mem) (xnvm_page a c' ad (Some buf) n) Q v"
proof -
  let ?g = "put_page (unat ad mod ppsize P) (take (unat n) buf) (\<lambda>_. 0xff)"
  have fin: "wp (pdi_device P mem) (xnvm_ctrl_wait_nvmbusy a WAIT_RETRIES_NUM) Q
      ((pdi_store P (unat ad) DUMMY_BYTE (w\<lparr>pir := 0x07, pst := 1\<rparr>))\<lparr>pptr := unat ad + 1, pst := 0\<rparr>)"
    if w: "pdi_at (unat ad) 0 c' ?g 0 m w" for w
  proof (rule wp_wait_nvmbusy [OF assms(1) _ assms(8)])
    have "unat n \<noteq> 0" using assms(4) by (simp add: unat_gt_0)
    then show "pdi_at (unat ad + 1) 0 c' ?g (plong P) (page_written (ppsize P) c' (unat ad) ?g m)
        ((pdi_store P (unat ad) DUMMY_BYTE (w\<lparr>pir := 0x07, pst := 1\<rparr>))\<lparr>pptr := unat ad + 1, pst := 0\<rparr>)"
      using w assms(5,7) by (auto simp: pdi_at_def pdi_store_def page_written_def)
  qed (use assms(9,10) in \<open>simp_all add: WAIT_RETRIES_NUM_def\<close>)
  show ?thesis
    unfolding xnvm_page_def
    by (intro wp_do_Cons wp_do_Nil wp_erase_flash_buffer [OF assms(1,2,8)]
        wp_load_flash_page_buffer [OF assms(1) _ assms(3,4,6,7)] wp_ctrl_cmd_write [OF assms(1)] wp_st_ptr [OF assms(1)]
        wp_st_star [OF assms(1), where p = "unat ad"] fin)
      (use assms(9) in \<open>simp_all add: WAIT_RETRIES_NUM_def\<close>)
qed

lemma wp_read_memory:
  assumes "pdicmd a = 0x07" "pdi_at q 0 c pg 0 m v" "unat ad + unat n \<le> 0x1000000" "0 < n" "pwait P < 1000"
    and "\<And>w. pdi_at (unat ad + unat n) 0 0x43 pg 0 m w \<Longrightarrow>
      Q (of_nat (unat n), map m [unat ad..<unat ad + unat n]) w"
  shows "wp (pdi_device P mem) (xnvm_read_memory a ad n) Q v"
proof -
  let ?A = "unat ad"
  have read: "wp (pdi_device P mem) (jbind (pdi_read (pdicmd a) (unat n) WAIT_RETRIES_NUM)
      (\<lambda>(got, data). jret (of_nat got, data))) Q w"
    if w: "pdi_at (?A + unat n) 0 0x43 pg 0 m w" "pload w = (?A, unat n)" "pdelay w = pwait P" "\<not> pctl w" for w
  proof -
    let ?I = "\<lambda>i. \<lambda>(j, data) u. pir u = 0x07 \<and> pdi_at (?A + unat n) 0 0x43 pg 0 m u \<and> \<not> pctl u \<and>
      pload u = (?A + i, unat n - i) \<and> j + pdelay u < 1000 \<and> data = map m [?A..<?A + i]"
    show ?thesis
      unfolding pdi_read_def assms(1)
    proof (intro wp_bind wp_ops(1) wp_scan [where I = ?I], goal_cases)
      case (1 i x u)
      obtain j data where x: "x = (j, data)" by (cases x)
      have u: "?I i (j, data) u" "i < unat n" using 1 x by simp_all
      have "pdi_value (u\<lparr>pdelay := 0\<rparr>) = Some (m (?A + i))"
        using u assms(3) by (simp add: pdi_value_def pdi_at_def)
      moreover have "?I (Suc i) (j + pdelay u, data @ [m (?A + i)]) (pdi_after u)"
        using u assms(3) by (simp add: pdi_after_def pdi_deliver_def pdi_at_def)
      ultimately show ?case
        unfolding x using u by (intro wp_pdi_read_byte [where b = "m (?A + i)"]) (simp_all add: WAIT_RETRIES_NUM_def)
    next
      case (2 x u)
      then show ?case using assms(6) by (auto intro!: wp_intro split: prod.splits)
    next
      case 3
      then show ?case using w assms(5) by (simp add: pdi_step_def pdi_at_def)
    qed
  qed
  have u: "\<not> n > 1 \<Longrightarrow> unat n = 1" using assms(4) by (simp add: word_less_nat_alt)
  have n: "0 < unat n" using assms(4) by (simp add: word_less_nat_alt)
  have load: "wp (pdi_device P mem) (xnvm_do [xnvm_send a [0x24]] (jbind (pdi_read (pdicmd a) (unat n) WAIT_RETRIES_NUM)
      (\<lambda>(got, data). jret (of_nat got, data)))) Q w" if w: "pdi_at ?A (unat n - 1) 0x43 pg 0 m w" for w
  proof (intro wp_do_Cons wp_do_Nil wp_nvm_send [OF assms(1)] read)
    show "pdi_at (?A + unat n) 0 0x43 pg 0 m (pdi_exec P [0x24] (w\<lparr>pir := 0x07\<rparr>))"
      "pload (pdi_exec P [0x24] (w\<lparr>pir := 0x07\<rparr>)) = (?A, unat n)"
      using w n by (simp_all add: pdi_at_def pdi_exec_def)
  qed (use w in \<open>simp_all add: pdi_at_def pdi_len_def pdi_exec_def\<close>)
  show ?thesis
    unfolding xnvm_read_memory_def nvm_instr XNVM_CMD_READ_NVM_PDI_def append.simps
  proof (intro wp_do_Cons wp_ctrl_cmd_write [OF assms(1,2)] wp_st_ptr [OF assms(1)])
    fix w w' assume w': "pdi_at (unat ad) 0 0x43 pg 0 m w'"
    show "wp (pdi_device P mem) (xnvm_do ((if n > 1 then [xnvm_write_repeat a n] else []) @ [xnvm_send a [0x24]])
       (jbind (pdi_read (pdicmd a) (unat n) WAIT_RETRIES_NUM) (\<lambda>(got, data). jret (of_nat got, data)))) Q w'"
    proof (cases "n > 1")
      case True
      then show ?thesis
        using w' assms(4) by (auto intro!: wp_do_Cons [of _ "xnvm_write_repeat a n"] wp_write_repeat [OF assms(1)] load)
    next
      case False
      then show ?thesis using w' load [of w'] u by simp
    qed
  qed
qed

section \<open>What the operations promise\<close>

text \<open>The memory after a page has been written: the bytes alone, or the whole page.\<close>

lemma same_page:
  assumes "(x :: nat) mod p + i < p"
  shows "(x + i) mod p = x mod p + i" "(x + i) div p = x div p"
proof -
  have y: "x + i = x div p * p + (x mod p + i)" by (metis add.assoc div_mult_mod_eq)
  have g: "(q * p + r) div p = q \<and> (q * p + r) mod p = r" if "r < p" for q r using that by simp
  show "(x + i) mod p = x mod p + i" "(x + i) div p = x div p"
    using g [OF assms, of "x div p"] unfolding y [symmetric] by blast+
qed

lemma write_and:
  assumes "x mod p + length bs \<le> p" "bs \<noteq> []"
  shows "page_written p 0x2E x (put_page (x mod p) bs (\<lambda>_. 0xff)) m =
    put_page x (map2 (AND) (map m [x..<x + length bs]) bs) m"
proof
  fix y
  have ff: "b AND 255 = b" for b :: byte
  proof -
    have "(255 :: byte) = - 1" by simp
    moreover have "b AND - 1 = b" by simp
    ultimately show ?thesis by (simp only:)
  qed
  have p: "0 < p" using assms by (cases p) auto
  have x: "x = x div p * p + x mod p" by simp
  show "page_written p 0x2E x (put_page (x mod p) bs (\<lambda>_. 0xff)) m y =
     put_page x (map2 (AND) (map m [x..<x + length bs]) bs) m y"
  proof (cases "y div p = x div p")
    case True
    then have y: "y = x div p * p + y mod p" by (metis div_mult_mod_eq)
    then have d: "x mod p \<le> y mod p \<longleftrightarrow> x \<le> y" "y mod p < x mod p + length bs \<longleftrightarrow> y < x + length bs"
      "y mod p - x mod p = y - x"
      using x by linarith+
    have "page_written p 0x2E x (put_page (x mod p) bs (\<lambda>_. 0xff)) m y = m y AND put_page (x mod p) bs (\<lambda>_. 0xff) (y mod p)"
      using True y by (simp add: page_written_def write_page_def)
    then show ?thesis using d by (auto simp: put_page_def ff)
  next
    case False
    have "\<not> (x \<le> y \<and> y < x + length bs)"
    proof
      assume y: "x \<le> y \<and> y < x + length bs"
      then have "y - x div p * p < p" "x div p * p \<le> y" using x assms(1) by linarith+
      then have "y div p = x div p" using p by (metis add_diff_inverse_nat div_less div_mult_self3 less_nat_zero_code linorder_not_less add_0_right)
      then show False using False by simp
    qed
    then show ?thesis using False by (auto simp: page_written_def write_page_def put_page_def)
  qed
qed

text \<open>A part that has finished everything it was told.\<close>

definition pdi_idle :: "pdidev \<Rightarrow> bool" where
  "pdi_idle v \<longleftrightarrow> prx v = [] \<and> pst v = 0 \<and> prep v = 0 \<and> pbusy v = 0"

definition nvm_page_ok :: "pdipart \<Rightarrow> nat \<Rightarrow> u16 \<Rightarrow> byte list \<Rightarrow> bool" where
  "nvm_page_ok P x n buf \<longleftrightarrow> 0 < n \<and> unat n \<le> length buf \<and> x mod ppsize P + unat n \<le> ppsize P \<and> x + unat n \<le> 0x1000000 \<and>
     pwait P < 1000 \<and> plong P < 1000"

text \<open>
  C31. A page: with a part that answers and finishes within a thousand looks, \<^verbatim>\<open>xnvm_program_flash_page\<close>
  clears the bits of the memory that are clear in the buffer and leaves every other byte of the part, and
  \<^verbatim>\<open>xnvm_erase_program_flash_page\<close> puts the bytes of the buffer there, the rest of the page erased;
  \<^verbatim>\<open>xnvm_read_memory\<close> then delivers the bytes.
\<close>

theorem xmega_page_roundtrip:
  assumes "honest (pdi_device P mem) (replies k)" "pdi_idle (dview (pdi_device P mem) (hist k))"
    and "pdicmd a = 0x07" "nvm_page_ok P (unat ad) n buf"
  shows "let m = pmem (dview (pdi_device P mem) (hist k)); x = unat ad; bs = take (unat n) buf in
    (\<exists>k1. xnvm_program_flash_page a ad (Some buf) n k = (Inr STATUS_OK, k1) \<and>
       pmem (dview (pdi_device P mem) (hist k1)) = put_page x (map2 (AND) (map m [x..<x + unat n]) bs) m) \<and>
    (\<exists>k1 k2. xnvm_erase_program_flash_page a ad (Some buf) n k = (Inr STATUS_OK, k1) \<and>
       pmem (dview (pdi_device P mem) (hist k1)) =
         write_page (ppsize P) x (put_page (x mod ppsize P) bs (\<lambda>_. 0xff)) m \<and>
       xnvm_read_memory a ad (ucast n) k1 = (Inr (n, bs), k2))"
proof -
  let ?dd = "pdi_device P mem"
  let ?v = "dview ?dd (hist k)" let ?x = "unat ad" let ?bs = "take (unat n) buf"
  let ?w = "\<lambda>c. page_written (ppsize P) c ?x (put_page (?x mod ppsize P) ?bs (\<lambda>_. 0xff)) (pmem ?v)"
  have at: "pdi_at (pptr ?v) 0 (pcmd ?v) (ppage ?v) 0 (pmem ?v) ?v" using assms(2) by (simp add: pdi_at_def pdi_idle_def)
  have ok: "0 < n" "unat n \<le> length buf" "?x mod ppsize P + unat n \<le> ppsize P" "?x + unat n \<le> 0x1000000"
    "pwait P < 1000" "plong P < 1000" using assms(4) by (simp_all add: nvm_page_ok_def)
  have bs: "length ?bs = unat n" "?bs \<noteq> []" using ok(1,2) by (auto simp: word_less_nat_alt)
  have page: "wp ?dd (xnvm_page a c ad (Some buf) n) (\<lambda>r w. r = STATUS_OK \<and> (\<exists>g. pdi_at (?x + 1) 0 c g 0 (?w c) w)) ?v"
    if "c = 0x2E \<or> c = 0x2F" for c
    by (rule wp_page [OF assms(3) at ok(2,1) that ok(3-6)]) blast
  obtain k1 where k1: "xnvm_program_flash_page a ad (Some buf) n k = (Inr STATUS_OK, k1)" "pmem (dview ?dd (hist k1)) = ?w 0x2E"
    unfolding xnvm_program_flash_page_def XNVM_CMD_WRITE_FLASH_PAGE_def
    by (rule wp_run [OF page [of "0x2E"] assms(1)]) (auto simp: pdi_at_def)
  obtain k2 g where k2: "xnvm_erase_program_flash_page a ad (Some buf) n k = (Inr STATUS_OK, k2)" "replies k2 = replies k"
    "pdi_at (?x + 1) 0 0x2F g 0 (?w 0x2F) (dview ?dd (hist k2))"
    unfolding xnvm_erase_program_flash_page_def XNVM_CMD_ERASE_AND_WRITE_FLASH_PAGE_def
    by (rule wp_run [OF page [of "0x2F"] assms(1)]) auto
  have n: "unat (ucast n :: u32) = unat n" using unat_lt [of n] by (simp add: unsigned_ucast_eq take_bit_eq_mod)
  have "map (?w 0x2F) [?x..<?x + unat n] = ?bs"
  proof (rule nth_equalityI)
    fix i assume "i < length (map (?w 0x2F) [?x..<?x + unat n])"
    then have i: "i < unat n" by simp
    have "(?x + i) mod ppsize P = ?x mod ppsize P + i" "(?x + i) div ppsize P = ?x div ppsize P"
      using same_page [of ?x "ppsize P" i] ok(3) i by simp_all
    then show "map (?w 0x2F) [?x..<?x + unat n] ! i = ?bs ! i"
      using i bs(1) by (simp add: page_written_def write_page_def put_page_def)
  qed (use bs(1) in simp)
  then have "wp ?dd (xnvm_read_memory a ad (ucast n)) (\<lambda>r w. r = (n, ?bs)) (dview ?dd (hist k2))"
    using ok(1,4,5) n by (intro wp_read_memory [OF assms(3) k2(3)]) (simp_all add: word_less_nat_alt)
  then obtain k3 where k3: "xnvm_read_memory a ad (ucast n) k2 = (Inr (n, ?bs), k3)"
    by (rule wp_run) (use assms(1) k2(2) in simp_all)
  have "pmem (dview ?dd (hist k1)) = put_page ?x (map2 (AND) (map (pmem ?v) [?x..<?x + unat n]) ?bs) (pmem ?v)"
    using k1(2) write_and [of ?x "ppsize P" ?bs "pmem ?v"] bs ok(3) by simp
  moreover have "pmem (dview ?dd (hist k2)) = write_page (ppsize P) ?x (put_page (?x mod ppsize P) ?bs (\<lambda>_. 0xff)) (pmem ?v)"
    using k2(3) by (simp add: page_written_def pdi_at_def)
  ultimately show ?thesis unfolding Let_def using k1(1) k2(1) k3 by blast
qed

definition small_xmega :: pdipart where
  "small_xmega = \<lparr>ppsize = 256, pwait = 2, plong = 3\<rparr>"

text \<open>An honest cable: it answers with a frame without data as long as there is none.\<close>

definition pdi_replies :: "pdipart \<Rightarrow> (nat \<Rightarrow> byte) \<Rightarrow> jop list \<Rightarrow> byte list" where
  "pdi_replies P mem cs =
     (let v = dview (pdi_device P mem) (butlast cs)
      in if 0 < pdelay v then [0xeb, 1]
         else let b = (case pdi_value v of None \<Rightarrow> 0 | Some b \<Rightarrow> b) in [b, get_parity b])"

lemma pdi_replies_honest: "honest (pdi_device P mem) (pdi_replies P mem)"
  by (auto simp: honest_def pdi_replies_def pdi_answer_def Let_def split: jop.split option.split bool.split)

theorem xmega_page_roundtrip_witness:
  "let k = \<lparr>hist = [], replies = pdi_replies small_xmega (\<lambda>_. 0xff)\<rparr>; a = nvm_new 0x07 in
    (\<exists>k1. xnvm_program_flash_page a 0x800010 (Some [1, 2, 3]) 3 k = (Inr STATUS_OK, k1)) \<and>
    (\<exists>k1 k2. xnvm_erase_program_flash_page a 0x800010 (Some [1, 2, 3]) 3 k = (Inr STATUS_OK, k1) \<and>
       xnvm_read_memory a 0x800010 3 k1 = (Inr (3, [1, 2, 3]), k2))"
proof -
  let ?k = "\<lparr>hist = [], replies = pdi_replies small_xmega (\<lambda>_. 0xff)\<rparr>"
  have "dview (pdi_device small_xmega (\<lambda>_. 0xff)) (hist ?k) = pdi_blank (\<lambda>_. 0xff)"
    by (simp add: dview_def pdi_device_def)
  then have "pdi_idle (dview (pdi_device small_xmega (\<lambda>_. 0xff)) (hist ?k))"
    "nvm_page_ok small_xmega (unat (0x800010 :: u32)) 3 [1, 2, 3]"
    by (simp_all add: pdi_idle_def pdi_blank_def nvm_page_ok_def small_xmega_def)
  moreover have "pdicmd (nvm_new 0x07) = 0x07" by (simp add: nvm_new_def)
  ultimately show ?thesis
    using xmega_page_roundtrip [where P = small_xmega and mem = "\<lambda>_. 0xff" and k = ?k and a = "nvm_new 0x07"
        and ad = "0x800010" and n = 3 and buf = "[1, 2, 3]"] pdi_replies_honest
    by (simp add: Let_def) metis
qed

section \<open>Whatever the part answers\<close>

lemma any_write:
  assumes "n \<le> length bs" "Q STATUS_OK ()"
  shows "wp any_device (pdi_write c bs n) Q v"
  unfolding pdi_write_def
  by (intro wp_bind wp_ops(1) wp_fold [where I = "\<lambda>_ _ _. True"])
    (use assms in \<open>auto intro!: wp_intro simp: buf_get_in\<close>)

lemma any_send: "Q STATUS_OK () \<Longrightarrow> wp any_device (xnvm_send a bs) Q v"
  unfolding xnvm_send_def by (rule any_write) simp_all

lemma any_frame: "(\<And>rv. Q rv ()) \<Longrightarrow> wp any_device (jcaptureDR t n True) Q v"
  by (rule wp_captures) simp

lemma any_wait: "(\<And>x. Q x ()) \<Longrightarrow> wp any_device (pdi_wait j k rv) Q v"
proof (induction k arbitrary: j rv v)
  case (Suc k)
  then show ?case unfolding pdi_wait.simps by (intro wp_if wp_bind any_frame wp_ret) simp_all
qed (simp add: wp_ret)

lemma any_read:
  assumes "\<And>m data. m = n \<and> length data = n \<or> m = 0 \<and> length data < n \<Longrightarrow> Q (m, data) ()"
  shows "wp any_device (pdi_read c n retries) Q v"
  unfolding pdi_read_def
proof (intro wp_bind wp_ops(1) wp_scan [where I = "\<lambda>j x _. length (snd x) = j"], goal_cases)
  case (1 j x w)
  obtain t data where x: "x = (t, data)" by (cases x)
  show ?case
    unfolding x pdi_read_byte_def prod.case
    by (intro wp_bind any_frame any_wait) (use 1 x assms in \<open>auto intro!: wp_intro\<close>)
qed (use assms in \<open>auto intro!: wp_ret\<close>)

text \<open>
  C32. What is read is reported the wrong way round: \<^verbatim>\<open>xnvm_ioread_byte\<close> returns success exactly when
  it has no byte. And \<^verbatim>\<open>xnvm_read_memory\<close> reports a length that was read completely modulo
  65536, so the sections of 64, 128 and 256 KB of these parts count as not read.
\<close>

theorem xmega_read_results:
  "(\<exists>r got. fst (xnvm_ioread_byte a address k) = Inr (r, got) \<and> (r = STATUS_OK \<longleftrightarrow> got = None)) \<and>
   (\<exists>c data. fst (xnvm_read_memory a ad n k) = Inr (c, data) \<and>
      unat c = (if length data = unat n then unat n mod 65536 else 0))"
proof -
  have stored: "stored data = None \<longleftrightarrow> data = []" for data by (cases data) (simp_all add: stored_def)
  have "\<exists>x. fst (xnvm_ioread_byte a address k) = Inr x \<and> (case x of (r, got) \<Rightarrow> r = STATUS_OK \<longleftrightarrow> got = None)"
    unfolding xnvm_ioread_byte_def
    by (rule wp_any, intro wp_bind any_send wp_if any_read) (auto intro!: wp_intro simp: stored)
  moreover have op: "wp any_device (xnvm_write_repeat a n) Q v" "wp any_device (xnvm_ctrl_cmd_write a c) Q v"
    "wp any_device (xnvm_st_ptr a ad) Q v" if "Q STATUS_OK ()" for Q v c
    unfolding xnvm_write_repeat_def Let_def xnvm_ctrl_cmd_write_def xnvm_ctrl_write_reg_def xnvm_iowrite_byte_def xnvm_st_ptr_def
    by (intro wp_if any_send that)+
  have u: "unat (ucast n :: u16) = unat n mod 65536" by (simp add: unsigned_ucast_eq take_bit_eq_mod)
  have "wp any_device (jbind (pdi_read (pdicmd a) (unat n) WAIT_RETRIES_NUM) (\<lambda>(got, data). jret (of_nat got, data)))
      (\<lambda>x _. case x of (c, data) \<Rightarrow> unat (c :: u16) = (if length data = unat n then unat n mod 65536 else 0)) v" for v
    by (intro wp_bind any_read) (auto intro!: wp_ret simp: u)
  then have "\<exists>x. fst (xnvm_read_memory a ad n k) = Inr x \<and>
      (case x of (c, data) \<Rightarrow> unat c = (if length data = unat n then unat n mod 65536 else 0))"
    unfolding xnvm_read_memory_def
    by (intro wp_any) (cases "n > 1"; simp only: if_True if_False append.simps; intro wp_do_Cons wp_do_Nil op any_send; assumption)
  ultimately show ?thesis by (auto split: prod.splits)
qed

end
