(* ===== verification/Cli.thy ===== *)
theory Cli
  imports CScan BitFile
begin

text \<open>
  The arguments of \<^verbatim>\<open>xc3sprog.cpp\<close>: file specifications
  \<^verbatim>\<open>name:action:section and offset:style:length\<close>, opening the file, chain positions and options of
  \<^verbatim>\<open>utilities.cpp\<close>. Arguments are C strings without their NUL; the file system is a map from names to
  contents with the set of names that can be written.
\<close>

section \<open>Numbers\<close>

text \<open>
  \<^verbatim>\<open>strtol(s, NULL, 0)\<close>: blanks, a sign, and digits in base 16 after \<^verbatim>\<open>0x\<close>, in base 8 after another 0, or
  in base 10; out of the range of \<^verbatim>\<open>long\<close> (64 bits) the value is the bound.
\<close>

definition c_isoctal :: "byte \<Rightarrow> bool" where
  "c_isoctal b \<longleftrightarrow> 48 \<le> b \<and> b \<le> 55"

fun oct_num :: "nat \<Rightarrow> byte list \<Rightarrow> nat" where
  "oct_num acc [] = acc"
| "oct_num acc (b # bs) = oct_num (8 * acc + (unat b - 48)) bs"

definition unsigned_num :: "byte list \<Rightarrow> nat" where
  "unsigned_num s =
     (case s of
        z # x # d # _ \<Rightarrow>
          if z = 48 \<and> (x = 120 \<or> x = 88) \<and> hex_value d \<noteq> None
          then hex_num 0 (takeWhile (\<lambda>b. hex_value b \<noteq> None) (drop 2 s))
          else if z = 48 then oct_num 0 (takeWhile c_isoctal s)
          else dec_num 0 (takeWhile c_isdigit s)
      | z # _ \<Rightarrow> if z = 48 then oct_num 0 (takeWhile c_isoctal s) else dec_num 0 (takeWhile c_isdigit s)
      | [] \<Rightarrow> 0)"

definition c_strtol :: "byte list \<Rightarrow> int" where
  "c_strtol s =
     (let s = dropWhile c_isspace s
      in if s \<noteq> [] \<and> hd s = 45 then max (- (2 ^ 63)) (- int (unsigned_num (tl s)))
         else min (2 ^ 63 - 1) (int (unsigned_num (if s \<noteq> [] \<and> hd s = 43 then tl s else s))))"

section \<open>File specifications\<close>

record file_spec =
  faction :: byte
  fsection :: byte
  foffset :: u32
  fstyle :: FILE_STYLE
  flength :: u32

text \<open>The field in front of the next colon, and the string behind it.\<close>

definition colon_field :: "byte list \<Rightarrow> byte list \<times> byte list option" where
  "colon_field s =
     (let f = takeWhile (\<lambda>b. b \<noteq> 58) s in (f, if length f < length s then Some (drop (length f + 1) s) else None))"

definition spec_action :: "byte list \<Rightarrow> file_spec \<Rightarrow> byte \<times> byte list option \<times> file_spec" where
  "spec_action p sp =
     (let (f, q) = colon_field p; a = (if length f = 1 then hd f else 119)
      in (a, q, sp\<lparr>faction := (if a = 87 then a else c_tolower a)\<rparr>))"

text \<open>The section is a character that is not a digit; an empty field at the end of the string has its NUL there.\<close>

definition spec_offset :: "byte list \<Rightarrow> file_spec \<Rightarrow> (byte list option \<times> file_spec) res" where
  "spec_offset p sp =
     (let (_, q) = colon_field p
      in if p = [] then Inl (OutOfBounds 1)
         else if \<not> c_isdigit (hd p)
         then Inr (q, sp\<lparr>fsection := hd p, foffset := word_of_int (c_strtol (tl p))\<rparr>)
         else Inr (q, sp\<lparr>foffset := word_of_int (c_strtol p)\<rparr>))"

text \<open>\<open>None\<close> for an unknown style, where the function returns.\<close>

definition spec_style :: "byte list \<Rightarrow> file_spec \<Rightarrow> (byte list option \<times> file_spec) option" where
  "spec_style p sp =
     (let (f, q) = colon_field p
      in if f = [] then Some (q, sp)
         else case styleFromString p of None \<Rightarrow> None | Some st \<Rightarrow> Some (q, sp\<lparr>fstyle := st\<rparr>))"

text \<open>
  The fields: the name and action that decide about opening the file, \<open>None\<close> if the function returns
  without, and what the caller gets.
\<close>

definition parse_spec :: "byte list \<Rightarrow> file_spec \<Rightarrow> ((byte list \<times> byte) option \<times> file_spec) res" where
  "parse_spec arg sp =
     (let (name, p) = colon_field arg
      in if name = [] then Inr (None, sp)
         else let (act, p, sp) = (case p of None \<Rightarrow> (119, None, sp) | Some p \<Rightarrow> spec_action p sp)
              in rbind (case p of None \<Rightarrow> Inr (None, sp) | Some p \<Rightarrow> spec_offset p sp) (\<lambda>(p, sp).
                 Inr (case (case p of None \<Rightarrow> Some (None, sp) | Some p \<Rightarrow> spec_style p sp) of
                        None \<Rightarrow> (None, sp)
                      | Some (p, sp) \<Rightarrow>
                          (Some (take 255 name, act),
                           case p of None \<Rightarrow> sp | Some p \<Rightarrow> sp\<lparr>flength := word_of_int (c_strtol p)\<rparr>))))"

section \<open>Files\<close>

record world =
  files :: "byte list \<Rightarrow> byte list option"
  writable :: "byte list \<Rightarrow> bool"
  stdout :: "byte list"

datatype handle = NoFile | Stdout | Reading "byte list" | Writing "byte list"

text \<open>A file that is read exists; one that is written is empty then, and may only have been before.\<close>

definition open_spec :: "byte list \<Rightarrow> byte \<Rightarrow> world \<Rightarrow> handle \<times> world" where
  "open_spec name act w =
     (if c_tolower act = 114
      then if strcasecmp_eq name (ascii ''stdout'') then (Stdout, w)
           else if act = 114 \<and> files w name \<noteq> None \<and> files w name \<noteq> Some [] then (NoFile, w)
           else if writable w name then (Writing name, w\<lparr>files := (files w)(name \<mapsto> [])\<rparr>)
           else (NoFile, w)
      else if files w name = None then (NoFile, w) else (Reading name, w))"

definition getFile_and_Attribute_from_name :: "byte list \<Rightarrow> file_spec \<Rightarrow> world \<Rightarrow> (handle \<times> file_spec \<times> world) res" where
  "getFile_and_Attribute_from_name arg sp w =
     rbind (parse_spec arg sp) (\<lambda>(oa, sp).
       Inr (case oa of
              None \<Rightarrow> (NoFile, sp, w)
            | Some (name, act) \<Rightarrow> (let (h, w) = open_spec name act w in (h, sp, w))))"

text \<open>What the readers get of a handle, and where the writers put their output.\<close>

definition file_bytes :: "world \<Rightarrow> handle \<Rightarrow> byte list option" where
  "file_bytes w h = (case h of Reading n \<Rightarrow> files w n | Writing n \<Rightarrow> Some [] | Stdout \<Rightarrow> Some [] | NoFile \<Rightarrow> None)"

definition file_put :: "handle \<Rightarrow> byte list \<Rightarrow> world \<Rightarrow> world" where
  "file_put h bs w =
     (case h of
        Writing n \<Rightarrow> w\<lparr>files := (files w)(n := map_option (\<lambda>old. old @ bs) (files w n))\<rparr>
      | Stdout \<Rightarrow> w\<lparr>stdout := stdout w @ bs\<rparr>
      | _ \<Rightarrow> w)"

section \<open>Chain positions and lists of options\<close>

definition MAXPOSITIONS :: nat where
  "MAXPOSITIONS = 8"

text \<open>\<^verbatim>\<open>strtoul(p, &q, 10)\<close>, assigned to an \<^verbatim>\<open>int\<close>: the value and the rest, which is \<open>p\<close> without a number.\<close>

definition c_strtoul :: "byte list \<Rightarrow> int \<times> byte list" where
  "c_strtoul p =
     (let s = dropWhile c_isspace p; neg = (s \<noteq> [] \<and> hd s = 45);
          s = (if s \<noteq> [] \<and> (hd s = 45 \<or> hd s = 43) then tl s else s);
          ds = takeWhile c_isdigit s; n = int (dec_num 0 ds);
          v = (if n \<ge> 2 ^ 64 then 2 ^ 64 - 1 else if neg then (- n) mod 2 ^ 64 else n)
      in if ds = [] then (0, p) else (sint (word_of_int v :: u32), drop (length ds) s))"

text \<open>
  The loop of the option \<^verbatim>\<open>-p\<close>: the array has eight entries, and the loop may store into a ninth. The
  result are the positions stored, how many of them count, and the rest of the string.
\<close>

fun position_loop :: "nat \<Rightarrow> nat \<Rightarrow> byte list \<Rightarrow> int list \<Rightarrow> (nat \<times> int list \<times> byte list) res" where
  "position_loop 0 n p ps = Inr (n, ps, p)"
| "position_loop (Suc k) n p ps =
     (let (v, q) = c_strtoul p
      in rbind (buf_set ps n v) (\<lambda>ps.
         if p = q then Inr (n, ps, p)
         else if q \<noteq> [] \<and> hd q = 44 then position_loop k (n + 1) (tl q) ps
         else Inr (n + 1, ps, q)))"

definition parse_positions :: "byte list \<Rightarrow> int list \<Rightarrow> (nat \<times> int list) res" where
  "parse_positions arg ps =
     rbind (position_loop (MAXPOSITIONS + 1) 0 arg ps) (\<lambda>(n, ps, p). if p \<noteq> [] then Inl (Exit 255) else Inr (n, ps))"

fun splitString :: "byte list \<Rightarrow> byte \<Rightarrow> byte list list" where
  "splitString s delim =
     (if s = [] then []
      else takeWhile (\<lambda>b. b \<noteq> delim) s # splitString (drop (length (takeWhile (\<lambda>b. b \<noteq> delim) s) + 1) s) delim)"

declare splitString.simps [simp del]

end
