(* ===== verification/CliProps.thy ===== *)
theory CliProps
  imports Cli BitFileProps
begin

text \<open>
  File specifications: what a caller writes field by field is what the parser finds, and opening a file
  never destroys one that may not be overwritten.
\<close>

section \<open>Fields\<close>

lemma colon_field_colon: "58 \<notin> set f \<Longrightarrow> colon_field (f @ 58 # r) = (f, Some r)"
proof -
  assume "58 \<notin> set f"
  then have "takeWhile (\<lambda>b. b \<noteq> 58) (f @ 58 # r) = f" by (intro takeWhile_all) auto
  then show ?thesis by (simp add: colon_field_def Let_def)
qed

lemma colon_field_end: "58 \<notin> set f \<Longrightarrow> colon_field f = (f, None)"
proof -
  assume "58 \<notin> set f"
  then have t: "takeWhile (\<lambda>b. b \<noteq> 58) f = f" by (auto simp: takeWhile_eq_all_conv)
  show ?thesis unfolding colon_field_def t Let_def by simp
qed

lemma digits_no_colon: "58 \<notin> set (dec_string n)"
  using dec_string_chars [of n] by (auto simp: c_isdigit_def)

lemma dec_string_hd: "hd (dec_string n) = 48 \<longleftrightarrow> n = 0"
proof (induction n rule: dec_string.induct)
  case (1 n)
  show ?case
  proof (cases "n < 10")
    case True
    then have "dec_string n = [of_nat (48 + n)]" by (subst dec_string.simps) simp
    moreover have "list_all (\<lambda>n. (of_nat (48 + n) = (48 :: byte)) = (n = 0)) [0..<10]" by code_simp
    ultimately show ?thesis using True by (simp add: list_all_iff)
  next
    case False
    have "dec_string (n div 10) \<noteq> []" using dec_string_value by blast
    moreover have "dec_string n = dec_string (n div 10) @ [of_nat (48 + n mod 10)]" using False by (subst dec_string.simps) simp
    moreover have "n div 10 \<noteq> 0" using False by simp
    ultimately show ?thesis using 1 False by simp
  qed
qed

text \<open>A number in decimal, followed by a colon or the end.\<close>

lemma strtol_dec:
  assumes "r = [] \<or> hd r = 58" "n < 2 ^ 63"
  shows "c_strtol (dec_string n @ r) = int n"
proof -
  obtain d ds where s: "dec_string n = d # ds" using dec_string_value [of n] by (cases "dec_string n") auto
  have dig: "\<forall>b \<in> set (d # ds). c_isdigit b" using dec_string_chars [of n] s by simp
  have r: "r = [] \<or> (\<exists>t. r = 58 # t)" using assms(1) by (cases r) auto
  have no: "\<not> c_isdigit 58" "\<not> c_isoctal 58" by (simp_all add: c_isdigit_def c_isoctal_def)
  have tw: "takeWhile c_isdigit (d # ds @ r) = d # ds" using r dig no by (auto simp: takeWhile_append)
  have x: "c_isdigit b \<Longrightarrow> b \<noteq> 120 \<and> b \<noteq> 88" for b by (auto simp: c_isdigit_def)
  have num: "unsigned_num (dec_string n @ r) = n"
  proof (cases "n = 0")
    case True
    have "c_isoctal 48" "dec_string 0 = [48]" by (simp_all add: c_isoctal_def dec_string.simps [of 0])
    then show ?thesis using True r no by (auto simp: unsigned_num_def split: list.split)
  next
    case False
    then have "d \<noteq> 48" using dec_string_hd [of n] s by simp
    then have "unsigned_num (d # ds @ r) = dec_num 0 (d # ds)"
      unfolding unsigned_num_def using tw by (simp split: list.split)
    then show ?thesis using dec_string_value [of n] s by simp
  qed
  have "\<not> c_isspace d" "d \<noteq> 45" "d \<noteq> 43" using c_digits [of d] dig by auto
  then show ?thesis using num s assms(2) by (simp add: c_strtol_def Let_def)
qed

text \<open>The names of the styles have no colon and are found again.\<close>

lemma style_field:
  assumes "styleToString st = Some t"
  shows "58 \<notin> set (ascii t)" "ascii t \<noteq> []" "styleFromString (ascii t @ 58 # r) = Some st" "styleFromString (ascii t) = Some st"
proof -
  show "styleFromString (ascii t @ 58 # r) = Some st" "styleFromString (ascii t) = Some st"
    using style_names [of st r] assms by simp_all
  have "t \<in> {''BIT'', ''BIN'', ''HEX'', ''HEXRAW'', ''MCS'', ''IHEX'', ''JEDEC'', ''AUTO''}"
    using assms by (auto simp: styleToString_def split: FILE_STYLE.splits)
  then show "58 \<notin> set (ascii t)" "ascii t \<noteq> []" by (auto simp: ascii_def)
qed

section \<open>Specifications\<close>

text \<open>The five fields as a user writes them; the section is a letter in front of the offset, if any.\<close>

definition write_spec :: "byte list \<Rightarrow> byte \<Rightarrow> byte option \<Rightarrow> nat \<Rightarrow> string \<Rightarrow> nat \<Rightarrow> byte list" where
  "write_spec name act sec off style len =
     name @ 58 # act # 58 # (case sec of None \<Rightarrow> [] | Some c \<Rightarrow> [c]) @ dec_string off @ 58 # ascii style @ 58 # dec_string len"

text \<open>
  C34. A specification of five fields is read as it was written: the name up to 255 characters, the action
  in lower case but for \<open>W\<close>, the section, offset, style and length, and the file is opened for the action
  as it was written.
\<close>

theorem parse_spec_fields:
  assumes "name \<noteq> []" "58 \<notin> set name" "act \<noteq> 58" "styleToString st = Some style" "off < 2 ^ 63" "len < 2 ^ 63"
    and "case sec of None \<Rightarrow> True | Some c \<Rightarrow> \<not> c_isdigit c \<and> c \<noteq> 58"
  shows "parse_spec (write_spec name act sec off style len) sp =
    Inr (Some (take 255 name, act),
      sp\<lparr>faction := (if act = 87 then act else c_tolower act), fsection := (case sec of None \<Rightarrow> fsection sp | Some c \<Rightarrow> c),
        foffset := of_nat off, fstyle := st, flength := of_nat len\<rparr>)"
proof -
  let ?r4 = "ascii style @ 58 # dec_string len" let ?r3 = "(case sec of None \<Rightarrow> [] | Some c \<Rightarrow> [c]) @ dec_string off @ 58 # ?r4"
  note style = style_field [OF assms(4)]
  have f1: "colon_field (write_spec name act sec off style len) = (name, Some (act # 58 # ?r3))"
    using assms(2) by (simp add: write_spec_def colon_field_colon)
  have f2: "colon_field (act # 58 # ?r3) = ([act], Some ?r3)" using assms(3) colon_field_colon [of "[act]"] by simp
  have n3: "58 \<notin> set ((case sec of None \<Rightarrow> [] | Some c \<Rightarrow> [c]) @ dec_string off)"
    using assms(7) digits_no_colon by (auto split: option.splits)
  have f3: "colon_field ?r3 = ((case sec of None \<Rightarrow> [] | Some c \<Rightarrow> [c]) @ dec_string off, Some ?r4)"
    using colon_field_colon [OF n3, of ?r4] by simp
  have off: "c_strtol (dec_string off @ 58 # ?r4) = int off" using strtol_dec [of "58 # ?r4"] assms(5) by simp
  have len: "c_strtol (dec_string len) = int len" using strtol_dec [of "[]"] assms(6) by simp
  obtain d ds where d: "dec_string off = d # ds" "c_isdigit d"
    using dec_string_value [of off] dec_string_chars [of off] by (cases "dec_string off") auto
  have s3: "spec_offset ?r3 sp = Inr (Some ?r4, sp\<lparr>fsection := (case sec of None \<Rightarrow> fsection sp | Some c \<Rightarrow> c), foffset := of_nat off\<rparr>)" for sp
    unfolding spec_offset_def f3 using assms(7) off d by (cases sec) simp_all
  have s4: "spec_style ?r4 sp = Some (Some (dec_string len), sp\<lparr>fstyle := st\<rparr>)" for sp
    using style by (simp add: spec_style_def colon_field_colon)
  define R where "R = ?r3"
  have "parse_spec (write_spec name act sec off style len) sp = rbind (spec_offset R (sp\<lparr>faction := (if act = 87 then act else c_tolower act)\<rparr>))
      (\<lambda>(p, sp). Inr (case (case p of None \<Rightarrow> Some (None, sp) | Some p \<Rightarrow> spec_style p sp) of
          None \<Rightarrow> (None, sp)
        | Some (p, sp) \<Rightarrow> (Some (take 255 name, act), case p of None \<Rightarrow> sp | Some p \<Rightarrow> sp\<lparr>flength := word_of_int (c_strtol p)\<rparr>)))"
    unfolding parse_spec_def f1 using assms(1) f2 by (simp add: spec_action_def R_def [symmetric])
  also have "\<dots> = Inr (Some (take 255 name, act), sp\<lparr>faction := (if act = 87 then act else c_tolower act),
      fsection := (case sec of None \<Rightarrow> fsection sp | Some c \<Rightarrow> c), foffset := of_nat off, fstyle := st, flength := of_nat len\<rparr>)"
    unfolding R_def s3 by (cases sec) (simp_all add: s4 len)
  finally show ?thesis .
qed

theorem parse_spec_fields_witness:
  "parse_spec (write_spec (ascii ''a.hex'') 82 (Some 101) 256 ''IHEX'' 1024) \<lparr>faction = 119, fsection = 97, foffset = 0, fstyle = STYLE_BIT, flength = 0\<rparr> =
     Inr (Some (ascii ''a.hex'', 82), \<lparr>faction = 114, fsection = 101, foffset = 256, fstyle = STYLE_IHEX, flength = 1024\<rparr>)"
proof -
  have "58 \<notin> set (ascii ''a.hex'')" "ascii ''a.hex'' \<noteq> []" "length (ascii ''a.hex'') = 5" by (simp_all add: ascii_def)
  then show ?thesis
    using parse_spec_fields [of "ascii ''a.hex''" 82 STYLE_IHEX "''IHEX''" 256 1024 "Some 101"]
    by (simp add: styleToString_def c_isdigit_def c_tolower_def)
qed

text \<open>
  Opening a file changes no file but the one named, and that only for the actions to read the part: with
  \<^verbatim>\<open>r\<close> it did not exist or was empty, with \<^verbatim>\<open>R\<close> it is emptied.
\<close>

theorem open_spec_keeps_files:
  "case open_spec name act w of (h, w') \<Rightarrow>
     writable w' = writable w \<and> stdout w' = stdout w \<and>
     (files w' = files w \<or>
      h = Writing name \<and> files w' = (files w)(name \<mapsto> []) \<and> (act = 82 \<or> files w name = None \<or> files w name = Some []))"
proof -
  have "c_tolower act = 114 \<longleftrightarrow> act = 114 \<or> act = 82"
  proof (cases "65 \<le> act \<and> act \<le> 90")
    case True
    then have "c_tolower act = act + 32" by (simp add: c_tolower_def)
    moreover have "act + 32 = 114 \<longleftrightarrow> act = 82" using eq_diff_eq [of act 114 32] by simp
    ultimately show ?thesis using True by auto
  qed (auto simp: c_tolower_def)
  then show ?thesis by (auto simp: open_spec_def)
qed

end
