(* ===== verification/Chain.thy ===== *)
theory Chain
  imports JtagSpec DeviceDB
begin

text \<open>
  The functions of \<^verbatim>\<open>xc3sprog.cpp\<close> and \<^verbatim>\<open>utilities.cpp\<close> that join the chain of devices with the
  database: detection, the lengths of the instruction registers and the choice of a device.
\<close>

section \<open>Detection\<close>

text \<open>\<^verbatim>\<open>init_chain\<close> from device \<open>i\<close>, with \<open>n\<close> devices left: it gives up at the first one it does not know.\<close>

fun init_loop :: "nat \<Rightarrow> nat \<Rightarrow> devicedb \<Rightarrow> 'w jtag \<Rightarrow> bool \<times> devicedb \<times> 'w jtag" where
  "init_loop i 0 db j = (True, db, j)"
| "init_loop i (Suc n) db j =
     (let (l, db) = idToIRLength (getDeviceID i j) db
      in if l > 0 then init_loop (i + 1) n db (snd (setDeviceIRLength (int i) (nat l) j)) else (False, db, j))"

definition init_chain :: "'w io_driver \<Rightarrow> nat \<Rightarrow> devicedb \<Rightarrow> 'w jtag \<Rightarrow> (int \<times> devicedb \<times> 'w jtag) option" where
  "init_chain drv junk db j =
     (case getChain drv junk False j of
        None \<Rightarrow> None
      | Some (num, j) \<Rightarrow>
          if num = 0 then Some (0, db, j)
          else let (good, db, j) = init_loop 0 (nat num) db j in Some (if good then num else 0, db, j))"

text \<open>\<^verbatim>\<open>detect_chain\<close> passes over the devices it does not know.\<close>

fun detect_loop :: "nat \<Rightarrow> nat \<Rightarrow> devicedb \<Rightarrow> 'w jtag \<Rightarrow> devicedb \<times> 'w jtag" where
  "detect_loop i 0 db j = (db, j)"
| "detect_loop i (Suc n) db j =
     (let (l, db) = idToIRLength (getDeviceID i j) db
      in detect_loop (i + 1) n db (if l > 0 then snd (setDeviceIRLength (int i) (nat l) j) else j))"

definition detect_chain :: "'w io_driver \<Rightarrow> nat \<Rightarrow> devicedb \<Rightarrow> 'w jtag \<Rightarrow> (devicedb \<times> 'w jtag) option" where
  "detect_chain drv junk db j =
     (case getChain drv junk False j of None \<Rightarrow> None | Some (num, j) \<Rightarrow> Some (detect_loop 0 (nat num) db j))"

text \<open>The identification at a position, 0 for a position outside the chain. Messages are left out.\<close>

definition get_id :: "'w io_driver \<Rightarrow> nat \<Rightarrow> int \<Rightarrow> 'w jtag \<Rightarrow> (u32 \<times> 'w jtag) option" where
  "get_id drv junk chainpos j =
     (case getChain drv junk False j of
        None \<Rightarrow> None
      | Some (num, j) \<Rightarrow>
          (case selectDevice chainpos j of
             (r, j) \<Rightarrow> Some (if r < 0 then 0 else getDeviceID (nat chainpos) j, j)))"

section \<open>What an identification says\<close>

definition IDCODE_TO_FAMILY :: "u32 \<Rightarrow> int" where
  "IDCODE_TO_FAMILY i = uint (drop_bit 21 i AND 0x7f)"

definition IDCODE_TO_MANUFACTURER :: "u32 \<Rightarrow> u32" where
  "IDCODE_TO_MANUFACTURER i = drop_bit 1 i AND 0x3ff"

definition MANUFACTURER_ATMEL :: u32 where "MANUFACTURER_ATMEL = 0x01f"
definition MANUFACTURER_XILINX :: u32 where "MANUFACTURER_XILINX = 0x049"

end
