(* ===== verification/ChainProps.thy ===== *)
theory ChainProps
  imports Chain DeviceDBProps Gpio ProgAlg
begin

text \<open>
  A chain that \<^verbatim>\<open>init_chain\<close> has accepted: every device has the length of its instruction register from
  the database, and a device that was chosen is ready for an algorithm.
\<close>

section \<open>Lengths\<close>

text \<open>What a list of devices says of an identification; 0 for one that it does not hold.\<close>

definition list_length :: "device_t list \<Rightarrow> u32 \<Rightarrow> int" where
  "list_length ds i = (case find (\<lambda>d. i AND idcode_mask = device_t.idcode d) ds of Some d \<Rightarrow> device_t.irlen d | None \<Rightarrow> 0)"

lemma idToIRLength_list:
  assumes "cache_ok db"
  shows "fst (idToIRLength i db) = list_length (dev_db db) i"
    and "cache_ok (snd (idToIRLength i db))" and "dev_db (snd (idToIRLength i db)) = dev_db db"
  using findDevice_first [OF assms, of i]
  by (auto simp: idToIRLength_def list_length_def split: prod.split option.split)

text \<open>What the loop leaves alone: everything but the lengths of the devices from \<open>i\<close> on.\<close>

definition same_chain :: "nat \<Rightarrow> 'w jtag \<Rightarrow> 'w jtag \<Rightarrow> bool" where
  "same_chain i j' j \<longleftrightarrow> j' = j\<lparr>devices := devices j'\<rparr> \<and>
     map chainParam.idcode (devices j') = map chainParam.idcode (devices j) \<and> take i (devices j') = take i (devices j)"

lemma same_chain_trans: "same_chain i j2 j1 \<Longrightarrow> same_chain i' j3 j2 \<Longrightarrow> i \<le> i' \<Longrightarrow> same_chain i j3 j1"
  unfolding same_chain_def by (metis jtag.select_convs(2) jtag.surjective jtag.update_convs(2) min.absorb1 take_take)

definition lengths_known :: "device_t list \<Rightarrow> nat \<Rightarrow> nat \<Rightarrow> 'w jtag \<Rightarrow> bool" where
  "lengths_known ds i n j \<longleftrightarrow> (\<forall>k. i \<le> k \<and> k < n \<longrightarrow>
     0 < chainParam.irlen (devices j ! k) \<and>
     int (chainParam.irlen (devices j ! k)) = list_length ds (chainParam.idcode (devices j ! k)))"

lemma lengths_known_Cons:
  assumes "0 < chainParam.irlen (devices j ! i)"
    "int (chainParam.irlen (devices j ! i)) = list_length ds (chainParam.idcode (devices j ! i))"
  shows "lengths_known ds (Suc i) n j \<Longrightarrow> lengths_known ds i n j"
  using assms unfolding lengths_known_def by (metis Suc_leI le_neq_implies_less)

lemma init_loop_lengths:
  assumes "init_loop i n db j = (good, db', j')" "cache_ok db" "i + n \<le> length (devices j)" "int (length (devices j)) = numDevices j"
  shows "cache_ok db' \<and> dev_db db' = dev_db db \<and> same_chain i j' j \<and> (good \<longrightarrow> lengths_known (dev_db db) i (i + n) j')"
  using assms
proof (induction i n db j rule: init_loop.induct)
  case (1 i db j)
  then show ?case by (simp add: same_chain_def lengths_known_def)
next
  case (2 i n db j)
  obtain l db1 where l: "idToIRLength (getDeviceID i j) db = (l, db1)" by (cases "idToIRLength (getDeviceID i j) db")
  have i: "i < length (devices j)" using "2.prems"(3) by simp
  have db1: "cache_ok db1" "dev_db db1 = dev_db db" "l = list_length (dev_db db) (chainParam.idcode (devices j ! i))"
    using idToIRLength_list [OF "2.prems"(2), of "getDeviceID i j"] l i by (simp_all add: getDeviceID_def)
  show ?case
  proof (cases "l > 0")
    case False
    then show ?thesis using "2.prems"(1) l db1 by (simp add: same_chain_def)
  next
    case True
    let ?j = "snd (setDeviceIRLength (int i) (nat l) j)"
    have j1: "?j = j\<lparr>devices := (devices j)[i := (devices j ! i)\<lparr>chainParam.irlen := nat l\<rparr>]\<rparr>"
      using i "2.prems"(4) by (simp add: setDeviceIRLength_def)
    have r: "init_loop (i + 1) n db1 ?j = (good, db', j')" using "2.prems"(1) l True by simp
    have IH: "cache_ok db' \<and> dev_db db' = dev_db db1 \<and> same_chain (i + 1) j' ?j \<and>
        (good \<longrightarrow> lengths_known (dev_db db1) (i + 1) (i + 1 + n) j')"
      using "2.IH" [OF l [symmetric] refl True r db1(1)] "2.prems"(3,4) j1 by simp
    have same: "same_chain i ?j j"
      using i unfolding j1 same_chain_def by (simp add: map_update) (metis list_update_id nth_map)
    have k: "devices j' ! i = devices ?j ! i"
      using IH unfolding same_chain_def by (metis less_add_one nth_take)
    moreover have "devices ?j ! i = (devices j ! i)\<lparr>chainParam.irlen := nat l\<rparr>" unfolding j1 using i by simp
    ultimately have "0 < chainParam.irlen (devices j' ! i)"
      "int (chainParam.irlen (devices j' ! i)) = list_length (dev_db db) (chainParam.idcode (devices j' ! i))"
      using True db1(3) by simp_all
    then have "good \<longrightarrow> lengths_known (dev_db db) i (i + Suc n) j'"
      using IH db1(2) lengths_known_Cons [of j' i "dev_db db" "i + Suc n"] by simp
    moreover have "same_chain i j' j" using same IH same_chain_trans by (metis le_add1)
    ultimately show ?thesis using IH db1(2) by simp
  qed
qed

section \<open>From detection to an algorithm\<close>

text \<open>A chain object that has not looked yet, on a cable in a known state.\<close>

definition fresh :: "'w jtag \<Rightarrow> bool" where
  "fresh j \<longleftrightarrow> io_inv (jio j) \<and> numDevices j = - 1 \<and> devices j = [] \<and> postDRState j = RUN_TEST_IDLE \<and>
     postIRState j = RUN_TEST_IDLE \<and> \<not> shiftDRincomplete j"

context tms_cable
begin

lemma init_chain_ready:
  assumes "fresh j" "s0 \<noteq> UNKNOWN" "cache_ok db"
  obtains n db' j1 where "init_chain drv junk db j = Some (n, db', j1)" "jtag_sync wire s0 j1"
    and "current_state j1 = TEST_LOGIC_RESET" "numDevices j1 = int (length (devices j1))" "postDRState j1 = RUN_TEST_IDLE"
    and "postIRState j1 = RUN_TEST_IDLE" "\<not> shiftDRincomplete j1" "\<forall>d \<in> set (devices j1). chainParam.idcode d \<noteq> 0"
    and "n = 0 \<or> n = int (length (devices j1)) \<and> lengths_known (dev_db db) 0 (length (devices j1)) j1"
proof -
  obtain new j1 where j1: "getChain drv junk False j = Some (int (length new), j1)" "jtag_sync wire s0 j1"
    "current_state j1 = TEST_LOGIC_RESET" "numDevices j1 = int (length new)" "devices j1 = new @ devices j"
    "\<forall>d \<in> set new. chainParam.idcode d \<noteq> 0 \<and> chainParam.idcode d \<noteq> 0xffffffff"
    "postDRState j1 = postDRState j" "postIRState j1 = postIRState j" "shiftDRincomplete j1 = shiftDRincomplete j"
    using getChain_detects [where j = j and detect = False and junk = junk] assms(1,2) unfolding fresh_def by metis
  have f: "devices j = []" "postDRState j = RUN_TEST_IDLE" "postIRState j = RUN_TEST_IDLE" "\<not> shiftDRincomplete j"
    using assms(1) by (simp_all add: fresh_def)
  show thesis
  proof (cases "new = []")
    case True
    then show ?thesis using j1 f by (intro that [of 0 db j1]) (simp_all add: init_chain_def)
  next
    case False
    obtain good db2 j2 where r: "init_loop 0 (length new) db j1 = (good, db2, j2)" by (cases "init_loop 0 (length new) db j1")
    have l: "same_chain 0 j2 j1" "good \<longrightarrow> lengths_known (dev_db db) 0 (length new) j2"
      using init_loop_lengths [OF r assms(3)] j1(4,5) f(1) by simp_all
    then have e: "j2 = j1\<lparr>devices := devices j2\<rparr>" "map chainParam.idcode (devices j2) = map chainParam.idcode new"
      using j1(5) f(1) by (simp_all add: same_chain_def)
    then have len: "length (devices j2) = length new" by (metis length_map)
    have ids: "\<forall>d \<in> set (devices j2). chainParam.idcode d \<noteq> 0"
    proof
      fix d assume "d \<in> set (devices j2)"
      then have "chainParam.idcode d \<in> set (map chainParam.idcode new)" unfolding e(2) [symmetric] by simp
      then show "chainParam.idcode d \<noteq> 0" using j1(6) by auto
    qed
    have sync: "jtag_sync wire s0 j2" using j1(2) by (subst e(1)) (simp add: jtag_sync_def)
    have rest: "current_state j2 = current_state j1" "numDevices j2 = numDevices j1" "postDRState j2 = postDRState j1"
      "postIRState j2 = postIRState j1" "shiftDRincomplete j2 = shiftDRincomplete j1"
      by (subst e(1), simp)+
    show ?thesis
    proof (rule that [of "if good then int (length new) else 0" db2 j2])
      show "init_chain drv junk db j = Some (if good then int (length new) else 0, db2, j2)"
        using j1(1) r False by (simp add: init_chain_def)
    qed (use j1 f l len sync ids rest in simp_all)
  qed
qed

text \<open>A device chosen by its position is ready for an algorithm that starts after a reset.\<close>

lemma get_id_ready:
  assumes "jtag_sync wire s0 j1" "current_state j1 = TEST_LOGIC_RESET" "numDevices j1 = int (length (devices j1))"
    and "postDRState j1 = RUN_TEST_IDLE" "postIRState j1 = RUN_TEST_IDLE" "\<not> shiftDRincomplete j1"
    and "lengths_known ds 0 (length (devices j1)) j1" "0 \<le> pos" "pos < int (length (devices j1))"
  obtains j2 where "get_id drv junk pos j1 = Some (chainParam.idcode (devices j1 ! nat pos), j2)"
    and "jtag_sync wire s0 j2" "jtag_conf j2" "link_state InReset j2" "deviceIndex j2 = pos" "devices j2 = devices j1"
proof -
  let ?j = "j1\<lparr>deviceIndex := pos\<rparr>"
  have "0 < chainParam.irlen (devices j1 ! nat pos)" using assms(7-9) by (simp add: lengths_known_def)
  moreover have "nat pos < length (devices j1)" using assms(8,9) by linarith
  ultimately show thesis
    using assms by (intro that [of ?j])
      (simp_all add: get_id_def getChain_def selectDevice_def getDeviceID_def jtag_sync_def jtag_conf_def link_state_def)
qed

end

text \<open>
  C33. From power up to an algorithm, on GPIO lines: \<^verbatim>\<open>init_chain\<close> returns whatever the chain answers and
  leaves the controllers in Test-Logic-Reset, in step with the software. When it accepts the chain, each
  position has an identification that is not 0 and the register length of the first device of the list with
  that identification, and the calls of any algorithm that obeys the protocol are executed with the software
  in step with the controllers, when that register has at most eight bits.
\<close>

theorem session_tracks_tap:
  assumes "s0 \<noteq> UNKNOWN" and "obeys InReset m"
  shows "\<exists>n db j1. init_chain (gpio_driver env junk) len (devicedb_new fs dbenv builtin fname) (jtag_init (iobase_init h)) = Some (n, db, j1) \<and>
     jtag_sync gpio_wire s0 j1 \<and> current_state j1 = TEST_LOGIC_RESET \<and>
     (\<forall>pos. 0 \<le> pos \<and> pos < n \<longrightarrow>
        (\<exists>i j2. get_id (gpio_driver env junk) len pos j1 = Some (i, j2) \<and> i \<noteq> 0 \<and>
           int (chainParam.irlen (devices j2 ! nat pos)) = list_length (dev_db (devicedb_new fs dbenv builtin fname)) i \<and>
           (chainParam.irlen (devices j2 ! nat pos) \<le> 8 \<longrightarrow>
              (\<exists>j3. exec_ops (gpio_driver env junk) (calls m k) j2 = Some j3 \<and> jtag_sync gpio_wire s0 j3))))"
proof -
  let ?db = "devicedb_new fs dbenv builtin fname" let ?drv = "gpio_driver env junk"
  have "cache_ok ?db"
    by (simp add: cache_ok_def devicedb_new_def empty_devices_def read_used Let_def split: option.split)
  moreover have "fresh (jtag_init (iobase_init h))" by (simp add: fresh_def jtag_init_def io_inv_init)
  ultimately obtain n db j1 where j1: "init_chain ?drv len ?db (jtag_init (iobase_init h)) = Some (n, db, j1)"
    "jtag_sync gpio_wire s0 j1" "current_state j1 = TEST_LOGIC_RESET" "numDevices j1 = int (length (devices j1))"
    "postDRState j1 = RUN_TEST_IDLE" "postIRState j1 = RUN_TEST_IDLE" "\<not> shiftDRincomplete j1"
    "\<forall>d \<in> set (devices j1). chainParam.idcode d \<noteq> 0"
    "n = 0 \<or> n = int (length (devices j1)) \<and> lengths_known (dev_db ?db) 0 (length (devices j1)) j1"
    using gpio.init_chain_ready [OF _ assms(1)] by metis
  have "\<exists>i j2. get_id ?drv len pos j1 = Some (i, j2) \<and> i \<noteq> 0 \<and>
      int (chainParam.irlen (devices j2 ! nat pos)) = list_length (dev_db ?db) i \<and>
      (chainParam.irlen (devices j2 ! nat pos) \<le> 8 \<longrightarrow>
        (\<exists>j3. exec_ops ?drv (calls m k) j2 = Some j3 \<and> jtag_sync gpio_wire s0 j3))" if pos: "0 \<le> pos" "pos < n" for pos
  proof -
    have n: "n = int (length (devices j1))" "lengths_known (dev_db ?db) 0 (length (devices j1)) j1" using j1(9) pos by auto
    obtain j2 where j2: "get_id ?drv len pos j1 = Some (chainParam.idcode (devices j1 ! nat pos), j2)"
      "jtag_sync gpio_wire s0 j2" "jtag_conf j2" "link_state InReset j2" "deviceIndex j2 = pos" "devices j2 = devices j1"
      using gpio.get_id_ready [OF j1(2-7) n(2) pos(1)] pos(2) n(1) by metis
    have "nat pos < length (devices j1)" using pos n(1) by linarith
    then have "chainParam.idcode (devices j1 ! nat pos) \<noteq> 0"
      "int (chainParam.irlen (devices j2 ! nat pos)) = list_length (dev_db ?db) (chainParam.idcode (devices j1 ! nat pos))"
      using j1(8) n(2) j2(6) by (simp_all add: lengths_known_def)
    moreover have "\<exists>j3. exec_ops ?drv (calls m k) j2 = Some j3 \<and> jtag_sync gpio_wire s0 j3"
      if "chainParam.irlen (devices j2 ! nat pos) \<le> 8"
      by (rule gpio.obeys_tracks_tap [OF assms(2) j2(2-4)]) (use that j2(5) in simp)
    ultimately show ?thesis using j2(1) by blast
  qed
  then show ?thesis using j1(1-3) by blast
qed

section \<open>A chain of one device\<close>

text \<open>The navigation with fuel, to evaluate it.\<close>

fun tap_fuel :: "'w io_driver \<Rightarrow> tapState \<Rightarrow> nat \<Rightarrow> 'w jtag \<Rightarrow> 'w jtag option" where
  "tap_fuel drv t 0 j = None"
| "tap_fuel drv t (Suc n) j = (if current_state j = t then Some j else tap_fuel drv t n (tap_step drv t j))"

lemma tap_fuel_loop: "tap_fuel drv t n j = Some j' \<Longrightarrow> tap_loop drv t j = Some j'"
proof (induction n arbitrary: j)
  case (Suc n)
  then show ?case by (subst tap_loop.simps) (auto split: if_splits)
qed simp

text \<open>The lines answer with one identification, then ones.\<close>

definition one_env :: gpio_env where
  "one_env h = (let c = length (filter (\<lambda>e. e = GetTDO) h) in if c < 32 then bit (0x1a001093 :: u32) c else True)"

definition one_chain :: "gpio_hist jtag option" where
  "one_chain =
     Option.bind (tap_fuel (gpio_driver one_env 0) SHIFT_DR 8 (tapTestLogicReset (gpio_driver one_env 0) (jtag_init (iobase_init [])))) (\<lambda>j.
       tap_fuel (gpio_driver one_env 0) TEST_LOGIC_RESET 8
         (getChain_loop (gpio_driver one_env 0) 0 MAXNUMDEVICES (j\<lparr>numDevices := 0\<rparr>)))"

lemma one_chain_devices:
  "map_option (\<lambda>j. (numDevices j, map chainParam.idcode (devices j))) one_chain = Some (1, [0x1a001093])"
  by code_simp

lemma one_chain_get:
  assumes "one_chain = Some j"
  shows "getChain (gpio_driver one_env 0) 0 False (jtag_init (iobase_init [])) = Some (numDevices j, j)"
proof -
  obtain j1 where j1: "tap_fuel (gpio_driver one_env 0) SHIFT_DR 8 (tapTestLogicReset (gpio_driver one_env 0) (jtag_init (iobase_init []))) = Some j1"
    "tap_fuel (gpio_driver one_env 0) TEST_LOGIC_RESET 8
         (getChain_loop (gpio_driver one_env 0) 0 MAXNUMDEVICES (j1\<lparr>numDevices := 0\<rparr>)) = Some j"
    using assms unfolding one_chain_def by (auto simp: bind_eq_Some_conv)
  have "numDevices (jtag_init (iobase_init [] :: gpio_hist iobase)) = - 1" by (simp add: jtag_init_def)
  then show ?thesis
    by (simp add: getChain_def setTapState_def Let_def tap_fuel_loop [OF j1(1)] tap_fuel_loop [OF j1(2)])
qed

definition one_db :: devicedb where
  "one_db = devicedb_new (\<lambda>_. Some (devlist_txt example_devices)) None [] None"

lemma one_db_length: "list_length (dev_db one_db) 0x1a001093 = 8"
proof -
  have "dev_db one_db = dev_db example_devices"
    by (simp add: one_db_def devicedb_new_def Let_def read_devlist [OF example_devices_ok])
  then show ?thesis by (simp add: list_length_def example_devices_def idcode_mask_def)
qed

lemma one_init:
  "\<exists>db j. init_chain (gpio_driver one_env 0) 0 one_db (jtag_init (iobase_init [])) = Some (1, db, j)"
proof -
  obtain j where j: "one_chain = Some j" "numDevices j = 1" "map chainParam.idcode (devices j) = [0x1a001093]"
    using one_chain_devices by auto
  then have "cache_ok one_db" "getDeviceID 0 j = 0x1a001093"
    by (auto simp: cache_ok_def one_db_def devicedb_new_def empty_devices_def read_used Let_def getDeviceID_def)
  then have "fst (idToIRLength (getDeviceID 0 j) one_db) = 8" using idToIRLength_list(1) [of one_db] one_db_length by simp
  then obtain db where "idToIRLength (getDeviceID 0 j) one_db = (8, db)" by (cases "idToIRLength (getDeviceID 0 j) one_db") auto
  then show ?thesis using one_chain_get [OF j(1)] j(2) by (simp add: init_chain_def)
qed

theorem session_tracks_tap_witness:
  "\<exists>db j1 i j2 j3. init_chain (gpio_driver one_env 0) 0 one_db (jtag_init (iobase_init [])) = Some (1, db, j1) \<and>
     get_id (gpio_driver one_env 0) 0 0 j1 = Some (i, j2) \<and> i \<noteq> 0 \<and>
     exec_ops (gpio_driver one_env 0) (calls (jseq [jshiftIR [0xee], jcycleTCK 1, jreset]) \<lparr>hist = [], replies = \<lambda>_. []\<rparr>) j2 = Some j3 \<and>
     jtag_sync gpio_wire PAUSE_IR j3"
proof -
  let ?m = "jseq [jshiftIR [0xee], jcycleTCK 1, jreset]"
  have "tracks InReset ?m InReset"
    by (rule tracks_seq_Cons [OF tracks_ops(1) tracks_seq_Cons [OF tracks_ops(9) tracks_seq_Cons [OF tracks_ops(11) tracks_seq_Nil]]])
      simp_all
  then have "obeys InReset ?m" by (rule obeys_tracks) simp
  from session_tracks_tap [OF _ this, of PAUSE_IR one_env 0 0 "\<lambda>_. Some (devlist_txt example_devices)" None "[]" None "[]"
      "\<lparr>hist = [], replies = \<lambda>_. []\<rparr>", folded one_db_def]
  obtain n db j1 where j1: "init_chain (gpio_driver one_env 0) 0 one_db (jtag_init (iobase_init [])) = Some (n, db, j1)"
    and r: "\<forall>pos. 0 \<le> pos \<and> pos < n \<longrightarrow>
        (\<exists>i j2. get_id (gpio_driver one_env 0) 0 pos j1 = Some (i, j2) \<and> i \<noteq> 0 \<and>
           int (chainParam.irlen (devices j2 ! nat pos)) = list_length (dev_db one_db) i \<and>
           (chainParam.irlen (devices j2 ! nat pos) \<le> 8 \<longrightarrow>
              (\<exists>j3. exec_ops (gpio_driver one_env 0) (calls ?m \<lparr>hist = [], replies = \<lambda>_. []\<rparr>) j2 = Some j3 \<and> jtag_sync gpio_wire PAUSE_IR j3)))"
    by blast
  have n: "n = 1" using one_init j1 by auto
  have len: "list_length (dev_db one_db) i \<le> 8" for i
  proof -
    have "dev_db one_db = dev_db example_devices"
      by (simp add: one_db_def devicedb_new_def Let_def read_devlist [OF example_devices_ok])
    then show ?thesis by (simp add: list_length_def example_devices_def)
  qed
  from r n obtain i j2 where j2: "get_id (gpio_driver one_env 0) 0 0 j1 = Some (i, j2)" "i \<noteq> 0"
    "int (chainParam.irlen (devices j2 ! 0)) = list_length (dev_db one_db) i"
    "chainParam.irlen (devices j2 ! 0) \<le> 8 \<longrightarrow>
       (\<exists>j3. exec_ops (gpio_driver one_env 0) (calls ?m \<lparr>hist = [], replies = \<lambda>_. []\<rparr>) j2 = Some j3 \<and> jtag_sync gpio_wire PAUSE_IR j3)"
    by fastforce
  have "chainParam.irlen (devices j2 ! 0) \<le> 8" using j2(3) len [of i] by linarith
  then show ?thesis using j1 n j2 by blast
qed

end
