(* ===== verification/Flow.thy ===== *)
theory Flow
  imports Cli Chain Jedec ProgXCF ProgXCFP
begin

text \<open>
  Programming sessions of \<^verbatim>\<open>xc3sprog.cpp\<close>: the state that the functions \<^verbatim>\<open>program...\<close> share, the
  statements they are made of, and the choice of an algorithm for a Platform Flash.
  Each device of the chain has a link of its own, the calls of \<^verbatim>\<open>Jtag\<close> made while it is selected;
  \<open>jcalls\<close> has the calls of the whole session in their order, whichever device they were made for. The chain
  is known when a session begins, so that \<open>get_id\<close> makes no call: it selects a device
  and looks its identification up. Output to files is in the file at once; messages are left out.
\<close>

section \<open>Sessions\<close>

record chained =
  dev_id :: u32
  dev_irlen :: nat
  dev_link :: jlink

record session =
  disk :: world
  jglob :: jed_globals
  sdevs :: "chained list"
  ssel :: int
  jcalls :: "jop list"

text \<open>What the source leaves open: fresh memory, the clock, and how long a loop may poll.\<close>

record surroundings =
  fresh_mem :: "nat \<Rightarrow> byte"
  fresh32 :: u32
  bit_clock :: "(byte list \<times> byte list) option"
  jed_clock :: "byte list option"
  mapdir_env :: "byte list option"
  poll_limit :: nat

type_synonym 'a fm = "session \<Rightarrow> 'a res \<times> session"

definition fret :: "'a \<Rightarrow> 'a fm" where
  "fret x s = (Inr x, s)"

definition flift :: "'a res \<Rightarrow> 'a fm" where
  "flift r s = (r, s)"

definition fbind :: "'a fm \<Rightarrow> ('a \<Rightarrow> 'b fm) \<Rightarrow> 'b fm" where
  "fbind m f s = (case m s of (Inl e, s) \<Rightarrow> (Inl e, s) | (Inr x, s) \<Rightarrow> f x s)"

text \<open>The arguments one after the other; a pass that gives \<open>Some r\<close> returns \<open>r\<close>.\<close>

fun fargs :: "('a \<Rightarrow> int option fm) \<Rightarrow> 'a list \<Rightarrow> int option fm" where
  "fargs f [] = fret None"
| "fargs f (a # as) = fbind (f a) (\<lambda>r. case r of None \<Rightarrow> fargs f as | Some r \<Rightarrow> fret (Some r))"

definition returned :: "int option \<Rightarrow> int" where
  "returned r = (case r of None \<Rightarrow> 0 | Some r \<Rightarrow> r)"

text \<open>Calls to the selected device. Without one the class \<^verbatim>\<open>Jtag\<close> sends nothing and captures nothing.\<close>

definition fdev :: "(nat \<Rightarrow> 'a jm) \<Rightarrow> 'a fm" where
  "fdev m s =
     (if 0 \<le> ssel s \<and> nat (ssel s) < length (sdevs s)
      then let i = nat (ssel s); d = sdevs s ! i; (r, l) = m (dev_irlen d) (dev_link d)
           in (r, s\<lparr>sdevs := (sdevs s)[i := d\<lparr>dev_link := l\<rparr>],
                    jcalls := jcalls s @ drop (length (hist (dev_link d))) (hist l)\<rparr>)
      else (Inl Uninit, s))"

abbreviation fcall :: "'a jm \<Rightarrow> 'a fm" where
  "fcall m \<equiv> fdev (\<lambda>_. m)"

text \<open>
  \<^verbatim>\<open>get_id\<close>: \<^verbatim>\<open>selectDevice\<close>, then the identification, which is 0 when the position is outside the chain.
\<close>

definition select_id :: "int \<Rightarrow> u32 fm" where
  "select_id chainpos s =
     (let s = s\<lparr>ssel := (if chainpos \<ge> int (length (sdevs s)) then - 1 else chainpos)\<rparr>
      in (Inr (if ssel s < 0 then 0 else dev_id (sdevs s ! nat chainpos)), s))"

text \<open>
  The class \<^verbatim>\<open>Jtag\<close> and a session that has the chain it found. \<open>get_id\<close> on the class is
  \<open>select_id\<close> on the session; it sends nothing to the cable and leaves the devices and the calls as they are.
\<close>

definition same_chain :: "'w jtag \<Rightarrow> session \<Rightarrow> bool" where
  "same_chain j s \<longleftrightarrow> numDevices j = int (length (devices j)) \<and> deviceIndex j = ssel s \<and>
     map (\<lambda>d. (chainParam.idcode d, chainParam.irlen d)) (devices j) = map (\<lambda>d. (dev_id d, dev_irlen d)) (sdevs s)"

lemma same_chain_nth:
  assumes "same_chain j s"
  shows "length (sdevs s) = length (devices j)"
    and "k < length (devices j) \<Longrightarrow> dev_id (sdevs s ! k) = chainParam.idcode (devices j ! k)"
proof -
  have e: "map (\<lambda>d. (chainParam.idcode d, chainParam.irlen d)) (devices j) = map (\<lambda>d. (dev_id d, dev_irlen d)) (sdevs s)"
    using assms by (simp add: same_chain_def)
  show l: "length (sdevs s) = length (devices j)" using arg_cong [OF e, of length] by simp
  show "dev_id (sdevs s ! k) = chainParam.idcode (devices j ! k)" if "k < length (devices j)"
    using arg_cong [OF e, of "\<lambda>xs. xs ! k"] that l by simp
qed

lemma get_id_select_id:
  assumes "same_chain j s"
  shows "\<exists>i. get_id drv junk pos j = Some (i, j\<lparr>deviceIndex := ssel (snd (select_id pos s))\<rparr>) \<and>
     select_id pos s = (Inr i, s\<lparr>ssel := ssel (snd (select_id pos s))\<rparr>) \<and>
     same_chain (j\<lparr>deviceIndex := ssel (snd (select_id pos s))\<rparr>) (snd (select_id pos s))"
  using assms same_chain_nth [OF assms] zless_nat_eq_int_zless [of "nat pos" "int (length (devices j))"]
  by (auto simp: get_id_def getChain_def selectDevice_def getDeviceID_def select_id_def same_chain_def Let_def)

section \<open>Files\<close>

text \<open>A file argument with the defaults of the caller; the offset and length are 0, the action is to write.\<close>

definition file_arg :: "byte list \<Rightarrow> FILE_STYLE \<Rightarrow> byte \<Rightarrow> (handle \<times> file_spec) fm" where
  "file_arg arg style sec s =
     (case getFile_and_Attribute_from_name arg
        \<lparr>faction = 119, fsection = sec, foffset = 0, fstyle = style, flength = 0\<rparr> (disk s) of
        Inl e \<Rightarrow> (Inl e, s)
      | Inr (h, sp, w) \<Rightarrow> (Inr (h, sp), s\<lparr>disk := w\<rparr>))"

definition read_bits :: "surroundings \<Rightarrow> bitfile \<Rightarrow> handle \<Rightarrow> FILE_STYLE \<Rightarrow> (nat \<times> bitfile) fm" where
  "read_bits E bf h style s = (readFile (fresh_mem E) bf (file_bytes (disk s) h) style, s)"

definition read_jed :: "surroundings \<Rightarrow> jed_data \<Rightarrow> handle \<Rightarrow> (nat \<times> jed_data) fm" where
  "read_jed E jed h s =
     (case jed_readFile (fresh32 E) (jglob s) jed (file_bytes (disk s) h) of
        Inl e \<Rightarrow> (Inl e, s)
      | Inr (r, jed, g) \<Rightarrow> (Inr (r, jed), s\<lparr>jglob := g\<rparr>))"

text \<open>\<^verbatim>\<open>BitFile::saveAs\<close> writes through the null pointer when there is no file.\<close>

definition save_bits :: "surroundings \<Rightarrow> FILE_STYLE \<Rightarrow> byte list \<Rightarrow> handle \<Rightarrow> bitfile \<Rightarrow> bitfile fm" where
  "save_bits E style device h bf s =
     (case saveAs (bit_clock E) style device bf of
        Inl e \<Rightarrow> (Inl e, s)
      | Inr (_, out, bf) \<Rightarrow>
          if h = NoFile \<and> out \<noteq> [] then (Inl NullPointer, s)
          else (Inr bf, s\<lparr>disk := file_put h out (disk s)\<rparr>))"

definition save_jed :: "surroundings \<Rightarrow> byte list \<Rightarrow> handle \<Rightarrow> jed_data \<Rightarrow> unit fm" where
  "save_jed E device h jed s =
     (if h = NoFile then (Inr (), s)
      else case saveAsJed (jed_clock E) device jed of
             Inl e \<Rightarrow> (Inl e, s)
           | Inr out \<Rightarrow> (Inr (), s\<lparr>disk := file_put h out (disk s)\<rparr>))"

section \<open>Algorithms for Platform Flash\<close>

definition FAMILY_XCF :: int where "FAMILY_XCF = 0x28"

text \<open>An option sets or clears one bit of the customer control register.\<close>

definition xcfp_option :: "byte list \<Rightarrow> xcfp \<Rightarrow> xcfp" where
  "xcfp_option opt p =
     (if strcasecmp_eq opt (ascii ''parallel'') then p\<lparr>ccbParallelMode := True\<rparr>
      else if strcasecmp_eq opt (ascii ''serial'') then p\<lparr>ccbParallelMode := False\<rparr>
      else if strcasecmp_eq opt (ascii ''master'') then p\<lparr>ccbMasterMode := True\<rparr>
      else if strcasecmp_eq opt (ascii ''slave'') then p\<lparr>ccbMasterMode := False\<rparr>
      else if strcasecmp_eq opt (ascii ''fastclk'') then p\<lparr>ccbFastClock := True\<rparr>
      else if strcasecmp_eq opt (ascii ''slowclk'') then p\<lparr>ccbFastClock := False\<rparr>
      else if strcasecmp_eq opt (ascii ''extclk'') then p\<lparr>ccbExternalClock := True\<rparr>
      else if strcasecmp_eq opt (ascii ''intclk'') then p\<lparr>ccbExternalClock := False\<rparr>
      else p)"

definition makeProgAlg :: "u32 \<Rightarrow> byte list list \<Rightarrow> progalg res" where
  "makeProgAlg i xcfopts =
     (if i AND 0x000f0000 = 0x00050000
      then rbind (xcfp_init i) (\<lambda>p. Inr (xcfp_alg (fold xcfp_option xcfopts p)))
      else rbind (xcf_init (drop_bit 12 (i AND 0x000ff000))) (\<lambda>x. Inr (xcf_alg x)))"

text \<open>The algorithm for the device at a chain position.\<close>

definition select_prom :: "byte list list \<Rightarrow> int \<Rightarrow> progalg fm" where
  "select_prom xcfopts pos = fbind (select_id pos) (\<lambda>i. flift (makeProgAlg i xcfopts))"

end
