(* ===== verification/FlowXCF.thy ===== *)
theory FlowXCF
  imports Flow
begin

text \<open>
  \<^verbatim>\<open>programXCF\<close> of \<^verbatim>\<open>xc3sprog.cpp\<close>: a file is read from or written to the bytes \<open>off\<close> to
  \<open>off + rlen\<close> of the space that the Platform Flash at the given positions form together. Lengths
  and offsets are unsigned integers of 32 bits.
\<close>

section \<open>The part of the range in one device\<close>

datatype prom_part = Before | Behind | Part u32 u32

text \<open>\<open>Part\<close> holds the offset within the device, and the length when the range ends inside, 0 otherwise.\<close>

definition prom_part :: "u32 \<Rightarrow> u32 \<Rightarrow> u32 \<Rightarrow> u32 \<Rightarrow> prom_part" where
  "prom_part pos len off rlen =
     (if pos + len \<le> off then Before
      else let coff = (if pos < off then off - pos else 0)
           in if off + rlen \<le> pos then Behind
              else Part coff (if off + rlen < pos + len then off + rlen - pos - coff else 0))"

definition ulength :: "bitfile \<Rightarrow> u32" where
  "ulength bf = of_nat (getLength bf)"

definition set_range :: "u32 \<Rightarrow> u32 \<Rightarrow> bitfile \<Rightarrow> bitfile" where
  "set_range coff crlen bf =
     bf\<lparr>boffset := unat coff, rlength := (if crlen * 8 \<noteq> ulength bf then unat crlen else 0)\<rparr>"

text \<open>The two copies between the file and the bytes of one device, with their assertions.\<close>

definition copy_to_file :: "u32 \<Rightarrow> u32 \<Rightarrow> bitfile \<Rightarrow> bitfile \<Rightarrow> bitfile res" where
  "copy_to_file pos off tmp bf =
     (let at = int (unat pos) - int (unat off); n = unat (ulength tmp div 8)
      in if ulength tmp mod 8 \<noteq> 0 \<or> \<not> pos - off + ulength tmp div 8 \<le> ulength bf div 8 then Inl Abort
         else if n = 0 then Inr bf
         else if at < 0 then Inl (OutOfBounds 0)
         else rbind (buf_slice (buffer tmp) 0 n) (\<lambda>bs.
              rbind (buf_store (buffer bf) (nat at) bs) (\<lambda>bs. Inr (bf\<lparr>buffer := bs\<rparr>))))"

definition copy_from_file :: "u32 \<Rightarrow> u32 \<Rightarrow> u32 \<Rightarrow> u32 \<Rightarrow> u32 \<Rightarrow> bitfile \<Rightarrow> bitfile \<Rightarrow> bitfile res" where
  "copy_from_file pos off len coff crlen bf tmp =
     (let at = int (unat pos) - int (unat off); n = (if crlen \<noteq> 0 then crlen else len - coff);
          tmp = setLength (unat (n * 8)) tmp
      in if \<not> pos - off + n \<le> ulength bf div 8 then Inl Abort
         else if n = 0 then Inr tmp
         else if at < 0 then Inl (OutOfBounds 0)
         else rbind (buf_slice (buffer bf) (nat at) (unat n)) (\<lambda>bs.
              rbind (buf_store (buffer tmp) 0 bs) (\<lambda>bs. Inr (tmp\<lparr>buffer := bs\<rparr>))))"

section \<open>One device\<close>

text \<open>Erasing and programming: the result that is not 0 is returned by \<^verbatim>\<open>programXCF\<close>.\<close>

definition prom_write :: "progalg \<Rightarrow> byte \<Rightarrow> bitfile \<Rightarrow> int fm" where
  "prom_write alg act bf =
     fbind (if act = 119 then fcall (erase alg) else fret 0) (\<lambda>res.
       if res \<noteq> 0 then fret res
       else fbind (fcall (program alg bf)) (\<lambda>res.
              if res \<noteq> 0 then fbind (fcall (disable alg)) (\<lambda>_. fret res) else fret 0))"

definition prom_do_part ::
  "progalg \<Rightarrow> byte \<Rightarrow> bool \<Rightarrow> u32 \<Rightarrow> u32 \<Rightarrow> u32 \<Rightarrow> u32 \<Rightarrow> u32 \<Rightarrow> bitfile \<Rightarrow> (int + bitfile) fm" where
  "prom_do_part alg act many off pos len coff crlen bf =
     (let cur = set_range coff crlen (if many then bitfile_init else bf)
      in if act = 114
         then fbind (fcall (read alg cur)) (\<lambda>(_, cur).
              if many then fbind (flift (copy_to_file pos off cur bf)) (\<lambda>bf. fret (Inr bf)) else fret (Inr cur))
         else fbind (if many then flift (copy_from_file pos off len coff crlen bf cur) else fret cur) (\<lambda>cur.
              fbind (if c_tolower act = 119 then prom_write alg act cur else fret 0) (\<lambda>res.
              if res \<noteq> 0 then fret (Inl res)
              else fbind (fcall (verify alg cur)) (\<lambda>_.
                   fbind (fcall (disable alg)) (\<lambda>_. fret (Inr (if many then bf else cur)))))))"

section \<open>All devices\<close>

text \<open>The loop over the positions, at byte \<open>pos\<close> of the space: an early result, or the file.\<close>

fun prom_loop ::
  "byte list list \<Rightarrow> byte \<Rightarrow> bool \<Rightarrow> u32 \<Rightarrow> u32 \<Rightarrow> int list \<Rightarrow> u32 \<Rightarrow> bitfile \<Rightarrow> (int + bitfile) fm" where
  "prom_loop xcfopts act many off rlen [] pos bf = fret (Inr bf)"
| "prom_loop xcfopts act many off rlen (k # ks) pos bf =
     fbind (select_prom xcfopts k) (\<lambda>alg.
       let len = of_nat (getSize alg) div 8
       in case prom_part pos len off rlen of
            Before \<Rightarrow> prom_loop xcfopts act many off rlen ks (pos + len) bf
          | Behind \<Rightarrow> fret (Inr bf)
          | Part coff crlen \<Rightarrow>
              fbind (prom_do_part alg act many off pos len coff crlen bf) (\<lambda>r.
                case r of Inl res \<Rightarrow> fret (Inl res)
                | Inr bf \<Rightarrow> prom_loop xcfopts act many off rlen ks (pos + len) bf))"

text \<open>The sizes in bits, added up; a device of another kind ends the program.\<close>

fun prom_sizes :: "byte list list \<Rightarrow> int list \<Rightarrow> u32 \<Rightarrow> u32 fm" where
  "prom_sizes xcfopts [] tot = fret tot"
| "prom_sizes xcfopts (k # ks) tot =
     fbind (select_id k) (\<lambda>i.
       if IDCODE_TO_MANUFACTURER i \<noteq> MANUFACTURER_XILINX \<or> IDCODE_TO_FAMILY i \<noteq> FAMILY_XCF then flift (Inl (Exit 255))
       else fbind (flift (makeProgAlg i xcfopts)) (\<lambda>alg. prom_sizes xcfopts ks (tot + of_nat (getSize alg))))"

fun prom_erase_all :: "byte list list \<Rightarrow> int list \<Rightarrow> unit fm" where
  "prom_erase_all xcfopts [] = fret ()"
| "prom_erase_all xcfopts (k # ks) =
     fbind (select_prom xcfopts k) (\<lambda>alg. fbind (fcall (erase alg)) (\<lambda>_. prom_erase_all xcfopts ks))"

text \<open>The contents and the length of the range for one file.\<close>

definition prom_load :: "surroundings \<Rightarrow> u32 \<Rightarrow> handle \<Rightarrow> file_spec \<Rightarrow> bitfile \<Rightarrow> (u32 \<times> bitfile) fm" where
  "prom_load E tot h sp bf =
     (let act = faction sp; rlen = flength sp
      in if act = 118 \<or> c_tolower act = 119
         then fbind (read_bits E bf h (fstyle sp)) (\<lambda>(_, bf).
              fret (if rlen = 0 then ulength bf div 8 else rlen, bf))
         else if act = 114
         then let rlen = (if rlen = 0 then tot div 8 - foffset sp else rlen)
              in fret (rlen, setLength (unat (rlen * 8)) bf)
         else fret (rlen, bf))"

definition prom_file :: "surroundings \<Rightarrow> byte list list \<Rightarrow> byte list \<Rightarrow> int list \<Rightarrow> u32 \<Rightarrow> byte list \<Rightarrow> int option fm" where
  "prom_file E xcfopts device ks tot arg =
     fbind (file_arg arg STYLE_BIT 0) (\<lambda>(h, sp).
       if h = NoFile then fret None
       else fbind (prom_load E tot h sp (bitfile_init\<lparr>boffset := unat (foffset sp), rlength := unat (flength sp)\<rparr>)) (\<lambda>(rlen, bf).
            if rlen > ulength bf div 8 then fret None
            else if foffset sp > tot div 8 \<or> rlen > tot div 8 - foffset sp then fret None
            else fbind (prom_loop xcfopts (faction sp) (length ks \<noteq> 1) (foffset sp) rlen ks 0 bf) (\<lambda>r.
                 case r of Inl res \<Rightarrow> fret (Some res)
                 | Inr bf \<Rightarrow> if faction sp = 114
                            then fbind (save_bits E (fstyle sp) device h bf) (\<lambda>_. fret None)
                            else fret None)))"

text \<open>Of the array of positions the first \<open>n\<close> count; the first one is there in any case.\<close>

definition programXCF ::
  "surroundings \<Rightarrow> bool \<Rightarrow> bool \<Rightarrow> byte list \<Rightarrow> int list \<Rightarrow> nat \<Rightarrow> byte list list \<Rightarrow> byte list list \<Rightarrow> int fm" where
  "programXCF E erase_first reconfigure device chainpositions n xcfopts args =
     (let ks = take n chainpositions
      in fbind (prom_sizes xcfopts ks 0) (\<lambda>tot.
         fbind (if erase_first then prom_erase_all xcfopts ks else fret ()) (\<lambda>_.
         fbind (fargs (prom_file E xcfopts device ks tot) args) (\<lambda>r.
           case r of Some r \<Rightarrow> fret r
           | None \<Rightarrow>
               if reconfigure
               then fbind (select_prom xcfopts (hd chainpositions)) (\<lambda>alg. fbind (fcall (reconfig alg)) (\<lambda>_. fret 0))
               else fret 0))))"

end
