(* ===== verification/Flows.thy ===== *)
theory Flows
  imports FlowXCF ProgXC3S ProgXC95X ProgXC2C MapXC2C ProgSPI
begin

text \<open>
  The functions \<^verbatim>\<open>programXC3S\<close>, \<^verbatim>\<open>programSPI\<close>, \<^verbatim>\<open>programXC95X\<close> and \<^verbatim>\<open>programXC2C\<close> of
  \<^verbatim>\<open>xc3sprog.cpp\<close>: file arguments, file formats and algorithms put together.
\<close>

section \<open>FPGAs\<close>

definition xc3s_file :: "surroundings \<Rightarrow> xc3s \<Rightarrow> byte list \<Rightarrow> int option fm" where
  "xc3s_file E alg arg =
     fbind (file_arg arg STYLE_BIT 0) (\<lambda>(fp, sp).
       if c_tolower (faction sp) \<noteq> 119 \<or> foffset sp \<noteq> 0 \<or> flength sp \<noteq> 0 then fret None
       else fbind (read_bits E bitfile_init fp (fstyle sp)) (\<lambda>(res, bf).
            if res \<noteq> 0 then fret None
            else fbind (fdev (\<lambda>irn. xc3s_array_program irn (poll_limit E) (fresh_mem E) alg bf)) (\<lambda>_. fret None)))"

definition programXC3S :: "surroundings \<Rightarrow> bool \<Rightarrow> int \<Rightarrow> byte list list \<Rightarrow> int fm" where
  "programXC3S E reconfigure fam args =
     (let alg = xc3s_init fam
      in if reconfigure then fbind (fcall (xc3s_reconfig alg)) (\<lambda>_. fret 0)
         else fbind (fargs (xc3s_file E alg) args) (\<lambda>_. fret 0))"

section \<open>SPI flash behind an FPGA\<close>

definition spi_file :: "surroundings \<Rightarrow> byte list \<Rightarrow> byte list \<Rightarrow> spiflash \<Rightarrow> (int option \<times> spiflash) fm" where
  "spi_file E device arg alg =
     fbind (file_arg arg STYLE_BIT 0) (\<lambda>(fp, sp).
       if fp = NoFile then fret (None, alg)
       else let bf = bitfile_init\<lparr>boffset := unat (foffset sp), rlength := unat (flength sp)\<rparr>
            in if faction sp = 114
               then fbind (fcall (spi_read bf alg)) (\<lambda>(_, bf, alg).
                    fbind (save_bits E (fstyle sp) device fp bf) (\<lambda>_. fret (None, alg)))
               else fbind (read_bits E bf fp (fstyle sp)) (\<lambda>(_, bf).
                    fbind (if faction sp = 118 then fcall (spi_verify bf alg)
                           else fbind (fcall (spi_program bf alg)) (\<lambda>(ret, alg).
                                if ret = 0 then fcall (spi_verify bf alg) else fret (ret, alg))) (\<lambda>(ret, alg).
                      fret (if ret \<noteq> 0 then Some ret else None, alg))))"

fun spi_files :: "surroundings \<Rightarrow> byte list \<Rightarrow> byte list list \<Rightarrow> spiflash \<Rightarrow> int option fm" where
  "spi_files E device [] alg = fret None"
| "spi_files E device (a # as) alg =
     fbind (spi_file E device a alg) (\<lambda>(r, alg). case r of None \<Rightarrow> spi_files E device as alg | Some r \<Rightarrow> fret (Some r))"

text \<open>\<open>alg\<close> is the algorithm object after its constructor, with whatever its memory held.\<close>

definition programSPI ::
  "surroundings \<Rightarrow> spiflash \<Rightarrow> bool \<Rightarrow> bool \<Rightarrow> int \<Rightarrow> byte list option \<Rightarrow> int \<Rightarrow> byte list \<Rightarrow> byte list list \<Rightarrow> int fm" where
  "programSPI E alg erase_first reconfigure test_count bscanfile fam device args =
     fbind (case bscanfile of None \<Rightarrow> fret 0 | Some f \<Rightarrow> programXC3S E False fam [f]) (\<lambda>_.
     fbind (fcall (spi_flashinfo alg)) (\<lambda>(res, alg).
       if res \<noteq> 1 \<and> \<not> reconfigure then fret 2
       else fbind (if test_count \<noteq> 0 then fbind (fcall (spi_test test_count alg)) (\<lambda>_. fret None)
                   else fbind (if erase_first then fcall (spi_erase alg) else fret (0, alg)) (\<lambda>(_, alg).
                        spi_files E device args alg)) (\<lambda>r.
            case r of Some r \<Rightarrow> fret r
            | None \<Rightarrow> if reconfigure then fbind (fcall (xc3s_reconfig (xc3s_init fam))) (\<lambda>_. fret 0) else fret 0)))"

section \<open>XC9500XL\<close>

text \<open>The offset, the length and the style of the argument are ignored. The third argument is the first one too many.\<close>

definition xc95x_file :: "surroundings \<Rightarrow> bool \<Rightarrow> byte list \<Rightarrow> nat \<Rightarrow> nat \<times> byte list \<Rightarrow> int option fm" where
  "xc95x_file E erase_first device D a =
     (case a of (i, arg) \<Rightarrow>
        if i > 1 then fret None
        else fbind (file_arg arg STYLE_JEDEC 0) (\<lambda>(fp, sp).
             let act = faction sp; jf = jed_init (fresh_mem E)
             in if act = 114
                then fbind (fcall (xc95x_array_read (fresh_mem E) D jf)) (\<lambda>jf.
                     fbind (save_jed E device fp jf) (\<lambda>_. fret None))
                else if act = 118 \<or> c_tolower act = 119
                then fbind (read_jed E jf fp) (\<lambda>(_, jf).
                     fbind (if act = 119 \<and> \<not> erase_first then fcall xc95x_erase else fret 0) (\<lambda>_.
                     fbind (if c_tolower act = 119 then fcall (xc95x_array_program D jf) else fret ()) (\<lambda>_.
                     fbind (fcall (xc95x_array_verify (fresh_mem E) D jf)) (\<lambda>ret.
                       fret (if ret \<noteq> 0 then Some ret else None)))))
                else fret None))"

definition programXC95X :: "surroundings \<Rightarrow> u32 \<Rightarrow> bool \<Rightarrow> byte list \<Rightarrow> byte list list \<Rightarrow> int fm" where
  "programXC95X E i erase_first device args =
     (let D = xc95x_init (unat (fresh32 E)) (uint (drop_bit 13 (i AND 0x000ff000)))
      in fbind (if erase_first then fcall xc95x_erase else fret 0) (\<lambda>_.
         fbind (fargs (xc95x_file E erase_first device D) (List.enumerate 0 args)) (\<lambda>r. fret (returned r))))"

section \<open>CoolRunner-II\<close>

definition strncmp_eq :: "nat \<Rightarrow> byte list \<Rightarrow> byte list \<Rightarrow> bool" where
  "strncmp_eq n a b \<longleftrightarrow> take n (c_string a 0 @ [0]) = take n (c_string b 0 @ [0])"

definition load_map :: "surroundings \<Rightarrow> byte list option \<Rightarrow> byte list \<Rightarrow> mapfile option fm" where
  "load_map E mapdir device s =
     (case loadmapfile (files (disk s)) (mapdir_env E) mapdir device \<lparr>block_size = 0, block_num = 0, fmap = []\<rparr> of
        Inl e \<Rightarrow> (Inl e, s)
      | Inr (r, mf) \<Rightarrow> (Inr (if r \<noteq> 0 then None else Some mf), s))"

definition xc2c_alg :: "u32 \<Rightarrow> xc2c fm" where
  "xc2c_alg i = flift (xc2c_init (uint (drop_bit 16 (i AND 0x001f0000))))"

text \<open>The file as it is programmed: the result so far, the name of the device in it, and the bits.\<close>

definition xc2c_load ::
  "surroundings \<Rightarrow> mapfile option \<Rightarrow> handle \<Rightarrow> FILE_STYLE \<Rightarrow> (int option + int \<times> byte list \<times> bitfile) fm" where
  "xc2c_load E map_file fp style =
     (case map_file of
        Some mf \<Rightarrow>
          if style = STYLE_JEDEC
          then fbind (read_jed E (jed_init (fresh_mem E)) fp) (\<lambda>(ret, fuses).
               fbind (if ret = 0 then flift (jedecfile2bitfile mf fuses bitfile_init) else fret bitfile_init) (\<lambda>bf.
                 fret (Inr (int ret, jdevice fuses, bf))))
          else fbind (read_bits E bitfile_init fp style) (\<lambda>(_, bf).
               fret (if getLength bf = 0 then Inl (Some 2) else Inr (0, jdevice (jed_init (fresh_mem E)), bf)))
      | None \<Rightarrow> fbind (read_bits E bitfile_init fp style) (\<lambda>(_, bf).
               fret (if getLength bf = 0 then Inl (Some 2) else Inr (0, partName bf, bf))))"

definition xc2c_write :: "surroundings \<Rightarrow> u32 \<Rightarrow> bool \<Rightarrow> byte \<Rightarrow> bitfile \<Rightarrow> int fm" where
  "xc2c_write E i erase_first act bf =
     fbind (xc2c_alg i) (\<lambda>alg.
     fbind (if c_tolower act = 119
            then fbind (if \<not> erase_first \<and> act = 119
                        then fbind (fcall (xc2c_erase)) (\<lambda>_. fcall (xc2c_blank_check alg)) else fret 0) (\<lambda>ret.
                 if ret = 0 then fcall (xc2c_array_program (fresh_mem E) alg bf) else fret ())
            else fret ()) (\<lambda>_.
     fbind (fcall (xc2c_array_verify alg bf)) (\<lambda>ret.
     fbind (fcall (xc2c_done_program alg)) (\<lambda>_. fret ret))))"

definition xc2c_save ::
  "surroundings \<Rightarrow> mapfile option \<Rightarrow> u32 \<Rightarrow> byte list \<Rightarrow> handle \<Rightarrow> FILE_STYLE \<Rightarrow> int option fm" where
  "xc2c_save E map_file i device fp style =
     fbind (xc2c_alg i) (\<lambda>alg.
     fbind (fcall (xc2c_array_read alg bitfile_init)) (\<lambda>bf.
       case map_file of
         Some mf \<Rightarrow>
           if style = STYLE_JEDEC
           then fbind (flift (bitfile2jedecfile mf bf (jed_init (fresh_mem E)))) (\<lambda>fuses.
                fbind (save_jed E device fp fuses) (\<lambda>_. fret None))
           else fbind (save_bits E style device fp bf) (\<lambda>_. fret None)
       | None \<Rightarrow> fbind (save_bits E style device fp bf) (\<lambda>_. fret None)))"

definition xc2c_file ::
  "surroundings \<Rightarrow> u32 \<Rightarrow> bool \<Rightarrow> mapfile option \<Rightarrow> byte list \<Rightarrow> nat \<times> byte list \<Rightarrow> int option fm" where
  "xc2c_file E i erase_first map_file device a =
     (case a of (n, arg) \<Rightarrow>
        fbind (file_arg arg (if map_file \<noteq> None then STYLE_JEDEC else STYLE_BIT) 0) (\<lambda>(fp, sp).
          if n > 1 then fret None
          else if faction sp = 114 then xc2c_save E map_file i device fp (fstyle sp)
          else if faction sp = 118 \<or> c_tolower (faction sp) = 119
          then fbind (xc2c_load E map_file fp (fstyle sp)) (\<lambda>r.
               case r of
                 Inl ret \<Rightarrow> fret ret
               | Inr (ret, name, bf) \<Rightarrow>
                   let ret = (if strncmp_eq 7 device name then ret else 3)
                   in if ret = 0
                      then fbind (xc2c_write E i erase_first (faction sp) bf) (\<lambda>ret. fret (if ret \<noteq> 0 then Some ret else None))
                      else fret (Some ret))
          else fret None))"

definition programXC2C ::
  "surroundings \<Rightarrow> u32 \<Rightarrow> bool \<Rightarrow> byte list option \<Rightarrow> byte list \<Rightarrow> byte list list \<Rightarrow> int fm" where
  "programXC2C E i erase_first mapdir device args =
     fbind (load_map E mapdir device) (\<lambda>map_file.
     fbind (if erase_first
            then fbind (xc2c_alg i) (\<lambda>alg. fbind (fcall xc2c_erase) (\<lambda>_. fcall (xc2c_blank_check alg))) else fret 0) (\<lambda>ret.
       if ret \<noteq> 0 then fret ret
       else fbind (fargs (xc2c_file E i erase_first map_file device) (List.enumerate 0 args)) (\<lambda>r. fret (returned r))))"

end
