(* ===== verification/FlowXmega.thy ===== *)
theory FlowXmega
  imports Flow Xmega
begin

text \<open>
  \<^verbatim>\<open>programXMega\<close> of \<^verbatim>\<open>xc3sprog.cpp\<close>: the sections of an XMEGA part, read, verified, erased and
  written from files. A pass over one argument gives \<open>Some ret\<close> when it goes to the label
  \<^verbatim>\<open>xmega_release\<close> with the result \<open>ret\<close>.
\<close>

section \<open>Parts and sections\<close>

record xmega_part =
  appl_size :: u32
  boot_size :: u32
  eeprom_size :: u32
  flash_page :: u32

definition eeprom_page :: u32 where "eeprom_page = 0x20"

definition xmega_part_of :: "u32 \<Rightarrow> xmega_part option" where
  "xmega_part_of i =
     (let c = drop_bit 12 i AND 0xffff
      in if c = 0x9642 \<or> c = 0x964c \<or> c = 0x964e
         then Some \<lparr>appl_size = 0x10000, boot_size = 0x01000, eeprom_size = 0x00800, flash_page = 0x100\<rparr>
         else if c = 0x974a \<or> c = 0x974c
         then Some \<lparr>appl_size = 0x20000, boot_size = 0x02000, eeprom_size = 0x00800, flash_page = 0x200\<rparr>
         else if c = 0x9842 \<or> c = 0x9843
         then Some \<lparr>appl_size = 0x40000, boot_size = 0x02000, eeprom_size = 0x01000, flash_page = 0x200\<rparr>
         else None)"

text \<open>The address and the length of a section, by its letter.\<close>

definition xmega_section :: "xmega_part \<Rightarrow> byte \<Rightarrow> (u32 \<times> u32) option" where
  "xmega_section x c =
     (if c = 97 then Some (0x800000, appl_size x)
      else if c = 98 then Some (0x800000 + appl_size x, boot_size x)
      else if c = 101 then Some (0x8c0000, eeprom_size x)
      else if c = 112 then Some (0x8e0200, 0x40)
      else if c = 117 then Some (0x8e0400, flash_page x)
      else if c = 102 then Some (0x8f0020, 8)
      else if c = 108 then Some (0x8f0027, 1)
      else None)"

section \<open>Reading and verifying\<close>

text \<open>
  \<open>xnvm_read_memory\<close> stores the bytes it gets in the file and counts them in sixteen bits; a failure
  to read leaves the result of \<^verbatim>\<open>programXMega\<close> as it is.
\<close>

definition xmega_fetch :: "nvm \<Rightarrow> u32 \<Rightarrow> u32 \<Rightarrow> bitfile \<Rightarrow> (bool \<times> bitfile) fm" where
  "xmega_fetch alg base len bf =
     fbind (fcall (xnvm_read_memory alg base len)) (\<lambda>(res, data).
     fbind (flift (buf_store (buffer bf) 0 data)) (\<lambda>bs.
       fret (ucast res = len, bf\<lparr>buffer := bs\<rparr>)))"

definition xmega_read ::
  "surroundings \<Rightarrow> nvm \<Rightarrow> byte list \<Rightarrow> handle \<Rightarrow> file_spec \<Rightarrow> u32 \<Rightarrow> u32 \<Rightarrow> bitfile \<Rightarrow> int option fm" where
  "xmega_read E alg device fp sp base len bf =
     (let bf = setLength (unat (len * 8)) bf;
          bf = (if fsection sp = 102 \<or> fsection sp = 108 then bf\<lparr>rlength := unat len\<rparr> else bf)
      in fbind (xmega_fetch alg (base + foffset sp) len bf) (\<lambda>(complete, bf).
           if \<not> complete then fret (Some 0)
           else fbind (save_bits E (fstyle sp) device fp bf) (\<lambda>_. fret None)))"

definition xmega_verify :: "surroundings \<Rightarrow> nvm \<Rightarrow> handle \<Rightarrow> file_spec \<Rightarrow> u32 \<Rightarrow> bitfile \<Rightarrow> int option fm" where
  "xmega_verify E alg fp sp base bf =
     fbind (read_bits E bitfile_init fp (fstyle sp)) (\<lambda>(_, vfile).
       let len = of_nat (getLength vfile div 8)
       in fbind (xmega_fetch alg base len (setLength (unat (len * 8)) bf)) (\<lambda>(complete, bf).
            if \<not> complete then fret (Some 1)
            else fbind (flift (buf_slice (buffer bf) 0 (unat len))) (\<lambda>got.
                 fbind (flift (buf_slice (buffer vfile) 0 (unat len))) (\<lambda>want.
                   fret (if got \<noteq> want then Some 1 else None)))))"

section \<open>Erasing and writing\<close>

text \<open>\<open>None\<close> for a section that cannot be erased. The fuses and the lock bits need no erasing.\<close>

definition xmega_erase :: "nvm \<Rightarrow> byte \<Rightarrow> u32 \<Rightarrow> PDI_STATUS_CODE option fm" where
  "xmega_erase alg c base =
     (let run = (\<lambda>m. fbind (fcall m) (\<lambda>r. fret (Some r)))
      in if c = 97 then run (xnvm_application_erase alg)
         else if c = 98 then run (xnvm_boot_erase alg base)
         else if c = 101 then run (xnvm_erase_eeprom alg)
         else if c = 117 then run (xnvm_erase_user_sign alg)
         else if c = 108 \<or> c = 102 then fret (Some STATUS_OK)
         else fret None)"

text \<open>The pages at \<open>i, i + page, ...\<close> below the length; a page is taken from memory behind the file's byte \<open>i\<close>.\<close>

fun xmega_pages :: "(u32 \<Rightarrow> byte list option \<Rightarrow> PDI_STATUS_CODE jm) \<Rightarrow> byte list \<Rightarrow> nat list \<Rightarrow> int option fm" where
  "xmega_pages put data [] = fret None"
| "xmega_pages put data (i # is) =
     fbind (fcall (put (of_nat i) (Some (drop i data)))) (\<lambda>res.
       if res \<noteq> STATUS_OK then fret (Some 1) else xmega_pages put data is)"

definition page_starts :: "nat \<Rightarrow> nat \<Rightarrow> nat \<Rightarrow> nat list" where
  "page_starts offset len page =
     (let start = offset div page * page in map (\<lambda>k. start + k * page) [0..<(len - start + page - 1) div page])"

text \<open>
  The loop over the EEPROM ends after its first page. The writes of fuses and lock bits are
  commented out, and the other sections have none.
\<close>

definition xmega_write :: "xmega_part \<Rightarrow> nvm \<Rightarrow> file_spec \<Rightarrow> u32 \<Rightarrow> bitfile \<Rightarrow> int option fm" where
  "xmega_write x alg sp base rfile =
     (let len = getLength rfile div 8; c = fsection sp; page = flash_page x;
          flash = (\<lambda>i data. if faction sp = 119 then xnvm_program_flash_page alg (base + i) data (ucast page)
                            else xnvm_erase_program_flash_page alg (base + i) data (ucast page));
          eeprom = (\<lambda>i data. xnvm_erase_program_eeprom_page alg i data (ucast eeprom_page))
      in if c = 97 \<or> c = 98 \<or> c = 117
         then xmega_pages flash (buffer rfile) (page_starts (unat (foffset sp)) len (unat page))
         else if c = 101
         then xmega_pages eeprom (buffer rfile) (take 1 (page_starts (unat (foffset sp)) len (unat eeprom_page)))
         else fret None)"

definition xmega_put ::
  "surroundings \<Rightarrow> xmega_part \<Rightarrow> nvm \<Rightarrow> bool \<Rightarrow> handle \<Rightarrow> file_spec \<Rightarrow> u32 \<Rightarrow> int option fm" where
  "xmega_put E x alg erase_first fp sp base =
     fbind (read_bits E bitfile_init fp (fstyle sp)) (\<lambda>(_, rfile).
       if \<not> erase_first \<and> (faction sp = 119 \<or> faction sp = 101)
       then fbind (xmega_erase alg (fsection sp) base) (\<lambda>r.
              case r of None \<Rightarrow> fret None
              | Some res \<Rightarrow>
                  if res \<noteq> STATUS_OK then fret (Some 1)
                  else if faction sp = 101 then fret None
                  else xmega_write x alg sp base rfile)
       else xmega_write x alg sp base rfile)"

section \<open>The function\<close>

definition xmega_file ::
  "surroundings \<Rightarrow> xmega_part \<Rightarrow> nvm \<Rightarrow> bool \<Rightarrow> byte list \<Rightarrow> byte list \<Rightarrow> int option fm" where
  "xmega_file E x alg erase_first device arg =
     fbind (file_arg arg STYLE_IHEX 97) (\<lambda>(fp, sp).
       if faction sp \<noteq> 101 \<and> fp = NoFile then fret None
       else case xmega_section x (fsection sp) of
              None \<Rightarrow> fret None
            | Some (base, len) \<Rightarrow>
                let len = (if flength sp \<noteq> 0 then flength sp else len);
                    bf = bitfile_init\<lparr>boffset := unat (if foffset sp \<noteq> 0 then foffset sp else len)\<rparr>
                in if faction sp = 114 then xmega_read E alg device fp sp base len bf
                   else if faction sp = 118 then xmega_verify E alg fp sp base bf
                   else if faction sp = 101 \<or> c_tolower (faction sp) = 119
                   then xmega_put E x alg erase_first fp sp base
                   else fret None)"

text \<open>With \<^verbatim>\<open>-v\<close> the identification, the fuses and the production row are read to be printed.\<close>

definition xmega_report :: "nvm \<Rightarrow> unit jm" where
  "xmega_report alg =
     jbind (xnvm_read_memory alg 0x1000090 5) (\<lambda>_.
     jbind (xnvm_read_memory alg 0x08f0020 8) (\<lambda>_.
     jbind (xnvm_read_memory alg 0x08e0200 200) (\<lambda>_. jret ())))"

definition xmega_release :: "nvm \<Rightarrow> unit jm" where
  "xmega_release alg = jbind (xnvm_pull_dev_out_of_reset alg) (\<lambda>_. jshiftIR [0])"

definition programXMega :: "surroundings \<Rightarrow> u32 \<Rightarrow> bool \<Rightarrow> bool \<Rightarrow> byte list \<Rightarrow> byte list list \<Rightarrow> int fm" where
  "programXMega E i verbose erase_first device args =
     (case xmega_part_of i of
        None \<Rightarrow> fret 1
      | Some x \<Rightarrow>
          fbind (fcall (xnvm_init (nvm_new 7))) (\<lambda>(res, alg).
            if res \<noteq> STATUS_OK then fret 1
            else fbind (if verbose then fcall (xmega_report alg) else fret ()) (\<lambda>_.
                 fbind (if erase_first then fcall (xnvm_chip_erase alg) else fret STATUS_OK) (\<lambda>res.
                 fbind (if res \<noteq> STATUS_OK then fret (Some 1) else fargs (xmega_file E x alg erase_first device) args) (\<lambda>r.
                 fbind (fcall (xmega_release alg)) (\<lambda>_. fret (returned r)))))))"

end
