(* ===== verification/Dispatch.thy ===== *)
theory Dispatch
  imports Flows FlowXmega
begin

text \<open>
  The end of \<^verbatim>\<open>main\<close> in \<^verbatim>\<open>xc3sprog.cpp\<close>: which function programs the device, by the manufacturer and
  the family in its identification. The AVR programmer \<^verbatim>\<open>jAVR\<close> is a parameter.
\<close>

definition FAMILY_XC4VLX :: int where "FAMILY_XC4VLX = 0x0b"
definition FAMILY_XC4VFX :: int where "FAMILY_XC4VFX = 0x0f"
definition FAMILY_XC4VSX :: int where "FAMILY_XC4VSX = 0x10"

definition xc3s_family :: "int \<Rightarrow> bool" where
  "xc3s_family fam \<longleftrightarrow> fam \<in> {FAMILY_XC2S, FAMILY_XC2SE, FAMILY_XC4VLX, FAMILY_XC4VFX, FAMILY_XC4VSX, FAMILY_XC3S,
     FAMILY_XC3SE, FAMILY_XC3SA, FAMILY_XC3SAN, FAMILY_XC3SD, FAMILY_XC6S, FAMILY_XC2V, FAMILY_XC5VLX, FAMILY_XC5VLXT,
     FAMILY_XC5VSXT, FAMILY_XC5VFXT, FAMILY_XC5VTXT, FAMILY_XC7}"

text \<open>The options of the command line that reach the programming functions.\<close>

record options =
  overbose :: bool
  oerase :: bool
  oreconfigure :: bool
  ospiflash :: bool
  otest_count :: int
  obscanfile :: "byte list option"
  omapdir :: "byte list option"
  opositions :: "int list"
  onpositions :: nat
  oxcfopts :: "byte list list"
  oargs :: "byte list list"

definition dispatch ::
  "surroundings \<Rightarrow> spiflash \<Rightarrow> (u32 \<Rightarrow> byte list list \<Rightarrow> int fm) \<Rightarrow> options \<Rightarrow> devicedb \<Rightarrow> u32 \<Rightarrow> int fm" where
  "dispatch E spi jAVR opt db i =
     (let fam = IDCODE_TO_FAMILY i; manufacturer = IDCODE_TO_MANUFACTURER i;
          (description, db) = idToDescription i db;
          named = (\<lambda>f. case description of None \<Rightarrow> flift (Inl NullPointer) | Some device \<Rightarrow> f device)
      in if i = 0 then fret 2
         else if onpositions opt \<noteq> 1 \<and> (manufacturer \<noteq> MANUFACTURER_XILINX \<or> fam \<noteq> FAMILY_XCF) then flift (Inl (Exit 255))
         else if ospiflash opt
         then named (\<lambda>device. programSPI E spi (oerase opt) (oreconfigure opt) (otest_count opt) (obscanfile opt) fam device (oargs opt))
         else if manufacturer = MANUFACTURER_XILINX
         then if xc3s_family fam then programXC3S E (oreconfigure opt) fam (oargs opt)
              else if fam = FAMILY_XCF
              then named (\<lambda>device. programXCF E (oerase opt) (oreconfigure opt) device (opositions opt) (onpositions opt)
                     (oxcfopts opt) (oargs opt))
              else if fam = 0x4b then named (\<lambda>device. programXC95X E i (oerase opt) device (oargs opt))
              else if word_of_int fam AND (0x7e :: u32) = 0x36
              then named (\<lambda>device. programXC2C E i (oerase opt) (omapdir opt) device (oargs opt))
              else fret 1
         else if manufacturer = MANUFACTURER_ATMEL
         then (case idToIDCmd i db of
                 (c, _) \<Rightarrow> if c = 3 then named (\<lambda>device. programXMega E i (overbose opt) (oerase opt) device (oargs opt))
                          else jAVR i (oargs opt))
         else fret 1)"

end
