(* ===== verification/FlowSpec.thy ===== *)
theory FlowSpec
  imports Flow CliProps
begin

text \<open>
  Total correctness of programming sessions: \<open>fwp m Q s\<close> says that \<open>m\<close> returns from \<open>s\<close> with a result
  and a session that satisfy \<open>Q\<close>. Calls to the selected device use the specifications \<open>wp\<close> of the
  algorithms.
\<close>

definition fwp :: "'a fm \<Rightarrow> ('a \<Rightarrow> session \<Rightarrow> bool) \<Rightarrow> session \<Rightarrow> bool" where
  "fwp m Q s \<longleftrightarrow> (\<exists>x s'. m s = (Inr x, s') \<and> Q x s')"

named_theorems fwp_intro \<open>rules for \<open>fwp\<close>\<close>

lemma fwp_ret [fwp_intro]: "Q x s \<Longrightarrow> fwp (fret x) Q s"
  by (simp add: fwp_def fret_def)

lemma fwp_lift [fwp_intro]: "r = Inr x \<Longrightarrow> Q x s \<Longrightarrow> fwp (flift r) Q s"
  by (simp add: fwp_def flift_def)

lemma fwp_bind [fwp_intro]: "fwp m (\<lambda>x. fwp (f x) Q) s \<Longrightarrow> fwp (fbind m f) Q s"
  by (auto simp: fwp_def fbind_def)

lemma fwp_mono: "fwp m Q s \<Longrightarrow> (\<And>x s. Q x s \<Longrightarrow> Q' x s) \<Longrightarrow> fwp m Q' s"
  by (auto simp: fwp_def)

lemma fwp_if [fwp_intro]: "(b \<Longrightarrow> fwp m Q s) \<Longrightarrow> (\<not> b \<Longrightarrow> fwp m' Q s) \<Longrightarrow> fwp (if b then m else m') Q s"
  by simp

lemma fwp_prod [fwp_intro]: "fwp (f (fst p) (snd p)) Q s \<Longrightarrow> fwp (case p of (a, b) \<Rightarrow> f a b) Q s"
  by (cases p) simp

lemma fwp_result: "m s = (Inr x, s') \<Longrightarrow> Q x s' \<Longrightarrow> fwp m Q s"
  by (simp add: fwp_def)

lemma fwp_run: "fwp m Q s \<Longrightarrow> (\<And>x s'. m s = (Inr x, s') \<Longrightarrow> Q x s' \<Longrightarrow> R) \<Longrightarrow> R"
  by (auto simp: fwp_def)

section \<open>The selected device\<close>

definition selected :: "session \<Rightarrow> bool" where
  "selected s \<longleftrightarrow> 0 \<le> ssel s \<and> nat (ssel s) < length (sdevs s)"

definition sel_link :: "session \<Rightarrow> jlink" where
  "sel_link s = dev_link (sdevs s ! nat (ssel s))"

text \<open>The device that is selected answers like \<open>dd\<close>, whose view is \<open>v\<close>.\<close>

definition on_device :: "'v device \<Rightarrow> 'v \<Rightarrow> session \<Rightarrow> bool" where
  "on_device dd v s \<longleftrightarrow> selected s \<and> honest dd (replies (sel_link s)) \<and> dview dd (hist (sel_link s)) = v"

text \<open>Nothing but the link of the selected device is different, and the calls of the session have gone on.\<close>

definition same_but_link :: "session \<Rightarrow> session \<Rightarrow> bool" where
  "same_but_link s s' \<longleftrightarrow>
     (\<exists>l cs. s' = s\<lparr>sdevs := (sdevs s)[nat (ssel s) := (sdevs s ! nat (ssel s))\<lparr>dev_link := l\<rparr>], jcalls := jcalls s @ cs\<rparr>)"

lemma same_but_linkD:
  "same_but_link s s' \<Longrightarrow> disk s' = disk s \<and> jglob s' = jglob s \<and> ssel s' = ssel s \<and> length (sdevs s') = length (sdevs s)"
  by (auto simp: same_but_link_def)

lemma same_but_link_trans: "same_but_link s s1 \<Longrightarrow> same_but_link s1 s2 \<Longrightarrow> selected s \<Longrightarrow> same_but_link s s2"
proof -
  assume "same_but_link s s1" "same_but_link s1 s2" "selected s"
  then obtain l cs l' cs' where
    "s1 = s\<lparr>sdevs := (sdevs s)[nat (ssel s) := (sdevs s ! nat (ssel s))\<lparr>dev_link := l\<rparr>], jcalls := jcalls s @ cs\<rparr>"
    "s2 = s1\<lparr>sdevs := (sdevs s1)[nat (ssel s1) := (sdevs s1 ! nat (ssel s1))\<lparr>dev_link := l'\<rparr>], jcalls := jcalls s1 @ cs'\<rparr>"
    by (auto simp: same_but_link_def)
  then show "same_but_link s s2"
    using \<open>selected s\<close> unfolding same_but_link_def selected_def
    by (intro exI [of _ l'] exI [of _ "cs @ cs'"]) simp
qed

lemma fwp_call:
  assumes "on_device dd v s" "wp dd m Q v"
    and "\<And>x v' s'. Q x v' \<Longrightarrow> on_device dd v' s' \<Longrightarrow> same_but_link s s' \<Longrightarrow> R x s'"
  shows "fwp (fcall m) R s"
proof -
  have s: "0 \<le> ssel s" "nat (ssel s) < length (sdevs s)" "honest dd (replies (sel_link s))" "dview dd (hist (sel_link s)) = v"
    using assms(1) by (auto simp: on_device_def selected_def)
  obtain x l where m: "m (sel_link s) = (Inr x, l)" "replies l = replies (sel_link s)" "Q x (dview dd (hist l))"
    using assms(2) s(3,4) by (blast elim: wp_run)
  let ?s = "s\<lparr>sdevs := (sdevs s)[nat (ssel s) := (sdevs s ! nat (ssel s))\<lparr>dev_link := l\<rparr>],
      jcalls := jcalls s @ drop (length (hist (sel_link s))) (hist l)\<rparr>"
  have "on_device dd (dview dd (hist l)) ?s" using s m(2) by (simp add: on_device_def selected_def sel_link_def)
  moreover have "same_but_link s ?s" by (auto simp: same_but_link_def)
  ultimately have "R x ?s" using assms(3) m(3) by blast
  then show ?thesis
    using s(1,2) m(1) by (intro fwp_result [where s' = ?s]) (simp_all add: fdev_def sel_link_def Let_def)
qed

lemma on_device_disk [simp]: "on_device dd v (s\<lparr>disk := w\<rparr>) = on_device dd v s"
  "on_device dd v (s\<lparr>jglob := g\<rparr>) = on_device dd v s"
  by (simp_all add: on_device_def selected_def sel_link_def)

lemma on_device_mono:
  assumes "on_device dd v s" "dinit dd' = dinit dd" "dstep dd' = dstep dd" "\<And>v c r. dans dd v c r \<Longrightarrow> dans dd' v c r"
  shows "on_device dd' v s"
  using assms honest_mono [OF _ assms(2-4)] by (simp add: on_device_def dview_def)

section \<open>File arguments\<close>

text \<open>A name and an action.\<close>

lemma parse_spec_action:
  assumes "name \<noteq> []" "58 \<notin> set name" "act \<noteq> 58"
  shows "parse_spec (name @ [58, act]) sp =
     Inr (Some (take 255 name, act), sp\<lparr>faction := (if act = 87 then act else c_tolower act)\<rparr>)"
proof -
  have "colon_field (name @ [58, act]) = (name, Some [act])" using colon_field_colon [OF assms(2), of "[act]"] by simp
  moreover have "colon_field [act] = ([act], None)" using colon_field_end [of "[act]"] assms(3) by simp
  ultimately show ?thesis using assms(1) by (simp add: parse_spec_def spec_action_def Let_def)
qed

definition file_name :: "byte list \<Rightarrow> bool" where
  "file_name name \<longleftrightarrow> name \<noteq> [] \<and> 58 \<notin> set name \<and> length name \<le> 255"

lemma file_arg_read:
  assumes "file_name name" "files (disk s) name = Some bs" "act \<in> {119, 87, 118}"
  shows "file_arg (name @ [58, act]) style sec s =
     (Inr (Reading name, \<lparr>faction = act, fsection = sec, foffset = 0, fstyle = style, flength = 0\<rparr>), s)"
proof -
  have "c_tolower act \<noteq> 114" "(if act = 87 then act else c_tolower act) = act" "act \<noteq> 58"
    using assms(3) by (auto simp: c_tolower_def)
  then show ?thesis
    using assms(1,2) parse_spec_action [of name act] unfolding file_arg_def getFile_and_Attribute_from_name_def
    by (simp add: open_spec_def file_name_def)
qed

lemma file_arg_create:
  assumes "file_name name" "files (disk s) name = None" "writable (disk s) name"
    and "\<not> strcasecmp_eq name (ascii ''stdout'')"
  shows "file_arg (name @ [58, 114]) style sec s =
     (Inr (Writing name, \<lparr>faction = 114, fsection = sec, foffset = 0, fstyle = style, flength = 0\<rparr>),
      s\<lparr>disk := (disk s)\<lparr>files := (files (disk s))(name \<mapsto> [])\<rparr>\<rparr>)"
proof -
  have "c_tolower 114 = 114" by (simp add: c_tolower_def)
  then show ?thesis
    using assms parse_spec_action [of name 114] unfolding file_arg_def getFile_and_Attribute_from_name_def
    by (simp add: open_spec_def file_name_def)
qed

end
