(* ===== verification/FlowXC95XProps.thy ===== *)
theory FlowXC95XProps
  imports Flows FlowSpec XC95XProps
begin

text \<open>
  From a JEDEC file to the part and back to a file: \<^verbatim>\<open>programXC95X\<close> with the formats of the JEDEC
  class and the words of the part put together.
\<close>

section \<open>The layout of the file\<close>

text \<open>The fuses of a part fill its lines: bytes, rows of \<open>D\<close> bytes, sectors of 15 rows.\<close>

abbreviation row_bits :: "nat \<Rightarrow> nat" where
  "row_bits l \<equiv> (if l < 9 then 8 else 6)"

lemma start_bits: "b + n < row_bits l \<Longrightarrow> l < 15 \<Longrightarrow> xc95x_start D (k + n) b l w = xc95x_start D k (b + n) l w"
proof (induction n arbitrary: b)
  case (Suc n)
  have "(if l < 9 then if b = 7 then 0 else b + 1 else if b = 5 then 0 else b + 1) = b + 1" "l \<noteq> 15"
    using Suc.prems by (auto split: if_splits)
  then have "xc95x_start D (Suc (k + n)) b l w = xc95x_start D (k + n) (b + 1) l w"
    unfolding xc95x_start.simps Let_def by simp
  then have "xc95x_start D (k + Suc n) b l w = xc95x_start D (k + n) (b + 1) l w" by simp
  then show ?case using Suc.IH [of "b + 1"] Suc.prems by simp
qed simp

lemma start_byte:
  assumes "l < 15"
  shows "xc95x_start D (k + row_bits l) 0 l w =
     (if w = D - 1 then xc95x_start D k 0 (if l = 14 then 0 else l + 1) 0 else xc95x_start D k 0 l (w + 1))"
proof -
  have "k + row_bits l = Suc k + (row_bits l - 1)" by simp
  then have "xc95x_start D (k + row_bits l) 0 l w = xc95x_start D (Suc k) (row_bits l - 1) l w"
    using start_bits [of 0 "row_bits l - 1" l D "Suc k" w] assms by simp
  then show ?thesis using assms by (simp add: Let_def)
qed

lemma start_row:
  assumes "w < D" "l < 15"
  shows "xc95x_start D (k + row_bits l * (D - w)) 0 l w = xc95x_start D k 0 (if l = 14 then 0 else l + 1) 0"
  using assms(1)
proof (induction "D - w" arbitrary: w)
  case (Suc n)
  have "k + row_bits l * (D - w) = (k + row_bits l * (D - Suc w)) + row_bits l" using Suc.hyps(2) by (cases "D - w") auto
  then have "xc95x_start D (k + row_bits l * (D - w)) 0 l w =
      (if w = D - 1 then xc95x_start D (k + row_bits l * (D - Suc w)) 0 (if l = 14 then 0 else l + 1) 0
       else xc95x_start D (k + row_bits l * (D - Suc w)) 0 l (w + 1))"
    using start_byte [OF assms(2)] by metis
  then show ?case using Suc.hyps(1) [of "Suc w"] Suc.hyps(2) Suc.prems by (cases "w = D - 1") auto
qed simp

lemma start_sector: "0 < D \<Longrightarrow> xc95x_start D (k + 108 * D) 0 0 0 = xc95x_start D k 0 0 0"
proof -
  assume D: "0 < D"
  have row: "xc95x_start D (j + row_bits l * D) 0 l 0 = xc95x_start D j 0 (if l = 14 then 0 else l + 1) 0" if "l < 15" for j l
    using start_row [OF D that, of j] by simp
  have high: "xc95x_start D (k + 6 * D * Suc n) 0 (14 - n) 0 = xc95x_start D k 0 0 0" if "n < 6" for n
    using that
  proof (induction n)
    case 0
    then show ?case using row [of 14 k] by simp
  next
    case (Suc n)
    then have "\<not> 14 - Suc n < 9" "14 - Suc n < 15" "14 - Suc n \<noteq> 14" "14 - Suc n + 1 = 14 - n" by auto
    moreover have e: "k + 6 * D * Suc (Suc n) = (k + 6 * D * Suc n) + 6 * D" by simp
    ultimately show ?case using row [of "14 - Suc n" "k + 6 * D * Suc n"] Suc unfolding e by simp
  qed
  have low: "xc95x_start D (j + 8 * D * n) 0 (9 - n) 0 = xc95x_start D j 0 9 0" if "n \<le> 9" for n j
    using that
  proof (induction n)
    case (Suc n)
    then have "9 - Suc n < 9" "9 - Suc n < 15" "9 - Suc n \<noteq> 14" "9 - Suc n + 1 = 9 - n" by auto
    moreover have e: "j + 8 * D * Suc n = (j + 8 * D * n) + 8 * D" by simp
    ultimately show ?case using row [of "9 - Suc n" "j + 8 * D * n"] Suc unfolding e by simp
  qed simp
  have e: "k + 108 * D = (k + 6 * D * Suc 5) + 8 * D * 9" by simp
  show ?thesis using low [of 9 "k + 6 * D * Suc 5"] high [of 5] unfolding e by simp
qed

lemma start_part: "0 < D \<Longrightarrow> xc95x_start D (n * (108 * D)) 0 0 0"
proof (induction n)
  case (Suc n)
  then show ?case using start_sector [OF Suc.prems, of "n * (108 * D)"] by (simp add: add.commute)
qed simp

lemma part_lines: "0 < D \<Longrightarrow> lines_complete (JED_XC95X D) (108 * 108 * D)"
  using start_part [of D 108] by (simp add: lines_complete_def mult.assoc)

section \<open>The words of the part\<close>

lemma mem_after_unwritten:
  assumes "k \<le> u"
  shows "mem_after mem (ws @ map (xc95x_image D jf) [0..<k]) (xc95x_addr u) = mem_after mem ws (xc95x_addr u)"
  using assms by (induction k) (auto simp: mem_after_def xc95x_image_def dest: xc95x_addr_inj)

lemma word_sizes:
  assumes "k = xc95x_words \<or> (\<forall>u < xc95x_words. 8 * D \<le> length (mem_after mem ws (xc95x_addr u)))" "u < xc95x_words"
  shows "8 * D \<le> length (mem_after mem (ws @ map (xc95x_image D jf) [0..<k]) (xc95x_addr u))"
  using assms mem_after_xc95x [of u k mem ws D jf] mem_after_unwritten [of k u mem ws D jf] by (cases "u < k") auto

text \<open>An object that was read from the part can be written to a file.\<close>

lemma read_object_fuses:
  assumes "D \<in> {2, 4, 8, 16}" "jed_ok (108 * 108 * D) jf"
    and "jed_frame jf = (Some (nbytes (108 * 108 * D)), jversion (jed_init junk), jdate (jed_init junk))"
  shows "\<exists>fl. jed_fuses jf fl" "note_word (c_string (jversion jf) 0)" "date_text now jf = map_option ((@) [58, 32]) now"
proof -
  have e: "c_string (jversion (jed_init junk)) 0 = []" "c_string (jdate (jed_init junk)) 0 = []"
    by (simp_all add: jed_init_def Let_def c_string_def MAX_SIZE_def upt_rec)
  show "note_word (c_string (jversion jf) 0)" using assms(3) e by (simp add: jed_frame_def note_word_def)
  show "date_text now jf = map_option ((@) [58, 32]) now" using assms(3) e by (simp add: jed_frame_def date_text_def)
  obtain fl where fl: "fuse_list jf = Some fl" "unat (fuse_count jf) = 108 * 108 * D" "length fl = nbytes (108 * 108 * D)"
    using assms(2,3) by (auto simp: jed_ok_def jed_frame_def)
  have "108 * 108 * D = 8 * (1458 * D)" by simp
  then have "nbytes (108 * 108 * D) * 8 = 108 * 108 * D" by (simp add: nbytes_def)
  moreover have "fuse_count jf \<noteq> 0" using fl(2) assms(1) by (metis insertE mult_eq_0_iff singletonD unat_0 zero_neq_numeral)
  ultimately show "\<exists>fl. jed_fuses jf fl" using fl by (intro exI [of _ fl]) (auto simp: jed_fuses_def)
qed

section \<open>Writing and reading a file\<close>

abbreviation cpld_mem :: "nat \<Rightarrow> (nat \<Rightarrow> bool list) \<Rightarrow> cpld device" where
  "cpld_mem D m \<equiv> cpld_dev D (cpld_answer D m)"

definition words_stored :: "nat \<Rightarrow> (nat \<Rightarrow> bool list) \<Rightarrow> bool" where
  "words_stored D m \<longleftrightarrow> (\<forall>u < xc95x_words. 8 * D \<le> length (m (xc95x_addr u)))"

text \<open>The session after a part was written with \<open>jf\<close> and verified with the result \<open>r\<close>.\<close>

definition written :: "nat \<Rightarrow> (nat \<Rightarrow> bool list) \<Rightarrow> jed_data \<Rightarrow> int option \<Rightarrow> session \<Rightarrow> bool" where
  "written D m jf r s \<longleftrightarrow> r \<noteq> Some 0 \<and> (\<exists>q. on_device (cpld_mem D m) q s \<and> words_stored D (mem_after m (cwords q)) \<and>
     (r = None \<longleftrightarrow> (\<forall>u < xc95x_words. xc95x_agree D jf (mem_after m (cwords q)) u)))"

lemma erase_device:
  assumes "on_device (cpld_dev D ans) p s"
  shows "fwp (if b then fcall xc95x_erase else fret 0)
     (\<lambda>_ s'. \<exists>q. on_device (cpld_dev D ans) q s' \<and> cwords q = cwords p \<and> disk s' = disk s \<and> jglob s' = jglob s) s"
  using assms by (intro fwp_if fwp_call [OF assms wp_xc95x_erase [of D ans p]] fwp_ret) (auto dest: same_but_linkD)

lemma write_file:
  assumes "file_name src" "files (disk s) src = Some bs"
    and "jed_readFile (fresh32 E) (jglob s) (jed_init (fresh_mem E)) (Some bs) = Inr (r, jf, g)" "jed_ok (108 * 108 * D) jf"
    and "on_device (cpld_dev D ans) p s" "\<And>p c r. ans p c r \<Longrightarrow> cpld_answer D m p c r" "says_done ans \<or> words_stored D (mem_after m (cwords p))"
  shows "fwp (xc95x_file E erase_first device D (0, src @ [58, 119]))
     (\<lambda>r s'. written D m jf r s' \<and> (says_done ans \<longrightarrow> r = None) \<and> disk s' = disk s) s"
proof -
  let ?Q = "\<lambda>r s'. written D m jf r s' \<and> (says_done ans \<longrightarrow> r = None) \<and> disk s' = disk s"
  let ?jf0 = "jed_init (fresh_mem E)"
  have read: "read_jed E ?jf0 (Reading src) s = (Inr (r, jf), s\<lparr>jglob := g\<rparr>)"
    using assms(2,3) by (simp add: read_jed_def file_bytes_def)
  have low: "c_tolower 119 = 119" by (simp add: c_tolower_def)
  have verified: "fwp (fbind (fcall (xc95x_array_verify (fresh_mem E) D jf)) (\<lambda>ret. fret (if ret \<noteq> 0 then Some ret else None))) ?Q s1"
    if s1: "on_device (cpld_dev D ans) q s1" "disk s1 = disk s"
      "k \<le> xc95x_words" "cwords q = cwords p @ map (xc95x_image D jf) [0..<k]" "k = xc95x_words \<or> \<not> says_done ans" for s1 q k
  proof -
    let ?m = "mem_after m (cwords q)"
    have len: "8 * D \<le> length (?m (xc95x_addr u))" if "u < xc95x_words" for u
      using word_sizes [OF _ that] assms(7) s1(4,5) by (auto simp: words_stored_def)
    have complete: "says_done ans \<Longrightarrow> \<forall>u < xc95x_words. xc95x_agree D jf ?m u"
      using s1(4,5) agree_image by metis
    have "on_device (cpld_mem D m) q s1" using on_device_mono [OF s1(1)] assms(6) by (simp add: cpld_dev_def)
    then show ?thesis
    proof (rule fwp_bind [OF fwp_call [OF _ wp_xc95x_array_verify [where junk = "fresh_mem E", OF assms(4) order_refl len]]])
      fix e :: int and q' s2
      assume e: "e = (if \<forall>u < xc95x_words. xc95x_agree D jf ?m u then 0 else 1) \<and> cwords q' = cwords q"
        and s2: "on_device (cpld_mem D m) q' s2" "same_but_link s1 s2"
      let ?r = "if e \<noteq> 0 then Some e else None"
      have "written D m jf ?r s2"
        unfolding written_def by (intro conjI exI [of _ q']) (use e s2(1) len in \<open>simp_all add: words_stored_def\<close>)
      moreover have "disk s2 = disk s" using same_but_linkD [OF s2(2)] s1(2) by simp
      moreover have "says_done ans \<Longrightarrow> ?r = None" using e complete by simp
      ultimately show "fwp (fret ?r) ?Q s2" by (intro fwp_ret) blast
    qed
  qed
  have prog: "fwp (fcall (xc95x_array_program D jf)) (\<lambda>_ s2. \<exists>q k. on_device (cpld_dev D ans) q s2 \<and> disk s2 = disk s1 \<and>
      k \<le> xc95x_words \<and> cwords q = cwords p @ map (xc95x_image D jf) [0..<k] \<and> (k = xc95x_words \<or> \<not> says_done ans)) s1"
    if s1: "on_device (cpld_dev D ans) q s1" "cwords q = cwords p" for q s1
  proof -
    have "wp (cpld_dev D ans) (xc95x_array_program D jf) (\<lambda>_ q'. \<exists>k \<le> xc95x_words.
        cwords q' = cwords p @ map (xc95x_image D jf) [0..<k] \<and> (k = xc95x_words \<or> \<not> says_done ans)) q"
      unfolding xc95x_array_program_def
      by (rule wp_bind [OF wp_mono [OF wp_xc95x_program [OF assms(4) order_refl]]], rule wp_ret) (use s1(2) in auto)
    then show ?thesis by (rule fwp_call [OF s1(1)]) (blast dest: same_but_linkD)
  qed
  have "fwp (xc95x_file E erase_first device D (0, src @ [58, 119])) ?Q s = fwp (
      fbind (if \<not> erase_first then fcall xc95x_erase else fret 0) (\<lambda>_.
      fbind (fcall (xc95x_array_program D jf)) (\<lambda>_.
      fbind (fcall (xc95x_array_verify (fresh_mem E) D jf)) (\<lambda>ret. fret (if ret \<noteq> 0 then Some ret else None))))) ?Q
      (s\<lparr>jglob := g\<rparr>)"
    using file_arg_read [OF assms(1,2), of 119 STYLE_JEDEC 0] read low
    by (simp add: xc95x_file_def fwp_def fbind_def)
  moreover have "fwp (fbind (if \<not> erase_first then fcall xc95x_erase else fret 0) (\<lambda>_.
      fbind (fcall (xc95x_array_program D jf)) (\<lambda>_.
      fbind (fcall (xc95x_array_verify (fresh_mem E) D jf)) (\<lambda>ret. fret (if ret \<noteq> 0 then Some ret else None))))) ?Q
      (s\<lparr>jglob := g\<rparr>)"
  proof (rule fwp_bind, rule fwp_mono [OF erase_device [of D ans p]])
    show "on_device (cpld_dev D ans) p (s\<lparr>jglob := g\<rparr>)" using assms(5) by simp
    fix x s1 assume "\<exists>q. on_device (cpld_dev D ans) q s1 \<and> cwords q = cwords p \<and> disk s1 = disk (s\<lparr>jglob := g\<rparr>) \<and>
      jglob s1 = jglob (s\<lparr>jglob := g\<rparr>)"
    then obtain q where s1: "on_device (cpld_dev D ans) q s1" "cwords q = cwords p" "disk s1 = disk s" by auto
    show "fwp (fbind (fcall (xc95x_array_program D jf)) (\<lambda>_. fbind (fcall (xc95x_array_verify (fresh_mem E) D jf))
        (\<lambda>ret. fret (if ret \<noteq> 0 then Some ret else None)))) ?Q s1"
      by (rule fwp_bind [OF fwp_mono [OF prog [OF s1(1,2)]]], elim exE conjE, rule verified) (use s1(3) in simp_all)
  qed
  ultimately show ?thesis by simp
qed

lemma read_file:
  assumes "D \<in> {2, 4, 8, 16}" "jed_type_of device = Some (JED_XC95X D)" "note_word device"
    and "date_fits (map_option ((@) [58, 32]) (jed_clock E))"
    and "file_name dst" "files (disk s) dst = None" "writable (disk s) dst" "\<not> strcasecmp_eq dst (ascii ''stdout'')"
    and "on_device (cpld_mem D m) q s" "words_stored D (mem_after m (cwords q))"
    and "\<forall>u < xc95x_words. xc95x_agree D jf (mem_after m (cwords q)) u" "jed_ok (108 * 108 * D) jf"
  shows "fwp (xc95x_file E erase_first device D (1, dst @ [58, 114])) (\<lambda>r s'. r = None \<and>
     (\<exists>out jf' g'. disk s' = (disk s)\<lparr>files := (files (disk s))(dst \<mapsto> out)\<rparr> \<and>
        jed_readFile junk jed_globals_init (jed_init junk') (Some out) = Inr (0, jf', g') \<and>
        (\<forall>i < 108 * 108 * D. jedec_get_fuse jf' (of_nat i) = jedec_get_fuse jf (of_nat i)))) s"
    (is "fwp _ ?Q s")
proof -
  let ?w = "(disk s)\<lparr>files := (files (disk s))(dst \<mapsto> [])\<rparr>" and ?n = "108 * 108 * D" and ?jf0 = "jed_init (fresh_mem E)"
  have D: "0 < D" "D \<le> 16" using assms(1) by auto
  have len: "8 * D \<le> length (mem_after m (cwords q) (xc95x_addr u))" if "u < xc95x_words" for u
    using assms(10) that by (simp add: words_stored_def)
  have "fwp (xc95x_file E erase_first device D (1, dst @ [58, 114])) ?Q s =
      fwp (fbind (fcall (xc95x_array_read (fresh_mem E) D ?jf0)) (\<lambda>jf. fbind (save_jed E device (Writing dst) jf) (\<lambda>_. fret None)))
        ?Q (s\<lparr>disk := ?w\<rparr>)"
    using file_arg_create [OF assms(5-8), of STYLE_JEDEC 0] by (simp add: xc95x_file_def fwp_def fbind_def)
  also have \<dots>
  proof (rule fwp_bind [OF fwp_call [OF _ wp_xc95x_array_read [where junk = "fresh_mem E", OF D len]]])
    show "on_device (cpld_mem D m) q (s\<lparr>disk := ?w\<rparr>)" using assms(9) by simp
    fix jf2 q' s2
    assume r: "jed_ok ?n jf2 \<and> (\<forall>u < xc95x_words. xc95x_agree D jf2 (mem_after m (cwords q)) u) \<and>
        jed_frame jf2 = (Some (nbytes ?n), jversion ?jf0, jdate ?jf0)"
      and s2: "same_but_link (s\<lparr>disk := ?w\<rparr>) s2"
    then have fuses: "\<exists>fl. jed_fuses jf2 fl" "note_word (c_string (jversion jf2) 0)" "date_fits (date_text (jed_clock E) jf2)"
      using read_object_fuses(1,2) [OF assms(1), of jf2 "fresh_mem E"]
        read_object_fuses(3) [OF assms(1), of jf2 "fresh_mem E" "jed_clock E"] assms(4) by auto
    have n: "unat (fuse_count jf2) = ?n" using r by (simp add: jed_ok_def)
    obtain fl where "jed_fuses jf2 fl" using fuses(1) by blast
    from jed_save_read [OF this assms(2) _ assms(3) fuses(2,3)] part_lines [OF D(1)] n
    obtain out jf' g' where out: "saveAsJed (jed_clock E) device jf2 = Inr out"
      "jed_readFile junk jed_globals_init (jed_init junk') (Some out) = Inr (0, jf', g')"
      "fuse_count jf' = fuse_count jf2" "fuse_list jf' = fuse_list jf2" by metis
    have "jedec_get_fuse jf' (of_nat i) = jedec_get_fuse jf (of_nat i)" if "i < ?n" for i
    proof -
      have "jedec_get_fuse jf' (of_nat i) = jedec_get_fuse jf2 (of_nat i)" using out(3,4) by (simp add: jedec_get_fuse_def)
      moreover have "fuse_at jf2 i = fuse_at jf i"
        by (rule agree_same_fuses [OF _ _ that, where mem = "mem_after m (cwords q)"]) (use r assms(11) in simp_all)
      ultimately show ?thesis using fuse_at [OF _ that] assms(12) r by simp
    qed
    moreover have "save_jed E device (Writing dst) jf2 s2 = (Inr (), s2\<lparr>disk := (disk s)\<lparr>files := (files (disk s))(dst \<mapsto> out)\<rparr>\<rparr>)"
      using same_but_linkD [OF s2] out(1) by (simp add: save_jed_def file_put_def)
    ultimately show "fwp (fbind (save_jed E device (Writing dst) jf2) (\<lambda>_. fret None)) ?Q s2"
      using out(2) by (auto simp: fwp_def fbind_def fret_def)
  qed
  finally show ?thesis .
qed

section \<open>The session\<close>

text \<open>
  C35. An XC9500XL/XV part that is written from one file and read into another: \<^verbatim>\<open>programXC95X\<close> returns
  whatever the part answers. It returns 0 when the part reports the end of every sector, and whenever it
  returns 0 the new file holds, read back by the JEDEC parser, the fuses of the old one; no other file has
  changed. The part delivers the words loaded into it, and the new file did not exist.
\<close>

theorem xc95x_files_roundtrip:
  assumes "D \<in> {2, 4, 8, 16}" "xc95x_init (unat (fresh32 E)) (uint (drop_bit 13 (i AND 0x000ff000))) = D"
    and "jed_type_of device = Some (JED_XC95X D)" "note_word device" "date_fits (map_option ((@) [58, 32]) (jed_clock E))"
    and "file_name src" "files (disk s) src = Some bs"
    and "jed_readFile (fresh32 E) (jglob s) (jed_init (fresh_mem E)) (Some bs) = Inr (r, jf, g)" "jed_ok (108 * 108 * D) jf"
    and "file_name dst" "files (disk s) dst = None" "writable (disk s) dst" "\<not> strcasecmp_eq dst (ascii ''stdout'')"
    and "on_device (cpld_dev D ans) p s" "\<And>p c r. ans p c r \<Longrightarrow> cpld_answer D m p c r" "says_done ans \<or> words_stored D (mem_after m (cwords p))"
  shows "\<exists>ret s'. programXC95X E i erase_first device [src @ [58, 119], dst @ [58, 114]] s = (Inr ret, s') \<and>
     (says_done ans \<longrightarrow> ret = 0) \<and>
     (ret = 0 \<longrightarrow> (\<exists>out jf' g'. disk s' = (disk s)\<lparr>files := (files (disk s))(dst \<mapsto> out)\<rparr> \<and>
        jed_readFile junk jed_globals_init (jed_init junk') (Some out) = Inr (0, jf', g') \<and>
        (\<forall>k < 108 * 108 * D. jedec_get_fuse jf' (of_nat k) = jedec_get_fuse jf (of_nat k))))"
proof -
  let ?copied = "\<lambda>s'. \<exists>out jf' g'. disk s' = (disk s)\<lparr>files := (files (disk s))(dst \<mapsto> out)\<rparr> \<and>
        jed_readFile junk jed_globals_init (jed_init junk') (Some out) = Inr (0, jf', g') \<and>
        (\<forall>k < 108 * 108 * D. jedec_get_fuse jf' (of_nat k) = jedec_get_fuse jf (of_nat k))"
  let ?Q = "\<lambda>ret s'. (says_done ans \<longrightarrow> ret = 0) \<and> (ret = 0 \<longrightarrow> ?copied s')"
  let ?file = "xc95x_file E erase_first device D"
  have args: "fwp (fargs ?file [(0, src @ [58, 119]), (1, dst @ [58, 114])]) (\<lambda>r s'. ?Q (returned r) s') s1"
    if s1: "on_device (cpld_dev D ans) q s1" "cwords q = cwords p" "disk s1 = disk s" "jglob s1 = jglob s" for q s1
  proof -
    have w: "fwp (?file (0, src @ [58, 119])) (\<lambda>r s'. written D m jf r s' \<and> (says_done ans \<longrightarrow> r = None) \<and> disk s' = disk s1) s1"
      using assms(7,8,9,16) s1 by (intro write_file [OF assms(6) _ _ _ s1(1) assms(15)]) simp_all
    have rest: "fwp (case r of None \<Rightarrow> fargs ?file [(1, dst @ [58, 114])] | Some r \<Rightarrow> fret (Some r)) (\<lambda>r s'. ?Q (returned r) s') s2"
      if s2: "written D m jf r s2 \<and> (says_done ans \<longrightarrow> r = None) \<and> disk s2 = disk s1" for r s2
    proof (cases r)
      case None
      then obtain q' where q': "on_device (cpld_mem D m) q' s2" "words_stored D (mem_after m (cwords q'))"
        "\<forall>u < xc95x_words. xc95x_agree D jf (mem_after m (cwords q')) u"
        using s2 by (auto simp: written_def)
      have d: "disk s2 = disk s" using s2 s1(3) by simp
      have "fwp (?file (1, dst @ [58, 114])) (\<lambda>r s'. r = None \<and> ?copied s') s2"
        using read_file [OF assms(1,3-5,10) _ _ assms(13) q' assms(9), of erase_first junk junk'] assms(11,12) unfolding d by simp
      then have "fwp (fargs ?file [(1, dst @ [58, 114])]) (\<lambda>r s'. r = None \<and> ?copied s') s2"
        unfolding fargs.simps by (intro fwp_bind) (erule fwp_mono, auto intro: fwp_ret)
      then show ?thesis unfolding None option.case by (rule fwp_mono) (simp add: returned_def)
    next
      case (Some e)
      then show ?thesis using s2 by (auto intro!: fwp_ret simp: returned_def written_def)
    qed
    show ?thesis unfolding fargs.simps(2) [of ?file "(0, src @ [58, 119])"] by (rule fwp_bind [OF fwp_mono [OF w rest]])
  qed
  have "fwp (programXC95X E i erase_first device [src @ [58, 119], dst @ [58, 114]]) ?Q s"
    unfolding programXC95X_def Let_def assms(2)
  proof (rule fwp_bind [OF fwp_mono [OF erase_device [OF assms(14)]]], elim exE conjE)
    fix u :: int and s1 q
    assume "on_device (cpld_dev D ans) q s1" "cwords q = cwords p" "disk s1 = disk s" "jglob s1 = jglob s"
    from args [OF this] show "fwp (fbind (fargs ?file (List.enumerate 0 [src @ [58, 119], dst @ [58, 114]])) (\<lambda>r. fret (returned r))) ?Q s1"
      by (intro fwp_bind) (simp add: enumerate_simps, erule fwp_mono, rule fwp_ret)
  qed
  then show ?thesis by (auto simp: fwp_def)
qed

text \<open>A XC9536XL that answers as it should, written from a file of example fuses.\<close>

definition example_surroundings :: surroundings where
  "example_surroundings = \<lparr>fresh_mem = \<lambda>_. 0, fresh32 = 0, bit_clock = None, jed_clock = None, mapdir_env = None, poll_limit = 0\<rparr>"

definition xc9536xl_session :: "byte list \<Rightarrow> session" where
  "xc9536xl_session bs =
     \<lparr>disk = \<lparr>files = (\<lambda>n. if n = ascii ''a.jed'' then Some bs else None), writable = \<lambda>_. True, stdout = []\<rparr>,
      jglob = jed_globals_init,
      sdevs = [\<lparr>dev_id = 0x09602093, dev_irlen = 8, dev_link = \<lparr>hist = [], replies = cpld_replies 2\<rparr>\<rparr>], ssel = 0, jcalls = []\<rparr>"

lemma example_fuses_size: "jed_fuses example_fuses (map of_nat [0..<2916])"
  by (simp add: jed_fuses_def example_fuses_def nbytes_def)

lemma example_frame: "jed_frame example_fuses = (Some (nbytes (108 * 108 * 2)), jversion (jed_init (\<lambda>_. 0)), jdate (jed_init (\<lambda>_. 0)))"
  by (simp add: jed_frame_def example_fuses_def nbytes_def jed_init_def Let_def)

lemma xc9536xl_names:
  "jed_type_of (ascii ''XC9536XL'') = Some (JED_XC95X 2)" "note_word (ascii ''XC9536XL'')"
  "file_name (ascii ''a.jed'')" "file_name (ascii ''b.jed'')" "ascii ''b.jed'' \<noteq> ascii ''a.jed''"
  "\<not> strcasecmp_eq (ascii ''b.jed'') (ascii ''stdout'')"
  by (code_simp, code_simp, code_simp, code_simp, code_simp, code_simp)

theorem xc95x_files_roundtrip_witness:
  "\<exists>bs s' out jf' g'. saveAsJed None (ascii ''XC9536XL'') example_fuses = Inr bs \<and>
     programXC95X example_surroundings 0x09602093 False (ascii ''XC9536XL'')
       [ascii ''a.jed'' @ [58, 119], ascii ''b.jed'' @ [58, 114]] (xc9536xl_session bs) = (Inr 0, s') \<and>
     files (disk s') (ascii ''b.jed'') = Some out \<and>
     jed_readFile 0 jed_globals_init (jed_init (\<lambda>_. 0)) (Some out) = Inr (0, jf', g') \<and>
     (\<forall>k < 23328. jedec_get_fuse jf' (of_nat k) = jedec_get_fuse example_fuses (of_nat k))"
proof -
  let ?E = example_surroundings and ?dev = "ascii ''XC9536XL''"
  have E: "fresh_mem ?E = (\<lambda>_. 0)" "fresh32 ?E = 0" "jed_clock ?E = None" by (simp_all add: example_surroundings_def)
  have lines: "lines_complete (JED_XC95X 2) (unat (fuse_count example_fuses))"
    using part_lines [of 2] by (simp add: example_fuses_def)
  have words: "note_word (c_string (jversion example_fuses) 0)" "date_fits (date_text None example_fuses)"
    using read_object_fuses(2) [OF _ example_fuses_ok example_frame] read_object_fuses(3) [OF _ example_fuses_ok example_frame, of None]
    by (simp_all add: date_fits_def)
  obtain bs jf g where bs: "saveAsJed None ?dev example_fuses = Inr bs"
    "jed_readFile 0 jed_globals_init (jed_init (\<lambda>_. 0)) (Some bs) = Inr (0, jf, g)"
    "fuse_count jf = fuse_count example_fuses" "fuse_list jf = fuse_list example_fuses"
    using jed_save_read [OF example_fuses_size xc9536xl_names(1) lines xc9536xl_names(2) words, of 0 "\<lambda>_. 0"] by metis
  let ?s = "xc9536xl_session bs"
  have jf: "jed_ok (108 * 108 * 2) jf" using example_fuses_ok bs(3,4) by (simp add: jed_ok_def)
  have part: "on_device (cpld_dev 2 (cpld_done 2)) cpld_init ?s"
    by (simp add: on_device_def selected_def sel_link_def xc9536xl_session_def cpld_replies_honest cpld_view_def)
  have D: "xc95x_init (unat (fresh32 ?E)) (uint (drop_bit 13 ((0x09602093 :: u32) AND 0x000ff000))) = 2" by code_simp
  have disk: "files (disk ?s) (ascii ''a.jed'') = Some bs" "files (disk ?s) (ascii ''b.jed'') = None"
    "writable (disk ?s) (ascii ''b.jed'')" "jglob ?s = jed_globals_init"
    using xc9536xl_names(5) by (simp_all add: xc9536xl_session_def)
  have clock: "date_fits (map_option ((@) [58, 32]) (jed_clock ?E))" by (simp add: E date_fits_def)
  have read: "jed_readFile (fresh32 ?E) (jglob ?s) (jed_init (fresh_mem ?E)) (Some bs) = Inr (0, jf, g)"
    using bs(2) disk(4) E by simp
  from xc95x_files_roundtrip [OF _ D xc9536xl_names(1,2) clock xc9536xl_names(3) disk(1) read jf xc9536xl_names(4) disk(2,3)
      xc9536xl_names(6) part cpld_done(2) disjI1 [OF cpld_done(1)], of False 0 "\<lambda>_. 0"]
  obtain ret s' where r: "programXC95X ?E 0x09602093 False ?dev [ascii ''a.jed'' @ [58, 119], ascii ''b.jed'' @ [58, 114]] ?s = (Inr ret, s')"
    "ret = 0" "\<exists>out jf' g'. disk s' = (disk ?s)\<lparr>files := (files (disk ?s))(ascii ''b.jed'' \<mapsto> out)\<rparr> \<and>
        jed_readFile 0 jed_globals_init (jed_init (\<lambda>_. 0)) (Some out) = Inr (0, jf', g') \<and>
        (\<forall>k < 108 * 108 * 2. jedec_get_fuse jf' (of_nat k) = jedec_get_fuse jf (of_nat k))"
    using cpld_done(1) [of 2] by blast
  then obtain out jf' g' where out: "files (disk s') (ascii ''b.jed'') = Some out"
    "jed_readFile 0 jed_globals_init (jed_init (\<lambda>_. 0)) (Some out) = Inr (0, jf', g')"
    "\<forall>k < 108 * 108 * 2. jedec_get_fuse jf' (of_nat k) = jedec_get_fuse jf (of_nat k)" by auto
  moreover have "jedec_get_fuse jf i = jedec_get_fuse example_fuses i" for i using bs(3,4) by (simp add: jedec_get_fuse_def)
  ultimately show ?thesis using bs(1) r(1,2) by (intro exI conjI) (assumption | simp)+
qed

end
