(* ===== verification/FlowXCFProps.thy ===== *)
theory FlowXCFProps
  imports FlowXCF
begin

text \<open>
  How \<^verbatim>\<open>programXCF\<close> distributes a file over several Platform Flash: the loop with its unsigned
  arithmetic computes what a recursion over the bytes of the file does.
\<close>

section \<open>Sizes\<close>

text \<open>All parts have a whole number of bytes, at most four megabytes.\<close>

definition prom_bytes :: "progalg \<Rightarrow> nat" where
  "prom_bytes alg = getSize alg div 8"

lemma fold_option_narray: "narray (fold xcfp_option opts p) = narray p"
  by (induction opts arbitrary: p) (simp_all add: xcfp_option_def)

lemma prom_bytes_range:
  assumes "makeProgAlg i opts = Inr alg"
  shows "0 < prom_bytes alg" "prom_bytes alg \<le> 2 ^ 22" "of_nat (getSize alg) div (8 :: u32) = of_nat (prom_bytes alg)"
proof -
  have "8 \<le> getSize alg \<and> getSize alg \<le> 2 ^ 25"
    using assms
    by (auto simp: makeProgAlg_def rbind_Inr_iff xcf_init_def xcfp_init_def Let_def xcf_alg_def xcfp_alg_def
        xcfp_getSize_def xcfp_block_def fold_option_narray split: if_splits)
  then show "0 < prom_bytes alg" "prom_bytes alg \<le> 2 ^ 22" "of_nat (getSize alg) div (8 :: u32) = of_nat (prom_bytes alg)"
    by (simp_all add: prom_bytes_def word_arith_nat_div unsigned_of_nat take_bit_eq_mod div_le_dividend div_greater_zero_iff
        less_eq_div_iff_mult_less_eq flip: Suc_le_eq) linarith
qed

lemma fbind_simps [simp]:
  "fbind (fret x) f = f x" "fbind (flift (Inr x)) f = f x" "fbind (flift (Inl e)) f = flift (Inl e)"
  "fbind (fbind m g) f = fbind m (\<lambda>x. fbind (g x) f)"
  by (auto simp: fbind_def fret_def flift_def fun_eq_iff split: prod.split sum.split)

lemma fbind_select_cong:
  assumes "\<And>alg. 0 < prom_bytes alg \<Longrightarrow> prom_bytes alg \<le> 2 ^ 22 \<Longrightarrow>
      of_nat (getSize alg) div (8 :: u32) = of_nat (prom_bytes alg) \<Longrightarrow> f alg = g alg"
  shows "fbind (select_prom opts k) f = fbind (select_prom opts k) g"
  using assms prom_bytes_range
  by (auto simp: select_prom_def fbind_def flift_def fun_eq_iff split: prod.split sum.split)

section \<open>The part of a device\<close>

lemma small_word: "n < 2 ^ 32 \<Longrightarrow> unat (of_nat n :: u32) = n"
  by (simp add: unsigned_of_nat take_bit_eq_mod)

lemma small_le: "m < 2 ^ 32 \<Longrightarrow> n < 2 ^ 32 \<Longrightarrow> (of_nat m :: u32) \<le> of_nat n \<longleftrightarrow> m \<le> n"
  by (simp add: word_le_nat_alt small_word)

lemma small_less: "m < 2 ^ 32 \<Longrightarrow> n < 2 ^ 32 \<Longrightarrow> (of_nat m :: u32) < of_nat n \<longleftrightarrow> m < n"
  by (simp add: word_less_nat_alt small_word)

lemma prom_part_nat:
  assumes "p + l < 2 ^ 32" "off + r < 2 ^ 32"
  shows "prom_part (of_nat p) (of_nat l) (of_nat off) (of_nat r) =
     (if p + l \<le> off then Before
      else if off + r \<le> p then Behind
      else Part (of_nat (off - p)) (of_nat (if off + r < p + l then off + r - max p off else 0)))"
proof -
  have c: "(if (of_nat p :: u32) < of_nat off then of_nat off - of_nat p else 0) = (of_nat (off - p) :: u32)"
    using assms by (simp add: small_less of_nat_diff)
  have e: "(of_nat off + of_nat r - of_nat p - of_nat (off - p) :: u32) = of_nat (off + r - max p off)" if "p < off + r"
    using that by (cases "p < off") (simp_all add: max_def of_nat_diff)
  have le: "(of_nat p + of_nat l :: u32) \<le> of_nat off \<longleftrightarrow> p + l \<le> off" "(of_nat off + of_nat r :: u32) \<le> of_nat p \<longleftrightarrow> off + r \<le> p"
    "(of_nat off + of_nat r :: u32) < of_nat p + of_nat l \<longleftrightarrow> off + r < p + l"
    using assms small_le [of "p + l" off] small_le [of "off + r" p] small_less [of "off + r" "p + l"] by simp_all
  show ?thesis unfolding prom_part_def c Let_def le using e by auto
qed

section \<open>The distribution\<close>

text \<open>The piece of the file for a device, as an object of its own; a piece that ends inside carries its length.\<close>

definition piece :: "byte list \<Rightarrow> bool \<Rightarrow> bitfile" where
  "piece bs partial = bitfile_init\<lparr>blength := length bs, buffer := bs, rlength := (if partial then length bs else 0)\<rparr>"

definition piece_do :: "progalg \<Rightarrow> byte \<Rightarrow> bitfile \<Rightarrow> int option fm" where
  "piece_do alg act bf =
     fbind (if c_tolower act = 119 then prom_write alg act bf else fret 0) (\<lambda>res.
       if res \<noteq> 0 then fret (Some res)
       else fbind (fcall (verify alg bf)) (\<lambda>_. fbind (fcall (disable alg)) (\<lambda>_. fret None)))"

text \<open>
  The bytes of the file go to the devices one after the other, as many to each as it has, from the
  device that starts at the offset on. An offset inside a device makes the copy start in front of the
  buffer, or fails the assertion when the piece is shorter than the offset.
\<close>

fun prom_split :: "byte list list \<Rightarrow> byte \<Rightarrow> int list \<Rightarrow> nat \<Rightarrow> byte list \<Rightarrow> int option fm" where
  "prom_split opts act [] off data = fret None"
| "prom_split opts act (k # ks) off data =
     fbind (select_prom opts k) (\<lambda>alg.
       let len = prom_bytes alg
       in if len \<le> off then prom_split opts act ks (off - len) data
          else if 0 < off
          then flift (Inl (if off \<le> min (len - off) (length data) then OutOfBounds 0 else Abort))
          else if data = [] then fret None
          else fbind (piece_do alg act (piece (take len data) (length data < len))) (\<lambda>r.
                 case r of Some res \<Rightarrow> fret (Some res) | None \<Rightarrow> prom_split opts act ks 0 (drop len data)))"

lemma fbind_if: "fbind (if b then m else m') f = (if b then fbind m f else fbind m' f)"
  by simp

lemma prom_do_piece:
  assumes "act \<noteq> 114" "p = 0 \<or> off \<le> p" "n = (if cr \<noteq> 0 then cr else l)"
    and "0 < n" "p - off + n \<le> getLength bf div 8" "p - off + n \<le> length (buffer bf)" "p < 2 ^ 32" "l \<le> 2 ^ 22" "cr \<le> l" "off \<le> p"
  shows "prom_do_part alg act True (of_nat off) (of_nat p) (of_nat l) 0 (of_nat cr) bf =
     fbind (piece_do alg act (piece (take n (drop (p - off) (buffer bf))) (cr \<noteq> 0))) (\<lambda>r.
       fret (case r of None \<Rightarrow> Inr bf | Some res \<Rightarrow> Inl res))"
proof -
  have sm: "cr < 2 ^ 29" "l < 2 ^ 29" "n < 2 ^ 29" "off < 2 ^ 32" using assms(3,7-10) by (auto split: if_splits)
  have L: "getLength bf div 8 < 2 ^ 29" by (simp add: getLength_def bits_of_def less_mult_imp_div_less)
  have u: "ulength bf div 8 = of_nat (getLength bf div 8)"
    by (simp add: ulength_def word_arith_nat_div unsigned_of_nat take_bit_eq_mod getLength_def bits_of_def)
  have nz: "(of_nat cr :: u32) = 0 \<longleftrightarrow> cr = 0" "(of_nat n :: u32) \<noteq> 0"
    using sm assms(4) small_word [of cr] small_word [of n] by (auto simp flip: unat_eq_zero)
  have n8: "unat (of_nat n * 8 :: u32) = 8 * n"
    using sm small_word [of "8 * n"] by (simp add: mult.commute)
  have cr8: "(of_nat cr * 8 :: u32) \<noteq> 0 \<longleftrightarrow> cr \<noteq> 0"
    using sm small_word [of "8 * cr"] by (auto simp: mult.commute simp flip: unat_eq_zero)
  have le: "of_nat p - of_nat off + of_nat n \<le> ulength bf div 8"
    using small_le [of "p - off + n" "getLength bf div 8"] assms(5,10) L unfolding u by (simp add: of_nat_diff algebra_simps)
  have at: "int (unat (of_nat p :: u32)) - int (unat (of_nat off :: u32)) = int (p - off)"
    using small_word [of p] small_word [of off] assms(7,10) sm by simp
  have nn: "(if (of_nat cr :: u32) \<noteq> 0 then of_nat cr else of_nat l - 0) = (of_nat n :: u32)" using assms(3) nz by simp
  define d where "d = take n (drop (p - off) (buffer bf))"
  have d: "length d = n" "buf_slice (buffer bf) (p - off) n = Inr d" "buf_store (replicate n 0xff) 0 d = Inr d"
    using assms(6) by (simp_all add: d_def buf_slice_def buf_store_def)
  have t: "setLength (8 * n) (set_range 0 (of_nat cr) bitfile_init)\<lparr>buffer := d\<rparr> = piece d (cr \<noteq> 0)"
    "buffer (setLength (8 * n) (set_range 0 (of_nat cr) bitfile_init)) = replicate n 0xff"
    using cr8 d(1) assms(3) sm small_word [of cr]
    by (auto simp: setLength_def set_range_def piece_def ulength_def getLength_def bitfile_init_def bits_of_def)
  have "copy_from_file (of_nat p) (of_nat off) (of_nat l) 0 (of_nat cr) bf (set_range 0 (of_nat cr) bitfile_init) =
      Inr (piece d (cr \<noteq> 0))"
    unfolding copy_from_file_def nn n8 at Let_def using le nz(2) d t sm small_word [of n] by simp
  then show ?thesis
    unfolding prom_do_part_def Let_def d_def using assms(1) by (simp add: piece_do_def fbind_if cong: if_cong)
qed

lemma prom_do_inside:
  assumes "act \<noteq> 114" "p < off" "off < p + l" "p + l < 2 ^ 32" "l \<le> 2 ^ 22"
    and "cr = (if off + r < p + l then r else 0)" "0 < r" "r \<le> getLength bf div 8"
  shows "prom_do_part alg act True (of_nat off) (of_nat p) (of_nat l) (of_nat (off - p)) (of_nat cr) bf =
     flift (Inl (if off - p \<le> min (l - (off - p)) r then OutOfBounds 0 else Abort))"
proof -
  let ?c = "off - p" and ?L = "getLength bf div 8"
  define n where "n = min (l - ?c) r"
  have L: "?L < 2 ^ 29" by (simp add: getLength_def bits_of_def less_mult_imp_div_less)
  have u: "ulength bf div 8 = of_nat ?L"
    by (simp add: ulength_def word_arith_nat_div unsigned_of_nat take_bit_eq_mod getLength_def bits_of_def)
  have r: "r < 2 ^ 32" using assms(8) L by simp
  have n: "0 < n" "n \<le> r" "n < 2 ^ 32" using assms(2,3,7) r by (auto simp: n_def)
  have cr: "cr < 2 ^ 32" "(of_nat cr :: u32) = 0 \<longleftrightarrow> cr = 0"
    using assms(6) r small_word [of cr] by (auto simp flip: unat_eq_zero)
  have nn: "(if (of_nat cr :: u32) \<noteq> 0 then of_nat cr else of_nat l - of_nat ?c) = (of_nat n :: u32)"
    using assms(2,3,6,7) cr(2) by (auto simp: n_def min_def of_nat_diff)
  have nz: "(of_nat n :: u32) \<noteq> 0" using n small_word [of n] by (auto simp flip: unat_eq_zero)
  have at: "int (unat (of_nat p :: u32)) - int (unat (of_nat off :: u32)) < 0"
    using small_word [of p] small_word [of off] assms(2-4) by simp
  have e: "(of_nat p - of_nat off + of_nat n :: u32) = of_nat n - of_nat ?c" using assms(2) by (simp add: of_nat_diff)
  have le: "of_nat p - of_nat off + of_nat n \<le> ulength bf div 8 \<longleftrightarrow> ?c \<le> n"
  proof (cases "?c \<le> n")
    case True
    then have "(of_nat n - of_nat ?c :: u32) = of_nat (n - ?c)" by (simp add: of_nat_diff)
    then show ?thesis using True small_le [of "n - ?c" ?L] n L assms(8) unfolding e u by simp
  next
    case False
    have w: "(of_nat n - of_nat ?c :: u32) = of_nat (2 ^ 32 - (?c - n))"
      using False assms(3,4) by (simp add: of_nat_diff)
    have "?L < 2 ^ 32 - (?c - n)" "2 ^ 32 - (?c - n) < (2 :: nat) ^ 32" using L False assms(3,5) by simp_all
    then have "\<not> (of_nat n - of_nat ?c :: u32) \<le> of_nat ?L"
      unfolding w using small_le [of "2 ^ 32 - (?c - n)" ?L] L by (simp only: not_le)
    then show ?thesis using False unfolding e u by blast
  qed
  have "copy_from_file (of_nat p) (of_nat off) (of_nat l) (of_nat ?c) (of_nat cr) bf t =
      Inl (if ?c \<le> n then OutOfBounds 0 else Abort)" for t
    unfolding copy_from_file_def nn Let_def le using nz at by simp
  then show ?thesis unfolding prom_do_part_def Let_def n_def using assms(1) by simp
qed

lemma prom_loop_split:
  assumes "act \<noteq> 114" "0 < r" "r \<le> getLength bf div 8" "r \<le> length (buffer bf)" "off + r < 2 ^ 32"
    and "p + length ks * 2 ^ 22 < 2 ^ 32"
  shows "prom_loop opts act True (of_nat off) (of_nat r) ks (of_nat p) bf =
     fbind (prom_split opts act ks (off - p) (drop (p - off) (take r (buffer bf)))) (\<lambda>r.
       fret (case r of None \<Rightarrow> Inr bf | Some res \<Rightarrow> Inl res))"
  using assms(6)
proof (induction ks arbitrary: p)
  case (Cons k ks)
  let ?data = "\<lambda>p. drop (p - off) (take r (buffer bf))" and ?tail = "\<lambda>r. fret (case r of None \<Rightarrow> Inr bf | Some res \<Rightarrow> Inl res)"
  show ?case
    unfolding prom_loop.simps prom_split.simps fbind_simps(4)
  proof (rule fbind_select_cong, unfold Let_def, goal_cases)
    case (1 alg)
    let ?l = "prom_bytes alg"
    have small: "p + ?l + length ks * 2 ^ 22 < 2 ^ 32" using Cons.prems 1(2) by simp
    note IH = Cons.IH [OF small]
    have part: "prom_part (of_nat p) (of_nat ?l) (of_nat off) (of_nat r) =
        (if p + ?l \<le> off then Before else if off + r \<le> p then Behind
         else Part (of_nat (off - p)) (of_nat (if off + r < p + ?l then off + r - max p off else 0)))"
      using small assms(5) by (intro prom_part_nat) simp_all
    have len: "length (?data p) = r - (p - off)" using assms(4) by simp
    consider "p + ?l \<le> off" | "off + r \<le> p" | "p < off" "off < p + ?l" | "off \<le> p" "p < off + r" by linarith
    then show ?case
    proof cases
      case 1
      moreover from 1 have "?l \<le> off - p" "off - (p + ?l) = off - p - ?l" by auto
      ultimately show ?thesis using part IH \<open>of_nat (getSize alg) div 8 = of_nat ?l\<close> by simp
    next
      case 2
      then show ?thesis using part 1 assms(2,4) \<open>of_nat (getSize alg) div 8 = of_nat ?l\<close> by simp
    next
      case 3
      then have "prom_part (of_nat p) (of_nat ?l) (of_nat off) (of_nat r) =
          Part (of_nat (off - p)) (of_nat (if off + r < p + ?l then r else 0))" "\<not> ?l \<le> off - p" "0 < off - p"
        "length (?data p) = r" using part len by auto
      moreover have "prom_do_part alg act True (of_nat off) (of_nat p) (of_nat ?l) (of_nat (off - p))
            (of_nat (if off + r < p + ?l then r else 0)) bf =
          flift (Inl (if off - p \<le> min (?l - (off - p)) r then OutOfBounds 0 else Abort))"
        using small by (intro prom_do_inside [OF assms(1) 3 _ 1(2) refl assms(2,3)]) simp
      ultimately show ?thesis unfolding 1(3) by (simp only: prom_part.case fbind_simps if_False if_True)
    next
      case 4
      let ?cr = "if off + r < p + ?l then off + r - p else 0" and ?n = "min ?l (r - (p - off))"
      have "?n = (if ?cr \<noteq> 0 then ?cr else ?l)" using 4 by auto
      then have "prom_do_part alg act True (of_nat off) (of_nat p) (of_nat ?l) 0 (of_nat ?cr) bf =
          fbind (piece_do alg act (piece (take ?n (drop (p - off) (buffer bf))) (?cr \<noteq> 0))) ?tail"
        using 4 1(1,2) assms(1,3,4) small by (intro prom_do_piece) auto
      moreover have "take ?n (drop (p - off) (buffer bf)) = take ?l (?data p)"
        by (simp add: drop_take min.commute)
      moreover have "(?cr \<noteq> 0) = (length (?data p) < ?l)" "?data p \<noteq> []" using 4 len by auto
      moreover have "drop ?l (?data p) = ?data (p + ?l)" using 4 by (simp add: add.commute)
      moreover have "prom_part (of_nat p) (of_nat ?l) (of_nat off) (of_nat r) = Part 0 (of_nat ?cr)" "\<not> ?l \<le> off - p" "\<not> 0 < off - p"
        using 4 1(1) part by auto
      moreover have "fbind (?tail x) (\<lambda>t. case t of Inl res \<Rightarrow> fret (Inl res)
            | Inr bf \<Rightarrow> prom_loop opts act True (of_nat off) (of_nat r) ks (of_nat p + of_nat ?l) bf) =
          fbind (case x of Some res \<Rightarrow> fret (Some res) | None \<Rightarrow> prom_split opts act ks 0 (?data (p + ?l))) ?tail" for x
        using IH 4 by (cases x) simp_all
      ultimately show ?thesis unfolding 1(3) by (simp only: prom_part.case fbind_simps(4) if_False)
    qed
  qed
qed simp

text \<open>
  C36. Writing or verifying a file over several Platform Flash: the loop of \<^verbatim>\<open>programXCF\<close>, with its unsigned
  arithmetic of 32 bits, is the recursion that hands the bytes of the range out to the devices in order,
  each one as many as it holds, from the device that starts at the offset on. When the offset is inside a
  device, nothing is written: the copy starts in front of the file's buffer, or an assertion fails.
\<close>

theorem programXCF_splits:
  assumes "act \<noteq> 114" "0 < rlen" "rlen \<le> ulength bf div 8" "unat rlen \<le> length (buffer bf)"
    and "unat off + unat rlen < 2 ^ 32" "length ks \<le> 9"
  shows "prom_loop xcfopts act True off rlen ks 0 bf =
     fbind (prom_split xcfopts act ks (unat off) (take (unat rlen) (buffer bf))) (\<lambda>r.
       fret (case r of None \<Rightarrow> Inr bf | Some res \<Rightarrow> Inl res))"
proof -
  have "getLength bf < 2 ^ 32" by (simp add: getLength_def bits_of_def)
  then have "unat (ulength bf div 8) = getLength bf div 8" by (simp add: ulength_def unat_div small_word)
  then have r: "0 < unat rlen" "unat rlen \<le> getLength bf div 8"
    using assms(2,3) by (simp_all add: word_le_nat_alt word_less_nat_alt)
  have "0 + length ks * 2 ^ 22 < (2 :: nat) ^ 32" using assms(6) by simp
  from prom_loop_split [OF assms(1) r assms(4,5) this, of xcfopts] show ?thesis by simp
qed

text \<open>Two XCF01S, and three bytes to be written from byte 1 on.\<close>

definition two_proms :: session where
  "two_proms =
     \<lparr>disk = \<lparr>files = \<lambda>_. None, writable = \<lambda>_. True, stdout = []\<rparr>, jglob = jed_globals_init,
      sdevs = replicate 2 \<lparr>dev_id = 0x05044093, dev_irlen = 8, dev_link = \<lparr>hist = [], replies = \<lambda>_. []\<rparr>\<rparr>, ssel = 0, jcalls = []\<rparr>"

lemma xcf01s: "makeProgAlg 0x05044093 [] = Inr (xcf_alg \<lparr>xblock = 2048, xsize = 2 ^ 20, use_optimized_algs = True\<rparr>)"
  by (simp add: makeProgAlg_def xcf_init_def Let_def)

theorem programXCF_splits_witness:
  "fst (prom_loop [] 119 True 1 3 [0, 1] 0 (piece [1, 2, 3] False) two_proms) = Inl (OutOfBounds 0)"
proof -
  let ?bf = "piece [1, 2, 3] False"
  have "ulength ?bf = 24" by (simp add: ulength_def piece_def getLength_def bits_of_def)
  then have "prom_loop [] 119 True 1 3 [0, 1] 0 ?bf =
     fbind (prom_split [] 119 [0, 1] 1 [1, 2, 3]) (\<lambda>r. fret (case r of None \<Rightarrow> Inr ?bf | Some res \<Rightarrow> Inl res))"
    using programXCF_splits [of 119 3 ?bf 1 "[0, 1]" "[]"] by (simp add: piece_def)
  moreover have "select_prom [] 0 two_proms =
      (Inr (xcf_alg \<lparr>xblock = 2048, xsize = 2 ^ 20, use_optimized_algs = True\<rparr>), two_proms)"
    by (simp add: select_prom_def select_id_def two_proms_def fbind_def flift_def xcf01s)
  ultimately show ?thesis
    by (simp add: fbind_def flift_def prom_bytes_def xcf_alg_def Let_def)
qed

end
