(* ===== verification/FlowSafety.thy ===== *)
theory FlowSafety
  imports Flows ProgXCFProps XCFPProps XC95XProps
begin

text \<open>
  Whole programming sessions obey the protocol of the class \<^verbatim>\<open>Jtag\<close>: all calls of a session in their order, over
  all files, selections of devices and algorithms, whatever the devices and the files hold.
\<close>

section \<open>Sessions that obey the protocol\<close>

text \<open>The calls begin after \<^verbatim>\<open>init_chain\<close>, which leaves the controllers in Test-Logic-Reset.\<close>

definition protocol_kept :: "session \<Rightarrow> bool" where
  "protocol_kept s \<longleftrightarrow> (\<exists>l. ops_run InReset (jcalls s) = Some l)"

text \<open>Moreover no data scan is open.\<close>

definition protocol_idle :: "session \<Rightarrow> bool" where
  "protocol_idle s \<longleftrightarrow> (\<exists>l. l \<noteq> OpenDR \<and> ops_run InReset (jcalls s) = Some l)"

definition keeps :: "'a fm \<Rightarrow> bool" where
  "keeps m \<longleftrightarrow> (\<forall>s r s'. protocol_idle s \<longrightarrow> m s = (r, s') \<longrightarrow>
     (case r of Inl _ \<Rightarrow> protocol_kept s' | Inr _ \<Rightarrow> protocol_idle s'))"

lemma protocol_idle_kept: "protocol_idle s \<Longrightarrow> protocol_kept s"
  by (auto simp: protocol_idle_def protocol_kept_def)

named_theorems keeps_intro \<open>rules for \<open>keeps\<close>\<close>

lemma keeps_ret [keeps_intro]: "keeps (fret x)"
  by (simp add: keeps_def fret_def)

lemma keeps_lift [keeps_intro]: "keeps (flift r)"
  by (simp add: keeps_def flift_def protocol_idle_kept split: sum.split)

lemma keeps_bind [keeps_intro]: "keeps m \<Longrightarrow> (\<And>x. keeps (f x)) \<Longrightarrow> keeps (fbind m f)"
  unfolding keeps_def
proof (intro allI impI)
  fix s r s'
  assume m: "\<forall>s r s'. protocol_idle s \<longrightarrow> m s = (r, s') \<longrightarrow> (case r of Inl _ \<Rightarrow> protocol_kept s' | Inr _ \<Rightarrow> protocol_idle s')"
    and f: "\<And>x. \<forall>s r s'. protocol_idle s \<longrightarrow> f x s = (r, s') \<longrightarrow> (case r of Inl _ \<Rightarrow> protocol_kept s' | Inr _ \<Rightarrow> protocol_idle s')"
    and run: "protocol_idle s" "fbind m f s = (r, s')"
  obtain r1 s1 where m1: "m s = (r1, s1)" by (cases "m s")
  show "case r of Inl _ \<Rightarrow> protocol_kept s' | Inr _ \<Rightarrow> protocol_idle s'"
  proof (cases r1)
    case (Inl e)
    then show ?thesis using m run m1 by (fastforce simp: fbind_def)
  next
    case (Inr x)
    then have "protocol_idle s1" "f x s1 = (r, s')" using m run m1 by (fastforce simp: fbind_def)+
    then show ?thesis using f by blast
  qed
qed

lemma keeps_lift_bind: "(\<And>x. r = Inr x \<Longrightarrow> keeps (f x)) \<Longrightarrow> keeps (fbind (flift r) f)"
  by (cases r) (simp_all add: keeps_def fbind_def flift_def protocol_idle_kept)

lemma keeps_if [keeps_intro]: "(b \<Longrightarrow> keeps m) \<Longrightarrow> (\<not> b \<Longrightarrow> keeps m') \<Longrightarrow> keeps (if b then m else m')"
  by simp

lemma keeps_option [keeps_intro]: "(x = None \<Longrightarrow> keeps m) \<Longrightarrow> (\<And>y. x = Some y \<Longrightarrow> keeps (f y)) \<Longrightarrow> keeps (case x of None \<Rightarrow> m | Some y \<Rightarrow> f y)"
  by (cases x) simp_all

lemma keeps_sum [keeps_intro]: "(\<And>a. keeps (f a)) \<Longrightarrow> (\<And>b. keeps (g b)) \<Longrightarrow> keeps (case x of Inl a \<Rightarrow> f a | Inr b \<Rightarrow> g b)"
  by (cases x) simp_all

lemma keeps_prod [keeps_intro]: "(\<And>a b. keeps (f a b)) \<Longrightarrow> keeps (case p of (a, b) \<Rightarrow> f a b)"
  by (cases p) simp

lemma keeps_let [keeps_intro]: "(\<And>x. keeps (f x)) \<Longrightarrow> keeps (let x = y in f x)"
  by simp

lemma keeps_args [keeps_intro]: "(\<And>a. keeps (f a)) \<Longrightarrow> keeps (fargs f as)"
  by (induction as) (auto intro!: keeps_intro)

text \<open>Statements that make no calls: files, and the choice of a device.\<close>

lemma keeps_same:
  assumes "\<And>s. jcalls (snd (m s)) = jcalls s"
  shows "keeps m"
  unfolding keeps_def
proof (intro allI impI)
  fix s r s' assume idle: "protocol_idle s" and run: "m s = (r, s')"
  then have "jcalls s' = jcalls s" using assms [of s] by simp
  then have "protocol_idle s'" using idle by (simp add: protocol_idle_def)
  then show "case r of Inl _ \<Rightarrow> protocol_kept s' | Inr _ \<Rightarrow> protocol_idle s'"
    by (cases r) (simp_all add: protocol_idle_kept)
qed

lemma keeps_files [keeps_intro]:
  "keeps (file_arg arg style sec)" "keeps (read_bits E bf h style)" "keeps (read_jed E jf h)"
  "keeps (save_bits E style device h bf)" "keeps (save_jed E device h jf)"
  by (rule keeps_same, simp add: file_arg_def read_bits_def read_jed_def save_bits_def save_jed_def
      split: sum.split prod.split)+

lemma keeps_select_id [keeps_intro]: "keeps (select_id pos)"
  by (rule keeps_same) (simp add: select_id_def Let_def)

text \<open>
  The calls of an algorithm that obeys the protocol, made for the device that is selected: they go on where
  the calls of the session, for whichever device, have left the link.
\<close>

lemma keeps_dev [keeps_intro]:
  assumes "\<And>n l. l \<noteq> OpenDR \<Longrightarrow> obeys l (m n)"
  shows "keeps (fdev m)"
  unfolding keeps_def
proof (intro allI impI)
  fix s r' s' assume idle: "protocol_idle s" and run: "fdev m s = (r', s')"
  show "case r' of Inl _ \<Rightarrow> protocol_kept s' | Inr _ \<Rightarrow> protocol_idle s'"
  proof (cases "0 \<le> ssel s \<and> nat (ssel s) < length (sdevs s)")
    case True
    let ?d = "sdevs s ! nat (ssel s)"
    obtain r k where m: "m (dev_irlen ?d) (dev_link ?d) = (r, k)" by (cases "m (dev_irlen ?d) (dev_link ?d)")
    obtain l where l: "l \<noteq> OpenDR" "ops_run InReset (jcalls s) = Some l" using idle by (auto simp: protocol_idle_def)
    obtain cs l1 where cs: "hist k = hist (dev_link ?d) @ cs" "ops_run l cs = Some l1" "\<And>x. r = Inr x \<Longrightarrow> l1 \<noteq> OpenDR"
      using assms [OF l(1), of "dev_irlen ?d"] m unfolding obeys_def by (metis fst_conv snd_conv)
    have "r' = r" "jcalls s' = jcalls s @ cs" using run True m cs(1) by (auto simp: fdev_def Let_def)
    moreover have "ops_run InReset (jcalls s @ cs) = Some l1" using l(2) cs(2) by (simp add: ops_run_append)
    ultimately show ?thesis using cs(3) by (cases r) (simp_all add: protocol_idle_def protocol_kept_def)
  next
    case False
    then show ?thesis using run idle protocol_idle_kept by (auto simp: fdev_def)
  qed
qed

section \<open>Platform Flash\<close>

text \<open>The algorithm that \<^verbatim>\<open>makeProgAlg\<close> makes obeys the protocol.\<close>

definition alg_obeys :: "progalg \<Rightarrow> bool" where
  "alg_obeys alg \<longleftrightarrow> (\<forall>l bf. l \<noteq> OpenDR \<longrightarrow> obeys l (erase alg) \<and> obeys l (program alg bf) \<and> obeys l (verify alg bf) \<and>
     obeys l (read alg bf) \<and> obeys l (reconfig alg) \<and> obeys l (disable alg))"

lemma makeProgAlg_obeys: "makeProgAlg i opts = Inr alg \<Longrightarrow> alg_obeys alg"
  unfolding makeProgAlg_def
  by (auto simp: rbind_Inr_iff alg_obeys_def split: if_splits dest!: xcf_init_ok
      intro: xcf_protocol.erase_obeys xcf_protocol.program_obeys xcf_protocol.verify_obeys xcf_protocol.read_obeys xcf_protocol.ends_obey
        xcfp_protocol.erase_obeys xcfp_protocol.program_obeys xcfp_protocol.verify_obeys xcfp_protocol.read_obeys xcfp_protocol.ends_obey)

lemma keeps_select_prom:
  assumes "\<And>alg. alg_obeys alg \<Longrightarrow> keeps (f alg)"
  shows "keeps (fbind (select_prom opts k) f)"
proof -
  have "fbind (select_prom opts k) f = fbind (select_id k) (\<lambda>i. fbind (flift (makeProgAlg i opts)) f)"
    by (auto simp: select_prom_def fbind_def fun_eq_iff split: prod.split sum.split)
  then show ?thesis
    using assms makeProgAlg_obeys by (auto intro!: keeps_intro keeps_lift_bind)
qed

lemma keeps_prom_part:
  assumes "alg_obeys alg"
  shows "keeps (prom_do_part alg act many off pos len coff crlen bf)"
  using assms unfolding prom_do_part_def prom_write_def Let_def alg_obeys_def
  by (intro keeps_intro) simp_all

lemma keeps_prom_loop: "keeps (prom_loop opts act many off rlen ks pos bf)"
proof (induction ks arbitrary: pos bf)
  case (Cons k ks)
  have "keeps (case x of Before \<Rightarrow> prom_loop opts act many off rlen ks p bf | Behind \<Rightarrow> fret (Inr bf)
      | Part coff crlen \<Rightarrow> fbind (prom_do_part alg act many off pos len coff crlen bf)
          (\<lambda>r. case r of Inl res \<Rightarrow> fret (Inl res) | Inr bf \<Rightarrow> prom_loop opts act many off rlen ks p bf))"
    if "alg_obeys alg" for alg x p len
    using that Cons.IH by (cases x) (auto intro!: keeps_intro keeps_prom_part)
  then show ?case by (simp add: Let_def keeps_select_prom)
qed (simp add: keeps_ret)

lemma keeps_prom_sizes: "keeps (prom_sizes opts ks tot)"
  by (induction ks arbitrary: tot) (auto intro!: keeps_intro)

lemma keeps_prom_erase_all: "keeps (prom_erase_all opts ks)"
proof (induction ks)
  case (Cons k ks)
  then show ?case by (auto intro!: keeps_select_prom keeps_intro simp: alg_obeys_def)
qed (simp add: keeps_ret)

lemma keeps_prom_file: "keeps (prom_file E opts device ks tot arg)"
  unfolding prom_file_def prom_load_def Let_def by (intro keeps_intro keeps_prom_loop)

lemma keepsD:
  assumes "keeps m" "protocol_idle s" "m s = (r, s')"
  shows "protocol_kept s' \<and> (\<forall>x. r = Inr x \<longrightarrow> protocol_idle s')"
  using assms protocol_idle_kept [of s'] unfolding keeps_def by (cases r) fastforce+

section \<open>XC9500XL\<close>

lemma keeps_xc95x_file: "keeps (xc95x_file E erase_first device D a)"
  unfolding xc95x_file_def Let_def
  by (intro keeps_intro) (simp_all add: obeys_xc95x_erase obeys_xc95x_program obeys_xc95x_verify obeys_xc95x_read)

section \<open>The sessions\<close>

text \<open>
  C37. Programming Platform Flash and XC9500XL parts: whatever the files, the options and the answers of
  the devices, all calls of \<^verbatim>\<open>programXCF\<close> and \<^verbatim>\<open>programXC95X\<close>, in the order in which they are made and across the
  choice of one device after another, obey the protocol of \<^verbatim>\<open>Jtag\<close>, also when the function ends with an
  exception, an assertion or an exit; when it returns, no data scan is left open.
\<close>

theorem program_sessions_obey:
  assumes "protocol_idle s"
    and "m \<in> {programXCF E erase_first reconfigure device chainpositions n opts args, programXC95X E i erase_first device args}"
    and "m s = (r, s')"
  shows "protocol_kept s' \<and> (\<forall>x. r = Inr x \<longrightarrow> protocol_idle s')"
proof -
  have "keeps (programXCF E erase_first reconfigure device chainpositions n opts args)"
    unfolding programXCF_def Let_def
    by (intro keeps_intro keeps_prom_sizes keeps_prom_erase_all keeps_prom_file keeps_select_prom) (simp add: alg_obeys_def)
  moreover have "keeps (programXC95X E i erase_first device args)"
    unfolding programXC95X_def Let_def by (intro keeps_intro keeps_xc95x_file) (simp add: obeys_xc95x_erase)
  ultimately show ?thesis using assms keepsD by blast
qed

text \<open>A chain of one XCF01S that is told to configure the FPGA.\<close>

definition one_prom :: session where
  "one_prom =
     \<lparr>disk = \<lparr>files = \<lambda>_. None, writable = \<lambda>_. True, stdout = []\<rparr>, jglob = jed_globals_init,
      sdevs = [\<lparr>dev_id = 0x05044093, dev_irlen = 8, dev_link = \<lparr>hist = [], replies = \<lambda>_. [4]\<rparr>\<rparr>], ssel = 0, jcalls = []\<rparr>"

definition no_surroundings :: surroundings where
  "no_surroundings = \<lparr>fresh_mem = \<lambda>_. 0, fresh32 = 0, bit_clock = None, jed_clock = None, mapdir_env = None, poll_limit = 0\<rparr>"

lemma one_prom_reconfigured: "fst (programXCF no_surroundings False True [] [0] 1 [] [] one_prom) = Inr 0"
proof -
  have alg: "makeProgAlg 0x05044093 [] = Inr (xcf_alg \<lparr>xblock = 2048, xsize = 2 ^ 20, use_optimized_algs = True\<rparr>)"
    by (simp add: makeProgAlg_def xcf_init_def Let_def)
  have family: "IDCODE_TO_MANUFACTURER 0x05044093 = MANUFACTURER_XILINX" "IDCODE_TO_FAMILY 0x05044093 = FAMILY_XCF"
    by (simp_all add: IDCODE_TO_MANUFACTURER_def IDCODE_TO_FAMILY_def MANUFACTURER_XILINX_def FAMILY_XCF_def)
  show ?thesis
    by (simp add: programXCF_def one_prom_def select_id_def select_prom_def fbind_def flift_def fret_def fdev_def
        alg family xcf_alg_def xcf_reconfig_def jbind_def jshiftIR_def jcycleTCK_def jreset_def jdo_def jcall_def jret_def)
qed

theorem program_sessions_obey_witness:
  "\<exists>s'. programXCF no_surroundings False True [] [0] 1 [] [] one_prom = (Inr 0, s') \<and> protocol_idle s'"
proof -
  obtain s' where s': "programXCF no_surroundings False True [] [0] 1 [] [] one_prom = (Inr 0, s')"
    using one_prom_reconfigured by (metis prod.collapse)
  have "protocol_idle one_prom" by (simp add: protocol_idle_def one_prom_def)
  from program_sessions_obey [OF this insertI1 s'] s' show ?thesis by blast
qed

end
