(* ===== verification/FlowXC2CProps.thy ===== *)
theory FlowXC2CProps
  imports Flows FlowSpec
begin

text \<open>
  \<^verbatim>\<open>programXC2C\<close> with a fuse map: only JEDEC files get to the part.
\<close>

definition untouched :: "session \<Rightarrow> session \<Rightarrow> bool" where
  "untouched s s' \<longleftrightarrow> sdevs s' = sdevs s \<and> ssel s' = ssel s \<and> jcalls s' = jcalls s"

lemma empty_name: "c_string (jdevice (jed_init junk)) 0 = []"
  by (simp add: jed_init_def Let_def c_string_def MAX_SIZE_def upt_rec)

lemma strncmp_empty: "c_string device 0 \<noteq> [] \<Longrightarrow> c_string name 0 = [] \<Longrightarrow> \<not> strncmp_eq 7 device name"
proof -
  assume "c_string device 0 \<noteq> []" "c_string name 0 = []"
  moreover from this have "hd (c_string device 0) \<noteq> 0"
    using hd_in_set [of "c_string device 0"] set_takeWhileD [of "hd (c_string device 0)" "\<lambda>b. b \<noteq> 0" "drop 0 device"]
    by (simp add: c_string_def)
  ultimately show ?thesis by (cases "c_string device 0") (auto simp: strncmp_eq_def)
qed

text \<open>
  With a fuse map at hand, \<^verbatim>\<open>programXC2C\<close> compares the device with the name in the JEDEC object even when
  the file was read as a bit file: such a file, to be verified or written, ends with the result 2 or 3, or the
  exception of its reader, and no call is made to any device.
\<close>

theorem xc2c_map_needs_jedec:
  assumes "load_map E mapdir device s = (Inr (Some mf), s)" "c_string device 0 \<noteq> []"
    and "file_arg arg STYLE_JEDEC 0 s = (Inr (fp, sp), s1)" "fstyle sp \<noteq> STYLE_JEDEC" "faction sp \<in> {118, 119, 87}"
    and "programXC2C E i False mapdir device [arg] s = (r, s')"
  shows "untouched s s' \<and> (r \<in> {Inr 2, Inr 3} \<or> (\<exists>e. r = Inl e))"
proof -
  have same: "untouched s s1"
    using assms(3) by (auto simp: file_arg_def untouched_def split: sum.splits)
  have act: "faction sp \<noteq> 114" "faction sp = 118 \<or> c_tolower (faction sp) = 119"
    using assms(5) by (auto simp: c_tolower_def)
  show ?thesis
    using assms(1,3,4,6) same act strncmp_empty [OF assms(2) empty_name]
    by (auto simp: programXC2C_def fbind_def fret_def xc2c_file_def xc2c_load_def read_bits_def Let_def returned_def
        split: sum.splits prod.splits if_splits)
qed

text \<open>A bit file for an XC2C64 whose map is on disk.\<close>

definition xc2c64_session :: session where
  "xc2c64_session =
     \<lparr>disk = \<lparr>files = (\<lambda>n. if n = ascii ''m/xc2c64.map'' \<or> n = ascii ''a.bit'' then Some [] else None), writable = \<lambda>_. True, stdout = []\<rparr>,
      jglob = jed_globals_init,
      sdevs = [\<lparr>dev_id = 0x06e5e093, dev_irlen = 8, dev_link = \<lparr>hist = [], replies = \<lambda>_. []\<rparr>\<rparr>], ssel = 0, jcalls = []\<rparr>"

theorem xc2c_map_needs_jedec_witness:
  "\<exists>r s'. programXC2C \<lparr>fresh_mem = \<lambda>_. 0, fresh32 = 0, bit_clock = None, jed_clock = None, mapdir_env = None, poll_limit = 0\<rparr>
       0x06e5e093 False (Some (ascii ''m'')) (ascii ''XC2C64'') [ascii ''a.bit:w:0:BIT''] xc2c64_session = (r, s') \<and>
     untouched xc2c64_session s' \<and> (r \<in> {Inr 2, Inr 3} \<or> (\<exists>e. r = Inl e))"
proof -
  let ?E = "\<lparr>fresh_mem = \<lambda>_. 0, fresh32 = 0, bit_clock = None, jed_clock = None, mapdir_env = None, poll_limit = 0\<rparr> :: surroundings"
    and ?dev = "ascii ''XC2C64''" and ?s = xc2c64_session
  have params: "map_params ?dev = Some (274, 96, ''xc2c64'')" by code_simp
  have name: "ascii ''m'' @ [47] @ ascii ''xc2c64'' @ ascii ''.map'' = ascii ''m/xc2c64.map''" by code_simp
  have "\<exists>mf. load_map ?E (Some (ascii ''m'')) ?dev ?s = (Inr (Some mf), ?s)"
    unfolding load_map_def loadmapfile_def params option.case prod.case Let_def name
    by (simp add: xc2c64_session_def readmap_def)
  then obtain mf where map: "load_map ?E (Some (ascii ''m'')) ?dev ?s = (Inr (Some mf), ?s)" by blast
  have spec: "parse_spec (ascii ''a.bit:w:0:BIT'') \<lparr>faction = 119, fsection = 0, foffset = 0, fstyle = STYLE_JEDEC, flength = 0\<rparr> =
      Inr (Some (ascii ''a.bit'', 119), \<lparr>faction = 119, fsection = 0, foffset = 0, fstyle = STYLE_BIT, flength = 0\<rparr>)" by code_simp
  have arg: "file_arg (ascii ''a.bit:w:0:BIT'') STYLE_JEDEC 0 ?s = (Inr (Reading (ascii ''a.bit''),
      \<lparr>faction = 119, fsection = 0, foffset = 0, fstyle = STYLE_BIT, flength = 0\<rparr>), ?s)"
    by (simp add: file_arg_def getFile_and_Attribute_from_name_def spec open_spec_def c_tolower_def xc2c64_session_def)
  have dev: "c_string ?dev 0 \<noteq> []" by code_simp
  obtain r s' where run: "programXC2C ?E 0x06e5e093 False (Some (ascii ''m'')) ?dev [ascii ''a.bit:w:0:BIT''] ?s = (r, s')"
    by (metis prod.collapse)
  from xc2c_map_needs_jedec [OF map dev arg _ _ run] run show ?thesis by simp
qed

end
