(* ===== verification/Parport.thy ===== *)
theory Parport
  imports Bitbang
begin

text \<open>
  \<^verbatim>\<open>ioparport.cpp\<close>: cables at a parallel port, the Xilinx Parallel Cable III and the Altera
  ByteBlaster. The port is reached through the operating system: the driver's state is the history
  of its accesses, and what the status and control registers read is a function of that history.
  The values of \<^verbatim>\<open>PARPORT_...\<close> are those of Linux. Failures of \<^verbatim>\<open>ioctl\<close> are ignored by the source;
  messages and the counter of the cycles are left out.
\<close>

datatype pp_ev = WriteData byte | ReadStatus | ReadControl | WriteControl byte

type_synonym pp_hist = "pp_ev list"

record pp_port =
  status :: "pp_hist \<Rightarrow> byte"
  control :: "pp_hist \<Rightarrow> byte"

record pp_cable =
  def_byte :: byte
  tdi_value :: byte
  tms_value :: byte
  tck_value :: byte
  tdo_mask :: byte
  tdo_inv :: bool

section \<open>Recognising the cable\<close>

definition NO_CABLE :: int where "NO_CABLE = 0"
definition IS_PCIII :: int where "IS_PCIII = 1"
definition IS_BBLST :: int where "IS_BBLST = 2"

abbreviation PARPORT_STATUS_ERROR :: byte where "PARPORT_STATUS_ERROR \<equiv> 0x08"
abbreviation PARPORT_STATUS_SELECT :: byte where "PARPORT_STATUS_SELECT \<equiv> 0x10"
abbreviation PARPORT_STATUS_PAPEROUT :: byte where "PARPORT_STATUS_PAPEROUT \<equiv> 0x20"
abbreviation PARPORT_STATUS_ACK :: byte where "PARPORT_STATUS_ACK \<equiv> 0x40"
abbreviation PARPORT_STATUS_BUSY :: byte where "PARPORT_STATUS_BUSY \<equiv> 0x80"

definition BBLST_ENABLE_N :: byte where "BBLST_ENABLE_N = 0x02"
definition BBLST_LB_OUT_VALUE :: byte where "BBLST_LB_OUT_VALUE = 0x80"
definition BBLST_ACK_OUT_VALUE :: byte where "BBLST_ACK_OUT_VALUE = 0x20"
definition PCIII_CHECK_OUT :: byte where "PCIII_CHECK_OUT = 0x40"

definition bblst :: pp_cable where
  "bblst = \<lparr>def_byte = 0, tdi_value = 0x40, tms_value = 0x02, tck_value = 0x01,
     tdo_mask = PARPORT_STATUS_BUSY, tdo_inv = True\<rparr>"

definition pciii :: pp_cable where
  "pciii = \<lparr>def_byte = 0x10, tdi_value = 0x01, tms_value = 0x04, tck_value = 0x02,
     tdo_mask = PARPORT_STATUS_SELECT, tdo_inv = False\<rparr>"

definition probe :: "pp_port \<Rightarrow> byte \<Rightarrow> pp_hist \<Rightarrow> byte \<times> pp_hist" where
  "probe port data h = (let h = h @ [WriteData data] in (status port h, h @ [ReadStatus]))"

definition toggle :: "byte \<Rightarrow> byte \<Rightarrow> byte" where
  "toggle v data = (if data AND v \<noteq> 0 then data AND NOT v else data OR v)"

text \<open>The conditions under which a step of the detection fails.\<close>

definition bblst_lb_missing :: "byte \<Rightarrow> byte \<Rightarrow> bool" where
  "bblst_lb_missing data st \<longleftrightarrow>
     data AND BBLST_LB_OUT_VALUE \<noteq> 0 \<and> st AND PARPORT_STATUS_PAPEROUT = 0 \<or>
     data AND BBLST_LB_OUT_VALUE = 0 \<and> st AND PARPORT_STATUS_PAPEROUT \<noteq> 0"

definition bblst_missing :: "byte \<Rightarrow> byte \<Rightarrow> bool" where
  "bblst_missing data st \<longleftrightarrow> bblst_lb_missing data st \<or>
     data AND BBLST_ACK_OUT_VALUE \<noteq> 0 \<and> st AND PARPORT_STATUS_ACK = 0 \<or>
     data AND BBLST_ACK_OUT_VALUE = 0 \<and> st AND PARPORT_STATUS_ACK \<noteq> 0"

definition pciii_missing :: "byte \<Rightarrow> byte \<Rightarrow> bool" where
  "pciii_missing data st \<longleftrightarrow>
     data AND PCIII_CHECK_OUT \<noteq> 0 \<and> st AND PARPORT_STATUS_BUSY \<noteq> 0 \<or>
     data AND PCIII_CHECK_OUT = 0 \<and> st AND PARPORT_STATUS_BUSY = 0 \<or>
     data AND PCIII_CHECK_OUT \<noteq> 0 \<and> st AND PARPORT_STATUS_PAPEROUT = 0 \<or>
     data AND PCIII_CHECK_OUT = 0 \<and> st AND PARPORT_STATUS_PAPEROUT \<noteq> 0"

text \<open>
  The further steps write the byte with one bit changed and fail when the status does not
  follow; \<open>vs\<close> are the bits in the order of the steps.
\<close>

fun permute :: "(byte \<Rightarrow> byte \<Rightarrow> bool) \<Rightarrow> pp_port \<Rightarrow> byte list \<Rightarrow> byte \<Rightarrow> pp_hist \<Rightarrow> bool \<times> pp_hist" where
  "permute missing port [] data h = (True, h)"
| "permute missing port (v # vs) data h =
     (let data = toggle v data; (st, h) = probe port data h
      in if missing data st then (False, h) else permute missing port vs data h)"

definition detectcable :: "pp_port \<Rightarrow> pp_cable \<Rightarrow> pp_hist \<Rightarrow> int \<times> pp_cable \<times> pp_hist" where
  "detectcable port c h =
     (let (st, h) = probe port 0 h; h = h @ [ReadControl]
      in if st = 0 \<or> st = 0xff then (NO_CABLE, c, h)
         else if st AND PARPORT_STATUS_ERROR = 0
         then if bblst_lb_missing 0 st then (NO_CABLE, c, h)
              else (case permute bblst_missing port
                           [BBLST_LB_OUT_VALUE, BBLST_ACK_OUT_VALUE, BBLST_LB_OUT_VALUE, BBLST_ACK_OUT_VALUE] 0 h of
                      (False, h) \<Rightarrow> (NO_CABLE, c, h)
                    | (True, h) \<Rightarrow>
                        (IS_BBLST, bblst, h @ [ReadControl, WriteControl (control port h OR BBLST_ENABLE_N)]))
         else if pciii_missing 0 st then (NO_CABLE, c, h)
         else (case permute pciii_missing port [PCIII_CHECK_OUT, PCIII_CHECK_OUT] 0 h of
                 (False, h) \<Rightarrow> (NO_CABLE, c, h)
               | (True, h) \<Rightarrow> (IS_PCIII, pciii, h)))"

text \<open>\<open>opened\<close>, \<open>claim\<close> and \<open>negot\<close> are the results of \<^verbatim>\<open>open\<close> and of the two calls of \<^verbatim>\<open>ioctl\<close>.\<close>

definition parport_Init :: "bool \<Rightarrow> int \<Rightarrow> int \<Rightarrow> pp_port \<Rightarrow> pp_cable \<Rightarrow> pp_hist \<Rightarrow> int \<times> int option \<times> pp_cable \<times> pp_hist" where
  "parport_Init opened claim negot port c h =
     (if \<not> opened then (-1, None, c, h)
      else if claim \<noteq> 0 then (claim, None, c, h)
      else if negot \<noteq> 0 then (negot, None, c, h)
      else let (cabletype, c, h) = detectcable port c h
           in (if cabletype = NO_CABLE then 1 else 0, Some cabletype, c, h))"

definition parport_delete :: "pp_port \<Rightarrow> int \<Rightarrow> pp_hist \<Rightarrow> pp_hist" where
  "parport_delete port cabletype h =
     (if cabletype = IS_BBLST
      then h @ [ReadControl, WriteControl (control port h AND NOT BBLST_ENABLE_N)] else h)"

section \<open>Transfers\<close>

definition pp_byte :: "pp_cable \<Rightarrow> bool \<Rightarrow> bool \<Rightarrow> byte" where
  "pp_byte c tms tdi =
     (let data = def_byte c;
          data = (if tdi then data OR tdi_value c else data)
      in if tms then data OR tms_value c else data)"

definition pp_tx :: "pp_cable \<Rightarrow> bool \<Rightarrow> bool \<Rightarrow> pp_hist \<Rightarrow> pp_hist" where
  "pp_tx c tms tdi h =
     (let data = pp_byte c tms tdi in h @ [WriteData data, WriteData (data OR tck_value c)])"

definition pp_txrx :: "pp_port \<Rightarrow> pp_cable \<Rightarrow> bool \<Rightarrow> bool \<Rightarrow> pp_hist \<Rightarrow> bool \<times> pp_hist" where
  "pp_txrx port c tms tdi h =
     (let data = pp_byte c tms tdi;
          h = h @ [WriteData data, WriteData (data OR tck_value c)];
          ret = status port h
      in (if ret AND tdo_mask c \<noteq> 0 then \<not> tdo_inv c else tdo_inv c, h @ [ReadStatus]))"

definition tx_tdi_byte :: "pp_cable \<Rightarrow> byte \<Rightarrow> pp_hist \<Rightarrow> pp_hist" where
  "tx_tdi_byte c tdi_byte h = fold (\<lambda>k. pp_tx c False (bit tdi_byte k)) [0..<8] h"

definition pp_low :: "pp_cable \<Rightarrow> pp_hist \<Rightarrow> pp_hist" where
  "pp_low c h = h @ [WriteData (def_byte c)]"

definition pp_txrx_block ::
  "pp_port \<Rightarrow> pp_cable \<Rightarrow> byte \<Rightarrow> byte list option \<Rightarrow> bool \<Rightarrow> nat \<Rightarrow> bool \<Rightarrow> pp_hist \<Rightarrow> byte list \<times> pp_hist" where
  "pp_txrx_block port c = bang_block (pp_txrx port c) (pp_low c)"

definition pp_tx_tms :: "pp_cable \<Rightarrow> byte list \<Rightarrow> nat \<Rightarrow> bool \<Rightarrow> pp_hist \<Rightarrow> pp_hist" where
  "pp_tx_tms c pat n force h = pp_low c (bang_tms (pp_tx c) pat 0 n 0 h)"

definition pp_driver :: "pp_port \<Rightarrow> pp_cable \<Rightarrow> byte \<Rightarrow> pp_hist io_driver" where
  "pp_driver port c junk = \<lparr>txrx_block = pp_txrx_block port c junk, tx_tms = pp_tx_tms c\<rparr>"

section \<open>What the port shows\<close>

fun pp_edges :: "pp_cable \<Rightarrow> bool \<Rightarrow> pp_hist \<Rightarrow> (bool \<times> bool) list" where
  "pp_edges c tck [] = []"
| "pp_edges c tck (WriteData d # h) =
     (if d AND tck_value c \<noteq> 0 \<and> \<not> tck then [(d AND tms_value c \<noteq> 0, d AND tdi_value c \<noteq> 0)] else [])
     @ pp_edges c (d AND tck_value c \<noteq> 0) h"
| "pp_edges c tck (ReadStatus # h) = pp_edges c tck h"
| "pp_edges c tck (ReadControl # h) = pp_edges c tck h"
| "pp_edges c tck (WriteControl b # h) = pp_edges c tck h"

definition pp_wire :: "pp_cable \<Rightarrow> pp_hist \<Rightarrow> (bool \<times> bool) list" where
  "pp_wire c h = pp_edges c False h"

text \<open>The levels of TDO that the reads of the status have shown.\<close>

definition pp_level :: "pp_cable \<Rightarrow> byte \<Rightarrow> bool" where
  "pp_level c st \<longleftrightarrow> (st AND tdo_mask c \<noteq> 0) \<noteq> tdo_inv c"

fun pp_replies_from :: "pp_port \<Rightarrow> pp_cable \<Rightarrow> pp_hist \<Rightarrow> pp_hist \<Rightarrow> bool list" where
  "pp_replies_from port c past [] = []"
| "pp_replies_from port c past (e # h) =
     (if e = ReadStatus then [pp_level c (status port past)] else [])
     @ pp_replies_from port c (past @ [e]) h"

definition pp_replies :: "pp_port \<Rightarrow> pp_cable \<Rightarrow> pp_hist \<Rightarrow> bool list" where
  "pp_replies port c h = pp_replies_from port c [] h"

text \<open>The bits of the three lines are apart, and none is in the default byte but the enable bit.\<close>

definition pp_apart :: "pp_cable \<Rightarrow> bool" where
  "pp_apart c \<longleftrightarrow> def_byte c AND tck_value c = 0 \<and>
     (\<forall>tms \<in> {True, False}. \<forall>tdi \<in> {True, False}. pp_byte c tms tdi AND tck_value c = 0 \<and>
        (let d = pp_byte c tms tdi OR tck_value c
         in d AND tck_value c \<noteq> 0 \<and> (d AND tms_value c \<noteq> 0) = tms \<and> (d AND tdi_value c \<noteq> 0) = tdi))"

lemma pp_apart_cables: "pp_apart pciii" "pp_apart bblst"
  by (code_simp, code_simp)

lemma pp_apart_byte:
  assumes "pp_apart c"
  shows "def_byte c AND tck_value c = 0" "pp_byte c tms tdi AND tck_value c = 0"
    "(pp_byte c tms tdi OR tck_value c) AND tck_value c \<noteq> 0"
    "((pp_byte c tms tdi OR tck_value c) AND tms_value c \<noteq> 0) = tms"
    "((pp_byte c tms tdi OR tck_value c) AND tdi_value c \<noteq> 0) = tdi"
proof -
  have "tms \<in> {True, False}" "tdi \<in> {True, False}" by auto
  with assms show "def_byte c AND tck_value c = 0" "pp_byte c tms tdi AND tck_value c = 0"
    "(pp_byte c tms tdi OR tck_value c) AND tck_value c \<noteq> 0"
    "((pp_byte c tms tdi OR tck_value c) AND tms_value c \<noteq> 0) = tms"
    "((pp_byte c tms tdi OR tck_value c) AND tdi_value c \<noteq> 0) = tdi"
    unfolding pp_apart_def Let_def by blast+
qed

lemma pp_edges_append:
  "\<exists>tck'. \<forall>t. pp_edges c tck (h @ t) = pp_edges c tck h @ pp_edges c tck' t"
  by (induction c tck h rule: pp_edges.induct) auto

lemma pp_wire_append:
  assumes "\<And>tck. pp_edges c tck t = e"
  shows "pp_wire c (h @ t) = pp_wire c h @ e"
  using pp_edges_append [of c False h] assms by (auto simp: pp_wire_def)

lemma pp_replies_append:
  "pp_replies_from port c past (h @ t) = pp_replies_from port c past h @ pp_replies_from port c (past @ h) t"
  by (induction h arbitrary: past) auto

lemma pp_cycle:
  assumes "pp_apart c"
  shows "bitbang (pp_txrx port c) (pp_tx c) (pp_low c) (pp_wire c) (pp_replies port c)"
proof
  fix tms tdi h
  note b = pp_apart_byte [OF assms]
  let ?d = "pp_byte c tms tdi"
  have e: "pp_edges c tck [WriteData ?d, WriteData (?d OR tck_value c)] = [(tms, tdi)]" for tck
    using b by simp
  then show "pp_wire c (pp_tx c tms tdi h) = pp_wire c h @ [(tms, tdi)]"
    unfolding pp_tx_def Let_def by (rule pp_wire_append)
  have "pp_edges c tck [WriteData ?d, WriteData (?d OR tck_value c), ReadStatus] = [(tms, tdi)]" for tck
    using b by simp
  then show "pp_wire c (snd (pp_txrx port c tms tdi h)) = pp_wire c h @ [(tms, tdi)]"
    unfolding pp_txrx_def Let_def snd_conv append_assoc append_Cons append_Nil by (rule pp_wire_append)
  show "pp_wire c (pp_low c h) = pp_wire c h"
    unfolding pp_low_def using b by (subst pp_wire_append [where e = "[]"]) simp_all
  show "pp_replies port c (pp_low c h) = pp_replies port c h"
    by (simp add: pp_low_def pp_replies_def pp_replies_append)
  show "pp_replies port c (snd (pp_txrx port c tms tdi h)) = pp_replies port c h @ [fst (pp_txrx port c tms tdi h)]"
    by (auto simp: pp_txrx_def pp_replies_def pp_replies_append pp_level_def Let_def)
qed

interpretation pciii_cycle:
  bitbang "pp_txrx port pciii" "pp_tx pciii" "pp_low pciii" "pp_wire pciii" "pp_replies port pciii" for port
  by (rule pp_cycle [OF pp_apart_cables(1)])

interpretation bblst_cycle:
  bitbang "pp_txrx port bblst" "pp_tx bblst" "pp_low bblst" "pp_wire bblst" "pp_replies port bblst" for port
  by (rule pp_cycle [OF pp_apart_cables(2)])

lemma pp_driver_bang: "pp_driver port c junk = bang_driver (pp_txrx port c) (pp_tx c) (pp_low c) junk"
  by (simp add: pp_driver_def bang_driver_def pp_txrx_block_def pp_tx_tms_def fun_eq_iff)

interpretation pciii: data_cable "pp_driver port pciii junk" "pp_wire pciii" for port junk
  unfolding pp_driver_bang by (rule pciii_cycle.is_data_cable)

interpretation bblst: data_cable "pp_driver port bblst junk" "pp_wire bblst" for port junk
  unfolding pp_driver_bang by (rule bblst_cycle.is_data_cable)

end
