(* ===== verification/ParportProps.thy ===== *)
theory ParportProps
  imports Parport
begin

text \<open>
  The parallel port cables: which cable is recognised on which wiring, and what a transfer through
  the cable that was recognised delivers in both directions.
\<close>

fun pp_data_of :: "byte \<Rightarrow> pp_ev \<Rightarrow> byte" where
  "pp_data_of d (WriteData b) = b"
| "pp_data_of d ReadStatus = d"
| "pp_data_of d ReadControl = d"
| "pp_data_of d (WriteControl b) = d"

definition data_pins :: "pp_hist \<Rightarrow> byte" where
  "data_pins h = foldl pp_data_of 0 h"

lemma data_pins_simps [simp]:
  "data_pins (h @ [WriteData b]) = b" "data_pins (h @ [ReadStatus]) = data_pins h"
  "data_pins (h @ [ReadControl]) = data_pins h"
  by (simp_all add: data_pins_def)

text \<open>
  The wiring that the schematics in the comments of the file show: the Xilinx cable returns D6 on
  PE and, inverted, on BUSY, the Altera cable returns D7 on PE and D5 on ACK and has nERR at ground.
\<close>

definition xilinx_wired :: "pp_port \<Rightarrow> bool" where
  "xilinx_wired port \<longleftrightarrow> (\<forall>h. status port h AND PARPORT_STATUS_ERROR \<noteq> 0 \<and>
     (status port h AND PARPORT_STATUS_PAPEROUT \<noteq> 0 \<longleftrightarrow> data_pins h AND PCIII_CHECK_OUT \<noteq> 0) \<and>
     (status port h AND PARPORT_STATUS_BUSY \<noteq> 0 \<longleftrightarrow> data_pins h AND PCIII_CHECK_OUT = 0))"

definition altera_wired :: "pp_port \<Rightarrow> bool" where
  "altera_wired port \<longleftrightarrow> (\<forall>h. status port h \<noteq> 0 \<and> status port h AND PARPORT_STATUS_ERROR = 0 \<and>
     (status port h AND PARPORT_STATUS_PAPEROUT \<noteq> 0 \<longleftrightarrow> data_pins h AND BBLST_LB_OUT_VALUE \<noteq> 0) \<and>
     (status port h AND PARPORT_STATUS_ACK \<noteq> 0 \<longleftrightarrow> data_pins h AND BBLST_ACK_OUT_VALUE \<noteq> 0))"

lemma permute_follows:
  assumes "\<And>h. \<not> missing (data_pins h) (status port h)"
  shows "fst (permute missing port vs data h)"
  using assms
proof (induction vs arbitrary: data h)
  case (Cons v vs)
  have "\<not> missing (toggle v data) (status port (h @ [WriteData (toggle v data)]))"
    using Cons.prems [of "h @ [WriteData (toggle v data)]"] by simp
  then show ?case using Cons by (simp add: probe_def Let_def)
qed simp

lemma permute_silent:
  assumes "missing (toggle v data) st" and "\<And>h. status port h = st"
  shows "permute missing port (v # vs) data h = (False, h @ [WriteData (toggle v data), ReadStatus])"
  using assms by (simp add: probe_def Let_def)

lemma xilinx_follows: "xilinx_wired port \<Longrightarrow> \<not> pciii_missing (data_pins h) (status port h)"
  unfolding xilinx_wired_def pciii_missing_def by blast

lemma altera_follows: "altera_wired port \<Longrightarrow> \<not> bblst_missing (data_pins h) (status port h)"
  unfolding altera_wired_def bblst_missing_def bblst_lb_missing_def by blast

lemma detect_xilinx:
  assumes "xilinx_wired port"
  shows "\<exists>h'. detectcable port c h = (IS_PCIII, pciii, h')"
proof -
  let ?h = "h @ [WriteData 0]" let ?st = "status port ?h"
  have st: "?st AND PARPORT_STATUS_ERROR \<noteq> 0" "?st AND PARPORT_STATUS_PAPEROUT = 0"
    using assms [unfolded xilinx_wired_def, rule_format, of ?h] by auto
  then have "?st \<noteq> 0" "?st \<noteq> 0xff" by auto
  moreover have "\<not> pciii_missing 0 ?st"
    using xilinx_follows [OF assms, of ?h] by simp
  moreover have "fst (permute pciii_missing port [PCIII_CHECK_OUT, PCIII_CHECK_OUT] 0 (?h @ [ReadStatus, ReadControl]))"
    by (rule permute_follows) (rule xilinx_follows [OF assms])
  ultimately show ?thesis
    using st(1) by (auto simp: detectcable_def probe_def Let_def simp del: permute.simps split: prod.splits bool.splits)
qed

lemma detect_altera:
  assumes "altera_wired port"
  shows "\<exists>h'. detectcable port c h = (IS_BBLST, bblst, h')"
proof -
  let ?h = "h @ [WriteData 0]" let ?st = "status port ?h"
  let ?vs = "[BBLST_LB_OUT_VALUE, BBLST_ACK_OUT_VALUE, BBLST_LB_OUT_VALUE, BBLST_ACK_OUT_VALUE]"
  have st: "?st AND PARPORT_STATUS_ERROR = 0" "?st \<noteq> 0"
    using assms [unfolded altera_wired_def, rule_format, of ?h] by auto
  then have "?st \<noteq> 0xff" by auto
  moreover have "\<not> bblst_lb_missing 0 ?st"
    using altera_follows [OF assms, of ?h] by (simp add: bblst_missing_def)
  moreover have "fst (permute bblst_missing port ?vs 0 (?h @ [ReadStatus, ReadControl]))"
    by (rule permute_follows) (rule altera_follows [OF assms])
  ultimately show ?thesis
    using st by (auto simp: detectcable_def probe_def Let_def simp del: permute.simps split: prod.splits bool.splits)
qed

text \<open>On a port that does not react no cable is found.\<close>

lemma detect_silent:
  assumes "\<And>h. status port h = st"
  shows "\<exists>h'. detectcable port c h = (NO_CABLE, c, h')"
proof -
  have b: "bblst_missing (toggle BBLST_LB_OUT_VALUE 0) st" if "\<not> bblst_lb_missing 0 st"
    using that unfolding bblst_missing_def bblst_lb_missing_def toggle_def BBLST_LB_OUT_VALUE_def by auto
  have p: "pciii_missing (toggle PCIII_CHECK_OUT 0) st" if "\<not> pciii_missing 0 st"
    using that unfolding pciii_missing_def toggle_def PCIII_CHECK_OUT_def by auto
  have silent: "\<not> bblst_lb_missing 0 st \<Longrightarrow> permute bblst_missing port (BBLST_LB_OUT_VALUE # vs) 0 h =
      (False, h @ [WriteData (toggle BBLST_LB_OUT_VALUE 0), ReadStatus])"
    "\<not> pciii_missing 0 st \<Longrightarrow> permute pciii_missing port (PCIII_CHECK_OUT # vs) 0 h =
      (False, h @ [WriteData (toggle PCIII_CHECK_OUT 0), ReadStatus])" for vs h
    by (rule permute_silent, erule b, rule assms) (rule permute_silent, erule p, rule assms)
  show ?thesis
    using assms by (simp add: detectcable_def probe_def Let_def silent del: permute.simps)
qed

lemma detect_cable_cases:
  assumes "detectcable port c0 h0 = (ty, c, h)" and "ty \<noteq> NO_CABLE"
  shows "c = pciii \<and> ty = IS_PCIII \<or> c = bblst \<and> ty = IS_BBLST"
  using assms by (auto simp: detectcable_def Let_def split: prod.splits bool.splits if_splits)

lemma pp_block_delivers:
  assumes "pp_apart c" and "0 < n" and "n \<le> 8 * length bs"
  shows "pp_wire c (snd (txrx_block (pp_driver port c junk) (Some bs) True n lastb h)) =
      pp_wire c h @ zip (replicate (n - 1) False @ [lastb]) (buf_bits bs n)"
    and "pp_replies port c (snd (txrx_block (pp_driver port c junk) (Some bs) True n lastb h)) =
      pp_replies port c h @ buf_bits (fst (txrx_block (pp_driver port c junk) (Some bs) True n lastb h)) n"
proof -
  note cycle = pp_cycle [OF assms(1), of port]
  show "pp_wire c (snd (txrx_block (pp_driver port c junk) (Some bs) True n lastb h)) =
      pp_wire c h @ zip (replicate (n - 1) False @ [lastb]) (buf_bits bs n)"
    using assms by (simp add: pp_driver_bang bang_driver_def bitbang.block_wire [OF cycle])
      (simp add: buf_bits_def tdi_bit_def [abs_def])
  show "pp_replies port c (snd (txrx_block (pp_driver port c junk) (Some bs) True n lastb h)) =
      pp_replies port c h @ buf_bits (fst (txrx_block (pp_driver port c junk) (Some bs) True n lastb h)) n"
    using bitbang.block_tdo [OF cycle assms(2), where junk = junk and tdi = "Some bs" and lastb = lastb and h = h]
    by (metis bang_driver_def io_driver.select_convs(1) pp_driver_bang)
qed

text \<open>
  C38. A parallel port cable that \<^verbatim>\<open>Init\<close> has accepted works, whichever of the two it is. The
  detection accepts only a port that reacts, and both wirings that the file documents. A block of
  \<open>n\<close> bits through the cable that was found then puts its bits on TDI, with TMS low but for the last
  bit, and returns the levels of TDO that the reads of the status register have shown, the inverted
  input of the ByteBlaster included.
\<close>

theorem parport_cable_works:
  assumes "0 < n" and "n \<le> 8 * length bs"
  shows "(xilinx_wired port \<longrightarrow> (\<exists>h. parport_Init True 0 0 port c0 h0 = (0, Some IS_PCIII, pciii, h))) \<and>
    (altera_wired port \<longrightarrow> (\<exists>h. parport_Init True 0 0 port c0 h0 = (0, Some IS_BBLST, bblst, h))) \<and>
    ((\<forall>h. status port h = status port []) \<longrightarrow> fst (parport_Init True 0 0 port c0 h0) = 1) \<and>
    (\<forall>ty c h. parport_Init True 0 0 port c0 h0 = (0, ty, c, h) \<longrightarrow>
       (let (tdo, h') = txrx_block (pp_driver port c junk) (Some bs) True n lastb h
        in pp_wire c h' = pp_wire c h @ zip (replicate (n - 1) False @ [lastb]) (buf_bits bs n) \<and>
           pp_replies port c h' = pp_replies port c h @ buf_bits tdo n))"
proof (intro conjI impI allI)
  assume "xilinx_wired port"
  then show "\<exists>h. parport_Init True 0 0 port c0 h0 = (0, Some IS_PCIII, pciii, h)"
    using detect_xilinx [of port c0 h0] by (auto simp: parport_Init_def IS_PCIII_def NO_CABLE_def)
next
  assume "altera_wired port"
  then show "\<exists>h. parport_Init True 0 0 port c0 h0 = (0, Some IS_BBLST, bblst, h)"
    using detect_altera [of port c0 h0] by (auto simp: parport_Init_def IS_BBLST_def NO_CABLE_def)
next
  assume "\<forall>h. status port h = status port []"
  then show "fst (parport_Init True 0 0 port c0 h0) = 1"
    using detect_silent [of port "status port []" c0 h0] by (auto simp: parport_Init_def)
next
  fix ty c h
  assume "parport_Init True 0 0 port c0 h0 = (0, ty, c, h)"
  then obtain t where "detectcable port c0 h0 = (t, c, h)" "t \<noteq> NO_CABLE"
    by (auto simp: parport_Init_def split: prod.splits if_splits)
  then have "pp_apart c"
    using detect_cable_cases pp_apart_cables by blast
  from pp_block_delivers [OF this assms, of port junk lastb h]
  show "let (tdo, h') = txrx_block (pp_driver port c junk) (Some bs) True n lastb h
        in pp_wire c h' = pp_wire c h @ zip (replicate (n - 1) False @ [lastb]) (buf_bits bs n) \<and>
           pp_replies port c h' = pp_replies port c h @ buf_bits tdo n"
    by (simp add: Let_def split_beta)
qed

text \<open>A Xilinx cable whose chain answers with ones, and a block of ten bits.\<close>

definition example_port :: pp_port where
  "example_port = \<lparr>status = (\<lambda>h. 0x18 OR (if data_pins h AND 0x40 \<noteq> 0 then 0x20 else 0x80)), control = (\<lambda>h. 0)\<rparr>"

lemma example_port_xilinx: "xilinx_wired example_port"
  by (auto simp: xilinx_wired_def example_port_def PCIII_CHECK_OUT_def)

theorem parport_cable_works_witness:
  "xilinx_wired example_port \<and>
   (\<exists>h. parport_Init True 0 0 example_port bblst [] = (0, Some IS_PCIII, pciii, h) \<and>
      (let (tdo, h') = txrx_block (pp_driver example_port pciii 0) (Some [0x5a, 0x03]) True 10 True h
       in pp_wire pciii h' = pp_wire pciii h @ zip (replicate 9 False @ [True]) (buf_bits [0x5a, 0x03] 10) \<and>
          pp_replies example_port pciii h' = pp_replies example_port pciii h @ buf_bits tdo 10))"
proof -
  have "0 < (10 :: nat)" "(10 :: nat) \<le> 8 * length [0x5a, 0x03 :: byte]" by simp_all
  note works = parport_cable_works [OF this, of example_port bblst "[]" 0 True]
  obtain h where h: "parport_Init True 0 0 example_port bblst [] = (0, Some IS_PCIII, pciii, h)"
    using works example_port_xilinx by blast
  with works have "let (tdo, h') = txrx_block (pp_driver example_port pciii 0) (Some [0x5a, 0x03]) True 10 True h
       in pp_wire pciii h' = pp_wire pciii h @ zip (replicate (10 - 1) False @ [True]) (buf_bits [0x5a, 0x03] 10) \<and>
          pp_replies example_port pciii h' = pp_replies example_port pciii h @ buf_bits tdo 10"
    by blast
  then show ?thesis
    using h example_port_xilinx by auto
qed

end
