(* ===== verification/Xpc.thy ===== *)
theory Xpc
  imports IOBase Cli
begin

text \<open>
  \<^verbatim>\<open>ioxpc.cpp\<close>: the Xilinx Platform Cable USB. The adapter is reached through libusb, whose calls
  are the fields of a record over a state of its own; a negative result is a failure. The cable
  shifts through its CPLD, four cycles to a word of sixteen bits, or, on boards with the adapter on
  them, through the pins of a port. Messages, the debug file and the counters of the transactions
  are left out; \<open>junk\<close> is what uninitialised memory holds.
\<close>

record 'u usb =
  control_msg :: "nat \<Rightarrow> nat \<Rightarrow> 'u \<Rightarrow> int \<times> 'u"
  control_read :: "nat \<Rightarrow> nat \<Rightarrow> nat \<Rightarrow> 'u \<Rightarrow> (int \<times> byte list) \<times> 'u"
  bulk_write :: "byte list \<Rightarrow> 'u \<Rightarrow> int \<times> 'u"
  bulk_read :: "nat \<Rightarrow> 'u \<Rightarrow> (int \<times> byte list) \<times> 'u"

definition XPC_INTERNAL :: int where "XPC_INTERNAL = 1"

definition XPC_PROG :: byte where "XPC_PROG = push_bit 3 1"
definition XPC_TCK :: byte where "XPC_TCK = push_bit 2 1"
definition XPC_TMS :: byte where "XPC_TMS = push_bit 1 1"
definition XPC_TDI :: byte where "XPC_TDI = push_bit 0 1"
definition XPC_TDO :: byte where "XPC_TDO = push_bit 0 1"

definition CPLD_MAX_BYTES :: nat where "CPLD_MAX_BYTES = 2 ^ 12"

text \<open>What a read delivers takes the place of the first bytes of the buffer.\<close>

definition overlay :: "byte list \<Rightarrow> byte list \<Rightarrow> byte list" where
  "overlay got buf = take (length buf) got @ drop (length got) buf"

section \<open>Requests\<close>

definition xpcu_request :: "'u usb \<Rightarrow> nat \<Rightarrow> nat \<Rightarrow> 'u \<Rightarrow> int \<times> 'u" where
  "xpcu_request U val index u = (let (r, u) = control_msg U val index u in (if r < 0 then -1 else 0, u))"

definition xpcu_query :: "'u usb \<Rightarrow> nat \<Rightarrow> nat \<Rightarrow> byte list \<Rightarrow> 'u \<Rightarrow> int \<times> byte list \<times> 'u" where
  "xpcu_query U val index buf u =
     (let ((r, got), u) = control_read U val index (length buf) u
      in if r < 0 then (-1, buf, u) else (0, overlay got buf, u))"

definition xpcu_output_enable :: "'u usb \<Rightarrow> bool \<Rightarrow> 'u \<Rightarrow> int \<times> 'u" where
  "xpcu_output_enable U enable = xpcu_request U (if enable then 0x18 else 0x10) 0"

definition xpcu_request_28 :: "'u usb \<Rightarrow> nat \<Rightarrow> 'u \<Rightarrow> int \<times> 'u" where
  "xpcu_request_28 U val = xpcu_request U 0x28 val"

definition xpcu_write_gpio :: "'u usb \<Rightarrow> byte \<Rightarrow> 'u \<Rightarrow> int \<times> 'u" where
  "xpcu_write_gpio U bits = xpcu_request U 0x30 (unat bits)"

definition xpcu_read_gpio :: "'u usb \<Rightarrow> byte \<Rightarrow> 'u \<Rightarrow> int \<times> byte \<times> 'u" where
  "xpcu_read_gpio U bits u = (let (r, buf, u) = xpcu_query U 0x38 0 [bits] u in (r, hd buf, u))"

definition xpcu_read_cpld_version :: "'u usb \<Rightarrow> byte list \<Rightarrow> 'u \<Rightarrow> int \<times> byte list \<times> 'u" where
  "xpcu_read_cpld_version U = xpcu_query U 0x50 1"

definition xpcu_read_firmware_version :: "'u usb \<Rightarrow> byte list \<Rightarrow> 'u \<Rightarrow> int \<times> byte list \<times> 'u" where
  "xpcu_read_firmware_version U = xpcu_query U 0x50 0"

text \<open>The bytes of the number are of the signed type \<^verbatim>\<open>char\<close>; the call is compiled out.\<close>

definition xpcu_read_hid :: "'u usb \<Rightarrow> byte \<Rightarrow> 'u \<Rightarrow> int \<times> 64 word \<times> 'u" where
  "xpcu_read_hid U junk u =
     (let ((r, got), u) = control_read U 0x42 1 8 u; buf = overlay got (replicate 8 junk)
      in if r < 0 then (r, 0, u)
         else (0, fold (\<lambda>i hid. push_bit 8 hid + signed (buf ! i)) [6, 5, 4, 3, 2, 1, 0] 0, u))"

definition xpcu_select_gpio :: "'u usb \<Rightarrow> nat \<Rightarrow> 'u \<Rightarrow> int \<times> 'u" where
  "xpcu_select_gpio U int_or_ext = xpcu_request U 0x52 int_or_ext"

section \<open>The shift through the CPLD\<close>

text \<open>
  \<open>inb\<close> are the bytes sent; \<open>out_len\<close> bytes are read to the front of \<open>buf\<close>. After a failed read the
  buffer is not used.
\<close>

definition xpcu_shift :: "'u usb \<Rightarrow> nat \<Rightarrow> nat \<Rightarrow> byte list \<Rightarrow> nat \<Rightarrow> byte list \<Rightarrow> 'u \<Rightarrow> int \<times> byte list \<times> 'u" where
  "xpcu_shift U reqno bits inb out_len buf u =
     (let (r, u) = control_msg U reqno bits u
      in if r < 0 then (-1, buf, u)
         else let (r, u) = bulk_write U inb u
         in if r < 0 then (-1, buf, u)
         else if out_len > 0
         then let ((r, got), u) = bulk_read U out_len u
              in if r < 0 then (-1, buf, u) else (0, overlay got buf, u)
         else (0, buf, u))"

record xts =
  in_bits :: nat
  out_bits :: nat
  out_done :: nat
  xout :: "byte list option"
  xbuf :: "byte list"

text \<open>Moving the bits that do not fill a word of 32 bits to their places.\<close>

fun align_bits :: "byte list \<Rightarrow> nat \<Rightarrow> nat list \<Rightarrow> nat \<times> byte list \<Rightarrow> nat \<times> byte list" where
  "align_bits buf sh [] (d, m) = (d, m)"
| "align_bits buf sh (i # is) (d, m) =
     (let bit_num = i + sh;
          bit_val = bit (buf ! (bit_num div 8)) (bit_num mod 8);
          m = (if d mod 8 = 0 then m[d div 8 := 0] else m);
          m = (if bit_val then m[d div 8 := m ! (d div 8) OR push_bit (d mod 8) 1] else m)
      in align_bits buf sh is (d + 1, m))"

definition take_out :: "xts \<Rightarrow> nat \<times> byte list" where
  "take_out x =
     (let m = (case xout x of None \<Rightarrow> [] | Some m \<Rightarrow> m);
          aligned_bytes = out_bits x div 32 * 4;
          m = overlay (take aligned_bytes (xbuf x)) m;
          d = aligned_bytes * 8
      in if out_bits x mod 32 \<noteq> 0
         then let sh = out_bits x mod 16; sh = (if sh \<noteq> 0 then 16 - sh else sh)
              in align_bits (xbuf x) sh [aligned_bytes * 8..<out_bits x] (d, m)
         else (d, m))"

definition xpcu_do_ext_transfer :: "'u usb \<Rightarrow> xts \<Rightarrow> 'u \<Rightarrow> int \<times> xts \<times> 'u" where
  "xpcu_do_ext_transfer U x u =
     (let in_len = 2 * (in_bits x div 4) + (if in_bits x mod 4 \<noteq> 0 then 2 else 0);
          out_len = 2 * (out_bits x div 16) + (if out_bits x mod 16 \<noteq> 0 then 2 else 0);
          (r, buf, u) = xpcu_shift U 0xA6 (in_bits x) (take in_len (xbuf x))
                          (if xout x \<noteq> None then out_len else 0) (xbuf x) u;
          x = x\<lparr>xbuf := buf\<rparr>;
          x = (if r \<ge> 0 \<and> out_bits x > 0
               then let (d, m) = take_out x in x\<lparr>out_done := d, xout := Some m\<rparr> else x)
      in (r, x\<lparr>in_bits := 0, out_bits := 0\<rparr>, u))"

definition xpcu_add_bit_for_ext_transfer :: "xts \<Rightarrow> bool \<Rightarrow> bool \<Rightarrow> bool \<Rightarrow> xts" where
  "xpcu_add_bit_for_ext_transfer x inb tms is_real =
     (let bit_idx = in_bits x mod 4;
          buf_idx = (in_bits x - bit_idx) div 2;
          buf = xbuf x;
          buf = (if bit_idx = 0 then buf[buf_idx := 0, buf_idx + 1 := 0] else buf);
          x = x\<lparr>in_bits := in_bits x + 1\<rparr>
      in if is_real
         then let buf = (if inb then buf[buf_idx := buf ! buf_idx OR push_bit bit_idx 0x01] else buf);
                  buf = (if tms then buf[buf_idx := buf ! buf_idx OR push_bit bit_idx 0x10] else buf)
              in if xout x \<noteq> None
                 then x\<lparr>xbuf := buf[buf_idx + 1 := buf ! (buf_idx + 1) OR push_bit bit_idx 0x11],
                        out_bits := out_bits x + 1\<rparr>
                 else x\<lparr>xbuf := buf[buf_idx + 1 := buf ! (buf_idx + 1) OR push_bit bit_idx 0x01]\<rparr>
         else x\<lparr>xbuf := buf\<rparr>)"

text \<open>A cycle, with the transfer when the buffer is full, and what the end of a block does.\<close>

definition xpc_cycle :: "'u usb \<Rightarrow> bool \<Rightarrow> bool \<Rightarrow> int \<times> xts \<times> 'u \<Rightarrow> int \<times> xts \<times> 'u" where
  "xpc_cycle U inb tms = (\<lambda>(j, x, u).
     (let x = xpcu_add_bit_for_ext_transfer x inb tms True
      in if in_bits x = 2 * CPLD_MAX_BYTES - 1 then xpcu_do_ext_transfer U x u else (j, x, u)))"

definition xpc_finish :: "'u usb \<Rightarrow> int \<times> xts \<times> 'u \<Rightarrow> int \<times> xts \<times> 'u" where
  "xpc_finish U = (\<lambda>(j, x, u).
     if in_bits x > 0 \<and> j \<ge> 0
     then let x = (if in_bits x mod 4 = 0 then xpcu_add_bit_for_ext_transfer x False False False else x)
          in xpcu_do_ext_transfer U x u
     else (j, x, u))"

definition xts_init :: "byte \<Rightarrow> byte list option \<Rightarrow> xts" where
  "xts_init junk out = \<lparr>in_bits = 0, out_bits = 0, out_done = 0, xout = out, xbuf = replicate CPLD_MAX_BYTES junk\<rparr>"

fun ext_loop :: "'u usb \<Rightarrow> byte list option \<Rightarrow> nat \<Rightarrow> bool \<Rightarrow> nat \<Rightarrow> nat \<Rightarrow> byte \<Rightarrow> int \<times> xts \<times> 'u \<Rightarrow> int \<times> xts \<times> 'u" where
  "ext_loop U inp n lastb i 0 tdi s = s"
| "ext_loop U inp n lastb i (Suc k) tdi s =
     (if fst s < 0 then s
      else let tdi = (case inp of Some bs \<Rightarrow> if i AND 7 = 0 then bs ! drop_bit 3 i else tdi | None \<Rightarrow> 0)
           in ext_loop U inp n lastb (i + 1) k (drop_bit 1 tdi)
                (xpc_cycle U (bit tdi 0) (if i = n - 1 then lastb else False) s))"

definition ext_block :: "'u usb \<Rightarrow> byte \<Rightarrow> byte list option \<Rightarrow> bool \<Rightarrow> nat \<Rightarrow> bool \<Rightarrow> 'u \<Rightarrow> byte list \<times> 'u" where
  "ext_block U junk inp want n lastb u =
     (let out = (if want then Some (replicate (nbytes n) junk) else None);
          (j, x, u) = xpc_finish U (ext_loop U inp n lastb 0 n junk (0, xts_init junk out, u))
      in (case xout x of None \<Rightarrow> [] | Some m \<Rightarrow> m, u))"

fun ext_tms_loop :: "'u usb \<Rightarrow> byte list \<Rightarrow> nat \<Rightarrow> nat \<Rightarrow> int \<times> xts \<times> 'u \<Rightarrow> int \<times> xts \<times> 'u" where
  "ext_tms_loop U pat i 0 s = s"
| "ext_tms_loop U pat i (Suc k) s =
     (if fst s < 0 then s
      else ext_tms_loop U pat (i + 1) k (xpc_cycle U True (bit (pat ! drop_bit 3 i) (i mod 8)) s))"

definition ext_tms :: "'u usb \<Rightarrow> byte \<Rightarrow> byte list \<Rightarrow> nat \<Rightarrow> 'u \<Rightarrow> 'u" where
  "ext_tms U junk pat n u =
     (let (j, x, u) = xpc_finish U (ext_tms_loop U pat 0 n (0, xts_init junk None, u)) in u)"

section \<open>The shift through the pins\<close>

fun int_loop :: "'u usb \<Rightarrow> byte list option \<Rightarrow> bool \<Rightarrow> nat \<Rightarrow> nat \<Rightarrow> byte \<Rightarrow> byte \<Rightarrow> byte list option \<times> 'u \<Rightarrow> byte list option \<times> 'u" where
  "int_loop U inp lastb i 0 tdi d (out, u) = (out, u)"
| "int_loop U inp lastb i (Suc k) tdi d (out, u) =
     (let tdi = (if i AND 7 = 0 then (case inp of Some bs \<Rightarrow> bs ! drop_bit 3 i | None \<Rightarrow> 0) else tdi);
          out = (if i AND 7 = 0 then map_option (\<lambda>m. m[drop_bit 3 i := 0]) out else out);
          tms = (if lastb then XPC_TMS else 0);
          td = (if bit tdi 0 then XPC_TDI else 0);
          (r, u) = xpcu_write_gpio U (XPC_PROG OR XPC_TCK OR tms OR td) u;
          (d, out, u) = (case out of None \<Rightarrow> (d, None, u) | Some m \<Rightarrow>
             let (r, d, u) = xpcu_read_gpio U d u
             in (d, Some (m[drop_bit 3 i := m ! drop_bit 3 i OR
                    (if d AND XPC_TDO = XPC_TDO then of_nat (i mod 8) else 0)]), u));
          (r, u) = xpcu_write_gpio U (XPC_PROG OR 0 OR tms OR td) u
      in int_loop U inp lastb (i + 1) k (drop_bit 1 tdi) d (out, u))"

definition int_block :: "'u usb \<Rightarrow> byte \<Rightarrow> byte list option \<Rightarrow> bool \<Rightarrow> nat \<Rightarrow> bool \<Rightarrow> 'u \<Rightarrow> byte list \<times> 'u" where
  "int_block U junk inp want n lastb u =
     (let (out, u) = int_loop U inp lastb 0 n junk junk (if want then Some (replicate (nbytes n) junk) else None, u)
      in (case out of None \<Rightarrow> [] | Some m \<Rightarrow> m, u))"

fun int_tms_loop :: "'u usb \<Rightarrow> byte list \<Rightarrow> nat \<Rightarrow> nat \<Rightarrow> byte \<Rightarrow> 'u \<Rightarrow> 'u" where
  "int_tms_loop U pat i 0 tms u = u"
| "int_tms_loop U pat i (Suc k) tms u =
     (let tms = (if i AND 7 = 0 then pat ! drop_bit 3 i else tms);
          tm = (if bit tms 0 then XPC_TMS else 0);
          (r, u) = xpcu_write_gpio U (XPC_PROG OR XPC_TCK OR tm OR XPC_TDI) u;
          (r, u) = xpcu_write_gpio U (XPC_PROG OR 0 OR tm OR XPC_TDI) u
      in int_tms_loop U pat (i + 1) k (drop_bit 1 tms) u)"

section \<open>The driver\<close>

definition xpc_txrx_block :: "'u usb \<Rightarrow> int \<Rightarrow> byte \<Rightarrow> byte list option \<Rightarrow> bool \<Rightarrow> nat \<Rightarrow> bool \<Rightarrow> 'u \<Rightarrow> byte list \<times> 'u" where
  "xpc_txrx_block U subtype junk =
     (if subtype = XPC_INTERNAL then int_block U junk else ext_block U junk)"

definition xpc_tx_tms :: "'u usb \<Rightarrow> int \<Rightarrow> byte \<Rightarrow> byte list \<Rightarrow> nat \<Rightarrow> bool \<Rightarrow> 'u \<Rightarrow> 'u" where
  "xpc_tx_tms U subtype junk pat n force u =
     (if subtype = XPC_INTERNAL then int_tms_loop U pat 0 n junk u else ext_tms U junk pat n u)"

definition xpc_driver :: "'u usb \<Rightarrow> int \<Rightarrow> byte \<Rightarrow> 'u io_driver" where
  "xpc_driver U subtype junk =
     \<lparr>txrx_block = xpc_txrx_block U subtype junk, tx_tms = xpc_tx_tms U subtype junk\<rparr>"

text \<open>
  \<^verbatim>\<open>Init\<close> on the option string and the alias of the cable; \<open>open_desc\<close> is \<^verbatim>\<open>xpc_usb_open_desc\<close>, which
  looks for the adapter on the buses of libusb. The description of the string is not passed on.
\<close>

definition after_colon :: "byte list \<Rightarrow> byte list option" where
  "after_colon s = (case dropWhile (\<lambda>c. c \<noteq> 58) s of [] \<Rightarrow> None | _ # t \<Rightarrow> Some t)"

definition xpc_ids :: "byte list option \<Rightarrow> int \<times> int" where
  "xpc_ids p =
     (case p of None \<Rightarrow> (0x03fd, 0x0008)
      | Some p \<Rightarrow> (c_strtol p, case after_colon p of None \<Rightarrow> 0x0008 | Some p \<Rightarrow> c_strtol p))"

definition xpc_setup :: "'u usb \<Rightarrow> byte \<Rightarrow> 'u \<Rightarrow> int \<times> 'u" where
  "xpc_setup U junk u =
     (let (r, u) = xpcu_request_28 U 0x11 u;
          (r, u) = (if r \<ge> 0 then xpcu_output_enable U True u else (r, u));
          (r, b, u) = (if r \<ge> 0 then xpcu_shift U 0xA6 2 [0, 0] 0 [0, 0] u else (r, [0, 0], u))
      in if r \<ge> 0 then xpcu_request_28 U 0x12 u else (r, u))"

definition xpc_Init ::
  "'u usb \<Rightarrow> byte \<Rightarrow> (int \<Rightarrow> int \<Rightarrow> 'u \<Rightarrow> int \<times> 'u) \<Rightarrow> byte list option \<Rightarrow> byte list \<Rightarrow> 'u \<Rightarrow> int \<times> int \<times> 'u" where
  "xpc_Init U junk open_desc optstring alias u =
     (let (vendor, product) = xpc_ids optstring;
          subtype = (if strcasecmp_eq alias (ascii ''xpc_internal'') then XPC_INTERNAL else 0);
          (res, u) = open_desc vendor product u
      in if res < 0 then (res, subtype, u)
         else let (res, u) = xpcu_request_28 U 0x11 u
         in if res < 0 then (res, subtype, u)
         else let (res, u) = xpcu_write_gpio U XPC_PROG u
         in if res < 0 then (res, subtype, u)
         else let (res, buf, u) = xpcu_read_firmware_version U [junk, junk] u
         in if res < 0 then (res, subtype, u)
         else let (res, buf, u) = xpcu_read_cpld_version U buf u
         in if subtype = XPC_INTERNAL
         then let (res, u) = xpcu_select_gpio U 0 u in (if res < 0 then 2 else 0, subtype, u)
         else let (r, u) = xpc_setup U junk u in (if r < 0 then 3 else 0, subtype, u))"

definition xpc_delete :: "'u usb \<Rightarrow> 'u \<Rightarrow> 'u" where
  "xpc_delete U u = snd (xpcu_output_enable U False u)"

end
