(* ===== verification/XpcCpld.thy ===== *)
theory XpcCpld
  imports Xpc
begin

text \<open>
  The adapter as the comment in \<^verbatim>\<open>ioxpc.cpp\<close> documents it: the request 0xA6 announces a number of
  cycles, a bulk write brings the words that describe them, and the levels of TDO that were asked for
  come back in words of 32 bits, the last of them, or its half, filled from the top. What a transfer
  of \<^verbatim>\<open>xpcu_do_ext_transfer\<close> does on the adapter.
\<close>

section \<open>The adapter\<close>

text \<open>
  \<open>line\<close> are the levels (TMS, TDI) at the rising edges of TCK, \<open>seen\<close> the levels of TDO that were
  asked for. The chain answers with \<open>env\<close>, a function of the edges so far.
\<close>

record cpld =
  announced :: nat
  line :: "(bool \<times> bool) list"
  seen :: "bool list"
  queue :: "byte list"
  port_e :: byte

type_synonym tdo_env = "(bool \<times> bool) list \<Rightarrow> bool"

text \<open>In each word the bits 0 to 3 are TDI, then come TMS, the clock and the read of four cycles.\<close>

definition word_bit :: "byte list \<Rightarrow> nat \<Rightarrow> nat \<Rightarrow> bool" where
  "word_bit bs i c = bit (bs ! (2 * (i div 4) + c div 2)) (4 * (c mod 2) + i mod 4)"

fun cpld_run :: "tdo_env \<Rightarrow> byte list \<Rightarrow> nat \<Rightarrow> nat \<Rightarrow> (bool \<times> bool) list \<times> bool list \<Rightarrow> (bool \<times> bool) list \<times> bool list" where
  "cpld_run env bs i 0 (l, g) = (l, g)"
| "cpld_run env bs i (Suc k) (l, g) =
     cpld_run env bs (i + 1) k
       (if word_bit bs i 2 then l @ [(word_bit bs i 1, word_bit bs i 0)] else l,
        if word_bit bs i 3 then g @ [env l] else g)"

definition reply_pad :: "nat \<Rightarrow> nat" where
  "reply_pad n = (let r = n mod 32 in if r = 0 then 0 else if r \<le> 16 then 16 - r else 32 - r)"

definition cpld_reply :: "bool \<Rightarrow> bool list \<Rightarrow> byte list" where
  "cpld_reply pb g =
     (let n = length g; full = 32 * (n div 32)
      in bits_bytes (n + reply_pad n) (take full g @ replicate (reply_pad n) pb @ drop full g))"

definition cpld_usb :: "tdo_env \<Rightarrow> bool \<Rightarrow> cpld usb" where
  "cpld_usb env pb = \<lparr>
     control_msg = (\<lambda>val index u. (0,
       if val = 0xA6 then u\<lparr>announced := index\<rparr>
       else if val = 0x30
       then let b = of_nat index
            in u\<lparr>line := (if bit b 2 \<and> \<not> bit (port_e u) 2 then line u @ [(bit b 1, bit b 0)] else line u), port_e := b\<rparr>
       else u)),
     control_read = (\<lambda>val index n u.
       if val = 0x38 then ((1, [if env (line u) then 1 else 0]), u\<lparr>seen := seen u @ [env (line u)]\<rparr>)
       else ((int n, replicate n 0), u)),
     bulk_write = (\<lambda>bs u. let (l, g) = cpld_run env bs 0 (announced u) (line u, [])
       in (int (length bs), u\<lparr>line := l, seen := seen u @ g, queue := cpld_reply pb g\<rparr>)),
     bulk_read = (\<lambda>n u. ((int (length (take n (queue u))), take n (queue u)), u\<lparr>queue := drop n (queue u)\<rparr>))\<rparr>"

section \<open>The buffer of a transfer\<close>

text \<open>A word of a cycle as the list of its four bits; those of a dummy are all clear.\<close>

definition ticks :: "bool list list \<Rightarrow> (bool \<times> bool) list" where
  "ticks L = map (\<lambda>w. (w ! 1, w ! 0)) (filter (\<lambda>w. w ! 2) L)"

fun samples :: "tdo_env \<Rightarrow> (bool \<times> bool) list \<Rightarrow> bool list list \<Rightarrow> bool list" where
  "samples env l [] = []"
| "samples env l (w # L) =
     (if w ! 3 then [env l] else []) @ samples env (l @ ticks [w]) L"

lemma length_samples: "length (samples env l L) = length (filter (\<lambda>w. w ! 3) L)"
  by (induction L arbitrary: l) auto

lemma ticks_simps [simp]: "ticks [] = []" "ticks (L @ M) = ticks L @ ticks M"
  by (simp_all add: ticks_def)

lemma ticks_Cons: "ticks (w # L) = ticks [w] @ ticks L"
  by (simp add: ticks_def)

lemma samples_append: "samples env l (L @ M) = samples env l L @ samples env (l @ ticks L) M"
proof (induction L arbitrary: l)
  case (Cons w L)
  show ?case using Cons [of "l @ ticks [w]"] ticks_Cons [of w L] by simp
qed simp

lemma cpld_run_words:
  assumes "\<And>i c. i < length L \<Longrightarrow> c < 4 \<Longrightarrow> word_bit bs (k + i) c = L ! i ! c"
  shows "cpld_run env bs k (length L) (l, g) = (l @ ticks L, g @ samples env l L)"
  using assms
proof (induction L arbitrary: k l g)
  case (Cons w L)
  have w: "word_bit bs k c = w ! c" if "c < 4" for c
    using Cons.prems [of 0 c] that by simp
  have "word_bit bs (Suc k + i) c = L ! i ! c" if "i < length L" "c < 4" for i c
    using Cons.prems [of "Suc i" c] that by simp
  from Cons.IH [OF this] show ?case
    by (simp add: w ticks_Cons [of w L]) (simp add: ticks_def)
qed simp

definition xts_holds :: "xts \<Rightarrow> bool list list \<Rightarrow> bool" where
  "xts_holds x L \<longleftrightarrow> length (xbuf x) = CPLD_MAX_BYTES \<and> in_bits x = length L \<and>
     out_bits x = length (filter (\<lambda>w. w ! 3) L) \<and>
     (\<forall>i < 4 * ((length L + 3) div 4). \<forall>c < 4. word_bit (xbuf x) i c = (i < length L \<and> L ! i ! c))"

text \<open>The position of a bit in the buffer.\<close>

definition word_pos :: "nat \<Rightarrow> nat \<Rightarrow> nat" where
  "word_pos i c = 16 * (i div 4) + 4 * c + i mod 4"

lemma four_cases: "c < 4 \<Longrightarrow> c = 0 \<or> c = 1 \<or> c = 2 \<or> c = (3 :: nat)"
  by arith

lemma word_pos_div_mod:
  assumes "c < 4"
  shows "word_pos i c div 8 = 2 * (i div 4) + c div 2" and "word_pos i c mod 8 = 4 * (c mod 2) + i mod 4"
proof -
  have "i mod 4 < 4" by simp
  from four_cases [OF this] four_cases [OF assms]
  have "(4 * c + i mod 4) div 8 = c div 2" "(4 * c + i mod 4) mod 8 = 4 * (c mod 2) + i mod 4"
    by (elim disjE; simp)+
  moreover have "word_pos i c = 8 * (2 * (i div 4)) + (4 * c + i mod 4)"
    by (simp add: word_pos_def)
  ultimately show "word_pos i c div 8 = 2 * (i div 4) + c div 2" "word_pos i c mod 8 = 4 * (c mod 2) + i mod 4"
    by (simp_all only: div_mult_self4 mod_mult_self4)
qed

lemma radix_inj:
  fixes a b p q :: nat
  assumes "k * a + p = k * b + q" and "p < k" and "q < k"
  shows "a = b \<and> p = q"
proof -
  have "(k * a + p) div k = a" "(k * b + q) div k = b" using assms(2,3) by simp_all
  then show ?thesis using assms(1) by auto
qed

lemma word_pos_inj:
  assumes "c < 4" "d < 4"
  shows "word_pos i c = word_pos j d \<longleftrightarrow> i = j \<and> c = d"
proof
  assume eq: "word_pos i c = word_pos j d"
  then have "2 * (i div 4) + c div 2 = 2 * (j div 4) + d div 2" "4 * (c mod 2) + i mod 4 = 4 * (d mod 2) + j mod 4"
    using word_pos_div_mod [OF assms(1), of i] word_pos_div_mod [OF assms(2), of j] by simp_all
  moreover have "c div 2 < 2" "d div 2 < 2" "i mod 4 < 4" "j mod 4 < 4"
    using assms four_cases [OF assms(1)] four_cases [OF assms(2)] by auto
  ultimately have "i div 4 = j div 4" "c div 2 = d div 2" "i mod 4 = j mod 4" "c mod 2 = d mod 2"
    using radix_inj by metis+
  then show "i = j \<and> c = d" by (metis div_mult_mod_eq)
qed simp

lemma word_bit_buf: "c < 4 \<Longrightarrow> word_bit bs i c = buf_bit bs (word_pos i c)"
  by (simp add: word_bit_def buf_bit_def word_pos_div_mod)

lemma set_word_bit:
  assumes "c < 4"
  shows "buf[2 * (i div 4) + c div 2 := buf ! (2 * (i div 4) + c div 2) OR push_bit (4 * (c mod 2) + i mod 4) 1] =
    buf_put buf (word_pos i c) True"
  by (simp add: buf_put_def put_bit_def word_pos_div_mod [OF assms])

lemma word_bit_put:
  assumes "c < 4" "d < 4" "2 * (i div 4) + 1 < length buf"
  shows "word_bit (buf_put buf (word_pos i c) v) j d = (if j = i \<and> d = c then v else word_bit buf j d)"
proof -
  have "word_pos i c div 8 < length buf"
    using assms four_cases [OF assms(1)] by (auto simp: word_pos_div_mod)
  then show ?thesis
    using assms by (auto simp: word_bit_buf buf_bit_put word_pos_inj)
qed

lemma word_bit_clear:
  assumes "2 * k + 1 < length buf" and "c < 4"
  shows "word_bit (buf[2 * k := 0, Suc (2 * k) := 0]) i c = (i div 4 \<noteq> k \<and> word_bit buf i c)"
proof (cases "i div 4 = k")
  case True
  have "c div 2 = 0 \<or> c div 2 = 1" using assms(2) by arith
  with True assms show ?thesis by (auto simp: word_bit_def nth_list_update)
next
  case False
  have "c div 2 < 2" using assms(2) by arith
  then have "2 * (i div 4) + c div 2 \<noteq> 2 * k" "2 * (i div 4) + c div 2 \<noteq> Suc (2 * k)"
    using False by arith+
  then show ?thesis using False by (simp add: word_bit_def)
qed

text \<open>One word more: a cycle, or a dummy.\<close>

definition cycle_word :: "bool \<Rightarrow> bool \<Rightarrow> bool \<Rightarrow> bool list" where
  "cycle_word inb tms rd = [inb, tms, True, rd]"

definition dummy_word :: "bool list" where
  "dummy_word = [False, False, False, False]"

lemma add_bit_buf:
  assumes "2 * (in_bits x div 4) + 1 < length (xbuf x)"
  defines "k \<equiv> in_bits x" and "buf \<equiv> (if in_bits x mod 4 = 0
    then (xbuf x)[2 * (in_bits x div 4) := 0, Suc (2 * (in_bits x div 4)) := 0] else xbuf x)"
  shows "xpcu_add_bit_for_ext_transfer x inb tms False = x\<lparr>in_bits := k + 1, xbuf := buf\<rparr>"
    and "\<exists>buf'. xpcu_add_bit_for_ext_transfer x inb tms True =
      x\<lparr>in_bits := k + 1, xbuf := buf', out_bits := out_bits x + of_bool (xout x \<noteq> None)\<rparr> \<and> length buf' = length (xbuf x) \<and>
      (\<forall>j. \<forall>d < 4. word_bit buf' j d =
        (if j = k then cycle_word inb tms (xout x \<noteq> None) ! d \<or> word_bit buf j d else word_bit buf j d))"
proof -
  let ?i = "in_bits x"
  have idx: "(?i - ?i mod 4) div 2 = 2 * (?i div 4)"
    by (simp add: minus_mod_eq_mult_div)
  show "xpcu_add_bit_for_ext_transfer x inb tms False = x\<lparr>in_bits := k + 1, xbuf := buf\<rparr>"
    unfolding xpcu_add_bit_for_ext_transfer_def Let_def idx k_def buf_def by simp
  define b1 where "b1 = (if inb then buf_put buf (word_pos ?i 0) True else buf)"
  define b2 where "b2 = (if tms then buf_put b1 (word_pos ?i 1) True else b1)"
  define b3 where "b3 = buf_put b2 (word_pos ?i 2) True"
  define b4 where "b4 = (if xout x \<noteq> None then buf_put b3 (word_pos ?i 3) True else b3)"
  have len: "length buf = length (xbuf x)" by (simp add: buf_def)
  have "push_bit (?i mod 4) 0x10 = (push_bit (4 + ?i mod 4) 1 :: byte)"
    by (simp add: push_bit_eq_mult power_add)
  then have e1: "b[2 * (?i div 4) := b ! (2 * (?i div 4)) OR push_bit (?i mod 4) 0x10] = buf_put b (word_pos ?i 1) True" for b
    using set_word_bit [of 1 b ?i] by simp
  have e0: "b[2 * (?i div 4) := b ! (2 * (?i div 4)) OR push_bit (?i mod 4) 0x01] = buf_put b (word_pos ?i 0) True" for b
    using set_word_bit [of 0 b ?i] by simp
  have e2: "b[2 * (?i div 4) + 1 := b ! (2 * (?i div 4) + 1) OR push_bit (?i mod 4) 0x01] = buf_put b (word_pos ?i 2) True" for b
    using set_word_bit [of 2 b ?i] by simp
  have e3: "b[2 * (?i div 4) + 1 := b ! (2 * (?i div 4) + 1) OR push_bit (?i mod 4) 0x11] =
      buf_put (buf_put b (word_pos ?i 2) True) (word_pos ?i 3) True" for b
  proof -
    have "(0x11 :: byte) = 1 OR push_bit 4 1" by simp
    then have "push_bit (?i mod 4) 0x11 = (push_bit (?i mod 4) 1 OR push_bit (4 + ?i mod 4) 1 :: byte)"
      by (simp only: push_bit_or push_bit_push_bit add.commute)
    moreover have "word_pos ?i 2 div 8 = 2 * (?i div 4) + 1" "word_pos ?i 2 mod 8 = ?i mod 4"
      "word_pos ?i 3 div 8 = 2 * (?i div 4) + 1" "word_pos ?i 3 mod 8 = 4 + ?i mod 4"
      by (simp_all add: word_pos_div_mod)
    ultimately show ?thesis
      by (cases "2 * (?i div 4) + 1 < length b") (simp_all add: buf_put_def put_bit_def or.assoc not_less list_update_beyond)
  qed
  have "xpcu_add_bit_for_ext_transfer x inb tms True =
      x\<lparr>in_bits := k + 1, xbuf := b4, out_bits := out_bits x + of_bool (xout x \<noteq> None)\<rparr>"
    unfolding xpcu_add_bit_for_ext_transfer_def Let_def idx e0 e1 e2 e3 k_def b1_def b2_def b3_def b4_def buf_def by simp
  moreover have "length b4 = length (xbuf x)"
    by (simp add: b1_def b2_def b3_def b4_def len)
  moreover have "word_bit b4 j d =
      (if j = k then cycle_word inb tms (xout x \<noteq> None) ! d \<or> word_bit buf j d else word_bit buf j d)" if "d < 4" for j d
    using four_cases [OF that] assms(1) len
    by (elim disjE) (auto simp: b1_def b2_def b3_def b4_def word_bit_put cycle_word_def k_def)
  ultimately show "\<exists>buf'. xpcu_add_bit_for_ext_transfer x inb tms True =
      x\<lparr>in_bits := k + 1, xbuf := buf', out_bits := out_bits x + of_bool (xout x \<noteq> None)\<rparr> \<and> length buf' = length (xbuf x) \<and>
      (\<forall>j. \<forall>d < 4. word_bit buf' j d =
        (if j = k then cycle_word inb tms (xout x \<noteq> None) ! d \<or> word_bit buf j d else word_bit buf j d))"
    by blast
qed

lemma add_bit_clear:
  assumes "xts_holds x L" and "length L < 2 * CPLD_MAX_BYTES"
  defines "k \<equiv> length L" and "buf \<equiv> (if in_bits x mod 4 = 0
    then (xbuf x)[2 * (in_bits x div 4) := 0, Suc (2 * (in_bits x div 4)) := 0] else xbuf x)"
  shows "2 * (in_bits x div 4) + 1 < length (xbuf x)"
    and "j < 4 * ((Suc k + 3) div 4) \<Longrightarrow> d < 4 \<Longrightarrow> word_bit buf j d = (j < k \<and> L ! j ! d)"
proof -
  have x: "in_bits x = k" "length (xbuf x) = 4096"
    "\<And>i c. i < 4 * ((k + 3) div 4) \<Longrightarrow> c < 4 \<Longrightarrow> word_bit (xbuf x) i c = (i < k \<and> L ! i ! c)"
    using assms(1) by (auto simp: xts_holds_def k_def CPLD_MAX_BYTES_def)
  have k: "k < 8192" using assms(2) by (simp add: k_def CPLD_MAX_BYTES_def)
  then have "k div 4 < 2048" by (simp add: div_less_iff_less_mult)
  then show len: "2 * (in_bits x div 4) + 1 < length (xbuf x)"
    unfolding x by arith
  assume j: "j < 4 * ((Suc k + 3) div 4)" and d: "d < 4"
  show "word_bit buf j d = (j < k \<and> L ! j ! d)"
  proof (cases "k mod 4 = 0")
    case True
    then obtain q where q: "k = 4 * q" by (metis dvd_def dvd_eq_mod_eq_0)
    have "j < 4 * q + 4" using j q by simp
    then have "j div 4 = q \<or> j < k" and "j < k \<Longrightarrow> j div 4 \<noteq> q" and "j div 4 = q \<Longrightarrow> \<not> j < k"
      using q by (auto simp: div_less_iff_less_mult)
    moreover have "word_bit buf j d = (j div 4 \<noteq> q \<and> word_bit (xbuf x) j d)"
      using word_bit_clear [of q "xbuf x" d j] len d True q by (simp add: buf_def x)
    moreover have "j < k \<Longrightarrow> j < 4 * ((k + 3) div 4)" using q by simp
    ultimately show ?thesis using x(3) d by blast
  next
    case False
    then have "(k + 3) div 4 = (Suc k + 3) div 4" by presburger
    then show ?thesis using False x(3) [OF _ d] j by (simp add: buf_def x(1))
  qed
qed

lemma add_bit_holds:
  assumes "xts_holds x L" and "length L < 2 * CPLD_MAX_BYTES"
  shows "xts_holds (xpcu_add_bit_for_ext_transfer x inb tms True) (L @ [cycle_word inb tms (xout x \<noteq> None)])"
    and "xout (xpcu_add_bit_for_ext_transfer x inb tms True) = xout x"
proof -
  have x: "in_bits x = length L" "length (xbuf x) = CPLD_MAX_BYTES" "out_bits x = length (filter (\<lambda>w. w ! 3) L)"
    using assms(1) by (simp_all add: xts_holds_def)
  obtain buf' where step: "xpcu_add_bit_for_ext_transfer x inb tms True =
      x\<lparr>in_bits := length L + 1, xbuf := buf', out_bits := out_bits x + of_bool (xout x \<noteq> None)\<rparr>"
    and len: "length buf' = length (xbuf x)"
    and bits: "\<And>j d. d < 4 \<Longrightarrow> word_bit buf' j d =
      (if j = length L then cycle_word inb tms (xout x \<noteq> None) ! d \<or>
         word_bit (if in_bits x mod 4 = 0 then (xbuf x)[2 * (in_bits x div 4) := 0, Suc (2 * (in_bits x div 4)) := 0] else xbuf x) j d
       else word_bit (if in_bits x mod 4 = 0 then (xbuf x)[2 * (in_bits x div 4) := 0, Suc (2 * (in_bits x div 4)) := 0] else xbuf x) j d)"
    using add_bit_buf(2) [OF add_bit_clear(1) [OF assms], of inb tms] unfolding x(1) by metis
  show "xout (xpcu_add_bit_for_ext_transfer x inb tms True) = xout x"
    by (simp add: step)
  show "xts_holds (xpcu_add_bit_for_ext_transfer x inb tms True) (L @ [cycle_word inb tms (xout x \<noteq> None)])"
    unfolding xts_holds_def
  proof (intro conjI allI impI)
    fix j d assume j: "j < 4 * ((length (L @ [cycle_word inb tms (xout x \<noteq> None)]) + 3) div 4)" and d: "d < (4 :: nat)"
    then show "word_bit (xbuf (xpcu_add_bit_for_ext_transfer x inb tms True)) j d =
        (j < length (L @ [cycle_word inb tms (xout x \<noteq> None)]) \<and> (L @ [cycle_word inb tms (xout x \<noteq> None)]) ! j ! d)"
      using add_bit_clear(2) [OF assms, of j d] by (auto simp: step bits nth_append less_Suc_eq)
  qed (simp_all add: step len x cycle_word_def)
qed

lemma add_dummy_holds:
  assumes "xts_holds x L" and "length L < 2 * CPLD_MAX_BYTES"
  shows "xts_holds (xpcu_add_bit_for_ext_transfer x False False False) (L @ [dummy_word])"
    and "xout (xpcu_add_bit_for_ext_transfer x False False False) = xout x"
proof -
  have x: "in_bits x = length L" "length (xbuf x) = CPLD_MAX_BYTES" "out_bits x = length (filter (\<lambda>w. w ! 3) L)"
    using assms(1) by (simp_all add: xts_holds_def)
  note step = add_bit_buf(1) [OF add_bit_clear(1) [OF assms], of False False]
  show "xout (xpcu_add_bit_for_ext_transfer x False False False) = xout x"
    by (simp add: step)
  show "xts_holds (xpcu_add_bit_for_ext_transfer x False False False) (L @ [dummy_word])"
    unfolding xts_holds_def
  proof (intro conjI allI impI)
    fix j d assume "j < 4 * ((length (L @ [dummy_word]) + 3) div 4)" and d: "d < (4 :: nat)"
    then show "word_bit (xbuf (xpcu_add_bit_for_ext_transfer x False False False)) j d =
        (j < length (L @ [dummy_word]) \<and> (L @ [dummy_word]) ! j ! d)"
      using add_bit_clear(2) [OF assms, of j d] four_cases [OF d]
      by (auto simp: step nth_append less_Suc_eq dummy_word_def)
  qed (simp_all add: step x dummy_word_def)
qed

end
