(* ===== verification/XpcTransfer.thy ===== *)
theory XpcTransfer
  imports XpcCpld
begin

text \<open>
  One transfer through the CPLD: the words of the buffer become cycles, and the bits that come back
  are moved to the front of the caller's buffer.
\<close>

section \<open>The bits that come back\<close>

definition stored :: "bool list \<Rightarrow> byte list \<Rightarrow> byte list \<Rightarrow> bool" where
  "stored g m m' \<longleftrightarrow> length m' = length m \<and> (\<forall>k < length g. buf_bit m' k = g ! k)"

lemma align_bits_stores:
  assumes "d + n \<le> 8 * length m" and "d mod 8 \<noteq> 0 \<Longrightarrow> \<forall>k. d \<le> k \<and> k div 8 = d div 8 \<longrightarrow> \<not> buf_bit m k"
  shows "\<exists>m'. align_bits buf sh [d..<d + n] (d, m) = (d + n, m') \<and> length m' = length m \<and>
    (\<forall>k < d + n. buf_bit m' k = (if k < d then buf_bit m k else buf_bit buf (k + sh)))"
  using assms
proof (induction n arbitrary: d m)
  case (Suc n)
  define m1 where "m1 = (if d mod 8 = 0 then m[d div 8 := 0] else m)"
  define m2 where "m2 = (if buf_bit buf (d + sh) then buf_put m1 d True else m1)"
  have idx: "d div 8 < length m" using Suc.prems(1) by (simp add: div_less_iff_less_mult)
  have len: "length m1 = length m" "length m2 = length m" by (simp_all add: m1_def m2_def)
  have old: "buf_bit m1 k = buf_bit m k" if "k < d" for k
  proof (cases "d mod 8 = 0")
    case True
    then have "k div 8 \<noteq> d div 8" using that by (metis div_mult_mod_eq less_add_same_cancel1 linorder_not_less mod_less_eq_dividend add.right_neutral le_add1 nat_arith.rule0 leD)
    then show ?thesis using True by (simp add: m1_def buf_bit_def)
  qed (simp add: m1_def)
  have clear: "\<not> buf_bit m1 k" if "d \<le> k" "k div 8 = d div 8" for k
    using that Suc.prems(2) idx by (cases "d mod 8 = 0") (auto simp: m1_def buf_bit_def)
  have bit2: "buf_bit m2 k = (if k = d then buf_bit buf (d + sh) else buf_bit m1 k)" for k
    using clear [of d] idx by (auto simp: m2_def buf_bit_put len)
  have "align_bits buf sh [d..<d + Suc n] (d, m) = align_bits buf sh [Suc d..<Suc d + n] (Suc d, m2)"
  proof -
    have "[d..<d + Suc n] = d # [Suc d..<Suc d + n]" by (simp add: upt_rec)
    then show ?thesis
      by (simp only: align_bits.simps Let_def)
         (simp add: m1_def m2_def buf_put_def put_bit_def buf_bit_def del: upt_Suc)
  qed
  moreover obtain m' where "align_bits buf sh [Suc d..<Suc d + n] (Suc d, m2) = (Suc d + n, m')"
    "length m' = length m2"
    "\<forall>k < Suc d + n. buf_bit m' k = (if k < Suc d then buf_bit m2 k else buf_bit buf (k + sh))"
  proof (rule exE [OF Suc.IH [of "Suc d" m2]])
    show "Suc d + n \<le> 8 * length m2" using Suc.prems(1) by (simp add: len)
    show "\<forall>k. Suc d \<le> k \<and> k div 8 = Suc d div 8 \<longrightarrow> \<not> buf_bit m2 k" if "Suc d mod 8 \<noteq> 0"
    proof -
      have "Suc d div 8 = d div 8" using that by (simp add: div_Suc)
      then show ?thesis using clear by (auto simp: bit2)
    qed
  qed (use that in blast)
  ultimately show ?case
    using old by (intro exI [of _ m']) (auto simp: len bit2 less_Suc_eq)
qed simp

lemma length_cpld_reply:
  "length (cpld_reply pb g) = 2 * (length g div 16) + (if length g mod 16 \<noteq> 0 then 2 else 0)"
proof -
  let ?n = "length g"
  have "nbytes (?n + reply_pad ?n) = 2 * (?n div 16) + (if ?n mod 16 \<noteq> 0 then 2 else 0)"
  proof -
    define q r where "q = ?n div 32" and "r = ?n mod 32"
    then have n: "?n = 32 * q + r" "r < 32" by simp_all
    have "32 * q + r = 16 * (2 * q) + r" by simp
    then have d16: "?n div 16 = 2 * q + r div 16" "?n mod 16 = r mod 16"
      unfolding n(1) by (simp_all only: div_mult_self4 mod_mult_self4)
    have pad: "reply_pad ?n = (if r = 0 then 0 else if r \<le> 16 then 16 - r else 32 - r)"
      by (simp add: reply_pad_def r_def Let_def)
    consider "r = 0" | "0 < r" "r < 16" | "r = 16" | "16 < r" by linarith
    then show ?thesis
    proof cases
      case 4
      then have e: "?n + reply_pad ?n = 8 * (4 * q + 4)"
        unfolding pad using n by simp
      from 4 n(2) have "r div 16 = 1" "r mod 16 = r - 16" by (simp_all add: div_if mod_if)
      then show ?thesis unfolding e nbytes_mult8 using 4 by (simp add: d16)
    next
      case 2
      then have e: "?n + reply_pad ?n = 8 * (4 * q + 2)" unfolding pad using n by simp
      show ?thesis unfolding e nbytes_mult8 using 2 by (simp add: d16)
    next
      case 3
      then have e: "?n + reply_pad ?n = 8 * (4 * q + 2)" unfolding pad using n by simp
      show ?thesis unfolding e nbytes_mult8 using 3 by (simp add: d16)
    next
      case 1
      then have e: "?n + reply_pad ?n = 8 * (4 * q)" unfolding pad using n by simp
      show ?thesis unfolding e nbytes_mult8 using 1 by (simp add: d16)
    qed
  qed
  then show ?thesis
    by (simp add: cpld_reply_def bits_bytes_def Let_def)
qed

lemma buf_bit_cpld_reply:
  assumes "k < length g"
  shows "buf_bit (cpld_reply pb g) (if k < 32 * (length g div 32) then k else k + reply_pad (length g)) = g ! k"
proof -
  let ?n = "length g" let ?f = "32 * (length g div 32)" let ?p = "reply_pad (length g)"
  let ?b = "take ?f g @ replicate ?p pb @ drop ?f g"
  let ?k = "if k < ?f then k else k + ?p"
  have f: "?f \<le> ?n" by simp
  have "buf_bit (cpld_reply pb g) ?k = ?b ! ?k"
    unfolding cpld_reply_def Let_def using assms f by (intro buf_bit_bits_bytes) auto
  also have "\<dots> = g ! k"
    using assms f by (auto simp: nth_append)
  finally show ?thesis .
qed

lemma overlay_bit:
  assumes "k div 8 < length got" and "length got \<le> length buf"
  shows "buf_bit (overlay got buf) k = buf_bit got k"
  using assms by (simp add: overlay_def buf_bit_def nth_append)

lemma take_out_stores:
  assumes "out_bits x = length g" and "xout x = Some m" and "length g \<le> 8 * length m"
    and "xbuf x = overlay (cpld_reply pb g) buf" and "length (cpld_reply pb g) \<le> length buf"
  shows "\<exists>d m'. take_out x = (d, m') \<and> stored g m m'"
proof -
  let ?n = "length g" let ?A = "?n div 32 * 4"
  have A: "8 * ?A = 32 * (?n div 32)" "8 * ?A \<le> ?n" by simp_all
  have lr: "?A \<le> length (cpld_reply pb g)"
  proof -
    have "?n + reply_pad ?n \<le> 8 * length (cpld_reply pb g)"
      unfolding cpld_reply_def Let_def bits_bytes_def using nbytes_bound(1) by simp
    with A(2) show ?thesis by linarith
  qed
  define m1 where "m1 = overlay (take ?A (xbuf x)) m"
  have lx: "length (xbuf x) = length buf" using assms(4,5) by (simp add: overlay_def)
  have len1: "length m1 = length m" by (simp add: m1_def overlay_def)
  have src: "buf_bit (xbuf x) k = buf_bit (cpld_reply pb g) k" if "k < 8 * length (cpld_reply pb g)" for k
    using that assms(4,5) by (simp add: overlay_bit div_less_iff_less_mult mult.commute)
  have al: "buf_bit m1 k = g ! k" if "k < 8 * ?A" for k
  proof -
    have i: "k div 8 < ?A" using that by (simp add: div_less_iff_less_mult)
    have "?A \<le> length m" using assms(3) by simp
    then have "buf_bit m1 k = buf_bit (take ?A (xbuf x)) k"
      using i lx lr assms(5) by (auto simp: m1_def intro!: overlay_bit)
    also have "\<dots> = buf_bit (xbuf x) k" using i by (simp add: buf_bit_def)
    also have "\<dots> = buf_bit (cpld_reply pb g) k" using that lr by (intro src) simp
    also have "\<dots> = g ! k" using buf_bit_cpld_reply [of k g pb] that A by simp
    finally show ?thesis .
  qed
  show ?thesis
  proof (cases "?n mod 32 = 0")
    case True
    then have "?n = 8 * ?A" using div_mult_mod_eq [of ?n 32] by linarith
    moreover have "take_out x = (?A * 8, m1)"
      using True assms(1,2) by (simp add: take_out_def m1_def Let_def)
    ultimately show ?thesis using al len1 by (auto simp: stored_def)
  next
    case False
    let ?sh = "if ?n mod 16 \<noteq> 0 then 16 - ?n mod 16 else ?n mod 16"
    have sh: "?sh = reply_pad ?n"
    proof -
      define r where "r = ?n mod 32"
      have "?n mod 16 = r mod 16" "r < 32" by (simp_all add: r_def mod_mod_cancel)
      then have "?n mod 16 = (if r < 16 then r else r - 16)" by (simp add: mod_if)
      then show ?thesis
        using False \<open>r < 32\<close> unfolding reply_pad_def Let_def r_def [symmetric] by auto
    qed
    have "take_out x = align_bits (xbuf x) (reply_pad ?n) [?A * 8..<?A * 8 + ?n mod 32] (?A * 8, m1)"
    proof -
      have "?A * 8 + ?n mod 32 = ?n" by simp
      then show ?thesis
        using False assms(1,2) sh by (simp add: take_out_def m1_def Let_def)
    qed
    moreover obtain m' where "align_bits (xbuf x) (reply_pad ?n) [?A * 8..<?A * 8 + ?n mod 32] (?A * 8, m1) =
        (?A * 8 + ?n mod 32, m')" "length m' = length m1"
      "\<forall>k < ?A * 8 + ?n mod 32. buf_bit m' k = (if k < ?A * 8 then buf_bit m1 k else buf_bit (xbuf x) (k + reply_pad ?n))"
      using align_bits_stores [of "?A * 8" "?n mod 32" m1 "xbuf x" "reply_pad ?n"] assms(3) len1 by auto
    moreover have "buf_bit (xbuf x) (k + reply_pad ?n) = g ! k" if "8 * ?A \<le> k" "k < ?n" for k
    proof -
      have "?n + reply_pad ?n \<le> 8 * length (cpld_reply pb g)"
        unfolding cpld_reply_def Let_def bits_bytes_def using nbytes_bound(1) by simp
      with that have "buf_bit (xbuf x) (k + reply_pad ?n) = buf_bit (cpld_reply pb g) (k + reply_pad ?n)"
        by (intro src) simp
      then show ?thesis using buf_bit_cpld_reply [of k g pb] that A by simp
    qed
    ultimately show ?thesis using al len1 by (auto simp: stored_def)
  qed
qed

section \<open>A transfer\<close>

lemma word_bit_take:
  assumes "i < n" and "c < 4"
  shows "word_bit (take (2 * (n div 4) + (if n mod 4 \<noteq> 0 then 2 else 0)) bs) i c = word_bit bs i c"
proof -
  have "i div 4 \<le> n div 4" using assms(1) by (simp add: div_le_mono)
  moreover have "n mod 4 = 0 \<Longrightarrow> i div 4 \<noteq> n div 4"
    using assms(1) by (metis add.right_neutral div_mult_mod_eq leD mult_le_mono1 times_div_less_eq_dividend mult.commute)
  moreover have "c div 2 < 2" using four_cases [OF assms(2)] by auto
  ultimately have "2 * (i div 4) + c div 2 < 2 * (n div 4) + (if n mod 4 \<noteq> 0 then 2 else 0)"
    by auto
  then show ?thesis by (simp add: word_bit_def)
qed

lemma do_transfer:
  assumes "xts_holds x L" and "L \<noteq> []" and "length L < 2 * CPLD_MAX_BYTES"
    and "\<forall>m. xout x = Some m \<longrightarrow> out_bits x \<le> 8 * length m" and "xout x = None \<longrightarrow> out_bits x = 0"
    and g: "g = samples env (line u) L"
  shows "\<exists>x' u'. xpcu_do_ext_transfer (cpld_usb env pb) x u = (0, x', u') \<and> xts_holds x' [] \<and>
    line u' = line u @ ticks L \<and> seen u' = seen u @ g \<and>
    (xout x = None \<longrightarrow> xout x' = None) \<and>
    (\<forall>m. xout x = Some m \<longrightarrow> (\<exists>m'. xout x' = Some m' \<and> stored g m m'))"
proof -
  let ?in = "2 * (in_bits x div 4) + (if in_bits x mod 4 \<noteq> 0 then 2 else 0)"
  have x: "in_bits x = length L" "length (xbuf x) = 4096" "out_bits x = length g"
    using assms(1) by (simp_all add: xts_holds_def CPLD_MAX_BYTES_def g length_samples)
  have words: "word_bit (take ?in (xbuf x)) (0 + i) c = L ! i ! c" if "i < length L" "c < 4" for i c
  proof -
    have "i < 4 * ((length L + 3) div 4)" using that(1) by linarith
    then show ?thesis using assms(1) that word_bit_take [of i "length L" c "xbuf x"]
      by (simp add: xts_holds_def)
  qed
  note run = cpld_run_words [OF words, where env = env and l = "line u" and g = "[]"]
  define u1 where "u1 = u\<lparr>announced := length L, line := line u @ ticks L, seen := seen u @ g, queue := cpld_reply pb g\<rparr>"
  have sent: "bulk_write (cpld_usb env pb) (take ?in (xbuf x)) (u\<lparr>announced := length L\<rparr>) =
      (int (length (take ?in (xbuf x))), u1)"
    using run by (simp add: cpld_usb_def u1_def g)
  have ctl: "control_msg (cpld_usb env pb) 0xA6 (in_bits x) u = (0, u\<lparr>announced := length L\<rparr>)"
    by (simp add: cpld_usb_def x)
  have clean: "xts_holds (x\<lparr>xbuf := b, out_done := d, xout := o', in_bits := 0, out_bits := 0\<rparr>) []"
    if "length b = 4096" for b and d :: nat and o'
    using that by (simp add: xts_holds_def CPLD_MAX_BYTES_def)
  show ?thesis
  proof (cases "out_bits x = 0")
    case True
    then have "g = []" using x by simp
    have "xpcu_shift (cpld_usb env pb) 0xA6 (in_bits x) (take ?in (xbuf x)) 0 (xbuf x) u = (0, xbuf x, u1)"
      by (simp only: xpcu_shift_def ctl sent Let_def prod.case) simp
    then have "xpcu_do_ext_transfer (cpld_usb env pb) x u = (0, x\<lparr>in_bits := 0, out_bits := 0\<rparr>, u1)"
      using True by (simp add: xpcu_do_ext_transfer_def Let_def)
    then show ?thesis
      using clean [where b = "xbuf x" and d = "out_done x" and o' = "xout x"] \<open>g = []\<close>
      by (auto simp: u1_def stored_def x(2))
  next
    case False
    then obtain m where m: "xout x = Some m" using assms(5) by (cases "xout x") auto
    let ?out = "2 * (out_bits x div 16) + (if out_bits x mod 16 \<noteq> 0 then 2 else 0)"
    have lo: "?out = length (cpld_reply pb g)" by (simp add: length_cpld_reply x)
    have pos: "0 < ?out" using False by presburger
    have "length g \<le> length L" by (simp add: g length_samples)
    then have small: "length (cpld_reply pb g) \<le> 4096"
      using assms(3) unfolding length_cpld_reply CPLD_MAX_BYTES_def by auto
    have read: "bulk_read (cpld_usb env pb) ?out u1 =
        ((int (length (cpld_reply pb g)), cpld_reply pb g), u1\<lparr>queue := []\<rparr>)"
      unfolding lo by (simp add: cpld_usb_def u1_def)
    have shift: "xpcu_shift (cpld_usb env pb) 0xA6 (in_bits x) (take ?in (xbuf x)) ?out (xbuf x) u =
        (0, overlay (cpld_reply pb g) (xbuf x), u1\<lparr>queue := []\<rparr>)"
      using pos by (simp only: xpcu_shift_def ctl sent read Let_def prod.case) simp
    let ?x = "x\<lparr>xbuf := overlay (cpld_reply pb g) (xbuf x)\<rparr>"
    obtain d m' where out: "take_out ?x = (d, m')" "stored g m m'"
      using take_out_stores [of ?x g m pb "xbuf x"] assms(4) m small x by auto
    have "xpcu_do_ext_transfer (cpld_usb env pb) x u =
        (0, ?x\<lparr>out_done := d, xout := Some m', in_bits := 0, out_bits := 0\<rparr>, u1\<lparr>queue := []\<rparr>)"
      using False m out(1) shift by (simp add: xpcu_do_ext_transfer_def Let_def)
    moreover have "length (overlay (cpld_reply pb g) (xbuf x)) = 4096"
      using small x(2) by (simp add: overlay_def)
    ultimately show ?thesis
      using clean [where b = "overlay (cpld_reply pb g) (xbuf x)" and d = d and o' = "Some m'"] m out(2) by (simp add: u1_def)
  qed
qed

end
