(* ===== verification/XpcProps.thy ===== *)
theory XpcProps
  imports XpcTransfer
begin

text \<open>
  The Platform Cable USB with its CPLD: blocks are cut into transfers of 8191 cycles. The cable meets
  the contract of its callers on the wire; what it returns is right for blocks of one transfer.
\<close>

section \<open>Feeding cycles\<close>

definition full_chunk :: nat where "full_chunk = 8191"

definition cycle_words :: "bool \<Rightarrow> (bool \<times> bool) list \<Rightarrow> bool list list" where
  "cycle_words rd = map (\<lambda>(a, b). cycle_word a b rd)"

lemma cycle_words_simps [simp]:
  "cycle_words rd [] = []" "cycle_words rd (F @ [(a, b)]) = cycle_words rd F @ [cycle_word a b rd]"
  "length (cycle_words rd F) = length F"
  by (simp_all add: cycle_words_def)

lemma ticks_cycle_words: "ticks (cycle_words rd F) = map (\<lambda>(a, b). (b, a)) F"
  by (induction F) (auto simp: ticks_def cycle_words_def cycle_word_def)

lemma length_samples_cycles: "length (samples env l (cycle_words rd F)) = (if rd then length F else 0)"
  by (induction F) (auto simp: length_samples cycle_words_def cycle_word_def)

lemma samples_none: "samples env l (cycle_words False F) = []"
  using length_samples_cycles [of env l False F] by simp

text \<open>
  The state after the cycles \<open>F\<close>: the full chunks are out, the rest is in the buffer. The caller's
  memory holds the last full chunk only, since every transfer starts at its front.
\<close>

definition fed :: "tdo_env \<Rightarrow> cpld \<Rightarrow> byte list option \<Rightarrow> (bool \<times> bool) list \<Rightarrow> int \<times> xts \<times> cpld \<Rightarrow> bool" where
  "fed env u0 m0 F s \<longleftrightarrow> (\<exists>x u. s = (0, x, u) \<and>
     (let rd = (m0 \<noteq> None); W = cycle_words rd F; c = full_chunk * (length F div full_chunk)
      in xts_holds x (drop c W) \<and> line u = line u0 @ ticks (take c W) \<and>
         seen u = seen u0 @ samples env (line u0) (take c W) \<and>
         (m0 = None \<longrightarrow> xout x = None) \<and>
         (\<forall>m. m0 = Some m \<longrightarrow> (\<exists>m'. xout x = Some m' \<and> length m' = length m \<and>
            (0 < c \<longrightarrow> (\<forall>k < full_chunk. buf_bit m' k = samples env (line u0) (take c W) ! (c - full_chunk + k)))))))"

lemma fed_init: "fed env u m0 [] (0, xts_init junk m0, u)"
  by (auto simp: fed_def xts_init_def xts_holds_def CPLD_MAX_BYTES_def full_chunk_def)

lemma stored_append:
  assumes "stored (samples env (l @ ticks A) B) m m'" and "k < length (samples env (l @ ticks A) B)"
  shows "buf_bit m' k = samples env l (A @ B) ! (length (samples env l A) + k)"
  using assms by (simp add: stored_def samples_append nth_append)

lemma fed_cycle:
  assumes "fed env u0 m0 F s" and "\<And>m. m0 = Some m \<Longrightarrow> length F < 8 * length m"
  shows "fed env u0 m0 (F @ [(a, b)]) (xpc_cycle (cpld_usb env pb) a b s)"
proof -
  define rd where "rd = (m0 \<noteq> None)"
  define W where "W = cycle_words rd F"
  define c where "c = full_chunk * (length F div full_chunk)"
  define W2 where "W2 = cycle_words rd (F @ [(a, b)])"
  let ?w = "cycle_word a b rd"
  obtain x u where s: "s = (0, x, u)" and x: "xts_holds x (drop c W)"
    and u: "line u = line u0 @ ticks (take c W)" "seen u = seen u0 @ samples env (line u0) (take c W)"
    and out: "m0 = None \<Longrightarrow> xout x = None"
    and mem: "\<And>m. m0 = Some m \<Longrightarrow> \<exists>m'. xout x = Some m' \<and> length m' = length m \<and>
      (0 < c \<longrightarrow> (\<forall>k < full_chunk. buf_bit m' k = samples env (line u0) (take c W) ! (c - full_chunk + k)))"
    using assms(1) unfolding fed_def Let_def rd_def W_def c_def by blast
  have c: "c \<le> length F" "length F - c < full_chunk"
    by (simp_all add: c_def full_chunk_def minus_mult_div_eq_mod)
  have rd: "(xout x \<noteq> None) = rd" using out mem by (cases m0) (auto simp: rd_def)
  define P where "P = drop c W @ [?w]"
  have lenP: "length P = length F - c + 1" by (simp add: P_def W_def)
  have small: "length (drop c W) < 2 * CPLD_MAX_BYTES"
    using c by (simp add: W_def full_chunk_def CPLD_MAX_BYTES_def)
  let ?x = "xpcu_add_bit_for_ext_transfer x a b True"
  have x1: "xts_holds ?x P" "xout ?x = xout x"
    using add_bit_holds [OF x small, of a b] rd by (simp_all add: P_def)
  have W': "W2 = W @ [?w]" "length W = length F" by (simp_all add: W_def W2_def)
  have in1: "in_bits ?x = length P" using x1(1) by (simp add: xts_holds_def)
  show ?thesis
  proof (cases "length P = full_chunk")
    case False
    then have "Suc (length F) mod full_chunk = Suc (length F mod full_chunk)"
      using c lenP by (simp add: c_def full_chunk_def minus_mult_div_eq_mod mod_Suc)
    then have "full_chunk * (Suc (length F) div full_chunk) = c"
      by (simp add: c_def full_chunk_def div_Suc)
    moreover have "drop c W2 = P" "take c W2 = take c W" using W' c(1) by (simp_all add: P_def)
    moreover have "xpc_cycle (cpld_usb env pb) a b s = (0, ?x, u)"
      using False in1 by (simp add: s xpc_cycle_def Let_def CPLD_MAX_BYTES_def full_chunk_def)
    ultimately show ?thesis
      unfolding fed_def Let_def rd_def [symmetric] W2_def [symmetric] using x1 u out mem by simp
  next
    case True
    have lF: "Suc (length F) = c + full_chunk" using True lenP c(1) by simp
    have c': "full_chunk * (Suc (length F) div full_chunk) = c + full_chunk"
      unfolding lF c_def by (simp add: full_chunk_def)
    have W'': "take (c + full_chunk) W2 = take c W @ P" "drop (c + full_chunk) W2 = []"
      using W' lF by (simp_all add: P_def flip: lF)
    have bits: "out_bits ?x = length (samples env (line u) P)"
      using x1(1) by (simp add: xts_holds_def length_samples)
    have lc: "length (samples env (line u0) (take c W)) = (if rd then c else 0)"
      using length_samples_cycles [of env "line u0" rd "take c F"] c(1)
      by (simp add: W_def cycle_words_def take_map)
    have lp: "length (samples env (line u) P) = (if rd then full_chunk else 0)"
    proof -
      have "P = cycle_words rd (drop c (F @ [(a, b)]))"
        using c(1) by (simp add: P_def W_def cycle_words_def drop_map)
      moreover have "length (drop c (F @ [(a, b)])) = full_chunk" using lF by simp
      ultimately show ?thesis using length_samples_cycles [of env "line u" rd "drop c (F @ [(a, b)])"] by metis
    qed
    have room: "\<forall>m. xout ?x = Some m \<longrightarrow> out_bits ?x \<le> 8 * length m"
      using bits lp lF x1(2) mem assms(2) out rd by (cases m0) fastforce+
    have none: "xout ?x = None \<longrightarrow> out_bits ?x = 0"
      using bits lp x1(2) rd by auto
    obtain x2 u2 where step: "xpcu_do_ext_transfer (cpld_usb env pb) ?x u = (0, x2, u2)" "xts_holds x2 []"
      "line u2 = line u @ ticks P" "seen u2 = seen u @ samples env (line u) P"
      "xout ?x = None \<longrightarrow> xout x2 = None"
      "\<forall>m. xout ?x = Some m \<longrightarrow> (\<exists>m'. xout x2 = Some m' \<and> stored (samples env (line u) P) m m')"
      using do_transfer [OF x1(1) _ _ room none refl, where pb = pb and env = env and u = u] True
      by (fastforce simp: CPLD_MAX_BYTES_def full_chunk_def)
    have run: "xpc_cycle (cpld_usb env pb) a b s = (0, x2, u2)"
      using True in1 step(1) by (simp add: s xpc_cycle_def Let_def CPLD_MAX_BYTES_def full_chunk_def)
    have memory: "\<exists>m'. xout x2 = Some m' \<and> length m' = length m \<and>
        (\<forall>k < full_chunk. buf_bit m' k = samples env (line u0) (take c W @ P) ! (c + k))" if m0: "m0 = Some m" for m
    proof -
      obtain m1 where m1: "xout x = Some m1" "length m1 = length m" using mem [OF m0] by blast
      then obtain m2 where m2: "xout x2 = Some m2" "stored (samples env (line u) P) m1 m2"
        using step(6) x1(2) by auto
      have rd': "rd" using m0 by (simp add: rd_def)
      have "buf_bit m2 k = samples env (line u0) (take c W @ P) ! (c + k)" if "k < full_chunk" for k
        using stored_append [of env "line u0" "take c W" P m1 m2 k] m2(2) lp lc rd' that u(1) by simp
      then show ?thesis using m1 m2 by (auto simp: stored_def)
    qed
    have "line u2 = line u0 @ ticks (take c W @ P)" "seen u2 = seen u0 @ samples env (line u0) (take c W @ P)"
      using step(3,4) u by (simp_all add: samples_append)
    moreover have "length (F @ [(a, b)]) = Suc (length F)" by simp
    moreover have "m0 = None \<Longrightarrow> xout x2 = None" using out step(5) x1(2) by simp
    ultimately show ?thesis
      unfolding fed_def Let_def rd_def [symmetric] W2_def [symmetric] run
      using step(2) memory by (simp only: c' W'') (simp, blast)
  qed
qed

section \<open>The end of a block\<close>

lemma transfer_rest:
  assumes "xts_holds x L" and "L \<noteq> []" and "length L < full_chunk" and L: "L = cycle_words rd G"
    and "rd = (xout x \<noteq> None)" and "\<forall>m. xout x = Some m \<longrightarrow> length L \<le> 8 * length m"
  shows "\<exists>x' u'. xpc_finish (cpld_usb env pb) (0, x, u) = (0, x', u') \<and> line u' = line u @ ticks L \<and>
    seen u' = seen u @ samples env (line u) L \<and> (xout x = None \<longrightarrow> xout x' = None) \<and>
    (\<forall>m. xout x = Some m \<longrightarrow> (\<exists>m'. xout x' = Some m' \<and> stored (samples env (line u) L) m m'))"
proof -
  define D where "D = (if length L mod 4 = 0 then L @ [dummy_word] else L)"
  define x1 where "x1 = (if in_bits x mod 4 = 0 then xpcu_add_bit_for_ext_transfer x False False False else x)"
  have len: "length L < 2 * CPLD_MAX_BYTES" using assms(3) by (simp add: full_chunk_def CPLD_MAX_BYTES_def)
  have x1: "xts_holds x1 D" "xout x1 = xout x"
    using add_dummy_holds [OF assms(1) len] assms(1) by (auto simp: x1_def D_def xts_holds_def)
  have same: "ticks D = ticks L" "samples env l D = samples env l L" for l
    by (simp_all add: D_def samples_append) (simp_all add: ticks_def dummy_word_def)
  have bits: "out_bits x1 = (if rd then length L else 0)"
    using x1(1) length_samples_cycles [of env "line u" rd G] same(2) [of "line u"]
    by (simp add: xts_holds_def L flip: length_samples [of env "line u"])
  have room: "\<forall>m. xout x1 = Some m \<longrightarrow> out_bits x1 \<le> 8 * length m"
    using assms(5,6) bits x1(2) by simp
  have none: "xout x1 = None \<longrightarrow> out_bits x1 = 0" using assms(5) bits x1(2) by simp
  have "D \<noteq> []" "length D < 2 * CPLD_MAX_BYTES"
    using assms(2,3) by (auto simp: D_def full_chunk_def CPLD_MAX_BYTES_def)
  from do_transfer [OF x1(1) this room none refl, where pb = pb and env = env and u = u]
  have "\<exists>x' u'. xpcu_do_ext_transfer (cpld_usb env pb) x1 u = (0, x', u') \<and> line u' = line u @ ticks L \<and>
    seen u' = seen u @ samples env (line u) L \<and> (xout x = None \<longrightarrow> xout x' = None) \<and>
    (\<forall>m. xout x = Some m \<longrightarrow> (\<exists>m'. xout x' = Some m' \<and> stored (samples env (line u) L) m m'))"
    unfolding same x1(2) by (elim exE conjE) (intro exI conjI, assumption+)
  moreover have "in_bits x = length L" using assms(1) by (simp add: xts_holds_def)
  ultimately show ?thesis
    using assms(2) by (simp add: xpc_finish_def Let_def x1_def)
qed

text \<open>\<open>last_chunk n\<close> is where the last transfer of \<open>n\<close> cycles starts.\<close>

definition last_chunk :: "nat \<Rightarrow> nat" where
  "last_chunk n = full_chunk * ((n - 1) div full_chunk)"

lemma fed_finish:
  assumes "fed env u0 m0 F s" and "F \<noteq> []" and "\<And>m. m0 = Some m \<Longrightarrow> length F \<le> 8 * length m"
  shows "\<exists>x u. xpc_finish (cpld_usb env pb) s = (0, x, u) \<and> line u = line u0 @ map (\<lambda>(a, b). (b, a)) F \<and>
    seen u = seen u0 @ samples env (line u0) (cycle_words (m0 \<noteq> None) F) \<and> (m0 = None \<longrightarrow> xout x = None) \<and>
    (\<forall>m. m0 = Some m \<longrightarrow> (\<exists>m'. xout x = Some m' \<and> length m' = length m \<and> (\<forall>k < length F - last_chunk (length F).
       buf_bit m' k = samples env (line u0) (cycle_words True F) ! (last_chunk (length F) + k))))"
proof -
  define rd where "rd = (m0 \<noteq> None)"
  define W where "W = cycle_words rd F"
  define c where "c = full_chunk * (length F div full_chunk)"
  obtain x u where s: "s = (0, x, u)" and x: "xts_holds x (drop c W)"
    and u: "line u = line u0 @ ticks (take c W)" "seen u = seen u0 @ samples env (line u0) (take c W)"
    and out: "m0 = None \<Longrightarrow> xout x = None"
    and mem: "\<And>m. m0 = Some m \<Longrightarrow> \<exists>m'. xout x = Some m' \<and> length m' = length m \<and>
      (0 < c \<longrightarrow> (\<forall>k < full_chunk. buf_bit m' k = samples env (line u0) (take c W) ! (c - full_chunk + k)))"
    using assms(1) unfolding fed_def Let_def rd_def W_def c_def by blast
  have c: "c \<le> length F" "length F - c < full_chunk"
    by (simp_all add: c_def full_chunk_def minus_mult_div_eq_mod)
  have rd: "rd = (xout x \<noteq> None)" using out mem by (cases m0) (auto simp: rd_def)
  have W: "length W = length F" "ticks W = map (\<lambda>(a, b). (b, a)) F"
    by (simp_all add: W_def ticks_cycle_words)
  show ?thesis
  proof (cases "c = length F")
    case True
    have "xpc_finish (cpld_usb env pb) s = (0, x, u)"
      using x True W(1) by (simp add: s xpc_finish_def xts_holds_def)
    moreover have "last_chunk (length F) = c - full_chunk" "0 < c"
    proof -
      show "0 < c" using assms(2) True by simp
      then obtain q where "length F div full_chunk = Suc q"
        by (cases "length F div full_chunk") (simp_all add: c_def)
      then have "length F = full_chunk * Suc q" using True by (simp add: c_def)
      then have "(length F - 1) div full_chunk = q"
        by (simp add: full_chunk_def)
      then show "last_chunk (length F) = c - full_chunk"
        using \<open>length F = full_chunk * Suc q\<close> True by (simp add: last_chunk_def)
    qed
    ultimately show ?thesis
      using u out mem True W unfolding rd_def [symmetric] W_def [symmetric]
      by (auto simp: W_def rd_def)
  next
    case False
    then have L: "drop c W \<noteq> []" "length (drop c W) < full_chunk" "drop c W = cycle_words rd (drop c F)"
      using c W(1) by (simp_all add: W_def cycle_words_def drop_map)
    have last: "last_chunk (length F) = c"
    proof -
      have "0 < length F mod full_chunk" using False c(1) by (metis c_def gr0I minus_mod_eq_mult_div minus_nat.diff_0)
      then have "(length F - 1) div full_chunk = length F div full_chunk"
        by (metis Suc_pred' div_Suc gr0I length_greater_0_conv assms(2) mod_0 Suc_diff_1 nat_less_le)
      then show ?thesis by (simp add: last_chunk_def c_def)
    qed
    have room: "\<forall>m. xout x = Some m \<longrightarrow> length (drop c W) \<le> 8 * length m"
      using mem assms(3) out W(1) by (cases m0) fastforce+
    obtain x' u' where fin: "xpc_finish (cpld_usb env pb) (0, x, u) = (0, x', u')"
      "line u' = line u @ ticks (drop c W)" "seen u' = seen u @ samples env (line u) (drop c W)"
      "xout x = None \<longrightarrow> xout x' = None"
      "\<forall>m. xout x = Some m \<longrightarrow> (\<exists>m'. xout x' = Some m' \<and> stored (samples env (line u) (drop c W)) m m')"
      using transfer_rest [OF x L rd room, where env = env and pb = pb and u = u] by (elim exE conjE)
    have all: "ticks (take c W) @ ticks (drop c W) = ticks W"
      "samples env (line u0) (take c W) @ samples env (line u) (drop c W) = samples env (line u0) W"
      unfolding u(1) by (simp_all flip: ticks_simps(2) samples_append)
    have lc: "length (samples env (line u0) (take c W)) = (if rd then c else 0)"
      using length_samples_cycles [of env "line u0" rd "take c F"] c(1)
      by (simp add: W_def cycle_words_def take_map)
    have lp: "length (samples env (line u) (drop c W)) = (if rd then length F - c else 0)"
      using length_samples_cycles [of env "line u" rd "drop c F"] L(3) by simp
    have memory: "\<exists>m'. xout x' = Some m' \<and> length m' = length m \<and>
        (\<forall>k < length F - c. buf_bit m' k = samples env (line u0) W ! (c + k))" if m0: "m0 = Some m" for m
    proof -
      obtain m1 where m1: "xout x = Some m1" "length m1 = length m" using mem [OF m0] by blast
      then obtain m2 where m2: "xout x' = Some m2" "stored (samples env (line u) (drop c W)) m1 m2"
        using fin(5) by auto
      have "rd" using m0 by (simp add: rd_def)
      then have "buf_bit m2 k = samples env (line u0) W ! (c + k)" if "k < length F - c" for k
        using stored_append [of env "line u0" "take c W" "drop c W" m1 m2 k] m2(2) lp lc that u(1) by simp
      then show ?thesis using m1 m2 by (auto simp: stored_def)
    qed
    have "line u' = line u0 @ ticks W" "seen u' = seen u0 @ samples env (line u0) W"
      using fin(2,3) u all by simp_all
    then show ?thesis
      unfolding last rd_def [symmetric] W_def [symmetric] s using fin(1,4) memory out W(2)
      by (auto simp: W_def rd_def)
  qed
qed

end
