(* ===== verification/XpcClaims.thy ===== *)
theory XpcClaims
  imports XpcProps
begin

text \<open>
  The promises of the Platform Cable USB: the contract of a cable on the wire and the levels read, for
  the CPLD, and what the blocks of a cable on a board do.
\<close>

section \<open>Blocks through the CPLD\<close>

definition in_bit :: "byte list option \<Rightarrow> nat \<Rightarrow> bool" where
  "in_bit inp i = (case inp of None \<Rightarrow> False | Some bs \<Rightarrow> buf_bit bs i)"

definition block_cycles :: "byte list option \<Rightarrow> nat \<Rightarrow> bool \<Rightarrow> (bool \<times> bool) list" where
  "block_cycles inp n lastb = map (\<lambda>i. (in_bit inp i, i = n - 1 \<and> lastb)) [0..<n]"

lemma and_7 [simp]: "i AND 7 = i mod (8 :: nat)" and drop_3 [simp]: "drop_bit 3 i = i div (8 :: nat)"
  using take_bit_eq_mask [of 3 i] by (simp_all add: take_bit_eq_mod drop_bit_eq_div mask_eq_exp_minus_1)

lemma fed_ok: "fed env u0 m0 F s \<Longrightarrow> fst s = 0"
  by (auto simp: fed_def)

lemma ext_loop_fed:
  assumes "fed env u0 m0 (map c [0..<i]) s" and "\<forall>m. m0 = Some m \<longrightarrow> i + k \<le> 8 * length m" and "i + k = n"
    and "c = (\<lambda>i. (in_bit inp i, i = n - 1 \<and> lastb))"
    and "i mod 8 \<noteq> 0 \<Longrightarrow> tdi = (case inp of None \<Rightarrow> 0 | Some bs \<Rightarrow> drop_bit (i mod 8) (bs ! (i div 8)))"
  shows "fed env u0 m0 (map c [0..<n]) (ext_loop (cpld_usb env pb) inp n lastb i k tdi s)"
  using assms
proof (induction k arbitrary: i tdi s)
  case (Suc k)
  define t where "t = (case inp of Some bs \<Rightarrow> if i mod 8 = 0 then bs ! (i div 8) else tdi | None \<Rightarrow> 0)"
  have t: "t = (case inp of None \<Rightarrow> 0 | Some bs \<Rightarrow> drop_bit (i mod 8) (bs ! (i div 8)))"
    using Suc.prems(5) by (auto simp: t_def split: option.splits)
  then have b: "bit t 0 = in_bit inp i"
    by (auto simp: in_bit_def buf_bit_def bit_drop_bit_eq split: option.splits)
  have "fed env u0 m0 (map c [0..<i] @ [(bit t 0, i = n - 1 \<and> lastb)])
      (xpc_cycle (cpld_usb env pb) (bit t 0) (i = n - 1 \<and> lastb) s)"
    using Suc.prems(1,2) by (intro fed_cycle) auto
  then have step: "fed env u0 m0 (map c [0..<Suc i]) (xpc_cycle (cpld_usb env pb) (bit t 0) (i = n - 1 \<and> lastb) s)"
    by (simp add: b Suc.prems(4))
  have "Suc i mod 8 \<noteq> 0 \<Longrightarrow> drop_bit 1 t = (case inp of None \<Rightarrow> 0 | Some bs \<Rightarrow> drop_bit (Suc i mod 8) (bs ! (Suc i div 8)))"
    unfolding t by (auto simp: drop_bit_drop_bit mod_Suc div_Suc split: option.splits if_splits)
  from Suc.IH [OF step _ _ Suc.prems(4) this] Suc.prems(2,3)
  have "fed env u0 m0 (map c [0..<n]) (ext_loop (cpld_usb env pb) inp n lastb (Suc i) k (drop_bit 1 t)
      (xpc_cycle (cpld_usb env pb) (bit t 0) (i = n - 1 \<and> lastb) s))" by simp
  moreover have "ext_loop (cpld_usb env pb) inp n lastb i (Suc k) tdi s =
      ext_loop (cpld_usb env pb) inp n lastb (Suc i) k (drop_bit 1 t)
        (xpc_cycle (cpld_usb env pb) (bit t 0) (i = n - 1 \<and> lastb) s)"
    unfolding ext_loop.simps and_7 drop_3 Let_def t_def [symmetric] using fed_ok [OF Suc.prems(1)] by auto
  ultimately show ?case by simp
qed simp

lemma ext_tms_loop_fed:
  assumes "fed env u0 None (map c [0..<i]) s" and "i + k = n" and "c = (\<lambda>i. (True, buf_bit pat i))"
  shows "fed env u0 None (map c [0..<n]) (ext_tms_loop (cpld_usb env pb) pat i k s)"
  using assms
proof (induction k arbitrary: i s)
  case (Suc k)
  have "fed env u0 None (map c [0..<i] @ [(True, buf_bit pat i)]) (xpc_cycle (cpld_usb env pb) True (buf_bit pat i) s)"
    using Suc.prems(1) by (intro fed_cycle) auto
  then have "fed env u0 None (map c [0..<Suc i]) (xpc_cycle (cpld_usb env pb) True (buf_bit pat i) s)"
    by (simp add: Suc.prems(3))
  from Suc.IH [OF this _ Suc.prems(3)] Suc.prems(2) show ?case
    using fed_ok [OF Suc.prems(1)] by (simp add: buf_bit_def)
qed simp

lemma ext_block_delivers:
  assumes "0 < n" and r_def: "r = ext_block (cpld_usb env pb) junk inp want n lastb u"
  shows "line (snd r) = line u @ map (\<lambda>(a, b). (b, a)) (block_cycles inp n lastb)"
    and "want \<Longrightarrow> \<exists>new. seen (snd r) = seen u @ new \<and> length new = n \<and>
      (\<forall>k < n - last_chunk n. buf_bit (fst r) k = new ! (last_chunk n + k))"
proof -
  define m0 where "m0 = (if want then Some (replicate (nbytes n) junk) else None)"
  let ?s = "ext_loop (cpld_usb env pb) inp n lastb 0 n junk (0, xts_init junk m0, u)"
  let ?F = "block_cycles inp n lastb"
  have room: "\<forall>m. m0 = Some m \<longrightarrow> n \<le> 8 * length m" using nbytes_bound(1) by (auto simp: m0_def)
  have "fed env u m0 ?F ?s"
    unfolding block_cycles_def by (rule ext_loop_fed [OF _ _ _ refl]) (use fed_init room in auto)
  moreover have "?F \<noteq> []" "length ?F = n" using assms(1) by (simp_all add: block_cycles_def)
  ultimately obtain x u' where fin: "xpc_finish (cpld_usb env pb) ?s = (0, x, u')"
    "line u' = line u @ map (\<lambda>(a, b). (b, a)) ?F"
    "seen u' = seen u @ samples env (line u) (cycle_words (m0 \<noteq> None) ?F)"
    "\<forall>m. m0 = Some m \<longrightarrow> (\<exists>m'. xout x = Some m' \<and> length m' = length m \<and> (\<forall>k < n - last_chunk n.
       buf_bit m' k = samples env (line u) (cycle_words True ?F) ! (last_chunk n + k)))"
    using fed_finish [of env u m0 ?F ?s pb] room by auto
  then have r: "r = (case xout x of None \<Rightarrow> [] | Some m \<Rightarrow> m, u')"
    by (simp add: r_def ext_block_def m0_def Let_def)
  show "line (snd r) = line u @ map (\<lambda>(a, b). (b, a)) ?F" using fin(2) by (simp add: r)
  show "\<exists>new. seen (snd r) = seen u @ new \<and> length new = n \<and>
      (\<forall>k < n - last_chunk n. buf_bit (fst r) k = new ! (last_chunk n + k))" if "want"
    using fin(3,4) that length_samples_cycles [of env "line u" True ?F] \<open>length ?F = n\<close>
    by (auto simp: r m0_def)
qed

lemma ext_tms_line:
  "map fst (line (ext_tms (cpld_usb env pb) junk pat n u)) = map fst (line u) @ buf_bits pat n"
proof (cases "n = 0")
  case True
  then show ?thesis by (simp add: ext_tms_def xpc_finish_def xts_init_def)
next
  case False
  let ?F = "map (\<lambda>i. (True, buf_bit pat i)) [0..<n]"
  let ?s = "ext_tms_loop (cpld_usb env pb) pat 0 n (0, xts_init junk None, u)"
  have "fed env u None ?F ?s"
    by (rule ext_tms_loop_fed [OF _ _ refl]) (use fed_init in auto)
  from fed_finish [OF this, of pb] False show ?thesis
    by (auto simp: ext_tms_def buf_bits_def comp_def)
qed

lemma block_cycles_fst: "map fst (map (\<lambda>(a, b). (b, a)) (block_cycles inp n lastb)) = replicate (n - 1) False @ [lastb]"
  if "0 < n"
proof -
  have "[0..<n] = [0..<n - 1] @ [n - 1]" using that by (metis Suc_pred' upt_Suc_append zero_le)
  then show ?thesis by (auto simp: block_cycles_def map_replicate_const intro!: nth_equalityI)
qed

interpretation xpc: data_cable "xpc_driver (cpld_usb env pb) 0 junk" line for env pb junk
proof
  fix n pat force w
  show "map fst (line (tx_tms (xpc_driver (cpld_usb env pb) 0 junk) pat n force w)) = map fst (line w) @ buf_bits pat n"
    by (simp add: xpc_driver_def xpc_tx_tms_def XPC_INTERNAL_def ext_tms_line)
next
  fix n tdi want lastb w
  assume "0 < (n :: nat)"
  then show "map fst (line (snd (txrx_block (xpc_driver (cpld_usb env pb) 0 junk) tdi want n lastb w))) =
      map fst (line w) @ replicate (n - 1) False @ [lastb]"
    by (simp add: xpc_driver_def xpc_txrx_block_def XPC_INTERNAL_def ext_block_delivers(1) [OF _ refl] block_cycles_fst del: map_map)
next
  fix n bs want lastb w
  assume "0 < (n :: nat)"
  then show "map snd (line (snd (txrx_block (xpc_driver (cpld_usb env pb) 0 junk) (Some bs) want n lastb w))) =
      map snd (line w) @ buf_bits bs n"
    by (simp add: xpc_driver_def xpc_txrx_block_def XPC_INTERNAL_def ext_block_delivers(1) [OF _ refl])
       (simp add: block_cycles_def in_bit_def buf_bits_def comp_def)
qed

section \<open>The cable on a board\<close>

lemma xpc_bits: "XPC_PROG = 8" "XPC_TCK = 4" "XPC_TMS = 2" "XPC_TDI = 1" "XPC_TDO = 1"
  by (simp_all add: XPC_PROG_def XPC_TCK_def XPC_TMS_def XPC_TDI_def XPC_TDO_def)

lemma write_gpio:
  "xpcu_write_gpio (cpld_usb env pb) b u = (0, u\<lparr>line :=
     (if bit b 2 \<and> \<not> bit (port_e u) 2 then line u @ [(bit b 1, bit b 0)] else line u), port_e := b\<rparr>)"
  by (simp add: xpcu_write_gpio_def xpcu_request_def cpld_usb_def Let_def)

lemma read_gpio: "\<exists>d'. xpcu_read_gpio (cpld_usb env pb) d u = (0, d', u\<lparr>seen := seen u @ [env (line u)]\<rparr>)"
  by (simp add: xpcu_read_gpio_def xpcu_query_def cpld_usb_def Let_def)

definition pins_show :: "bool \<Rightarrow> bool \<Rightarrow> bool" where
  "pins_show a b \<longleftrightarrow>
     (let w = (if a then XPC_TMS else 0); v = (if b then XPC_TDI else 0); hi = XPC_PROG OR XPC_TCK OR w OR v
      in bit hi 2 \<and> bit hi 1 = a \<and> bit hi 0 = b \<and> \<not> bit (XPC_PROG OR (w OR v)) 2)"

lemma pins_show: "pins_show a b"
proof -
  have "\<forall>a \<in> {True, False}. \<forall>b \<in> {True, False}. pins_show a b" by code_simp
  then show ?thesis by (cases a; cases b) auto
qed

lemma pin_levels:
  assumes "w = (if a then XPC_TMS else 0)" and "v = (if b then XPC_TDI else 0)"
  shows "bit (XPC_PROG OR XPC_TCK OR w OR v) 2" "bit (XPC_PROG OR XPC_TCK OR w OR v) 1 = a"
    "bit (XPC_PROG OR XPC_TCK OR w OR v) 0 = b" "\<not> bit (XPC_PROG OR (w OR v)) 2"
  using pins_show [of a b] unfolding assms pins_show_def Let_def by blast+

definition low_byte :: "byte \<Rightarrow> bool" where
  "low_byte b \<longleftrightarrow> (\<forall>k \<ge> 3. \<not> bit b k)"

lemma low_byte_index: "low_byte (of_nat (i mod 8))"
proof -
  have "i mod 8 = take_bit 3 i" by (simp add: take_bit_eq_mod)
  then show ?thesis by (auto simp: low_byte_def bit_of_nat_iff bit_take_bit_iff)
qed

lemma low_byte_le: "low_byte b \<longleftrightarrow> b \<le> 7"
proof
  assume "low_byte b"
  then have "take_bit 3 b = b" unfolding low_byte_def by (intro bit_eqI) (metis bit_take_bit_iff not_le)
  then have "b = b AND mask 3" by (simp add: take_bit_eq_mask)
  then show "b \<le> 7" using word_and_le1 [of b "mask 3"] by (simp add: mask_numeral)
next
  assume "b \<le> 7"
  then have "unat b < 2 ^ 3" by (simp add: word_le_nat_alt)
  then have "unat b < 2 ^ k" if "3 \<le> k" for k
    using that by (meson less_le_trans one_le_numeral power_increasing)
  then have "\<not> bit (unat b) k" if "3 \<le> k" for k
    using that by (simp add: bit_iff_odd)
  then show "low_byte b"
    by (simp add: low_byte_def bit_unsigned_iff)
qed

lemma int_loop_cycles:
  assumes "\<not> bit (port_e u) 2" and "\<forall>m. out = Some m \<longrightarrow> (\<forall>j < nbytes i. low_byte (m ! j)) \<and> nbytes (i + k) \<le> length m"
  shows "\<exists>out' u'. int_loop (cpld_usb env pb) inp lastb i k tdi d (out, u) = (out', u') \<and>
    map fst (line u') = map fst (line u) @ replicate k lastb \<and>
    (\<forall>m. out = Some m \<longrightarrow> (\<exists>m'. out' = Some m' \<and> length m' = length m \<and> (\<forall>j < nbytes (i + k). low_byte (m' ! j))))"
  using assms
proof (induction k arbitrary: i tdi d out u)
  case (Suc k)
  define t where "t = (if i mod 8 = 0 then (case inp of Some bs \<Rightarrow> bs ! (i div 8) | None \<Rightarrow> 0) else tdi)"
  define o1 where "o1 = (if i mod 8 = 0 then map_option (\<lambda>m. m[i div 8 := 0]) out else out)"
  define tm where "tm = (if lastb then XPC_TMS else 0)"
  define td where "td = (if bit t 0 then XPC_TDI else 0)"
  let ?u1 = "u\<lparr>line := line u @ [(lastb, bit t 0)], port_e := XPC_PROG OR XPC_TCK OR tm OR td\<rparr>"
  have high: "xpcu_write_gpio (cpld_usb env pb) (XPC_PROG OR XPC_TCK OR tm OR td) u = (0, ?u1)"
    unfolding write_gpio using pin_levels [OF tm_def td_def] Suc.prems(1) by simp
  have low: "xpcu_write_gpio (cpld_usb env pb) (XPC_PROG OR (tm OR td)) v =
      (0, v\<lparr>port_e := XPC_PROG OR (tm OR td)\<rparr>)" "\<not> bit (XPC_PROG OR (tm OR td)) 2" for v
    unfolding write_gpio using pin_levels [OF tm_def td_def] by simp_all
  obtain d' where rd: "xpcu_read_gpio (cpld_usb env pb) d ?u1 = (0, d', ?u1\<lparr>seen := seen ?u1 @ [env (line ?u1)]\<rparr>)"
    using read_gpio by blast
  define v where "v = (case out of None \<Rightarrow> ?u1 | Some _ \<Rightarrow> ?u1\<lparr>seen := seen ?u1 @ [env (line ?u1)]\<rparr>)"
  define x :: byte where "x = (if d' AND XPC_TDO = XPC_TDO then of_nat (i mod 8) else 0)"
  define o2 where "o2 = map_option (\<lambda>m. m[i div 8 := m ! (i div 8) OR x]) o1"
  have step: "int_loop (cpld_usb env pb) inp lastb i (Suc k) tdi d (out, u) =
      int_loop (cpld_usb env pb) inp lastb (Suc i) k (drop_bit 1 t) (if out = None then d else d')
        (o2, v\<lparr>port_e := XPC_PROG OR (tm OR td)\<rparr>)"
    unfolding int_loop.simps and_7 drop_3 Let_def t_def [symmetric] o1_def [symmetric] tm_def [symmetric] td_def [symmetric] high
    by (cases out) (simp_all add: low rd v_def o2_def x_def o1_def)
  have lowx: "low_byte x" using low_byte_index [of i] by (simp add: x_def low_byte_def)
  have mem: "\<forall>m. o2 = Some m \<longrightarrow> (\<forall>j < nbytes (Suc i). low_byte (m ! j)) \<and> nbytes (Suc i + k) \<le> length m"
  proof (intro allI impI conjI)
    fix m assume "o2 = Some m"
    then obtain m0 where m0: "out = Some m0" by (auto simp: o2_def o1_def split: if_splits)
    define m1 where "m1 = (if i mod 8 = 0 then m0[i div 8 := 0] else m0)"
    have m: "m = m1[i div 8 := m1 ! (i div 8) OR x]" "length m1 = length m0"
      using \<open>o2 = Some m\<close> m0 by (auto simp: o2_def o1_def m1_def split: if_splits)
    have i: "i div 8 < nbytes (Suc i)" "nbytes (Suc i) = i div 8 + 1"
      by (auto simp: nbytes_def div_Suc mod_Suc)
    have room: "nbytes (Suc i + k) \<le> length m0" using Suc.prems(2) m0 by auto
    then show "nbytes (Suc i + k) \<le> length m" by (simp add: m)
    have idx: "i div 8 < length m0" using room nbytes_index [of i "Suc i + k"] by simp
    have old: "low_byte (m1 ! j)" if "j < i div 8 + 1" for j
    proof (cases "i mod 8 = 0")
      case True
      then have "nbytes i = i div 8" by (simp add: nbytes_def)
      then show ?thesis using that True Suc.prems(2) m0 idx
        by (auto simp: m1_def nth_list_update low_byte_def less_Suc_eq)
    next
      case False
      then have "nbytes i = i div 8 + 1" by (simp add: nbytes_def)
      then show ?thesis using that False Suc.prems(2) m0 by (simp add: m1_def)
    qed
    fix j assume "j < nbytes (Suc i)"
    then show "low_byte (m ! j)"
      using old lowx idx i(2) by (auto simp: m nth_list_update low_byte_def bit_or_iff)
  qed
  have port: "\<not> bit (port_e (v\<lparr>port_e := XPC_PROG OR (tm OR td)\<rparr>)) 2" using low(2) by simp
  have line: "map fst (line v) = map fst (line u) @ [lastb]"
    by (simp add: v_def split: option.splits)
  obtain out' u' where fin: "int_loop (cpld_usb env pb) inp lastb (Suc i) k (drop_bit 1 t) (if out = None then d else d')
        (o2, v\<lparr>port_e := XPC_PROG OR (tm OR td)\<rparr>) = (out', u')"
    "map fst (line u') = map fst (line (v\<lparr>port_e := XPC_PROG OR (tm OR td)\<rparr>)) @ replicate k lastb"
    "\<forall>m. o2 = Some m \<longrightarrow> (\<exists>m'. out' = Some m' \<and> length m' = length m \<and> (\<forall>j < nbytes (Suc i + k). low_byte (m' ! j)))"
    using Suc.IH [OF port mem, where tdi = "drop_bit 1 t" and d = "if out = None then d else d'"] by (elim exE conjE)
  have "\<forall>m. out = Some m \<longrightarrow> (\<exists>m'. out' = Some m' \<and> length m' = length m \<and> (\<forall>j < nbytes (i + Suc k). low_byte (m' ! j)))"
    using fin(3) by (auto simp: o2_def o1_def split: if_splits)
  moreover have "map fst (line u') = map fst (line u) @ replicate (Suc k) lastb"
    using fin(2) line by simp
  ultimately show ?case unfolding step using fin(1) by (intro exI conjI)
qed auto

section \<open>What callers get\<close>

lemma last_chunk_short: "n \<le> full_chunk \<Longrightarrow> last_chunk n = 0"
  by (simp add: last_chunk_def full_chunk_def)

lemma block_cycles_zip:
  assumes "0 < n"
  shows "map (\<lambda>(a, b). (b, a)) (block_cycles (Some bs) n lastb) = zip (replicate (n - 1) False @ [lastb]) (buf_bits bs n)"
proof (rule nth_equalityI)
  fix i assume "i < length (map (\<lambda>(a, b). (b, a)) (block_cycles (Some bs) n lastb))"
  then have "i < n" by (simp add: block_cycles_def)
  then show "map (\<lambda>(a, b). (b, a)) (block_cycles (Some bs) n lastb) ! i =
      zip (replicate (n - 1) False @ [lastb]) (buf_bits bs n) ! i"
    by (auto simp: block_cycles_def in_bit_def nth_append)
qed (use assms in \<open>simp add: block_cycles_def\<close>)

text \<open>
  C39. A block through the CPLD of the Platform Cable USB puts its bits on TDI and TMS low but for the
  last bit, however many transfers it takes, and reads one level of TDO per cycle. Of a block of at most
  8191 bits the caller gets all levels in order. Of a longer one it gets the levels of the last transfer
  at the front of its buffer, where those of the first cycles belong: every transfer is copied there.
\<close>

theorem xpc_block_delivers:
  assumes "0 < n" and "n \<le> 8 * length bs"
  shows "let (tdo, u') = txrx_block (xpc_driver (cpld_usb env pb) 0 junk) (Some bs) True n lastb u
     in line u' = line u @ zip (replicate (n - 1) False @ [lastb]) (buf_bits bs n) \<and>
        (\<exists>new. seen u' = seen u @ new \<and> length new = n \<and> (n \<le> 8191 \<longrightarrow> buf_bits tdo n = new) \<and>
           (8191 < n \<longrightarrow> (let c = 8191 * ((n - 1) div 8191) in \<forall>k < n - c. buf_bit tdo k = new ! (c + k))))"
proof -
  let ?r = "ext_block (cpld_usb env pb) junk (Some bs) True n lastb u"
  have drv: "txrx_block (xpc_driver (cpld_usb env pb) 0 junk) (Some bs) True n lastb u = ?r"
    by (simp add: xpc_driver_def xpc_txrx_block_def XPC_INTERNAL_def)
  have line: "line (snd ?r) = line u @ zip (replicate (n - 1) False @ [lastb]) (buf_bits bs n)"
    by (simp add: ext_block_delivers(1) [OF assms(1) refl] block_cycles_zip [OF assms(1)])
  obtain new where new: "seen (snd ?r) = seen u @ new" "length new = n"
    "\<forall>k < n - last_chunk n. buf_bit (fst ?r) k = new ! (last_chunk n + k)"
    using ext_block_delivers(2) [OF assms(1) refl TrueI, of env pb junk "Some bs" lastb u] by (elim exE conjE)
  have "buf_bits (fst ?r) n = new" if "n \<le> 8191"
    using new last_chunk_short [of n] that by (intro nth_equalityI) (simp_all add: full_chunk_def)
  then show ?thesis
    unfolding drv split_beta Let_def using line new by (auto simp: last_chunk_def full_chunk_def)
qed

definition idle_cpld :: cpld where
  "idle_cpld = \<lparr>announced = 0, line = [], seen = [], queue = [], port_e = XPC_PROG\<rparr>"

theorem xpc_block_delivers_witness:
  "let (tdo, u') = txrx_block (xpc_driver (cpld_usb (\<lambda>l. even (length l)) True) 0 0) (Some [0x5a, 0x03]) True 10 True idle_cpld
   in line u' = zip (replicate 9 False @ [True]) (buf_bits [0x5a, 0x03] 10) \<and> (\<exists>new. length new = 10 \<and> buf_bits tdo 10 = new)"
  using xpc_block_delivers [of 10 "[0x5a, 0x03]" "\<lambda>l. even (length l)" True 0 True idle_cpld]
  by (auto simp: idle_cpld_def split_beta Let_def)

text \<open>
  C40. On a board with the adapter on it the last bit of a block is not treated apart: a block that is to
  leave the shift state raises TMS from its first cycle on, so the contract of a cable is broken for every
  block of more than one bit. The bytes read hold the positions of the set bits instead of the bits, so
  none is above 7.
\<close>

theorem xpc_internal_breaks_contract:
  assumes "\<not> bit (port_e u) 2"
  shows "let (tdo, u') = txrx_block (xpc_driver (cpld_usb env pb) XPC_INTERNAL junk) (Some bs) True n lastb u
     in map fst (line u') = map fst (line u) @ replicate n lastb \<and>
        (2 \<le> n \<and> lastb \<longrightarrow> map fst (line u') \<noteq> map fst (line u) @ replicate (n - 1) False @ [lastb]) \<and>
        length tdo = nbytes n \<and> (\<forall>b \<in> set tdo. b \<le> 7)"
proof -
  let ?out = "Some (replicate (nbytes n) junk)"
  have "\<forall>m. ?out = Some m \<longrightarrow> (\<forall>j < nbytes 0. low_byte (m ! j)) \<and> nbytes (0 + n) \<le> length m" by simp
  from int_loop_cycles [OF assms this, of env pb "Some bs" lastb junk junk]
  obtain m u' where run: "int_loop (cpld_usb env pb) (Some bs) lastb 0 n junk junk (?out, u) = (Some m, u')"
    "map fst (line u') = map fst (line u) @ replicate n lastb" "length m = nbytes n"
    "\<forall>j < nbytes n. low_byte (m ! j)"
    by auto
  then have drv: "txrx_block (xpc_driver (cpld_usb env pb) XPC_INTERNAL junk) (Some bs) True n lastb u = (m, u')"
    by (simp add: xpc_driver_def xpc_txrx_block_def int_block_def)
  have "replicate n True \<noteq> replicate (n - 1) False @ [True]" if "2 \<le> n"
  proof
    assume "replicate n True = replicate (n - 1) False @ [True]"
    then have "replicate n True ! 0 = (replicate (n - 1) False @ [True]) ! 0" by simp
    then show False using that by (simp add: nth_append)
  qed
  moreover have "\<forall>b \<in> set m. b \<le> 7"
    using run(3,4) by (auto simp: in_set_conv_nth low_byte_le [symmetric])
  ultimately show ?thesis
    unfolding drv using run(2,3) by auto
qed

theorem xpc_internal_breaks_contract_witness:
  "let (tdo, u') = txrx_block (xpc_driver (cpld_usb (\<lambda>l. True) True) XPC_INTERNAL 0) (Some [0x5a]) True 8 True idle_cpld
   in map fst (line u') = replicate 8 True \<and> map fst (line u') \<noteq> replicate 7 False @ [True] \<and> (\<forall>b \<in> set tdo. b \<le> 7)"
proof -
  have "\<not> bit (port_e idle_cpld) 2" by code_simp
  from xpc_internal_breaks_contract [OF this, of "\<lambda>l. True" True 0 "[0x5a]" 8 True] show ?thesis
    by (auto simp: idle_cpld_def Let_def split_beta)
qed

end
