(* ===== verification/Spec2Isabelle.thy ===== *)
theory Spec2Isabelle
  imports BitRev BitFileMcs MapXC2C Srec XCFRoundtrip XC95XProps XC2CProps XC3SProps XCFPProps SPIClaims SPIGeometry DeviceDBProps CableDBProps AVRProps XmegaProps CliProps ChainProps Dispatch FlowXC95XProps FlowXCFProps FlowSafety FlowXC2CProps ParportProps XpcClaims
begin

text \<open>
  xc3sprog programs FPGAs, CPLDs, configuration PROMs, SPI flashes and AVR microcontrollers through
  JTAG cables. This library models it from the command line to the lines of the cable and proves what
  a user relies on: the bits on the wire, the contents of the parts, the files.

  \<^bold>\<open>How the program works.\<close> \<^verbatim>\<open>main\<close> (\<^verbatim>\<open>xc3sprog.cpp\<close>) opens a cable, lets the class \<^verbatim>\<open>Jtag\<close> find
  the chain, looks the devices up in the database, and hands the selected one to a function
  \<^verbatim>\<open>program...\<close>. This parses file specifications, reads files into one of the file classes and calls a
  programming algorithm. The algorithm only calls \<^verbatim>\<open>shiftIR\<close>, \<^verbatim>\<open>shiftDR\<close>, \<^verbatim>\<open>cycleTCK\<close>,
  \<^verbatim>\<open>setTapState\<close> and \<^verbatim>\<open>Usleep\<close> of \<^verbatim>\<open>Jtag\<close>, which turns them into blocks of bits for the base class
  \<^verbatim>\<open>IOBase\<close> of the cables and its virtual methods \<^verbatim>\<open>txrx_block\<close> and \<^verbatim>\<open>tx_tms\<close>.

  \<^bold>\<open>Layers and their contracts.\<close> Each layer is verified against a contract that the layer below meets.

  \<^enum> Cables. \<open>IOBase\<close> models \<^verbatim>\<open>iobase.cpp\<close>: a buffer of TMS bits, and blocks over a record of the virtual
    methods. What a driver owes its caller are the locales \<open>tms_cable\<close> and \<open>data_cable\<close>: the pairs of TMS
    and TDI at the rising edges of TCK. \<open>Bitbang\<close> has the loops that \<^verbatim>\<open>iogpiodpi.cpp\<close> and
    \<^verbatim>\<open>ioparport.cpp\<close> share and the locale \<open>bitbang\<close> for a single cycle; \<open>Gpio\<close> and \<open>Parport\<close> interpret it,
    \<open>ParportProps\<close> adds the recognition of the cable. \<open>Xpc\<close> models \<^verbatim>\<open>ioxpc.cpp\<close>; \<open>XpcCpld\<close>, \<open>XpcTransfer\<close>,
    \<open>XpcProps\<close> and \<open>XpcClaims\<close> put it against the adapter that its comments document. The states of the
    drivers are histories of the calls to the library or the port, or the state behind the calls; what
    they answer is a function \<open>env\<close> of the history, so every theorem holds for every chain.
  \<^enum> The TAP. \<open>Tap\<close> holds the sixteen states of IEEE 1149.1 as the specification. \<open>Jtag\<close> models
    \<^verbatim>\<open>jtag.cpp\<close>; its record has \<open>current_state\<close>, the chain and the flag of an open data scan. \<open>JtagSync\<close>
    and \<open>JtagScan\<close> prove, inside the contract of the cables, that the navigation terminates, that
    \<open>current_state\<close> is the state that TMS has put the chain into, and that a scan delivers exactly the
    bypass bits and the data of the caller.
  \<^enum> Algorithms. \<open>JtagOps\<close> gives programs over the calls of \<^verbatim>\<open>Jtag\<close>, functions on the history of calls
    whose answers are arbitrary, and the protocol \<open>ops_run\<close> that \<open>Jtag\<close> needs to keep in step; \<open>tracks\<close>
    proves that a program obeys it. \<open>JtagSpec\<close> has the devices, views of the history, and the
    weakest precondition \<open>wp\<close> for total correctness. \<open>ProgAlg\<close> is the interface of \<^verbatim>\<open>progalg.h\<close> with the
    locale \<open>prog_protocol\<close>. The algorithms are \<open>ProgXCF\<close> (\<^verbatim>\<open>progalgxcf.cpp\<close>), \<open>ProgXCFP\<close>, \<open>ProgXC95X\<close>,
    \<open>ProgXC2C\<close>, \<open>ProgXC3S\<close>, \<open>ProgAVR\<close>, the SPI flashes in \<open>SPIFlash\<close>, \<open>SPIInfo\<close> and \<open>ProgSPI\<close>, and
    the XMEGA parts in \<open>Pdi\<close> and \<open>Xmega\<close>, one definition for each method.
  \<^enum> Files. \<open>CStdio\<close> and \<open>CScan\<close> hold the streams, \<^verbatim>\<open>sscanf\<close> and \<^verbatim>\<open>printf\<close> of C as far as they are used.
    \<open>BitFile\<close>, \<open>Jedec\<close>, \<open>MapXC2C\<close>, \<open>Srec\<close> and \<open>BitRev\<close> model the file classes, \<open>DeviceDB\<close> and
    \<open>CableDB\<close> the two lists. Reads and writes beyond a buffer are errors of the type \<open>res\<close>.
  \<^enum> Sessions. \<open>Cli\<close> parses file specifications, \<open>Chain\<close> sets up the chain, \<open>Flow\<close>, \<open>FlowXCF\<close>, \<open>Flows\<close> and
    \<open>FlowXmega\<close> are the functions \<^verbatim>\<open>program...\<close>, and \<open>Dispatch\<close> is the end of \<^verbatim>\<open>main\<close>. A session has
    one link, a history of calls, for each device of the chain, the calls for all devices in their order,
    and the files. It starts with the chain that \<open>Chain.init_chain\<close> has found; choosing a device then makes
    no call, and \<open>get_id_select_id\<close> shows that \<open>Flow.select_id\<close> is what \<open>Chain.get_id\<close> does on the class.

  \<^bold>\<open>What is proved.\<close> The theories named \<open>...Props\<close>, \<open>...Claims\<close>, \<open>...Roundtrip\<close> and \<open>...Safety\<close> hold the
  properties, each after a text block with its number.

  \<^item> Round trips of the files: bit, MCS and JEDEC files, fuse maps, the lists, specifications.
  \<^item> Round trips through the parts: what an algorithm has programmed it verifies and reads back, for the
    parts that can be read, as a theorem of total correctness on a device with the documented commands. The
    layouts are part of it: \<open>XC95XCells\<close> and \<open>XC2CRows\<close> for fuses and words, \<open>XCFProm\<close>, \<open>XCFPProm\<close>,
    \<open>SPIDevice\<close> and \<open>XmegaDevice\<close> for addresses and frames.
  \<^item> Refinement: what programming commits is the list of blocks of the file (\<open>XCFRoundtrip\<close>), what a
    block of the USB cable sends and returns is the stream of its bits (\<open>XpcClaims\<close>).
  \<^item> Composition: \<open>ChainProps\<close> joins cable, TAP, chain detection, database and any algorithm that obeys
    the protocol; \<open>FlowSafety\<close> shows that the calls of whole sessions, from one device to the next, obey it, \<open>FlowXC95XProps\<close> goes from a JEDEC
    file to the part and back to a file, \<open>FlowXCFProps\<close> shows how a file is spread over several PROMs.
  \<^item> Errors: what the code does on failures and on inputs at the edge, several of them defects that the
    manifest lists as findings.

  \<^bold>\<open>Bounds.\<close> The loop of \<^verbatim>\<open>setTapState\<close> is a \<open>partial_function\<close>, since it does not return for the target
  \<open>UNKNOWN\<close>; \<open>JtagScan\<close> proves that it returns for all others. \<open>tap_fuel\<close> runs it with a bound for
  evaluation, 8 steps reach every state. The loop of \<^verbatim>\<open>progalgxc3s.cpp\<close> that waits for a part to be
  cleared has no bound in the source; its \<open>fuel\<close> is universally quantified and the theorem says that it
  returns exactly when the part is cleared within it. The loops of the other algorithms have the bounds of
  the source, as the argument of \<open>jloop\<close>, \<open>jscan\<close> or of a recursion; the rest are recursions on a measure. Integers have their width where they can wrap: offsets and
  lengths of sessions, addresses, checksums and bytes are words.

  \<^bold>\<open>What stands for the rest of the world.\<close> Library and operating system calls are parameters: the
  environment of a cable, the file system, the built-in lists that the build generates, the programmer
  \<^verbatim>\<open>javr\<close>. Uninitialised memory is an argument \<open>junk\<close>. Devices in the theorems are definitions or
  hypotheses that state documented behaviour, and a witness shows a part that has it.

  \<^bold>\<open>Not modelled.\<close> The drivers \<^verbatim>\<open>ioftdi.cpp\<close> and \<^verbatim>\<open>iofx2.cpp\<close> write command streams for chips and
  firmware that are not in the repository. \<^verbatim>\<open>iodebug.cpp\<close> and \<^verbatim>\<open>debug.cpp\<close> talk to a terminal. Of
  \<^verbatim>\<open>xc3sprog.cpp\<close> and \<^verbatim>\<open>utilities.cpp\<close> the \<^verbatim>\<open>getopt\<close> loop, the help texts, the endless test of the
  chain and the timer are left out, in all files messages, time measurements and debug files. The class
  for AVR fuse files belongs to the tool \<^verbatim>\<open>avrfuseparse\<close> alone, and the directory \<^verbatim>\<open>javr\<close> is a vendored
  programmer with a JTAG layer of its own. The small tools
  (\<^verbatim>\<open>bitparse\<close>, \<^verbatim>\<open>jedecparse\<close>, \<^verbatim>\<open>srecparse\<close>, \<^verbatim>\<open>xc2c_warp\<close>, \<^verbatim>\<open>detectchain\<close>, \<^verbatim>\<open>readdna\<close>) are command
  lines around classes that are modelled. Opening and releasing devices is pure input and output.
\<close>

end
